(* ===== verification/CatOS_Prelude.thy ===== *)
theory CatOS_Prelude
  imports Main "HOL-Library.Word" "HOL-Library.Monad_Syntax"
begin

text \<open>
  Shared vocabulary of the Cat-OS development: names for the C integer types, the status codes
  and the permission bits of \<^verbatim>\<open>include/types.h\<close>, the loop combinator that models the kernel's
  bounded \<^verbatim>\<open>for\<close> loops, and the word and list lemmas that more than one component uses.

  A C function that can index a static array outside its bounds returns an \<^typ>\<open>'a option\<close>;
  \<open>None\<close> stands for that undefined behaviour and is propagated by every caller.
\<close>

unbundle bit_operations_syntax

named_theorems catos_const \<open>constants of the C headers, for unfolding\<close>
named_theorems word_nat \<open>lemmas that move a word goal to natural numbers\<close>

type_synonym u8 = "8 word"
type_synonym u16 = "16 word"
type_synonym u32 = "32 word"

section \<open>Constants of the C headers\<close>

text \<open>
  \<^verbatim>\<open>status_t\<close> is a C enumeration with negative members that the system-call layer casts to and
  from \<^verbatim>\<open>uint32_t\<close> (it also carries process identifiers and addresses through the same type), so a
  status is a 32-bit word in two's complement.
\<close>

type_synonym status_t = u32

definition STATUS_SUCCESS :: status_t where [catos_const]: "STATUS_SUCCESS = 0"
definition STATUS_ERROR :: status_t where [catos_const]: "STATUS_ERROR = -1"
definition STATUS_INVALID_PARAM :: status_t where [catos_const]: "STATUS_INVALID_PARAM = -2"
definition STATUS_OUT_OF_MEMORY :: status_t where [catos_const]: "STATUS_OUT_OF_MEMORY = -3"
definition STATUS_PERMISSION_DENIED :: status_t where [catos_const]: "STATUS_PERMISSION_DENIED = -4"
definition STATUS_NOT_FOUND :: status_t where [catos_const]: "STATUS_NOT_FOUND = -5"
definition STATUS_TIMEOUT :: status_t where [catos_const]: "STATUS_TIMEOUT = -6"
definition STATUS_ALREADY_EXISTS :: status_t where [catos_const]: "STATUS_ALREADY_EXISTS = -7"
definition STATUS_NOT_IMPLEMENTED :: status_t where [catos_const]: "STATUS_NOT_IMPLEMENTED = -8"

definition PERM_READ :: u32 where [catos_const]: "PERM_READ = 0x01"
definition PERM_WRITE :: u32 where [catos_const]: "PERM_WRITE = 0x02"
definition PERM_EXECUTE :: u32 where [catos_const]: "PERM_EXECUTE = 0x04"
definition PERM_CREATE :: u32 where [catos_const]: "PERM_CREATE = 0x08"
definition PERM_DELETE :: u32 where [catos_const]: "PERM_DELETE = 0x10"
definition PERM_TRANSFER :: u32 where [catos_const]: "PERM_TRANSFER = 0x20"
definition PERM_ALLOC :: u32 where [catos_const]: "PERM_ALLOC = 0x40"
definition PERM_FREE :: u32 where [catos_const]: "PERM_FREE = 0x80"

abbreviation PAGE_SIZE :: u32 where "PAGE_SIZE \<equiv> 4096"
definition MAX_PROCESSES :: nat where "MAX_PROCESSES = 64"

section \<open>Bounded loops\<close>

text \<open>
  \<open>for_each body xs s\<close> runs \<open>body\<close> for the successive values in \<open>xs\<close> of the loop counter; a
  \<open>None\<close> from the body ends it. A C loop \<^verbatim>\<open>for (i = a; i < b; i++)\<close> is \<open>for_each body [a..<b]\<close>.
\<close>

fun for_each :: "('i \<Rightarrow> 's \<Rightarrow> 's option) \<Rightarrow> 'i list \<Rightarrow> 's \<Rightarrow> 's option" where
  "for_each body [] s = Some s"
| "for_each body (i # is) s =
     (case body i s of None \<Rightarrow> None | Some s' \<Rightarrow> for_each body is s')"

lemma for_each_append:
  "for_each body (xs @ ys) s = Option.bind (for_each body xs s) (for_each body ys)"
  by (induction xs arbitrary: s) (auto split: option.splits)

lemma for_each_cong [fundef_cong]:
  assumes "xs = ys" and "s = t" and "\<And>i u. i \<in> set ys \<Longrightarrow> body i u = body' i u"
  shows "for_each body xs s = for_each body' ys t"
  unfolding assms(1,2) using assms(3)
  by (induction ys arbitrary: t) (auto split: option.splits)

text \<open>Total correctness of a counting loop: the invariant is indexed by the next counter value.\<close>

lemma for_each_upt_total:
  assumes "a \<le> b" and "P a s"
    and "\<And>i t. a \<le> i \<Longrightarrow> i < b \<Longrightarrow> P i t \<Longrightarrow> \<exists>t'. body i t = Some t' \<and> P (Suc i) t'"
  shows "\<exists>s'. for_each body [a..<b] s = Some s' \<and> P b s'"
  using assms(1) assms(3)
proof (induction b rule: dec_induct)
  case base
  then show ?case using assms(2) by simp
next
  case (step n)
  then obtain t where t: "for_each body [a..<n] s = Some t" "P n t"
    by (metis less_SucI)
  from step.prems[of n t] step.hyps t(2) obtain t' where "body n t = Some t'" "P (Suc n) t'"
    by auto
  with t(1) step.hyps show ?case
    by (simp add: for_each_append)
qed

text \<open>Partial correctness over an arbitrary list of counter values.\<close>

lemma for_each_invariant:
  assumes "for_each body xs s = Some s'" and "P s"
    and "\<And>i t t'. i \<in> set xs \<Longrightarrow> P t \<Longrightarrow> body i t = Some t' \<Longrightarrow> P t'"
  shows "P s'"
  using assms
proof (induction xs arbitrary: s)
  case (Cons a xs)
  from Cons.prems(1) obtain t where t: "body a s = Some t" "for_each body xs t = Some s'"
    by (auto split: option.splits)
  from Cons.prems(2,3) t(1) have "P t" by (meson list.set_intros(1))
  with t(2) Cons.prems(3) show ?case
    by (intro Cons.IH) (auto intro: list.set_intros)
qed simp

text \<open>A search loop that stops at the first hit is \<^const>\<open>find\<close> over the counter values.\<close>

lemma find_upt_Some_iff:
  "find Q [0..<n] = Some i \<longleftrightarrow> i < n \<and> Q i \<and> (\<forall>j < i. \<not> Q j)"
  by (auto simp: find_Some_iff)

lemma find_upt_None_iff: "find Q [0..<n] = None \<longleftrightarrow> (\<forall>i < n. \<not> Q i)"
  by (auto simp: find_None_iff)

section \<open>Words and natural numbers\<close>

lemma unat_of_nat32 [word_nat]: "n < 2 ^ 32 \<Longrightarrow> unat (of_nat n :: u32) = n"
  by (simp add: unat_of_nat take_bit_nat_eq_self)

lemma unat_add_small [word_nat]:
  fixes a b :: u32
  assumes "unat a + unat b < 2 ^ 32"
  shows "unat (a + b) = unat a + unat b"
  using assms by (simp add: unat_word_ariths)

lemma unat_mult_small [word_nat]:
  fixes a b :: u32
  assumes "unat a * unat b < 2 ^ 32"
  shows "unat (a * b) = unat a * unat b"
  using assms by (simp add: unat_word_ariths)

lemma unat_lt_32 [simp]: "unat (w :: u32) < 4294967296"
  using unsigned_less[of w] by simp

lemma word32_eq_iff_unat: "(a :: u32) = b \<longleftrightarrow> unat a = unat b"
  by (simp add: word_unat_eq_iff)

end
