(* ===== verification/Machine_Memory.thy ===== *)
theory Machine_Memory
  imports CatOS_Prelude
begin

text \<open>
  The flat 32-bit physical memory the kernel works on. Page tables, page directories, capabilities,
  IPC queues and messages and the process stacks all live in pages that the kernel obtains from
  its physical page allocator and accesses through casts, so they share one byte-addressed store;
  structure fields are little-endian words at the offsets the C layout gives them. The kernel
  runs on an identity mapping, so a pointer is a physical address; a write through a null pointer
  changes page 0, as it does on the machine.

  \<^verbatim>\<open>memset\<close> and \<^verbatim>\<open>memcpy\<close> of \<^verbatim>\<open>kernel/main.c\<close> are given as their loops, and then shown equal to
  closed forms.
\<close>

type_synonym memory = "u32 \<Rightarrow> u8"

definition load32 :: "memory \<Rightarrow> u32 \<Rightarrow> u32" where
  "load32 m a = ucast (m a) OR push_bit 8 (ucast (m (a + 1)))
     OR push_bit 16 (ucast (m (a + 2))) OR push_bit 24 (ucast (m (a + 3)))"

definition store32 :: "memory \<Rightarrow> u32 \<Rightarrow> u32 \<Rightarrow> memory" where
  "store32 m a v = m(a := ucast v, a + 1 := ucast (drop_bit 8 v),
     a + 2 := ucast (drop_bit 16 v), a + 3 := ucast (drop_bit 24 v))"

text \<open>\<^verbatim>\<open>while (n--) { *p++ = (uint8_t)c; }\<close>\<close>

fun memset :: "memory \<Rightarrow> u32 \<Rightarrow> u8 \<Rightarrow> nat \<Rightarrow> memory" where
  "memset m p c 0 = m"
| "memset m p c (Suc n) = memset (m(p := c)) (p + 1) c n"

text \<open>\<^verbatim>\<open>while (n--) { *d++ = *s++; }\<close>\<close>

fun memcpy :: "memory \<Rightarrow> u32 \<Rightarrow> u32 \<Rightarrow> nat \<Rightarrow> memory" where
  "memcpy m d s 0 = m"
| "memcpy m d s (Suc n) = memcpy (m(d := m s)) (d + 1) (s + 1) n"

section \<open>Words in memory\<close>

text \<open>Two words that do not share a byte, also across the end of the address space.\<close>

definition word_disjoint :: "u32 \<Rightarrow> u32 \<Rightarrow> bool" where
  "word_disjoint a b \<longleftrightarrow> 4 \<le> unat (a - b) \<and> 4 \<le> unat (b - a)"

lemma ucast_bytes_id:
  "(ucast (ucast v :: u8) :: u32) OR push_bit 8 (ucast (ucast (drop_bit 8 v) :: u8))
     OR push_bit 16 (ucast (ucast (drop_bit 16 v) :: u8))
     OR push_bit 24 (ucast (ucast (drop_bit 24 v) :: u8)) = v"
proof (rule bit_word_eqI)
  fix n assume "n < LENGTH(32)"
  then have n: "n < 32" by simp
  consider "n < 8" | "8 \<le> n \<and> n < 16" | "16 \<le> n \<and> n < 24" | "24 \<le> n" by linarith
  then show "bit ((ucast (ucast v :: u8) :: u32) OR push_bit 8 (ucast (ucast (drop_bit 8 v) :: u8))
     OR push_bit 16 (ucast (ucast (drop_bit 16 v) :: u8))
     OR push_bit 24 (ucast (ucast (drop_bit 24 v) :: u8))) n = bit v n"
    by cases (use n in \<open>auto simp: bit_simps\<close>)
qed

lemma load32_store32_same [simp]: "load32 (store32 m a v) a = v"
  by (simp add: load32_def store32_def ucast_bytes_id)

lemma load32_cong: "(\<And>k. k < 4 \<Longrightarrow> m (a + of_nat k) = m' (a + of_nat k)) \<Longrightarrow> load32 m a = load32 m' a"
proof -
  assume *: "\<And>k. k < 4 \<Longrightarrow> m (a + of_nat k) = m' (a + of_nat k)"
  show ?thesis
    using *[of 0] *[of 1] *[of 2] *[of 3] by (simp add: load32_def)
qed

lemma store32_other_byte: "4 \<le> unat (x - a) \<Longrightarrow> store32 m a v x = m x"
proof -
  assume *: "4 \<le> unat (x - a)"
  have "x \<noteq> a" "x \<noteq> a + 1" "x \<noteq> a + 2" "x \<noteq> a + 3"
    using * by auto
  then show ?thesis by (simp add: store32_def)
qed

lemma unat_add_uminus: "(d :: u32) \<noteq> 0 \<Longrightarrow> unat d + unat (- d) = 2 ^ 32"
proof -
  assume "d \<noteq> 0"
  then have "0 < uint d" by (simp add: word_less_def [symmetric] word_neq_0_conv [symmetric] uint_0_iff order_less_le)
  moreover have "uint d < 2 ^ 32" using uint_bounded[of d] by simp
  moreover have "uint (- d) = (- uint d) mod 2 ^ 32" by (simp add: uint_word_ariths)
  ultimately have "uint d + uint (- d) = 2 ^ 32"
    by (simp add: zmod_zminus1_eq_if)
  then have "int (unat d + unat (- d)) = int (2 ^ 32)" by simp
  then show ?thesis by (simp only: of_nat_eq_iff)
qed

lemma load32_store32_disjoint:
  assumes "word_disjoint a b"
  shows "load32 (store32 m a v) b = load32 m b"
proof (rule load32_cong)
  fix k :: nat assume k: "k < 4"
  let ?d = "b - a"
  from assms have d: "4 \<le> unat ?d" "4 \<le> unat (- ?d)"
    by (simp_all add: word_disjoint_def)
  have "unat ?d + unat (- ?d) = 2 ^ 32"
    using d by (intro unat_add_uminus) auto
  with d(2) k have "unat ?d + k < 2 ^ 32" by linarith
  then have "unat (?d + of_nat k) = unat ?d + k"
    using k by (simp add: unat_add_small word_nat)
  then have "4 \<le> unat (b + of_nat k - a)"
    using d(1) by (simp add: algebra_simps)
  then show "store32 m a v (b + of_nat k) = m (b + of_nat k)"
    by (rule store32_other_byte)
qed

subsection \<open>Aligned words\<close>

definition aligned4 :: "u32 \<Rightarrow> bool" where
  "aligned4 a \<longleftrightarrow> unat a mod 4 = 0"

definition page_aligned :: "u32 \<Rightarrow> bool" where
  "page_aligned p \<longleftrightarrow> unat p mod 4096 = 0"

lemma unat_diff_mod4:
  fixes a b :: u32
  assumes "aligned4 a" "aligned4 b"
  shows "unat (a - b) mod 4 = 0"
proof -
  have "int 4 dvd int (unat a)" "int 4 dvd int (unat b)"
    using assms by (simp_all only: aligned4_def mod_eq_0_iff_dvd int_dvd_int_iff)
  then have "(4 :: int) dvd uint a" "(4 :: int) dvd uint b" by simp_all
  then have "(4 :: int) dvd (uint a - uint b) mod 2 ^ 32"
    by (simp add: dvd_mod_iff)
  then have "int 4 dvd int (unat (a - b))"
    by (simp add: uint_word_ariths)
  then show ?thesis by (simp only: int_dvd_int_iff mod_eq_0_iff_dvd)
qed

lemma aligned4_disjoint:
  assumes "aligned4 a" "aligned4 b" "a \<noteq> b"
  shows "word_disjoint a b"
proof -
  have "unat (a - b) \<noteq> 0" "unat (b - a) \<noteq> 0"
    using assms(3) by (auto simp: unat_eq_zero)
  moreover have "unat (a - b) mod 4 = 0" "unat (b - a) mod 4 = 0"
    using assms(1,2) by (auto intro: unat_diff_mod4)
  ultimately show ?thesis unfolding word_disjoint_def by presburger
qed

lemma load32_store32_aligned:
  assumes "aligned4 a" "aligned4 b"
  shows "load32 (store32 m a v) b = (if a = b then v else load32 m b)"
  using assms by (auto simp: load32_store32_disjoint aligned4_disjoint)

subsection \<open>Pages\<close>

text \<open>Inside a page nothing wraps around: an offset below 4096 adds to the base as a number.\<close>

lemma page_alignedE:
  assumes "page_aligned p"
  obtains k where "unat p = 4096 * k" "k < 1048576"
proof -
  from assms obtain k where k: "unat p = 4096 * k"
    by (auto simp: page_aligned_def mod_eq_0_iff_dvd)
  moreover have "k < 1048576" using unat_lt_32[of p] k by linarith
  ultimately show thesis by (rule that)
qed

lemma page_aligned_bound: "page_aligned p \<Longrightarrow> unat p \<le> 2 ^ 32 - 4096"
  by (erule page_alignedE) simp

lemma unat_page_offset:
  assumes "page_aligned p" "unat i < 4096"
  shows "unat (p + i) = unat p + unat i"
  using page_aligned_bound[OF assms(1)] assms(2) by (intro unat_add_small) simp

lemma page_offset_inj:
  assumes "page_aligned p" "page_aligned q" "unat i < 4096" "unat j < 4096"
  shows "p + i = q + j \<longleftrightarrow> p = q \<and> i = j"
proof
  assume "p + i = q + j"
  then have eq: "unat p + unat i = unat q + unat j"
    using assms by (metis unat_page_offset)
  have "unat i = unat j"
    using assms arg_cong[OF eq, of "\<lambda>x. x mod 4096"]
    by (simp add: page_aligned_def mod_add_left_eq [symmetric, of "unat p"]
        mod_add_left_eq [symmetric, of "unat q"])
  with eq show "p = q \<and> i = j" by (simp add: word32_eq_iff_unat)
qed simp

lemma page_offset_div:
  assumes "page_aligned p" "unat i < 4096"
  shows "unat (p + i) div 4096 = unat p div 4096"
  using assms by (simp add: unat_page_offset page_aligned_def div_add1_eq[of "unat p"])

lemma aligned4_page_offset:
  assumes "page_aligned p" "unat i < 4096" "unat i mod 4 = 0"
  shows "aligned4 (p + i)"
proof -
  have "unat p mod 4 = 0" using assms(1) by (auto elim!: page_alignedE)
  then show ?thesis using assms by (simp add: aligned4_def unat_page_offset mod_add_eq [symmetric])
qed

text \<open>The page with a given frame number.\<close>

definition page_addr :: "nat \<Rightarrow> u32" where
  "page_addr i = of_nat i * 4096"

lemma unat_page_addr: "i < 2 ^ 20 \<Longrightarrow> unat (page_addr i) = 4096 * i"
  unfolding page_addr_def by (subst unat_mult_small) (simp_all add: word_nat)

lemma page_aligned_page_addr [simp]: "i < 2 ^ 20 \<Longrightarrow> page_aligned (page_addr i)"
  by (simp add: page_aligned_def unat_page_addr)

lemma page_addr_inj: "i < 2 ^ 20 \<Longrightarrow> j < 2 ^ 20 \<Longrightarrow> page_addr i = page_addr j \<longleftrightarrow> i = j"
  by (auto simp: word32_eq_iff_unat unat_page_addr)

lemma page_aligned_conv: "page_aligned p \<longleftrightarrow> (\<exists>i < 2 ^ 20. p = page_addr i)"
proof
  assume *: "page_aligned p"
  then obtain k where "unat p = 4096 * k" "k < 1048576" by (rule page_alignedE)
  then show "\<exists>i < 2 ^ 20. p = page_addr i"
    by (auto simp: word32_eq_iff_unat unat_page_addr intro!: exI[of _ k])
qed auto

section \<open>Closed forms of memset and memcpy\<close>

lemma unat_minus_one_word32: "unat (- 1 :: u32) = 4294967295"
  by (simp add: unsigned_minus_1_eq_mask mask_eq_exp_minus_1)

lemma unat_diff_Suc:
  fixes a p :: u32
  assumes "a \<noteq> p"
  shows "unat (a - p) = Suc (unat (a - (p + 1)))"
proof -
  have "a - p \<noteq> 0" using assms by simp
  then have "unat ((a - p) - 1) = unat (a - p) - 1" by (rule unat_minus_one)
  moreover have "0 < unat (a - p)" using \<open>a - p \<noteq> 0\<close> by (simp add: unat_gt_0)
  moreover have "a - p - 1 = a - (p + 1)" by simp
  ultimately show ?thesis by simp
qed

lemma memset_apply:
  assumes "n \<le> 2 ^ 32"
  shows "memset m p c n a = (if unat (a - p) < n then c else m a)"
  using assms
proof (induction n arbitrary: m p)
  case (Suc n)
  show ?case
  proof (cases "a = p")
    case True
    have "unat (p - (p + 1)) = 2 ^ 32 - 1" by (simp add: unat_minus_one_word32)
    with Suc.prems have "\<not> unat (p - (p + 1)) < n" by simp
    with Suc True show ?thesis by simp
  next
    case False
    with Suc show ?thesis by (simp add: unat_diff_Suc[OF False])
  qed
qed simp

lemma page_byte_diff:
  assumes "page_aligned p"
  shows "unat (a - p) < 4096 \<longleftrightarrow> unat a div 4096 = unat p div 4096"
proof
  assume *: "unat (a - p) < 4096"
  have "unat (p + (a - p)) div 4096 = unat p div 4096"
    by (rule page_offset_div[OF assms *])
  then show "unat a div 4096 = unat p div 4096" by simp
next
  assume *: "unat a div 4096 = unat p div 4096"
  from assms obtain k where k: "unat p = 4096 * k" by (rule page_alignedE)
  with * have "unat a = 4096 * k + unat a mod 4096"
    by (metis mult_div_mod_eq nonzero_mult_div_cancel_left zero_neq_numeral)
  moreover have "unat a mod 4096 < 4096" by simp
  ultimately have "unat p \<le> unat a" and "unat a - unat p < 4096"
    using k by linarith+
  then show "unat (a - p) < 4096" by (simp add: unat_sub word_le_nat_alt)
qed

text \<open>Clearing a page zeroes exactly the bytes of that page.\<close>

lemma memset_page:
  assumes "page_aligned p"
  shows "memset m p c 4096 a = (if unat a div 4096 = unat p div 4096 then c else m a)"
  by (simp add: memset_apply page_byte_diff[OF assms])

lemma load32_zero_bytes: "(\<And>k. k < 4 \<Longrightarrow> m (a + of_nat k) = 0) \<Longrightarrow> load32 m a = 0"
  using load32_cong[of m a "\<lambda>_. 0"] by (simp add: load32_def)

lemma word_in_page:
  assumes "page_aligned p" "unat i < 4096" "unat i mod 4 = 0" "k < 4"
  shows "unat (p + i + of_nat k) div 4096 = unat p div 4096"
proof -
  have "unat i + k < 4096" using assms(2-4) by presburger
  then have "unat (i + of_nat k) < 4096"
    using assms(4) by (subst unat_add_small) (simp_all add: word_nat)
  from page_offset_div[OF assms(1) this] show ?thesis by (simp add: add.assoc)
qed

lemma store32_other_page:
  assumes "page_aligned p" "unat i < 4096" "unat i mod 4 = 0" "unat a div 4096 \<noteq> unat p div 4096"
  shows "store32 m (p + i) v a = m a"
proof (rule store32_other_byte, rule ccontr)
  assume "\<not> 4 \<le> unat (a - (p + i))"
  then have "unat (p + i + of_nat (unat (a - (p + i)))) div 4096 = unat p div 4096"
    by (intro word_in_page[OF assms(1-3)]) simp
  with assms(4) show False by simp
qed

lemma load32_other_page:
  assumes "page_aligned q" "unat i < 4096" "unat i mod 4 = 0"
    and "\<And>a. unat a div 4096 = unat q div 4096 \<Longrightarrow> m a = m' a"
  shows "load32 m (q + i) = load32 m' (q + i)"
  using word_in_page[OF assms(1-3)] assms(4) by (intro load32_cong) auto

lemma load32_memset_page:
  assumes "page_aligned p" "page_aligned q" "unat i < 4096" "unat i mod 4 = 0"
  shows "load32 (memset m p 0 4096) (q + i) = (if q = p then 0 else load32 m (q + i))"
proof (cases "q = p")
  case True
  then show ?thesis
    using word_in_page[OF assms(1,3,4)] assms(1) by (auto intro!: load32_zero_bytes simp: memset_page)
next
  case False
  then have "unat q div 4096 \<noteq> unat p div 4096"
    using assms(1,2) by (auto simp: page_aligned_def word32_eq_iff_unat)
  then show ?thesis
    using word_in_page[OF assms(2-4)] assms(1) False by (auto intro!: load32_cong simp: memset_page)
qed

lemma memcpy_apply:
  assumes "\<And>k. k < n \<Longrightarrow> n \<le> unat (s + of_nat k - d)" and "n \<le> 2 ^ 31"
  shows "memcpy m d s n a = (if unat (a - d) < n then m (s + (a - d)) else m a)"
  using assms
proof (induction n arbitrary: m d s)
  case (Suc n)
  have IH: "memcpy m' (d + 1) (s + 1) n a =
      (if unat (a - (d + 1)) < n then m' (s + 1 + (a - (d + 1))) else m' a)" for m'
  proof (rule Suc.IH)
    fix k assume k: "k < n"
    show "n \<le> unat (s + 1 + of_nat k - (d + 1))"
      using Suc.prems(1)[of k] k by (simp add: algebra_simps)
  qed (use Suc.prems(2) in simp)
  show ?case
  proof (cases "a = d")
    case True
    have "unat (d - (d + 1)) = 2 ^ 32 - 1" by (simp add: unat_minus_one_word32)
    with Suc.prems(2) have "\<not> unat (d - (d + 1)) < n" by simp
    then show ?thesis unfolding True by (simp add: IH[unfolded True])
  next
    case False
    have far: "s + (a - d) \<noteq> d" if "unat (a - d) < Suc n"
      using Suc.prems(1)[of "unat (a - d)"] that by auto
    have shift: "s + 1 + (a - (d + 1)) = s + (a - d)" by simp
    show ?thesis using False far
      by (auto simp: IH shift unat_diff_Suc[OF False])
  qed
qed simp

section \<open>Structures in pages\<close>

text \<open>
  A structure that starts at a page boundary: words at two offsets of pages are the same word or
  do not overlap. The second group is for the field at offset 0.
\<close>

lemma load32_store32_page:
  assumes "page_aligned p" "page_aligned q" "unat i < 4096" "unat j < 4096" "unat i mod 4 = 0" "unat j mod 4 = 0"
  shows "load32 (store32 m (p + i) v) (q + j) = (if p = q \<and> i = j then v else load32 m (q + j))"
  using assms by (simp add: load32_store32_aligned aligned4_page_offset page_offset_inj)

lemma load32_store32_page0:
  assumes "page_aligned p" "page_aligned q" "unat i < 4096" "unat i mod 4 = 0"
  shows "load32 (store32 m p v) (q + i) = (if p = q \<and> i = 0 then v else load32 m (q + i))"
    and "load32 (store32 m (p + i) v) q = (if p = q \<and> i = 0 then v else load32 m q)"
    and "load32 (store32 m p v) q = (if p = q then v else load32 m q)"
  using load32_store32_page[of p q 0 i m v] load32_store32_page[of p q i 0 m v]
    load32_store32_page[of p q 0 0 m v] assms by auto

lemmas load32_store32_struct = load32_store32_page load32_store32_page0

lemma store32_page0_other:
  assumes "page_aligned p" "unat a div 4096 \<noteq> unat p div 4096"
  shows "store32 m p v a = m a"
  using store32_other_page[of p 0 a m v] assms by simp

section \<open>Which bytes change\<close>

definition pg :: "u32 \<Rightarrow> nat" where
  "pg a = unat a div 4096"

definition changed :: "memory \<Rightarrow> memory \<Rightarrow> u32 set" where
  "changed m m' = {a. m' a \<noteq> m a}"

definition span :: "u32 \<Rightarrow> nat \<Rightarrow> u32 set" where
  "span a n = {b. unat (b - a) < n}"

lemma changed_refl [simp]: "changed m m = {}"
  by (simp add: changed_def)

lemma changed_trans: "changed m m1 \<subseteq> A \<Longrightarrow> changed m1 m2 \<subseteq> A \<Longrightarrow> changed m m2 \<subseteq> A"
  unfolding changed_def by force

lemma changed_trans_all: "\<forall>a \<in> changed m m1. P a \<Longrightarrow> \<forall>a \<in> changed m1 m2. P a \<Longrightarrow> \<forall>a \<in> changed m m2. P a"
  using changed_trans[of m m1 "Collect P" m2] by blast

lemma changed_store32: "changed m (store32 m a v) \<subseteq> span a 4"
proof
  fix x assume "x \<in> changed m (store32 m a v)"
  then show "x \<in> span a 4" using store32_other_byte[of x a m v] by (simp add: changed_def span_def) (metis not_le)
qed

lemma changed_store32D: "changed m m1 \<subseteq> A \<Longrightarrow> span a 4 \<subseteq> A \<Longrightarrow> changed m (store32 m1 a v) \<subseteq> A"
  using changed_trans[of m m1 A] changed_store32[of m1 a v] by blast

lemma span_page:
  assumes "page_aligned p" "unat i + n \<le> 4096"
  shows "span (p + i) n \<subseteq> {a. pg a = pg p}"
proof
  fix a assume "a \<in> span (p + i) n"
  then have d: "unat (a - (p + i)) < n" by (simp add: span_def)
  have "unat (i + (a - (p + i))) = unat i + unat (a - (p + i))"
    using d assms(2) by (intro unat_add_small) simp
  then have "unat (a - p) < 4096" using d assms(2) by simp
  then show "a \<in> {a. pg a = pg p}" using page_byte_diff[OF assms(1), of a] by (simp add: pg_def)
qed

lemma pg_inj:
  assumes "page_aligned p" "page_aligned q"
  shows "pg p = pg q \<longleftrightarrow> p = q"
proof -
  obtain j k where "unat p = 4096 * j" "unat q = 4096 * k" using assms by (meson page_alignedE)
  then show ?thesis by (simp add: pg_def word32_eq_iff_unat)
qed

lemma load32_unchanged:
  assumes "changed m m' \<inter> span a 4 = {}"
  shows "load32 m' a = load32 m a"
  by (rule load32_cong) (use assms in \<open>auto simp: changed_def span_def word_nat\<close>)

lemma span_sub: "unat i + n \<le> k \<Longrightarrow> k \<le> 2 ^ 31 \<Longrightarrow> span (p + i) n \<subseteq> span p k"
proof
  fix a assume b: "unat i + n \<le> k" "k \<le> 2 ^ 31" and "a \<in> span (p + i) n"
  then have "unat (a - (p + i)) < n" by (simp add: span_def)
  moreover from this b have "unat (i + (a - (p + i))) = unat i + unat (a - (p + i))"
    by (intro unat_add_small) simp
  ultimately show "a \<in> span p k" using b by (simp add: span_def)
qed

lemma span_disjoint:
  assumes "unat i + a \<le> unat j" "unat j + b \<le> 2 ^ 31"
  shows "span (p + i) a \<inter> span (p + j) b = {}"
proof -
  have False if "unat (x - (p + i)) < a" "unat (x - (p + j)) < b" for x
  proof -
    have "unat (i + (x - (p + i))) = unat i + unat (x - (p + i))" "unat (j + (x - (p + j))) = unat j + unat (x - (p + j))"
      using that assms by (intro unat_add_small; simp)+
    then show False using that assms by simp
  qed
  then show ?thesis by (auto simp: span_def)
qed

lemma load32_store32_near:
  assumes "unat i + 4 \<le> unat j \<or> unat j + 4 \<le> unat i" "unat i + 4 \<le> 2 ^ 31" "unat j + 4 \<le> 2 ^ 31"
  shows "load32 (store32 m (p + i) v) (p + j) = load32 m (p + j)"
  using changed_store32[of m "p + i" v] span_disjoint[of i 4 j 4 p] span_disjoint[of j 4 i 4 p] assms
  by (intro load32_unchanged) blast

lemma load32_store32_near0:
  assumes "4 \<le> unat j" "unat j + 4 \<le> 2 ^ 31"
  shows "load32 (store32 m p v) (p + j) = load32 m (p + j)" "load32 (store32 m (p + j) v) p = load32 m p"
  using load32_store32_near[of 0 j m p v] load32_store32_near[of j 0 m p v] assms by simp_all

end
