(* ===== verification/Bit_Array.thy ===== *)
theory Bit_Array
  imports CatOS_Prelude
begin

text \<open>
  The kernel keeps two sets as bit arrays packed into 32-bit words: the used physical pages
  (\<^verbatim>\<open>page_bitmap\<close> of \<^verbatim>\<open>kernel/memory.c\<close>) and the permitted I/O ports (\<^verbatim>\<open>port_permissions\<close> of
  \<^verbatim>\<open>hal/io.c\<close>). The locale states what the three bit operations promise in terms of the set of
  numbers whose bit is one; the loops over ranges are then proved once, for both.
\<close>

section \<open>Packed bits as a set\<close>

definition bits_of :: "u32 list \<Rightarrow> nat set" where
  "bits_of bm = {p. p div 32 < length bm \<and> bit (bm ! (p div 32)) (p mod 32)}"

lemma bits_of_bound: "p \<in> bits_of bm \<Longrightarrow> p < 32 * length bm"
  by (simp add: bits_of_def) (metis div_less_iff_less_mult mult.commute zero_less_numeral)

lemma and_bit_ne_0: "(w AND push_bit k 1 \<noteq> 0) = bit (w :: u32) k"
  if "k < 32"
  using that by (auto simp: bit_iff_and_push_bit_not_eq_0)

lemma bits_of_set:
  assumes "p div 32 < length bm"
  shows "bits_of (bm[p div 32 := (bm ! (p div 32)) OR push_bit (p mod 32) 1]) = insert p (bits_of bm)"
proof -
  have "q = p" if "q div 32 = p div 32" "q mod 32 = p mod 32" for q
    using that by (metis div_mult_mod_eq)
  then show ?thesis
    using assms by (auto simp: bits_of_def nth_list_update bit_simps split: if_splits)
qed

lemma bits_of_clear:
  assumes "p div 32 < length bm"
  shows "bits_of (bm[p div 32 := (bm ! (p div 32)) AND NOT (push_bit (p mod 32) 1)]) = bits_of bm - {p}"
proof -
  have "q = p" if "q div 32 = p div 32" "q mod 32 = p mod 32" for q
    using that by (metis div_mult_mod_eq)
  then show ?thesis
    using assms by (auto simp: bits_of_def nth_list_update bit_simps split: if_splits)
qed

section \<open>The interface\<close>

locale bit_array =
  fixes test :: "'i \<Rightarrow> 'a \<Rightarrow> bool option"
    and put :: "'i \<Rightarrow> 'a \<Rightarrow> 'a option"
    and del :: "'i \<Rightarrow> 'a \<Rightarrow> 'a option"
    and idx :: "'i \<Rightarrow> nat"
    and members :: "'a \<Rightarrow> nat set"
    and wf :: "'a \<Rightarrow> bool"
    and cap :: nat
  assumes test_in: "wf a \<Longrightarrow> idx i < cap \<Longrightarrow> test i a = Some (idx i \<in> members a)"
    and test_out: "wf a \<Longrightarrow> cap \<le> idx i \<Longrightarrow> test i a = None"
    and put_in: "wf a \<Longrightarrow> idx i < cap \<Longrightarrow>
      \<exists>a'. put i a = Some a' \<and> wf a' \<and> members a' = insert (idx i) (members a)"
    and del_in: "wf a \<Longrightarrow> idx i < cap \<Longrightarrow>
      \<exists>a'. del i a = Some a' \<and> wf a' \<and> members a' = members a - {idx i}"
begin

lemma put_all:
  assumes "wf a" and "\<And>i. i \<in> set is \<Longrightarrow> idx i < cap"
  shows "\<exists>a'. for_each put is a = Some a' \<and> wf a' \<and> members a' = members a \<union> idx ` set is"
  using assms
proof (induction "is" arbitrary: a)
  case (Cons i "is")
  from put_in[OF Cons.prems(1)] Cons.prems(2)[of i] obtain b
    where b: "put i a = Some b" "wf b" "members b = insert (idx i) (members a)" by auto
  from Cons.IH[OF b(2)] Cons.prems(2) obtain c
    where "for_each put is b = Some c" "wf c" "members c = members b \<union> idx ` set is" by auto
  with b show ?case by auto
qed simp

lemma del_all:
  assumes "wf a" and "\<And>i. i \<in> set is \<Longrightarrow> idx i < cap"
  shows "\<exists>a'. for_each del is a = Some a' \<and> wf a' \<and> members a' = members a - idx ` set is"
  using assms
proof (induction "is" arbitrary: a)
  case (Cons i "is")
  from del_in[OF Cons.prems(1)] Cons.prems(2)[of i] obtain b
    where b: "del i a = Some b" "wf b" "members b = members a - {idx i}" by auto
  from Cons.IH[OF b(2)] Cons.prems(2) obtain c
    where "for_each del is b = Some c" "wf c" "members c = members b - idx ` set is" by auto
  with b show ?case by auto
qed simp

text \<open>Setting a range of clear bits and clearing it again restores the array's set.\<close>

lemma put_del_all:
  assumes "wf a" and "\<And>i. i \<in> set is \<Longrightarrow> idx i < cap" and "members a \<inter> idx ` set is = {}"
  shows "\<exists>b c. for_each put is a = Some b \<and> for_each del is b = Some c \<and> members c = members a"
proof -
  from put_all[OF assms(1,2)] obtain b
    where b: "for_each put is a = Some b" "wf b" "members b = members a \<union> idx ` set is" by blast
  from del_all[OF b(2) assms(2)] obtain c
    where "for_each del is b = Some c" "members c = members b - idx ` set is" by blast
  with b assms(3) show ?thesis by auto
qed

end

end
