(* ===== verification/Port_IO.thy ===== *)
theory Port_IO
  imports Machine_Memory Bit_Array
begin

text \<open>
  Port input and output, \<^verbatim>\<open>hal/io.c\<close> and the inline functions of \<^verbatim>\<open>include/hal.h\<close>.

  What a device answers is not code of this repository, so it is a parameter: the functions \<open>dev_inb\<close> and \<open>dev_inw\<close>
  give the value that a read of a port returns after a history of port accesses. The history is recorded in
  \<open>io_log\<close>, the latest access first; two runs that make the same accesses see the same values, and a device that
  becomes ready after it has been polled a number of times is such a function.

  The permission words of \<^verbatim>\<open>hal/io.c\<close> are the same packed bits as the page bitmap, and the range
  loops are the ones proved for both. A counter that wraps around before it reaches its bound never ends; such a loop has no result.
\<close>

section \<open>Ports\<close>

datatype io_event = Outb u16 u8 | Outw u16 u16 | Inb u16 u8 | Inw u16 u16

record io =
  io_log :: "io_event list"
  dev_inb :: "io_event list \<Rightarrow> u16 \<Rightarrow> u8"
  dev_inw :: "io_event list \<Rightarrow> u16 \<Rightarrow> u16"
  port_permissions :: "u32 list"

definition hal_outb :: "u16 \<Rightarrow> u8 \<Rightarrow> io \<Rightarrow> io" where
  "hal_outb port v s = s\<lparr>io_log := Outb port v # io_log s\<rparr>"

definition hal_inb :: "u16 \<Rightarrow> io \<Rightarrow> u8 \<times> io" where
  "hal_inb port s = (let v = dev_inb s (io_log s) port in (v, s\<lparr>io_log := Inb port v # io_log s\<rparr>))"

definition hal_outw :: "u16 \<Rightarrow> u16 \<Rightarrow> io \<Rightarrow> io" where
  "hal_outw port v s = s\<lparr>io_log := Outw port v # io_log s\<rparr>"

definition hal_inw :: "u16 \<Rightarrow> io \<Rightarrow> u16 \<times> io" where
  "hal_inw port s = (let v = dev_inw s (io_log s) port in (v, s\<lparr>io_log := Inw port v # io_log s\<rparr>))"

abbreviation PORT_PIC_MASTER_CMD :: u16 where "PORT_PIC_MASTER_CMD \<equiv> 0x20"
abbreviation PORT_PIC_MASTER_DATA :: u16 where "PORT_PIC_MASTER_DATA \<equiv> 0x21"
abbreviation PORT_PIC_SLAVE_CMD :: u16 where "PORT_PIC_SLAVE_CMD \<equiv> 0xA0"
abbreviation PORT_PIC_SLAVE_DATA :: u16 where "PORT_PIC_SLAVE_DATA \<equiv> 0xA1"
abbreviation PORT_TIMER_DATA :: u16 where "PORT_TIMER_DATA \<equiv> 0x40"
abbreviation PORT_TIMER_CMD :: u16 where "PORT_TIMER_CMD \<equiv> 0x43"
abbreviation PORT_KEYBOARD_DATA :: u16 where "PORT_KEYBOARD_DATA \<equiv> 0x60"
abbreviation PORT_KEYBOARD_STATUS :: u16 where "PORT_KEYBOARD_STATUS \<equiv> 0x64"

section \<open>Permissions\<close>

definition PORT_WORDS :: nat where "PORT_WORDS = 2048"

text \<open>One step of the three loops.\<close>

definition grant_port :: "u16 \<Rightarrow> u32 list \<Rightarrow> u32 list option" where
  "grant_port port ps =
     (let index = unat (port div 32); b = unat (port mod 32)
      in if index < length ps then Some (ps[index := ps ! index OR push_bit b 1]) else None)"

definition revoke_port :: "u16 \<Rightarrow> u32 list \<Rightarrow> u32 list option" where
  "revoke_port port ps =
     (let index = unat (port div 32); b = unat (port mod 32)
      in if index < length ps then Some (ps[index := ps ! index AND NOT (push_bit b 1)]) else None)"

definition port_allowed :: "u16 \<Rightarrow> u32 list \<Rightarrow> bool option" where
  "port_allowed port ps =
     (let index = unat (port div 32); b = unat (port mod 32)
      in if index < length ps then Some (ps ! index AND push_bit b 1 \<noteq> 0) else None)"

definition hal_io_port_allowed :: "u16 \<Rightarrow> io \<Rightarrow> bool option" where
  "hal_io_port_allowed port s = port_allowed port (port_permissions s)"

text \<open>
  The counter is a \<^verbatim>\<open>uint16_t\<close> and the bound an \<^verbatim>\<open>int\<close>: the comparison does not wrap, the increment does.
\<close>

partial_function (option) port_loop :: "(u16 \<Rightarrow> 's \<Rightarrow> 's option) \<Rightarrow> nat \<Rightarrow> u16 \<Rightarrow> 's \<Rightarrow> 's option" where
  "port_loop body bound port s =
     (if unat port < bound then Option.bind (body port s) (port_loop body bound (port + 1)) else Some s)"

definition hal_io_grant_port_range :: "u16 \<Rightarrow> u16 \<Rightarrow> io \<Rightarrow> io option" where
  "hal_io_grant_port_range start_port count s =
     (case port_loop grant_port (unat start_port + unat count) start_port (port_permissions s) of
        None \<Rightarrow> None | Some ps \<Rightarrow> Some (s\<lparr>port_permissions := ps\<rparr>))"

definition hal_io_revoke_port_range :: "u16 \<Rightarrow> u16 \<Rightarrow> io \<Rightarrow> io option" where
  "hal_io_revoke_port_range start_port count s =
     (case port_loop revoke_port (unat start_port + unat count) start_port (port_permissions s) of
        None \<Rightarrow> None | Some ps \<Rightarrow> Some (s\<lparr>port_permissions := ps\<rparr>))"

definition hal_io_init :: "io \<Rightarrow> io option" where
  "hal_io_init s =
     Option.bind (hal_io_grant_port_range PORT_PIC_MASTER_CMD 2 (s\<lparr>port_permissions := replicate PORT_WORDS 0\<rparr>)) (\<lambda>s.
     Option.bind (hal_io_grant_port_range PORT_PIC_SLAVE_CMD 2 s) (\<lambda>s.
     Option.bind (hal_io_grant_port_range PORT_TIMER_DATA 2 s) (\<lambda>s.
     hal_io_grant_port_range PORT_KEYBOARD_DATA 2 s)))"

partial_function (option) request_loop :: "nat \<Rightarrow> u16 \<Rightarrow> io \<Rightarrow> status_t option" where
  "request_loop bound p s =
     (if unat p < bound then
        Option.bind (hal_io_port_allowed p s) (\<lambda>ok. if \<not> ok then Some STATUS_PERMISSION_DENIED else request_loop bound (p + 1) s)
      else Some STATUS_SUCCESS)"

definition hal_io_request_port :: "u16 \<Rightarrow> u16 \<Rightarrow> io \<Rightarrow> status_t option" where
  "hal_io_request_port port len s = request_loop (unat port + unat len) port s"

definition hal_io_release_port :: "u16 \<Rightarrow> u16 \<Rightarrow> io \<Rightarrow> status_t \<times> io" where
  "hal_io_release_port port len s = (STATUS_SUCCESS, s)"

definition hal_io_port_in_use :: "u16 \<Rightarrow> io \<Rightarrow> bool option" where
  "hal_io_port_in_use port s = hal_io_port_allowed port s"

text \<open>The status and the value stored through \<^verbatim>\<open>owner_pid\<close>, if any.\<close>

definition hal_io_get_port_info :: "u16 \<Rightarrow> io \<Rightarrow> (status_t \<times> u32 option) option" where
  "hal_io_get_port_info port s = (case hal_io_port_allowed port s of
     None \<Rightarrow> None
   | Some ok \<Rightarrow> Some (if \<not> ok then (STATUS_NOT_FOUND, None) else (STATUS_SUCCESS, Some 0)))"

section \<open>Checked accesses\<close>

definition hal_outb_safe :: "u16 \<Rightarrow> u8 \<Rightarrow> io \<Rightarrow> io option" where
  "hal_outb_safe port v s = (case hal_io_port_allowed port s of
     None \<Rightarrow> None | Some ok \<Rightarrow> Some (if \<not> ok then s else hal_outb port v s))"

definition hal_inb_safe :: "u16 \<Rightarrow> io \<Rightarrow> (u8 \<times> io) option" where
  "hal_inb_safe port s = (case hal_io_port_allowed port s of
     None \<Rightarrow> None | Some ok \<Rightarrow> Some (if \<not> ok then (0xFF, s) else hal_inb port s))"

definition hal_outw_safe :: "u16 \<Rightarrow> u16 \<Rightarrow> io \<Rightarrow> io option" where
  "hal_outw_safe port v s = (case hal_io_port_allowed port s of
     None \<Rightarrow> None | Some ok \<Rightarrow> Some (if \<not> ok then s else hal_outw port v s))"

definition hal_inw_safe :: "u16 \<Rightarrow> io \<Rightarrow> (u16 \<times> io) option" where
  "hal_inw_safe port s = (case hal_io_port_allowed port s of
     None \<Rightarrow> None | Some ok \<Rightarrow> Some (if \<not> ok then (0xFFFF, s) else hal_inw port s))"

fun outsb_loop :: "u16 \<Rightarrow> memory \<Rightarrow> u32 \<Rightarrow> nat \<Rightarrow> io \<Rightarrow> io" where
  "outsb_loop port m buffer 0 s = s"
| "outsb_loop port m buffer (Suc n) s = outsb_loop port m (buffer + 1) n (hal_outb port (m buffer) s)"

definition hal_outsb :: "u16 \<Rightarrow> u32 \<Rightarrow> u32 \<Rightarrow> memory \<Rightarrow> io \<Rightarrow> io option" where
  "hal_outsb port buffer count m s = (case hal_io_port_allowed port s of
     None \<Rightarrow> None | Some ok \<Rightarrow> Some (if \<not> ok then s else outsb_loop port m buffer (unat count) s))"

fun insb_loop :: "u16 \<Rightarrow> u32 \<Rightarrow> nat \<Rightarrow> memory \<times> io \<Rightarrow> memory \<times> io" where
  "insb_loop port buffer 0 ms = ms"
| "insb_loop port buffer (Suc n) (m, s) =
     (case hal_inb port s of (v, s) \<Rightarrow> insb_loop port (buffer + 1) n (m(buffer := v), s))"

definition hal_insb :: "u16 \<Rightarrow> u32 \<Rightarrow> u32 \<Rightarrow> memory \<Rightarrow> io \<Rightarrow> (memory \<times> io) option" where
  "hal_insb port buffer count m s = (case hal_io_port_allowed port s of
     None \<Rightarrow> None | Some ok \<Rightarrow> Some (if \<not> ok then (m, s) else insb_loop port buffer (unat count) (m, s)))"

section \<open>The permitted ports as a set\<close>

definition ports :: "io \<Rightarrow> nat set" where
  "ports s = bits_of (port_permissions s)"

definition wf_ports :: "u32 list \<Rightarrow> bool" where
  "wf_ports ps \<longleftrightarrow> length ps = PORT_WORDS"

lemma unat_lt_16 [simp]: "unat (w :: u16) < 65536"
  using unsigned_less[of w] by simp

interpretation port_bits: bit_array port_allowed grant_port revoke_port unat bits_of wf_ports 65536
proof unfold_locales
  fix a and i :: u16
  assume wf: "wf_ports a"
  have m: "unat (i mod 32) < 32" by (simp add: unat_mod)
  have x: "unat i div 32 < length a"
    using wf unat_lt_16[of i] by (simp add: wf_ports_def PORT_WORDS_def div_less_iff_less_mult)
  show "port_allowed i a = Some (unat i \<in> bits_of a)"
    using x and_bit_ne_0[OF m] by (simp add: port_allowed_def bits_of_def unat_div unat_mod Let_def)
  show "port_allowed i a = None" if "65536 \<le> unat i" using that unat_lt_16[of i] by simp
  show "\<exists>a'. grant_port i a = Some a' \<and> wf_ports a' \<and> bits_of a' = insert (unat i) (bits_of a)"
    using x wf bits_of_set[of "unat i" a] by (simp add: grant_port_def wf_ports_def unat_div unat_mod Let_def)
  show "\<exists>a'. revoke_port i a = Some a' \<and> wf_ports a' \<and> bits_of a' = bits_of a - {unat i}"
    using x wf bits_of_clear[of "unat i" a] by (simp add: revoke_port_def wf_ports_def unat_div unat_mod Let_def)
qed

section \<open>The loops\<close>

lemma unat_of_nat16: "n < 65536 \<Longrightarrow> unat (of_nat n :: u16) = n"
  by (simp add: unat_of_nat take_bit_nat_eq_self)

text \<open>Below the last port the loop is the bounded loop over the range.\<close>

lemma port_loop_for_each:
  assumes "unat port \<le> bound" "bound \<le> 65535"
  shows "port_loop body bound port s = for_each body (map of_nat [unat port..<bound]) s"
  using assms(1)
proof (induction "bound - unat port" arbitrary: port s)
  case 0
  then show ?case by (simp add: port_loop.simps)
next
  case (Suc n)
  then have lt: "unat port < bound" by simp
  have p1: "unat (port + 1) = unat port + 1"
    using lt assms(2) by (simp add: unat_word_ariths)
  have up: "[unat port..<bound] = unat port # [unat (port + 1)..<bound]"
    using lt by (simp add: upt_conv_Cons p1)
  have IH: "port_loop body bound (port + 1) t = for_each body (map of_nat [unat (port + 1)..<bound]) t" for t
    using Suc.hyps lt by (intro Suc.hyps(1)) (simp_all add: p1)
  show ?case
    unfolding port_loop.simps[of body bound port] up using lt
    by (cases "body port s") (simp_all add: IH)
qed

text \<open>A bound above the last port is never reached.\<close>

lemma port_loop_bound: "port_loop body bound port s = Some t \<Longrightarrow> bound \<le> 65535"
proof (induction rule: port_loop.raw_induct[rotated 1, consumes 1, case_names step])
  case (step f body bound port s t)
  show ?case
  proof (cases "unat port < bound")
    case True
    with step(2) obtain u where "f body bound (port + 1) u = Some t" by (auto split: Option.bind_splits)
    then show ?thesis by (rule step(1))
  next
    case False
    then show ?thesis using unat_lt_16[of port] by linarith
  qed
qed

lemma port_loop_diverges: "65536 \<le> bound \<Longrightarrow> port_loop body bound port s = None"
  using port_loop_bound[of body bound port s] by (cases "port_loop body bound port s") auto

lemma range_image:
  assumes "unat start + unat (count :: u16) \<le> 65535"
  shows "unat ` set (map (of_nat :: nat \<Rightarrow> u16) [unat (start :: u16)..<unat start + unat count]) = {unat start..<unat start + unat count}"
  using assms by (force simp: unat_of_nat16 image_iff)

lemma grant_range:
  assumes wf: "wf_ports (port_permissions s)" and r: "unat start + unat count \<le> 65535"
  obtains s' where "hal_io_grant_port_range start count s = Some s'" "wf_ports (port_permissions s')"
    "ports s' = ports s \<union> {unat start..<unat start + unat count}" "io_log s' = io_log s"
    "dev_inb s' = dev_inb s" "dev_inw s' = dev_inw s"
proof -
  note L = port_loop_for_each[of start "unat start + unat count" grant_port "port_permissions s", OF _ r, simplified]
  obtain ps where "for_each grant_port (map of_nat [unat start..<unat start + unat count]) (port_permissions s) = Some ps"
    "wf_ports ps" "bits_of ps = bits_of (port_permissions s) \<union> {unat start..<unat start + unat count}"
    using port_bits.put_all[OF wf, of "map of_nat [unat start..<unat start + unat count]"] range_image[OF r] by auto
  then show thesis using that[of "s\<lparr>port_permissions := ps\<rparr>"] L by (simp add: hal_io_grant_port_range_def ports_def)
qed

lemma revoke_range:
  assumes wf: "wf_ports (port_permissions s)" and r: "unat start + unat count \<le> 65535"
  obtains s' where "hal_io_revoke_port_range start count s = Some s'" "wf_ports (port_permissions s')"
    "ports s' = ports s - {unat start..<unat start + unat count}" "io_log s' = io_log s"
proof -
  note L = port_loop_for_each[of start "unat start + unat count" revoke_port "port_permissions s", OF _ r, simplified]
  obtain ps where "for_each revoke_port (map of_nat [unat start..<unat start + unat count]) (port_permissions s) = Some ps"
    "wf_ports ps" "bits_of ps = bits_of (port_permissions s) - {unat start..<unat start + unat count}"
    using port_bits.del_all[OF wf, of "map of_nat [unat start..<unat start + unat count]"] range_image[OF r] by auto
  then show thesis using that[of "s\<lparr>port_permissions := ps\<rparr>"] L by (simp add: hal_io_revoke_port_range_def ports_def)
qed

lemma allowed_iff:
  "wf_ports (port_permissions s) \<Longrightarrow> hal_io_port_allowed p s = Some (unat p \<in> ports s)"
  using port_bits.test_in[of "port_permissions s" p] by (simp add: hal_io_port_allowed_def ports_def)

lemma empty_ports: "bits_of (replicate n 0) = {}"
  by (auto simp: bits_of_def)

text \<open>The ports that the kernel permits itself at boot.\<close>

lemma io_init_spec:
  obtains s' where "hal_io_init s = Some s'" "wf_ports (port_permissions s')"
    "ports s' = {0x20, 0x21, 0xA0, 0xA1, 0x40, 0x41, 0x60, 0x61}" "io_log s' = io_log s"
    "dev_inb s' = dev_inb s" "dev_inw s' = dev_inw s"
proof -
  let ?s = "s\<lparr>port_permissions := replicate PORT_WORDS 0\<rparr>"
  have r: "{unat p..<unat p + unat (2 :: u16)} = {unat p, unat p + 1}" for p :: u16 by auto
  have wf: "wf_ports (port_permissions ?s)" and e: "ports ?s = {}" by (simp_all add: wf_ports_def ports_def empty_ports)
  have b: "unat (0x20 :: u16) + unat (2 :: u16) \<le> 65535" "unat (0xA0 :: u16) + unat (2 :: u16) \<le> 65535"
    "unat (0x40 :: u16) + unat (2 :: u16) \<le> 65535" "unat (0x60 :: u16) + unat (2 :: u16) \<le> 65535" by simp_all
  obtain s1 where s1: "hal_io_grant_port_range 0x20 2 ?s = Some s1" "wf_ports (port_permissions s1)" "ports s1 = {0x20, 0x21}"
    "io_log s1 = io_log s" "dev_inb s1 = dev_inb s" "dev_inw s1 = dev_inw s"
    by (rule grant_range[OF wf b(1)]) (use e r[of "0x20"] in auto)
  obtain s2 where s2: "hal_io_grant_port_range 0xA0 2 s1 = Some s2" "wf_ports (port_permissions s2)"
    "ports s2 = {0x20, 0x21, 0xA0, 0xA1}" "io_log s2 = io_log s" "dev_inb s2 = dev_inb s" "dev_inw s2 = dev_inw s"
    by (rule grant_range[OF s1(2) b(2)]) (use s1 r[of "0xA0"] in auto)
  obtain s3 where s3: "hal_io_grant_port_range 0x40 2 s2 = Some s3" "wf_ports (port_permissions s3)"
    "ports s3 = {0x20, 0x21, 0xA0, 0xA1, 0x40, 0x41}" "io_log s3 = io_log s" "dev_inb s3 = dev_inb s" "dev_inw s3 = dev_inw s"
    by (rule grant_range[OF s2(2) b(3)]) (use s2 r[of "0x40"] in auto)
  obtain s4 where s4: "hal_io_grant_port_range 0x60 2 s3 = Some s4" "wf_ports (port_permissions s4)"
    "ports s4 = {0x20, 0x21, 0xA0, 0xA1, 0x40, 0x41, 0x60, 0x61}" "io_log s4 = io_log s" "dev_inb s4 = dev_inb s" "dev_inw s4 = dev_inw s"
    by (rule grant_range[OF s3(2) b(4)]) (use s3 r[of "0x60"] in auto)
  have "hal_io_init s = Some s4" unfolding hal_io_init_def s1(1) Option.bind.bind_lunit s2(1) s3(1) by (rule s4(1))
  then show thesis using s4(2-) by (rule that)
qed

lemma request_loop_spec:
  assumes wf: "wf_ports (port_permissions s)" and le: "unat p \<le> bound" "bound \<le> 65535"
  shows "request_loop bound p s = Some (if {unat p..<bound} \<subseteq> ports s then STATUS_SUCCESS else STATUS_PERMISSION_DENIED)"
  using le(1)
proof (induction "bound - unat p" arbitrary: p)
  case 0
  then show ?case by (simp add: request_loop.simps)
next
  case (Suc n)
  then have lt: "unat p < bound" by simp
  have p1: "unat (p + 1) = Suc (unat p)" using lt le(2) by (simp add: unat_word_ariths)
  have up: "{unat p..<bound} = insert (unat p) {unat (p + 1)..<bound}" using lt p1 by auto
  have IH: "request_loop bound (p + 1) s = Some (if {unat (p + 1)..<bound} \<subseteq> ports s then STATUS_SUCCESS else STATUS_PERMISSION_DENIED)"
    using Suc.hyps(2) lt p1 by (intro Suc.hyps(1)) simp_all
  show ?case
    unfolding request_loop.simps[of bound p s] up using lt IH allowed_iff[OF wf, of p] by simp
qed

section \<open>Properties\<close>

text \<open>
  C39: Port permissions are a set: granting a range that ends below port 65535 permits exactly its ports in addition to
  the ones permitted before, revoking it removes exactly those, a request succeeds exactly when the whole range is
  permitted, and a checked access to a port that is not permitted reaches no device.
\<close>

theorem port_permissions_exact:
  assumes "wf_ports (port_permissions s)" and "unat start + unat count \<le> 65535"
  shows "\<exists>g r. hal_io_grant_port_range start count s = Some g \<and> hal_io_revoke_port_range start count s = Some r \<and>
    ports g = ports s \<union> {unat start..<unat start + unat count} \<and>
    ports r = ports s - {unat start..<unat start + unat count} \<and>
    hal_io_request_port start count s = Some (if {unat start..<unat start + unat count} \<subseteq> ports s
      then STATUS_SUCCESS else STATUS_PERMISSION_DENIED) \<and>
    (unat p \<notin> ports s \<longrightarrow> hal_outb_safe p v s = Some s \<and> hal_inb_safe p s = Some (0xFF, s)) \<and>
    (unat p \<in> ports s \<longrightarrow> hal_outb_safe p v s = Some (hal_outb p v s) \<and> hal_inb_safe p s = Some (hal_inb p s))"
proof -
  obtain g where "hal_io_grant_port_range start count s = Some g" "ports g = ports s \<union> {unat start..<unat start + unat count}"
    by (rule grant_range[OF assms])
  moreover obtain r where "hal_io_revoke_port_range start count s = Some r" "ports r = ports s - {unat start..<unat start + unat count}"
    by (rule revoke_range[OF assms])
  ultimately show ?thesis
    using allowed_iff[OF assms(1), of p] request_loop_spec[OF assms(1) _ assms(2), of start]
    by (simp add: hal_io_request_port_def hal_outb_safe_def hal_inb_safe_def)
qed

definition demo_io :: io where
  "demo_io = \<lparr>io_log = [], dev_inb = (\<lambda>_ _. 0xFF), dev_inw = (\<lambda>_ _. 0xFFFF), port_permissions = replicate PORT_WORDS 0\<rparr>"

lemma demo_io_wf: "wf_ports (port_permissions demo_io)" "ports demo_io = {}"
  by (simp_all add: demo_io_def wf_ports_def ports_def empty_ports)

theorem port_permissions_exact_witness:
  "(\<exists>g. hal_io_grant_port_range 0x3F8 8 demo_io = Some g \<and> ports g = {0x3F8..<0x400}) \<and>
   hal_io_request_port 0x3F8 8 demo_io = Some STATUS_PERMISSION_DENIED \<and> hal_outb_safe 0x64 1 demo_io = Some demo_io"
proof -
  have "unat (0x3F8 :: u16) + unat (8 :: u16) = 0x400" "unat (0x3F8 :: u16) = 0x3F8" by simp_all
  with port_permissions_exact[OF demo_io_wf(1), of "0x3F8" 8 "0x64" 1] demo_io_wf(2) show ?thesis by auto
qed

text \<open>
  A range that reaches the last port is granted never: the 16-bit counter wraps from 65535 to 0 below its
  bound, so the loops of \<^verbatim>\<open>hal_io_grant_port_range\<close> and \<^verbatim>\<open>hal_io_revoke_port_range\<close> do not end.
\<close>

lemma port_range_diverges:
  assumes "65536 \<le> unat start + unat count"
  shows "hal_io_grant_port_range start count s = None \<and> hal_io_revoke_port_range start count s = None"
  by (simp add: hal_io_grant_port_range_def hal_io_revoke_port_range_def port_loop_diverges[OF assms])

lemma port_range_diverges_witness: "hal_io_grant_port_range 0xFFFF 1 demo_io = None"
  using port_range_diverges[of "0xFFFF" 1] by simp

end
