(* ===== verification/Serial.thy ===== *)
theory Serial
  imports Port_IO
begin

text \<open>
  The console of \<^verbatim>\<open>kernel/main.c\<close>: text goes to the serial port, and \<^verbatim>\<open>vga_print\<close> also writes it to the text
  screen at 0xB8000. \<^verbatim>\<open>serial_putc\<close> polls the line status until the transmitter is empty; with a device that never
  gets there it does not return. \<open>uart_ready\<close> is the documented behaviour it relies on, that after finitely many
  polls the transmitter holding register is empty.
\<close>

abbreviation SERIAL_DATA :: u16 where "SERIAL_DATA \<equiv> 0x3F8"
abbreviation SERIAL_LSR :: u16 where "SERIAL_LSR \<equiv> 0x3FD"

partial_function (option) wait_transmitter :: "io \<Rightarrow> io option" where
  "wait_transmitter s = (case hal_inb SERIAL_LSR s of (v, s) \<Rightarrow> if v AND 0x20 = 0 then wait_transmitter s else Some s)"

definition serial_putc :: "char \<Rightarrow> io \<Rightarrow> io option" where
  "serial_putc c s = Option.bind (wait_transmitter s) (\<lambda>s. Some (hal_outb SERIAL_DATA (of_char c) s))"

definition kernel_print :: "string \<Rightarrow> io \<Rightarrow> io option" where
  "kernel_print str s = for_each serial_putc str s"

definition hex_chars :: string where
  "hex_chars = ''0123456789ABCDEF''"

definition hex_digit :: "u32 \<Rightarrow> nat \<Rightarrow> char" where
  "hex_digit v i = hex_chars ! unat (drop_bit i v AND 0x0F)"

text \<open>\<^verbatim>\<open>for (int i = 28; i >= 0; i -= 4)\<close>\<close>

definition hex_string :: "u32 \<Rightarrow> string" where
  "hex_string v = ''0x'' @ map (hex_digit v) [28, 24, 20, 16, 12, 8, 4, 0]"

definition kernel_print_hex :: "u32 \<Rightarrow> io \<Rightarrow> io option" where
  "kernel_print_hex v s = Option.bind (kernel_print ''0x'' s) (for_each (\<lambda>i. serial_putc (hex_digit v i)) [28, 24, 20, 16, 12, 8, 4, 0])"

definition store16 :: "memory \<Rightarrow> u32 \<Rightarrow> u16 \<Rightarrow> memory" where
  "store16 m a v = m(a := ucast v, a + 1 := ucast (drop_bit 8 v))"

abbreviation VGA_MEMORY :: u32 where "VGA_MEMORY \<equiv> 0xB8000"

definition vga_cell :: "char \<Rightarrow> u16" where
  "vga_cell c = of_char c OR 0x0F00"

fun vga_loop :: "string \<Rightarrow> u32 \<Rightarrow> memory \<times> io \<Rightarrow> (memory \<times> io) option" where
  "vga_loop [] pos ms = Some ms"
| "vga_loop (c # str) pos (m, s) =
     Option.bind (serial_putc c s) (\<lambda>s. vga_loop str (pos + 1) (store16 m (VGA_MEMORY + 2 * pos) (vga_cell c), s))"

definition vga_print :: "string \<Rightarrow> u32 \<Rightarrow> memory \<times> io \<Rightarrow> (memory \<times> io) option" where
  "vga_print str line ms =
     Option.bind (vga_loop str (line * 80) ms) (\<lambda>(m, s).
     Option.bind (serial_putc (CHR 0x0D) s) (\<lambda>s.
     Option.bind (serial_putc (CHR 0x0A) s) (\<lambda>s. Some (m, s))))"

section \<open>What is transmitted\<close>

fun transmitted :: "io_event list \<Rightarrow> u8 list" where
  "transmitted [] = []"
| "transmitted (Outb p v # log) = transmitted log @ (if p = SERIAL_DATA then [v] else [])"
| "transmitted (_ # log) = transmitted log"

fun poll_log :: "(io_event list \<Rightarrow> u16 \<Rightarrow> u8) \<Rightarrow> nat \<Rightarrow> io_event list \<Rightarrow> io_event list" where
  "poll_log dev 0 log = log"
| "poll_log dev (Suc n) log = poll_log dev n (Inb SERIAL_LSR (dev log SERIAL_LSR) # log)"

definition uart_ready :: "(io_event list \<Rightarrow> u16 \<Rightarrow> u8) \<Rightarrow> bool" where
  "uart_ready dev \<longleftrightarrow> (\<forall>log. \<exists>n. dev (poll_log dev n log) SERIAL_LSR AND 0x20 \<noteq> 0)"

text \<open>Accesses other than those to the serial port.\<close>

fun serial_event :: "io_event \<Rightarrow> bool" where
  "serial_event (Outb p v) \<longleftrightarrow> p = SERIAL_DATA"
| "serial_event (Inb p v) \<longleftrightarrow> p = SERIAL_LSR"
| "serial_event _ \<longleftrightarrow> False"

definition console_step :: "io \<Rightarrow> string \<Rightarrow> io \<Rightarrow> bool" where
  "console_step s str s' \<longleftrightarrow> transmitted (io_log s') = transmitted (io_log s) @ map of_char str \<and>
     filter (\<lambda>e. \<not> serial_event e) (io_log s') = filter (\<lambda>e. \<not> serial_event e) (io_log s) \<and>
     dev_inb s' = dev_inb s \<and> dev_inw s' = dev_inw s \<and> port_permissions s' = port_permissions s"

lemma console_step_trans: "console_step s a t \<Longrightarrow> console_step t b u \<Longrightarrow> console_step s (a @ b) u"
  by (auto simp: console_step_def)

lemma console_step_refl: "console_step s [] s"
  by (simp add: console_step_def)

lemma wait_transmitter_ready:
  assumes "dev_inb s (poll_log (dev_inb s) n (io_log s)) SERIAL_LSR AND 0x20 \<noteq> 0"
  shows "\<exists>s'. wait_transmitter s = Some s' \<and> console_step s [] s'"
  using assms
proof (induction n arbitrary: s)
  case 0
  then show ?case
    by (subst wait_transmitter.simps) (simp add: hal_inb_def Let_def console_step_def)
next
  case (Suc n)
  show ?case
  proof (cases "dev_inb s (io_log s) SERIAL_LSR AND 0x20 = 0")
    case False
    then show ?thesis by (subst wait_transmitter.simps) (simp add: hal_inb_def Let_def console_step_def)
  next
    case True
    let ?t = "snd (hal_inb SERIAL_LSR s)"
    have "\<exists>s'. wait_transmitter ?t = Some s' \<and> console_step ?t [] s'"
      by (rule Suc.IH) (use Suc.prems in \<open>simp add: hal_inb_def Let_def\<close>)
    then show ?thesis using True
      by (subst wait_transmitter.simps) (auto simp: hal_inb_def Let_def console_step_def)
  qed
qed

lemma serial_putc_spec:
  assumes "uart_ready (dev_inb s)"
  shows "\<exists>s'. serial_putc c s = Some s' \<and> console_step s [c] s'"
proof -
  obtain n where "dev_inb s (poll_log (dev_inb s) n (io_log s)) SERIAL_LSR AND 0x20 \<noteq> 0"
    using assms unfolding uart_ready_def by blast
  from wait_transmitter_ready[OF this] show ?thesis
    by (auto simp: serial_putc_def console_step_def hal_outb_def)
qed

lemma putc_each:
  assumes "uart_ready (dev_inb s)"
  shows "\<exists>s'. for_each (\<lambda>i. serial_putc (f i)) xs s = Some s' \<and> console_step s (map f xs) s'"
  using assms
proof (induction xs arbitrary: s)
  case Nil
  then show ?case by (simp add: console_step_refl)
next
  case (Cons x xs)
  obtain t where t: "serial_putc (f x) s = Some t" "console_step s [f x] t" using serial_putc_spec[OF Cons.prems] by blast
  have "uart_ready (dev_inb t)" using t(2) Cons.prems by (simp add: console_step_def)
  from Cons.IH[OF this] obtain u where "for_each (\<lambda>i. serial_putc (f i)) xs t = Some u" "console_step t (map f xs) u" by blast
  then show ?case using t console_step_trans[OF t(2), of "map f xs" u] by simp
qed

lemma kernel_print_spec:
  "uart_ready (dev_inb s) \<Longrightarrow> \<exists>s'. kernel_print str s = Some s' \<and> console_step s str s'"
  using putc_each[of s "\<lambda>c. c" str] by (simp add: kernel_print_def)

lemma kernel_print_hex_spec:
  assumes "uart_ready (dev_inb s)"
  shows "\<exists>s'. kernel_print_hex v s = Some s' \<and> console_step s (hex_string v) s'"
proof -
  obtain t where t: "kernel_print ''0x'' s = Some t" "console_step s ''0x'' t" using kernel_print_spec[OF assms] by blast
  then have "uart_ready (dev_inb t)" using assms by (simp add: console_step_def)
  from putc_each[OF this, of "hex_digit v" "[28, 24, 20, 16, 12, 8, 4, 0]"] t console_step_trans[OF t(2)] show ?thesis
    by (auto simp: kernel_print_hex_def hex_string_def)
qed

text \<open>The text screen: one cell per character, from the start of the line.\<close>

definition load16 :: "memory \<Rightarrow> u32 \<Rightarrow> u16" where
  "load16 m a = ucast (m a) OR push_bit 8 (ucast (m (a + 1)))"

definition cells :: "memory \<Rightarrow> u32 \<Rightarrow> nat \<Rightarrow> u16 list" where
  "cells m pos n = map (\<lambda>i. load16 m (VGA_MEMORY + 2 * (pos + of_nat i))) [0..<n]"

lemma vga_loop_spec:
  assumes "uart_ready (dev_inb s)"
  shows "\<exists>s'. vga_loop str pos (m, s) = Some (foldl (\<lambda>m i. store16 m (VGA_MEMORY + 2 * (pos + of_nat i)) (vga_cell (str ! i))) m [0..<length str], s') \<and>
    console_step s str s'"
  using assms
proof (induction str arbitrary: pos m s)
  case Nil
  then show ?case by (simp add: console_step_refl)
next
  case (Cons c str)
  obtain t where t: "serial_putc c s = Some t" "console_step s [c] t" using serial_putc_spec[OF Cons.prems] by blast
  have "uart_ready (dev_inb t)" using t(2) Cons.prems by (simp add: console_step_def)
  from Cons.IH[OF this, of "pos + 1" "store16 m (VGA_MEMORY + 2 * pos) (vga_cell c)"] obtain u
    where u: "vga_loop str (pos + 1) (store16 m (VGA_MEMORY + 2 * pos) (vga_cell c), t) =
        Some (foldl (\<lambda>m i. store16 m (VGA_MEMORY + 2 * (pos + 1 + of_nat i)) (vga_cell (str ! i)))
          (store16 m (VGA_MEMORY + 2 * pos) (vga_cell c)) [0..<length str], u)" "console_step t str u" by blast
  have sh: "[0..<length (c # str)] = 0 # map Suc [0..<length str]" by (simp add: map_Suc_upt upt_conv_Cons del: upt_Suc)
  show ?case
    using t u console_step_trans[OF t(2) u(2)] unfolding sh by (simp add: foldl_map add.assoc)
qed

lemma vga_print_spec:
  assumes "uart_ready (dev_inb s)"
  shows "\<exists>s'. vga_print str line (m, s) =
      Some (foldl (\<lambda>m i. store16 m (VGA_MEMORY + 2 * (line * 80 + of_nat i)) (vga_cell (str ! i))) m [0..<length str], s') \<and>
    console_step s (str @ [CHR 0x0D, CHR 0x0A]) s'"
proof -
  obtain t where t: "vga_loop str (line * 80) (m, s) =
      Some (foldl (\<lambda>m i. store16 m (VGA_MEMORY + 2 * (line * 80 + of_nat i)) (vga_cell (str ! i))) m [0..<length str], t)"
    "console_step s str t" using vga_loop_spec[OF assms] by blast
  have "uart_ready (dev_inb t)" using t(2) assms by (simp add: console_step_def)
  then obtain u where u: "serial_putc (CHR 0x0D) t = Some u" "console_step t [CHR 0x0D] u" using serial_putc_spec by blast
  have "uart_ready (dev_inb u)" using u(2) \<open>uart_ready (dev_inb t)\<close> by (simp add: console_step_def)
  then obtain v where v: "serial_putc (CHR 0x0A) u = Some v" "console_step u [CHR 0x0A] v" using serial_putc_spec by blast
  show ?thesis
    using t(1) u(1) v(1) console_step_trans[OF console_step_trans[OF t(2) u(2)] v(2)] by (simp add: vga_print_def)
qed

section \<open>Reading a number back\<close>

definition digit_value :: "char \<Rightarrow> nat" where
  "digit_value c = length (takeWhile (\<lambda>d. d \<noteq> c) hex_chars)"

definition hex_value :: "string \<Rightarrow> nat" where
  "hex_value str = foldl (\<lambda>a c. a * 16 + digit_value c) 0 str"

lemma horner: "foldl (\<lambda>a d. a * 16 + d) a (map (\<lambda>i. n div 16 ^ i mod 16) (rev [0..<k])) = a * 16 ^ k + n mod (16 ^ k :: nat)"
proof (induction k arbitrary: a)
  case (Suc k)
  have "n mod 16 ^ Suc k = (n div 16 ^ k mod 16) * 16 ^ k + n mod 16 ^ k"
    by (metis add.commute mod_mult2_eq mult.commute power_Suc)
  then show ?case using Suc[of "a * 16 + n div 16 ^ k mod 16"] by (simp add: algebra_simps)
qed simp

lemma digit_value_hex_digit: "i \<le> 28 \<Longrightarrow> digit_value (hex_digit v i) = unat v div 2 ^ i mod 16"
proof -
  assume i: "i \<le> 28"
  have m: "(0x0F :: u32) = mask 4" by (simp add: mask_eq_exp_minus_1)
  have "unat (drop_bit i v AND 0x0F) = unat v div 2 ^ i mod 16"
    unfolding m take_bit_eq_mask[symmetric] unsigned_take_bit_eq unat_drop_bit_eq by (simp add: take_bit_eq_mod drop_bit_eq_div)
  moreover have "digit_value (hex_chars ! n) = n" if "n < 16" for n
  proof -
    have "list_all (\<lambda>n. digit_value (hex_chars ! n) = n) [0..<16]" by code_simp
    then show ?thesis using that by (simp add: list_all_iff)
  qed
  ultimately show ?thesis by (simp add: hex_digit_def)
qed

lemma hex_string_value: "hex_value (drop 2 (hex_string v)) = unat v"
proof -
  have e: "map (hex_digit v) [28, 24, 20, 16, 12, 8, 4, 0] = map (\<lambda>i. hex_digit v (4 * i)) (rev [0..<8])"
    by (simp add: upt_rec)
  have d: "map digit_value (map (\<lambda>i. hex_digit v (4 * i)) (rev [0..<8])) = map (\<lambda>i. unat v div 16 ^ i mod 16) (rev [0..<8])"
    by (simp add: digit_value_hex_digit power_mult)
  have "hex_value (drop 2 (hex_string v)) = foldl (\<lambda>a d. a * 16 + d) 0 (map digit_value (map (hex_digit v) [28, 24, 20, 16, 12, 8, 4, 0]))"
    by (simp add: hex_value_def hex_string_def)
  also have "\<dots> = unat v" unfolding e d horner by simp
  finally show ?thesis .
qed

section \<open>Properties\<close>

text \<open>
  With a serial port that gets ready, the console functions return and transmit exactly their text: \<^verbatim>\<open>kernel_print\<close>
  its string, \<^verbatim>\<open>vga_print\<close> its string and a line end while it writes one white cell per character to the
  screen line, and \<^verbatim>\<open>kernel_print_hex\<close> a text from which the number can be read back; no other port is accessed.
\<close>

lemma console_transmits:
  assumes "uart_ready (dev_inb s)"
  shows "(\<exists>s'. kernel_print str s = Some s' \<and> console_step s str s') \<and>
    (\<exists>m' s'. vga_print str line (m, s) = Some (m', s') \<and> console_step s (str @ [CHR 0x0D, CHR 0x0A]) s' \<and>
       m' = foldl (\<lambda>m i. store16 m (VGA_MEMORY + 2 * (line * 80 + of_nat i)) (vga_cell (str ! i))) m [0..<length str]) \<and>
    (\<exists>s' t. kernel_print_hex v s = Some s' \<and> console_step s t s' \<and> hex_value (drop 2 t) = unat v)"
  using kernel_print_spec[OF assms] vga_print_spec[OF assms] kernel_print_hex_spec[OF assms, of v] hex_string_value[of v]
  by blast

text \<open>A serial port that is ready at every third poll.\<close>

definition uart_io :: io where
  "uart_io = demo_io\<lparr>dev_inb := (\<lambda>log p. if length log mod 3 = 2 then 0x20 else 0)\<rparr>"

lemma poll_log_length: "length (poll_log dev n log) = n + length log"
  by (induction n arbitrary: log) simp_all

lemma uart_io_ready: "uart_ready (dev_inb uart_io)"
  unfolding uart_ready_def
proof
  fix log :: "io_event list"
  have "length (poll_log (dev_inb uart_io) (2 + 2 * length log) log) mod 3 = 2"
    by (simp add: poll_log_length) presburger
  then show "\<exists>n. dev_inb uart_io (poll_log (dev_inb uart_io) n log) SERIAL_LSR AND 0x20 \<noteq> 0"
    by (intro exI[of _ "2 + 2 * length log"]) (simp add: uart_io_def)
qed

lemma console_transmits_witness:
  "(\<exists>s'. kernel_print ''OK'' uart_io = Some s' \<and> transmitted (io_log s') = [0x4F, 0x4B]) \<and>
   (\<exists>s'. kernel_print_hex 0x2A uart_io = Some s')"
  using console_transmits[OF uart_io_ready, of "''OK''" 0 "\<lambda>_. 0" "0x2A"]
  by (auto simp: console_step_def uart_io_def demo_io_def of_char_def)

end
