(* ===== verification/Boot_Loader.thy ===== *)
theory Boot_Loader
  imports Serial
begin

text \<open>
  The second stage of the boot loader that the build links, \<^verbatim>\<open>boot/stage2_c.c\<close>: it runs in protected mode without paging, copies the
  kernel and the user programs from where the first stages have read them to where they run, and jumps to the kernel.
\<close>

section \<open>The loader\<close>

text \<open>This stage does not wait for the serial port before it writes.\<close>

definition boot_putc :: "char \<Rightarrow> io \<Rightarrow> io" where
  "boot_putc c s = hal_outb 0x3F8 (of_char c) s"

definition vga_debug :: "char \<Rightarrow> nat \<Rightarrow> memory \<times> io \<Rightarrow> memory \<times> io" where
  "vga_debug c pos = (\<lambda>(m, s). (store16 m (VGA_MEMORY + 2 * of_nat pos) (vga_cell c), boot_putc c s))"

fun debug_loop :: "string \<Rightarrow> nat \<Rightarrow> memory \<times> io \<Rightarrow> memory \<times> io" where
  "debug_loop [] pos ms = ms"
| "debug_loop (c # str) pos (m, s) =
     debug_loop str (pos + 1) (store16 m (VGA_MEMORY + 2 * of_nat pos) (vga_cell c), boot_putc c s)"

definition vga_print_debug :: "string \<Rightarrow> nat \<Rightarrow> memory \<times> io \<Rightarrow> memory \<times> io" where
  "vga_print_debug str line ms = (let (m, s) = debug_loop str (line * 80) ms in (m, boot_putc (CHR 0x0A) s))"

text \<open>How the stage ends: halted for good, or at an address with a stack pointer, the other general registers cleared.\<close>

datatype boot_end = Halted memory io | Jump u32 u32 memory io

definition stage2_c_main :: "memory \<times> io \<Rightarrow> boot_end" where
  "stage2_c_main ms =
     (let ms = vga_debug (CHR ''C'') 0 ms;
          ms = vga_print_debug ''Stage 2 C Code Running'' 1 ms;
          ms = vga_print_debug ''Copying kernel...'' 2 ms;
          ms = apfst (\<lambda>m. memcpy m 0x100000 0x20000 (64 * 512)) ms;
          ms = vga_print_debug ''Copying userspace...'' 3 ms;
          ms = apfst (\<lambda>m. memset m 0x400000 0 (1024 * 1024)) ms;
          ms = apfst (\<lambda>m. memcpy m 0x400000 (0x20000 + 64 * 512) (512 * 512)) ms
      in if load32 (fst ms) 0x100000 = 0 then
           (let (m, s) = vga_print_debug ''ERROR: Kernel not loaded!'' 3 ms in Halted m s)
         else
           (let ms = vga_print_debug ''Kernel copied successfully'' 3 ms;
                (m, s) = vga_print_debug ''Jumping to kernel...'' 4 ms
            in Jump 0x100000 0x90000 m s))"

section \<open>What it leaves in memory\<close>

definition on_screen :: "u32 \<Rightarrow> bool" where
  "on_screen a \<longleftrightarrow> 0xB8000 \<le> unat a \<and> unat a < 0xB8FA0"

lemma store_cell_off:
  assumes "pos < 2000" "\<not> on_screen a"
  shows "store16 m (VGA_MEMORY + 2 * of_nat pos) v a = m a"
proof -
  have "unat (2 * of_nat pos :: u32) = 2 * pos" using assms(1) by (simp add: unat_word_ariths unat_of_nat32)
  then have u: "unat (VGA_MEMORY + 2 * of_nat pos) = 0xB8000 + 2 * pos" using assms(1) by (simp add: unat_word_ariths)
  then have "unat (VGA_MEMORY + 2 * of_nat pos + 1) = 0xB8000 + 2 * pos + 1" using assms(1) by (simp add: unat_word_ariths unat_of_nat32)
  then have "on_screen (VGA_MEMORY + 2 * of_nat pos)" "on_screen (VGA_MEMORY + 2 * of_nat pos + 1)" using u assms(1) by (simp_all add: on_screen_def)
  then have "a \<noteq> VGA_MEMORY + 2 * of_nat pos" "a \<noteq> VGA_MEMORY + 2 * of_nat pos + 1" using assms(2) by metis+
  then show ?thesis by (simp add: store16_def)
qed

lemma debug_loop_off: "pos + length str \<le> 2000 \<Longrightarrow> \<not> on_screen a \<Longrightarrow> fst (debug_loop str pos (m, s)) a = m a"
  by (induction str arbitrary: pos m s) (simp_all add: store_cell_off)

lemma print_debug_off: "line * 80 + length str \<le> 2000 \<Longrightarrow> \<not> on_screen a \<Longrightarrow> fst (vga_print_debug str line ms) a = fst ms a"
  using debug_loop_off[of "line * 80" str a "fst ms" "snd ms"] by (simp add: vga_print_debug_def case_prod_beta)

text \<open>Copying a block upwards to where it does not overlap.\<close>

lemma memcpy_far:
  assumes "unat src + n \<le> unat dst" "unat dst + n \<le> 2 ^ 31"
  shows "memcpy m dst src n a = (if unat (a - dst) < n then m (src + (a - dst)) else m a)"
proof (rule memcpy_apply)
  fix k
  assume k: "k < n"
  have u: "unat (src + of_nat k) = unat src + k" using assms k by (simp add: unat_word_ariths unat_of_nat32)
  have lt: "src + of_nat k < dst" using assms(1) k u by (simp add: word_less_nat_alt)
  have "unat (src + of_nat k - dst) = 2 ^ 32 + (unat src + k) - unat dst"
    using unat_sub_if'[of "src + of_nat k" dst] lt u by (simp add: word_le_nat_alt not_le[symmetric])
  then show "n \<le> unat (src + of_nat k - dst)" using assms by simp
qed (use assms in simp)

text \<open>The memory as the kernel finds it, away from the screen.\<close>

definition loaded :: "memory \<Rightarrow> memory" where
  "loaded m a =
     (if 0x100000 \<le> unat a \<and> unat a < 0x108000 then m (a - 0xE0000)
      else if 0x400000 \<le> unat a \<and> unat a < 0x440000 then m (a - 0x3D8000)
      else if 0x440000 \<le> unat a \<and> unat a < 0x500000 then 0
      else m a)"

lemma unat_diff_lt: "unat b + n \<le> 2 ^ 32 \<Longrightarrow> unat (a - b :: u32) < n \<longleftrightarrow> unat b \<le> unat a \<and> unat a < unat b + n"
proof -
  assume n: "unat b + n \<le> 2 ^ 32"
  show ?thesis
  proof (cases "unat b \<le> unat a")
    case True
    then have "unat (a - b) = unat a - unat b" by (simp add: unat_sub_if' word_le_nat_alt)
    then show ?thesis using True by auto
  next
    case False
    then have "unat (a - b) = unat a + 2 ^ 32 - unat b" by (simp add: unat_sub_if' word_le_nat_alt)
    then show ?thesis using False n by auto
  qed
qed

lemma copies_give_loaded:
  assumes m1: "\<And>a. \<not> on_screen a \<Longrightarrow> m1 a = m a"
    and m2: "\<And>a. \<not> on_screen a \<Longrightarrow> m2 a = memcpy m1 0x100000 0x20000 (64 * 512) a"
    and a: "\<not> on_screen a"
  shows "memcpy (memset m2 0x400000 0 (1024 * 1024)) 0x400000 (0x20000 + 64 * 512) (512 * 512) a = loaded m a"
proof -
  have k: "memcpy m1 0x100000 0x20000 (64 * 512) b = (if 0x100000 \<le> unat b \<and> unat b < 0x108000 then m (b - 0xE0000) else m b)"
    if b: "\<not> on_screen b" for b
  proof -
    have "memcpy m1 0x100000 0x20000 (64 * 512) b = (if unat (b - 0x100000) < 64 * 512 then m1 (0x20000 + (b - 0x100000)) else m1 b)"
      by (rule memcpy_far) simp_all
    moreover have "unat (b - 0x100000) < 64 * 512 \<longleftrightarrow> 0x100000 \<le> unat b \<and> unat b < 0x108000" using unat_diff_lt[of "0x100000" "64 * 512" b] by simp
    moreover have "\<not> on_screen (b - 0xE0000)" if "0x100000 \<le> unat b" "unat b < 0x108000"
      using that by (simp add: on_screen_def unat_sub_if' word_le_nat_alt)
    moreover have "0x20000 + (b - 0x100000) = b - 0xE0000" by simp
    ultimately show ?thesis using m1 b by auto
  qed
  have z: "memset m2 0x400000 0 (1024 * 1024) b = (if 0x400000 \<le> unat b \<and> unat b < 0x500000 then 0 else m2 b)" for b
    using memset_apply[of "1024 * 1024" m2 "0x400000" 0 b] unat_diff_lt[of "0x400000" "1024 * 1024" b] by simp
  have u: "memcpy (memset m2 0x400000 0 (1024 * 1024)) 0x400000 (0x20000 + 64 * 512) (512 * 512) a =
      (if unat (a - 0x400000) < 512 * 512 then memset m2 0x400000 0 (1024 * 1024) ((0x20000 + 64 * 512) + (a - 0x400000))
       else memset m2 0x400000 0 (1024 * 1024) a)"
    by (rule memcpy_far) simp_all
  have r: "unat (a - 0x400000) < 512 * 512 \<longleftrightarrow> 0x400000 \<le> unat a \<and> unat a < 0x440000" using unat_diff_lt[of "0x400000" "512 * 512" a] by simp
  show ?thesis
  proof (cases "0x400000 \<le> unat a \<and> unat a < 0x440000")
    case True
    have e: "(0x20000 + 64 * 512) + (a - 0x400000) = a - 0x3D8000" by simp
    have v: "unat (a - 0x3D8000) = unat a - 0x3D8000" using True by (simp add: unat_sub_if' word_le_nat_alt)
    have low: "unat (a - 0x3D8000) < 0x68000" unfolding v using True by linarith
    then have off: "\<not> on_screen (a - 0x3D8000)" by (simp add: on_screen_def)
    have "memset m2 0x400000 0 (1024 * 1024) (a - 0x3D8000) = m (a - 0x3D8000)"
      unfolding z using low m2[OF off] k[OF off] by simp
    then show ?thesis unfolding u r e using True by (simp add: loaded_def)
  next
    case False
    then show ?thesis unfolding u r z using m2[OF a] k[OF a] by (auto simp: loaded_def)
  qed
qed

lemma load32_loaded: "(\<And>a. \<not> on_screen a \<Longrightarrow> m' a = loaded m a) \<Longrightarrow> load32 m' 0x100000 = load32 m 0x20000"
  by (simp add: load32_def on_screen_def loaded_def)

lemma stage2_spec:
  "\<exists>m' s'. stage2_c_main (m, s) = (if load32 m 0x20000 = 0 then Halted m' s' else Jump 0x100000 0x90000 m' s') \<and>
     (\<forall>a. on_screen a \<or> m' a = loaded m a)"
proof -
  define x1 where "x1 = vga_print_debug ''Copying kernel...'' 2 (vga_print_debug ''Stage 2 C Code Running'' 1 (vga_debug (CHR ''C'') 0 (m, s)))"
  define x2 where "x2 = vga_print_debug ''Copying userspace...'' 3 (apfst (\<lambda>m. memcpy m 0x100000 0x20000 (64 * 512)) x1)"
  define x3 where "x3 = apfst (\<lambda>m. memcpy m 0x400000 (0x20000 + 64 * 512) (512 * 512)) (apfst (\<lambda>m. memset m 0x400000 0 (1024 * 1024)) x2)"
  define y where "y = (if load32 m 0x20000 = 0 then vga_print_debug ''ERROR: Kernel not loaded!'' 3 x3
    else vga_print_debug ''Jumping to kernel...'' 4 (vga_print_debug ''Kernel copied successfully'' 3 x3))"
  have m1: "fst x1 a = m a" if "\<not> on_screen a" for a
    using that store_cell_off[of 0 a m] by (simp add: x1_def print_debug_off vga_debug_def)
  have m2: "fst x2 a = memcpy (fst x1) 0x100000 0x20000 (64 * 512) a" if "\<not> on_screen a" for a
    using that by (simp add: x2_def print_debug_off)
  have m3: "fst x3 a = loaded m a" if "\<not> on_screen a" for a
    using copies_give_loaded[OF m1 m2 that] by (simp add: x3_def)
  have "fst y a = loaded m a" if "\<not> on_screen a" for a using that m3 by (simp add: y_def print_debug_off)
  moreover have "stage2_c_main (m, s) = (if load32 m 0x20000 = 0 then Halted (fst y) (snd y) else Jump 0x100000 0x90000 (fst y) (snd y))"
    using load32_loaded[OF m3] unfolding stage2_c_main_def Let_def x1_def[symmetric] x2_def[symmetric] x3_def[symmetric] y_def
    by (simp add: case_prod_beta)
  ultimately show ?thesis by blast
qed

text \<open>
  C25: The second stage loads what it is given. It always ends; when the image at 128 KB begins with a zero word it halts, and
  otherwise it jumps to 1 MB with the stack at 0x90000, with the 64 sectors of the kernel at 1 MB, the 512 sectors of the user
  programs at 4 MB, the rest of that megabyte cleared, and every other byte outside the text screen as it was.
\<close>

theorem stage2_loads_images:
  "\<exists>m' s'. stage2_c_main (m, s) = (if load32 m 0x20000 = 0 then Halted m' s' else Jump 0x100000 0x90000 m' s') \<and>
     (\<forall>a. on_screen a \<or> m' a = loaded m a)"
  by (rule stage2_spec)

end
