(* ===== verification/Gdt.thy ===== *)
theory Gdt
  imports Serial
begin

text \<open>
  Segment descriptors and the task state segment, \<^verbatim>\<open>hal/gdt.c\<close>. The table is a list of descriptors; the task state
  segment is 104 bytes of memory at the address the linker gave it, a parameter. The inline assembly loads the table, the segment
  registers and the task register.
\<close>

record gdt_entry =
  limit_low :: u16
  base_low :: u16
  base_middle :: u8
  g_access :: u8
  granularity :: u8
  base_high :: u8

definition null_entry :: gdt_entry where
  "null_entry = \<lparr>limit_low = 0, base_low = 0, base_middle = 0, g_access = 0, granularity = 0, base_high = 0\<rparr>"

record seg_state =
  gdt :: "gdt_entry list"
  gdtr_limit :: u16
  gdtr_base :: u32
  data_segs :: u16
  code_seg :: u16
  task_reg :: u16

abbreviation GDT_ENTRIES :: nat where "GDT_ENTRIES \<equiv> 6"
abbreviation TSS_SIZE :: nat where "TSS_SIZE \<equiv> 104"

definition gate_entry :: "u32 \<Rightarrow> u32 \<Rightarrow> u8 \<Rightarrow> u8 \<Rightarrow> gdt_entry" where
  "gate_entry base limit acc gran =
     \<lparr>limit_low = ucast (limit AND 0xFFFF), base_low = ucast (base AND 0xFFFF),
      base_middle = ucast (drop_bit 16 base AND 0xFF), g_access = acc,
      granularity = ucast (drop_bit 16 limit AND 0x0F) OR (gran AND 0xF0),
      base_high = ucast (drop_bit 24 base AND 0xFF)\<rparr>"

definition gdt_set_gate :: "nat \<Rightarrow> u32 \<Rightarrow> u32 \<Rightarrow> u8 \<Rightarrow> u8 \<Rightarrow> gdt_entry list \<Rightarrow> gdt_entry list option" where
  "gdt_set_gate num base limit acc gran t =
     (if num < length t then Some (t[num := gate_entry base limit acc gran]) else None)"

text \<open>Offsets of \<^verbatim>\<open>struct tss_entry\<close>: 26 words, the last split into two half words.\<close>

definition tss_esp0 :: "memory \<Rightarrow> u32 \<Rightarrow> u32" where "tss_esp0 m t = load32 m (t + 4)"
definition tss_ss0 :: "memory \<Rightarrow> u32 \<Rightarrow> u32" where "tss_ss0 m t = load32 m (t + 8)"

definition write_tss :: "u32 \<Rightarrow> nat \<Rightarrow> u16 \<Rightarrow> u32 \<Rightarrow> gdt_entry list \<Rightarrow> memory \<Rightarrow> (gdt_entry list \<times> memory) option" where
  "write_tss tss num ss0 esp0 t m =
     (case gdt_set_gate num tss (of_nat TSS_SIZE - 1) 0x89 0x00 t of
        None \<Rightarrow> None
      | Some t \<Rightarrow>
          let m = memset m tss 0 TSS_SIZE;
              m = store32 m (tss + 8) (ucast ss0);
              m = store32 m (tss + 4) esp0;
              m = store32 m (tss + 76) 0x0b;
              m = store32 m (tss + 80) 0x13;
              m = store32 m (tss + 84) 0x13;
              m = store32 m (tss + 72) 0x13;
              m = store32 m (tss + 88) 0x13;
              m = store32 m (tss + 92) 0x13;
              m = store16 m (tss + 102) (of_nat TSS_SIZE)
          in Some (t, m))"

definition hal_tss_set_esp0 :: "u32 \<Rightarrow> u32 \<Rightarrow> memory \<Rightarrow> memory" where
  "hal_tss_set_esp0 tss esp0 m = store32 m (tss + 4) esp0"

definition hal_gdt_init :: "u32 \<Rightarrow> u32 \<Rightarrow> seg_state \<times> memory \<Rightarrow> (seg_state \<times> memory) option" where
  "hal_gdt_init gdt_addr tss sm = (case sm of (s, m) \<Rightarrow>
     Option.bind (gdt_set_gate 0 0 0 0 0 (gdt s)) (\<lambda>t.
     Option.bind (gdt_set_gate 1 0 0xFFFFFFFF 0x9A 0xCF t) (\<lambda>t.
     Option.bind (gdt_set_gate 2 0 0xFFFFFFFF 0x92 0xCF t) (\<lambda>t.
     Option.bind (gdt_set_gate 3 0 0xFFFFFFFF 0xFA 0xCF t) (\<lambda>t.
     Option.bind (gdt_set_gate 4 0 0xFFFFFFFF 0xF2 0xCF t) (\<lambda>t.
     Option.bind (write_tss tss 5 0x10 0x0 t m) (\<lambda>(t, m).
     Some (s\<lparr>gdt := t, gdtr_limit := of_nat (8 * GDT_ENTRIES) - 1, gdtr_base := gdt_addr,
        data_segs := 0x10, code_seg := 0x08, task_reg := 0x28\<rparr>, m))))))))"

section \<open>What the processor reads from a descriptor\<close>

definition seg_base :: "gdt_entry \<Rightarrow> u32" where
  "seg_base e = ucast (base_low e) OR push_bit 16 (ucast (base_middle e)) OR push_bit 24 (ucast (base_high e))"

definition seg_limit :: "gdt_entry \<Rightarrow> u32" where
  "seg_limit e = (let l = ucast (limit_low e) OR push_bit 16 (ucast (granularity e AND 0x0F))
     in if bit (granularity e) 7 then push_bit 12 l OR 0xFFF else l)"

definition seg_present :: "gdt_entry \<Rightarrow> bool" where "seg_present e = bit (g_access e) 7"
definition seg_dpl :: "gdt_entry \<Rightarrow> nat" where "seg_dpl e = unat (drop_bit 5 (g_access e) AND 3)"
definition seg_is_segment :: "gdt_entry \<Rightarrow> bool" where "seg_is_segment e = bit (g_access e) 4"
definition seg_code :: "gdt_entry \<Rightarrow> bool" where "seg_code e = bit (g_access e) 3"

text \<open>A selector: the descriptor it names and the requested privilege level.\<close>

definition sel_entry :: "seg_state \<Rightarrow> u16 \<Rightarrow> gdt_entry" where
  "sel_entry s sel = gdt s ! unat (drop_bit 3 sel)"

definition sel_rpl :: "u16 \<Rightarrow> nat" where "sel_rpl sel = unat (sel AND 3)"

definition flat_segment :: "seg_state \<Rightarrow> u16 \<Rightarrow> nat \<Rightarrow> bool \<Rightarrow> bool" where
  "flat_segment s sel dpl code \<longleftrightarrow> (let e = sel_entry s sel in seg_present e \<and> seg_is_segment e \<and> seg_base e = 0 \<and>
     seg_limit e = 0xFFFFFFFF \<and> seg_dpl e = dpl \<and> seg_code e = code \<and> sel_rpl sel = dpl)"

section \<open>Properties\<close>

lemma nth_mask: "(0xFFFF :: u32) = mask 16" "(0xFF :: u32) = mask 8" "(0x0F :: u32) = mask 4" "(0x0F :: u8) = mask 4"
  by (simp_all add: mask_eq_exp_minus_1)

lemma gate_entry_base: "seg_base (gate_entry base limit acc gran) = base"
proof (rule bit_word_eqI)
  fix n assume "n < LENGTH(32)"
  then have n: "n < 32" by simp
  consider "n < 16" | "16 \<le> n \<and> n < 24" | "24 \<le> n" by linarith
  then show "bit (seg_base (gate_entry base limit acc gran)) n = bit base n"
    unfolding seg_base_def gate_entry_def gdt_entry.simps nth_mask
    by cases (use n in \<open>auto simp: bit_simps\<close>)
qed

lemma load32_store16:
  assumes "unat i + 4 \<le> unat j" "unat j + 2 \<le> 2 ^ 31"
  shows "load32 (store16 m (p + j) v) (p + i) = load32 m (p + i)"
proof (rule load32_unchanged)
  have "changed m (store16 m (p + j) v) \<subseteq> span (p + j) 2"
    by (auto simp: changed_def store16_def span_def split: if_splits)
  then show "changed m (store16 m (p + j) v) \<inter> span (p + i) 4 = {}"
    using span_disjoint[of i 4 j 2 p] assms by auto
qed

lemma list6:
  "[a, b, c, d, f, g][2 := x] = [a, b, x, d, f, g]" "[a, b, c, d, f, g][3 := x] = [a, b, c, x, f, g]"
  "[a, b, c, d, f, g][4 := x] = [a, b, c, d, x, g]" "[a, b, c, d, f, g][5 := x] = [a, b, c, d, f, x]"
  by (simp_all add: eval_nat_numeral)

lemma gdt_init_spec:
  assumes "length (gdt s) = GDT_ENTRIES"
  shows "\<exists>s' m'. hal_gdt_init gdt_addr tss (s, m) = Some (s', m') \<and>
    flat_segment s' 0x08 0 True \<and> flat_segment s' 0x10 0 False \<and> flat_segment s' 0x1B 3 True \<and> flat_segment s' 0x23 3 False \<and>
    code_seg s' = 0x08 \<and> data_segs s' = 0x10 \<and> seg_base (sel_entry s' (task_reg s')) = tss \<and>
    seg_limit (sel_entry s' (task_reg s')) = 103 \<and> tss_ss0 m' tss = 0x10 \<and> tss_esp0 m' tss = 0"
proof -
  define e where "e = gate_entry 0 0xFFFFFFFF"
  have e: "seg_base (e a 0xCF) = 0" "seg_limit (e a 0xCF) = 0xFFFFFFFF" "g_access (e a 0xCF) = a" for a
    unfolding e_def gate_entry_base by (simp_all add: seg_limit_def gate_entry_def Let_def)
  have t: "seg_limit (gate_entry tss 103 0x89 0) = 103" by (simp add: seg_limit_def gate_entry_def Let_def)
  obtain a b c d f g where abc: "gdt s = [a, b, c, d, f, g]"
    using assms by (auto simp: length_Suc_conv numeral_eq_Suc)
  define s' where "s' = s\<lparr>gdt := [gate_entry 0 0 0 0, e 0x9A 0xCF, e 0x92 0xCF, e 0xFA 0xCF, e 0xF2 0xCF, gate_entry tss 103 0x89 0],
      gdtr_limit := of_nat (8 * GDT_ENTRIES) - 1, gdtr_base := gdt_addr, data_segs := 0x10, code_seg := 0x08, task_reg := 0x28\<rparr>"
  obtain m' where i: "hal_gdt_init gdt_addr tss (s, m) = Some (s', m')" and tss: "tss_ss0 m' tss = 0x10" "tss_esp0 m' tss = 0"
    unfolding hal_gdt_init_def s'_def e_def
    by (simp add: abc gdt_set_gate_def write_tss_def Let_def list6 tss_ss0_def tss_esp0_def load32_store16 load32_store32_near)
  have seg: "flat_segment s' 0x08 0 True" "flat_segment s' 0x10 0 False" "flat_segment s' 0x1B 3 True" "flat_segment s' 0x23 3 False"
    by (simp_all add: flat_segment_def sel_entry_def s'_def Let_def e seg_present_def seg_is_segment_def seg_dpl_def seg_code_def sel_rpl_def)
  have "seg_base (sel_entry s' (task_reg s')) = tss" "seg_limit (sel_entry s' (task_reg s')) = 103"
    by (simp_all add: sel_entry_def s'_def gate_entry_base t)
  with i tss seg show ?thesis by (auto simp: s'_def)
qed

text \<open>
  \<^verbatim>\<open>hal_gdt_init\<close> sets up the flat segments the rest of the kernel assumes: the selectors 0x08 and 0x10 it loads are
  present ring 0 code and data segments over all 4 GB, the selectors 0x1B and 0x23 that a new process's stack holds are
  ring 3 ones, and the task register selects a descriptor of exactly the task state segment, whose ring 0 stack segment is
  0x10 and whose ring 0 stack pointer is 0.
\<close>

lemma gdt_init_flat:
  assumes "length (gdt s) = GDT_ENTRIES"
  shows "\<exists>s' m'. hal_gdt_init gdt_addr tss (s, m) = Some (s', m') \<and>
    flat_segment s' 0x08 0 True \<and> flat_segment s' 0x10 0 False \<and> flat_segment s' 0x1B 3 True \<and> flat_segment s' 0x23 3 False \<and>
    code_seg s' = 0x08 \<and> data_segs s' = 0x10 \<and> seg_base (sel_entry s' (task_reg s')) = tss \<and>
    seg_limit (sel_entry s' (task_reg s')) = 103 \<and> tss_ss0 m' tss = 0x10 \<and> tss_esp0 m' tss = 0"
  by (rule gdt_init_spec[OF assms])

definition demo_segs :: seg_state where
  "demo_segs = \<lparr>gdt = replicate GDT_ENTRIES null_entry, gdtr_limit = 0, gdtr_base = 0, data_segs = 0x10, code_seg = 0x08, task_reg = 0\<rparr>"

lemma gdt_init_flat_witness:
  "\<exists>s' m'. hal_gdt_init 0x20000 0x20100 (demo_segs, \<lambda>_. 0) = Some (s', m') \<and> flat_segment s' 0x1B 3 True \<and>
     tss_esp0 m' 0x20100 = 0"
  using gdt_init_flat[of demo_segs "0x20000" "0x20100" "\<lambda>_. 0"] by (auto simp: demo_segs_def)

end
