(* ===== verification/Boot_Stages.thy ===== *)
theory Boot_Stages
  imports Boot_Loader Gdt
begin

text \<open>
  The other second stages of \<^verbatim>\<open>boot/\<close> and the test kernel of \<^verbatim>\<open>kernel/simple_kernel.c\<close>, which the build does not link: they enter
  protected mode from C. What the BIOS does is a parameter: the disk service, \<open>disk ax bx cx dx es m\<close>, gives the carry flag and the
  memory afterwards; the calls of the video service are recorded. Where the files share a function it is modelled once. The address of the descriptor table is chosen by
  the linker and is an argument.
\<close>

section \<open>State\<close>

datatype bios_call = Teletype u8 | Video_mode u16 | Disk u16 u16 u16 u16 u16

record stage =
  b_mem :: memory
  b_gdt :: "gdt_entry list"
  b_gdt_ptr :: "u16 \<times> u32"
  b_gdtr :: "u16 \<times> u32"
  b_cr0 :: u32
  b_if :: bool
  b_cs :: u16
  b_ds :: u16
  b_es :: u16
  b_fs :: u16
  b_gs :: u16
  b_ss :: u16
  b_esp :: u32
  b_pos :: nat
  b_io :: io
  b_calls :: "bios_call list"

type_synonym bios_disk = "u16 \<Rightarrow> u16 \<Rightarrow> u16 \<Rightarrow> u16 \<Rightarrow> u16 \<Rightarrow> memory \<Rightarrow> bool \<times> memory"

text \<open>How a stage ends: it calls an address, or it halts for good.\<close>

datatype stage_end = Calls u32 stage | Stops stage

definition line_end :: string where
  "line_end = [CHR 0x0D, CHR 0x0A]"

section \<open>What the stages share\<close>

definition teletype :: "stage \<Rightarrow> char \<Rightarrow> stage" where
  "teletype s c = s\<lparr>b_calls := Teletype (of_char c) # b_calls s\<rparr>"

definition print_string :: "string \<Rightarrow> stage \<Rightarrow> stage" where
  "print_string str s = foldl teletype s str"

definition print_string_bios :: "string \<Rightarrow> stage \<Rightarrow> stage" where
  "print_string_bios str s = foldl teletype s str"

definition set_video_mode :: "stage \<Rightarrow> stage" where
  "set_video_mode s = s\<lparr>b_calls := Video_mode 3 # b_calls s\<rparr>"

text \<open>One character: a carriage return and a line feed move the position, any other character is shown.\<close>

definition vga_char :: "stage \<Rightarrow> char \<Rightarrow> stage" where
  "vga_char s c =
     (if c = CHR 0x0D then s\<lparr>b_pos := b_pos s div 80 * 80\<rparr>
      else if c = CHR 0x0A then s\<lparr>b_pos := b_pos s + 80\<rparr>
      else s\<lparr>b_mem := store16 (b_mem s) (VGA_MEMORY + 2 * of_nat (b_pos s)) (vga_cell c), b_pos := b_pos s + 1\<rparr>)"

definition print_string_vga :: "string \<Rightarrow> stage \<Rightarrow> stage" where
  "print_string_vga str s = foldl vga_char s str"

text \<open>The fast gate, and the keyboard controller with its bounded wait.\<close>

definition enable_a20_line :: "stage \<Rightarrow> stage" where
  "enable_a20_line s = (let (al, io) = hal_inb 0x92 (b_io s) in s\<lparr>b_io := hal_outb 0x92 (al OR 0x02) io\<rparr>)"

fun a20_wait :: "nat \<Rightarrow> io \<Rightarrow> io" where
  "a20_wait 0 s = s"
| "a20_wait (Suc timeout) s = (let (status, s) = hal_inb 0x64 s in if status AND 0x02 = 0 then s else a20_wait timeout s)"

definition enable_a20_keyboard :: "stage \<Rightarrow> stage" where
  "enable_a20_keyboard s =
     (let (temp, io) = hal_inb 0x64 (b_io s);
          io = hal_outb 0x64 temp io;
          (_, io) = hal_inb 0x60 io;
          io = hal_outb 0x64 0xD1 io;
          io = hal_outb 0x60 0xDF io
      in s\<lparr>b_io := a20_wait 100000 io\<rparr>)"

definition flat_code :: gdt_entry where
  "flat_code = \<lparr>limit_low = 0xFFFF, base_low = 0, base_middle = 0, g_access = 0x9A, granularity = 0xCF, base_high = 0\<rparr>"

definition flat_data :: gdt_entry where
  "flat_data = \<lparr>limit_low = 0xFFFF, base_low = 0, base_middle = 0, g_access = 0x92, granularity = 0xCF, base_high = 0\<rparr>"

definition clear_gdt :: "gdt_entry list \<Rightarrow> gdt_entry list" where
  "clear_gdt t = foldl (\<lambda>t i. t[i := null_entry]) t [0..<5]"

text \<open>The first two versions assign the null descriptor once more.\<close>

definition setup_gdt :: "u32 \<Rightarrow> stage \<Rightarrow> stage" where
  "setup_gdt at s =
     (let t = clear_gdt (b_gdt s);
          t = t[0 := null_entry];
          t = t[1 := flat_code];
          t = t[2 := flat_data];
          p = (8 * 5 - 1, at)
      in s\<lparr>b_gdt := t, b_gdt_ptr := p, b_gdtr := p\<rparr>)"

definition setup_gdt_complete :: "u32 \<Rightarrow> stage \<Rightarrow> stage" where
  "setup_gdt_complete at s =
     (let t = clear_gdt (b_gdt s);
          t = t[1 := flat_code];
          t = t[2 := flat_data];
          p = (8 * 5 - 1, at)
      in s\<lparr>b_gdt := t, b_gdt_ptr := p, b_gdtr := p\<rparr>)"

definition enter_protected_mode :: "stage \<Rightarrow> stage" where
  "enter_protected_mode s = s\<lparr>b_if := False, b_cr0 := b_cr0 s OR 0x01, b_cs := 0x08\<rparr>"

text \<open>The registers that every entry point loads first.\<close>

definition load_segments :: "stage \<Rightarrow> stage" where
  "load_segments s = s\<lparr>b_ds := 0x10, b_es := 0x10, b_fs := 0x10, b_gs := 0x10, b_ss := 0x10, b_esp := 0x90000\<rparr>"

section \<open>Reading the disk\<close>

text \<open>Cylinder, head and sector, as the code computes them.\<close>

definition chs :: "u32 \<Rightarrow> u16 \<times> u8 \<times> u8" where
  "chs lba = (ucast ((lba div 36) div 2), ucast ((lba div 18) mod 2), ucast ((lba mod 18) + 1))"

definition read_disk :: "bios_disk \<Rightarrow> u32 \<Rightarrow> u8 \<Rightarrow> u32 \<Rightarrow> stage \<Rightarrow> stage" where
  "read_disk disk lba sectors buffer s =
     (let (cylinder, head, sector) = chs lba;
          ax = 0x0200 OR ucast sectors;
          bx = ucast buffer;
          cx = push_bit 8 cylinder OR ucast sector;
          dx = push_bit 8 (ucast head);
          (_, m) = disk ax bx cx dx (b_es s) (b_mem s)
      in s\<lparr>b_mem := m, b_calls := Disk ax bx cx dx (b_es s) # b_calls s\<rparr>)"

definition load_kernel :: "bios_disk \<Rightarrow> stage \<Rightarrow> stage" where
  "load_kernel disk s = read_disk disk 9 64 0x100000 s"

section \<open>stage2.c\<close>

definition protected_mode_entry :: "stage \<Rightarrow> stage_end" where
  "protected_mode_entry s =
     (let s = load_segments s;
          s = print_string_vga (''Protected mode entered successfully!'' @ line_end) s;
          s = print_string_vga (''Jumping to kernel...'' @ line_end) s
      in Calls 0x100000 s)"

definition stage2_main :: "bios_disk \<Rightarrow> u32 \<Rightarrow> stage \<Rightarrow> stage_end" where
  "stage2_main disk at s =
     (let s = print_string (''MiniSecureOS Stage 2 Bootloader'' @ line_end) s;
          s = print_string (''Starting initialization...'' @ line_end) s;
          s = enable_a20_line s;
          s = print_string (''A20 line enabled'' @ line_end) s;
          s = setup_gdt at s;
          s = print_string (''GDT setup complete'' @ line_end) s;
          s = load_kernel disk s;
          s = print_string (''Kernel loaded'' @ line_end) s;
          s = print_string (''Entering protected mode...'' @ line_end) s
      in protected_mode_entry (enter_protected_mode s))"

section \<open>stage2\_complete.c\<close>

text \<open>No disk is read: the kernel's place is filled with no-operation instructions and a text.\<close>

definition load_kernel_complete :: "stage \<Rightarrow> stage" where
  "load_kernel_complete s =
     (let msg = ''Hello from Protected Mode Kernel!'';
          m = foldl (\<lambda>m i. m(0x100000 + of_nat i := 0x90)) (b_mem s) [0..<1024];
          m = foldl (\<lambda>m i. m(0x100000 + 1000 + of_nat i := of_char (msg ! i))) m [0..<length msg]
      in s\<lparr>b_mem := m\<rparr>)"

definition protected_mode_entry_complete :: "stage \<Rightarrow> stage_end" where
  "protected_mode_entry_complete s =
     (let s = load_segments s;
          msg = ''PROTECTED MODE ACTIVE!'';
          m = foldl (\<lambda>m i. store16 m (VGA_MEMORY + 2 * of_nat (80 + i)) (vga_cell (msg ! i))) (b_mem s) [0..<length msg]
      in Stops (s\<lparr>b_mem := m\<rparr>))"

definition stage2_main_complete :: "u32 \<Rightarrow> stage \<Rightarrow> stage_end" where
  "stage2_main_complete at s =
     (let s = set_video_mode s;
          s = print_string_bios (''MiniSecureOS Stage 2 Bootloader'' @ line_end) s;
          s = print_string_bios (''================================'' @ line_end) s;
          s = enable_a20_line s;
          s = print_string_bios (''A20 line enabled'' @ line_end) s;
          s = setup_gdt_complete at s;
          s = print_string_bios (''GDT setup complete'' @ line_end) s;
          s = load_kernel_complete s;
          s = print_string_bios (''Kernel loaded successfully'' @ line_end) s
      in protected_mode_entry_complete (enter_protected_mode s))"

section \<open>stage2\_functional.c\<close>

text \<open>The disk is read to segment 0x1000; on an error the machine stops, with interrupts off.\<close>

definition load_kernel_functional :: "bios_disk \<Rightarrow> stage \<Rightarrow> bool \<times> stage" where
  "load_kernel_functional disk s =
     (let s = s\<lparr>b_es := 0x1000\<rparr>;
          (carry, m) = disk 0x0240 0 0x0009 0 (b_es s) (b_mem s);
          s = s\<lparr>b_mem := m, b_calls := Disk 0x0240 0 0x0009 0 (b_es s) # b_calls s\<rparr>
      in if carry then (False, s\<lparr>b_if := False\<rparr>) else (True, s))"

definition protected_mode_entry_functional :: "stage \<Rightarrow> stage_end" where
  "protected_mode_entry_functional s = Calls 0x100000 (load_segments s)"

definition stage2_main_functional :: "bios_disk \<Rightarrow> u32 \<Rightarrow> stage \<Rightarrow> stage_end" where
  "stage2_main_functional disk at s =
     (let s = set_video_mode s;
          s = print_string_bios (''MiniSecureOS Stage 2 Bootloader'' @ line_end) s;
          s = print_string_bios (''================================'' @ line_end) s;
          s = print_string_bios (''Stage 2: 16-bit mode working!'' @ line_end) s;
          s = enable_a20_line s;
          s = print_string_bios (''A20 line enabled'' @ line_end) s;
          s = setup_gdt_complete at s;
          s = print_string_bios (''GDT setup complete'' @ line_end) s;
          (ok, s) = load_kernel_functional disk s
      in if \<not> ok then Stops s
         else
           (let s = print_string_bios (''Kernel loaded successfully'' @ line_end) s
            in protected_mode_entry_functional (enter_protected_mode s)))"

section \<open>stage2\_minimal.c, stage2\_simple.c, stage2\_test\_simple.c\<close>

text \<open>Here a line end is shown as a cell as well, before the position moves.\<close>

definition vga_char_pm :: "stage \<Rightarrow> char \<Rightarrow> stage" where
  "vga_char_pm s c =
     (let s = s\<lparr>b_mem := store16 (b_mem s) (VGA_MEMORY + 2 * of_nat (b_pos s)) (of_char c OR 0x0700), b_pos := b_pos s + 1\<rparr>
      in if c = CHR 0x0A then s\<lparr>b_pos := b_pos s + (80 - b_pos s mod 80)\<rparr>
         else if c = CHR 0x0D then s\<lparr>b_pos := b_pos s - b_pos s mod 80\<rparr>
         else s)"

definition print_string_pm :: "string \<Rightarrow> stage \<Rightarrow> stage" where
  "print_string_pm str s = foldl vga_char_pm s str"

definition load_kernel_minimal :: "stage \<Rightarrow> stage" where
  "load_kernel_minimal s = s\<lparr>b_mem := foldl (\<lambda>m i. m(0x100000 + of_nat i := 0)) (b_mem s) [0..<32768]\<rparr>"

definition protected_mode_entry_minimal :: "stage \<Rightarrow> stage_end" where
  "protected_mode_entry_minimal s = Stops (print_string_pm (''In protected mode - halting'' @ line_end) (load_segments s))"

definition stage2_main_simple :: "stage \<Rightarrow> stage_end" where
  "stage2_main_simple s =
     (let s = print_string_bios (''MiniSecureOS Stage 2 - 16-bit mode'' @ line_end) s;
          s = print_string_bios (''Disk read successful!'' @ line_end) s;
          s = print_string_bios (''Halting system...'' @ line_end) s
      in Stops (s\<lparr>b_if := False\<rparr>))"

definition stage2_main_test_simple :: "stage \<Rightarrow> stage_end" where
  "stage2_main_test_simple s =
     (let s = set_video_mode s;
          s = print_string_bios (''=== STAGE 2 WORKING! ==='' @ line_end) s;
          s = print_string_bios (''Stage 2: 16-bit mode OK!'' @ line_end) s;
          s = print_string_bios (''BIOS printing works!'' @ line_end) s;
          s = print_string_bios (''Halting system...'' @ line_end) s
      in Stops s)"

section \<open>simple\_kernel.c\<close>

definition simple_msg :: string where
  "simple_msg = ''Cat-OS Kernel Running in Protected Mode!''"

definition simple_msg2 :: string where
  "simple_msg2 = ''Microkernel Successfully Loaded!''"

definition simple_kernel_main :: "memory \<Rightarrow> memory" where
  "simple_kernel_main m =
     (let m = foldl (\<lambda>m i. store16 m (VGA_MEMORY + 2 * of_nat i) 0x20) m [0..<80 * 25];
          m = foldl (\<lambda>m pos. store16 m (VGA_MEMORY + 2 * of_nat pos) (push_bit 8 15 OR of_char (simple_msg ! pos))) m [0..<length simple_msg]
      in foldl (\<lambda>m pos. store16 m (VGA_MEMORY + 2 * of_nat pos) (push_bit 8 15 OR of_char (simple_msg2 ! (pos - 80)))) m
           [80..<80 + length simple_msg2])"

section \<open>Protected mode\<close>

text \<open>The descriptors are those that the kernel's own \<^verbatim>\<open>gdt_set_gate\<close> makes for its segments.\<close>

lemma flat_descriptors: "flat_code = gate_entry 0 0xFFFFFFFF 0x9A 0xCF" "flat_data = gate_entry 0 0xFFFFFFFF 0x92 0xCF"
  by (simp_all add: flat_code_def flat_data_def gate_entry_def)

definition boot_table :: "gdt_entry list" where
  "boot_table = [null_entry, flat_code, flat_data, null_entry, null_entry]"

lemma setup_gdt_table:
  assumes "length (b_gdt s) = 5"
  shows "b_gdt (setup_gdt at s) = boot_table" and "setup_gdt_complete at s = setup_gdt at s"
proof -
  obtain a b c d e where "b_gdt s = [a, b, c, d, e]" using assms by (auto simp: length_Suc_conv numeral_eq_Suc)
  then have "clear_gdt (b_gdt s) = replicate 5 null_entry" by (simp add: clear_gdt_def upt_conv_Cons numeral_eq_Suc)
  then show "b_gdt (setup_gdt at s) = boot_table" "setup_gdt_complete at s = setup_gdt at s"
    by (simp_all add: setup_gdt_def setup_gdt_complete_def boot_table_def Let_def numeral_eq_Suc)
qed

text \<open>Interrupts are off, the mode bit is set, and all segments are flat with ring 0 descriptors of the loaded table.\<close>

definition protected :: "u32 \<Rightarrow> stage \<Rightarrow> bool" where
  "protected at s \<longleftrightarrow> \<not> b_if s \<and> bit (b_cr0 s) 0 \<and> b_gdtr s = (39, at) \<and> b_gdt s = boot_table \<and> b_cs s = 0x08 \<and>
     b_ds s = 0x10 \<and> b_es s = 0x10 \<and> b_fs s = 0x10 \<and> b_gs s = 0x10 \<and> b_ss s = 0x10 \<and> b_esp s = 0x90000"

lemma boot_table_flat:
  "seg_present (boot_table ! 1)" "seg_base (boot_table ! 1) = 0" "seg_limit (boot_table ! 1) = 0xFFFFFFFF" "seg_dpl (boot_table ! 1) = 0"
  "seg_code (boot_table ! 1)" "seg_present (boot_table ! 2)" "seg_base (boot_table ! 2) = 0" "seg_limit (boot_table ! 2) = 0xFFFFFFFF"
  "seg_dpl (boot_table ! 2) = 0" "\<not> seg_code (boot_table ! 2)"
  by (simp_all add: boot_table_def flat_code_def flat_data_def seg_present_def seg_base_def seg_limit_def seg_dpl_def seg_code_def)

text \<open>Calls of the video service leave everything else alone.\<close>

lemma print_bios_frame:
  "\<exists>cs. print_string_bios str s = s\<lparr>b_calls := cs\<rparr>" "\<exists>cs. print_string str s = s\<lparr>b_calls := cs\<rparr>"
proof -
  have "\<exists>cs. foldl teletype s str = s\<lparr>b_calls := cs\<rparr>"
  proof (induction str arbitrary: s)
    case Nil
    show ?case by (rule exI[of _ "b_calls s"]) simp
  next
    case (Cons c str)
    obtain cs where "foldl teletype (teletype s c) str = (teletype s c)\<lparr>b_calls := cs\<rparr>" using Cons by blast
    moreover have "(teletype s c)\<lparr>b_calls := cs\<rparr> = s\<lparr>b_calls := cs\<rparr>" by (simp add: teletype_def)
    ultimately show ?case by auto
  qed
  then show "\<exists>cs. print_string_bios str s = s\<lparr>b_calls := cs\<rparr>" "\<exists>cs. print_string str s = s\<lparr>b_calls := cs\<rparr>"
    by (simp_all add: print_string_bios_def print_string_def)
qed

lemma print_bios_simps [simp]:
  "b_mem (print_string_bios str s) = b_mem s" "b_gdt (print_string_bios str s) = b_gdt s" "b_gdtr (print_string_bios str s) = b_gdtr s"
  "b_cr0 (print_string_bios str s) = b_cr0 s" "b_es (print_string_bios str s) = b_es s" "b_pos (print_string_bios str s) = b_pos s"
  "b_mem (print_string str s) = b_mem s" "b_gdt (print_string str s) = b_gdt s" "b_gdtr (print_string str s) = b_gdtr s"
  "b_cr0 (print_string str s) = b_cr0 s" "b_es (print_string str s) = b_es s" "b_pos (print_string str s) = b_pos s"
  using print_bios_frame[of str s] by auto

lemma a20_simps [simp]:
  "b_mem (enable_a20_line s) = b_mem s" "b_gdt (enable_a20_line s) = b_gdt s" "b_es (enable_a20_line s) = b_es s" "b_pos (enable_a20_line s) = b_pos s"
  by (simp_all add: enable_a20_line_def split: prod.split)

lemma enters_protected:
  assumes "b_gdt s = boot_table" "b_gdtr s = (39, at)"
  shows "protected at (load_segments (enter_protected_mode s))"
  using assms by (simp add: protected_def load_segments_def enter_protected_mode_def bit_or_iff)

section \<open>Where the kernel is read to\<close>

text \<open>The disk service writes to its buffer only: as many sectors as AL says, from ES:BX on.\<close>

definition writes_buffer :: "bios_disk \<Rightarrow> bool" where
  "writes_buffer disk \<longleftrightarrow> (\<forall>ax bx cx dx es m a. snd (disk ax bx cx dx es m) a \<noteq> m a \<longrightarrow>
     16 * unat es + unat bx \<le> unat a \<and> unat a < 16 * unat es + unat bx + 512 * (unat ax mod 256))"

text \<open>
  \<^verbatim>\<open>stage2_functional.c\<close> reads the kernel to 64 KB and calls it at 1 MB: when the call is made, in protected mode with flat segments, no byte
  from 1 MB on has been written. On a disk error it stops.
\<close>

lemma functional_calls_unloaded:
  assumes gdt: "length (b_gdt s) = 5" and disk: "writes_buffer disk"
  shows "(\<exists>s'. stage2_main_functional disk at s = Stops s' \<and> \<not> b_if s') \<or>
    (\<exists>s'. stage2_main_functional disk at s = Calls 0x100000 s' \<and> protected at s' \<and> (\<forall>a. 0x100000 \<le> unat a \<longrightarrow> b_mem s' a = b_mem s a))"
proof -
  define s1 where "s1 = print_string_bios (''GDT setup complete'' @ line_end) (setup_gdt_complete at (print_string_bios (''A20 line enabled'' @ line_end)
    (enable_a20_line (print_string_bios (''Stage 2: 16-bit mode working!'' @ line_end) (print_string_bios (''================================'' @ line_end)
      (print_string_bios (''MiniSecureOS Stage 2 Bootloader'' @ line_end) (set_video_mode s)))))))"
  have s1: "b_gdt s1 = boot_table" "b_gdtr s1 = (39, at)" "b_mem s1 = b_mem s"
    using gdt setup_gdt_table by (simp_all add: s1_def set_video_mode_def) (simp_all add: setup_gdt_def Let_def)
  obtain carry m where m: "disk 0x0240 0 0x0009 0 0x1000 (b_mem s1) = (carry, m)" by fastforce
  define s2 where "s2 = s1\<lparr>b_es := 0x1000, b_mem := m, b_calls := Disk 0x0240 0 0x0009 0 0x1000 # b_calls s1\<rparr>"
  have load: "load_kernel_functional disk s1 = (if carry then (False, s2\<lparr>b_if := False\<rparr>) else (True, s2))"
    using m by (simp add: load_kernel_functional_def s2_def Let_def)
  have run: "stage2_main_functional disk at s = (if carry then Stops (s2\<lparr>b_if := False\<rparr>) else
      Calls 0x100000 (load_segments (enter_protected_mode (print_string_bios (''Kernel loaded successfully'' @ line_end) s2))))"
    unfolding stage2_main_functional_def Let_def s1_def[symmetric] load protected_mode_entry_functional_def by simp
  have far: "b_mem s2 a = b_mem s a" if "0x100000 \<le> unat a" for a
  proof (rule ccontr)
    assume "b_mem s2 a \<noteq> b_mem s a"
    then have "snd (disk 0x0240 0 0x0009 0 0x1000 (b_mem s1)) a \<noteq> b_mem s1 a" using m s1(3) by (simp add: s2_def)
    then have "unat a < 16 * unat (0x1000 :: u16) + unat (0 :: u16) + 512 * (unat (0x0240 :: u16) mod 256)"
      using disk unfolding writes_buffer_def by blast
    then show False using that by simp
  qed
  have "protected at (load_segments (enter_protected_mode (print_string_bios (''Kernel loaded successfully'' @ line_end) s2)))"
    using s1 by (intro enters_protected) (simp_all add: s2_def)
  then show ?thesis using run far by (cases carry) (auto simp: load_segments_def enter_protected_mode_def)
qed

section \<open>Cylinder, head and sector\<close>

text \<open>The sector that a disk of 18 sectors a track and two heads has at a place.\<close>

definition chs_lba :: "u16 \<times> u8 \<times> u8 \<Rightarrow> nat" where
  "chs_lba = (\<lambda>(c, h, s). (2 * unat c + unat h) * 18 + unat s - 1)"

text \<open>
  \<^verbatim>\<open>read_disk\<close> divides the cylinder by two once more: on the disk's 2880 sectors it finds the right one on the first cylinder only.
\<close>

lemma chs_first_cylinder:
  assumes "unat lba < 2880"
  shows "chs_lba (chs lba) = unat lba \<longleftrightarrow> unat lba < 36"
proof -
  define n where "n = unat lba"
  have u: "unat (lba div 36 div 2) = n div 36 div 2" "unat (lba div 18 mod 2) = n div 18 mod 2" "unat (lba mod 18 + 1) = n mod 18 + 1"
    using assms by (simp_all add: n_def unat_div unat_mod unat_word_ariths)
  have b: "n div 36 div 2 < 65536" "n div 18 mod 2 < 256" "n mod 18 + 1 < 256" using assms by (simp_all add: n_def)
  have "unat (ucast (lba div 36 div 2) :: u16) = n div 36 div 2" "unat (ucast (lba div 18 mod 2) :: u8) = n div 18 mod 2"
    "unat (ucast (lba mod 18 + 1) :: u8) = n mod 18 + 1"
    unfolding unsigned_ucast_eq u using b by (simp_all add: take_bit_nat_eq_self_iff take_bit_eq_mod)
  then have c: "chs_lba (chs lba) = (2 * (n div 36 div 2) + n div 18 mod 2) * 18 + n mod 18" by (simp add: chs_lba_def chs_def)
  have "n div 36 = n div 18 div 2" by (simp add: div_mult2_eq[symmetric])
  then have "2 * (n div 36) + n div 18 mod 2 = n div 18" by simp
  then have n: "(2 * (n div 36) + n div 18 mod 2) * 18 + n mod 18 = n" by simp
  have "chs_lba (chs lba) = (2 * (n div 36) + n div 18 mod 2) * 18 + n mod 18 \<longleftrightarrow> n div 36 div 2 = n div 36"
    unfolding c by simp
  then have "chs_lba (chs lba) = n \<longleftrightarrow> n div 36 div 2 = n div 36" unfolding n .
  also have "\<dots> \<longleftrightarrow> n < 36" by auto
  finally show ?thesis by (simp add: n_def)
qed

section \<open>The screen\<close>

definition screen_cell :: "memory \<Rightarrow> nat \<Rightarrow> u16" where
  "screen_cell m i = ucast (m (VGA_MEMORY + 2 * of_nat i)) OR push_bit 8 (ucast (m (VGA_MEMORY + 2 * of_nat i + 1)))"

lemma bytes_of_u16: "ucast (ucast (v :: u16) :: u8) OR push_bit 8 (ucast (ucast (drop_bit 8 v) :: u8)) = v"
  by (rule bit_word_eqI) (auto simp: bit_simps)

lemma screen_cell_store:
  assumes "i < 2 ^ 20" "j < 2 ^ 20"
  shows "screen_cell (store16 m (VGA_MEMORY + 2 * of_nat i) v) j = (if i = j then v else screen_cell m j)"
proof -
  have addr: "unat (VGA_MEMORY + 2 * of_nat k :: u32) = 0xB8000 + 2 * k" "unat (VGA_MEMORY + 2 * of_nat k + 1 :: u32) = 0xB8000 + 2 * k + 1"
    if "k < 2 ^ 20" for k using that by (simp_all add: unat_word_ariths unat_of_nat32)
  have ne: "VGA_MEMORY + 2 * of_nat i \<noteq> (VGA_MEMORY + 2 * of_nat k + 1 :: u32)" if "k < 2 ^ 20" for k
  proof
    assume "VGA_MEMORY + 2 * of_nat i = (VGA_MEMORY + 2 * of_nat k + 1 :: u32)"
    from arg_cong[OF this, of unat] have "2 * i = 2 * k + 1" using addr[OF assms(1)] addr[OF that] by simp
    then show False by presburger
  qed
  show ?thesis
  proof (cases "i = j")
    case True
    then show ?thesis using ne[OF assms(1)] by (simp add: screen_cell_def store16_def bytes_of_u16)
  next
    case False
    then have "VGA_MEMORY + 2 * of_nat i \<noteq> (VGA_MEMORY + 2 * of_nat j :: u32)"
      using arg_cong[of "VGA_MEMORY + 2 * of_nat i :: u32" "VGA_MEMORY + 2 * of_nat j" unat] addr(1)[OF assms(1)] addr(1)[OF assms(2)] by auto
    moreover have "VGA_MEMORY + 2 * of_nat j \<noteq> (VGA_MEMORY + 2 * of_nat i + 1 :: u32)"
    proof
      assume "VGA_MEMORY + 2 * of_nat j = (VGA_MEMORY + 2 * of_nat i + 1 :: u32)"
      from arg_cong[OF this, of unat] have "2 * j = 2 * i + 1" using addr(1)[OF assms(2)] addr(2)[OF assms(1)] by simp
      then show False by presburger
    qed
    ultimately show ?thesis using ne[OF assms(2)] False by (simp add: screen_cell_def store16_def)
  qed
qed

lemma screen_cells_loop:
  assumes "\<forall>i \<in> set xs. i < 2 ^ 20" "j < 2 ^ 20"
  shows "screen_cell (foldl (\<lambda>m i. store16 m (VGA_MEMORY + 2 * of_nat i) (v i)) m xs) j = (if j \<in> set xs then v j else screen_cell m j)"
  using assms(1)
proof (induction xs arbitrary: m)
  case (Cons i xs)
  then show ?case using screen_cell_store[of i j m "v i"] assms(2) by auto
qed simp

text \<open>The test kernel shows its two lines, white on black, on a screen that is otherwise blank.\<close>

lemma simple_kernel_screen:
  assumes "i < 2000"
  shows "screen_cell (simple_kernel_main m) i =
    (if i < length simple_msg then 0x0F00 OR of_char (simple_msg ! i)
     else if 80 \<le> i \<and> i < 80 + length simple_msg2 then 0x0F00 OR of_char (simple_msg2 ! (i - 80)) else 0x0020)"
proof -
  have len: "length simple_msg = 40" "length simple_msg2 = 32" by (simp_all add: simple_msg_def simple_msg2_def)
  have i: "i < 2 ^ 20" using assms by simp
  note L = screen_cells_loop[OF _ i]
  have "screen_cell (simple_kernel_main m) i = (if i \<in> set [80..<80 + length simple_msg2] then push_bit 8 15 OR of_char (simple_msg2 ! (i - 80))
      else if i \<in> set [0..<length simple_msg] then push_bit 8 15 OR of_char (simple_msg ! i)
      else if i \<in> set [0..<80 * 25] then 0x20 else screen_cell m i)"
    unfolding simple_kernel_main_def Let_def by (subst L, use len in force)+ (rule refl)
  from this[unfolded set_upt atLeastLessThan_iff] show ?thesis using assms len by auto
qed

text \<open>The wait for the keyboard controller is bounded: it reads the status at most as often as it is told.\<close>

lemma a20_wait_bounded: "length (io_log (a20_wait n s)) \<le> length (io_log s) + n"
proof (induction n arbitrary: s)
  case (Suc n)
  show ?case using Suc[of "snd (hal_inb 0x64 s)"] by (simp add: hal_inb_def Let_def)
qed simp

section \<open>stage2.c reaches the kernel's address\<close>

text \<open>What a text moves the position by at most.\<close>

definition extent :: "string \<Rightarrow> nat" where
  "extent str = sum_list (map (\<lambda>c. if c = CHR 0x0A then 80 else 1) str)"

lemma print_vga_frame:
  assumes "b_pos s + extent str \<le> 2000"
  shows "\<exists>m p. print_string_vga str s = s\<lparr>b_mem := m, b_pos := p\<rparr> \<and> p \<le> b_pos s + extent str \<and> (\<forall>a. \<not> on_screen a \<longrightarrow> m a = b_mem s a)"
  using assms
proof (induction str arbitrary: s)
  case Nil
  show ?case by (rule exI[of _ "b_mem s"], rule exI[of _ "b_pos s"]) (simp add: print_string_vga_def)
next
  case (Cons c str)
  obtain m1 p1 where 1: "vga_char s c = s\<lparr>b_mem := m1, b_pos := p1\<rparr>" "p1 \<le> b_pos s + (if c = CHR 0x0A then 80 else 1)"
    "\<forall>a. \<not> on_screen a \<longrightarrow> m1 a = b_mem s a"
  proof (cases "c = CHR 0x0D \<or> c = CHR 0x0A")
    case True
    have "b_pos s div 80 * 80 \<le> b_pos s" by simp
    then show thesis using True by (intro that[of "if c = CHR 0x0D then b_pos s div 80 * 80 else b_pos s + 80" "b_mem s"]) (auto simp: vga_char_def)
  next
    case False
    have "b_pos s < 2000" using Cons.prems by (simp add: extent_def split: if_splits)
    then show thesis using False store_cell_off[of "b_pos s"]
      by (intro that[of "b_pos s + 1" "store16 (b_mem s) (VGA_MEMORY + 2 * of_nat (b_pos s)) (vga_cell c)"]) (auto simp: vga_char_def)
  qed
  have "b_pos (vga_char s c) + extent str \<le> 2000" using 1(1,2) Cons.prems by (simp add: extent_def)
  from Cons.IH[OF this] obtain m p where "print_string_vga str (vga_char s c) = (vga_char s c)\<lparr>b_mem := m, b_pos := p\<rparr>"
    "p \<le> b_pos (vga_char s c) + extent str" "\<forall>a. \<not> on_screen a \<longrightarrow> m a = b_mem (vga_char s c) a" by blast
  then show ?case using 1 by (intro exI[of _ m] exI[of _ p]) (auto simp: print_string_vga_def extent_def)
qed

lemma load_kernel_call:
  "load_kernel disk s = s\<lparr>b_mem := snd (disk 0x0240 0 0x000A 0 (b_es s) (b_mem s)), b_calls := Disk 0x0240 0 0x000A 0 (b_es s) # b_calls s\<rparr>"
proof -
  have "chs 9 = (0, 0, 10)" by (simp add: chs_def)
  moreover have bx: "ucast (0x100000 :: u32) = (0 :: u16)" by (simp flip: unat_eq_0)
  ultimately show ?thesis unfolding load_kernel_def read_disk_def bx by (simp add: Let_def split_beta)
qed

text \<open>
  \<^verbatim>\<open>stage2.c\<close> ends with a call of 1 MB in protected mode with flat segments. The address of the kernel does not fit the register that
  the disk service takes it in: the 64 sectors from the tenth on are read to the start of the extra segment as it happens to be.
\<close>

lemma stage2_calls_kernel:
  assumes gdt: "length (b_gdt s) = 5" and pos: "b_pos s = 160"
  shows "\<exists>s'. stage2_main disk at s = Calls 0x100000 s' \<and> protected at s' \<and>
    (\<forall>a. \<not> on_screen a \<longrightarrow> b_mem s' a = snd (disk 0x0240 0 0x000A 0 (b_es s) (b_mem s)) a)"
proof -
  define s1 where "s1 = print_string (''GDT setup complete'' @ line_end) (setup_gdt at (print_string (''A20 line enabled'' @ line_end)
    (enable_a20_line (print_string (''Starting initialization...'' @ line_end) (print_string (''MiniSecureOS Stage 2 Bootloader'' @ line_end) s)))))"
  have s1: "b_gdt s1 = boot_table" "b_gdtr s1 = (39, at)" "b_mem s1 = b_mem s" "b_es s1 = b_es s" "b_pos s1 = 160"
    using gdt pos setup_gdt_table by (simp_all add: s1_def) (simp_all add: setup_gdt_def Let_def)
  define s2 where "s2 = print_string (''Entering protected mode...'' @ line_end) (print_string (''Kernel loaded'' @ line_end) (load_kernel disk s1))"
  have s2: "b_gdt s2 = boot_table" "b_gdtr s2 = (39, at)" "b_mem s2 = snd (disk 0x0240 0 0x000A 0 (b_es s) (b_mem s))" "b_pos s2 = 160"
    using s1 by (simp_all add: s2_def load_kernel_call)
  define s3 where "s3 = load_segments (enter_protected_mode s2)"
  have s3: "protected at s3" "b_mem s3 = b_mem s2" "b_pos s3 = 160"
    using enters_protected[OF s2(1,2)] s2(4) by (simp_all add: s3_def load_segments_def enter_protected_mode_def)
  define t1 t2 where "t1 = ''Protected mode entered successfully!'' @ line_end" and "t2 = ''Jumping to kernel...'' @ line_end"
  have ext: "extent t1 \<le> 120" "extent t2 \<le> 120" by (simp_all add: t1_def t2_def extent_def line_end_def)
  have run: "stage2_main disk at s = Calls 0x100000 (print_string_vga t2 (print_string_vga t1 s3))"
    unfolding stage2_main_def protected_mode_entry_def Let_def s1_def[symmetric] s2_def[symmetric] s3_def[symmetric] t1_def t2_def ..
  obtain m1 p1 where 1: "print_string_vga t1 s3 = s3\<lparr>b_mem := m1, b_pos := p1\<rparr>" "p1 \<le> 280" "\<forall>a. \<not> on_screen a \<longrightarrow> m1 a = b_mem s3 a"
    using print_vga_frame[of s3 t1] s3(3) ext(1) by fastforce
  obtain m2 p2 where 2: "print_string_vga t2 (s3\<lparr>b_mem := m1, b_pos := p1\<rparr>) = s3\<lparr>b_mem := m2, b_pos := p2\<rparr>" "\<forall>a. \<not> on_screen a \<longrightarrow> m2 a = m1 a"
    using print_vga_frame[of "s3\<lparr>b_mem := m1, b_pos := p1\<rparr>" t2] 1(2) ext(2) by fastforce
  have "protected at (s3\<lparr>b_mem := m2, b_pos := p2\<rparr>)" using s3(1) by (simp add: protected_def)
  then show ?thesis using run 1 2 s3(2) s2(3) by auto
qed

end
