(* ===== verification/Phys_Alloc.thy ===== *)
theory Phys_Alloc
  imports Machine_Memory Bit_Array
begin

text \<open>
  The physical page allocator of \<^verbatim>\<open>kernel/memory.c\<close>: the page bitmap and its three helpers,
  \<^verbatim>\<open>memory_alloc_pages\<close>, \<^verbatim>\<open>memory_free_pages\<close> and \<^verbatim>\<open>memory_get_stats\<close>. The record holds the static
  variables of that file together with the physical memory and the two control registers the
  paging code uses. \<^verbatim>\<open>MEMORY_SIZE\<close> is 16 MB, so there are 4096 pages and 128 bitmap words; an index
  beyond the bitmap is undefined behaviour of the C code and gives \<open>None\<close>.
\<close>

abbreviation MEMORY_SIZE :: u32 where "MEMORY_SIZE \<equiv> 16777216"
abbreviation PHYS_PAGES :: u32 where "PHYS_PAGES \<equiv> 4096"
abbreviation BITMAP_SIZE :: nat where "BITMAP_SIZE \<equiv> 128"

record mm =
  mem :: memory
  page_bitmap :: "u32 list"
  total_allocated_pages :: u32
  kernel_page_dir :: u32
  cr0 :: u32
  cr3 :: u32

section \<open>Bitmap helpers\<close>

definition bitmap_set :: "u32 \<Rightarrow> u32 list \<Rightarrow> u32 list option" where
  "bitmap_set page bm =
     (let w = unat (page div 32) in
      if w < length bm then Some (bm[w := bm ! w OR push_bit (unat (page mod 32)) 1]) else None)"

definition bitmap_clear :: "u32 \<Rightarrow> u32 list \<Rightarrow> u32 list option" where
  "bitmap_clear page bm =
     (let w = unat (page div 32) in
      if w < length bm then Some (bm[w := bm ! w AND NOT (push_bit (unat (page mod 32)) 1)]) else None)"

definition bitmap_test :: "u32 \<Rightarrow> u32 list \<Rightarrow> bool option" where
  "bitmap_test page bm =
     (let w = unat (page div 32) in
      if w < length bm then Some (bm ! w AND push_bit (unat (page mod 32)) 1 \<noteq> 0) else None)"

section \<open>Allocation and release\<close>

text \<open>The inner loop: are the pages \<open>i + j\<close>, \<open>i + j + 1\<close>, ... (\<open>n\<close> of them) free?\<close>

fun run_free :: "u32 list \<Rightarrow> u32 \<Rightarrow> nat \<Rightarrow> bool option" where
  "run_free bm p 0 = Some True"
| "run_free bm p (Suc n) =
     (case bitmap_test p bm of
        None \<Rightarrow> None
      | Some True \<Rightarrow> Some False
      | Some False \<Rightarrow> run_free bm (p + 1) n)"

text \<open>
  The outer loop from page \<open>i\<close>, with \<open>n\<close> candidates left (the loop bound \<^verbatim>\<open>PHYS_PAGES - count\<close> is
  a 32-bit subtraction that wraps around when \<open>count\<close> exceeds \<open>PHYS_PAGES\<close>).
\<close>

fun alloc_scan :: "u32 list \<Rightarrow> u32 \<Rightarrow> u32 \<Rightarrow> nat \<Rightarrow> u32 option option" where
  "alloc_scan bm count i 0 = Some None"
| "alloc_scan bm count i (Suc n) =
     (case run_free bm i (unat count) of
        None \<Rightarrow> None
      | Some True \<Rightarrow> Some (Some i)
      | Some False \<Rightarrow> alloc_scan bm count (i + 1) n)"

definition memory_alloc_pages :: "u32 \<Rightarrow> mm \<Rightarrow> (u32 \<times> mm) option" where
  "memory_alloc_pages count s =
     (case alloc_scan (page_bitmap s) count 0 (unat (PHYS_PAGES - count)) of
        None \<Rightarrow> None
      | Some None \<Rightarrow> Some (0, s)
      | Some (Some i) \<Rightarrow>
          (case for_each (\<lambda>j. bitmap_set (i + of_nat j)) [0..<unat count] (page_bitmap s) of
             None \<Rightarrow> None
           | Some bm \<Rightarrow>
               Some (i * PAGE_SIZE,
                     s\<lparr>page_bitmap := bm,
                       total_allocated_pages := total_allocated_pages s + count\<rparr>)))"

definition memory_free_pages :: "u32 \<Rightarrow> u32 \<Rightarrow> mm \<Rightarrow> mm option" where
  "memory_free_pages ptr count s =
     (let page = ptr div PAGE_SIZE in
      case for_each (\<lambda>i. bitmap_clear (page + of_nat i)) [0..<unat count] (page_bitmap s) of
        None \<Rightarrow> None
      | Some bm \<Rightarrow>
          Some (s\<lparr>page_bitmap := bm,
                  total_allocated_pages := total_allocated_pages s - count\<rparr>))"

definition memory_get_stats :: "mm \<Rightarrow> u32 \<times> u32" where
  "memory_get_stats s = (MEMORY_SIZE, total_allocated_pages s * PAGE_SIZE)"

section \<open>The bitmap as a set of used pages\<close>

definition used :: "mm \<Rightarrow> nat set" where
  "used s = bits_of (page_bitmap s)"

definition wf_bitmap :: "u32 list \<Rightarrow> bool" where
  "wf_bitmap bm \<longleftrightarrow> length bm = BITMAP_SIZE"

lemma used_bound: "wf_bitmap (page_bitmap s) \<Longrightarrow> p \<in> used s \<Longrightarrow> p < 4096"
  unfolding used_def wf_bitmap_def by (drule bits_of_bound) simp

lemma finite_used [simp]: "finite (used s)"
  unfolding used_def by (rule finite_subset[of _ "{..<32 * length (page_bitmap s)}"])
    (auto dest: bits_of_bound)

interpretation page_bits: bit_array bitmap_test bitmap_set bitmap_clear unat bits_of wf_bitmap 4096
proof unfold_locales
  fix a and i :: u32
  assume wf: "wf_bitmap a"
  have m: "unat (i mod 32) < 32" by (simp add: unat_mod)
  show "bitmap_test i a = Some (unat i \<in> bits_of a)" if "unat i < 4096"
    using that wf m and_bit_ne_0[OF m]
    by (simp add: bitmap_test_def wf_bitmap_def bits_of_def unat_div unat_mod Let_def)
  show "bitmap_test i a = None" if "4096 \<le> unat i"
    using that wf by (simp add: bitmap_test_def wf_bitmap_def unat_div Let_def)
  show "\<exists>a'. bitmap_set i a = Some a' \<and> wf_bitmap a' \<and> bits_of a' = insert (unat i) (bits_of a)"
    if "unat i < 4096"
    using that wf bits_of_set[of "unat i" a]
    by (simp add: bitmap_set_def wf_bitmap_def unat_div unat_mod Let_def)
  show "\<exists>a'. bitmap_clear i a = Some a' \<and> wf_bitmap a' \<and> bits_of a' = bits_of a - {unat i}"
    if "unat i < 4096"
    using that wf bits_of_clear[of "unat i" a]
    by (simp add: bitmap_clear_def wf_bitmap_def unat_div unat_mod Let_def)
qed

section \<open>The scan finds the first free run\<close>

lemma unat_Suc_word: "unat (p :: u32) + n < 2 ^ 32 \<Longrightarrow> 0 < n \<Longrightarrow> unat (p + 1) = Suc (unat p)"
  by (subst unat_add_small) simp_all

lemma run_free_spec:
  assumes "wf_bitmap bm" and "unat p + n \<le> 4096"
  shows "run_free bm p n = Some ({unat p..<unat p + n} \<inter> bits_of bm = {})"
  using assms(2)
proof (induction n arbitrary: p)
  case (Suc n)
  have S: "unat (p + 1) = Suc (unat p)"
    using Suc.prems by (intro unat_Suc_word[of p 1]) simp_all
  have step: "{unat p..<unat p + Suc n} = insert (unat p) {unat (p + 1)..<unat (p + 1) + n}"
    unfolding S by auto
  from Suc.prems have "bitmap_test p bm = Some (unat p \<in> bits_of bm)"
    by (intro page_bits.test_in[OF assms(1)]) simp
  moreover have "run_free bm (p + 1) n = Some ({unat (p + 1)..<unat (p + 1) + n} \<inter> bits_of bm = {})"
    using Suc.prems S by (intro Suc.IH) simp
  ultimately show ?case unfolding step by (auto split: bool.splits)
qed simp

definition free_run :: "nat set \<Rightarrow> nat \<Rightarrow> nat \<Rightarrow> bool" where
  "free_run u c k \<longleftrightarrow> {k..<k + c} \<inter> u = {}"

lemma alloc_scan_spec:
  assumes "wf_bitmap bm" and "unat i + n + unat count \<le> 4096"
  shows "alloc_scan bm count i n =
    Some (map_option of_nat (find (free_run (bits_of bm) (unat count)) [unat i..<unat i + n]))"
  using assms(2)
proof (induction n arbitrary: i)
  case (Suc n)
  have S: "unat (i + 1) = Suc (unat i)"
    using Suc.prems by (intro unat_Suc_word[of i 1]) simp_all
  have upt: "[unat i..<unat i + Suc n] = unat i # [unat (i + 1)..<unat (i + 1) + n]"
    unfolding S by (simp add: upt_conv_Cons)
  have "run_free bm i (unat count) = Some (free_run (bits_of bm) (unat count) (unat i))"
    using run_free_spec[OF assms(1), of i "unat count"] Suc.prems by (simp add: free_run_def)
  moreover have "alloc_scan bm count (i + 1) n = Some (map_option of_nat
      (find (free_run (bits_of bm) (unat count)) [unat (i + 1)..<unat (i + 1) + n]))"
    using Suc.prems S by (intro Suc.IH) simp
  ultimately show ?case
    unfolding upt by (auto split: bool.splits)
qed simp

lemma run_free_oversized:
  assumes "wf_bitmap bm" and "unat p \<le> 4096" and "4096 < unat p + n"
  shows "run_free bm p n \<noteq> Some True" and "unat p = 4096 \<Longrightarrow> run_free bm p n = None"
proof -
  show "unat p = 4096 \<Longrightarrow> run_free bm p n = None"
    using assms by (cases n) (auto simp: page_bits.test_out)
  show "run_free bm p n \<noteq> Some True"
    using assms(2,3)
  proof (induction n arbitrary: p)
    case (Suc n)
    show ?case
    proof (cases "unat p = 4096")
      case True
      then show ?thesis by (simp add: page_bits.test_out[OF assms(1)])
    next
      case False
      then have "unat (p + 1) = Suc (unat p)"
        using Suc.prems by (intro unat_Suc_word[of p 1]) simp_all
      then have "run_free bm (p + 1) n \<noteq> Some True"
        using False Suc.prems by (intro Suc.IH) simp_all
      then show ?thesis by (auto split: option.splits bool.splits)
    qed
  qed simp
qed

lemma alloc_scan_oversized:
  assumes "wf_bitmap bm" and "4096 < unat count" and "unat i \<le> 4096" and "4096 < unat i + n"
  shows "alloc_scan bm count i n = None"
  using assms(3,4)
proof (induction n arbitrary: i)
  case (Suc n)
  note over = run_free_oversized[OF assms(1) Suc.prems(1), of "unat count"]
  show ?case
  proof (cases "unat i = 4096")
    case True
    then show ?thesis using over assms(2) by simp
  next
    case False
    then have "unat (i + 1) = Suc (unat i)"
      using Suc.prems by (intro unat_Suc_word[of i 1]) simp_all
    then have "alloc_scan bm count (i + 1) n = None"
      using False Suc.prems by (intro Suc.IH) simp_all
    moreover have "run_free bm i (unat count) \<noteq> Some True"
      using over(1) assms(2) by simp
    ultimately show ?thesis by (auto split: option.splits bool.splits)
  qed
qed simp

section \<open>What an allocation does\<close>

text \<open>The page frames of a block of \<open>c\<close> pages at address \<open>p\<close>.\<close>

definition frames :: "u32 \<Rightarrow> u32 \<Rightarrow> nat set" where
  "frames p c = {unat p div 4096..<unat p div 4096 + unat c}"

lemma frames_page_addr: "k < 2 ^ 20 \<Longrightarrow> frames (page_addr k) c = {k..<k + unat c}"
  by (simp add: frames_def unat_page_addr)

lemma frames_one: "frames p 1 = {unat p div 4096}"
  by (auto simp: frames_def)

lemma of_nat_range_image:
  assumes "unat (i :: u32) + n \<le> 4096"
  shows "unat ` (\<lambda>j. i + of_nat j) ` {0..<n} = {unat i..<unat i + n}"
proof -
  have "unat (i + of_nat j) = unat i + j" if "j < n" for j
  proof -
    have "unat (of_nat j :: u32) = j" using that assms by (simp add: word_nat)
    then show ?thesis using that assms by (subst unat_add_small) simp_all
  qed
  then have "unat ` (\<lambda>j. i + of_nat j) ` {0..<n} = (\<lambda>j. unat i + j) ` {0..<n}"
    unfolding image_image by (intro image_cong) auto
  then show ?thesis by (simp add: image_add_atLeastLessThan add.commute)
qed

lemma for_each_shift:
  "for_each (\<lambda>j. f (g j)) xs s = for_each f (map g xs) s"
  by (induction xs arbitrary: s) (auto split: option.splits)

lemma alloc_set_range:
  assumes "wf_bitmap bm" and "unat i + unat count \<le> 4096"
  shows "\<exists>bm'. for_each (\<lambda>j. bitmap_set (i + of_nat j)) [0..<unat count] bm = Some bm' \<and>
    wf_bitmap bm' \<and> bits_of bm' = bits_of bm \<union> {unat i..<unat i + unat count}"
proof -
  let ?is = "map (\<lambda>j. i + of_nat j) [0..<unat count]"
  have img: "unat ` set ?is = {unat i..<unat i + unat count}"
    using of_nat_range_image[OF assms(2)] by (simp add: image_image)
  have inside: "unat w < 4096" if "w \<in> set ?is" for w
  proof -
    from that have "unat w \<in> {unat i..<unat i + unat count}" unfolding img[symmetric] by (rule imageI)
    with assms(2) show ?thesis by simp
  qed
  show ?thesis
    using page_bits.put_all[OF assms(1), of ?is, OF inside] unfolding img for_each_shift[of bitmap_set "\<lambda>j. i + of_nat j"] .
qed

lemma free_clear_range:
  assumes "wf_bitmap bm" and "unat i + unat count \<le> 4096"
  shows "\<exists>bm'. for_each (\<lambda>j. bitmap_clear (i + of_nat j)) [0..<unat count] bm = Some bm' \<and>
    wf_bitmap bm' \<and> bits_of bm' = bits_of bm - {unat i..<unat i + unat count}"
proof -
  let ?is = "map (\<lambda>j. i + of_nat j) [0..<unat count]"
  have img: "unat ` set ?is = {unat i..<unat i + unat count}"
    using of_nat_range_image[OF assms(2)] by (simp add: image_image)
  have inside: "unat w < 4096" if "w \<in> set ?is" for w
  proof -
    from that have "unat w \<in> {unat i..<unat i + unat count}" unfolding img[symmetric] by (rule imageI)
    with assms(2) show ?thesis by simp
  qed
  show ?thesis
    using page_bits.del_all[OF assms(1), of ?is, OF inside] unfolding img for_each_shift[of bitmap_clear "\<lambda>j. i + of_nat j"] .
qed

lemma alloc_cases:
  assumes "wf_bitmap (page_bitmap s)" and "unat count \<le> 4096"
  obtains (fail) "memory_alloc_pages count s = Some (0, s)"
      and "\<forall>k < 4096 - unat count. \<not> free_run (used s) (unat count) k"
  | (success) k bm where "k < 4096 - unat count" and "free_run (used s) (unat count) k"
      and "\<forall>j < k. \<not> free_run (used s) (unat count) j"
      and "wf_bitmap bm" and "bits_of bm = used s \<union> {k..<k + unat count}"
      and "memory_alloc_pages count s = Some (page_addr k,
        s\<lparr>page_bitmap := bm, total_allocated_pages := total_allocated_pages s + count\<rparr>)"
proof -
  have bound: "unat (PHYS_PAGES - count) = 4096 - unat count"
    using assms(2) by (simp add: unat_sub word_le_nat_alt)
  have scan: "alloc_scan (page_bitmap s) count 0 (unat (PHYS_PAGES - count)) =
      Some (map_option of_nat (find (free_run (used s) (unat count)) [0..<4096 - unat count]))"
    using alloc_scan_spec[OF assms(1), of 0 "4096 - unat count" count] assms(2)
    by (simp add: bound used_def)
  show thesis
  proof (cases "find (free_run (used s) (unat count)) [0..<4096 - unat count]")
    case None
    then show thesis
      using scan by (intro fail) (simp_all add: memory_alloc_pages_def find_upt_None_iff [symmetric])
  next
    case (Some k)
    then have k: "k < 4096 - unat count" "free_run (used s) (unat count) k"
      "\<forall>j < k. \<not> free_run (used s) (unat count) j"
      by (auto simp: find_upt_Some_iff)
    then have uk: "unat (of_nat k :: u32) = k" by (simp add: word_nat)
    from k(1) have "k + unat count \<le> 4096" by simp
    then obtain bm where bm:
      "for_each (\<lambda>j. bitmap_set (of_nat k + of_nat j)) [0..<unat count] (page_bitmap s) = Some bm"
      "wf_bitmap bm" "bits_of bm = used s \<union> {k..<k + unat count}"
      using alloc_set_range[OF assms(1), of "of_nat k" count] by (auto simp: uk used_def)
    show thesis
      using k bm scan Some
      by (intro success) (simp_all add: memory_alloc_pages_def page_addr_def)
  qed
qed

lemma free_spec:
  assumes "wf_bitmap (page_bitmap s)" and "unat ptr div 4096 + unat count \<le> 4096"
  obtains bm where "wf_bitmap bm" and "bits_of bm = used s - frames ptr count"
    and "memory_free_pages ptr count s = Some (s\<lparr>page_bitmap := bm,
        total_allocated_pages := total_allocated_pages s - count\<rparr>)"
proof -
  have "unat (ptr div PAGE_SIZE) = unat ptr div 4096" by (simp add: unat_div)
  with free_clear_range[OF assms(1), of "ptr div PAGE_SIZE" count] assms(2) obtain bm where
    "for_each (\<lambda>j. bitmap_clear (ptr div PAGE_SIZE + of_nat j)) [0..<unat count] (page_bitmap s) = Some bm"
    "wf_bitmap bm" "bits_of bm = used s - frames ptr count"
    by (auto simp: used_def frames_def)
  then show thesis by (intro that) (auto simp: memory_free_pages_def)
qed

section \<open>The allocator's contract\<close>

text \<open>
  What the paging, capability, IPC and process code rely on. Address 0 is the null pointer, so
  the contract is stated for states in which page 0 is reserved, as \<^verbatim>\<open>memory_init\<close> leaves it.
\<close>

locale page_allocator =
  fixes alloc :: "u32 \<Rightarrow> 's \<Rightarrow> (u32 \<times> 's) option"
    and release :: "u32 \<Rightarrow> u32 \<Rightarrow> 's \<Rightarrow> 's option"
    and taken :: "'s \<Rightarrow> nat set"
    and inv :: "'s \<Rightarrow> bool"
    and content :: "'s \<Rightarrow> 'c"
  assumes alloc_total: "inv s \<Longrightarrow> unat c \<le> 4096 \<Longrightarrow> \<exists>p s'. alloc c s = Some (p, s')"
    and alloc_null: "inv s \<Longrightarrow> 0 < unat c \<Longrightarrow> unat c \<le> 4096 \<Longrightarrow> alloc c s = Some (0, s') \<Longrightarrow> s' = s"
    and alloc_block: "inv s \<Longrightarrow> 0 < unat c \<Longrightarrow> unat c \<le> 4096 \<Longrightarrow> alloc c s = Some (p, s') \<Longrightarrow> p \<noteq> 0 \<Longrightarrow>
      page_aligned p \<and> 0 < unat p div 4096 \<and> unat p div 4096 + unat c \<le> 4096 \<and>
      frames p c \<inter> taken s = {} \<and> taken s' = taken s \<union> frames p c \<and> inv s' \<and> content s' = content s"
    and release_block: "inv s \<Longrightarrow> 0 < unat p div 4096 \<Longrightarrow> unat p div 4096 + unat c \<le> 4096 \<Longrightarrow>
      \<exists>s'. release p c s = Some s' \<and> taken s' = taken s - frames p c \<and> inv s' \<and> content s' = content s"
begin

lemma alloc_inv:
  assumes "inv s" "0 < unat c" "unat c \<le> 4096" "alloc c s = Some (p, s')"
  shows "inv s'" and "content s' = content s" and "taken s \<subseteq> taken s'"
  using alloc_null[OF assms(1-3)] alloc_block[OF assms] assms(1,4) by (cases "p = 0"; auto)+

lemma alloc_alloc_disjoint:
  assumes "inv s" "0 < unat c" "unat c \<le> 4096" "0 < unat d" "unat d \<le> 4096"
    and "alloc c s = Some (p, s1)" "p \<noteq> 0" "alloc d s1 = Some (q, s2)" "q \<noteq> 0"
  shows "frames p c \<inter> frames q d = {}"
  using alloc_block[OF assms(1-3,6,7)] alloc_block[OF _ assms(4,5,8,9)] by blast

lemma alloc_release_taken:
  assumes "inv s" "0 < unat c" "unat c \<le> 4096" "alloc c s = Some (p, s1)" "p \<noteq> 0"
  shows "\<exists>s2. release p c s1 = Some s2 \<and> taken s2 = taken s \<and> inv s2 \<and> content s2 = content s"
proof -
  note b = alloc_block[OF assms]
  then obtain s2 where "release p c s1 = Some s2" "taken s2 = taken s1 - frames p c" "inv s2"
      "content s2 = content s1"
    using release_block[of s1 p c] by blast
  with b show ?thesis by auto
qed

end

definition mm_inv :: "mm \<Rightarrow> bool" where
  "mm_inv s \<longleftrightarrow> wf_bitmap (page_bitmap s) \<and> 0 \<in> used s"

definition mm_content :: "mm \<Rightarrow> memory \<times> u32 \<times> u32 \<times> u32" where
  "mm_content s = (mem s, kernel_page_dir s, cr0 s, cr3 s)"

lemma page_addr_eq_0_iff: "k < 2 ^ 20 \<Longrightarrow> page_addr k = 0 \<longleftrightarrow> k = 0"
  by (simp add: word32_eq_iff_unat unat_page_addr)

interpretation pa: page_allocator memory_alloc_pages memory_free_pages used mm_inv mm_content
proof unfold_locales
  fix s s' :: mm and c p :: u32
  assume inv: "mm_inv s"
  then have wf: "wf_bitmap (page_bitmap s)" and z: "0 \<in> used s" by (simp_all add: mm_inv_def)
  show "\<exists>p s'. memory_alloc_pages c s = Some (p, s')" if "unat c \<le> 4096"
    using alloc_cases[OF wf that] by metis
  show "s' = s" if "0 < unat c" "unat c \<le> 4096" "memory_alloc_pages c s = Some (0, s')"
    using wf that(2)
  proof (cases rule: alloc_cases)
    case (success k bm)
    then have "k = 0" using that(3) page_addr_eq_0_iff[of k] by simp
    with success(2) that(1) z show ?thesis by (auto simp: free_run_def)
  qed (use that(3) in simp)
  show "page_aligned p \<and> 0 < unat p div 4096 \<and> unat p div 4096 + unat c \<le> 4096 \<and>
      frames p c \<inter> used s = {} \<and> used s' = used s \<union> frames p c \<and> mm_inv s' \<and> mm_content s' = mm_content s"
    if "0 < unat c" "unat c \<le> 4096" "memory_alloc_pages c s = Some (p, s')" "p \<noteq> 0"
    using wf that(2)
  proof (cases rule: alloc_cases)
    case (success k bm)
    then have "k < 2 ^ 20" "p = page_addr k" "k \<noteq> 0"
      using that(3,4) page_addr_eq_0_iff[of k] by auto
    with success that(3) z show ?thesis
      by (auto simp: unat_page_addr frames_page_addr free_run_def mm_inv_def used_def mm_content_def)
  qed (use that(3,4) in simp)
  show "\<exists>s'. memory_free_pages p c s = Some s' \<and> used s' = used s - frames p c \<and> mm_inv s' \<and>
      mm_content s' = mm_content s"
    if "0 < unat p div 4096" "unat p div 4096 + unat c \<le> 4096"
    using wf that(2)
  proof (rule free_spec)
    fix bm
    assume "wf_bitmap bm" "bits_of bm = used s - frames p c"
      "memory_free_pages p c s = Some (s\<lparr>page_bitmap := bm,
        total_allocated_pages := total_allocated_pages s - c\<rparr>)"
    then show ?thesis using z that(1)
      by (auto simp: mm_inv_def used_def mm_content_def frames_def)
  qed
qed

section \<open>Properties\<close>

text \<open>A machine whose only reserved page is page 0, for the witnesses.\<close>

definition demo_mm :: mm where
  "demo_mm = \<lparr>mem = (\<lambda>_. 0), page_bitmap = 1 # replicate 127 0, total_allocated_pages = 0,
     kernel_page_dir = 0, cr0 = 0, cr3 = 0\<rparr>"

lemma used_demo [simp]: "used demo_mm = {0}"
proof -
  have "p \<in> used demo_mm \<longleftrightarrow> p = 0" for p
    by (cases "p div 32") (auto simp: used_def bits_of_def demo_mm_def bit_simps)
  then show ?thesis by blast
qed

lemma wf_demo [simp]: "wf_bitmap (page_bitmap demo_mm)" and demo_mm_inv [simp]: "mm_inv demo_mm"
  by (simp_all add: wf_bitmap_def mm_inv_def) (simp_all add: demo_mm_def)

text \<open>
  C11: \<^verbatim>\<open>memory_alloc_pages(count)\<close> is first fit: it returns the lowest page \<open>k\<close> below
  \<^verbatim>\<open>PHYS_PAGES - count\<close> at which \<open>count\<close> consecutive pages are free, marks exactly those pages
  as used, adds \<open>count\<close> to the statistics and touches nothing else; if there is no such page it returns
  the null pointer and changes nothing. It never leaves the bitmap.
\<close>

theorem alloc_first_fit:
  assumes "wf_bitmap (page_bitmap s)" and "unat count \<le> 4096"
  shows "case find (free_run (used s) (unat count)) [0..<4096 - unat count] of
      None \<Rightarrow> memory_alloc_pages count s = Some (0, s)
    | Some k \<Rightarrow> (\<exists>s'. memory_alloc_pages count s = Some (page_addr k, s') \<and>
        used s' = used s \<union> {k..<k + unat count} \<and> wf_bitmap (page_bitmap s') \<and>
        total_allocated_pages s' = total_allocated_pages s + count \<and> mm_content s' = mm_content s)"
  using assms
proof (cases rule: alloc_cases)
  case fail
  then have "find (free_run (used s) (unat count)) [0..<4096 - unat count] = None"
    by (simp add: find_upt_None_iff)
  with fail show ?thesis by simp
next
  case (success k bm)
  then have "find (free_run (used s) (unat count)) [0..<4096 - unat count] = Some k"
    by (simp add: find_upt_Some_iff)
  with success show ?thesis by (simp add: used_def mm_content_def)
qed

theorem alloc_first_fit_witness:
  "wf_bitmap (page_bitmap demo_mm) \<and>
   (\<exists>s'. memory_alloc_pages 2 demo_mm = Some (page_addr 1, s') \<and> used s' = {0, 1, 2})"
proof -
  have "find (free_run (used demo_mm) (unat (2 :: u32))) [0..<4096 - unat (2 :: u32)] = Some 1"
    by (auto simp: find_upt_Some_iff free_run_def)
  moreover have "{1..<1 + unat (2 :: u32)} = {1, 2}" by auto
  ultimately show ?thesis
    using alloc_first_fit[OF wf_demo, of 2] by (auto simp: insert_commute)
qed

text \<open>
  Two blocks handed out by successive allocations never share a page: whatever the
  sizes, if both calls succeed the blocks are disjoint.
\<close>

lemma alloc_blocks_disjoint:
  assumes "mm_inv s" "0 < unat c" "unat c \<le> 4096" "0 < unat d" "unat d \<le> 4096"
    and "memory_alloc_pages c s = Some (p, s1)" "p \<noteq> 0"
    and "memory_alloc_pages d s1 = Some (q, s2)" "q \<noteq> 0"
  shows "frames p c \<inter> frames q d = {}"
  using assms by (rule pa.alloc_alloc_disjoint)

lemma one_page: "unat (1 :: u32) \<le> 4096"
  by simp

lemma demo_alloc:
  obtains s1 where "memory_alloc_pages 1 demo_mm = Some (page_addr 1, s1)" "used s1 = {0, 1}" "mm_inv s1"
proof -
  obtain p s1 where e: "memory_alloc_pages 1 demo_mm = Some (p, s1)"
    using pa.alloc_total[OF demo_mm_inv, of 1] by auto
  have "p = page_addr 1"
    using wf_demo one_page
  proof (cases rule: alloc_cases)
    case fail
    then have "\<not> free_run {0} 1 1" using fail(2)[rule_format, of 1] by simp
    then show ?thesis by (simp add: free_run_def)
  next
    case (success k bm)
    have "k \<noteq> 0" using success(2) by (auto simp: free_run_def)
    moreover have "\<not> 1 < k" using success(3) by (auto simp: free_run_def)
    ultimately show ?thesis using success(6) e by (cases "k = 1") auto
  qed
  moreover have "page_addr 1 \<noteq> 0" by (simp add: page_addr_def)
  ultimately show thesis
    using e pa.alloc_block[OF demo_mm_inv _ _ e] that[of s1]
    by (auto simp: frames_one unat_page_addr)
qed

lemma alloc_blocks_disjoint_witness:
  "\<exists>p s1 q s2. memory_alloc_pages 1 demo_mm = Some (p, s1) \<and> p \<noteq> 0 \<and>
     memory_alloc_pages 1 s1 = Some (q, s2) \<and> q \<noteq> 0 \<and> frames p 1 \<inter> frames q 1 = {}"
proof -
  obtain s1 where s1: "memory_alloc_pages 1 demo_mm = Some (page_addr 1, s1)" "used s1 = {0, 1}" "mm_inv s1"
    by (rule demo_alloc)
  then have wf1: "wf_bitmap (page_bitmap s1)" by (simp add: mm_inv_def)
  obtain q s2 where q: "memory_alloc_pages 1 s1 = Some (q, s2)" "q \<noteq> 0"
    using wf1 one_page
  proof (cases rule: alloc_cases)
    case fail
    then have "\<not> free_run {0, 1} 1 2" using s1(2) fail(2)[rule_format, of 2] by simp
    then show ?thesis by (simp add: free_run_def)
  next
    case (success k bm)
    have "k \<noteq> 0" using success(2) s1(2) by (auto simp: free_run_def)
    then have "page_addr k \<noteq> 0" using success(1) page_addr_eq_0_iff[of k] by simp
    with success(6) that show ?thesis by blast
  qed
  have nz: "page_addr 1 \<noteq> 0" by (simp add: page_addr_def)
  show ?thesis
    using s1(1) q nz alloc_blocks_disjoint[OF demo_mm_inv _ _ _ _ s1(1) nz q] by auto
qed

text \<open>
  Freeing a block that was just allocated restores the set of used pages and the allocation
  statistics, and leaves memory contents and control registers alone.
\<close>

lemma alloc_free_roundtrip:
  assumes "mm_inv s" "0 < unat c" "unat c \<le> 4096"
    and "memory_alloc_pages c s = Some (p, s1)" "p \<noteq> 0"
  shows "\<exists>s2. memory_free_pages p c s1 = Some s2 \<and> used s2 = used s \<and>
    total_allocated_pages s2 = total_allocated_pages s \<and> mm_content s2 = mm_content s"
proof -
  obtain s2 where s2: "memory_free_pages p c s1 = Some s2" "used s2 = used s" "mm_content s2 = mm_content s"
    using pa.alloc_release_taken[OF assms] by blast
  have "total_allocated_pages s1 = total_allocated_pages s + c"
    using assms(4,5) by (auto simp: memory_alloc_pages_def split: option.splits)
  moreover have "total_allocated_pages s2 = total_allocated_pages s1 - c"
    using s2(1) by (auto simp: memory_free_pages_def Let_def split: option.splits)
  ultimately show ?thesis using s2 by auto
qed

lemma alloc_free_roundtrip_witness:
  "\<exists>s1 s2. memory_alloc_pages 1 demo_mm = Some (page_addr 1, s1) \<and>
     memory_free_pages (page_addr 1) 1 s1 = Some s2 \<and> used s2 = used demo_mm"
proof -
  obtain s1 where s1: "memory_alloc_pages 1 demo_mm = Some (page_addr 1, s1)"
    by (rule demo_alloc)
  have nz: "page_addr 1 \<noteq> 0" by (simp add: page_addr_def)
  show ?thesis using alloc_free_roundtrip[OF demo_mm_inv _ _ s1 nz] s1 by auto
qed

text \<open>
  A request for more pages than the machine has is undefined behaviour: the unsigned loop
  bound \<^verbatim>\<open>PHYS_PAGES - count\<close> wraps around and the scan reads past the end of \<^verbatim>\<open>page_bitmap\<close>,
  whatever the bitmap holds. \<^verbatim>\<open>sys_memory_alloc\<close> passes such counts on from user space.
\<close>

lemma alloc_oversized_undefined:
  assumes "wf_bitmap (page_bitmap s)" and "4096 < unat count"
  shows "memory_alloc_pages count s = None"
proof -
  have "unat (PHYS_PAGES - count) = 2 ^ 32 - (unat count - 4096)"
  proof -
    have "count - PHYS_PAGES \<noteq> 0" using assms(2) by auto
    then have "unat (count - PHYS_PAGES) + unat (- (count - PHYS_PAGES)) = 2 ^ 32"
      by (rule unat_add_uminus)
    moreover have "unat (count - PHYS_PAGES) = unat count - 4096"
      using assms(2) by (simp add: unat_sub word_le_nat_alt)
    ultimately show ?thesis by simp
  qed
  then have "4096 < unat (PHYS_PAGES - count)" by simp (use unat_lt_32[of count] assms(2) in linarith)
  then show ?thesis
    using alloc_scan_oversized[OF assms, of 0] by (simp add: memory_alloc_pages_def)
qed

lemma alloc_oversized_undefined_witness: "memory_alloc_pages 4097 demo_mm = None"
  using alloc_oversized_undefined[OF wf_demo, of 4097] by simp

text \<open>
  The last page of physical memory is never handed out: the scan stops one candidate early,
  so page 4095 stays unused whatever is requested.
\<close>

lemma last_page_never_allocated:
  assumes "wf_bitmap (page_bitmap s)" and "4095 \<notin> used s" and "unat count \<le> 4096"
    and "memory_alloc_pages count s = Some (p, s')"
  shows "4095 \<notin> used s'"
  using assms(1,3)
proof (cases rule: alloc_cases)
  case (success k bm)
  then show ?thesis using assms(2,4) by (auto simp: used_def)
qed (use assms in auto)

lemma last_page_never_allocated_witness:
  "\<exists>s'. memory_alloc_pages 1 demo_mm = Some (page_addr 1, s') \<and> 4095 \<notin> used s'"
proof -
  obtain s1 where s1: "memory_alloc_pages 1 demo_mm = Some (page_addr 1, s1)"
    by (rule demo_alloc)
  with last_page_never_allocated[OF wf_demo _ _ s1] show ?thesis by simp
qed

end
