(* ===== verification/Paging.thy ===== *)
theory Paging
  imports Phys_Alloc
begin

text \<open>
  The paging half of \<^verbatim>\<open>kernel/memory.c\<close>: building two-level x86 page tables in physical memory.
  Beside the code, \<open>walk\<close> states what the processor does with such tables, and the theorems are
  about that walk: which physical address a virtual address reaches, and with which rights.
\<close>

section \<open>The code\<close>

definition hal_cpu_set_cr3 :: "u32 \<Rightarrow> mm \<Rightarrow> mm" where
  "hal_cpu_set_cr3 page_dir s = s\<lparr>cr3 := page_dir\<rparr>"

text \<open>Reloads CR3 with its own value; the translation cache itself is not part of the model.\<close>

definition hal_cpu_flush_tlb :: "mm \<Rightarrow> mm" where
  "hal_cpu_flush_tlb s = s\<lparr>cr3 := cr3 s\<rparr>"

definition hal_cpu_enable_paging :: "u32 \<Rightarrow> mm \<Rightarrow> mm" where
  "hal_cpu_enable_paging page_dir s =
     (let s1 = hal_cpu_set_cr3 page_dir s in s1\<lparr>cr0 := cr0 s1 OR 0x80000000\<rparr>)"

text \<open>The address of entry \<open>i\<close> of the page table or directory at \<open>p\<close>: \<^verbatim>\<open>&((uint32_t*)p)[i]\<close>.\<close>

definition ent :: "u32 \<Rightarrow> u32 \<Rightarrow> u32" where
  "ent p i = p + 4 * i"

definition memory_map_page :: "u32 \<Rightarrow> u32 \<Rightarrow> u32 \<Rightarrow> u32 \<Rightarrow> mm \<Rightarrow> mm option" where
  "memory_map_page page_dir virt_addr phys_addr flags s =
     (let pd_index = drop_bit 22 virt_addr;
          pt_index = drop_bit 12 virt_addr AND 0x3FF;
          pde = load32 (mem s) (ent page_dir pd_index);
          pte = (phys_addr AND NOT 0xFFF) OR (flags AND 0xFFF) OR 0x01
      in if pde AND 0x01 = 0 then
           (case memory_alloc_pages 1 s of
              None \<Rightarrow> None
            | Some (page_table, s1) \<Rightarrow>
                let m1 = memset (mem s1) page_table 0 4096;
                    m2 = store32 m1 (ent page_dir pd_index) (page_table OR (flags AND 0x07));
                    m3 = store32 m2 (ent page_table pt_index) pte
                in Some (hal_cpu_flush_tlb (s1\<lparr>mem := m3\<rparr>)))
         else
           (let page_table = pde AND NOT 0xFFF;
                m1 = (if flags AND 0x04 \<noteq> 0
                      then store32 (mem s) (ent page_dir pd_index) (pde OR 0x04) else mem s);
                m2 = store32 m1 (ent page_table pt_index) pte
            in Some (hal_cpu_flush_tlb (s\<lparr>mem := m2\<rparr>))))"

definition memory_map_kernel :: "u32 \<Rightarrow> mm \<Rightarrow> mm option" where
  "memory_map_kernel page_dir s =
     for_each (\<lambda>i. memory_map_page page_dir (of_nat i * PAGE_SIZE) (of_nat i * PAGE_SIZE) 0x03)
       [0..<unat (MEMORY_SIZE div PAGE_SIZE)] s"

definition memory_create_page_directory :: "mm \<Rightarrow> (u32 \<times> mm) option" where
  "memory_create_page_directory s =
     (case memory_alloc_pages 1 s of
        None \<Rightarrow> None
      | Some (pd, s1) \<Rightarrow>
          if pd = 0 then Some (0, s1) else Some (pd, s1\<lparr>mem := memset (mem s1) pd 0 4096\<rparr>))"

definition memory_destroy_page_directory :: "u32 \<Rightarrow> mm \<Rightarrow> mm option" where
  "memory_destroy_page_directory page_dir s =
     (case for_each (\<lambda>i t.
             let e = load32 (mem t) (ent page_dir (of_nat i))
             in if e AND 0x01 \<noteq> 0 then memory_free_pages (e AND NOT 0xFFF) 1 t else Some t)
           [0..<1024] s of
        None \<Rightarrow> None
      | Some s1 \<Rightarrow> memory_free_pages page_dir 1 s1)"

definition memory_init :: "mm \<Rightarrow> mm option" where
  "memory_init s =
     (let s0 = s\<lparr>page_bitmap := replicate BITMAP_SIZE 0\<rparr> in
      case for_each (\<lambda>i. bitmap_set (of_nat i)) [0..<256] (page_bitmap s0) of
        None \<Rightarrow> None
      | Some bm1 \<Rightarrow>
     (case for_each (\<lambda>i. bitmap_set (of_nat i)) [256..<512] bm1 of
        None \<Rightarrow> None
      | Some bm2 \<Rightarrow>
     (case memory_alloc_pages 1 (s0\<lparr>page_bitmap := bm2\<rparr>) of
        None \<Rightarrow> None
      | Some (pd, s1) \<Rightarrow>
     (let s2 = s1\<lparr>kernel_page_dir := pd, mem := memset (mem s1) pd 0 4096\<rparr> in
      case memory_map_kernel pd s2 of
        None \<Rightarrow> None
      | Some s3 \<Rightarrow> Some (hal_cpu_enable_paging (kernel_page_dir s3) s3)))))"

section \<open>The processor's view\<close>

text \<open>
  The two-level walk: \<open>None\<close> is a page fault on a non-present entry, otherwise the physical address
  and the rights, which the processor takes as the conjunction of both levels (bit 1 writable,
  bit 2 user).
\<close>

definition PTE_ADDR :: "u32 \<Rightarrow> u32" where
  "PTE_ADDR e = e AND NOT 0xFFF"

definition pdi :: "u32 \<Rightarrow> u32" where "pdi va = drop_bit 22 va"
definition pti :: "u32 \<Rightarrow> u32" where "pti va = drop_bit 12 va AND 0x3FF"

definition walk :: "memory \<Rightarrow> u32 \<Rightarrow> u32 \<Rightarrow> (u32 \<times> u32) option" where
  "walk m pd va =
     (let pde = load32 m (ent pd (pdi va)) in
      if pde AND 1 = 0 then None
      else let pte = load32 m (ent (PTE_ADDR pde) (pti va)) in
           if pte AND 1 = 0 then None
           else Some (PTE_ADDR pte OR (va AND 0xFFF), pde AND pte AND 6))"

definition present :: "memory \<Rightarrow> u32 \<Rightarrow> u32 \<Rightarrow> bool" where
  "present m pd i \<longleftrightarrow> load32 m (ent pd i) AND 1 \<noteq> 0"

definition table :: "memory \<Rightarrow> u32 \<Rightarrow> u32 \<Rightarrow> u32" where
  "table m pd i = PTE_ADDR (load32 m (ent pd i))"

text \<open>
  A well-formed page directory: it and its tables are distinct used pages, and no two
  present entries share a table.
\<close>

definition pd_wf :: "mm \<Rightarrow> u32 \<Rightarrow> bool" where
  "pd_wf s pd \<longleftrightarrow> page_aligned pd \<and> unat pd div 4096 \<in> used s \<and>
     (\<forall>i. unat i < 1024 \<longrightarrow> present (mem s) pd i \<longrightarrow>
        unat (table (mem s) pd i) div 4096 \<in> used s \<and> table (mem s) pd i \<noteq> pd \<and>
        table (mem s) pd i \<noteq> 0) \<and>
     (\<forall>i j. unat i < 1024 \<longrightarrow> unat j < 1024 \<longrightarrow> present (mem s) pd i \<longrightarrow> present (mem s) pd j \<longrightarrow>
        table (mem s) pd i = table (mem s) pd j \<longrightarrow> i = j)"

section \<open>Entries and masks\<close>

lemma page_mask: "(0xFFF :: u32) = mask 12"
  by (simp add: mask_eq_exp_minus_1)

lemma page_aligned_bits: "page_aligned p \<longleftrightarrow> (\<forall>n < 12. \<not> bit p n)"
proof -
  have "page_aligned p \<longleftrightarrow> take_bit 12 p = 0"
    unfolding page_aligned_def word32_eq_iff_unat by (simp add: unsigned_take_bit_eq take_bit_eq_mod unat_mod)
  also have "\<dots> \<longleftrightarrow> (\<forall>n < 12. \<not> bit p n)"
    by (auto simp: bit_eq_iff bit_simps)
  finally show ?thesis .
qed

lemma PTE_ADDR_aligned [simp]: "page_aligned (PTE_ADDR e)"
  unfolding page_aligned_bits PTE_ADDR_def page_mask by (simp add: bit_simps)

lemma PTE_ADDR_or:
  assumes "page_aligned p"
  shows "PTE_ADDR (p OR (f AND 0xFFF)) = p" and "PTE_ADDR (p OR (f AND 7)) = p"
    and "PTE_ADDR (p OR (f AND 0xFFF) OR 1) = p"
proof -
  have seven: "(7 :: u32) = mask 3" and one: "(1 :: u32) = mask 1"
    by (simp_all add: mask_eq_exp_minus_1)
  show "PTE_ADDR (p OR (f AND 0xFFF)) = p" and "PTE_ADDR (p OR (f AND 7)) = p"
    and "PTE_ADDR (p OR (f AND 0xFFF) OR 1) = p"
    using assms unfolding page_aligned_bits PTE_ADDR_def page_mask seven one
    by (auto intro!: bit_word_eqI simp: bit_simps)
qed

lemma PTE_ADDR_or_user [simp]: "PTE_ADDR (e OR 4) = PTE_ADDR e"
proof -
  have "PTE_ADDR (e OR (4 AND 0xFFF)) = PTE_ADDR e"
    unfolding PTE_ADDR_def page_mask by (rule bit_word_eqI) (auto simp: bit_simps)
  then show ?thesis by simp
qed

lemma low_bit_or: "(e OR f) AND 1 = (e AND 1) OR (f AND (1 :: u32))"
  by (rule bit_word_eqI) (auto simp: bit_simps)

lemma page_aligned_low [simp]: "page_aligned p \<Longrightarrow> p AND 1 = 0"
  unfolding page_aligned_bits by (auto intro!: bit_word_eqI simp: bit_simps)

lemma unat_pdi: "unat (pdi va) = unat va div 4194304"
  by (simp add: pdi_def unsigned_drop_bit_eq drop_bit_eq_div unat_div)

lemma unat_pti: "unat (pti va) = unat va div 4096 mod 1024"
proof -
  have m: "(0x3FF :: u32) = mask 10" by (simp add: mask_eq_exp_minus_1)
  show ?thesis unfolding pti_def m
    by (simp add: take_bit_eq_mask [symmetric] unsigned_take_bit_eq unsigned_drop_bit_eq
        drop_bit_eq_div take_bit_eq_mod unat_div unat_mod)
qed

lemma unat_pdi_lt [simp]: "unat (pdi va) < 1024"
  unfolding unat_pdi using unat_lt_32[of va] by (simp add: less_mult_imp_div_less)

lemma unat_pti_lt [simp]: "unat (pti va) < 1024"
  unfolding unat_pti by simp

lemma ent_offset:
  fixes i :: u32
  assumes "unat i < 1024"
  shows "unat (4 * i) = 4 * unat i"
  using assms by (subst unat_mult_small) simp_all

lemma ent_aligned:
  assumes "page_aligned p" "unat i < 1024"
  shows "aligned4 (ent p i)"
  unfolding ent_def by (rule aligned4_page_offset[OF assms(1)]) (simp_all add: ent_offset[OF assms(2)] assms(2))

lemma ent_inj:
  assumes "page_aligned p" "page_aligned q" "unat i < 1024" "unat j < 1024"
  shows "ent p i = ent q j \<longleftrightarrow> p = q \<and> i = j"
proof -
  have "ent p i = ent q j \<longleftrightarrow> p = q \<and> 4 * i = 4 * j"
    unfolding ent_def using assms by (intro page_offset_inj) (simp_all add: ent_offset)
  moreover have "4 * i = 4 * j \<longleftrightarrow> i = j"
    using ent_offset[OF assms(3)] ent_offset[OF assms(4)] by (auto simp: word32_eq_iff_unat)
  ultimately show ?thesis by simp
qed

lemma load32_store32_ent:
  assumes "page_aligned p" "page_aligned q" "unat i < 1024" "unat j < 1024"
  shows "load32 (store32 m (ent p i) v) (ent q j) = (if p = q \<and> i = j then v else load32 m (ent q j))"
  using assms by (simp add: load32_store32_aligned ent_aligned ent_inj)

lemma load32_memset_ent:
  assumes "page_aligned p" "page_aligned q" "unat j < 1024"
  shows "load32 (memset m p 0 4096) (ent q j) = (if q = p then 0 else load32 m (ent q j))"
  unfolding ent_def using assms by (intro load32_memset_page) (simp_all add: ent_offset)

lemma store32_ent_other_page:
  assumes "page_aligned p" "unat i < 1024" "unat a div 4096 \<noteq> unat p div 4096"
  shows "store32 m (ent p i) v a = m a"
  unfolding ent_def using assms by (intro store32_other_page) (simp_all add: ent_offset)

lemma load32_ent_cong:
  assumes "page_aligned q" "unat i < 1024" "\<And>a. unat a div 4096 = unat q div 4096 \<Longrightarrow> m a = m' a"
  shows "load32 m (ent q i) = load32 m' (ent q i)"
  unfolding ent_def using assms by (intro load32_other_page) (simp_all add: ent_offset)

lemma page_frame_inj:
  "page_aligned p \<Longrightarrow> page_aligned q \<Longrightarrow> unat p div 4096 = unat q div 4096 \<longleftrightarrow> p = q"
  by (auto simp: page_aligned_def word32_eq_iff_unat)

section \<open>One mapping step\<close>

text \<open>What no mapping step changes: the kernel's directory and the control registers.\<close>

definition mm_regs :: "mm \<Rightarrow> u32 \<times> u32 \<times> u32" where
  "mm_regs s = (kernel_page_dir s, cr0 s, cr3 s)"

definition PTE :: "u32 \<Rightarrow> u32 \<Rightarrow> u32" where
  "PTE phys flags = PTE_ADDR phys OR (flags AND 0xFFF) OR 1"

lemma PTE_simps [simp]: "PTE_ADDR (PTE phys flags) = PTE_ADDR phys" "PTE phys flags AND 1 = 1"
  unfolding PTE_def by (simp_all add: PTE_ADDR_or low_bit_or)

lemma map_page_present:
  assumes wf: "pd_wf s pd" and pres: "present (mem s) pd (pdi virt)"
  obtains s' where "memory_map_page pd virt phys flags s = Some s'" and "used s' = used s"
    and "page_bitmap s' = page_bitmap s" and "mm_regs s' = mm_regs s"
    and "\<And>j. unat j < 1024 \<Longrightarrow> load32 (mem s') (ent pd j) =
      (if j = pdi virt \<and> flags AND 4 \<noteq> 0 then load32 (mem s) (ent pd j) OR 4 else load32 (mem s) (ent pd j))"
    and "\<And>q k. page_aligned q \<Longrightarrow> unat k < 1024 \<Longrightarrow> q \<noteq> pd \<Longrightarrow> load32 (mem s') (ent q k) =
      (if q = table (mem s) pd (pdi virt) \<and> k = pti virt then PTE phys flags else load32 (mem s) (ent q k))"
    and "\<And>a. unat a div 4096 \<notin> {unat pd div 4096, unat (table (mem s) pd (pdi virt)) div 4096} \<Longrightarrow>
      mem s' a = mem s a"
proof -
  let ?e = "ent pd (pdi virt)" and ?pt = "table (mem s) pd (pdi virt)"
  let ?m1 = "if flags AND 4 \<noteq> 0 then store32 (mem s) ?e (load32 (mem s) ?e OR 4) else mem s"
  let ?m2 = "store32 ?m1 (ent ?pt (pti virt)) (PTE phys flags)"
  have pd: "page_aligned pd" and pt: "page_aligned ?pt" and ne: "?pt \<noteq> pd"
    using wf pres by (auto simp: pd_wf_def table_def)
  have eq: "memory_map_page pd virt phys flags s = Some (s\<lparr>mem := ?m2\<rparr>)"
    using pres by (simp add: memory_map_page_def Let_def present_def table_def PTE_ADDR_def PTE_def
        pdi_def [symmetric] pti_def [symmetric] hal_cpu_flush_tlb_def)
  show thesis
    by (rule that[OF eq]) (use pd pt ne in \<open>auto simp: used_def mm_regs_def load32_store32_ent store32_ent_other_page\<close>)
qed

lemma map_page_absent:
  assumes wf: "pd_wf s pd" and inv: "mm_inv s" and abs: "\<not> present (mem s) pd (pdi virt)"
    and room: "\<exists>k < 4095. k \<notin> used s"
  obtains s' pt where "memory_map_page pd virt phys flags s = Some s'"
    and "page_aligned pt" and "pt \<noteq> 0" and "pt \<noteq> pd" and "unat pt div 4096 < 4095"
    and "unat pt div 4096 \<notin> used s" and "used s' = insert (unat pt div 4096) (used s)" and "mm_inv s'"
    and "mm_regs s' = mm_regs s"
    and "\<And>j. unat j < 1024 \<Longrightarrow> load32 (mem s') (ent pd j) =
      (if j = pdi virt then pt OR (flags AND 7) else load32 (mem s) (ent pd j))"
    and "\<And>q k. page_aligned q \<Longrightarrow> unat k < 1024 \<Longrightarrow> q \<noteq> pd \<Longrightarrow> load32 (mem s') (ent q k) =
      (if q = pt then if k = pti virt then PTE phys flags else 0 else load32 (mem s) (ent q k))"
    and "\<And>a. unat a div 4096 \<notin> {unat pd div 4096, unat pt div 4096} \<Longrightarrow> mem s' a = mem s a"
proof -
  have pd: "page_aligned pd" and pdu: "unat pd div 4096 \<in> used s"
    using wf by (auto simp: pd_wf_def)
  have wfb: "wf_bitmap (page_bitmap s)" using inv by (simp add: mm_inv_def)
  obtain k bm s1 where k: "k < 4095" "k \<notin> used s" and
    al: "memory_alloc_pages 1 s = Some (page_addr k, s1)" and
    s1: "s1 = s\<lparr>page_bitmap := bm, total_allocated_pages := total_allocated_pages s + 1\<rparr>" and
    u1: "used s1 = insert k (used s)" and wf1: "wf_bitmap bm"
    using wfb one_page
  proof (cases rule: alloc_cases)
    case fail
    with room show ?thesis by (auto simp: free_run_def)
  next
    case (success k bm)
    then show ?thesis by (intro that[of k _ bm]) (auto simp: free_run_def used_def)
  qed
  let ?pt = "page_addr k"
  let ?m = "store32 (store32 (memset (mem s) ?pt 0 4096) (ent pd (pdi virt)) (?pt OR (flags AND 7)))
     (ent ?pt (pti virt)) (PTE phys flags)"
  have pt: "page_aligned ?pt" "unat ?pt div 4096 = k" using k by (simp_all add: unat_page_addr)
  have ne: "?pt \<noteq> pd" using pt(2) k(2) pdu by auto
  have k0: "k \<noteq> 0" using k(2) inv unfolding mm_inv_def by metis
  have eq: "memory_map_page pd virt phys flags s = Some (s1\<lparr>mem := ?m\<rparr>)"
    using abs by (simp add: memory_map_page_def Let_def present_def table_def PTE_ADDR_def PTE_def
        pdi_def [symmetric] pti_def [symmetric] hal_cpu_flush_tlb_def al s1)
  show thesis
    by (rule that[OF eq pt(1)])
      (use pd pt ne k k0 wf1 u1 inv in \<open>auto simp: s1 used_def mm_inv_def mm_regs_def page_addr_eq_0_iff
        load32_store32_ent load32_memset_ent store32_ent_other_page memset_page\<close>)
qed

section \<open>The walk after a mapping step\<close>

lemma same_page_iff: "drop_bit 12 va = drop_bit 12 virt \<longleftrightarrow> pdi va = pdi virt \<and> pti va = pti virt"
proof -
  have *: "unat (drop_bit 12 w) = 1024 * unat (pdi w) + unat (pti w)" for w :: u32
  proof -
    have "unat (drop_bit 12 w) = unat w div 4096"
      by (simp add: unsigned_drop_bit_eq drop_bit_eq_div unat_div)
    moreover have "unat (pdi w) = unat w div 4096 div 1024"
      unfolding unat_pdi by (simp add: div_mult2_eq [symmetric])
    ultimately show ?thesis unfolding unat_pti by simp
  qed
  show ?thesis
  proof
    assume "drop_bit 12 va = drop_bit 12 virt"
    then have e: "1024 * unat (pdi va) + unat (pti va) = 1024 * unat (pdi virt) + unat (pti virt)"
      using *[of va] *[of virt] by simp
    have "(1024 * a + b) div 1024 = a" if "b < 1024" for a b :: nat
      using that by simp
    then have "unat (pdi va) = unat (pdi virt)"
      using arg_cong[OF e, of "\<lambda>x. x div 1024"] unat_pti_lt[of va] unat_pti_lt[of virt] by metis
    with e show "pdi va = pdi virt \<and> pti va = pti virt"
      by (simp add: word32_eq_iff_unat)
  next
    assume "pdi va = pdi virt \<and> pti va = pti virt"
    then show "drop_bit 12 va = drop_bit 12 virt" using *[of va] *[of virt]
      by (simp add: word32_eq_iff_unat)
  qed
qed

lemma PTE_ADDR_offset: "PTE_ADDR va OR (va AND 0xFFF) = va"
  unfolding PTE_ADDR_def page_mask by (rule bit_word_eqI) (auto simp: bit_simps)

lemma unat_PTE_ADDR: "unat (PTE_ADDR va) div 4096 = unat va div 4096"
proof -
  have "PTE_ADDR va + (va AND 0xFFF) = PTE_ADDR va OR (va AND 0xFFF)"
    unfolding PTE_ADDR_def page_mask by (rule disjunctive_add) (auto simp: bit_simps)
  moreover have "unat (va AND 0xFFF) < 4096"
    unfolding page_mask take_bit_eq_mask [symmetric]
    by (simp add: unsigned_take_bit_eq take_bit_eq_mod unat_mod)
  ultimately show ?thesis
    using page_offset_div[OF PTE_ADDR_aligned, of "va AND 0xFFF" va] by (simp add: PTE_ADDR_offset)
qed

lemma PTE_ADDR_page_addr:
  assumes "i < 2 ^ 20" "unat va div 4096 = i"
  shows "PTE_ADDR (page_addr i) OR (va AND 0xFFF) = va"
proof -
  have "unat (PTE_ADDR (page_addr i)) div 4096 = unat (PTE_ADDR va) div 4096"
    using assms by (simp add: unat_PTE_ADDR unat_page_addr)
  then have "PTE_ADDR (page_addr i) = PTE_ADDR va" by (simp add: page_frame_inj)
  then show ?thesis by (simp add: PTE_ADDR_offset)
qed

text \<open>
  A directory in which entry \<open>i\<close> is replaced by \<open>e\<close>, pointing to table \<open>pt\<close>, and entry \<open>t\<close> of that
  table by \<open>pte\<close>; the other entries of \<open>pt\<close> are \<open>rest\<close>. Both branches of a mapping step have this shape.
\<close>

lemma directory_update:
  assumes wf: "pd_wf s pd" and i: "unat i < 1024"
    and pt: "page_aligned pt" "pt \<noteq> 0" "pt \<noteq> pd" "unat pt div 4096 \<in> used s'" "used s \<subseteq> used s'"
    and e: "PTE_ADDR e = pt" "e AND 1 \<noteq> 0"
    and ld: "\<And>j. unat j < 1024 \<Longrightarrow> load32 (mem s') (ent pd j) = (if j = i then e else load32 (mem s) (ent pd j))"
    and lt: "\<And>q k. page_aligned q \<Longrightarrow> unat k < 1024 \<Longrightarrow> q \<noteq> pd \<Longrightarrow> load32 (mem s') (ent q k) =
      (if q = pt then if k = t then pte else rest k else load32 (mem s) (ent q k))"
    and fresh: "\<And>j. unat j < 1024 \<Longrightarrow> j \<noteq> i \<Longrightarrow> present (mem s) pd j \<Longrightarrow> table (mem s) pd j \<noteq> pt"
  shows "pd_wf s' pd"
    and "\<And>j. unat j < 1024 \<Longrightarrow> present (mem s') pd j \<longleftrightarrow> j = i \<or> present (mem s) pd j"
    and "\<And>va. walk (mem s') pd va =
      (if pdi va = i then
         let p = (if pti va = t then pte else rest (pti va))
         in if p AND 1 = 0 then None else Some (PTE_ADDR p OR (va AND 0xFFF), e AND p AND 6)
       else walk (mem s) pd va)"
proof -
  show pr: "present (mem s') pd j \<longleftrightarrow> j = i \<or> present (mem s) pd j" if "unat j < 1024" for j
    using ld[OF that] e by (auto simp: present_def)
  have tb: "table (mem s') pd j = (if j = i then pt else table (mem s) pd j)" if "unat j < 1024" for j
    using ld[OF that] e by (auto simp: table_def)
  show "pd_wf s' pd"
    using wf pr tb fresh pt by (auto simp: pd_wf_def)
  fix va
  have "PTE_ADDR (load32 (mem s) (ent pd (pdi va))) \<noteq> pd" if "load32 (mem s) (ent pd (pdi va)) AND 1 \<noteq> 0"
    using wf that by (auto simp: pd_wf_def present_def table_def)
  then show "walk (mem s') pd va =
      (if pdi va = i then
         let p = (if pti va = t then pte else rest (pti va))
         in if p AND 1 = 0 then None else Some (PTE_ADDR p OR (va AND 0xFFF), e AND p AND 6)
       else walk (mem s) pd va)"
    using ld[of "pdi va"] lt[OF PTE_ADDR_aligned, of "pti va"] fresh[of "pdi va"] e pt(3)
    by (auto simp: walk_def Let_def present_def table_def)
qed

lemma map_page_present_walk:
  assumes wf: "pd_wf s pd" and inv: "mm_inv s" and pres: "present (mem s) pd (pdi virt)"
  obtains s' where "memory_map_page pd virt phys flags s = Some s'" and "pd_wf s' pd" and "mm_inv s'"
    and "used s' = used s" and "mm_regs s' = mm_regs s"
    and "\<And>j. unat j < 1024 \<Longrightarrow> load32 (mem s') (ent pd j) =
      (if j = pdi virt \<and> flags AND 4 \<noteq> 0 then load32 (mem s) (ent pd j) OR 4 else load32 (mem s) (ent pd j))"
    and "\<And>a. unat a div 4096 \<notin> {unat pd div 4096, unat (table (mem s) pd (pdi virt)) div 4096} \<Longrightarrow>
      mem s' a = mem s a"
    and "\<And>j. unat j < 1024 \<Longrightarrow> present (mem s') pd j \<longleftrightarrow> present (mem s) pd j"
    and "\<And>va. walk (mem s') pd va =
      (let e = load32 (mem s) (ent pd (pdi virt)); e' = (if flags AND 4 \<noteq> 0 then e OR 4 else e);
           p = (if pti va = pti virt then PTE phys flags else load32 (mem s) (ent (PTE_ADDR e) (pti va)))
       in if pdi va = pdi virt
          then if p AND 1 = 0 then None else Some (PTE_ADDR p OR (va AND 0xFFF), e' AND p AND 6)
          else walk (mem s) pd va)"
proof -
  let ?e = "load32 (mem s) (ent pd (pdi virt))"
  let ?e' = "if flags AND 4 \<noteq> 0 then ?e OR 4 else ?e" and ?pt = "table (mem s) pd (pdi virt)"
  obtain s' where s': "memory_map_page pd virt phys flags s = Some s'" "used s' = used s"
      "page_bitmap s' = page_bitmap s" "mm_regs s' = mm_regs s"
    and ld: "\<And>j. unat j < 1024 \<Longrightarrow> load32 (mem s') (ent pd j) =
      (if j = pdi virt \<and> flags AND 4 \<noteq> 0 then load32 (mem s) (ent pd j) OR 4 else load32 (mem s) (ent pd j))"
    and lt: "\<And>q k. page_aligned q \<Longrightarrow> unat k < 1024 \<Longrightarrow> q \<noteq> pd \<Longrightarrow> load32 (mem s') (ent q k) =
      (if q = ?pt \<and> k = pti virt then PTE phys flags else load32 (mem s) (ent q k))"
    and fr: "\<And>a. unat a div 4096 \<notin> {unat pd div 4096, unat ?pt div 4096} \<Longrightarrow> mem s' a = mem s a"
    by (rule map_page_present[OF wf pres, of phys flags]) blast
  have four1: "(4 :: u32) AND 1 = 0" by simp
  have props: "page_aligned ?pt" "?pt \<noteq> 0" "?pt \<noteq> pd" "unat ?pt div 4096 \<in> used s'"
    "PTE_ADDR ?e' = ?pt" "?e' AND 1 \<noteq> 0"
    using wf pres by (auto simp: pd_wf_def table_def present_def s'(2) low_bit_or four1)
  have facts: "used s \<subseteq> used s'" using s'(2) by simp
  have ld': "load32 (mem s') (ent pd j) = (if j = pdi virt then ?e' else load32 (mem s) (ent pd j))"
    if "unat j < 1024" for j
    using ld[OF that] by auto
  have fresh: "table (mem s) pd j \<noteq> ?pt" if "unat j < 1024" "j \<noteq> pdi virt" "present (mem s) pd j" for j
    using wf that pres by (auto simp: pd_wf_def)
  have lt': "load32 (mem s') (ent q k) = (if q = ?pt then if k = pti virt then PTE phys flags
      else load32 (mem s) (ent ?pt k) else load32 (mem s) (ent q k))"
    if "page_aligned q" "unat k < 1024" "q \<noteq> pd" for q k
    using lt[OF that] by auto
  note upd = directory_update[OF wf unat_pdi_lt props(1-4) facts props(5,6) ld' lt' fresh]
  show thesis
    by (rule that[OF s'(1) upd(1)])
      (use inv pres upd(2,3) s'(2,4) ld fr in \<open>auto simp: mm_inv_def s'(2,3) table_def Let_def\<close>)
qed

lemma map_page_absent_walk:
  assumes wf: "pd_wf s pd" and inv: "mm_inv s" and abs: "\<not> present (mem s) pd (pdi virt)"
    and room: "\<exists>k < 4095. k \<notin> used s" and fl: "flags AND 1 = 1"
  obtains s' pt where "memory_map_page pd virt phys flags s = Some s'" and "pd_wf s' pd" and "mm_inv s'"
    and "page_aligned pt" and "unat pt div 4096 < 4095"
    and "unat pt div 4096 \<notin> used s" and "used s' = insert (unat pt div 4096) (used s)"
    and "mm_regs s' = mm_regs s"
    and "\<And>a. unat a div 4096 \<notin> {unat pd div 4096, unat pt div 4096} \<Longrightarrow> mem s' a = mem s a"
    and "\<And>j. unat j < 1024 \<Longrightarrow> present (mem s') pd j \<longleftrightarrow> j = pdi virt \<or> present (mem s) pd j"
    and "\<And>va. walk (mem s') pd va =
      (if pdi va = pdi virt
       then if pti va = pti virt
            then Some (PTE_ADDR phys OR (va AND 0xFFF), (pt OR (flags AND 7)) AND PTE phys flags AND 6)
            else None
       else walk (mem s) pd va)"
    and "load32 (mem s') (ent pd (pdi virt)) = pt OR (flags AND 7)"
    and "\<And>j. unat j < 1024 \<Longrightarrow> j \<noteq> pdi virt \<Longrightarrow> load32 (mem s') (ent pd j) = load32 (mem s) (ent pd j)"
proof -
  obtain s' pt where s': "memory_map_page pd virt phys flags s = Some s'"
      "page_aligned pt" "pt \<noteq> 0" "pt \<noteq> pd" "unat pt div 4096 < 4095" "unat pt div 4096 \<notin> used s"
      "used s' = insert (unat pt div 4096) (used s)" "mm_inv s'" "mm_regs s' = mm_regs s"
    and ld: "\<And>j. unat j < 1024 \<Longrightarrow> load32 (mem s') (ent pd j) =
      (if j = pdi virt then pt OR (flags AND 7) else load32 (mem s) (ent pd j))"
    and lt: "\<And>q k. page_aligned q \<Longrightarrow> unat k < 1024 \<Longrightarrow> q \<noteq> pd \<Longrightarrow> load32 (mem s') (ent q k) =
      (if q = pt then if k = pti virt then PTE phys flags else 0 else load32 (mem s) (ent q k))"
    and fr: "\<And>a. unat a div 4096 \<notin> {unat pd div 4096, unat pt div 4096} \<Longrightarrow> mem s' a = mem s a"
    by (rule map_page_absent[OF wf inv abs room, of phys flags]) blast
  have e: "PTE_ADDR (pt OR (flags AND 7)) = pt" "(pt OR (flags AND 7)) AND 1 \<noteq> 0"
    using s'(2) fl by (simp_all add: PTE_ADDR_or low_bit_or and.assoc)
  have facts: "unat pt div 4096 \<in> used s'" "used s \<subseteq> used s'" using s'(7) by auto
  have fresh: "table (mem s) pd j \<noteq> pt" if "unat j < 1024" "j \<noteq> pdi virt" "present (mem s) pd j" for j
    using wf that s'(6) unfolding pd_wf_def by metis
  note upd = directory_update[OF wf unat_pdi_lt s'(2-4) facts e ld lt fresh]
  show thesis
    by (rule that[OF s'(1) upd(1) s'(8,2,5-7,9) fr])
      (use upd(2,3) ld in \<open>auto simp: Let_def\<close>)
qed

text \<open>
  Both cases at once. The mapped page is writable when that is asked for and the entry of the directory allows it, which it
  does when the table is new; the page is for user mode when that is asked for.
\<close>

definition region_writable :: "memory \<Rightarrow> u32 \<Rightarrow> u32 \<Rightarrow> bool" where
  "region_writable m pd i \<longleftrightarrow> \<not> present m pd i \<or> load32 m (ent pd i) AND 2 \<noteq> 0"

text \<open>
  What becomes of the rights of an address that was mapped already: they stay, but an entry of the directory opened for
  user mode opens every page of its 4 MB whose own entry is for user mode.
\<close>

definition rights_kept :: "memory \<Rightarrow> u32 \<Rightarrow> u32 \<Rightarrow> u32 \<Rightarrow> u32 \<Rightarrow> u32 \<Rightarrow> u32 \<Rightarrow> bool" where
  "rights_kept m pd virt flags va r r' \<longleftrightarrow> r' = r \<or>
     r' = r OR 4 \<and> flags AND 4 \<noteq> 0 \<and> pdi va = pdi virt \<and> load32 m (ent pd (pdi virt)) AND 4 = 0"

definition walk_kept :: "memory \<Rightarrow> u32 \<Rightarrow> u32 \<Rightarrow> u32 \<Rightarrow> memory \<Rightarrow> u32 \<Rightarrow> bool" where
  "walk_kept m pd virt flags m' va = (case walk m pd va of
     None \<Rightarrow> walk m' pd va = None
   | Some (pa, r) \<Rightarrow> (case walk m' pd va of None \<Rightarrow> False | Some (pa', r') \<Rightarrow> pa' = pa \<and> rights_kept m pd virt flags va r r'))"

lemma rights_bits: "(e AND 2 = (0 :: u32)) = (\<not> bit e 1)" "(e AND 4 = (0 :: u32)) = (\<not> bit e 2)"
  "bit (6 :: int) n \<longleftrightarrow> n = 1 \<or> n = 2" "bit (4 :: int) n \<longleftrightarrow> n = 2" "bit (7 :: int) n \<longleftrightarrow> n < 3"
proof -
  show "(e AND 2 = (0 :: u32)) = (\<not> bit e 1)" using and_exp_eq_0_iff_not_bit[of e 1] by simp
  show "(e AND 4 = (0 :: u32)) = (\<not> bit e 2)" using and_exp_eq_0_iff_not_bit[of e 2] by simp
  have e: "bit (2 ^ k :: int) n \<longleftrightarrow> n = k" for k n by (auto simp: bit_exp_iff)
  show "bit (4 :: int) n \<longleftrightarrow> n = 2" using e[of 2 n] by simp
  have "(6 :: int) = 2 ^ 1 OR 2 ^ 2" by simp
  then show "bit (6 :: int) n \<longleftrightarrow> n = 1 \<or> n = 2" using e[of 1 n] e[of 2 n] by (simp only: bit_or_iff)
  have "(7 :: int) = mask 3" by (simp add: mask_eq_exp_minus_1)
  then show "bit (7 :: int) n \<longleftrightarrow> n < 3" by (simp only: bit_mask_iff) auto
qed

lemma mapped_rights:
  "(if flags AND 4 \<noteq> 0 then e OR 4 else e) AND PTE phys flags AND 6 = flags AND (if e AND 2 \<noteq> 0 then 6 else 4)"
  "page_aligned pt \<Longrightarrow> (pt OR (flags AND 7)) AND PTE phys flags AND 6 = flags AND 6"
proof -
  have b: "bit (PTE phys flags) n \<longleftrightarrow> bit flags n" if "n = 1 \<or> n = 2" for n
    using that by (auto simp: PTE_def PTE_ADDR_def page_mask bit_simps)
  show "(if flags AND 4 \<noteq> 0 then e OR 4 else e) AND PTE phys flags AND 6 = flags AND (if e AND 2 \<noteq> 0 then 6 else 4)"
    unfolding rights_bits(1,2) by (rule bit_word_eqI) (auto simp: bit_and_iff bit_or_iff rights_bits b split: if_splits)
  show "(pt OR (flags AND 7)) AND PTE phys flags AND 6 = flags AND 6" if "page_aligned pt"
    using that unfolding page_aligned_bits by (intro bit_word_eqI) (auto simp: bit_and_iff bit_or_iff rights_bits b)
qed

lemma opened_rights: "((e OR 4) AND p AND 6 = e AND p AND 6) \<or> ((e OR 4) AND p AND 6 = (e AND p AND 6) OR 4 \<and> e AND 4 = (0 :: u32))"
proof (cases "bit e 2 \<or> \<not> bit p 2")
  case True
  then have "(e OR 4) AND p AND 6 = e AND p AND 6" by (intro bit_word_eqI) (auto simp: bit_and_iff bit_or_iff rights_bits)
  then show ?thesis by blast
next
  case False
  then have "(e OR 4) AND p AND 6 = (e AND p AND 6) OR 4" by (intro bit_word_eqI) (auto simp: bit_and_iff bit_or_iff rights_bits)
  then show ?thesis using False by (simp add: rights_bits)
qed

lemma walk_kept_same: "walk m' pd va = walk m pd va \<Longrightarrow> walk_kept m pd virt flags m' va"
  by (simp add: walk_kept_def rights_kept_def split: option.split)

lemma walk_kept_opened:
  assumes e: "e = load32 m (ent pd (pdi virt))" and va: "pdi va = pdi virt" and pr: "present m pd (pdi virt)"
    and p: "p = load32 m (ent (PTE_ADDR e) (pti va))"
    and w: "walk m' pd va = (if p AND 1 = 0 then None
      else Some (PTE_ADDR p OR (va AND 0xFFF), (if flags AND 4 \<noteq> 0 then e OR 4 else e) AND p AND 6))"
  shows "walk_kept m pd virt flags m' va"
proof -
  have old: "walk m pd va = (if p AND 1 = 0 then None else Some (PTE_ADDR p OR (va AND 0xFFF), e AND p AND 6))"
    using pr va by (simp add: walk_def Let_def present_def p e)
  show ?thesis
  proof (cases "flags AND 4 \<noteq> 0")
    case True
    then show ?thesis using opened_rights[of e p] va by (auto simp: walk_kept_def old w rights_kept_def e)
  next
    case False
    then show ?thesis by (intro walk_kept_same) (simp add: old w)
  qed
qed

lemma map_page_walks:
  assumes wf: "pd_wf s pd" and inv: "mm_inv s" and fl: "flags AND 1 = 1"
    and room: "present (mem s) pd (pdi virt) \<or> (\<exists>k < 4095. k \<notin> used s)"
  obtains s' where "memory_map_page pd virt phys flags s = Some s'" and "pd_wf s' pd" and "mm_inv s'"
    and "\<And>va. drop_bit 12 va = drop_bit 12 virt \<Longrightarrow> walk (mem s') pd va =
      Some (PTE_ADDR phys OR (va AND 0xFFF), flags AND (if region_writable (mem s) pd (pdi virt) then 6 else 4))"
    and "\<And>va. drop_bit 12 va \<noteq> drop_bit 12 virt \<Longrightarrow> walk_kept (mem s) pd virt flags (mem s') va"
proof (cases "present (mem s) pd (pdi virt)")
  case True
  let ?e = "load32 (mem s) (ent pd (pdi virt))"
  show thesis
  proof (rule map_page_present_walk[OF wf inv True, of phys flags])
    fix s'
    assume s': "memory_map_page pd virt phys flags s = Some s'" "pd_wf s' pd" "mm_inv s'"
      and w: "\<And>va. walk (mem s') pd va =
      (let e = load32 (mem s) (ent pd (pdi virt)); e' = (if flags AND 4 \<noteq> 0 then e OR 4 else e);
           p = (if pti va = pti virt then PTE phys flags else load32 (mem s) (ent (PTE_ADDR e) (pti va)))
       in if pdi va = pdi virt
          then if p AND 1 = 0 then None else Some (PTE_ADDR p OR (va AND 0xFFF), e' AND p AND 6)
          else walk (mem s) pd va)"
    have "walk (mem s') pd va = Some (PTE_ADDR phys OR (va AND 0xFFF), flags AND (if region_writable (mem s) pd (pdi virt) then 6 else 4))"
      if "drop_bit 12 va = drop_bit 12 virt" for va
      using that True mapped_rights(1)[of flags ?e phys] by (simp add: w same_page_iff region_writable_def)
    moreover have "walk_kept (mem s) pd virt flags (mem s') va" if "drop_bit 12 va \<noteq> drop_bit 12 virt" for va
    proof (cases "pdi va = pdi virt")
      case in_region: True
      then show ?thesis using that by (intro walk_kept_opened[OF refl _ True refl]) (simp_all add: w same_page_iff Let_def)
    next
      case False
      then show ?thesis by (intro walk_kept_same) (simp add: w)
    qed
    ultimately show thesis using s' that by blast
  qed
next
  case False
  with room have room': "\<exists>k < 4095. k \<notin> used s" by blast
  obtain s' pt where s': "memory_map_page pd virt phys flags s = Some s'" "pd_wf s' pd" "mm_inv s'" and pt: "page_aligned pt"
    and w: "\<And>va. walk (mem s') pd va =
      (if pdi va = pdi virt
       then if pti va = pti virt
            then Some (PTE_ADDR phys OR (va AND 0xFFF), (pt OR (flags AND 7)) AND PTE phys flags AND 6)
            else None
       else walk (mem s) pd va)"
    by (rule map_page_absent_walk[OF wf inv False room' fl, of phys]) blast
  have "walk (mem s') pd va = Some (PTE_ADDR phys OR (va AND 0xFFF), flags AND (if region_writable (mem s) pd (pdi virt) then 6 else 4))"
    if "drop_bit 12 va = drop_bit 12 virt" for va
    using that False mapped_rights(2)[OF pt, of flags phys] by (simp add: w same_page_iff region_writable_def)
  moreover have "walk_kept (mem s) pd virt flags (mem s') va" if "drop_bit 12 va \<noteq> drop_bit 12 virt" for va
  proof (cases "pdi va = pdi virt")
    case True
    then have "walk (mem s) pd va = None" using False by (simp add: walk_def present_def)
    then show ?thesis using that True by (simp add: walk_kept_def w same_page_iff)
  next
    case False
    then show ?thesis by (intro walk_kept_same) (simp add: w)
  qed
  ultimately show thesis using s' that by blast
qed

section \<open>The kernel's identity mapping\<close>

text \<open>The number of pages that a one-page allocation can still return.\<close>

definition avail :: "mm \<Rightarrow> nat" where
  "avail s = card ({..<4095} - used s)"

lemma avail_pos: "0 < avail s \<Longrightarrow> \<exists>k < 4095. k \<notin> used s"
  unfolding avail_def by (metis Diff_iff card_gt_0_iff ex_in_conv lessThan_iff)

lemma avail_insert: "k < 4095 \<Longrightarrow> k \<notin> used s \<Longrightarrow> used s' = insert k (used s) \<Longrightarrow> Suc (avail s') = avail s"
proof -
  assume *: "k < 4095" "k \<notin> used s" "used s' = insert k (used s)"
  then have "{..<4095} - used s = insert k ({..<4095} - used s')" by auto
  moreover have "k \<notin> {..<4095} - used s'" using * by auto
  ultimately show ?thesis unfolding avail_def by simp
qed

definition table_frames :: "memory \<Rightarrow> u32 \<Rightarrow> nat set" where
  "table_frames m pd = {x. \<exists>j. unat j < 1024 \<and> present m pd j \<and> x = unat (table m pd j) div 4096}"

text \<open>The loop invariant of \<^verbatim>\<open>memory_map_kernel\<close> after \<open>i\<close> iterations from state \<open>s0\<close>.\<close>

definition kmap_inv :: "mm \<Rightarrow> u32 \<Rightarrow> nat \<Rightarrow> mm \<Rightarrow> bool" where
  "kmap_inv s0 pd i s \<longleftrightarrow> pd_wf s pd \<and> mm_inv s \<and> mm_regs s = mm_regs s0 \<and>
     avail s + (i + 1023) div 1024 = avail s0 \<and>
     used s = used s0 \<union> table_frames (mem s) pd \<and> table_frames (mem s) pd \<inter> used s0 = {} \<and>
     (\<forall>j. unat j < 1024 \<longrightarrow> present (mem s) pd j = (unat j < (i + 1023) div 1024)) \<and>
     (\<forall>j. unat j < 1024 \<longrightarrow> present (mem s) pd j \<longrightarrow> load32 (mem s) (ent pd j) AND 7 = 3) \<and>
     (\<forall>va. walk (mem s) pd va = (if unat va < 4096 * i then Some (va, 2) else None)) \<and>
     (\<forall>a. unat a div 4096 \<in> used s0 - {unat pd div 4096} \<longrightarrow> mem s a = mem s0 a)"

lemma page_index:
  assumes "i < 4096"
  shows "unat (pdi (page_addr i)) = i div 1024" and "unat (pti (page_addr i)) = i mod 1024"
    and "drop_bit 12 va = drop_bit 12 (page_addr i) \<longleftrightarrow> unat va div 4096 = i"
proof -
  have u: "unat (page_addr i) = 4096 * i" using assms by (simp add: unat_page_addr)
  show "unat (pdi (page_addr i)) = i div 1024" "unat (pti (page_addr i)) = i mod 1024"
    unfolding unat_pdi unat_pti u by simp_all
  have "drop_bit 12 va = drop_bit 12 (page_addr i) \<longleftrightarrow> unat va div 4096 = unat (page_addr i) div 4096"
    by (simp add: word32_eq_iff_unat unsigned_drop_bit_eq drop_bit_eq_div unat_div)
  then show "drop_bit 12 va = drop_bit 12 (page_addr i) \<longleftrightarrow> unat va div 4096 = i" by (simp add: u)
qed

lemma below_next_page: "(a :: nat) < 4096 * Suc i \<longleftrightarrow> a < 4096 * i \<or> a div 4096 = i"
proof -
  have "a div 4096 < Suc i \<longleftrightarrow> a < 4096 * Suc i" and "a div 4096 < i \<longleftrightarrow> a < 4096 * i"
    by (simp_all add: div_less_iff_less_mult mult.commute)
  then show ?thesis by linarith
qed

lemma rights_3:
  assumes "e AND 7 = (3 :: u32)"
  shows "e AND PTE phys 3 AND 6 = 2"
proof -
  have p: "PTE phys 3 AND 7 = 3"
  proof -
    have "PTE_ADDR phys AND 7 = 0"
      unfolding PTE_ADDR_def by (simp add: and.assoc)
    then show ?thesis unfolding PTE_def
      by (simp add: bit.conj_disj_distrib2 bit.conj_disj_distrib)
  qed
  have "(e AND 7) AND (PTE phys 3 AND 7) AND 6 = (e AND PTE phys 3) AND (7 AND (7 AND 6))"
    by (simp only: and.assoc and.left_commute and.commute)
  then show ?thesis unfolding assms p by (simp add: and.assoc)
qed

lemma table_frames_cong:
  assumes "\<And>j. unat j < 1024 \<Longrightarrow> load32 m' (ent pd j) = load32 m (ent pd j)"
  shows "table_frames m' pd = table_frames m pd"
  unfolding table_frames_def present_def table_def by (simp add: assms cong: conj_cong)

lemma table_frames_new:
  assumes "unat i < 1024" and "\<not> present m pd i" and "load32 m' (ent pd i) = e" and "e AND 1 \<noteq> 0"
    and "\<And>j. unat j < 1024 \<Longrightarrow> j \<noteq> i \<Longrightarrow> load32 m' (ent pd j) = load32 m (ent pd j)"
  shows "table_frames m' pd = insert (unat (PTE_ADDR e) div 4096) (table_frames m pd)" (is "?l = ?r")
proof (rule set_eqI)
  fix x
  have "x \<in> ?l \<longleftrightarrow> (\<exists>j. unat j < 1024 \<and> present m' pd j \<and> x = unat (table m' pd j) div 4096)"
    by (auto simp: table_frames_def)
  also have "\<dots> \<longleftrightarrow> x = unat (PTE_ADDR e) div 4096 \<or>
      (\<exists>j. unat j < 1024 \<and> j \<noteq> i \<and> present m pd j \<and> x = unat (table m pd j) div 4096)"
    using assms by (auto simp: present_def table_def) metis+
  also have "\<dots> \<longleftrightarrow> x \<in> ?r" using assms(2) by (auto simp: table_frames_def)
  finally show "x \<in> ?l \<longleftrightarrow> x \<in> ?r" .
qed

lemma ceil_1024: "0 < r \<Longrightarrow> r \<le> 1024 \<Longrightarrow> (1024 * q + r + 1023) div 1024 = Suc q"
  by (rule div_nat_eqI) auto

lemma tables_needed:
  "(i + 1023) div 1024 = (if i mod 1024 = 0 then i div 1024 else Suc (i div 1024))"
  "(Suc i + 1023) div 1024 = Suc (i div 1024)"
proof -
  have e: "i = 1024 * (i div 1024) + i mod 1024" and r: "i mod 1024 < 1024" by simp_all
  show "(i + 1023) div 1024 = (if i mod 1024 = 0 then i div 1024 else Suc (i div 1024))"
    using ceil_1024[of "i mod 1024" "i div 1024"] r by (subst (1) e) auto
  show "(Suc i + 1023) div 1024 = Suc (i div 1024)"
    using ceil_1024[of "Suc (i mod 1024)" "i div 1024"] r by (subst (1) e) auto
qed

lemma kmap_present:
  "kmap_inv s0 pd i s \<Longrightarrow> unat j < 1024 \<Longrightarrow> present (mem s) pd j \<longleftrightarrow> unat j < (i + 1023) div 1024"
  unfolding kmap_inv_def by blast

lemma kmap_tables:
  assumes "kmap_inv s0 pd i s" "unat j < 1024" "present (mem s) pd j"
  shows "unat (table (mem s) pd j) div 4096 \<notin> used s0"
proof -
  have "unat (table (mem s) pd j) div 4096 \<in> table_frames (mem s) pd"
    using assms(2,3) by (auto simp: table_frames_def)
  with assms(1) show ?thesis unfolding kmap_inv_def by blast
qed

lemma kmap_frame:
  "kmap_inv s0 pd i s \<Longrightarrow> unat a div 4096 \<in> used s0 - {unat pd div 4096} \<Longrightarrow> mem s a = mem s0 a"
  unfolding kmap_inv_def by blast

lemma kmap_low:
  "kmap_inv s0 pd i s \<Longrightarrow> unat j < 1024 \<Longrightarrow> present (mem s) pd j \<Longrightarrow> load32 (mem s) (ent pd j) AND 7 = 3"
  unfolding kmap_inv_def by blast

lemma kmap_walk:
  "kmap_inv s0 pd i s \<Longrightarrow> walk (mem s) pd va = (if unat va < 4096 * i then Some (va, 2) else None)"
  unfolding kmap_inv_def by blast

lemma kmap_step_present:
  assumes K: "kmap_inv s0 pd i s" and i: "i < 4096" "i mod 1024 \<noteq> 0"
  shows "\<exists>s'. memory_map_page pd (page_addr i) (page_addr i) 3 s = Some s' \<and> kmap_inv s0 pd (Suc i) s'"
proof -
  let ?v = "page_addr i"
  have n: "(Suc i + 1023) div 1024 = (i + 1023) div 1024" and lt: "i div 1024 < (i + 1023) div 1024"
    using i(2) tables_needed[of i] by simp_all
  have wf: "pd_wf s pd" and inv: "mm_inv s" using K by (auto simp: kmap_inv_def)
  have pres: "present (mem s) pd (pdi ?v)"
    using kmap_present[OF K unat_pdi_lt[of ?v]] lt page_index(1)[OF i(1)] by simp
  have three: "(3 :: u32) AND 4 = 0" by simp
  obtain s' where s': "memory_map_page pd ?v ?v 3 s = Some s'" "pd_wf s' pd" "mm_inv s'"
      "used s' = used s" "mm_regs s' = mm_regs s"
    and ld: "\<And>j. unat j < 1024 \<Longrightarrow> load32 (mem s') (ent pd j) =
      (if j = pdi ?v \<and> (3 :: u32) AND 4 \<noteq> 0 then load32 (mem s) (ent pd j) OR 4 else load32 (mem s) (ent pd j))"
    and fr: "\<And>a. unat a div 4096 \<notin> {unat pd div 4096, unat (table (mem s) pd (pdi ?v)) div 4096} \<Longrightarrow>
      mem s' a = mem s a"
    and w: "\<And>va. walk (mem s') pd va =
      (let e = load32 (mem s) (ent pd (pdi ?v)); e' = (if (3 :: u32) AND 4 \<noteq> 0 then e OR 4 else e);
           p = (if pti va = pti ?v then PTE ?v 3 else load32 (mem s) (ent (PTE_ADDR e) (pti va)))
       in if pdi va = pdi ?v
          then if p AND 1 = 0 then None else Some (PTE_ADDR p OR (va AND 0xFFF), e' AND p AND 6)
          else walk (mem s) pd va)"
    by (rule map_page_present_walk[OF wf inv pres, of ?v 3]) blast
  have ld': "load32 (mem s') (ent pd j) = load32 (mem s) (ent pd j)" if "unat j < 1024" for j
    using ld[OF that] by simp
  have tf: "table_frames (mem s') pd = table_frames (mem s) pd" by (rule table_frames_cong[OF ld'])
  have rights: "load32 (mem s) (ent pd (pdi ?v)) AND PTE ?v 3 AND 6 = 2"
    using K pres by (intro rights_3) (simp add: kmap_inv_def)
  have step: "walk (mem s') pd va = (if unat va div 4096 = i then Some (va, 2) else walk (mem s) pd va)" for va
    using w[of va] pres rights PTE_ADDR_page_addr[of i va] page_index(3)[OF i(1), of va] i(1)
    by (auto simp: same_page_iff Let_def walk_def present_def)
  have tab: "unat (table (mem s) pd (pdi ?v)) div 4096 \<notin> used s0"
    using kmap_tables[OF K unat_pdi_lt pres] .
  have fr0: "mem s' a = mem s0 a" if a: "unat a div 4096 \<in> used s0 - {unat pd div 4096}" for a
  proof -
    have "unat a div 4096 \<notin> {unat pd div 4096, unat (table (mem s) pd (pdi ?v)) div 4096}"
      using a tab by (metis DiffD1 DiffD2 insert_iff singletonD)
    from fr[OF this] kmap_frame[OF K a] show ?thesis by simp
  qed
  have "kmap_inv s0 pd (Suc i) s'"
    using K s' ld' tf n fr0 unfolding kmap_inv_def step below_next_page
    by (auto simp: avail_def present_def)
  with s'(1) show ?thesis by blast
qed

text \<open>The first page of a table: what the new table \<open>pt\<close> adds.\<close>

lemma kmap_new_table:
  assumes K: "kmap_inv s0 pd i s" and i: "i < 4096" "i mod 1024 = 0" and room: "4 \<le> avail s0"
  obtains s' and pt :: u32 where "memory_map_page pd (page_addr i) (page_addr i) 3 s = Some s'" "pd_wf s' pd" "mm_inv s'"
    "unat pt div 4096 < 4095" "unat pt div 4096 \<notin> used s" "used s' = insert (unat pt div 4096) (used s)" "mm_regs s' = mm_regs s"
    "\<And>a. unat a div 4096 \<notin> {unat pd div 4096, unat pt div 4096} \<Longrightarrow> mem s' a = mem s a"
    "\<And>j. unat j < 1024 \<Longrightarrow> present (mem s') pd j \<longleftrightarrow> unat j = i div 1024 \<or> present (mem s) pd j"
    "\<And>va. walk (mem s') pd va = (if unat va div 4096 = i then Some (va, 2) else walk (mem s) pd va)"
    "\<And>j. unat j < 1024 \<Longrightarrow> present (mem s') pd j \<Longrightarrow> load32 (mem s') (ent pd j) AND 7 = 3"
    "table_frames (mem s') pd = insert (unat pt div 4096) (table_frames (mem s) pd)"
proof -
  let ?v = "page_addr i"
  have n: "(i + 1023) div 1024 = i div 1024" using i(2) tables_needed[of i] by simp
  have lt: "i div 1024 < 4" using i(1) by (simp add: less_mult_imp_div_less)
  have wf: "pd_wf s pd" and inv: "mm_inv s" using K by (auto simp: kmap_inv_def)
  have abs: "\<not> present (mem s) pd (pdi ?v)"
    using kmap_present[OF K unat_pdi_lt[of ?v]] page_index(1)[OF i(1)] n by simp
  have "0 < avail s" using K room lt n by (simp add: kmap_inv_def)
  then have free: "\<exists>k < 4095. k \<notin> used s" by (rule avail_pos)
  have fl: "(3 :: u32) AND 1 = 1" by simp
  obtain s' pt where s': "memory_map_page pd ?v ?v 3 s = Some s'" "pd_wf s' pd" "mm_inv s'"
      "page_aligned pt" "unat pt div 4096 < 4095" "unat pt div 4096 \<notin> used s"
      "used s' = insert (unat pt div 4096) (used s)" "mm_regs s' = mm_regs s"
    and fr: "\<And>a. unat a div 4096 \<notin> {unat pd div 4096, unat pt div 4096} \<Longrightarrow> mem s' a = mem s a"
    and pr: "\<And>j. unat j < 1024 \<Longrightarrow> present (mem s') pd j \<longleftrightarrow> j = pdi ?v \<or> present (mem s) pd j"
    and w: "\<And>va. walk (mem s') pd va = (if pdi va = pdi ?v then if pti va = pti ?v
            then Some (PTE_ADDR ?v OR (va AND 0xFFF), (pt OR (3 AND 7)) AND PTE ?v 3 AND 6) else None
       else walk (mem s) pd va)"
    and ld: "load32 (mem s') (ent pd (pdi ?v)) = pt OR (3 AND 7)"
      "\<And>j. unat j < 1024 \<Longrightarrow> j \<noteq> pdi ?v \<Longrightarrow> load32 (mem s') (ent pd j) = load32 (mem s) (ent pd j)"
    by (rule map_page_absent_walk[OF wf inv abs free fl, of ?v]) blast
  have "PTE_ADDR pt = pt" using PTE_ADDR_or(1)[OF s'(4), of 0] by simp
  then have "pt AND 7 = pt AND (NOT 0xFFF AND 7)" unfolding PTE_ADDR_def by (metis and.assoc)
  then have e7: "(pt OR (3 AND 7)) AND 7 = 3" by (simp add: bit.conj_disj_distrib2)
  have e1: "(pt OR (3 AND 7)) AND 1 \<noteq> 0" using s'(4) by (simp add: low_bit_or)
  have tf: "table_frames (mem s') pd = insert (unat pt div 4096) (table_frames (mem s) pd)"
    using table_frames_new[OF unat_pdi_lt abs ld(1) e1 ld(2)] s'(4) PTE_ADDR_or(2)[of pt 3] by simp
  have step: "walk (mem s') pd va = (if unat va div 4096 = i then Some (va, 2) else walk (mem s) pd va)" for va
    using w[of va] abs rights_3[OF e7] PTE_ADDR_page_addr[of i va] page_index(3)[OF i(1), of va] i(1)
    by (auto simp: same_page_iff walk_def present_def)
  have idx: "unat j = i div 1024 \<longleftrightarrow> j = pdi ?v" for j
    using page_index(1)[OF i(1)] by (simp add: word32_eq_iff_unat)
  have low: "load32 (mem s') (ent pd j) AND 7 = 3" if "unat j < 1024" "present (mem s') pd j" for j
    using kmap_low[OF K that(1)] that(2) pr[OF that(1)] ld(1) ld(2)[OF that(1)] e7 by (cases "j = pdi ?v") simp_all
  show thesis by (rule that[OF s'(1-3,5-8) fr _ step low tf]) (use pr idx in blast)+
qed

lemma kmap_step_absent:
  assumes K: "kmap_inv s0 pd i s" and i: "i < 4096" "i mod 1024 = 0" and room: "4 \<le> avail s0"
  shows "\<exists>s'. memory_map_page pd (page_addr i) (page_addr i) 3 s = Some s' \<and> kmap_inv s0 pd (Suc i) s'"
proof -
  have n: "(i + 1023) div 1024 = i div 1024" "(Suc i + 1023) div 1024 = Suc (i div 1024)"
    using i(2) tables_needed[of i] by simp_all
  obtain s' and pt :: u32 where s': "memory_map_page pd (page_addr i) (page_addr i) 3 s = Some s'" "pd_wf s' pd" "mm_inv s'"
      "unat pt div 4096 < 4095" "unat pt div 4096 \<notin> used s" "used s' = insert (unat pt div 4096) (used s)" "mm_regs s' = mm_regs s"
    and fr: "\<And>a. unat a div 4096 \<notin> {unat pd div 4096, unat pt div 4096} \<Longrightarrow> mem s' a = mem s a"
    and pr: "\<And>j. unat j < 1024 \<Longrightarrow> present (mem s') pd j \<longleftrightarrow> unat j = i div 1024 \<or> present (mem s) pd j"
    and step: "\<And>va. walk (mem s') pd va = (if unat va div 4096 = i then Some (va, 2) else walk (mem s) pd va)"
    and low: "\<And>j. unat j < 1024 \<Longrightarrow> present (mem s') pd j \<Longrightarrow> load32 (mem s') (ent pd j) AND 7 = 3"
    and tf: "table_frames (mem s') pd = insert (unat pt div 4096) (table_frames (mem s) pd)"
    by (rule kmap_new_table[OF K i room]) blast
  have us: "used s = used s0 \<union> table_frames (mem s) pd" "table_frames (mem s) pd \<inter> used s0 = {}"
    using K unfolding kmap_inv_def by blast+
  then have sub: "used s0 \<subseteq> used s" by simp
  have "kmap_inv s0 pd (Suc i) s'"
    unfolding kmap_inv_def step below_next_page
  proof (intro conjI allI impI)
    show "mm_regs s' = mm_regs s0" using K s'(7) by (simp add: kmap_inv_def)
    show "avail s' + (Suc i + 1023) div 1024 = avail s0"
      using K avail_insert[OF s'(4-6)] n by (simp add: kmap_inv_def)
    show "used s' = used s0 \<union> table_frames (mem s') pd" "table_frames (mem s') pd \<inter> used s0 = {}"
      unfolding tf s'(6) using us s'(5) by auto
    show "present (mem s') pd j = (unat j < (Suc i + 1023) div 1024)" if "unat j < 1024" for j
      using pr[OF that] kmap_present[OF K that] n by (simp add: less_Suc_eq disj_commute)
    show "(if unat va div 4096 = i then Some (va, 2) else walk (mem s) pd va) =
        (if unat va < 4096 * i \<or> unat va div 4096 = i then Some (va, 2) else None)" for va
      by (simp add: kmap_walk[OF K])
    show "mem s' a = mem s0 a" if a: "unat a div 4096 \<in> used s0 - {unat pd div 4096}" for a
    proof -
      have "unat a div 4096 \<noteq> unat pt div 4096" using a s'(5) sub by (metis DiffD1 subsetD)
      with a have "unat a div 4096 \<notin> {unat pd div 4096, unat pt div 4096}" by simp
      from fr[OF this] kmap_frame[OF K a] show ?thesis by simp
    qed
  qed (use s' low in simp_all)
  with s'(1) show ?thesis by blast
qed

lemma kmap_loop:
  assumes K: "kmap_inv s0 pd 0 s0" and room: "4 \<le> avail s0"
  shows "\<exists>s'. memory_map_kernel pd s0 = Some s' \<and> kmap_inv s0 pd 4096 s'"
proof -
  have "\<exists>s'. for_each (\<lambda>i. memory_map_page pd (page_addr i) (page_addr i) 3) [0..<4096] s0 = Some s' \<and>
      kmap_inv s0 pd 4096 s'"
  proof (rule for_each_upt_total[where P = "kmap_inv s0 pd"])
    fix i t
    assume "i < (4096 :: nat)" "kmap_inv s0 pd i t"
    then show "\<exists>t'. memory_map_page pd (page_addr i) (page_addr i) 3 t = Some t' \<and> kmap_inv s0 pd (Suc i) t'"
      using kmap_step_present kmap_step_absent[OF _ _ _ room] by (cases "i mod 1024 = 0") auto
  qed (use K in simp_all)
  then show ?thesis by (simp add: memory_map_kernel_def page_addr_def)
qed

text \<open>A directory that was just cleared satisfies the loop invariant at its start.\<close>

lemma kmap_start:
  assumes "mm_inv s" "page_aligned pd" "unat pd div 4096 \<in> used s"
    and zero: "\<And>j. unat j < 1024 \<Longrightarrow> load32 (mem s) (ent pd j) = 0"
  shows "kmap_inv s pd 0 s"
proof -
  have np: "\<not> present (mem s) pd j" if "unat j < 1024" for j
    using zero[OF that] by (simp add: present_def)
  then have "table_frames (mem s) pd = {}" and "pd_wf s pd"
    using assms(2,3) by (auto simp: table_frames_def pd_wf_def)
  moreover have "walk (mem s) pd va = None" for va
    using zero[OF unat_pdi_lt] by (simp add: walk_def)
  ultimately show ?thesis using assms(1) np by (auto simp: kmap_inv_def)
qed

section \<open>Initialisation\<close>

lemma reserve_range:
  assumes "wf_bitmap bm" "b \<le> 4096"
  shows "\<exists>bm'. for_each (\<lambda>i. bitmap_set (of_nat i)) [a..<b] bm = Some bm' \<and> wf_bitmap bm' \<and>
    bits_of bm' = bits_of bm \<union> {a..<b}"
proof -
  let ?is = "map of_nat [a..<b] :: u32 list"
  have u: "unat (of_nat i :: u32) = i" if "i < b" for i
    using that assms(2) by (intro unat_of_nat32) simp
  then have "unat ` set ?is = (\<lambda>i. i) ` {a..<b}"
    unfolding set_map image_image by (intro image_cong) auto
  then have img: "unat ` set ?is = {a..<b}" by simp
  have inside: "unat w < 4096" if "w \<in> set ?is" for w
    using that assms(2) u by auto
  show ?thesis
    using page_bits.put_all[OF assms(1), of ?is, OF inside]
    unfolding img for_each_shift[of bitmap_set of_nat] .
qed

lemma alloc_one:
  assumes "mm_inv s" and "\<exists>k < 4095. k \<notin> used s"
  obtains k s1 where "memory_alloc_pages 1 s = Some (page_addr k, s1)" and "0 < k" "k < 4095" "k \<notin> used s"
    and "used s1 = insert k (used s)" and "mm_inv s1" and "mem s1 = mem s" and "mm_regs s1 = mm_regs s"
    and "\<forall>j < k. j \<in> used s"
proof -
  have wf: "wf_bitmap (page_bitmap s)" and z: "0 \<in> used s" using assms(1) by (simp_all add: mm_inv_def)
  from wf one_page show thesis
  proof (cases rule: alloc_cases)
    case fail
    with assms(2) show thesis by (auto simp: free_run_def)
  next
    case (success k bm)
    have k: "k < 4095" "k \<notin> used s" using success(1,2) by (auto simp: free_run_def)
    have "k \<noteq> 0" using k(2) z by metis
    moreover have "\<forall>j < k. j \<in> used s" using success(3) by (auto simp: free_run_def)
    ultimately show thesis
      using success(4,5) k z by (intro that[OF success(6)]) (auto simp: used_def mm_inv_def mm_regs_def)
  qed
qed

lemma bits_of_zero [simp]: "bits_of (replicate n 0) = {}"
  by (auto simp: bits_of_def)

lemma avail_bound: "used s \<subseteq> {..<n} \<Longrightarrow> n \<le> 4095 \<Longrightarrow> 4095 - n \<le> avail s"
proof -
  assume *: "used s \<subseteq> {..<n}" "n \<le> 4095"
  then have "{n..<4095} \<subseteq> {..<4095} - used s" by auto
  then have "card {n..<4095} \<le> avail s" unfolding avail_def by (intro card_mono) auto
  then show ?thesis by simp
qed

lemma memory_init_reserve:
  obtains bm1 bm2 where "for_each (\<lambda>i. bitmap_set (of_nat i)) [0..<256] (replicate BITMAP_SIZE 0) = Some bm1"
    and "for_each (\<lambda>i. bitmap_set (of_nat i)) [256..<512] bm1 = Some bm2"
    and "wf_bitmap bm2" and "bits_of bm2 = {..<512}"
proof -
  obtain bm1 where bm1: "for_each (\<lambda>i. bitmap_set (of_nat i)) [0..<256] (replicate BITMAP_SIZE 0) = Some bm1"
      "wf_bitmap bm1" "bits_of bm1 = {0..<256}"
    using reserve_range[of "replicate BITMAP_SIZE 0" 256 0] by (auto simp: wf_bitmap_def)
  obtain bm2 where bm2: "for_each (\<lambda>i. bitmap_set (of_nat i)) [256..<512] bm1 = Some bm2"
      "wf_bitmap bm2" "bits_of bm2 = {0..<256} \<union> {256..<512}"
    using reserve_range[OF bm1(2), of 512 256] bm1(3) by auto
  have "bits_of bm2 = {..<512}" unfolding bm2(3) by auto
  with bm1(1) bm2(1,2) show thesis by (rule that)
qed

text \<open>Initialisation comes to the mapping of the kernel into its directory, a cleared page behind the reserved ones.\<close>

lemma memory_init_steps:
  obtains s2 where "memory_init s = (case memory_map_kernel (page_addr 512) s2 of
      None \<Rightarrow> None | Some s3 \<Rightarrow> Some (hal_cpu_enable_paging (kernel_page_dir s3) s3))"
    "kmap_inv s2 (page_addr 512) 0 s2" "used s2 = {..<513}" "avail s2 = 3582" "kernel_page_dir s2 = page_addr 512"
    "mem s2 = memset (mem s) (page_addr 512) 0 4096"
proof -
  obtain bm1 bm2 where r: "for_each (\<lambda>i. bitmap_set (of_nat i)) [0..<256] (replicate BITMAP_SIZE 0) = Some bm1"
      "for_each (\<lambda>i. bitmap_set (of_nat i)) [256..<512] bm1 = Some bm2" "wf_bitmap bm2" "bits_of bm2 = {..<512}"
    by (rule memory_init_reserve)
  let ?s0 = "s\<lparr>page_bitmap := bm2\<rparr>"
  have u0: "used ?s0 = {..<512}" and inv0: "mm_inv ?s0" using r(3,4) by (auto simp: used_def mm_inv_def)
  have "\<exists>k < 4095. k \<notin> used ?s0" unfolding u0 by (rule exI[of _ 512]) simp
  with inv0 obtain k s1 where k: "memory_alloc_pages 1 ?s0 = Some (page_addr k, s1)" "k \<notin> used ?s0"
      "used s1 = insert k (used ?s0)" "mm_inv s1" "mem s1 = mem ?s0" "\<forall>j < k. j \<in> used ?s0"
    by (rule alloc_one)
  have k512: "k = 512"
  proof (rule ccontr)
    assume "k \<noteq> 512"
    moreover have "\<not> k < 512" using k(2) by (simp add: u0)
    ultimately have "512 < k" by linarith
    with k(6) show False by (auto simp: u0)
  qed
  define s2 where "s2 = s1\<lparr>kernel_page_dir := page_addr 512, mem := memset (mem s1) (page_addr 512) 0 4096\<rparr>"
  have u: "used s2 = {..<513}" using k(3) lessThan_Suc[of 512] u0 by (simp add: k512 s2_def used_def)
  have "{..<4095} - {..<513} = {513..<4095 :: nat}" by auto
  then have av: "avail s2 = 3582" unfolding avail_def u by simp
  have pd: "page_aligned (page_addr 512)" "unat (page_addr 512) div 4096 = 512" by (simp_all add: unat_page_addr)
  have "mm_inv s2" using k(4) by (simp add: s2_def mm_inv_def used_def)
  then have K: "kmap_inv s2 (page_addr 512) 0 s2"
    using pd u by (intro kmap_start) (simp_all add: s2_def load32_memset_ent)
  have "memory_init s = (case memory_map_kernel (page_addr 512) s2 of
      None \<Rightarrow> None | Some s3 \<Rightarrow> Some (hal_cpu_enable_paging (kernel_page_dir s3) s3))"
    using r(1,2) k(1) by (simp add: memory_init_def s2_def k512)
  then show thesis using K u av by (rule that) (use k(5) in \<open>simp_all add: s2_def\<close>)
qed

section \<open>Properties\<close>

lemma memory_init_spec:
  "\<exists>s'. memory_init s = Some s' \<and> mm_inv s' \<and> {..<513} \<subseteq> used s' \<and> avail s' = 3578 \<and>
     cr3 s' = kernel_page_dir s' \<and> bit (cr0 s') 31 \<and> kernel_page_dir s' = page_addr 512 \<and>
     (\<forall>va. walk (mem s') (cr3 s') va = (if unat va < 16 * 1024 * 1024 then Some (va, 2) else None))"
proof -
  obtain s2 where i: "memory_init s = (case memory_map_kernel (page_addr 512) s2 of
      None \<Rightarrow> None | Some s3 \<Rightarrow> Some (hal_cpu_enable_paging (kernel_page_dir s3) s3))"
    and s2: "kmap_inv s2 (page_addr 512) 0 s2" "used s2 = {..<513}" "avail s2 = 3582" "kernel_page_dir s2 = page_addr 512"
    by (rule memory_init_steps)
  then obtain s3 where s3: "memory_map_kernel (page_addr 512) s2 = Some s3" "kmap_inv s2 (page_addr 512) 4096 s3"
    using kmap_loop[OF s2(1)] by auto
  have kd: "kernel_page_dir s3 = page_addr 512" using s3(2) s2(4) by (simp add: kmap_inv_def mm_regs_def)
  have fin: "mm_inv s3" "avail s3 = 3578" "{..<513} \<subseteq> used s3" using s3(2) s2(2,3) by (auto simp: kmap_inv_def)
  show ?thesis
    using i s3(1) fin kd kmap_walk[OF s3(2)]
    by (auto simp: hal_cpu_enable_paging_def hal_cpu_set_cr3_def Let_def mm_inv_def used_def avail_def
        bit_or_iff)
qed

text \<open>
  C8: \<^verbatim>\<open>memory_init\<close> works from any machine state: it never leaves the bitmap, it
  reserves the first 512 pages (2 MB) and five pages for its tables, and it turns paging on with
  CR3 at the kernel's directory. In that directory every address below 16 MB is mapped to itself,
  writable and for the supervisor only, and no other address is mapped.
\<close>

theorem memory_init_identity_map:
  "\<exists>s'. memory_init s = Some s' \<and> mm_inv s' \<and> {..<513} \<subseteq> used s' \<and> avail s' = 3578 \<and>
     cr3 s' = kernel_page_dir s' \<and> bit (cr0 s') 31 \<and> kernel_page_dir s' = page_addr 512 \<and>
     (\<forall>va. walk (mem s') (cr3 s') va = (if unat va < 16 * 1024 * 1024 then Some (va, 2) else None))"
  by (rule memory_init_spec)


text \<open>Two empty directories, in pages 1 and 2, for the witnesses.\<close>

definition demo_dirs :: mm where
  "demo_dirs = demo_mm\<lparr>page_bitmap := 7 # replicate 127 0\<rparr>"

lemma used_demo_dirs [simp]: "used demo_dirs = {0, 1, 2}"
proof -
  have b: "bit (7 :: u32) n \<longleftrightarrow> n < 3" for n
    using bit_mask_iff[of 3 n, where ?'a = u32] by (auto simp: mask_eq_exp_minus_1)
  have "p \<in> used demo_dirs \<longleftrightarrow> p < 3" for p
  proof (cases "p < 32")
    case True
    then have "p div 32 = 0" "p mod 32 = p" by simp_all
    then show ?thesis using b[of p] by (simp add: used_def bits_of_def demo_dirs_def)
  next
    case False
    then obtain n where "p div 32 = Suc n" by (cases "p div 32") (auto simp: div_eq_0_iff)
    then show ?thesis using False by (simp add: used_def bits_of_def demo_dirs_def)
  qed
  then have "used demo_dirs = {..<3}" by blast
  then show ?thesis by (simp add: lessThan_Suc numeral_3_eq_3 numeral_2_eq_2 insert_commute)
qed

lemma load32_zero_mem [simp]: "load32 (\<lambda>_. 0) a = 0"
  by (simp add: load32_def)

lemma mem_demo_dirs [simp]: "mem demo_dirs = (\<lambda>_. 0)"
  by (simp add: demo_dirs_def demo_mm_def)

lemma demo_dirs_inv [simp]: "mm_inv demo_dirs"
  by (simp add: mm_inv_def wf_bitmap_def) (simp add: demo_dirs_def)

lemma demo_dirs_wf [simp]: "pd_wf demo_dirs 0x1000" "pd_wf demo_dirs 0x2000"
  by (simp_all add: pd_wf_def present_def page_aligned_def)


text \<open>The page frames an address space is built from.\<close>

definition owned :: "memory \<Rightarrow> u32 \<Rightarrow> nat set" where
  "owned m pd = insert (unat pd div 4096) (table_frames m pd)"

lemma owned_table: "present m pd (pdi va) \<Longrightarrow> unat (table m pd (pdi va)) div 4096 \<in> owned m pd"
  unfolding owned_def table_frames_def using unat_pdi_lt[of va] by blast

lemma walk_cong:
  assumes "page_aligned pd" and same: "\<And>a. unat a div 4096 \<in> owned m pd \<Longrightarrow> m' a = m a"
  shows "walk m' pd va = walk m pd va" and "owned m' pd = owned m pd"
proof -
  have ld: "load32 m' (ent pd j) = load32 m (ent pd j)" if "unat j < 1024" for j
    using assms that by (intro load32_ent_cong) (auto simp: owned_def)
  then show "owned m' pd = owned m pd"
    unfolding owned_def by (simp add: table_frames_cong[OF ld])
  have "load32 m' (ent (table m pd (pdi va)) (pti va)) = load32 m (ent (table m pd (pdi va)) (pti va))"
    if "present m pd (pdi va)"
  proof (rule load32_ent_cong)
    show "\<And>a. unat a div 4096 = unat (table m pd (pdi va)) div 4096 \<Longrightarrow> m' a = m a"
      using same owned_table[OF that] by simp
  qed (simp_all add: table_def)
  then show "walk m' pd va = walk m pd va"
    using ld[OF unat_pdi_lt[of va]] by (simp add: walk_def Let_def present_def table_def)
qed

lemma owned_used: "pd_wf s pd \<Longrightarrow> owned (mem s) pd \<subseteq> used s"
  by (auto simp: owned_def table_frames_def pd_wf_def)

text \<open>
  C13: Address spaces are isolated: mapping a page into one directory changes no translation, neither the physical address
  nor the rights, of any address in another directory that shares no page frame with it, whatever page, address and flags
  are asked for. The property before says what the mapping does to the other pages of its own directory.
\<close>

theorem map_page_isolated:
  assumes "pd_wf s pd" and "pd_wf s pd'" and disj: "owned (mem s) pd \<inter> owned (mem s) pd' = {}"
    and "mm_inv s" and "present (mem s) pd (pdi virt) \<or> (\<exists>k < 4095. k \<notin> used s)"
  shows "\<exists>s'. memory_map_page pd virt phys flags s = Some s' \<and>
    (\<forall>va. walk (mem s') pd' va = walk (mem s) pd' va) \<and> owned (mem s') pd' = owned (mem s) pd'"
proof -
  have al: "page_aligned pd'" using assms(2) by (simp add: pd_wf_def)
  obtain s' where s': "memory_map_page pd virt phys flags s = Some s'"
    and fr: "\<And>a. unat a div 4096 \<in> owned (mem s) pd' \<Longrightarrow> mem s' a = mem s a"
  proof (cases "present (mem s) pd (pdi virt)")
    case True
    obtain s' where "memory_map_page pd virt phys flags s = Some s'" and
      "\<And>a. unat a div 4096 \<notin> {unat pd div 4096, unat (table (mem s) pd (pdi virt)) div 4096} \<Longrightarrow>
        mem s' a = mem s a"
      by (rule map_page_present[OF assms(1) True, of phys flags]) blast
    moreover have "{unat pd div 4096, unat (table (mem s) pd (pdi virt)) div 4096} \<inter> owned (mem s) pd' = {}"
      using disj owned_table[OF True] by (auto simp: owned_def)
    ultimately show thesis by (intro that) blast+
  next
    case False
    with assms(5) have room: "\<exists>k < 4095. k \<notin> used s" by blast
    obtain s' and pt :: u32 where
      "memory_map_page pd virt phys flags s = Some s'" "unat pt div 4096 \<notin> used s" and
      "\<And>a. unat a div 4096 \<notin> {unat pd div 4096, unat pt div 4096} \<Longrightarrow> mem s' a = mem s a"
      by (rule map_page_absent[OF assms(1,4) False room, of phys flags]) blast
    moreover from this(2) have "{unat pd div 4096, unat pt div 4096} \<inter> owned (mem s) pd' = {}"
      using disj owned_used[OF assms(2)] by (auto simp: owned_def)
    ultimately show thesis by (intro that) blast+
  qed
  note same = walk_cong[OF al, of "mem s" "mem s'", OF fr]
  show ?thesis using s' same by blast
qed

theorem map_page_isolated_witness:
  "\<exists>s'. memory_map_page 0x1000 0x400000 0x9000 7 demo_dirs = Some s' \<and>
     (\<forall>va. walk (mem s') 0x2000 va = walk (mem demo_dirs) 0x2000 va)"
proof -
  have own: "owned (mem demo_dirs) pd = {unat pd div 4096}" for pd
    by (simp add: owned_def table_frames_def present_def)
  have "owned (mem demo_dirs) 0x1000 \<inter> owned (mem demo_dirs) 0x2000 = {}"
    unfolding own by simp
  moreover have "\<exists>k < 4095. k \<notin> used demo_dirs" by (rule exI[of _ 3]) simp
  ultimately show ?thesis
    using map_page_isolated[OF demo_dirs_wf, of "0x400000" "0x9000" 7] by auto
qed

text \<open>
  A mapping request without the present bit, in a 4 MB region that has no table
  yet, allocates a page table and then loses it: the directory entry is written without the
  present bit, so the page stays unmapped and the table page stays allocated. \<^verbatim>\<open>sys_memory_map\<close> takes
  the flags from user space.
\<close>

lemma map_page_without_present_bit:
  assumes "pd_wf s pd" and "mm_inv s" and "flags AND 1 = 0" and "\<not> present (mem s) pd (pdi virt)"
    and "\<exists>k < 4095. k \<notin> used s"
  shows "\<exists>s'. memory_map_page pd virt phys flags s = Some s' \<and> walk (mem s') pd virt = None \<and>
    \<not> present (mem s') pd (pdi virt) \<and> Suc (avail s') = avail s"
proof -
  obtain s' pt where s': "memory_map_page pd virt phys flags s = Some s'" "page_aligned pt"
      "unat pt div 4096 < 4095" "unat pt div 4096 \<notin> used s" "used s' = insert (unat pt div 4096) (used s)"
    and ld: "\<And>j. unat j < 1024 \<Longrightarrow> load32 (mem s') (ent pd j) =
      (if j = pdi virt then pt OR (flags AND 7) else load32 (mem s) (ent pd j))"
    by (rule map_page_absent[OF assms(1,2,4,5), of phys flags]) blast
  have "load32 (mem s') (ent pd (pdi virt)) AND 1 = 0"
    using ld[OF unat_pdi_lt[of virt]] s'(2) assms(3) by (simp add: low_bit_or and.assoc)
  then show ?thesis
    using s'(1) avail_insert[OF s'(3-5)] by (simp add: walk_def present_def)
qed

lemma map_page_without_present_bit_witness:
  "\<exists>s'. memory_map_page 0x1000 0x400000 0x9000 6 demo_dirs = Some s' \<and>
     walk (mem s') 0x1000 0x400000 = None \<and> Suc (avail s') = avail demo_dirs"
proof -
  have "\<exists>k < 4095. k \<notin> used demo_dirs" by (rule exI[of _ 3]) simp
  moreover have "\<not> present (mem demo_dirs) 0x1000 (pdi 0x400000)" by (simp add: present_def)
  ultimately show ?thesis
    using map_page_without_present_bit[OF demo_dirs_wf(1) demo_dirs_inv, of 6 "0x400000" "0x9000"] by auto
qed

end
