(* ===== verification/Address_Space.thy ===== *)
theory Address_Space
  imports Paging
begin

text \<open>
  Address spaces: the page tables that \<^verbatim>\<open>memory_map_page\<close> builds, abstracted to a finite map from virtual
  page numbers to a physical page and a user flag. Every mapping the kernel makes itself is writable
  and uses the flags 3 (supervisor) or 7 (user).
\<close>

section \<open>Abstraction\<close>

type_synonym aspace = "nat \<Rightarrow> (u32 \<times> bool) option"

definition vpn :: "u32 \<Rightarrow> nat" where "vpn va = unat va div 4096"

definition map_flags :: "bool \<Rightarrow> u32" where "map_flags u = (if u then 7 else 3)"

definition leaf :: "memory \<Rightarrow> u32 \<Rightarrow> u32 \<Rightarrow> u32" where
  "leaf m pd va = load32 m (ent (table m pd (pdi va)) (pti va))"

text \<open>What the two entries on the path of \<open>va\<close> look like for an entry of the map.\<close>

fun entry_ok :: "memory \<Rightarrow> u32 \<Rightarrow> u32 \<Rightarrow> (u32 \<times> bool) option \<Rightarrow> bool" where
  "entry_ok m pd va None \<longleftrightarrow> \<not> present m pd (pdi va) \<or> leaf m pd va AND 1 = 0"
| "entry_ok m pd va (Some (a, u)) \<longleftrightarrow>
     load32 m (ent pd (pdi va)) AND 3 = 3 \<and> (u \<longrightarrow> load32 m (ent pd (pdi va)) AND 4 = 4) \<and>
     leaf m pd va = PTE a (map_flags u)"

definition aspace_rep :: "u32 \<Rightarrow> mm \<Rightarrow> aspace \<Rightarrow> bool" where
  "aspace_rep pd s f \<longleftrightarrow> pd_wf s pd \<and> mm_inv s \<and> (\<forall>va. entry_ok (mem s) pd va (f (vpn va)))"

section \<open>Bits of entries\<close>

lemma PTE_ADDR_and7 [simp]: "PTE_ADDR a AND 7 = 0"
  unfolding PTE_ADDR_def by (simp add: and.assoc)

lemma PTE_flags: "PTE a (map_flags u) AND 6 = (if u then 6 else 2)"
proof -
  have "PTE a (map_flags u) AND 7 = map_flags u"
    unfolding PTE_def map_flags_def by (simp add: bit.conj_disj_distrib2 bit.conj_disj_distrib)
  then have "(PTE a (map_flags u) AND 7) AND 6 = map_flags u AND 6" by simp
  then show ?thesis by (simp add: and.assoc map_flags_def split: if_splits)
qed

lemma and_sub_mask:
  assumes "e AND m = (m :: u32)" "m AND n = n"
  shows "e AND n = n"
  using assms by (metis and.assoc)

lemma present_of_low: "load32 m (ent pd i) AND 3 = 3 \<Longrightarrow> present m pd i"
  using and_sub_mask[of "load32 m (ent pd i)" 3 1] by (simp add: present_def)

lemma rights_of_entries:
  assumes "e AND 3 = (3 :: u32)" "u \<longrightarrow> e AND 4 = 4"
  shows "e AND PTE a (map_flags u) AND 6 = (if u then 6 else 2)"
proof -
  have two: "e AND 2 = 2" using and_sub_mask[OF assms(1), of 2] by simp
  have "e AND 6 = 6" if u
  proof -
    have "e AND 6 = (e AND 2) OR (e AND 4)" by (simp add: bit.conj_disj_distrib[symmetric])
    then show ?thesis using two assms(2) that by simp
  qed
  then show ?thesis using two PTE_flags[of a u] by (simp split: if_splits)
qed

lemma or4_low [simp]: "(e OR 4) AND 3 = e AND (3 :: u32)" "(e OR 4) AND 4 = (4 :: u32)"
  "(e OR 4) AND 1 = e AND (1 :: u32)"
  by (simp_all add: bit.conj_disj_distrib2)

text \<open>The processor's walk is the map.\<close>

lemma aspace_walk:
  assumes "aspace_rep pd s f"
  shows "walk (mem s) pd va = (case f (vpn va) of
      None \<Rightarrow> None | Some (a, u) \<Rightarrow> Some (PTE_ADDR a OR (va AND 0xFFF), if u then 6 else 2))"
proof (cases "f (vpn va)")
  case None
  then have "entry_ok (mem s) pd va None" using assms unfolding aspace_rep_def by metis
  then show ?thesis using None by (auto simp: walk_def Let_def present_def leaf_def table_def)
next
  case (Some e)
  obtain a u where e: "e = (a, u)" by (cases e)
  have ok: "load32 (mem s) (ent pd (pdi va)) AND 3 = 3" "u \<longrightarrow> load32 (mem s) (ent pd (pdi va)) AND 4 = 4"
    "leaf (mem s) pd va = PTE a (map_flags u)"
  proof -
    have "entry_ok (mem s) pd va (Some (a, u))" using assms Some e unfolding aspace_rep_def by metis
    then show "load32 (mem s) (ent pd (pdi va)) AND 3 = 3" "u \<longrightarrow> load32 (mem s) (ent pd (pdi va)) AND 4 = 4"
      "leaf (mem s) pd va = PTE a (map_flags u)" by simp_all
  qed
  have "load32 (mem s) (ent pd (pdi va)) AND 1 \<noteq> 0"
    using present_of_low[OF ok(1)] by (simp add: present_def)
  then show ?thesis
    using ok(3) rights_of_entries[OF ok(1,2), of a] Some e
    by (simp add: walk_def leaf_def table_def Let_def)
qed

section \<open>Mapping one page\<close>

lemma vpn_eq_iff: "vpn va = vpn virt \<longleftrightarrow> pdi va = pdi virt \<and> pti va = pti virt"
proof -
  have "vpn va = vpn virt \<longleftrightarrow> drop_bit 12 va = drop_bit 12 virt"
    by (simp add: vpn_def word32_eq_iff_unat unsigned_drop_bit_eq drop_bit_eq_div unat_div)
  then show ?thesis by (simp add: same_page_iff)
qed

lemma PTE_present [simp]: "PTE a f AND 1 \<noteq> 0"
  by simp

lemma aspace_map_present:
  assumes rep: "aspace_rep pd s f" and pres: "present (mem s) pd (pdi virt)"
    and low: "load32 (mem s) (ent pd (pdi virt)) AND 3 = 3"
  obtains s' where "memory_map_page pd virt phys (map_flags u) s = Some s'"
    "aspace_rep pd s' (f(vpn virt \<mapsto> (phys, u)))" "used s' = used s" "mm_regs s' = mm_regs s"
    "\<And>j. unat j < 1024 \<Longrightarrow> present (mem s') pd j = present (mem s) pd j \<and> table (mem s') pd j = table (mem s) pd j \<and>
      load32 (mem s') (ent pd j) AND 3 = load32 (mem s) (ent pd j) AND 3"
    "\<And>a. unat a div 4096 \<notin> {unat pd div 4096, unat (table (mem s) pd (pdi virt)) div 4096} \<Longrightarrow> mem s' a = mem s a"
proof -
  have wf: "pd_wf s pd" and inv: "mm_inv s" using rep by (auto simp: aspace_rep_def)
  have ent: "entry_ok (mem s) pd va (f (vpn va))" for va using rep by (simp add: aspace_rep_def)
  let ?pt = "table (mem s) pd (pdi virt)"
  have fl4: "map_flags u AND 4 \<noteq> 0 \<longleftrightarrow> u" by (simp add: map_flags_def)
  obtain s' where s': "memory_map_page pd virt phys (map_flags u) s = Some s'" "used s' = used s"
      "page_bitmap s' = page_bitmap s" "mm_regs s' = mm_regs s"
    and ld: "\<And>j. unat j < 1024 \<Longrightarrow> load32 (mem s') (ent pd j) =
      (if j = pdi virt \<and> map_flags u AND 4 \<noteq> 0 then load32 (mem s) (ent pd j) OR 4 else load32 (mem s) (ent pd j))"
    and lt: "\<And>q k. page_aligned q \<Longrightarrow> unat k < 1024 \<Longrightarrow> q \<noteq> pd \<Longrightarrow> load32 (mem s') (ent q k) =
      (if q = ?pt \<and> k = pti virt then PTE phys (map_flags u) else load32 (mem s) (ent q k))"
    and fr: "\<And>a. unat a div 4096 \<notin> {unat pd div 4096, unat ?pt div 4096} \<Longrightarrow> mem s' a = mem s a"
    by (rule map_page_present[OF wf pres, of phys "map_flags u"]) blast
  have wf': "pd_wf s' pd" "mm_inv s'"
    by (rule map_page_present_walk[OF wf inv pres, of phys "map_flags u"], use s'(1) in simp)+
  have pr: "present (mem s') pd j \<longleftrightarrow> present (mem s) pd j" and tb: "table (mem s') pd j = table (mem s) pd j"
    if "unat j < 1024" for j
    using ld[OF that] by (auto simp: present_def table_def)
  have tab: "table (mem s) pd i \<noteq> pd" "table (mem s) pd i = ?pt \<longleftrightarrow> i = pdi virt"
    if "unat i < 1024" "present (mem s) pd i" for i
    using wf that pres unat_pdi_lt[of virt] unfolding pd_wf_def by blast+
  have lf: "leaf (mem s') pd va = (if vpn va = vpn virt then PTE phys (map_flags u) else leaf (mem s) pd va)"
    if "present (mem s) pd (pdi va)" for va
    using lt[of "table (mem s) pd (pdi va)" "pti va"] tab[of "pdi va"] that tb[of "pdi va"]
    by (auto simp: leaf_def vpn_eq_iff table_def)
  have "entry_ok (mem s') pd va ((f(vpn virt \<mapsto> (phys, u))) (vpn va))" for va
  proof (cases "vpn va = vpn virt")
    case True
    then have "pdi va = pdi virt" by (simp add: vpn_eq_iff)
    then show ?thesis using True ld[of "pdi virt"] low fl4 lf[of va] pres by simp
  next
    case False
    then show ?thesis
      using ent[of va] lf[of va] pr[of "pdi va"] ld[of "pdi va"] present_of_low[of "mem s" pd "pdi va"]
      by (cases "f (vpn va)") auto
  qed
  then have "aspace_rep pd s' (f(vpn virt \<mapsto> (phys, u)))" using wf' by (simp add: aspace_rep_def)
  then show thesis
    by (rule that[OF s'(1) _ s'(2,4)]) (use pr tb ld fr in auto)
qed

lemma table_entry_bits:
  assumes "page_aligned pt"
  shows "PTE_ADDR (pt OR (map_flags u AND 7)) = pt" "(pt OR (map_flags u AND 7)) AND 3 = 3" "u \<longrightarrow> (pt OR (map_flags u AND 7)) AND 4 = 4"
proof -
  have "PTE_ADDR pt = pt" using PTE_ADDR_or(2)[OF assms, of 0] by simp
  then have "pt AND 7 = 0" by (metis PTE_ADDR_and7)
  then have "pt AND 3 = 0" "pt AND 4 = 0"
    using and.assoc[of pt 7 3] and.assoc[of pt 7 4] by simp_all
  then show "(pt OR (map_flags u AND 7)) AND 3 = 3" "u \<longrightarrow> (pt OR (map_flags u AND 7)) AND 4 = 4"
    by (simp_all add: map_flags_def bit.conj_disj_distrib2)
qed (rule PTE_ADDR_or(2)[OF assms])

lemma aspace_map_absent:
  assumes rep: "aspace_rep pd s f" and abs: "\<not> present (mem s) pd (pdi virt)"
    and room: "\<exists>k < 4095. k \<notin> used s"
  obtains s' and pt :: u32 where "memory_map_page pd virt phys (map_flags u) s = Some s'"
    "aspace_rep pd s' (f(vpn virt \<mapsto> (phys, u)))" "used s' = insert (unat pt div 4096) (used s)"
    "unat pt div 4096 \<notin> used s" "unat pt div 4096 < 4095" "mm_regs s' = mm_regs s"
    "\<And>a. unat a div 4096 \<notin> {unat pd div 4096, unat pt div 4096} \<Longrightarrow> mem s' a = mem s a"
proof -
  have wf: "pd_wf s pd" and inv: "mm_inv s" using rep by (auto simp: aspace_rep_def)
  have ent: "entry_ok (mem s) pd va (f (vpn va))" for va using rep by (simp add: aspace_rep_def)
  have fl: "map_flags u AND 1 = 1" by (simp add: map_flags_def)
  obtain s' pt where s': "memory_map_page pd virt phys (map_flags u) s = Some s'"
      "page_aligned pt" "pt \<noteq> 0" "pt \<noteq> pd" "unat pt div 4096 < 4095" "unat pt div 4096 \<notin> used s"
      "used s' = insert (unat pt div 4096) (used s)" "mm_inv s'" "mm_regs s' = mm_regs s"
    and ld: "\<And>j. unat j < 1024 \<Longrightarrow> load32 (mem s') (ent pd j) =
      (if j = pdi virt then pt OR (map_flags u AND 7) else load32 (mem s) (ent pd j))"
    and lt: "\<And>q k. page_aligned q \<Longrightarrow> unat k < 1024 \<Longrightarrow> q \<noteq> pd \<Longrightarrow> load32 (mem s') (ent q k) =
      (if q = pt then if k = pti virt then PTE phys (map_flags u) else 0 else load32 (mem s) (ent q k))"
    and fr: "\<And>a. unat a div 4096 \<notin> {unat pd div 4096, unat pt div 4096} \<Longrightarrow> mem s' a = mem s a"
    by (rule map_page_absent[OF wf inv abs room, of phys "map_flags u"]) blast
  have wf': "pd_wf s' pd"
    by (rule map_page_absent_walk[OF wf inv abs room fl, of phys], use s'(1) in simp)
  note pde = table_entry_bits[OF s'(2), of u]
  have other: "load32 (mem s') (ent pd (pdi va)) = load32 (mem s) (ent pd (pdi va)) \<and>
      (present (mem s) pd (pdi va) \<longrightarrow> leaf (mem s') pd va = leaf (mem s) pd va)"
    if "pdi va \<noteq> pdi virt" for va
  proof -
    have e: "load32 (mem s') (ent pd (pdi va)) = load32 (mem s) (ent pd (pdi va))" using ld[of "pdi va"] that by simp
    have "table (mem s) pd (pdi va) \<noteq> pd \<and> table (mem s) pd (pdi va) \<noteq> pt" if "present (mem s) pd (pdi va)"
      using wf that s'(6) unat_pdi_lt[of va] unfolding pd_wf_def by metis
    then show ?thesis
      using e lt[of "table (mem s) pd (pdi va)" "pti va"] by (auto simp: leaf_def table_def)
  qed
  have here: "leaf (mem s') pd va = (if pti va = pti virt then PTE phys (map_flags u) else 0)"
    if "pdi va = pdi virt" for va
    using that ld[of "pdi virt"] lt[OF s'(2), of "pti va"] s'(4) pde(1) by (simp add: leaf_def table_def)
  have "entry_ok (mem s') pd va ((f(vpn virt \<mapsto> (phys, u))) (vpn va))" for va
  proof (cases "pdi va = pdi virt")
    case True
    then have "f (vpn va) = None"
      using ent[of va] abs present_of_low[of "mem s" pd "pdi va"] by (cases "f (vpn va)") auto
    then show ?thesis using True here[OF True] ld[of "pdi virt"] pde by (auto simp: vpn_eq_iff)
  next
    case False
    then have "vpn va \<noteq> vpn virt" by (simp add: vpn_eq_iff)
    then show ?thesis
      using ent[of va] other[OF False] present_of_low[of "mem s" pd "pdi va"]
      by (cases "f (vpn va)") (auto simp: present_def)
  qed
  then have "aspace_rep pd s' (f(vpn virt \<mapsto> (phys, u)))" using wf' s'(8) by (simp add: aspace_rep_def)
  then show thesis using that[of s' pt] s'(1,5-7,9) fr by blast
qed

section \<open>The kernel's own mappings\<close>

definition kernel_space :: "nat \<Rightarrow> aspace" where
  "kernel_space n = (\<lambda>v. if v < n then Some (page_addr v, False) else None)"

lemma vpn_page_addr: "i < 2 ^ 20 \<Longrightarrow> vpn (page_addr i) = i"
  by (simp add: vpn_def unat_page_addr)

lemma kernel_space_Suc: "i < 2 ^ 20 \<Longrightarrow> (kernel_space i)(vpn (page_addr i) \<mapsto> (page_addr i, False)) = kernel_space (Suc i)"
  by (auto simp: kernel_space_def vpn_page_addr fun_eq_iff)

lemma kmap_aspace_step:
  assumes K: "kmap_inv s0 pd i s" and rep: "aspace_rep pd s (kernel_space i)"
    and i: "i < 4096" and room: "4 \<le> avail s0"
  shows "\<exists>s'. memory_map_page pd (page_addr i) (page_addr i) 3 s = Some s' \<and> kmap_inv s0 pd (Suc i) s' \<and>
    aspace_rep pd s' (kernel_space (Suc i))"
proof -
  have f3: "3 = map_flags False" by (simp add: map_flags_def)
  have "\<exists>s'. memory_map_page pd (page_addr i) (page_addr i) 3 s = Some s' \<and> kmap_inv s0 pd (Suc i) s'"
    using kmap_step_present[OF K i] kmap_step_absent[OF K i _ room] by blast
  then obtain s' where s': "memory_map_page pd (page_addr i) (page_addr i) 3 s = Some s'" "kmap_inv s0 pd (Suc i) s'"
    by blast
  have "aspace_rep pd s' ((kernel_space i)(vpn (page_addr i) \<mapsto> (page_addr i, False)))"
  proof (cases "present (mem s) pd (pdi (page_addr i))")
    case True
    have "load32 (mem s) (ent pd (pdi (page_addr i))) AND 7 = 3"
      using kmap_low[OF K _ True] by simp
    then have "load32 (mem s) (ent pd (pdi (page_addr i))) AND 3 = 3"
      using and.assoc[of "load32 (mem s) (ent pd (pdi (page_addr i)))" 7 3] by simp
    then show ?thesis
      by (rule aspace_map_present[OF rep True, of "page_addr i" False]) (use s'(1) f3 in simp)
  next
    case False
    have "present (mem s) pd (pdi (page_addr i)) \<longleftrightarrow> i div 1024 < (i + 1023) div 1024"
      using kmap_present[OF K unat_pdi_lt[of "page_addr i"]] page_index(1)[OF i] by simp
    then have "(i + 1023) div 1024 \<le> i div 1024" using False by simp
    also have "i div 1024 < 4" using i by (simp add: less_mult_imp_div_less)
    finally have "0 < avail s" using K room unfolding kmap_inv_def by linarith
    from avail_pos[OF this] show ?thesis
      by (rule aspace_map_absent[OF rep False, of "page_addr i" False]) (use s'(1) f3 in simp)
  qed
  then show ?thesis using s' kernel_space_Suc[of i] i by auto
qed

lemma kernel_aspace:
  assumes K: "kmap_inv s0 pd 0 s0" and room: "4 \<le> avail s0"
  shows "\<exists>s'. memory_map_kernel pd s0 = Some s' \<and> kmap_inv s0 pd 4096 s' \<and> aspace_rep pd s' (kernel_space 4096)"
proof -
  have none: "walk (mem s0) pd va = None" for va using kmap_walk[OF K, of va] by simp
  have np: "\<not> present (mem s0) pd (pdi va)" for va using kmap_present[OF K, of "pdi va"] by simp
  have start: "aspace_rep pd s0 (kernel_space 0)"
    using K np by (simp add: aspace_rep_def kernel_space_def kmap_inv_def)
  have "\<exists>s'. for_each (\<lambda>i. memory_map_page pd (page_addr i) (page_addr i) 3) [0..<4096] s0 = Some s' \<and>
      (kmap_inv s0 pd 4096 s' \<and> aspace_rep pd s' (kernel_space 4096))"
    by (rule for_each_upt_total[where P = "\<lambda>i s. kmap_inv s0 pd i s \<and> aspace_rep pd s (kernel_space i)"])
      (use K start kmap_aspace_step room in blast)+
  then show ?thesis by (simp add: memory_map_kernel_def page_addr_def)
qed

section \<open>Mapping a range of pages\<close>

text \<open>
  The contract of a mapper: mapping one page updates the map at that page and keeps what is outside
  the tables. Clients map lists of pages.
\<close>

locale page_mapper =
  fixes rep :: "'s \<Rightarrow> ('v \<Rightarrow> 'e option) \<Rightarrow> bool"
    and map_one :: "'v \<Rightarrow> 'e \<Rightarrow> 's \<Rightarrow> 's option"
    and ready :: "'s \<Rightarrow> 'v \<Rightarrow> bool"
    and rest :: "'s \<Rightarrow> 'r"
  assumes map_one: "rep s f \<Longrightarrow> ready s v \<Longrightarrow>
    \<exists>s'. map_one v e s = Some s' \<and> rep s' (f(v \<mapsto> e)) \<and> rest s' = rest s \<and> (\<forall>w. ready s w \<longrightarrow> ready s' w)"
begin

lemma map_list:
  assumes "rep s f" "\<And>i. i \<in> set is \<Longrightarrow> ready s (v i)"
  shows "\<exists>s'. for_each (\<lambda>i. map_one (v i) (e i)) is s = Some s' \<and>
    rep s' (foldl (\<lambda>f i. f(v i \<mapsto> e i)) f is) \<and> rest s' = rest s \<and> (\<forall>w. ready s w \<longrightarrow> ready s' w)"
  using assms
proof (induction "is" arbitrary: s f)
  case (Cons i r)
  obtain t where t: "map_one (v i) (e i) s = Some t" "rep t (f(v i \<mapsto> e i))" "rest t = rest s"
    "\<forall>w. ready s w \<longrightarrow> ready t w"
    using map_one[OF Cons.prems(1) Cons.prems(2)[of i], of "e i"] by auto
  have "\<And>j. j \<in> set r \<Longrightarrow> ready t (v j)" using t(4) Cons.prems(2) by simp
  from Cons.IH[OF t(2) this] show ?case using t by auto
qed simp

end

definition outside :: "u32 \<Rightarrow> mm \<Rightarrow> memory" where
  "outside pd s = (\<lambda>a. if unat a div 4096 \<in> insert (unat pd div 4096) (table_frames (mem s) pd) then 0 else mem s a)"

definition map_rest :: "u32 \<Rightarrow> mm \<Rightarrow> nat set \<times> (u32 \<times> u32 \<times> u32) \<times> nat set \<times> memory" where
  "map_rest pd s = (used s, mm_regs s, table_frames (mem s) pd, outside pd s)"

definition map_ready :: "u32 \<Rightarrow> mm \<Rightarrow> nat \<Rightarrow> bool" where
  "map_ready pd s v \<longleftrightarrow> v < 2 ^ 20 \<and> present (mem s) pd (pdi (page_addr v)) \<and>
     load32 (mem s) (ent pd (pdi (page_addr v))) AND 3 = 3"

definition map_vpn :: "u32 \<Rightarrow> nat \<Rightarrow> u32 \<times> bool \<Rightarrow> mm \<Rightarrow> mm option" where
  "map_vpn pd v e = memory_map_page pd (page_addr v) (fst e) (map_flags (snd e))"

interpretation pm: page_mapper "aspace_rep pd" "map_vpn pd" "map_ready pd" "map_rest pd"
proof
  fix s f v and e :: "u32 \<times> bool"
  assume rep: "aspace_rep pd s f" and r: "map_ready pd s v"
  have pr: "present (mem s) pd (pdi (page_addr v))" and low: "load32 (mem s) (ent pd (pdi (page_addr v))) AND 3 = 3"
    using r by (auto simp: map_ready_def)
  obtain s' where s': "memory_map_page pd (page_addr v) (fst e) (map_flags (snd e)) s = Some s'"
    "aspace_rep pd s' (f(vpn (page_addr v) \<mapsto> (fst e, snd e)))" "used s' = used s" "mm_regs s' = mm_regs s"
    and dir: "\<And>j. unat j < 1024 \<Longrightarrow> present (mem s') pd j = present (mem s) pd j \<and> table (mem s') pd j = table (mem s) pd j \<and>
      load32 (mem s') (ent pd j) AND 3 = load32 (mem s) (ent pd j) AND 3"
    and fr: "\<And>a. unat a div 4096 \<notin> {unat pd div 4096, unat (table (mem s) pd (pdi (page_addr v))) div 4096} \<Longrightarrow>
      mem s' a = mem s a"
    by (rule aspace_map_present[OF rep pr low, of "fst e" "snd e"]) blast
  have tf: "table_frames (mem s') pd = table_frames (mem s) pd"
    unfolding table_frames_def using dir by (simp cong: conj_cong)
  have "unat (table (mem s) pd (pdi (page_addr v))) div 4096 \<in> table_frames (mem s) pd"
    using r unat_pdi_lt[of "page_addr v"] unfolding table_frames_def map_ready_def by blast
  then have "mem s' a = mem s a"
    if "unat a div 4096 \<notin> insert (unat pd div 4096) (table_frames (mem s) pd)" for a
    using that by (intro fr) auto
  then have "outside pd s' = outside pd s" unfolding outside_def tf by (auto simp: fun_eq_iff)
  then have "map_rest pd s' = map_rest pd s" using s'(3,4) tf by (simp add: map_rest_def)
  moreover have "\<forall>w. map_ready pd s w \<longrightarrow> map_ready pd s' w" using dir by (simp add: map_ready_def)
  moreover have "vpn (page_addr v) = v" using r by (simp add: map_ready_def vpn_page_addr)
  ultimately show "\<exists>s'. map_vpn pd v e s = Some s' \<and> aspace_rep pd s' (f(v \<mapsto> e)) \<and>
    map_rest pd s' = map_rest pd s \<and> (\<forall>w. map_ready pd s w \<longrightarrow> map_ready pd s' w)"
    using s'(1,2) by (auto simp: map_vpn_def)
qed

section \<open>Destroying a directory\<close>

lemma free_frame:
  assumes "mm_inv s" "page_aligned p" "p \<noteq> 0" "unat p div 4096 < 4096"
  shows "\<exists>s'. memory_free_pages p 1 s = Some s' \<and> used s' = used s - {unat p div 4096} \<and> mm_inv s' \<and>
    mm_content s' = mm_content s"
proof -
  have "0 < unat p div 4096" using assms(2,3) page_alignedE[OF assms(2)] by (fastforce simp: word32_eq_iff_unat)
  then show ?thesis using pa.release_block[OF assms(1), of p 1] assms(4) by (auto simp: frames_one)
qed

definition table_frames_below :: "nat \<Rightarrow> memory \<Rightarrow> u32 \<Rightarrow> nat set" where
  "table_frames_below n m pd = {x. \<exists>j. unat j < n \<and> present m pd j \<and> x = unat (table m pd j) div 4096}"

lemma table_frames_below_Suc:
  assumes "n < 1024"
  shows "table_frames_below (Suc n) m pd = (if present m pd (of_nat n)
    then insert (unat (table m pd (of_nat n)) div 4096) (table_frames_below n m pd) else table_frames_below n m pd)"
proof -
  have "unat j < Suc n \<longleftrightarrow> unat j < n \<or> j = of_nat n" for j :: u32
    using assms by (auto simp: word32_eq_iff_unat unat_of_nat32)
  then show ?thesis unfolding table_frames_below_def by auto
qed

lemma destroy_directory:
  assumes wf: "pd_wf s pd" and inv: "mm_inv s" and nz: "pd \<noteq> 0"
  shows "\<exists>s'. memory_destroy_page_directory pd s = Some s' \<and> mm_inv s' \<and> mm_content s' = mm_content s \<and>
    used s' = used s - insert (unat pd div 4096) (table_frames (mem s) pd)"
proof -
  have bnd: "x < 4096" if "x \<in> used s" for x
    using used_bound[OF _ that] inv by (simp add: mm_inv_def)
  let ?b = "\<lambda>i t. let e = load32 (mem t) (ent pd (of_nat i))
     in if e AND 0x01 \<noteq> 0 then memory_free_pages (e AND NOT 0xFFF) 1 t else Some t"
  let ?P = "\<lambda>i t. mm_inv t \<and> mm_content t = mm_content s \<and> used t = used s - table_frames_below i (mem s) pd"
  have "\<exists>t. for_each ?b [0..<1024] s = Some t \<and> ?P 1024 t"
  proof (rule for_each_upt_total[where P = ?P])
    show "?P 0 s" using inv by (simp add: table_frames_below_def)
  next
    fix i t
    assume i: "i < (1024 :: nat)" and P: "?P i t"
    have u: "unat (of_nat i :: u32) = i" using i by (simp add: unat_of_nat32)
    have m: "mem t = mem s" using P by (simp add: mm_content_def)
    show "\<exists>t'. ?b i t = Some t' \<and> ?P (Suc i) t'"
    proof (cases "present (mem s) pd (of_nat i)")
      case False
      then show ?thesis using P m table_frames_below_Suc[OF i, of "mem s" pd] by (auto simp: present_def)
    next
      case True
      let ?t = "table (mem s) pd (of_nat i)"
      have "unat ?t div 4096 \<in> used s" "?t \<noteq> 0" using wf True i u unfolding pd_wf_def by metis+
      then obtain t' where "memory_free_pages ?t 1 t = Some t'" "used t' = used t - {unat ?t div 4096}" "mm_inv t'"
        "mm_content t' = mm_content t"
        using free_frame[of t ?t] P bnd by (auto simp: table_def)
      then show ?thesis
        using True P m table_frames_below_Suc[OF i, of "mem s" pd]
        by (auto simp: present_def table_def PTE_ADDR_def)
    qed
  qed simp
  then obtain t where t: "for_each ?b [0..<1024] s = Some t" "mm_inv t" "mm_content t = mm_content s"
    "used t = used s - table_frames (mem s) pd"
    by (auto simp: table_frames_def table_frames_below_def)
  have "page_aligned pd" "unat pd div 4096 < 4096" using wf bnd by (auto simp: pd_wf_def)
  from free_frame[OF t(2) this(1) nz this(2)] show ?thesis
    using t by (auto simp: memory_destroy_page_directory_def Let_def)
qed

end
