(* ===== verification/Linked_Queue.thy ===== *)
theory Linked_Queue
  imports CatOS_Prelude
begin

text \<open>
  Linked queues: the vocabulary for pointer chains that the scheduler's doubly linked ready queue
  and the singly linked IPC queues share, and the contract of such a queue as a locale. \<open>nxt xs\<close> is
  the successor map of the chain \<open>xs\<close>; the predecessor map is \<open>nxt (rev xs)\<close>.
\<close>

fun nxt :: "'a list \<Rightarrow> 'a \<Rightarrow> 'a option" where
  "nxt (a # b # r) p = (if p = a then Some b else nxt (b # r) p)"
| "nxt [a] p = None"
| "nxt [] p = None"

definition hd_opt :: "'a list \<Rightarrow> 'a option" where
  "hd_opt xs = (case xs of [] \<Rightarrow> None | x # _ \<Rightarrow> Some x)"

lemma hd_opt_simps [simp]: "hd_opt [] = None" "hd_opt (x # xs) = Some x"
  by (simp_all add: hd_opt_def)

lemma hd_opt_eq_None [simp]: "hd_opt xs = None \<longleftrightarrow> xs = []"
  by (cases xs) simp_all

lemma hd_opt_in: "hd_opt xs = Some x \<Longrightarrow> x \<in> set xs"
  by (cases xs) simp_all

lemma hd_opt_append: "hd_opt (xs @ ys) = (if xs = [] then hd_opt ys else hd_opt xs)"
  by (cases xs) simp_all

lemma nxt_Cons: "nxt (a # r) p = (if r \<noteq> [] \<and> p = a then hd_opt r else nxt r p)"
  by (cases r) simp_all

lemma nxt_notin [simp]: "p \<notin> set xs \<Longrightarrow> nxt xs p = None"
  by (induction xs) (auto simp: nxt_Cons)

lemma nxt_in: "nxt xs p = Some q \<Longrightarrow> q \<in> set xs"
  by (induction xs) (auto simp: nxt_Cons hd_opt_in split: if_splits)

lemma nxt_append:
  assumes "distinct (xs @ ys)"
  shows "nxt (xs @ ys) p = (if p \<in> set xs then if hd_opt (rev xs) = Some p then hd_opt ys else nxt xs p
    else nxt ys p)"
  using assms
proof (induction xs)
  case (Cons a xs)
  then show ?case
    using hd_opt_in[of "rev xs" a] by (cases "xs = []") (auto simp: nxt_Cons hd_opt_append)
qed simp

lemma nxt_snoc:
  assumes "distinct (xs @ [x])"
  shows "nxt (xs @ [x]) p = (if hd_opt (rev xs) = Some p then Some x else nxt xs p)"
  using nxt_append[OF assms, of p] hd_opt_in[of "rev xs" p] by (auto split: if_splits)

lemma nxt_last: "distinct xs \<Longrightarrow> hd_opt (rev xs) = Some p \<Longrightarrow> nxt xs p = None"
proof (induction xs rule: rev_induct)
  case (snoc x xs)
  then show ?case by (auto simp: nxt_snoc dest: hd_opt_in)
qed simp

lemma nxt_not_head: "distinct xs \<Longrightarrow> nxt xs p = Some q \<Longrightarrow> hd_opt xs \<noteq> Some q"
  using nxt_in[of "tl xs" p q] hd_opt_in[of "tl xs" q]
  by (cases xs) (auto simp: nxt_Cons split: if_splits)

lemma nxt_irrefl: "distinct xs \<Longrightarrow> nxt xs p \<noteq> Some p"
  by (induction xs) (auto simp: nxt_Cons dest: hd_opt_in)

lemma nxt_rev_iff: "distinct xs \<Longrightarrow> nxt (rev xs) q = Some p \<longleftrightarrow> nxt xs p = Some q"
proof (induction xs)
  case (Cons a xs)
  then have d: "distinct (rev xs @ [a])" by simp
  show ?case
  proof (cases "xs = []")
    case False
    then show ?thesis
      using Cons nxt_in[of xs p q] nxt_in[of "rev xs" q p] hd_opt_in[of xs q] nxt_not_head[of xs p q]
      by (auto simp: nxt_snoc[OF d] nxt_Cons nxt_notin)
  qed simp
qed simp

lemma nxt_remove1:
  assumes "distinct xs" "p \<in> set xs"
  shows "nxt (remove1 p xs) q = (if q = p then None else if nxt xs q = Some p then nxt xs p else nxt xs q)"
  using assms
proof (induction xs)
  case (Cons a xs)
  show ?case
  proof (cases "a = p")
    case True
    then have "p \<notin> set xs" using Cons.prems by simp
    then have "nxt xs q \<noteq> Some p" by (auto dest: nxt_in)
    then show ?thesis using True Cons.prems by (auto simp: nxt_Cons)
  next
    case False
    with Cons.prems have p: "p \<in> set xs" "distinct xs" "a \<notin> set xs" by auto
    show ?thesis
    proof (cases xs)
      case Nil
      then show ?thesis using p by simp
    next
      case xs: (Cons b ys)
      show ?thesis
      proof (cases "b = p")
        case True
        then have "p \<notin> set ys" using p xs by simp
        then have "nxt ys q \<noteq> Some p" by (auto dest: nxt_in)
        then show ?thesis using False True p xs by (auto simp: nxt_Cons)
      next
        case b: False
        then show ?thesis using Cons.IH[OF p(2,1)] False xs p by (auto simp: nxt_Cons)
      qed
    qed
  qed
qed simp

lemma hd_opt_remove1:
  assumes "distinct xs" "p \<in> set xs"
  shows "hd_opt (remove1 p xs) = (if hd_opt xs = Some p then nxt xs p else hd_opt xs)"
  using assms by (cases xs) (auto simp: nxt_Cons)

lemma rev_remove1: "distinct xs \<Longrightarrow> rev (remove1 p xs) = remove1 p (rev xs)"
  by (simp add: distinct_remove1_removeAll rev_filter removeAll_filter_not_eq)

lemma nxt_None_iff:
  assumes "distinct xs" "p \<in> set xs"
  shows "nxt xs p = None \<longleftrightarrow> hd_opt (rev xs) = Some p"
  using assms
proof (induction xs rule: rev_induct)
  case (snoc x xs)
  have "x \<notin> set xs" using snoc.prems by simp
  show ?case
  proof (cases "p = x")
    case False
    then have "p \<in> set xs" using snoc.prems by simp
    then show ?thesis
      using snoc False by (auto simp: nxt_snoc)
  next
    case True
    then have "hd_opt (rev xs) \<noteq> Some p" using \<open>x \<notin> set xs\<close> hd_opt_in[of "rev xs" p] by auto
    then show ?thesis using True snoc.prems by (simp add: nxt_snoc)
  qed
qed simp

section \<open>The contract of a linked queue\<close>

text \<open>
  \<open>rep s xs\<close> says that the pointers of the state \<open>s\<close> hold the queue \<open>xs\<close>. \<open>push\<close> links an element
  at the end (\<open>None\<close>: a NULL pointer was dereferenced), \<open>unlink\<close> takes an element out wherever it
  is, \<open>front\<close> reads the head pointer, and \<open>fresh\<close> is what the provider needs to know of an element
  before it can be linked.
\<close>

locale linked_queue =
  fixes rep :: "'s \<Rightarrow> 'a list \<Rightarrow> bool"
    and push :: "'a \<Rightarrow> 's \<Rightarrow> 's option"
    and unlink :: "'a \<Rightarrow> 's \<Rightarrow> 's"
    and front :: "'s \<Rightarrow> 'a option"
    and fresh :: "'a \<Rightarrow> 's \<Rightarrow> bool"
  assumes rep_distinct: "rep s xs \<Longrightarrow> distinct xs"
    and rep_push: "rep s xs \<Longrightarrow> p \<notin> set xs \<Longrightarrow> fresh p s \<Longrightarrow> \<exists>s'. push p s = Some s' \<and> rep s' (xs @ [p])"
    and rep_unlink: "rep s xs \<Longrightarrow> p \<in> set xs \<Longrightarrow> rep (unlink p s) (remove1 p xs)"
    and rep_front: "rep s xs \<Longrightarrow> front s = hd_opt xs"
    and fresh_unlink: "rep s xs \<Longrightarrow> p \<in> set xs \<Longrightarrow> fresh p (unlink p s)"
begin

lemma front_unlink: "rep s (x # xs) \<Longrightarrow> front s = Some x \<and> rep (unlink x s) xs"
  using rep_front[of s "x # xs"] rep_unlink[of s "x # xs" x] by simp

lemma push_unlink:
  assumes "rep s xs" "p \<notin> set xs" "fresh p s"
  shows "\<exists>s'. push p s = Some s' \<and> rep (unlink p s') xs"
  using rep_push[OF assms] rep_unlink[of _ "xs @ [p]" p] assms(2) by (auto simp: remove1_append)

text \<open>Taking the first element out and appending it again rotates the queue.\<close>

lemma rotate_queue:
  assumes "rep s (x # xs)"
  shows "\<exists>s'. push x (unlink x s) = Some s' \<and> rep s' (xs @ [x])"
  using rep_push[of "unlink x s" xs x] front_unlink[OF assms] fresh_unlink[OF assms, of x]
    rep_distinct[OF assms] by simp

end

end
