(* ===== verification/Scheduler.thy ===== *)
theory Scheduler
  imports Linked_Queue
begin

text \<open>
  The round-robin scheduler of \<^verbatim>\<open>kernel/scheduler.c\<close>: process control blocks, the doubly linked
  ready queue, and every scheduling operation.

  A \<^verbatim>\<open>pcb_t*\<close> always points into the static \<^verbatim>\<open>process_table\<close>, so it is the index of its slot, and
  NULL is \<open>None\<close>. An operation that may call \<^verbatim>\<open>context_switch_asm\<close> returns the control outcome beside
  the new state: \<open>Returned\<close>, or \<open>Switched prev next\<close> when the caller is suspended and the processor
  continues on the stack of \<open>next\<close>. An outer \<open>None\<close> is the dereference of a NULL pointer. The serial
  log messages are not part of the state.
\<close>

section \<open>Process control blocks\<close>

datatype process_state_t =
  PROCESS_CREATED | PROCESS_READY | PROCESS_RUNNING | PROCESS_BLOCKED | PROCESS_TERMINATED

record pcb =
  p_pid :: u32
  p_parent_pid :: u32
  p_state :: process_state_t
  p_priority :: u32
  p_cpu_time :: u32
  p_page_directory :: u32
  p_kernel_stack :: u32
  p_user_stack :: u32
  p_capabilities :: u32
  p_exit_code :: u32
  p_waiting_for :: u32
  p_next :: "nat option"
  p_prev :: "nat option"
  p_registers :: "u32 list"
  p_is_user :: bool

text \<open>What \<^verbatim>\<open>__builtin_memset(&process_table[i], 0, sizeof(pcb_t))\<close> leaves in a slot.\<close>

definition zero_pcb :: pcb where
  "zero_pcb = \<lparr>p_pid = 0, p_parent_pid = 0, p_state = PROCESS_CREATED, p_priority = 0, p_cpu_time = 0,
     p_page_directory = 0, p_kernel_stack = 0, p_user_stack = 0, p_capabilities = 0, p_exit_code = 0,
     p_waiting_for = 0, p_next = None, p_prev = None, p_registers = replicate 16 0, p_is_user = False\<rparr>"

record sched =
  pcbs :: "nat \<Rightarrow> pcb"
  current_process :: "nat option"
  ready_queue_head :: "nat option"
  ready_queue_tail :: "nat option"
  sched_next_pid :: u32
  scheduler_ticks :: u32

datatype control = Returned | Switched "nat option" nat

definition upd_pcb :: "nat \<Rightarrow> (pcb \<Rightarrow> pcb) \<Rightarrow> sched \<Rightarrow> sched" where
  "upd_pcb p f s = s\<lparr>pcbs := (pcbs s)(p := f (pcbs s p))\<rparr>"

lemma upd_pcb_simps [simp]:
  "pcbs (upd_pcb p f s) = (pcbs s)(p := f (pcbs s p))"
  "current_process (upd_pcb p f s) = current_process s"
  "ready_queue_head (upd_pcb p f s) = ready_queue_head s"
  "ready_queue_tail (upd_pcb p f s) = ready_queue_tail s"
  "sched_next_pid (upd_pcb p f s) = sched_next_pid s"
  "scheduler_ticks (upd_pcb p f s) = scheduler_ticks s"
  by (simp_all add: upd_pcb_def)

section \<open>The operations\<close>

definition scheduler_init :: "sched \<Rightarrow> sched" where
  "scheduler_init s = s\<lparr>current_process := None, ready_queue_head := None, ready_queue_tail := None,
     sched_next_pid := 1, scheduler_ticks := 0\<rparr>"

definition scheduler_add_to_ready :: "nat option \<Rightarrow> sched \<Rightarrow> sched option" where
  "scheduler_add_to_ready process s = (case process of
     None \<Rightarrow> Some s
   | Some p \<Rightarrow>
       (let s = upd_pcb p (\<lambda>c. c\<lparr>p_next := None, p_prev := None\<rparr>) s in
        if ready_queue_head s = None
        then Some (s\<lparr>ready_queue_head := Some p, ready_queue_tail := Some p\<rparr>)
        else (case ready_queue_tail s of
            None \<Rightarrow> None
          | Some t \<Rightarrow>
              (let s = upd_pcb t (\<lambda>c. c\<lparr>p_next := Some p\<rparr>) s;
                   s = upd_pcb p (\<lambda>c. c\<lparr>p_prev := Some t\<rparr>) s
               in Some (s\<lparr>ready_queue_tail := Some p\<rparr>)))))"

definition scheduler_remove_from_ready :: "nat option \<Rightarrow> sched \<Rightarrow> sched" where
  "scheduler_remove_from_ready process s = (case process of
     None \<Rightarrow> s
   | Some p \<Rightarrow>
       (case (case p_prev (pcbs s p) of
                Some q \<Rightarrow> Some (upd_pcb q (\<lambda>c. c\<lparr>p_next := p_next (pcbs s p)\<rparr>) s)
              | None \<Rightarrow>
                  if ready_queue_head s = Some p
                  then Some (s\<lparr>ready_queue_head := p_next (pcbs s p)\<rparr>)
                  else None) of
          None \<Rightarrow> s
        | Some s1 \<Rightarrow>
            (let s2 = (case p_next (pcbs s1 p) of
                 Some q \<Rightarrow> upd_pcb q (\<lambda>c. c\<lparr>p_prev := p_prev (pcbs s1 p)\<rparr>) s1
               | None \<Rightarrow>
                   if ready_queue_tail s1 = Some p
                   then s1\<lparr>ready_queue_tail := p_prev (pcbs s1 p)\<rparr>
                   else s1)
             in upd_pcb p (\<lambda>c. c\<lparr>p_next := None, p_prev := None\<rparr>) s2)))"

definition scheduler_switch_to :: "nat \<Rightarrow> sched \<Rightarrow> sched \<times> control" where
  "scheduler_switch_to next s =
     (let prev = current_process s;
          s = upd_pcb next (\<lambda>c. c\<lparr>p_state := PROCESS_RUNNING\<rparr>) (s\<lparr>current_process := Some next\<rparr>)
      in (s, if prev \<noteq> Some next then Switched prev next else Returned))"

definition current_running :: "sched \<Rightarrow> bool" where
  "current_running s = (case current_process s of
     None \<Rightarrow> False | Some c \<Rightarrow> p_state (pcbs s c) = PROCESS_RUNNING)"

definition scheduler_yield :: "sched \<Rightarrow> (sched \<times> control) option" where
  "scheduler_yield s =
     (if ready_queue_head s = None then Some (s, Returned)
      else do {
        s \<leftarrow> (if current_running s
             then scheduler_add_to_ready (current_process s)
                    (upd_pcb (the (current_process s)) (\<lambda>c. c\<lparr>p_state := PROCESS_READY\<rparr>) s)
             else Some s);
        (case ready_queue_head s of
           None \<Rightarrow> None
         | Some next \<Rightarrow> Some (scheduler_switch_to next (scheduler_remove_from_ready (Some next) s)))
      })"

definition scheduler_add_process :: "nat option \<Rightarrow> sched \<Rightarrow> sched option" where
  "scheduler_add_process process s = (case process of
     None \<Rightarrow> Some s
   | Some p \<Rightarrow>
       (let s = (if p_pid (pcbs s p) = 0
                 then upd_pcb p (\<lambda>c. c\<lparr>p_pid := sched_next_pid s\<rparr>)
                        (s\<lparr>sched_next_pid := sched_next_pid s + 1\<rparr>)
                 else s) in
        if p_state (pcbs s p) = PROCESS_READY then Some s
        else do {
          s \<leftarrow> scheduler_add_to_ready (Some p) s;
          Some (upd_pcb p (\<lambda>c. c\<lparr>p_state := PROCESS_READY\<rparr>) s)
        }))"

definition scheduler_remove_process :: "nat option \<Rightarrow> sched \<Rightarrow> (sched \<times> control) option" where
  "scheduler_remove_process process s = (case process of
     None \<Rightarrow> Some (s, Returned)
   | Some p \<Rightarrow>
       (let s = (if p_state (pcbs s p) = PROCESS_READY then scheduler_remove_from_ready (Some p) s
                 else s) in
        if current_process s = Some p
        then scheduler_yield (upd_pcb p (\<lambda>c. c\<lparr>p_state := PROCESS_TERMINATED\<rparr>)
               (s\<lparr>current_process := None\<rparr>))
        else Some (s, Returned)))"

abbreviation TIME_QUANTUM :: u32 where "TIME_QUANTUM \<equiv> 10"

definition scheduler_tick :: "sched \<Rightarrow> (sched \<times> control) option" where
  "scheduler_tick s =
     (let s = s\<lparr>scheduler_ticks := scheduler_ticks s + 1\<rparr> in
      case current_process s of
        None \<Rightarrow> scheduler_yield s
      | Some c \<Rightarrow>
          (let s = upd_pcb c (\<lambda>c. c\<lparr>p_cpu_time := p_cpu_time c + 1\<rparr>) s in
           if scheduler_ticks s mod TIME_QUANTUM = 0 then scheduler_yield s
           else Some (s, Returned)))"

definition scheduler_get_current :: "sched \<Rightarrow> nat option" where
  "scheduler_get_current s = current_process s"

text \<open>
  The pointer-chasing loop of \<^verbatim>\<open>scheduler_find_process\<close>; \<open>None\<close> means that it never ends, \<open>Some None\<close>
  that it ran off the end of the queue.
\<close>

partial_function (option) find_in_ready :: "u32 \<Rightarrow> sched \<Rightarrow> nat option \<Rightarrow> nat option option" where
  "find_in_ready pid s current = (case current of
     None \<Rightarrow> Some None
   | Some c \<Rightarrow> if p_pid (pcbs s c) = pid then Some (Some c)
               else find_in_ready pid s (p_next (pcbs s c)))"

definition scheduler_find_process :: "u32 \<Rightarrow> sched \<Rightarrow> nat option option" where
  "scheduler_find_process pid s = (case current_process s of
     Some c \<Rightarrow> if p_pid (pcbs s c) = pid then Some (Some c)
               else find_in_ready pid s (ready_queue_head s)
   | None \<Rightarrow> find_in_ready pid s (ready_queue_head s))"

definition scheduler_unblock_process :: "nat option \<Rightarrow> sched \<Rightarrow> sched option" where
  "scheduler_unblock_process process s = (case process of
     None \<Rightarrow> Some s
   | Some p \<Rightarrow>
       if p_state (pcbs s p) = PROCESS_BLOCKED
       then scheduler_add_to_ready (Some p) (upd_pcb p (\<lambda>c. c\<lparr>p_state := PROCESS_READY\<rparr>) s)
       else Some s)"

definition scheduler_block_current :: "sched \<Rightarrow> (sched \<times> control) option" where
  "scheduler_block_current s = (case current_process s of
     None \<Rightarrow> Some (s, Returned)
   | Some c \<Rightarrow> scheduler_yield (upd_pcb c (\<lambda>c. c\<lparr>p_state := PROCESS_BLOCKED\<rparr>) s))"

definition scheduler_set_priority :: "nat option \<Rightarrow> u32 \<Rightarrow> sched \<Rightarrow> sched" where
  "scheduler_set_priority process priority s = (case process of
     None \<Rightarrow> s | Some p \<Rightarrow> upd_pcb p (\<lambda>c. c\<lparr>p_priority := priority\<rparr>) s)"


section \<open>The ready queue as a doubly linked list\<close>

definition queue_rep :: "sched \<Rightarrow> nat list \<Rightarrow> bool" where
  "queue_rep s xs \<longleftrightarrow> distinct xs \<and> ready_queue_head s = hd_opt xs \<and> ready_queue_tail s = hd_opt (rev xs) \<and>
     (\<forall>p. p_next (pcbs s p) = nxt xs p \<and> p_prev (pcbs s p) = nxt (rev xs) p)"

text \<open>A control block without its two links: what the queue operations never touch.\<close>

definition pcb_core :: "pcb \<Rightarrow> pcb" where
  "pcb_core c = c\<lparr>p_next := None, p_prev := None\<rparr>"

definition same_core :: "sched \<Rightarrow> sched \<Rightarrow> bool" where
  "same_core s s' \<longleftrightarrow> (\<forall>p. pcb_core (pcbs s' p) = pcb_core (pcbs s p)) \<and>
     current_process s' = current_process s \<and> sched_next_pid s' = sched_next_pid s \<and>
     scheduler_ticks s' = scheduler_ticks s"

lemma pcb_core_eq_iff: "pcb_core c = pcb_core d \<longleftrightarrow>
    p_pid c = p_pid d \<and> p_parent_pid c = p_parent_pid d \<and> p_state c = p_state d \<and>
    p_priority c = p_priority d \<and> p_cpu_time c = p_cpu_time d \<and>
    p_page_directory c = p_page_directory d \<and> p_kernel_stack c = p_kernel_stack d \<and>
    p_user_stack c = p_user_stack d \<and> p_capabilities c = p_capabilities d \<and>
    p_exit_code c = p_exit_code d \<and> p_waiting_for c = p_waiting_for d \<and>
    p_registers c = p_registers d \<and> p_is_user c = p_is_user d"
  by (cases c; cases d) (simp add: pcb_core_def)

lemma same_coreD:
  assumes "same_core s s'"
  shows "p_state (pcbs s' p) = p_state (pcbs s p)" "p_pid (pcbs s' p) = p_pid (pcbs s p)"
    "current_process s' = current_process s" "scheduler_ticks s' = scheduler_ticks s"
    "current_running s' = current_running s" "sched_next_pid s' = sched_next_pid s"
  using assms by (auto simp: same_core_def pcb_core_eq_iff current_running_def split: option.splits)

lemma add_to_ready_core:
  "scheduler_add_to_ready (Some p) s = Some s' \<Longrightarrow> same_core s s'"
  by (auto simp: scheduler_add_to_ready_def same_core_def Let_def pcb_core_def
      split: if_splits option.splits)

lemma remove_from_ready_core: "same_core s (scheduler_remove_from_ready (Some p) s)"
  by (auto simp: scheduler_remove_from_ready_def same_core_def Let_def pcb_core_def
      split: if_splits option.splits)

lemma add_to_ready_rep:
  assumes "queue_rep s xs" "p \<notin> set xs"
  shows "\<exists>s'. scheduler_add_to_ready (Some p) s = Some s' \<and> queue_rep s' (xs @ [p])"
proof (cases xs rule: rev_cases)
  case Nil
  then show ?thesis
    using assms by (auto simp: queue_rep_def scheduler_add_to_ready_def Let_def)
next
  case (snoc ys t)
  have d: "distinct (xs @ [p])" using assms by (simp add: queue_rep_def)
  have n: "nxt (xs @ [p]) q = (if q = t then Some p else nxt xs q)" for q
    using nxt_snoc[OF d, of q] snoc by auto
  have v: "nxt (p # rev xs) q = (if q = p then Some t else nxt (rev xs) q)" for q
    using nxt_Cons[of p "rev xs" q] snoc by auto
  have "hd_opt xs \<noteq> None" "hd_opt (rev xs) = Some t" "p \<noteq> t" "nxt xs p = None"
    using snoc assms(2) by auto
  then show ?thesis
    using assms(1) d
    by (auto simp: queue_rep_def scheduler_add_to_ready_def Let_def n v hd_opt_append)
qed

lemma remove_from_ready_rep:
  assumes q: "queue_rep s xs" and p: "p \<in> set xs"
  shows "queue_rep (scheduler_remove_from_ready (Some p) s) (remove1 p xs)"
proof -
  have d: "distinct xs" "distinct (rev xs)" and p': "p \<in> set (rev xs)" using q p by (auto simp: queue_rep_def)
  note rem = nxt_remove1[OF d(1) p] nxt_remove1[OF d(2) p'] hd_opt_remove1[OF d(1) p]
    hd_opt_remove1[OF d(2) p'] rev_remove1[OF d(1)]
  have iff: "nxt (rev xs) a = Some b \<longleftrightarrow> nxt xs b = Some a" for a b by (rule nxt_rev_iff[OF d(1)])
  have ends: "nxt xs p = None \<longleftrightarrow> hd_opt (rev xs) = Some p" "nxt (rev xs) p = None \<longleftrightarrow> hd_opt xs = Some p"
    using nxt_None_iff[OF d(1) p] nxt_None_iff[OF d(2) p'] by simp_all
  have irr: "nxt xs p \<noteq> Some p" "nxt (rev xs) p \<noteq> Some p"
    using nxt_irrefl[OF d(1)] nxt_irrefl[OF d(2)] by blast+
  let ?t = "scheduler_remove_from_ready (Some p) s"
  have rep: "p_next (pcbs s a) = nxt xs a" "p_prev (pcbs s a) = nxt (rev xs) a"
    "ready_queue_head s = hd_opt xs" "ready_queue_tail s = hd_opt (rev xs)" for a
    using q by (simp_all add: queue_rep_def)
  have "p_next (pcbs ?t a) = (if a = p then None else if nxt xs a = Some p then nxt xs p else nxt xs a) \<and>
    p_prev (pcbs ?t a) = (if a = p then None else if nxt (rev xs) a = Some p then nxt (rev xs) p else nxt (rev xs) a) \<and>
    ready_queue_head ?t = (if hd_opt xs = Some p then nxt xs p else hd_opt xs) \<and>
    ready_queue_tail ?t = (if hd_opt (rev xs) = Some p then nxt (rev xs) p else hd_opt (rev xs))" for a
    using irr ends iff[of p a] iff[of a p]
    by (cases "nxt xs p"; cases "nxt (rev xs) p")
      (auto simp: scheduler_remove_from_ready_def Let_def rep)
  then show ?thesis using d by (simp add: queue_rep_def rem)
qed

interpretation rq: linked_queue queue_rep "\<lambda>p. scheduler_add_to_ready (Some p)"
  "\<lambda>p. scheduler_remove_from_ready (Some p)" ready_queue_head "\<lambda>_ _. True"
  by unfold_locales (auto simp: add_to_ready_rep remove_from_ready_rep, simp_all add: queue_rep_def)

section \<open>The scheduler invariant and the round-robin specification\<close>

text \<open>
  The queue is well linked, everything in it is READY, and only the current process is RUNNING. A
  process may be READY without being queued: \<^verbatim>\<open>scheduler_remove_process\<close> unlinks a process without
  changing its state.
\<close>

definition sched_inv :: "sched \<Rightarrow> nat list \<Rightarrow> bool" where
  "sched_inv s xs \<longleftrightarrow> queue_rep s xs \<and> (\<forall>p \<in> set xs. p_state (pcbs s p) = PROCESS_READY) \<and>
     (\<forall>p. p_state (pcbs s p) = PROCESS_RUNNING \<longrightarrow> current_process s = Some p)"

text \<open>
  What a yield promises: the running process goes to the back of the queue, the front of the queue
  becomes current, and the processor switches unless the front was current already.
\<close>

fun rr_yield :: "nat option \<Rightarrow> bool \<Rightarrow> nat list \<Rightarrow> nat option \<times> nat list \<times> control" where
  "rr_yield cur running [] = (cur, [], Returned)"
| "rr_yield cur running (x # xs) =
     (Some x, xs @ (if running then [the cur] else []),
      if cur = Some x then Returned else Switched cur x)"

text \<open>The part of the control blocks that a yield does not touch: all but the links and the state.\<close>

definition same_static :: "sched \<Rightarrow> sched \<Rightarrow> bool" where
  "same_static s s' \<longleftrightarrow> (\<forall>p. pcb_core (pcbs s' p)\<lparr>p_state := PROCESS_CREATED\<rparr> =
       pcb_core (pcbs s p)\<lparr>p_state := PROCESS_CREATED\<rparr>) \<and>
     sched_next_pid s' = sched_next_pid s \<and> scheduler_ticks s' = scheduler_ticks s"

lemma same_static_refl [simp]: "same_static s s"
  by (simp add: same_static_def)

lemma same_static_trans: "same_static s t \<Longrightarrow> same_static t u \<Longrightarrow> same_static s u"
  by (simp add: same_static_def)

lemma same_core_static: "same_core s s' \<Longrightarrow> same_static s s'"
  by (simp add: same_static_def same_core_def)

lemma same_static_state [simp]:
  "same_static s (upd_pcb p (\<lambda>c. c\<lparr>p_state := v\<rparr>) s)"
  "same_static s (s\<lparr>current_process := q\<rparr>)"
  by (auto simp: same_static_def pcb_core_def)

lemma pcb_static_eq_iff:
  "pcb_core c\<lparr>p_state := v\<rparr> = pcb_core d\<lparr>p_state := v\<rparr> \<longleftrightarrow>
    pcb_core c = pcb_core d\<lparr>p_state := p_state c\<rparr>"
  by (cases c; cases d) (simp add: pcb_core_def)

lemma same_staticD:
  assumes "same_static s s'"
  shows "p_pid (pcbs s' p) = p_pid (pcbs s p)" "p_cpu_time (pcbs s' p) = p_cpu_time (pcbs s p)"
    "scheduler_ticks s' = scheduler_ticks s" "p_page_directory (pcbs s' p) = p_page_directory (pcbs s p)"
    "p_kernel_stack (pcbs s' p) = p_kernel_stack (pcbs s p)"
    "p_user_stack (pcbs s' p) = p_user_stack (pcbs s p)"
proof -
  have e: "pcb_core (pcbs s' p) = pcb_core (pcbs s p)\<lparr>p_state := p_state (pcbs s' p)\<rparr>"
    using assms by (simp add: same_static_def pcb_static_eq_iff)
  show "p_pid (pcbs s' p) = p_pid (pcbs s p)" using arg_cong[OF e, of p_pid] by (simp add: pcb_core_def)
  show "p_cpu_time (pcbs s' p) = p_cpu_time (pcbs s p)"
    using arg_cong[OF e, of p_cpu_time] by (simp add: pcb_core_def)
  show "p_page_directory (pcbs s' p) = p_page_directory (pcbs s p)"
    using arg_cong[OF e, of p_page_directory] by (simp add: pcb_core_def)
  show "p_kernel_stack (pcbs s' p) = p_kernel_stack (pcbs s p)"
    using arg_cong[OF e, of p_kernel_stack] by (simp add: pcb_core_def)
  show "p_user_stack (pcbs s' p) = p_user_stack (pcbs s p)"
    using arg_cong[OF e, of p_user_stack] by (simp add: pcb_core_def)
  show "scheduler_ticks s' = scheduler_ticks s" using assms by (simp add: same_static_def)
qed

lemma queue_rep_state [simp]:
  "queue_rep (upd_pcb p (\<lambda>c. c\<lparr>p_state := v\<rparr>) s) xs = queue_rep s xs"
  "queue_rep (s\<lparr>current_process := q\<rparr>) xs = queue_rep s xs"
  by (auto simp: queue_rep_def)

lemma current_running_iff:
  "current_running s \<longleftrightarrow> (\<exists>c. current_process s = Some c \<and> p_state (pcbs s c) = PROCESS_RUNNING)"
  by (auto simp: current_running_def split: option.splits)

text \<open>Linking a process that is not queued, and unlinking one, in terms of the invariant.\<close>

lemma sched_inv_running:
  "sched_inv s xs \<Longrightarrow> p_state (pcbs s p) = PROCESS_RUNNING \<Longrightarrow> current_process s = Some p"
  by (simp add: sched_inv_def)

lemma push_inv:
  assumes q: "queue_rep s xs" "p \<notin> set xs"
  obtains s' where "scheduler_add_to_ready (Some p) s = Some s'" "queue_rep s' (xs @ [p])" "same_core s s'"
  using rq.rep_push[OF q] add_to_ready_core by blast

lemma switch_to_inv:
  assumes "queue_rep s (x # xs)" and "\<forall>p \<in> set (x # xs). p_state (pcbs s p) = PROCESS_READY"
    and "\<forall>p. p_state (pcbs s p) \<noteq> PROCESS_RUNNING"
    and "scheduler_switch_to x (scheduler_remove_from_ready (Some x) s) = (s', c)"
  shows "sched_inv s' xs \<and> current_process s' = Some x \<and> current_running s' \<and> same_static s s' \<and>
    c = (if current_process s = Some x then Returned else Switched (current_process s) x)"
proof -
  let ?r = "scheduler_remove_from_ready (Some x) s"
  have core: "same_core s ?r" by (rule remove_from_ready_core)
  have rep: "queue_rep ?r xs" using rq.front_unlink[OF assms(1)] by simp
  have d: "x \<notin> set xs" using rq.rep_distinct[OF assms(1)] by simp
  have s': "s' = upd_pcb x (\<lambda>c. c\<lparr>p_state := PROCESS_RUNNING\<rparr>) (?r\<lparr>current_process := Some x\<rparr>)"
    and c: "c = (if current_process ?r = Some x then Returned else Switched (current_process ?r) x)"
    using assms(4) by (auto simp: scheduler_switch_to_def Let_def split: if_splits)
  have "same_static s s'"
    using same_core_static[OF core] by (simp add: s' same_static_def pcb_core_def)
  then show ?thesis
    using rep d assms(2,3) c same_coreD[OF core]
    by (auto simp: s' sched_inv_def current_running_def)
qed

text \<open>The current process is running: it goes to the end of the queue, the first of the queue runs.\<close>

lemma yield_running:
  assumes inv: "sched_inv s (x # ys)" and k: "current_process s = Some k" "p_state (pcbs s k) = PROCESS_RUNNING"
  shows "\<exists>s'. scheduler_yield s = Some (s', if k = x then Returned else Switched (Some k) x) \<and> sched_inv s' (ys @ [k]) \<and>
    current_process s' = Some x \<and> same_static s s' \<and> current_running s'"
proof -
  have rep: "queue_rep s (x # ys)" and ready: "\<forall>p \<in> set (x # ys). p_state (pcbs s p) = PROCESS_READY"
    and run: "p_state (pcbs s p) = PROCESS_RUNNING \<Longrightarrow> current_process s = Some p" for p
    using inv by (auto simp: sched_inv_def)
  let ?s1 = "upd_pcb k (\<lambda>c. c\<lparr>p_state := PROCESS_READY\<rparr>) s"
  have "k \<notin> set (x # ys)" using ready k(2) by auto
  then obtain s2 where s2: "scheduler_add_to_ready (Some k) ?s1 = Some s2"
    "queue_rep s2 (x # ys @ [k])" "same_core ?s1 s2"
    using push_inv[of ?s1 "x # ys" k] rep by auto
  obtain s' c' where sw: "scheduler_switch_to x (scheduler_remove_from_ready (Some x) s2) = (s', c')" by fastforce
  have st: "same_static s s2" by (rule same_static_trans[OF _ same_core_static[OF s2(3)]]) simp
  have "\<forall>p \<in> set (x # ys @ [k]). p_state (pcbs s2 p) = PROCESS_READY" using ready by (simp add: same_coreD(1)[OF s2(3)])
  moreover have "p_state (pcbs s2 p) \<noteq> PROCESS_RUNNING" for p
    using run[of p] k(1) by (cases "p = k") (auto simp: same_coreD(1)[OF s2(3)])
  ultimately have "sched_inv s' (ys @ [k]) \<and> current_process s' = Some x \<and> current_running s' \<and> same_static s2 s' \<and>
    c' = (if current_process s2 = Some x then Returned else Switched (current_process s2) x)"
    using switch_to_inv[OF s2(2) _ _ sw] by blast
  moreover have "current_running s" using k by (auto simp: current_running_iff)
  then have "scheduler_yield s = Some (s', c')"
    using rq.rep_front[OF rep] rq.rep_front[OF s2(2)] s2(1) k(1) sw by (simp add: scheduler_yield_def)
  moreover have "current_process s2 = Some k" using k(1) same_coreD(3)[OF s2(3)] by simp
  moreover have "same_static s2 s' \<Longrightarrow> same_static s s'" by (rule same_static_trans[OF st])
  ultimately show ?thesis by auto
qed

lemma yield_spec:
  assumes inv: "sched_inv s xs"
    and rr: "rr_yield (current_process s) (current_running s) xs = (cur', xs', c)"
  shows "\<exists>s'. scheduler_yield s = Some (s', c) \<and> sched_inv s' xs' \<and> current_process s' = cur' \<and>
    same_static s s' \<and> (xs \<noteq> [] \<longrightarrow> current_running s')"
proof (cases xs)
  case Nil
  then show ?thesis using inv rr by (auto simp: scheduler_yield_def sched_inv_def queue_rep_def)
next
  case (Cons x ys)
  show ?thesis
  proof (cases "current_running s")
    case True
    then obtain k where k: "current_process s = Some k" "p_state (pcbs s k) = PROCESS_RUNNING"
      by (auto simp: current_running_iff)
    moreover have "cur' = Some x" "xs' = ys @ [k]" "c = (if k = x then Returned else Switched (Some k) x)"
      using rr Cons k(1) True by (auto split: if_splits)
    ultimately show ?thesis using yield_running[OF inv[unfolded Cons] k] by auto
  next
    case False
    have rep: "queue_rep s (x # ys)" and ready: "\<forall>p \<in> set (x # ys). p_state (pcbs s p) = PROCESS_READY"
      and run: "p_state (pcbs s p) = PROCESS_RUNNING \<Longrightarrow> current_process s = Some p" for p
      using inv Cons by (auto simp: sched_inv_def)
    obtain s' c' where sw: "scheduler_switch_to x (scheduler_remove_from_ready (Some x) s) = (s', c')" by fastforce
    have "\<forall>p. p_state (pcbs s p) \<noteq> PROCESS_RUNNING" using run False unfolding current_running_iff by blast
    moreover have "scheduler_yield s = Some (s', c')" using sw rq.rep_front[OF rep] False by (simp add: scheduler_yield_def)
    ultimately show ?thesis
      using switch_to_inv[OF rep ready _ sw] False rr Cons by (auto split: if_splits)
  qed
qed

text \<open>A yield that comes from no process only touches the state of the process it switches to.\<close>

lemma yield_state_other:
  assumes "scheduler_yield s = Some (s', Switched None x)" "p \<noteq> x"
  shows "p_state (pcbs s' p) = p_state (pcbs s p)"
proof -
  obtain s2 where s2: "ready_queue_head s2 = Some x" "current_process s2 = None"
    "scheduler_switch_to x (scheduler_remove_from_ready (Some x) s2) = (s', Switched None x)"
    "(if current_running s then scheduler_add_to_ready (current_process s)
        (upd_pcb (the (current_process s)) (\<lambda>c. c\<lparr>p_state := PROCESS_READY\<rparr>) s) else Some s) = Some s2"
    using assms(1) same_coreD(3)[OF remove_from_ready_core]
    by (auto simp: scheduler_yield_def scheduler_switch_to_def Let_def bind_eq_Some_conv split: if_splits option.splits)
  have "\<not> current_running s"
  proof
    assume r: "current_running s"
    then obtain k where k: "current_process s = Some k" by (auto simp: current_running_iff)
    then have "same_core (upd_pcb k (\<lambda>c. c\<lparr>p_state := PROCESS_READY\<rparr>) s) s2"
      using s2(4) r add_to_ready_core by auto
    then show False using same_coreD(3) k s2(2) by fastforce
  qed
  then have "s2 = s" using s2(4) by simp
  then show ?thesis
    using s2(3) assms(2) same_coreD(1)[OF remove_from_ready_core, of x s p]
    by (auto simp: scheduler_switch_to_def Let_def)
qed

section \<open>Every operation preserves the invariant\<close>

lemma yield_inv:
  assumes "sched_inv s xs"
  shows "\<exists>s' c xs'. scheduler_yield s = Some (s', c) \<and> sched_inv s' xs'"
  by (cases "rr_yield (current_process s) (current_running s) xs") (use yield_spec[OF assms] in blast)

lemma add_process_inv:
  assumes inv: "sched_inv s xs"
  shows "\<exists>s'. scheduler_add_process (Some p) s = Some s' \<and>
    sched_inv s' (if p_state (pcbs s p) = PROCESS_READY then xs else xs @ [p])"
proof -
  define t where "t = (if p_pid (pcbs s p) = 0 then upd_pcb p (\<lambda>c. c\<lparr>p_pid := sched_next_pid s\<rparr>)
              (s\<lparr>sched_next_pid := sched_next_pid s + 1\<rparr>) else s)"
  have i: "sched_inv t xs" using inv by (auto simp: t_def sched_inv_def queue_rep_def)
  have st: "p_state (pcbs t q) = p_state (pcbs s q)" for q by (simp add: t_def)
  have add: "scheduler_add_process (Some p) s = (if p_state (pcbs t p) = PROCESS_READY then Some t
    else Option.bind (scheduler_add_to_ready (Some p) t)
      (\<lambda>s. Some (upd_pcb p (\<lambda>c. c\<lparr>p_state := PROCESS_READY\<rparr>) s)))"
    unfolding scheduler_add_process_def t_def by (simp add: Let_def)
  show ?thesis
  proof (cases "p_state (pcbs s p) = PROCESS_READY")
    case True
    then show ?thesis using i by (simp add: add st)
  next
    case False
    have "p \<notin> set xs" using False inv by (auto simp: sched_inv_def)
    then obtain s2 where s2: "scheduler_add_to_ready (Some p) t = Some s2" "queue_rep s2 (xs @ [p])"
      "same_core t s2"
      using i push_inv[of t xs p] by (auto simp: sched_inv_def)
    have "sched_inv (upd_pcb p (\<lambda>c. c\<lparr>p_state := PROCESS_READY\<rparr>) s2) (xs @ [p])"
      using s2(2) i by (auto simp: sched_inv_def same_coreD(1,3)[OF s2(3)])
    then show ?thesis
      using s2(1) False by (simp add: add st)
  qed
qed

lemma unblock_inv:
  assumes inv: "sched_inv s xs"
  shows "\<exists>s'. scheduler_unblock_process (Some p) s = Some s' \<and>
    sched_inv s' (if p_state (pcbs s p) = PROCESS_BLOCKED then xs @ [p] else xs)"
proof (cases "p_state (pcbs s p) = PROCESS_BLOCKED")
  case True
  let ?s = "upd_pcb p (\<lambda>c. c\<lparr>p_state := PROCESS_READY\<rparr>) s"
  have "p \<notin> set xs" using True inv by (auto simp: sched_inv_def)
  then obtain s2 where s2: "scheduler_add_to_ready (Some p) ?s = Some s2" "queue_rep s2 (xs @ [p])"
    "same_core ?s s2"
    using push_inv[of ?s xs p] inv by (auto simp: sched_inv_def)
  have "sched_inv s2 (xs @ [p])"
    using s2(2) inv by (auto simp: sched_inv_def same_coreD(1,3)[OF s2(3)])
  then show ?thesis using s2(1) True by (simp add: scheduler_unblock_process_def)
qed (use inv in \<open>simp add: scheduler_unblock_process_def\<close>)

lemma remove_not_queued:
  assumes "queue_rep s xs" "p \<notin> set xs"
  shows "scheduler_remove_from_ready (Some p) s = s"
  using assms hd_opt_in[of xs p] by (auto simp: queue_rep_def scheduler_remove_from_ready_def)

lemma remove_process_inv:
  assumes inv: "sched_inv s xs"
  shows "\<exists>s' c xs'. scheduler_remove_process (Some p) s = Some (s', c) \<and> sched_inv s' xs' \<and>
    set xs' \<subseteq> set xs - {p} \<and> (current_process s \<noteq> Some p \<longrightarrow> xs' = remove1 p xs)"
proof -
  have rep: "queue_rep s xs" using inv by (simp add: sched_inv_def)
  have d: "distinct xs" by (rule rq.rep_distinct[OF rep])
  define t where "t = (if p_state (pcbs s p) = PROCESS_READY then scheduler_remove_from_ready (Some p) s else s)"
  have rem: "scheduler_remove_process (Some p) s = (if current_process t = Some p
      then scheduler_yield (upd_pcb p (\<lambda>c. c\<lparr>p_state := PROCESS_TERMINATED\<rparr>) (t\<lparr>current_process := None\<rparr>))
      else Some (t, Returned))"
    unfolding scheduler_remove_process_def t_def by (simp add: Let_def)
  have t: "queue_rep t (remove1 p xs)" "same_core s t"
  proof -
    show "queue_rep t (remove1 p xs)"
      using rq.rep_unlink[OF rep, of p] remove_not_queued[OF rep, of p] rep inv
      by (cases "p \<in> set xs") (auto simp: t_def sched_inv_def remove1_idem)
    show "same_core s t" using remove_from_ready_core[of s p] by (auto simp: t_def same_core_def)
  qed
  have ti: "sched_inv t (remove1 p xs)"
    using t(1) inv notin_set_remove1 by (fastforce simp: sched_inv_def same_coreD(1,3)[OF t(2)])
  show ?thesis
  proof (cases "current_process s = Some p")
    case False
    then have "scheduler_remove_process (Some p) s = Some (t, Returned)"
      using same_coreD(3)[OF t(2)] by (simp add: rem)
    then show ?thesis using ti d by auto
  next
    case True
    let ?u = "upd_pcb p (\<lambda>c. c\<lparr>p_state := PROCESS_TERMINATED\<rparr>) (t\<lparr>current_process := None\<rparr>)"
    have "current_process t = Some p" using True same_coreD(3)[OF t(2)] by simp
    then have run: "q = p" if "p_state (pcbs t q) = PROCESS_RUNNING" for q
      using sched_inv_running[OF ti that] by simp
    have "sched_inv ?u (remove1 p xs)"
    proof -
      have "\<not> p_state (pcbs ?u q) = PROCESS_RUNNING" for q
        using run[of q] by (cases "q = p") auto
      then show ?thesis using ti d by (simp add: sched_inv_def)
    qed
    moreover obtain cur' xs' c where
      rr: "rr_yield (current_process ?u) (current_running ?u) (remove1 p xs) = (cur', xs', c)"
      by (metis prod_cases3)
    moreover have "set xs' \<subseteq> set (remove1 p xs)"
      using rr by (cases "remove1 p xs") (auto simp: current_running_def)
    ultimately show ?thesis
      using yield_spec[of ?u "remove1 p xs" cur' xs' c] True d same_coreD(3)[OF t(2)]
      by (auto simp: rem)
  qed
qed

lemma block_current_inv:
  assumes inv: "sched_inv s xs" and c: "\<And>c. current_process s = Some c \<Longrightarrow> p_state (pcbs s c) \<noteq> PROCESS_READY"
  shows "\<exists>s' ctl xs'. scheduler_block_current s = Some (s', ctl) \<and> sched_inv s' xs'"
proof (cases "current_process s")
  case (Some k)
  then have "sched_inv (upd_pcb k (\<lambda>c. c\<lparr>p_state := PROCESS_BLOCKED\<rparr>) s) xs"
    using inv c by (auto simp: sched_inv_def)
  then show ?thesis using yield_inv Some by (simp add: scheduler_block_current_def)
qed (use inv in \<open>auto simp: scheduler_block_current_def\<close>)

lemma tick_inv:
  assumes inv: "sched_inv s xs"
  shows "\<exists>s' c xs'. scheduler_tick s = Some (s', c) \<and> sched_inv s' xs'"
proof -
  have i: "sched_inv (s\<lparr>scheduler_ticks := n\<rparr>) xs" for n
    using inv by (simp add: sched_inv_def queue_rep_def)
  have j: "sched_inv (upd_pcb k (\<lambda>c. c\<lparr>p_cpu_time := p_cpu_time c + 1\<rparr>) (s\<lparr>scheduler_ticks := n\<rparr>)) xs" for k n
    using inv by (auto simp: sched_inv_def queue_rep_def)
  have k: "\<exists>xs. sched_inv (upd_pcb k (\<lambda>c. c\<lparr>p_cpu_time := p_cpu_time c + 1\<rparr>) (s\<lparr>scheduler_ticks := n\<rparr>)) xs"
    for k n using j by blast
  show ?thesis
    using yield_inv[OF i, of "scheduler_ticks s + 1"] k
      yield_inv[OF j, of "the (current_process s)" "scheduler_ticks s + 1"]
    by (cases "current_process s") (simp_all add: scheduler_tick_def Let_def)
qed

section \<open>Lookup in the queue\<close>

lemma find_in_ready_spec:
  assumes "queue_rep s (ys @ zs)"
  shows "find_in_ready pid s (hd_opt zs) = Some (find (\<lambda>p. p_pid (pcbs s p) = pid) zs)"
  using assms
proof (induction zs arbitrary: ys)
  case Nil
  then show ?case by (simp add: find_in_ready.simps)
next
  case (Cons z zs)
  have "distinct (ys @ z # zs)" using Cons.prems by (simp add: queue_rep_def)
  then have "p_next (pcbs s z) = hd_opt zs"
    using Cons.prems nxt_append[of ys "z # zs" z] by (cases zs) (auto simp: queue_rep_def nxt_Cons)
  then show ?case using Cons.IH[of "ys @ [z]"] Cons.prems by (simp add: find_in_ready.simps[of _ _ "Some z"])
qed

lemma find_process_spec:
  assumes "sched_inv s xs"
  shows "scheduler_find_process pid s =
    Some (find (\<lambda>p. p_pid (pcbs s p) = pid) (case current_process s of None \<Rightarrow> xs | Some c \<Rightarrow> c # xs))"
  using find_in_ready_spec[of s "[]" xs pid] assms rq.rep_front[of s xs]
  by (auto simp: sched_inv_def scheduler_find_process_def split: option.splits)

section \<open>Sequences of operations\<close>

text \<open>
  The scheduler as a state machine: the calls the kernel makes, in any order, and the two places outside the scheduler that
  write its fields. \<open>slot\<close> is what \<^verbatim>\<open>process_create_internal\<close> does to a free slot of the process table. \<open>exit\<close> is \<^verbatim>\<open>process_exit\<close>: it
  writes \<^verbatim>\<open>PROCESS_TERMINATED\<close> into the entry and then calls \<^verbatim>\<open>scheduler_remove_process\<close>; the relation has it for the current process and
  for every process that is not READY. Left out is \<^verbatim>\<open>process_exit\<close> of a READY process, which \<^verbatim>\<open>process_kill\<close> can ask for: that one
  breaks the queue, as the theory of processes shows. Blocking is only ever requested by a process that is not already queued.
\<close>

definition terminated :: "nat \<Rightarrow> u32 \<Rightarrow> sched \<Rightarrow> sched" where
  "terminated p code s = upd_pcb p (\<lambda>c. c\<lparr>p_state := PROCESS_TERMINATED, p_exit_code := code\<rparr>) s"

inductive sched_reach :: "sched \<Rightarrow> bool" where
  init: "\<forall>p. pcbs s p = zero_pcb \<Longrightarrow> sched_reach (scheduler_init s)"
| slot: "sched_reach s \<Longrightarrow> p_state (pcbs s p) \<in> {PROCESS_CREATED, PROCESS_TERMINATED} \<Longrightarrow>
    p_state c = PROCESS_CREATED \<Longrightarrow> p_next c = None \<Longrightarrow> p_prev c = None \<Longrightarrow>
    sched_reach (upd_pcb p (\<lambda>_. c) s)"
| add: "sched_reach s \<Longrightarrow> scheduler_add_process p s = Some s' \<Longrightarrow> sched_reach s'"
| remove: "sched_reach s \<Longrightarrow> scheduler_remove_process p s = Some (s', ctl) \<Longrightarrow> sched_reach s'"
| exit: "sched_reach s \<Longrightarrow> p_state (pcbs s p) \<noteq> PROCESS_READY \<Longrightarrow>
    scheduler_remove_process (Some p) (terminated p code s) = Some (s', ctl) \<Longrightarrow> sched_reach s'"
| tick: "sched_reach s \<Longrightarrow> scheduler_tick s = Some (s', ctl) \<Longrightarrow> sched_reach s'"
| yield: "sched_reach s \<Longrightarrow> scheduler_yield s = Some (s', ctl) \<Longrightarrow> sched_reach s'"
| block: "sched_reach s \<Longrightarrow> current_process s = Some c \<Longrightarrow> p_state (pcbs s c) \<noteq> PROCESS_READY \<Longrightarrow>
    scheduler_block_current s = Some (s', ctl) \<Longrightarrow> sched_reach s'"
| unblock: "sched_reach s \<Longrightarrow> scheduler_unblock_process p s = Some s' \<Longrightarrow> sched_reach s'"
| priority: "sched_reach s \<Longrightarrow> sched_reach (scheduler_set_priority p n s)"

lemma terminated_inv:
  assumes "sched_inv s xs" "p_state (pcbs s p) \<noteq> PROCESS_READY"
  shows "sched_inv (terminated p code s) xs"
proof -
  have "p \<notin> set xs" using assms by (auto simp: sched_inv_def)
  then show ?thesis using assms(1) by (auto simp: sched_inv_def queue_rep_def terminated_def)
qed

lemma sched_reach_inv: "sched_reach s \<Longrightarrow> \<exists>xs. sched_inv s xs"
proof (induction rule: sched_reach.induct)
  case (init s)
  then have "sched_inv (scheduler_init s) []"
    by (simp add: sched_inv_def queue_rep_def scheduler_init_def zero_pcb_def)
  then show ?case by blast
next
  case (slot s p c)
  then obtain xs where inv: "sched_inv s xs" by blast
  then have "p \<notin> set xs" using slot.hyps(2) by (auto simp: sched_inv_def)
  then have "sched_inv (upd_pcb p (\<lambda>_. c) s) xs"
    using inv slot.hyps by (auto simp: sched_inv_def queue_rep_def)
  then show ?case by blast
next
  case (add s p s')
  then obtain xs where "sched_inv s xs" by blast
  with add_process_inv[OF this, of "the p"] add.hyps(2) show ?case
    by (cases p) (auto simp: scheduler_add_process_def)
next
  case (remove s p s' ctl)
  then obtain xs where "sched_inv s xs" by blast
  with remove_process_inv[OF this, of "the p"] remove.hyps(2) show ?case
    by (cases p) (auto simp: scheduler_remove_process_def)
next
  case (exit s p code s' ctl)
  then obtain xs where "sched_inv s xs" by blast
  from remove_process_inv[OF terminated_inv[OF this exit.hyps(2)], of p code] exit.hyps(3) show ?case by auto
next
  case (tick s s' ctl)
  then obtain xs where "sched_inv s xs" by blast
  from tick_inv[OF this] tick.hyps(2) show ?case by auto
next
  case (yield s s' ctl)
  then obtain xs where "sched_inv s xs" by blast
  from yield_inv[OF this] yield.hyps(2) show ?case by auto
next
  case (block s c s' ctl)
  then obtain xs where "sched_inv s xs" by blast
  from block_current_inv[OF this] block.hyps(2-4) show ?case by auto
next
  case (unblock s p s')
  then obtain xs where "sched_inv s xs" by blast
  with unblock_inv[OF this, of "the p"] unblock.hyps(2) show ?case
    by (cases p) (auto simp: scheduler_unblock_process_def)
next
  case (priority s p n)
  then show ?case by (cases p) (auto simp: scheduler_set_priority_def sched_inv_def queue_rep_def)
qed

text \<open>\<open>n\<close> consecutive yields, and \<open>n\<close> consecutive timer ticks, by whichever process is running.\<close>

primrec yields :: "nat \<Rightarrow> sched \<Rightarrow> sched option" where
  "yields 0 s = Some s"
| "yields (Suc n) s = Option.bind (yields n s) (\<lambda>t. map_option fst (scheduler_yield t))"

primrec ticks :: "nat \<Rightarrow> sched \<Rightarrow> sched option" where
  "ticks 0 s = Some s"
| "ticks (Suc n) s = Option.bind (ticks n s) (\<lambda>t. map_option fst (scheduler_tick t))"

text \<open>\<open>rr_state s xs\<close>: the process at the front of \<open>xs\<close> runs, the rest wait in this order.\<close>

definition rr_state :: "sched \<Rightarrow> nat list \<Rightarrow> bool" where
  "rr_state s xs \<longleftrightarrow> xs \<noteq> [] \<and> current_process s = Some (hd xs) \<and> current_running s \<and> sched_inv s (tl xs)"

lemma yield_rotates:
  assumes "rr_state s xs"
  shows "\<exists>s' ctl. scheduler_yield s = Some (s', ctl) \<and> rr_state s' (rotate1 xs) \<and> same_static s s'"
proof -
  obtain c ys where xs: "xs = c # ys" using assms by (cases xs) (auto simp: rr_state_def)
  obtain cur' xs' ctl where
    rr: "rr_yield (current_process s) (current_running s) ys = (cur', xs', ctl)" by (metis prod_cases3)
  have inv: "sched_inv s ys" and cur: "current_process s = Some c" "current_running s"
    using assms xs by (auto simp: rr_state_def)
  obtain s' where s': "scheduler_yield s = Some (s', ctl)" "sched_inv s' xs'" "current_process s' = cur'"
    "same_static s s'" "ys \<noteq> [] \<longrightarrow> current_running s'"
    using yield_spec[OF inv rr] by blast
  show ?thesis
  proof (cases ys)
    case Nil
    then have "ready_queue_head s = None" using inv by (simp add: sched_inv_def queue_rep_def)
    then show ?thesis using assms xs Nil by (simp add: scheduler_yield_def)
  next
    case (Cons d zs)
    then have "cur' = Some d" "xs' = zs @ [c]" using rr cur by auto
    then show ?thesis using s' xs Cons by (auto simp: rr_state_def)
  qed
qed

lemma rr_state_cpu_time:
  "rr_state (upd_pcb c (\<lambda>c. c\<lparr>p_cpu_time := n c\<rparr>) (s\<lparr>scheduler_ticks := t\<rparr>)) xs = rr_state s xs"
proof -
  let ?t = "upd_pcb c (\<lambda>c. c\<lparr>p_cpu_time := n c\<rparr>) (s\<lparr>scheduler_ticks := t\<rparr>)"
  have st: "p_state (pcbs ?t p) = p_state (pcbs s p)" "p_next (pcbs ?t p) = p_next (pcbs s p)"
    "p_prev (pcbs ?t p) = p_prev (pcbs s p)" for p by simp_all
  have "queue_rep ?t xs = queue_rep s xs" for xs unfolding queue_rep_def st by simp
  then have "sched_inv ?t xs = sched_inv s xs" for xs unfolding sched_inv_def st by simp
  moreover have "current_running ?t = current_running s" unfolding current_running_iff st by simp
  ultimately show ?thesis by (simp add: rr_state_def)
qed

lemma tick_rotates:
  assumes "rr_state s xs"
  shows "\<exists>s' ctl. scheduler_tick s = Some (s', ctl) \<and> scheduler_ticks s' = scheduler_ticks s + 1 \<and>
    rr_state s' (if (scheduler_ticks s + 1) mod 10 = 0 then rotate1 xs else xs)"
proof -
  have cur: "current_process s = Some (hd xs)" using assms by (simp add: rr_state_def)
  let ?s = "upd_pcb (hd xs) (\<lambda>c. c\<lparr>p_cpu_time := p_cpu_time c + 1\<rparr>) (s\<lparr>scheduler_ticks := scheduler_ticks s + 1\<rparr>)"
  have "rr_state ?s xs" using assms by (simp add: rr_state_cpu_time)
  then obtain s' ctl where "scheduler_yield ?s = Some (s', ctl)" "rr_state s' (rotate1 xs)" "same_static ?s s'"
    using yield_rotates by blast
  then show ?thesis
    using cur \<open>rr_state ?s xs\<close> same_staticD(3)[of ?s s']
    by (cases "(scheduler_ticks s + 1) mod 10 = 0") (simp_all add: scheduler_tick_def Let_def)
qed

lemma Suc_div_10: "Suc n div 10 = (if Suc n mod 10 = 0 then Suc (n div 10) else n div 10)"
  by (simp add: div_Suc)

lemma word_mod_10_iff: "(w :: u32) mod 10 = 0 \<longleftrightarrow> unat w mod 10 = 0"
  by (simp add: word32_eq_iff_unat unat_mod)

section \<open>A concrete run queue\<close>

definition demo_sched :: sched where
  "demo_sched = \<lparr>pcbs = (\<lambda>_. zero_pcb)
       (0 := zero_pcb\<lparr>p_pid := 1, p_state := PROCESS_RUNNING\<rparr>,
        1 := zero_pcb\<lparr>p_pid := 2, p_state := PROCESS_READY, p_next := Some 2\<rparr>,
        2 := zero_pcb\<lparr>p_pid := 3, p_state := PROCESS_READY, p_prev := Some 1\<rparr>),
     current_process = Some 0, ready_queue_head = Some 1, ready_queue_tail = Some 2,
     sched_next_pid = 1, scheduler_ticks = 0\<rparr>"

lemma demo_sched_inv: "sched_inv demo_sched [1, 2]"
  by (auto simp: demo_sched_def sched_inv_def queue_rep_def zero_pcb_def)

lemma demo_rr_state: "rr_state demo_sched [0, 1, 2]"
  using demo_sched_inv by (simp add: rr_state_def current_running_def demo_sched_def)

lemma demo_ticks: "scheduler_ticks demo_sched = 0"
  by (simp add: demo_sched_def)

text \<open>One process in the ready queue, two steps after boot.\<close>

lemma demo_reachable:
  obtains s where "sched_reach s" "sched_inv s [0]"
proof -
  let ?s = "scheduler_init (demo_sched\<lparr>pcbs := \<lambda>_. zero_pcb\<rparr>)"
  let ?c = "zero_pcb\<lparr>p_pid := 1, p_state := PROCESS_CREATED\<rparr>"
  have r0: "sched_reach ?s" by (rule sched_reach.init) simp
  have z: "pcbs ?s p = zero_pcb" for p by (simp add: scheduler_init_def)
  have r1: "sched_reach (upd_pcb 0 (\<lambda>_. ?c) ?s)"
    by (rule sched_reach.slot[OF r0]) (simp_all add: z, simp_all add: zero_pcb_def)
  obtain s where s: "scheduler_add_process (Some 0) (upd_pcb 0 (\<lambda>_. ?c) ?s) = Some s"
    by (simp add: scheduler_add_process_def scheduler_add_to_ready_def scheduler_init_def Let_def)
  have "sched_inv s [0]"
    using s by (auto simp: scheduler_add_process_def scheduler_add_to_ready_def scheduler_init_def Let_def sched_inv_def queue_rep_def
        zero_pcb_def split: if_splits)
  then show thesis using that sched_reach.add[OF r1 s] by blast
qed

section \<open>Properties\<close>

text \<open>
  C9: \<^verbatim>\<open>scheduler_yield\<close> refines the round-robin specification: from any state that satisfies the
  scheduler invariant it returns (no NULL dereference), the pointer structure it leaves represents the
  queue of the specification, the current process and the context switch are those of the
  specification, and nothing but links and states of control blocks changes.
\<close>

theorem yield_refines_round_robin:
  assumes "sched_inv s xs"
    and "rr_yield (current_process s) (current_running s) xs = (cur', xs', ctl)"
  shows "\<exists>s'. scheduler_yield s = Some (s', ctl) \<and> sched_inv s' xs' \<and> current_process s' = cur' \<and>
    same_static s s'"
  using yield_spec[OF assms] by blast

theorem yield_refines_round_robin_witness:
  "\<exists>s'. scheduler_yield demo_sched = Some (s', Switched (Some 0) 1) \<and> sched_inv s' [2, 0] \<and>
    current_process s' = Some 1 \<and> same_static demo_sched s'"
  by (rule yield_refines_round_robin[OF demo_sched_inv])
    (simp add: demo_sched_def current_running_def)

text \<open>
  C10: The scheduler keeps its queue. In every state that it reaches from boot by any sequence of its operations, of
  creations of processes in slots that are free, and of exits of processes that are not READY, the ready queue is a
  well-formed doubly linked list of READY processes and at most the current process is RUNNING, so that yielding, ticking
  and adding, unblocking or removing any process, and the exit of a process that is not READY, never dereference a NULL
  link, and looking a process up ends. The step of the kernel that is left out is \<^verbatim>\<open>process_kill\<close> of a process that waits in
  the ready queue: it leaves a TERMINATED process queued (lemma \<open>killed_process_runs_again\<close> of \<open>Process\<close>).
\<close>

theorem scheduler_reachable_safe:
  assumes "sched_reach s"
  shows "(\<exists>xs. sched_inv s xs) \<and> scheduler_yield s \<noteq> None \<and> scheduler_tick s \<noteq> None \<and>
    scheduler_add_process (Some p) s \<noteq> None \<and> scheduler_unblock_process (Some p) s \<noteq> None \<and>
    scheduler_remove_process (Some p) s \<noteq> None \<and> scheduler_find_process pid s \<noteq> None \<and>
    (p_state (pcbs s p) \<noteq> PROCESS_READY \<longrightarrow> scheduler_remove_process (Some p) (terminated p code s) \<noteq> None)"
proof -
  obtain xs where inv: "sched_inv s xs" using sched_reach_inv[OF assms] by blast
  have "scheduler_remove_process (Some p) (terminated p code s) \<noteq> None" if "p_state (pcbs s p) \<noteq> PROCESS_READY"
    using remove_process_inv[OF terminated_inv[OF inv that], of p code] by auto
  then show ?thesis
    using inv yield_inv[OF inv] tick_inv[OF inv] add_process_inv[OF inv, of p] unblock_inv[OF inv, of p]
      remove_process_inv[OF inv, of p] find_process_spec[OF inv, of pid] by auto
qed

theorem scheduler_reachable_safe_witness:
  "\<exists>s. sched_reach s \<and> sched_inv s [0] \<and> scheduler_yield s \<noteq> None \<and> scheduler_find_process 9 s \<noteq> None"
proof -
  obtain s where s: "sched_reach s" "sched_inv s [0]" by (rule demo_reachable)
  then show ?thesis using scheduler_reachable_safe[OF s(1), of 0 9 0] by blast
qed

text \<open>
  C14: Round robin is fair: if process \<open>hd xs\<close> runs and \<open>tl xs\<close> waits in the ready queue, then after \<open>n\<close>
  yields the queue has rotated \<open>n\<close> times, so each of the \<open>length xs\<close> processes runs once in any
  \<open>length xs\<close> consecutive turns.
\<close>

theorem yields_rotate:
  assumes "rr_state s xs"
  shows "\<exists>s'. yields n s = Some s' \<and> rr_state s' (rotate n xs) \<and>
    current_process s' = Some (xs ! (n mod length xs))"
proof -
  have "\<exists>s'. yields n s = Some s' \<and> rr_state s' (rotate n xs)"
  proof (induction n)
    case (Suc n)
    then obtain t where "yields n s = Some t" "rr_state t (rotate n xs)" by blast
    then show ?case using yield_rotates[of t "rotate n xs"] by auto
  qed (use assms in simp)
  then show ?thesis
    using assms by (auto simp: rr_state_def hd_rotate_conv_nth)
qed

theorem yields_rotate_witness:
  "\<exists>s'. yields 5 demo_sched = Some s' \<and> rr_state s' [2, 0, 1] \<and> current_process s' = Some 2"
  using yields_rotate[OF demo_rr_state, of 5] by (simp add: rotate_drop_take)

text \<open>
  C15: Time slicing: with the tick counter at \<open>t\<close>, \<open>n\<close> further timer ticks preempt the running process
  exactly at the ticks that are multiples of the quantum of 10, so the queue rotates
  \<open>(t + n) div 10 - t div 10\<close> times (as long as the 32-bit tick counter does not wrap).
\<close>

theorem ticks_time_slice:
  assumes "rr_state s xs" and "unat (scheduler_ticks s) + n < 2 ^ 32"
  shows "\<exists>s'. ticks n s = Some s' \<and> unat (scheduler_ticks s') = unat (scheduler_ticks s) + n \<and>
    rr_state s' (rotate ((unat (scheduler_ticks s) + n) div 10 - unat (scheduler_ticks s) div 10) xs)"
  using assms(2)
proof (induction n)
  case 0
  then show ?case using assms(1) by simp
next
  case (Suc n)
  let ?t = "unat (scheduler_ticks s)"
  from Suc obtain u where u: "ticks n s = Some u" "unat (scheduler_ticks u) = ?t + n"
    "rr_state u (rotate ((?t + n) div 10 - ?t div 10) xs)" by auto
  have t1: "unat (scheduler_ticks u + 1) = ?t + Suc n"
    using unat_add_small[of "scheduler_ticks u" 1] u(2) Suc.prems by simp
  have le: "?t div 10 \<le> (?t + n) div 10" by (simp add: div_le_mono)
  have "rotate ((?t + Suc n) div 10 - ?t div 10) xs =
    (if (?t + Suc n) mod 10 = 0 then rotate1 (rotate ((?t + n) div 10 - ?t div 10) xs)
     else rotate ((?t + n) div 10 - ?t div 10) xs)"
    using Suc_div_10[of "?t + n"] le by (simp add: Suc_diff_le)
  then show ?case
    using tick_rotates[OF u(3)] u(1) t1 by (auto simp: word_mod_10_iff)
qed

theorem ticks_time_slice_witness:
  "\<exists>s'. ticks 25 demo_sched = Some s' \<and> unat (scheduler_ticks s') = 25 \<and> rr_state s' [2, 0, 1]"
  using ticks_time_slice[OF demo_rr_state, of 25] by (simp add: demo_ticks rotate_drop_take)

text \<open>
  \<^verbatim>\<open>scheduler_find_process\<close> terminates and returns the first match among the current process and
  the ready queue; a process that is neither (a blocked one, for instance) is never found.
\<close>

lemma find_process_complete:
  assumes "sched_inv s xs"
  shows "scheduler_find_process pid s =
    Some (find (\<lambda>p. p_pid (pcbs s p) = pid) (case current_process s of None \<Rightarrow> xs | Some c \<Rightarrow> c # xs))"
  by (rule find_process_spec[OF assms])

lemma find_process_complete_witness:
  "scheduler_find_process 3 demo_sched = Some (Some 2) \<and> scheduler_find_process 9 demo_sched = Some None"
  using find_process_complete[OF demo_sched_inv, of 3] find_process_complete[OF demo_sched_inv, of 9]
  by (simp add: demo_sched_def)

end
