(* ===== verification/Capability.thy ===== *)
theory Capability
  imports Phys_Alloc
begin

text \<open>
  The capability manager of \<^verbatim>\<open>kernel/capability.c\<close>. A \<^verbatim>\<open>capability_t\<close> is a C structure at the start of
  a page of its own, so the model keeps it in the byte memory at the offsets of the structure, and
  a \<^verbatim>\<open>capability_t*\<close> is an address (0 is NULL). What the code takes from other modules is an argument:
  the identifier of the current process (\<open>None\<close> when there is none) for \<^verbatim>\<open>scheduler_get_current()->pid\<close>,
  and the tick count for \<^verbatim>\<open>hal_timer_get_ticks()\<close>.
\<close>

section \<open>State and structure layout\<close>

definition MAX_CAPS :: nat where "MAX_CAPS = 1024"

record caps =
  capabilities :: "u32 list"
  capability_count :: u32
  next_cap_id :: u32

definition cap_id :: "memory \<Rightarrow> u32 \<Rightarrow> u32" where "cap_id m p = load32 m p"
definition owner_pid :: "memory \<Rightarrow> u32 \<Rightarrow> u32" where "owner_pid m p = load32 m (p + 4)"
definition cap_type :: "memory \<Rightarrow> u32 \<Rightarrow> u32" where "cap_type m p = load32 m (p + 8)"
definition permissions :: "memory \<Rightarrow> u32 \<Rightarrow> u32" where "permissions m p = load32 m (p + 12)"
definition resource_id :: "memory \<Rightarrow> u32 \<Rightarrow> u32" where "resource_id m p = load32 m (p + 16)"
definition expiration_time :: "memory \<Rightarrow> u32 \<Rightarrow> u32" where "expiration_time m p = load32 m (p + 20)"
definition cap_signature :: "memory \<Rightarrow> u32 \<Rightarrow> u32" where "cap_signature m p = load32 m (p + 24)"

abbreviation CAP_SIZE :: nat where "CAP_SIZE \<equiv> 40"

section \<open>The code\<close>

definition cap_checksum :: "memory \<Rightarrow> u32 \<Rightarrow> u32" where
  "cap_checksum m cap = cap_id m cap XOR owner_pid m cap XOR cap_type m cap XOR permissions m cap
     XOR resource_id m cap XOR expiration_time m cap"

definition capability_verify_signature :: "memory \<Rightarrow> u32 \<Rightarrow> bool" where
  "capability_verify_signature m cap =
     (if cap = 0 then False else cap_checksum m cap = cap_signature m cap)"

definition capability_generate_signature :: "u32 \<Rightarrow> memory \<Rightarrow> memory" where
  "capability_generate_signature cap m =
     (if cap = 0 then m else store32 m (cap + 24) (cap_checksum m cap))"

definition capability_init :: "caps \<Rightarrow> caps" where
  "capability_init c = c\<lparr>capabilities := replicate MAX_CAPS 0, capability_count := 0, next_cap_id := 1\<rparr>"

definition capability_create ::
  "u32 \<Rightarrow> u32 \<Rightarrow> u32 \<Rightarrow> caps \<Rightarrow> mm \<Rightarrow> (u32 \<times> caps \<times> mm) option" where
  "capability_create owner ty perms c s =
     (if capability_count c \<ge> of_nat MAX_CAPS then Some (0, c, s)
      else case memory_alloc_pages 1 s of
        None \<Rightarrow> None
      | Some (cap, s) \<Rightarrow>
          if cap = 0 then Some (0, c, s)
          else
            let m = store32 (mem s) cap (next_cap_id c);
                c = c\<lparr>next_cap_id := next_cap_id c + 1\<rparr>;
                m = store32 m (cap + 4) owner;
                m = store32 m (cap + 8) ty;
                m = store32 m (cap + 12) perms;
                m = store32 m (cap + 16) 0;
                m = store32 m (cap + 20) 0;
                m = capability_generate_signature cap m;
                c = (case find (\<lambda>i. capabilities c ! i = 0) [0..<MAX_CAPS] of
                       None \<Rightarrow> c
                     | Some i \<Rightarrow> c\<lparr>capabilities := (capabilities c)[i := cap],
                                   capability_count := capability_count c + 1\<rparr>)
            in Some (cap, c, s\<lparr>mem := m\<rparr>))"

text \<open>The conditions of the loop body of \<^verbatim>\<open>capability_check\<close>, for one entry.\<close>

definition cap_permits :: "u32 \<Rightarrow> u32 \<Rightarrow> u32 \<Rightarrow> u32 \<Rightarrow> memory \<Rightarrow> u32 \<Rightarrow> bool" where
  "cap_permits pid ty perms now m cap \<longleftrightarrow> cap \<noteq> 0 \<and>
     owner_pid m cap = pid \<and> cap_type m cap = ty \<and>
     permissions m cap AND perms = perms \<and>
     (expiration_time m cap = 0 \<or> expiration_time m cap > now) \<and>
     capability_verify_signature m cap"

fun check_loop :: "u32 \<Rightarrow> u32 \<Rightarrow> u32 \<Rightarrow> u32 \<Rightarrow> memory \<Rightarrow> u32 list \<Rightarrow> status_t" where
  "check_loop pid ty perms now m [] = STATUS_PERMISSION_DENIED"
| "check_loop pid ty perms now m (cap # r) =
     (if cap_permits pid ty perms now m cap then STATUS_SUCCESS
      else check_loop pid ty perms now m r)"

definition capability_check :: "u32 \<Rightarrow> u32 \<Rightarrow> u32 \<Rightarrow> u32 \<Rightarrow> caps \<Rightarrow> memory \<Rightarrow> status_t" where
  "capability_check pid ty perms now c m = check_loop pid ty perms now m (capabilities c)"

definition capability_destroy :: "u32 \<Rightarrow> caps \<Rightarrow> mm \<Rightarrow> (caps \<times> mm) option" where
  "capability_destroy cap c s =
     (if cap = 0 then Some (c, s)
      else
        let c = (case find (\<lambda>i. capabilities c ! i = cap) [0..<MAX_CAPS] of
                   None \<Rightarrow> c
                 | Some i \<Rightarrow> c\<lparr>capabilities := (capabilities c)[i := 0],
                               capability_count := capability_count c - 1\<rparr>)
        in map_option (Pair c) (memory_free_pages cap 1 s))"

definition capability_transfer :: "u32 \<Rightarrow> u32 \<Rightarrow> u32 option \<Rightarrow> memory \<Rightarrow> status_t \<times> memory" where
  "capability_transfer cap new_owner_pid current m =
     (if cap = 0 then (STATUS_INVALID_PARAM, m)
      else if current = None \<or> owner_pid m cap \<noteq> the current then (STATUS_PERMISSION_DENIED, m)
      else if permissions m cap AND PERM_TRANSFER = 0 then (STATUS_PERMISSION_DENIED, m)
      else (STATUS_SUCCESS,
            capability_generate_signature cap (store32 m (cap + 4) new_owner_pid)))"

definition capability_grant ::
  "u32 \<Rightarrow> u32 \<Rightarrow> u32 \<Rightarrow> u32 \<Rightarrow> u32 option \<Rightarrow> caps \<Rightarrow> mm \<Rightarrow> (status_t \<times> caps \<times> mm) option" where
  "capability_grant pid ty perms resource current c s =
     (case current of
        None \<Rightarrow> Some (STATUS_PERMISSION_DENIED, c, s)
      | Some cur \<Rightarrow>
          if cur \<noteq> 0 then Some (STATUS_PERMISSION_DENIED, c, s)
          else (case capability_create pid ty perms c s of
                  None \<Rightarrow> None
                | Some (cap, c, s) \<Rightarrow>
                    if cap = 0 then Some (STATUS_OUT_OF_MEMORY, c, s)
                    else Some (STATUS_SUCCESS, c, s\<lparr>mem := store32 (mem s) (cap + 16) resource\<rparr>)))"

text \<open>
  The loop that \<^verbatim>\<open>capability_revoke\<close> and \<^verbatim>\<open>capability_cleanup_expired\<close> share: destroy every entry of the
  table that satisfies a test on the structure.
\<close>

definition destroy_matching :: "(memory \<Rightarrow> u32 \<Rightarrow> bool) \<Rightarrow> caps \<Rightarrow> mm \<Rightarrow> (caps \<times> mm) option" where
  "destroy_matching P c s =
     for_each (\<lambda>i (c, s).
       let cap = capabilities c ! i in
       if cap \<noteq> 0 \<and> P (mem s) cap then capability_destroy cap c s else Some (c, s))
     [0..<MAX_CAPS] (c, s)"

definition capability_revoke ::
  "u32 \<Rightarrow> u32 \<Rightarrow> u32 \<Rightarrow> u32 option \<Rightarrow> caps \<Rightarrow> mm \<Rightarrow> (status_t \<times> caps \<times> mm) option" where
  "capability_revoke pid ty resource current c s =
     (case current of
        None \<Rightarrow> Some (STATUS_PERMISSION_DENIED, c, s)
      | Some cur \<Rightarrow>
          if cur \<noteq> 0 then Some (STATUS_PERMISSION_DENIED, c, s)
          else map_option (Pair STATUS_SUCCESS)
            (destroy_matching (\<lambda>m cap. owner_pid m cap = pid \<and> cap_type m cap = ty \<and>
               (resource = 0 \<or> resource_id m cap = resource)) c s))"

definition capability_find_by_id :: "u32 \<Rightarrow> caps \<Rightarrow> memory \<Rightarrow> u32" where
  "capability_find_by_id i c m =
     (case find (\<lambda>cap. cap \<noteq> 0 \<and> cap_id m cap = i) (capabilities c) of
        None \<Rightarrow> 0 | Some cap \<Rightarrow> cap)"

definition capability_get_by_id :: "u32 \<Rightarrow> caps \<Rightarrow> memory \<Rightarrow> u32" where
  "capability_get_by_id i c m = capability_find_by_id i c m"

text \<open>
  \<^verbatim>\<open>capability_list_process\<close> copies structures into the caller's array at \<open>buf\<close> (0: none) while
  fewer than \<^verbatim>\<open>*count\<close> were found, and stores the number found at \<open>cnt\<close>.
\<close>

fun list_loop :: "u32 \<Rightarrow> u32 \<Rightarrow> u32 \<Rightarrow> u32 list \<Rightarrow> u32 \<Rightarrow> memory \<Rightarrow> u32 \<times> memory" where
  "list_loop pid buf cnt [] found m = (found, m)"
| "list_loop pid buf cnt (cap # r) found m =
     (if cap \<noteq> 0 \<and> owner_pid m cap = pid
      then list_loop pid buf cnt r (found + 1)
             (if buf \<noteq> 0 \<and> found < load32 m cnt then memcpy m (buf + of_nat CAP_SIZE * found) cap CAP_SIZE else m)
      else list_loop pid buf cnt r found m)"

definition capability_list_process :: "u32 \<Rightarrow> u32 \<Rightarrow> u32 \<Rightarrow> caps \<Rightarrow> memory \<Rightarrow> status_t \<times> memory" where
  "capability_list_process pid buf cnt c m =
     (let (found, m) = list_loop pid buf cnt (capabilities c) 0 m
      in (STATUS_SUCCESS, if cnt \<noteq> 0 then store32 m cnt found else m))"

definition capability_set_expiration :: "u32 \<Rightarrow> u32 \<Rightarrow> u32 option \<Rightarrow> memory \<Rightarrow> status_t \<times> memory" where
  "capability_set_expiration cap time current m =
     (if cap = 0 then (STATUS_INVALID_PARAM, m)
      else if current = None \<or> owner_pid m cap \<noteq> the current then (STATUS_PERMISSION_DENIED, m)
      else (STATUS_SUCCESS, store32 m (cap + 20) time))"

definition capability_cleanup_expired :: "u32 \<Rightarrow> caps \<Rightarrow> mm \<Rightarrow> (caps \<times> mm) option" where
  "capability_cleanup_expired now c s =
     destroy_matching (\<lambda>m cap. expiration_time m cap > 0 \<and> expiration_time m cap \<le> now) c s"

definition capability_get_stats :: "caps \<Rightarrow> u32 \<times> u32" where
  "capability_get_stats c = (capability_count c, 16)"

section \<open>Invariant\<close>

text \<open>
  The non-NULL entries of the table are distinct used pages, and the counter counts them.
\<close>

definition live :: "caps \<Rightarrow> u32 set" where
  "live c = set (capabilities c) - {0}"

definition live_slots :: "caps \<Rightarrow> nat set" where
  "live_slots c = {i. i < MAX_CAPS \<and> capabilities c ! i \<noteq> 0}"

definition caps_inv :: "caps \<Rightarrow> mm \<Rightarrow> bool" where
  "caps_inv c s \<longleftrightarrow> mm_inv s \<and> length (capabilities c) = MAX_CAPS \<and>
     (\<forall>i \<in> live_slots c. \<forall>j < MAX_CAPS. capabilities c ! i = capabilities c ! j \<longrightarrow> i = j) \<and>
     unat (capability_count c) = card (live_slots c) \<and>
     (\<forall>p \<in> live c. page_aligned p \<and> unat p div 4096 \<in> used s)"

text \<open>The seven words of a capability, and that they depend on its page alone.\<close>

definition cap_fields :: "memory \<Rightarrow> u32 \<Rightarrow> u32 \<times> u32 \<times> u32 \<times> u32 \<times> u32 \<times> u32 \<times> u32" where
  "cap_fields m p = (cap_id m p, owner_pid m p, cap_type m p, permissions m p, resource_id m p,
     expiration_time m p, cap_signature m p)"

lemmas cap_field_defs = cap_id_def owner_pid_def cap_type_def permissions_def resource_id_def
  expiration_time_def cap_signature_def

lemma cap_fields_page_cong:
  assumes "page_aligned p" "\<And>a. unat a div 4096 = unat p div 4096 \<Longrightarrow> m a = m' a"
  shows "cap_fields m p = cap_fields m' p"
  using load32_other_page[OF assms(1) _ _ assms(2)] load32_other_page[of p 0 m m', OF assms(1) _ _ assms(2)]
  by (simp add: cap_fields_def cap_field_defs)

lemma cap_permits_fields:
  "cap_fields m p = cap_fields m' p \<Longrightarrow> cap_permits pid ty perms now m p = cap_permits pid ty perms now m' p"
  by (simp add: cap_fields_def cap_permits_def capability_verify_signature_def cap_checksum_def)

lemma finite_live_slots [simp]: "finite (live_slots c)"
  by (simp add: live_slots_def)

lemma live_iff: "length (capabilities c) = MAX_CAPS \<Longrightarrow> p \<in> live c \<longleftrightarrow> (\<exists>i \<in> live_slots c. capabilities c ! i = p)"
  by (auto simp: live_def live_slots_def in_set_conv_nth)

lemma live_image: "length (capabilities c) = MAX_CAPS \<Longrightarrow> live c = (\<lambda>i. capabilities c ! i) ` live_slots c"
  by (auto simp: live_iff)

lemma check_loop_iff:
  "check_loop pid ty perms now m xs =
     (if \<exists>cap \<in> set xs. cap_permits pid ty perms now m cap then STATUS_SUCCESS else STATUS_PERMISSION_DENIED)"
  by (induction xs) auto

lemma capability_check_iff:
  "capability_check pid ty perms now c m =
     (if \<exists>cap \<in> live c. cap_permits pid ty perms now m cap then STATUS_SUCCESS else STATUS_PERMISSION_DENIED)"
  by (auto simp: capability_check_def check_loop_iff live_def cap_permits_def)

section \<open>Creation\<close>

lemma caps_invD:
  assumes "caps_inv c s"
  shows "mm_inv s" "length (capabilities c) = MAX_CAPS"
    "i \<in> live_slots c \<Longrightarrow> j < MAX_CAPS \<Longrightarrow> capabilities c ! i = capabilities c ! j \<Longrightarrow> i = j"
    "unat (capability_count c) = card (live_slots c)"
    "p \<in> live c \<Longrightarrow> page_aligned p" "p \<in> live c \<Longrightarrow> unat p div 4096 \<in> used s"
  using assms unfolding caps_inv_def by blast+

lemma live_slots_bound: "card (live_slots c) \<le> MAX_CAPS"
  using card_mono[of "{..<MAX_CAPS}" "live_slots c"] by (auto simp: live_slots_def)

lemma free_slot_exists:
  assumes "caps_inv c s" "\<not> capability_count c \<ge> of_nat MAX_CAPS"
  obtains i where "find (\<lambda>i. capabilities c ! i = 0) [0..<MAX_CAPS] = Some i" "i < MAX_CAPS" "capabilities c ! i = 0"
proof -
  have "unat (of_nat MAX_CAPS :: u32) = MAX_CAPS" by (simp add: MAX_CAPS_def)
  then have "card (live_slots c) < MAX_CAPS"
    using assms(2) caps_invD(4)[OF assms(1)] by (simp add: word_le_nat_alt)
  then have "live_slots c \<noteq> {..<MAX_CAPS}" by (metis card_lessThan less_irrefl)
  then have "find (\<lambda>i. capabilities c ! i = 0) [0..<MAX_CAPS] \<noteq> None"
    unfolding find_upt_None_iff live_slots_def by blast
  then show thesis using that by (auto simp: find_upt_Some_iff)
qed

lemma set_live_slot:
  assumes "length (capabilities c) = MAX_CAPS" "i < MAX_CAPS" "capabilities c ! i = 0" "p \<noteq> 0"
  shows "live_slots (c\<lparr>capabilities := (capabilities c)[i := p]\<rparr>) = insert i (live_slots c)"
    and "live (c\<lparr>capabilities := (capabilities c)[i := p]\<rparr>) = insert p (live c)"
    and "i \<notin> live_slots c"
proof -
  show *: "live_slots (c\<lparr>capabilities := (capabilities c)[i := p]\<rparr>) = insert i (live_slots c)"
    using assms by (auto simp: live_slots_def nth_list_update)
  show "i \<notin> live_slots c" using assms by (simp add: live_slots_def)
  show "live (c\<lparr>capabilities := (capabilities c)[i := p]\<rparr>) = insert p (live c)"
    using assms by (auto simp: set_eq_iff live_iff * nth_list_update live_slots_def)
qed

text \<open>The words that \<^verbatim>\<open>capability_create\<close> writes, and the signature over them.\<close>

definition init_cap :: "memory \<Rightarrow> u32 \<Rightarrow> u32 \<Rightarrow> u32 \<Rightarrow> u32 \<Rightarrow> u32 \<Rightarrow> memory" where
  "init_cap m cap i owner ty perms = capability_generate_signature cap
     (store32 (store32 (store32 (store32 (store32 (store32 m cap i) (cap + 4) owner) (cap + 8) ty)
        (cap + 12) perms) (cap + 16) 0) (cap + 20) 0)"

lemma init_cap_fields:
  assumes "page_aligned cap" "cap \<noteq> 0"
  shows "cap_fields (init_cap m cap i owner ty perms) cap =
    (i, owner, ty, perms, 0, 0, i XOR owner XOR ty XOR perms)"
  using assms
  by (simp add: init_cap_def capability_generate_signature_def cap_fields_def cap_checksum_def
      cap_field_defs load32_store32_struct)

lemma init_cap_other:
  assumes "page_aligned cap" "cap \<noteq> 0" "unat a div 4096 \<noteq> unat cap div 4096"
  shows "init_cap m cap i owner ty perms a = m a"
  using assms
  by (simp add: init_cap_def capability_generate_signature_def store32_other_page store32_page0_other)

lemma capability_create_cases:
  assumes inv: "caps_inv c s"
  obtains (fail) "capability_create owner ty perms c s = Some (0, c, s)"
    | (success) cap i s1 where "cap \<noteq> 0" "page_aligned cap" "unat cap div 4096 \<notin> used s"
      "i < MAX_CAPS" "capabilities c ! i = 0" "mm_inv s1" "used s1 = insert (unat cap div 4096) (used s)"
      "mem s1 = mem s"
      "capability_create owner ty perms c s = Some (cap,
        c\<lparr>capabilities := (capabilities c)[i := cap], capability_count := capability_count c + 1,
          next_cap_id := next_cap_id c + 1\<rparr>,
        s1\<lparr>mem := init_cap (mem s) cap (next_cap_id c) owner ty perms\<rparr>)"
proof (cases "capability_count c \<ge> of_nat MAX_CAPS")
  case True
  then show thesis by (intro fail) (simp add: capability_create_def)
next
  case False
  obtain i where i: "find (\<lambda>i. capabilities c ! i = 0) [0..<MAX_CAPS] = Some i" "i < MAX_CAPS" "capabilities c ! i = 0"
    using free_slot_exists[OF inv False] by blast
  obtain cap s1 where al: "memory_alloc_pages 1 s = Some (cap, s1)"
    using pa.alloc_total[OF caps_invD(1)[OF inv], of 1] by auto
  show thesis
  proof (cases "cap = 0")
    case True
    then have "s1 = s" using pa.alloc_null[OF caps_invD(1)[OF inv], of 1 s1] al by simp
    then show thesis using False True al by (intro fail) (simp add: capability_create_def)
  next
    case cap: False
    have b: "page_aligned cap \<and> frames cap 1 \<inter> used s = {} \<and> used s1 = used s \<union> frames cap 1 \<and> mm_inv s1 \<and>
      mm_content s1 = mm_content s"
      using pa.alloc_block[OF caps_invD(1)[OF inv] _ _ al cap] by simp
    have "capability_create owner ty perms c s = Some (cap,
        c\<lparr>capabilities := (capabilities c)[i := cap], capability_count := capability_count c + 1,
          next_cap_id := next_cap_id c + 1\<rparr>,
        s1\<lparr>mem := init_cap (mem s) cap (next_cap_id c) owner ty perms\<rparr>)"
      using False al cap i(1) b by (simp add: capability_create_def init_cap_def mm_content_def Let_def)
    then show thesis
      using b cap i(2,3) by (intro success[of cap i s1]) (auto simp: frames_one mm_content_def)
  qed
qed

lemma capability_create_spec:
  assumes inv: "caps_inv c s" and cr: "capability_create owner ty perms c s = Some (cap, c', s')" and nz: "cap \<noteq> 0"
  shows "caps_inv c' s'" "live c' = insert cap (live c)" "cap \<notin> live c" "page_aligned cap"
    "unat cap div 4096 \<notin> used s" "used s' = insert (unat cap div 4096) (used s)"
    "cap_fields (mem s') cap = (next_cap_id c, owner, ty, perms, 0, 0, next_cap_id c XOR owner XOR ty XOR perms)"
    "\<And>p. p \<in> live c \<Longrightarrow> cap_fields (mem s') p = cap_fields (mem s) p"
proof -
  obtain i s1 where pg: "page_aligned cap" "unat cap div 4096 \<notin> used s" and i: "i < MAX_CAPS" "capabilities c ! i = 0"
    and s1: "mm_inv s1" "used s1 = insert (unat cap div 4096) (used s)" "mem s1 = mem s"
    and c': "c' = c\<lparr>capabilities := (capabilities c)[i := cap], capability_count := capability_count c + 1,
          next_cap_id := next_cap_id c + 1\<rparr>"
    and s': "s' = s1\<lparr>mem := init_cap (mem s) cap (next_cap_id c) owner ty perms\<rparr>"
    using inv cr nz by (cases rule: capability_create_cases[of c s owner ty perms]) auto
  let ?d = "c\<lparr>capabilities := (capabilities c)[i := cap]\<rparr>"
  have slots: "live_slots c' = insert i (live_slots c)" and i_new: "i \<notin> live_slots c"
    and lv: "live c' = insert cap (live c)"
    using set_live_slot[OF caps_invD(2)[OF inv] i nz] by (simp_all add: c' live_slots_def live_def)
  show "live c' = insert cap (live c)" by (rule lv)
  show new: "cap \<notin> live c" using caps_invD(6)[OF inv] pg(2) by blast
  show "page_aligned cap" "unat cap div 4096 \<notin> used s" by (rule pg)+
  show u: "used s' = insert (unat cap div 4096) (used s)" using s1(2) by (simp add: s' used_def)
  show "cap_fields (mem s') cap = (next_cap_id c, owner, ty, perms, 0, 0, next_cap_id c XOR owner XOR ty XOR perms)"
    using init_cap_fields[OF pg(1) nz] by (simp add: s')
  show "cap_fields (mem s') p = cap_fields (mem s) p" if "p \<in> live c" for p
  proof (rule cap_fields_page_cong[OF caps_invD(5)[OF inv that]])
    fix a :: u32
    assume "unat a div 4096 = unat p div 4096"
    then have "unat a div 4096 \<noteq> unat cap div 4096" using caps_invD(6)[OF inv that] pg(2) by metis
    then show "mem s' a = mem s a" using pg(1) nz by (simp add: s' init_cap_other)
  qed
  have "unat (capability_count c) + 1 < 2 ^ 32"
    using caps_invD(4)[OF inv] live_slots_bound[of c] by (simp add: MAX_CAPS_def)
  then have cnt: "unat (capability_count c') = card (live_slots c')"
    using caps_invD(4)[OF inv] i_new by (simp add: c' slots[unfolded c'] unat_add_small)
  have inj: "a = b" if "a \<in> live_slots c'" "b < MAX_CAPS" "capabilities c' ! a = capabilities c' ! b" for a b
  proof -
    have L: "capabilities c ! j \<noteq> cap" if "j < MAX_CAPS" for j
      using that new nz caps_invD(2)[OF inv] by (auto simp: live_def)
    show ?thesis
      using that caps_invD(3)[OF inv, of a b] i caps_invD(2)[OF inv] L[of a] L[of b]
      by (auto simp: slots c' nth_list_update live_slots_def split: if_splits)
  qed
  have "mm_inv s'" using s1(1) by (simp add: s' mm_inv_def used_def)
  moreover have "\<forall>p \<in> live c'. page_aligned p \<and> unat p div 4096 \<in> used s'"
    using caps_invD(5,6)[OF inv] pg lv u by auto
  ultimately show "caps_inv c' s'"
    unfolding caps_inv_def using cnt inj caps_invD(2)[OF inv] by (simp add: c')
qed

section \<open>Destruction\<close>

lemma clear_slot_inv:
  assumes inv: "caps_inv c s" and i: "i \<in> live_slots c" and s': "used s' = used s - {unat (capabilities c ! i) div 4096}" "mm_inv s'"
  shows "caps_inv (c\<lparr>capabilities := (capabilities c)[i := 0], capability_count := capability_count c - 1\<rparr>) s'" (is "caps_inv ?c s'")
proof -
  let ?p = "capabilities c ! i"
  have L: "length (capabilities c) = MAX_CAPS" by (rule caps_invD(2)[OF inv])
  have il: "i < MAX_CAPS" "?p \<noteq> 0" using i by (auto simp: live_slots_def)
  have pg: "page_aligned ?p" using caps_invD(5)[OF inv] i L by (auto simp: live_iff)
  have sl: "live_slots ?c = live_slots c - {i}"
    using L il by (auto simp: live_slots_def nth_list_update split: if_splits)
  have "live ?c = (\<lambda>j. capabilities ?c ! j) ` (live_slots c - {i})" using L live_image[of ?c] sl by simp
  also have "\<dots> = (\<lambda>j. capabilities c ! j) ` (live_slots c - {i})" by (rule image_cong) auto
  also have "\<dots> = live c - {?p}"
    using caps_invD(3)[OF inv] il(1) i by (auto simp: live_image[OF L] live_slots_def)
  finally have lv: "live ?c = live c - {?p}" .
  have "0 < card (live_slots c)" using i by (auto simp: card_gt_0_iff)
  then have "1 \<le> capability_count c" using caps_invD(4)[OF inv] by (simp add: word_le_nat_alt)
  then have cnt: "unat (capability_count c - 1) = card (live_slots c) - 1" using caps_invD(4)[OF inv] by (simp add: unat_sub)
  have fr: "unat q div 4096 \<noteq> unat ?p div 4096" if "q \<in> live c" "q \<noteq> ?p" for q
    using that caps_invD(5)[OF inv that(1)] pg by (auto simp: page_aligned_def word32_eq_iff_unat)
  have inj: "a = b" if "a \<in> live_slots ?c" "b < MAX_CAPS" "capabilities ?c ! a = capabilities ?c ! b" for a b
  proof -
    have "a \<in> live_slots c" "a \<noteq> i" using that(1) sl by auto
    moreover have "capabilities c ! a \<noteq> 0" using \<open>a \<in> live_slots c\<close> by (simp add: live_slots_def)
    ultimately show ?thesis
      using that(2,3) caps_invD(3)[OF inv, of a b] L by (cases "b = i") auto
  qed
  show ?thesis unfolding caps_inv_def lv using s' L cnt fr caps_invD(5,6)[OF inv] inj i by (auto simp: sl)
qed

lemma destroy_slot:
  assumes inv: "caps_inv c s" and i: "i \<in> live_slots c"
  shows "\<exists>s'. capability_destroy (capabilities c ! i) c s =
      Some (c\<lparr>capabilities := (capabilities c)[i := 0], capability_count := capability_count c - 1\<rparr>, s') \<and>
    caps_inv (c\<lparr>capabilities := (capabilities c)[i := 0], capability_count := capability_count c - 1\<rparr>) s' \<and>
    mem s' = mem s \<and> used s' = used s - {unat (capabilities c ! i) div 4096}"
proof -
  let ?p = "capabilities c ! i"
  have L: "length (capabilities c) = MAX_CAPS" by (rule caps_invD(2)[OF inv])
  have il: "i < MAX_CAPS" "?p \<noteq> 0" using i by (auto simp: live_slots_def)
  have pl: "?p \<in> live c" using i L by (auto simp: live_iff)
  have uniq: "capabilities c ! j \<noteq> ?p" if "j < i" for j
    using caps_invD(3)[OF inv i, of j] that il(1) by auto
  have slot: "find (\<lambda>j. capabilities c ! j = ?p) [0..<MAX_CAPS] = Some i"
    unfolding find_upt_Some_iff using il uniq by auto
  have pg: "page_aligned ?p" "unat ?p div 4096 \<in> used s" using caps_invD(5,6)[OF inv pl] by auto
  have "wf_bitmap (page_bitmap s)" using caps_invD(1)[OF inv] by (simp add: mm_inv_def)
  from used_bound[OF this pg(2)] have b: "unat ?p div 4096 + unat (1 :: u32) \<le> 4096" by simp
  have "unat ?p \<noteq> 0" using il(2) by (simp add: unat_eq_zero)
  then have "0 < unat ?p div 4096" using page_alignedE[OF pg(1)] by fastforce
  then obtain s' where s': "memory_free_pages ?p 1 s = Some s'" "used s' = used s - {unat ?p div 4096}" "mm_inv s'" "mem s' = mem s"
    using pa.release_block[OF caps_invD(1)[OF inv] _ b] by (auto simp: mm_content_def frames_one)
  have "capability_destroy ?p c s = Some (c\<lparr>capabilities := (capabilities c)[i := 0], capability_count := capability_count c - 1\<rparr>, s')"
    using il(2) slot s'(1) by (simp add: capability_destroy_def)
  then show ?thesis using clear_slot_inv[OF inv i s'(2,3)] s'(2,4) by blast
qed

text \<open>
  The destruction loop: it visits the slots in order, and since the entries are distinct each call
  of \<^verbatim>\<open>capability_destroy\<close> clears the slot the loop is at.
\<close>

text \<open>The state after the first \<open>n\<close> slots.\<close>

definition destroyed_below :: "(memory \<Rightarrow> u32 \<Rightarrow> bool) \<Rightarrow> caps \<Rightarrow> mm \<Rightarrow> nat \<Rightarrow> caps \<times> mm \<Rightarrow> bool" where
  "destroyed_below P c s n = (\<lambda>(d, u).
     let doomed = (\<lambda>j. capabilities c ! j \<noteq> 0 \<and> P (mem s) (capabilities c ! j)) in
     caps_inv d u \<and> mem u = mem s \<and>
     (\<forall>j < MAX_CAPS. capabilities d ! j = (if j < n \<and> doomed j then 0 else capabilities c ! j)) \<and>
     used u = used s - (\<lambda>p. unat p div 4096) ` (!) (capabilities c) ` {j. j < n \<and> j < MAX_CAPS \<and> doomed j})"

lemma destroy_next:
  assumes i: "i < MAX_CAPS" and before: "destroyed_below P c s i (d, u)"
  shows "\<exists>t. (if capabilities d ! i \<noteq> 0 \<and> P (mem u) (capabilities d ! i) then capability_destroy (capabilities d ! i) d u else Some (d, u)) = Some t \<and>
    destroyed_below P c s (Suc i) t"
proof -
  define Q where "Q j \<longleftrightarrow> capabilities c ! j \<noteq> 0 \<and> P (mem s) (capabilities c ! j)" for j
  have d: "caps_inv d u" "mem u = mem s"
    "\<And>j. j < MAX_CAPS \<Longrightarrow> capabilities d ! j = (if j < i \<and> Q j then 0 else capabilities c ! j)"
    "used u = used s - (\<lambda>p. unat p div 4096) ` (!) (capabilities c) ` {j. j < i \<and> j < MAX_CAPS \<and> Q j}"
    using before by (auto simp: destroyed_below_def Q_def)
  have di: "capabilities d ! i = capabilities c ! i" using d(3)[OF i] by simp
  have split: "{j. j < Suc i \<and> j < MAX_CAPS \<and> Q j} =
    (if Q i then insert i {j. j < i \<and> j < MAX_CAPS \<and> Q j} else {j. j < i \<and> j < MAX_CAPS \<and> Q j})"
    using i by (auto simp: less_Suc_eq)
  show ?thesis
  proof (cases "Q i")
    case False
    then have "destroyed_below P c s (Suc i) (d, u)" unfolding destroyed_below_def Q_def[symmetric] Let_def prod.case split
      using d by (auto simp: less_Suc_eq)
    then show ?thesis using False di d(2) by (auto simp: Q_def)
  next
    case True
    then have "i \<in> live_slots d" using i di by (simp add: live_slots_def Q_def)
    from destroy_slot[OF d(1) this] obtain u' where
      u': "capability_destroy (capabilities d ! i) d u =
        Some (d\<lparr>capabilities := (capabilities d)[i := 0], capability_count := capability_count d - 1\<rparr>, u')"
      "caps_inv (d\<lparr>capabilities := (capabilities d)[i := 0], capability_count := capability_count d - 1\<rparr>) u'"
      "mem u' = mem u" "used u' = used u - {unat (capabilities d ! i) div 4096}" by blast
    have "destroyed_below P c s (Suc i) (d\<lparr>capabilities := (capabilities d)[i := 0], capability_count := capability_count d - 1\<rparr>, u')"
      unfolding destroyed_below_def Q_def[symmetric] Let_def prod.case split
      using u'(2-4) d(2-4) True di caps_invD(2)[OF d(1)] i by (auto simp: nth_list_update less_Suc_eq)
    then show ?thesis using True di d(2) u'(1) by (auto simp: Q_def)
  qed
qed

lemma destroy_matching_spec:
  assumes inv: "caps_inv c s"
  shows "\<exists>c' s'. destroy_matching P c s = Some (c', s') \<and> caps_inv c' s' \<and> mem s' = mem s \<and>
    live c' = {p \<in> live c. \<not> P (mem s) p} \<and> used s' = used s - (\<lambda>p. unat p div 4096) ` {p \<in> live c. P (mem s) p}"
proof -
  let ?x = "capabilities c"
  define Q where "Q j \<longleftrightarrow> ?x ! j \<noteq> 0 \<and> P (mem s) (?x ! j)" for j
  let ?b = "\<lambda>i (c, s). let cap = capabilities c ! i in
       if cap \<noteq> 0 \<and> P (mem s) cap then capability_destroy cap c s else Some (c, s)"
  have "\<exists>t. for_each ?b [0..<MAX_CAPS] (c, s) = Some t \<and> destroyed_below P c s MAX_CAPS t"
  proof (rule for_each_upt_total[where P = "destroyed_below P c s"])
    show "destroyed_below P c s 0 (c, s)" using inv by (simp add: destroyed_below_def)
    show "\<exists>t'. ?b i t = Some t' \<and> destroyed_below P c s (Suc i) t'" if "i < MAX_CAPS" "destroyed_below P c s i t" for i t
      using destroy_next[OF that(1), of P c s "fst t" "snd t"] that(2) by (simp add: split_beta Let_def)
  qed simp
  then obtain c' s' where r: "destroy_matching P c s = Some (c', s')" and "destroyed_below P c s MAX_CAPS (c', s')"
    by (auto simp: destroy_matching_def)
  then have f: "caps_inv c' s'" "mem s' = mem s" "\<And>j. j < MAX_CAPS \<Longrightarrow> capabilities c' ! j = (if Q j then 0 else ?x ! j)"
    "used s' = used s - (\<lambda>p. unat p div 4096) ` (!) ?x ` {j. j < MAX_CAPS \<and> Q j}"
    by (auto simp: destroyed_below_def Q_def)
  have "live_slots c' = {j \<in> live_slots c. \<not> P (mem s) (?x ! j)}"
    using f(3) by (auto simp: live_slots_def Q_def split: if_splits)
  then have "live c' = {p \<in> live c. \<not> P (mem s) p}"
    using f(3) by (auto simp: live_image caps_invD(2)[OF inv] caps_invD(2)[OF f(1)] live_slots_def Q_def image_iff)
  moreover have "(!) ?x ` {j. j < MAX_CAPS \<and> Q j} = {p \<in> live c. P (mem s) p}"
    by (auto simp: live_image caps_invD(2)[OF inv] live_slots_def Q_def)
  ultimately show ?thesis using r f by auto
qed

section \<open>Writing one field\<close>

lemma xor_cancel_left [simp]: "a XOR b = a XOR c \<longleftrightarrow> b = (c :: u32)"
  by (metis xor.assoc xor.left_neutral xor_self_eq)

lemma xor_absorb [simp]: "a XOR b = a \<longleftrightarrow> b = (0 :: u32)"
  using xor_cancel_left[of a b 0] by simp

text \<open>Storing a word into one live capability leaves every other one alone.\<close>

lemma live_pages_differ:
  assumes inv: "caps_inv c s" and "p \<in> live c" "q \<in> live c" "p \<noteq> q"
  shows "unat q div 4096 \<noteq> unat p div 4096"
  using assms(4) caps_invD(5)[OF inv assms(2)] caps_invD(5)[OF inv assms(3)]
  by (auto simp: page_aligned_def word32_eq_iff_unat)

lemma cap_fields_store_other:
  assumes inv: "caps_inv c s" and "p \<in> live c" "q \<in> live c" "p \<noteq> q" "unat i < 4096" "unat i mod 4 = 0"
  shows "cap_fields (store32 m (p + i) v) q = cap_fields m q"
proof (rule cap_fields_page_cong[OF caps_invD(5)[OF inv assms(3)]])
  fix a :: u32
  assume "unat a div 4096 = unat q div 4096"
  then have "unat a div 4096 \<noteq> unat p div 4096" using live_pages_differ[OF inv assms(2-4)] by simp
  then show "store32 m (p + i) v a = m a"
    using caps_invD(5)[OF inv assms(2)] assms(5,6) by (intro store32_other_page)
qed

lemma caps_inv_mem: "caps_inv c s \<Longrightarrow> caps_inv c (s\<lparr>mem := m\<rparr>)"
  by (simp add: caps_inv_def mm_inv_def used_def)

text \<open>A query after a change to the single capability \<open>p\<close>.\<close>

lemma check_single_change:
  assumes "p \<in> live c" "\<And>q. q \<in> live c \<Longrightarrow> q \<noteq> p \<Longrightarrow> cap_fields m' q = cap_fields m q"
  shows "capability_check pid ty perms now c m' = STATUS_SUCCESS \<longleftrightarrow>
    cap_permits pid ty perms now m' p \<or> (\<exists>q \<in> live c - {p}. cap_permits pid ty perms now m q)"
proof -
  have "cap_permits pid ty perms now m' q = cap_permits pid ty perms now m q" if "q \<in> live c - {p}" for q
    using that assms(2) cap_permits_fields by blast
  moreover have "live c = insert p (live c - {p})" using assms(1) by blast
  ultimately have "(\<exists>q \<in> live c. cap_permits pid ty perms now m' q) \<longleftrightarrow>
    cap_permits pid ty perms now m' p \<or> (\<exists>q \<in> live c - {p}. cap_permits pid ty perms now m q)" by blast
  then show ?thesis by (simp add: capability_check_iff STATUS_SUCCESS_def STATUS_PERMISSION_DENIED_def)
qed

lemma status_neq [simp]: "STATUS_PERMISSION_DENIED \<noteq> STATUS_SUCCESS" "STATUS_SUCCESS \<noteq> STATUS_PERMISSION_DENIED"
  "STATUS_INVALID_PARAM \<noteq> STATUS_SUCCESS" "STATUS_OUT_OF_MEMORY \<noteq> STATUS_SUCCESS" "STATUS_NOT_FOUND \<noteq> STATUS_SUCCESS"
  by (simp_all add: catos_const)

section \<open>A concrete table\<close>

definition demo_caps :: caps where
  "demo_caps = capability_init \<lparr>capabilities = [], capability_count = 7, next_cap_id = 9\<rparr>"

lemma demo_caps_inv: "caps_inv demo_caps demo_mm"
proof -
  have "live_slots demo_caps = {}" by (auto simp: live_slots_def demo_caps_def capability_init_def)
  moreover have "live demo_caps = {}" by (auto simp: live_def demo_caps_def capability_init_def)
  ultimately show ?thesis by (simp add: caps_inv_def demo_caps_def capability_init_def)
qed

lemma demo_live: "live demo_caps = {}"
  by (auto simp: live_def demo_caps_def capability_init_def)

lemma demo_alloc_page: "\<exists>k s1. memory_alloc_pages 1 demo_mm = Some (page_addr k, s1) \<and> page_addr k \<noteq> 0"
proof -
  obtain s1 where "memory_alloc_pages 1 demo_mm = Some (page_addr 1, s1)" using demo_alloc by metis
  moreover have "page_addr 1 \<noteq> 0" by (simp add: page_addr_def)
  ultimately show ?thesis by blast
qed

lemma demo_create:
  obtains cap c' s' where "capability_create 3 1 perms demo_caps demo_mm = Some (cap, c', s')" "cap \<noteq> 0"
proof -
  obtain k s1 where a: "memory_alloc_pages 1 demo_mm = Some (page_addr k, s1)" "page_addr k \<noteq> 0"
    using demo_alloc_page by blast
  have "\<not> capability_count demo_caps \<ge> of_nat MAX_CAPS"
    by (simp add: demo_caps_def capability_init_def MAX_CAPS_def)
  then obtain c' s' where "capability_create 3 1 perms demo_caps demo_mm = Some (page_addr k, c', s')"
    using a by (simp add: capability_create_def Let_def)
  then show thesis using a(2) that by blast
qed

section \<open>Properties\<close>

text \<open>
  C30: Creating a capability grants exactly the rights asked for. The table invariant is kept, and
  after a successful \<^verbatim>\<open>capability_create\<close> a query of \<^verbatim>\<open>capability_check\<close> answers yes for the new owner,
  type and any subset of the new permissions, and answers every other query as before.
\<close>

theorem create_grants_exactly:
  assumes "caps_inv c s" and "capability_create owner ty perms c s = Some (cap, c', s')" and "cap \<noteq> 0"
  shows "caps_inv c' s' \<and> capability_check pid ty' perms' now c' (mem s') =
    (if pid = owner \<and> ty' = ty \<and> perms AND perms' = perms' then STATUS_SUCCESS
     else capability_check pid ty' perms' now c (mem s))"
proof -
  note sp = capability_create_spec[OF assms]
  have "cap_permits pid ty' perms' now (mem s') cap \<longleftrightarrow> pid = owner \<and> ty' = ty \<and> perms AND perms' = perms'"
    using sp(7) assms(3)
    by (auto simp: cap_fields_def cap_permits_def capability_verify_signature_def cap_checksum_def)
  moreover have "cap_permits pid ty' perms' now (mem s') q = cap_permits pid ty' perms' now (mem s) q"
    if "q \<in> live c" for q
    using sp(8)[OF that] by (rule cap_permits_fields)
  ultimately show ?thesis using sp(1,2) by (auto simp: capability_check_iff)
qed

theorem create_grants_exactly_witness:
  "\<exists>cap c' s'. capability_create 3 1 5 demo_caps demo_mm = Some (cap, c', s') \<and>
     capability_check 3 1 4 100 c' (mem s') = STATUS_SUCCESS"
proof -
  obtain cap c' s' where "capability_create 3 1 5 demo_caps demo_mm = Some (cap, c', s')" "cap \<noteq> 0"
    using demo_create by metis
  with create_grants_exactly[OF demo_caps_inv this, of 3 1 4 100] show ?thesis by auto
qed

text \<open>
  Transfer moves authority. When \<^verbatim>\<open>capability_transfer\<close> succeeds, the caller owned the capability
  with the transfer permission, and afterwards the capability backs queries of the new owner and of
  nobody else; in every other case memory is unchanged. The signature of the capability is not
  verified before it is regenerated.
\<close>

lemma transfer_moves_authority:
  assumes "caps_inv c s" and "cap \<in> live c"
    and "capability_transfer cap new_owner current (mem s) = (st, m')"
  shows "if st = STATUS_SUCCESS
    then current = Some (owner_pid (mem s) cap) \<and> permissions (mem s) cap AND PERM_TRANSFER \<noteq> 0 \<and>
      (capability_check pid ty perms now c m' = STATUS_SUCCESS \<longleftrightarrow>
        (pid = new_owner \<and> ty = cap_type (mem s) cap \<and> permissions (mem s) cap AND perms = perms \<and>
          (expiration_time (mem s) cap = 0 \<or> expiration_time (mem s) cap > now)) \<or>
        (\<exists>q \<in> live c - {cap}. cap_permits pid ty perms now (mem s) q))
    else m' = mem s"
proof (cases "st = STATUS_SUCCESS")
  case True
  have nz: "cap \<noteq> 0" and pg: "page_aligned cap"
    using assms(2) caps_invD(5)[OF assms(1,2)] by (auto simp: live_def)
  have auth: "current = Some (owner_pid (mem s) cap)" "permissions (mem s) cap AND PERM_TRANSFER \<noteq> 0"
    and m': "m' = capability_generate_signature cap (store32 (mem s) (cap + 4) new_owner)"
    using assms(3) True by (auto simp: capability_transfer_def split: if_splits)
  have other: "cap_fields m' q = cap_fields (mem s) q" if "q \<in> live c" "q \<noteq> cap" for q
    using that nz cap_fields_store_other[OF assms(1,2) that(1), of 4 "mem s" new_owner]
      cap_fields_store_other[OF assms(1,2) that(1), of 24]
    by (simp add: m' capability_generate_signature_def)
  have "cap_permits pid ty perms now m' cap \<longleftrightarrow> pid = new_owner \<and> ty = cap_type (mem s) cap \<and>
    permissions (mem s) cap AND perms = perms \<and>
    (expiration_time (mem s) cap = 0 \<or> expiration_time (mem s) cap > now)"
    using nz pg by (auto simp: m' cap_permits_def capability_generate_signature_def
        capability_verify_signature_def cap_checksum_def cap_field_defs load32_store32_struct)
  then show ?thesis using True auth check_single_change[OF assms(2) other] by simp
next
  case False
  then show ?thesis using assms(3) by (auto simp: capability_transfer_def split: if_splits)
qed

lemma transfer_moves_authority_witness:
  "\<exists>cap c' s' m'. capability_create 3 1 0x25 demo_caps demo_mm = Some (cap, c', s') \<and>
     capability_transfer cap 8 (Some 3) (mem s') = (STATUS_SUCCESS, m') \<and>
     capability_check 8 1 5 100 c' m' = STATUS_SUCCESS"
proof -
  obtain cap c' s' where cr: "capability_create 3 1 0x25 demo_caps demo_mm = Some (cap, c', s')" "cap \<noteq> 0"
    using demo_create by metis
  note sp = capability_create_spec[OF demo_caps_inv cr]
  have f: "owner_pid (mem s') cap = 3" "permissions (mem s') cap = 0x25" "cap_type (mem s') cap = 1"
    "expiration_time (mem s') cap = 0"
    using sp(7) by (simp_all add: cap_fields_def)
  then obtain m' where t: "capability_transfer cap 8 (Some 3) (mem s') = (STATUS_SUCCESS, m')"
    using cr(2) by (simp add: capability_transfer_def PERM_TRANSFER_def)
  have "cap \<in> live c'" using sp(2) by simp
  from transfer_moves_authority[OF sp(1) this t, of 8 1 5 100] show ?thesis using cr t f by auto
qed

text \<open>
  The capabilities that \<^verbatim>\<open>capability_revoke\<close> is to remove: those of the process for the type, and with a resource other
  than 0 only those for that resource.
\<close>

definition revoked :: "u32 \<Rightarrow> u32 \<Rightarrow> u32 \<Rightarrow> caps \<Rightarrow> memory \<Rightarrow> u32 set" where
  "revoked pid ty resource c m =
     {q \<in> live c. owner_pid m q = pid \<and> cap_type m q = ty \<and> (resource = 0 \<or> resource_id m q = resource)}"

text \<open>
  C31: Revocation, for any caller and any resource. It always returns and keeps the table invariant. When the caller is
  process 0 it reports success, exactly the capabilities of the process for the type and the resource leave the table and
  their pages are free again: queries for other pairs of process and type are answered as before, and a query for this
  pair succeeds only by a capability for another resource, so that after a revocation with resource 0 every query for the
  pair is denied. Any other caller, and a call with no current process, is denied and changes nothing.
\<close>

theorem revoke_removes_authority:
  assumes "caps_inv c s"
  shows "\<exists>st c' s'. capability_revoke pid ty resource caller c s = Some (st, c', s') \<and> caps_inv c' s' \<and>
    (if caller = Some 0
     then st = STATUS_SUCCESS \<and> mem s' = mem s \<and> live c' = live c - revoked pid ty resource c (mem s) \<and>
       used s' = used s - (\<lambda>q. unat q div 4096) ` revoked pid ty resource c (mem s) \<and>
       (\<forall>p t perms now. capability_check p t perms now c' (mem s') =
         (if p = pid \<and> t = ty
          then if \<exists>q \<in> live c. resource \<noteq> 0 \<and> resource_id (mem s) q \<noteq> resource \<and> cap_permits pid ty perms now (mem s) q
               then STATUS_SUCCESS else STATUS_PERMISSION_DENIED
          else capability_check p t perms now c (mem s)))
     else st = STATUS_PERMISSION_DENIED \<and> c' = c \<and> s' = s)"
proof (cases "caller = Some 0")
  case True
  let ?P = "\<lambda>m cap. owner_pid m cap = pid \<and> cap_type m cap = ty \<and> (resource = 0 \<or> resource_id m cap = resource)"
  obtain c' s' where r: "destroy_matching ?P c s = Some (c', s')" "caps_inv c' s'" "mem s' = mem s"
    "live c' = {q \<in> live c. \<not> ?P (mem s) q}" "used s' = used s - (\<lambda>q. unat q div 4096) ` {q \<in> live c. ?P (mem s) q}"
    using destroy_matching_spec[OF assms, of ?P] by blast
  have R: "revoked pid ty resource c (mem s) = {q \<in> live c. ?P (mem s) q}" by (simp add: revoked_def)
  then have l: "live c' = live c - revoked pid ty resource c (mem s)" using r(4) by blast
  have own: "cap_permits p t perms now m q \<Longrightarrow> owner_pid m q = p \<and> cap_type m q = t" for p t perms now m q
    by (simp add: cap_permits_def)
  have "capability_check p t perms now c' (mem s') =
      (if p = pid \<and> t = ty
       then if \<exists>q \<in> live c. resource \<noteq> 0 \<and> resource_id (mem s) q \<noteq> resource \<and> cap_permits pid ty perms now (mem s) q
            then STATUS_SUCCESS else STATUS_PERMISSION_DENIED
       else capability_check p t perms now c (mem s))" for p t perms now
  proof (cases "p = pid \<and> t = ty")
    case True
    then have "(\<exists>q \<in> live c'. cap_permits p t perms now (mem s) q) \<longleftrightarrow>
        (\<exists>q \<in> live c. resource \<noteq> 0 \<and> resource_id (mem s) q \<noteq> resource \<and> cap_permits pid ty perms now (mem s) q)"
      unfolding r(4) using own by blast
    then show ?thesis using True r(3) by (simp add: capability_check_iff)
  next
    case False
    then have "(\<exists>q \<in> live c'. cap_permits p t perms now (mem s) q) \<longleftrightarrow> (\<exists>q \<in> live c. cap_permits p t perms now (mem s) q)"
      unfolding r(4) using own by blast
    then show ?thesis using False r(3) by (simp add: capability_check_iff)
  qed
  note chk = this
  have "capability_revoke pid ty resource caller c s = Some (STATUS_SUCCESS, c', s')"
    using True r(1) by (simp add: capability_revoke_def)
  moreover have "used s' = used s - (\<lambda>q. unat q div 4096) ` revoked pid ty resource c (mem s)" using r(5) R by simp
  ultimately show ?thesis using True r(2,3) l chk by (intro exI[of _ STATUS_SUCCESS] exI[of _ c'] exI[of _ s']) simp
next
  case False
  then show ?thesis using assms by (cases caller) (simp_all add: capability_revoke_def)
qed

theorem revoke_removes_authority_witness:
  "\<exists>cap c1 s1 c2 s2. capability_create 3 1 5 demo_caps demo_mm = Some (cap, c1, s1) \<and> live c1 = {cap} \<and>
     capability_check 3 1 4 100 c1 (mem s1) = STATUS_SUCCESS \<and>
     capability_revoke 3 1 0 (Some 3) c1 s1 = Some (STATUS_PERMISSION_DENIED, c1, s1) \<and>
     capability_revoke 3 1 0 (Some 0) c1 s1 = Some (STATUS_SUCCESS, c2, s2) \<and> live c2 = {} \<and>
     unat cap div 4096 \<in> used s1 \<and> unat cap div 4096 \<notin> used s2 \<and>
     capability_check 3 1 4 100 c2 (mem s2) = STATUS_PERMISSION_DENIED"
proof -
  obtain cap c1 s1 where cr: "capability_create 3 1 5 demo_caps demo_mm = Some (cap, c1, s1)" "cap \<noteq> 0"
    using demo_create by metis
  note sp = capability_create_spec[OF demo_caps_inv cr]
  have l: "live c1 = {cap}" using sp(2) by (simp add: demo_live)
  have f: "owner_pid (mem s1) cap = 3" "cap_type (mem s1) cap = 1"
    using sp(7) by (simp_all add: cap_fields_def)
  have "cap_permits 3 1 4 100 (mem s1) cap"
    using sp(7) cr(2) by (simp add: cap_fields_def cap_permits_def capability_verify_signature_def cap_checksum_def)
  then have ok: "capability_check 3 1 4 100 c1 (mem s1) = STATUS_SUCCESS" using l by (simp add: capability_check_iff)
  have R: "revoked 3 1 0 c1 (mem s1) = {cap}" using l f by (auto simp: revoked_def)
  obtain c2 s2 where r: "capability_revoke 3 1 0 (Some 0) c1 s1 = Some (STATUS_SUCCESS, c2, s2)" "live c2 = {}"
    "unat cap div 4096 \<notin> used s2" "capability_check 3 1 4 100 c2 (mem s2) = STATUS_PERMISSION_DENIED"
    using revoke_removes_authority[OF sp(1), of 3 1 0 "Some 0"] by (auto simp: R l)
  have "capability_revoke 3 1 0 (Some 3) c1 s1 = Some (STATUS_PERMISSION_DENIED, c1, s1)"
    using revoke_removes_authority[OF sp(1), of 3 1 0 "Some 3"] by auto
  then show ?thesis using cr(1) l ok r sp(6) by blast
qed

text \<open>
  \<^verbatim>\<open>capability_cleanup_expired\<close> removes exactly the capabilities that have expired, keeps the
  table invariant, frees their pages, and changes no answer of \<^verbatim>\<open>capability_check\<close> at the present time.
\<close>

lemma cleanup_expired_exact:
  assumes "caps_inv c s"
  shows "\<exists>c' s'. capability_cleanup_expired now c s = Some (c', s') \<and> caps_inv c' s' \<and>
    live c' = {q \<in> live c. expiration_time (mem s) q = 0 \<or> expiration_time (mem s) q > now} \<and>
    used s' = used s - (\<lambda>q. unat q div 4096) ` (live c - live c') \<and>
    capability_check pid ty perms now c' (mem s') = capability_check pid ty perms now c (mem s)"
proof -
  let ?P = "\<lambda>m cap. expiration_time m cap > 0 \<and> expiration_time m cap \<le> now"
  obtain c' s' where r: "destroy_matching ?P c s = Some (c', s')" "caps_inv c' s'" "mem s' = mem s"
    "live c' = {q \<in> live c. \<not> ?P (mem s) q}" "used s' = used s - (\<lambda>q. unat q div 4096) ` {q \<in> live c. ?P (mem s) q}"
    using destroy_matching_spec[OF assms, of ?P] by blast
  have e: "\<not> ?P (mem s) q \<longleftrightarrow> expiration_time (mem s) q = 0 \<or> expiration_time (mem s) q > now" for q
    by (auto simp: word_gt_0 not_le)
  have "live c - live c' = {q \<in> live c. ?P (mem s) q}" using r(4) by auto
  moreover have "capability_check pid ty perms now c' (mem s') = capability_check pid ty perms now c (mem s)"
    unfolding capability_check_iff r(3,4) e by (auto simp: cap_permits_def)
  ultimately show ?thesis using r e by (auto simp: capability_cleanup_expired_def)
qed

lemma cleanup_expired_exact_witness:
  "\<exists>c' s'. capability_cleanup_expired 50 demo_caps demo_mm = Some (c', s') \<and> caps_inv c' s' \<and>
     capability_check 3 1 4 50 c' (mem s') = STATUS_PERMISSION_DENIED"
proof -
  have "capability_check 3 1 4 50 demo_caps (mem demo_mm) = STATUS_PERMISSION_DENIED"
    by (simp add: capability_check_iff demo_live)
  then show ?thesis using cleanup_expired_exact[OF demo_caps_inv, of 50 3 1 4] by auto
qed

text \<open>
  A capability that is granted for a specific resource is dead on arrival:
  \<^verbatim>\<open>capability_grant\<close> stores the resource after \<^verbatim>\<open>capability_create\<close> has signed the structure, so the grant
  reports success and yet no query is answered differently from before.
\<close>

lemma grant_resource_unusable:
  assumes "caps_inv c s" and "resource \<noteq> 0"
    and "capability_grant owner ty perms resource (Some 0) c s = Some (STATUS_SUCCESS, c', s')"
  shows "capability_check pid ty' perms' now c' (mem s') = capability_check pid ty' perms' now c (mem s)"
proof -
  obtain cap s1 where cr: "capability_create owner ty perms c s = Some (cap, c', s1)" "cap \<noteq> 0"
    and s': "s' = s1\<lparr>mem := store32 (mem s1) (cap + 16) resource\<rparr>"
    using assms(3) by (auto simp: capability_grant_def split: option.splits if_splits)
  note sp = capability_create_spec[OF assms(1) cr]
  have lv: "cap \<in> live c'" using sp(2) by simp
  have "cap_permits pid ty' perms' now (mem s') cap = False"
    using sp(7) sp(4) assms(2)
    by (auto simp: s' cap_fields_def cap_permits_def capability_verify_signature_def cap_checksum_def
        cap_field_defs load32_store32_struct xor.assoc[symmetric])
  moreover have "cap_permits pid ty' perms' now (mem s') q = cap_permits pid ty' perms' now (mem s) q"
    if "q \<in> live c" for q
  proof (rule cap_permits_fields)
    have "q \<in> live c'" "q \<noteq> cap" using sp(2,3) that by auto
    then have "cap_fields (mem s') q = cap_fields (mem s1) q"
      using cap_fields_store_other[OF sp(1) lv, of q 16 "mem s1" resource] by (simp add: s')
    also have "\<dots> = cap_fields (mem s) q" by (rule sp(8)[OF that])
    finally show "cap_fields (mem s') q = cap_fields (mem s) q" .
  qed
  ultimately show ?thesis using sp(2) by (auto simp: capability_check_iff)
qed

lemma grant_resource_unusable_witness:
  "\<exists>c' s'. capability_grant 3 1 5 77 (Some 0) demo_caps demo_mm = Some (STATUS_SUCCESS, c', s') \<and>
     capability_check 3 1 4 0 c' (mem s') = STATUS_PERMISSION_DENIED"
proof -
  obtain cap c' s' where "capability_create 3 1 5 demo_caps demo_mm = Some (cap, c', s')" "cap \<noteq> 0"
    using demo_create by metis
  then obtain s2 where g: "capability_grant 3 1 5 77 (Some 0) demo_caps demo_mm = Some (STATUS_SUCCESS, c', s2)"
    by (simp add: capability_grant_def)
  have "capability_check 3 1 4 0 demo_caps (mem demo_mm) = STATUS_PERMISSION_DENIED"
    by (simp add: capability_check_iff demo_live)
  then show ?thesis using grant_resource_unusable[OF demo_caps_inv _ g, of 3 1 4 0] g by auto
qed

text \<open>
  Changing the expiration time of a valid capability invalidates it: \<^verbatim>\<open>capability_set_expiration\<close>
  does not sign again, so whenever it succeeds with a new time no query is backed by it any more.
\<close>

lemma set_expiration_invalidates:
  assumes "caps_inv c s" and "cap \<in> live c" and "capability_verify_signature (mem s) cap"
    and "time \<noteq> expiration_time (mem s) cap"
    and "capability_set_expiration cap time current (mem s) = (STATUS_SUCCESS, m')"
  shows "capability_check pid ty perms now c m' = STATUS_SUCCESS \<longleftrightarrow>
    (\<exists>q \<in> live c - {cap}. cap_permits pid ty perms now (mem s) q)"
proof -
  have nz: "cap \<noteq> 0" and pg: "page_aligned cap"
    using assms(2) caps_invD(5)[OF assms(1,2)] by (auto simp: live_def)
  have m': "m' = store32 (mem s) (cap + 20) time"
    using assms(5) by (auto simp: capability_set_expiration_def split: if_splits)
  have "cap_fields m' q = cap_fields (mem s) q" if "q \<in> live c" "q \<noteq> cap" for q
    using that cap_fields_store_other[OF assms(1,2) that(1), of 20 "mem s" time] by (simp add: m')
  moreover have "\<not> cap_permits pid ty perms now m' cap"
  proof -
    have "cap_checksum (mem s) cap = cap_signature (mem s) cap"
      using assms(3) by (simp add: capability_verify_signature_def split: if_splits)
    then have "cap_checksum m' cap \<noteq> cap_signature m' cap"
      using pg assms(4)
      by (auto simp: m' cap_checksum_def cap_field_defs load32_store32_struct dest: sym)
    then show ?thesis using nz by (simp add: cap_permits_def capability_verify_signature_def)
  qed
  ultimately show ?thesis using check_single_change[OF assms(2)] by simp
qed

lemma set_expiration_invalidates_witness:
  "\<exists>cap c' s' m'. capability_create 3 1 5 demo_caps demo_mm = Some (cap, c', s') \<and>
     capability_set_expiration cap 500 (Some 3) (mem s') = (STATUS_SUCCESS, m') \<and>
     capability_check 3 1 4 100 c' m' \<noteq> STATUS_SUCCESS"
proof -
  obtain cap c' s' where cr: "capability_create 3 1 5 demo_caps demo_mm = Some (cap, c', s')" "cap \<noteq> 0"
    using demo_create by metis
  note sp = capability_create_spec[OF demo_caps_inv cr]
  have f: "owner_pid (mem s') cap = 3" "expiration_time (mem s') cap = 0" "capability_verify_signature (mem s') cap"
    using sp(7) cr(2) by (simp_all add: cap_fields_def capability_verify_signature_def cap_checksum_def)
  then obtain m' where t: "capability_set_expiration cap 500 (Some 3) (mem s') = (STATUS_SUCCESS, m')"
    using cr(2) by (simp add: capability_set_expiration_def)
  have "cap \<in> live c'" "live c' - {cap} = {}" using sp(2) by (auto simp: demo_live)
  then show ?thesis
    using set_expiration_invalidates[OF sp(1) _ f(3) _ t, of 3 1 4 100] f(2) cr(1) t by auto
qed

end
