(* ===== verification/Pic.thy ===== *)
theory Pic
  imports Port_IO
begin

text \<open>
  The interrupt controllers, \<^verbatim>\<open>hal/pic.c\<close>. A shift by 32 or more of a 32-bit \<^verbatim>\<open>int\<close> is undefined and has
  no result. What the 8259 chips answer is a property of the device: \<open>reads_mask\<close> states the documented
  behaviour the code relies on, that a read of the data port outside an initialisation sequence returns the
  interrupt mask last written there.
\<close>

abbreviation PIC_EOI :: u8 where "PIC_EOI \<equiv> 0x20"
abbreviation PIC_INIT :: u8 where "PIC_INIT \<equiv> 0x11"
abbreviation PIC_ICW4_8086 :: u8 where "PIC_ICW4_8086 \<equiv> 0x01"

definition hal_pic_remap :: "u8 \<Rightarrow> u8 \<Rightarrow> io \<Rightarrow> io" where
  "hal_pic_remap offset1 offset2 s =
     (case hal_inb PORT_PIC_MASTER_DATA s of (a1, s) \<Rightarrow>
      case hal_inb PORT_PIC_SLAVE_DATA s of (a2, s) \<Rightarrow>
      let s = hal_outb PORT_PIC_MASTER_CMD PIC_INIT s;
          s = hal_outb PORT_PIC_SLAVE_CMD PIC_INIT s;
          s = hal_outb PORT_PIC_MASTER_DATA offset1 s;
          s = hal_outb PORT_PIC_SLAVE_DATA offset2 s;
          s = hal_outb PORT_PIC_MASTER_DATA 4 s;
          s = hal_outb PORT_PIC_SLAVE_DATA 2 s;
          s = hal_outb PORT_PIC_MASTER_DATA PIC_ICW4_8086 s;
          s = hal_outb PORT_PIC_SLAVE_DATA PIC_ICW4_8086 s;
          s = hal_outb PORT_PIC_MASTER_DATA a1 s
      in hal_outb PORT_PIC_SLAVE_DATA a2 s)"

definition hal_pic_init :: "io \<Rightarrow> io" where
  "hal_pic_init s = hal_outb PORT_PIC_SLAVE_DATA 0xFF (hal_outb PORT_PIC_MASTER_DATA 0xFF (hal_pic_remap 0x20 0x28 s))"

definition hal_pic_send_eoi :: "u8 \<Rightarrow> io \<Rightarrow> io" where
  "hal_pic_send_eoi irq s =
     hal_outb PORT_PIC_MASTER_CMD PIC_EOI (if irq \<ge> 8 then hal_outb PORT_PIC_SLAVE_CMD PIC_EOI s else s)"

definition irq_port :: "u8 \<Rightarrow> u16 \<times> u8" where
  "irq_port irq = (if irq < 8 then (PORT_PIC_MASTER_DATA, irq) else (PORT_PIC_SLAVE_DATA, irq - 8))"

definition shift_left :: "u8 \<Rightarrow> u32 option" where
  "shift_left n = (if unat n < 32 then Some (push_bit (unat n) 1) else None)"

definition hal_pic_mask_irq :: "u8 \<Rightarrow> io \<Rightarrow> io option" where
  "hal_pic_mask_irq irq s = (case irq_port irq of (port, n) \<Rightarrow>
     case hal_inb port s of (v, s) \<Rightarrow>
     Option.bind (shift_left n) (\<lambda>b. Some (hal_outb port (ucast (ucast v OR b)) s)))"

definition hal_pic_unmask_irq :: "u8 \<Rightarrow> io \<Rightarrow> io option" where
  "hal_pic_unmask_irq irq s = (case irq_port irq of (port, n) \<Rightarrow>
     case hal_inb port s of (v, s) \<Rightarrow>
     Option.bind (shift_left n) (\<lambda>b. Some (hal_outb port (ucast (ucast v AND NOT b)) s)))"

definition hal_pic_get_irq_mask :: "io \<Rightarrow> u16 \<times> io" where
  "hal_pic_get_irq_mask s =
     (case hal_inb PORT_PIC_SLAVE_DATA s of (hi, s) \<Rightarrow>
      case hal_inb PORT_PIC_MASTER_DATA s of (lo, s) \<Rightarrow>
      (push_bit 8 (ucast hi) OR ucast lo, s))"

definition hal_pic_set_irq_mask :: "u16 \<Rightarrow> io \<Rightarrow> io" where
  "hal_pic_set_irq_mask v s =
     hal_outb PORT_PIC_SLAVE_DATA (ucast (drop_bit 8 v AND 0xFF)) (hal_outb PORT_PIC_MASTER_DATA (ucast (v AND 0xFF)) s)"

definition hal_pic_is_spurious_irq :: "u8 \<Rightarrow> io \<Rightarrow> (bool \<times> io) option" where
  "hal_pic_is_spurious_irq irq s =
     (case hal_inb PORT_PIC_MASTER_CMD (hal_outb PORT_PIC_MASTER_CMD 0x0B s) of (lo, s) \<Rightarrow>
      case (if irq \<ge> 8 then
              case hal_inb PORT_PIC_SLAVE_CMD (hal_outb PORT_PIC_SLAVE_CMD 0x0B s) of (hi, s) \<Rightarrow>
                ((ucast lo OR push_bit 8 (ucast hi) :: u16), s)
            else (ucast lo, s)) of (isr, s) \<Rightarrow>
      Option.bind (shift_left irq) (\<lambda>b. Some (ucast isr AND b = 0, s)))"

definition hal_pic_disable_all :: "io \<Rightarrow> io" where
  "hal_pic_disable_all s = hal_outb PORT_PIC_SLAVE_DATA 0xFF (hal_outb PORT_PIC_MASTER_DATA 0xFF s)"

definition hal_pic_enable_all :: "io \<Rightarrow> io" where
  "hal_pic_enable_all s = hal_outb PORT_PIC_SLAVE_DATA 0x00 (hal_outb PORT_PIC_MASTER_DATA 0x00 s)"

section \<open>The documented behaviour of the chip\<close>

text \<open>
  Writes to the data port of a chip since its last initialisation command (bit 4 set); after three of them
  (vector, cascade, mode) the chip is operational. A chip that was never initialised here was set up by the firmware.
\<close>

fun data_writes :: "u16 \<Rightarrow> u16 \<Rightarrow> io_event list \<Rightarrow> nat" where
  "data_writes c d [] = 3"
| "data_writes c d (Outb p v # log) =
     (if p = c \<and> bit v 4 then 0 else if p = d then Suc (data_writes c d log) else data_writes c d log)"
| "data_writes c d (_ # log) = data_writes c d log"

definition reads_mask :: "u16 \<Rightarrow> u16 \<Rightarrow> (io_event list \<Rightarrow> u16 \<Rightarrow> u8) \<Rightarrow> bool" where
  "reads_mask c d dev \<longleftrightarrow>
     (\<forall>log v. 3 \<le> data_writes c d log \<longrightarrow> dev (Outb d v # log) d = v) \<and>
     (\<forall>log e. (\<forall>v. e \<noteq> Outb d v) \<longrightarrow> 3 \<le> data_writes c d (e # log) \<longrightarrow> dev (e # log) d = dev log d)"

definition pic_pair :: "io \<Rightarrow> bool" where
  "pic_pair s \<longleftrightarrow> reads_mask 0x20 0x21 (dev_inb s) \<and> reads_mask 0xA0 0xA1 (dev_inb s)"

definition operational :: "io \<Rightarrow> bool" where
  "operational s \<longleftrightarrow> 3 \<le> data_writes 0x20 0x21 (io_log s) \<and> 3 \<le> data_writes 0xA0 0xA1 (io_log s)"

text \<open>The interrupt mask of the pair, the slave in the high byte.\<close>

definition irq_mask :: "io \<Rightarrow> u16" where
  "irq_mask s = push_bit 8 (ucast (dev_inb s (io_log s) 0xA1)) OR ucast (dev_inb s (io_log s) 0x21)"

text \<open>The effect of one access on the masks and on the state of the chips.\<close>

lemma pic_access:
  assumes "pic_pair s" "operational s"
  shows "pic_pair (hal_outb p v s)" "\<not> (p \<in> {0x20, 0xA0} \<and> bit v 4) \<Longrightarrow> operational (hal_outb p v s)"
    "dev_inb s (io_log (hal_outb 0x21 v s)) 0x21 = v" "dev_inb s (io_log (hal_outb 0xA1 v s)) 0xA1 = v"
    "dev_inb s (io_log (hal_outb 0x21 v s)) 0xA1 = dev_inb s (io_log s) 0xA1"
    "dev_inb s (io_log (hal_outb 0xA1 v s)) 0x21 = dev_inb s (io_log s) 0x21"
    "pic_pair (snd (hal_inb p s))" "operational (snd (hal_inb p s))"
    "dev_inb s (io_log (snd (hal_inb p s))) 0x21 = dev_inb s (io_log s) 0x21"
    "dev_inb s (io_log (snd (hal_inb p s))) 0xA1 = dev_inb s (io_log s) 0xA1"
  using assms by (auto simp: pic_pair_def operational_def hal_outb_def hal_inb_def Let_def reads_mask_def)

lemma hal_inb_fst: "fst (hal_inb p s) = dev_inb s (io_log s) p" "dev_inb (snd (hal_inb p s)) = dev_inb s" "dev_inb (hal_outb p v s) = dev_inb s"
  by (simp_all add: hal_inb_def hal_outb_def Let_def)

lemma bit_u8: "bit (v :: u8) n \<Longrightarrow> n < 8"
  using bit_imp_le_length[of v n] by simp

lemma bit_255: "bit (255 :: int) n \<longleftrightarrow> n < 8"
proof -
  have "(255 :: int) = mask 8" by (simp add: mask_eq_exp_minus_1)
  then show ?thesis by (simp only: bit_mask_iff) auto
qed

lemma irq_mask_bit:
  "bit (irq_mask s) n \<longleftrightarrow> n < 16 \<and> (if n < 8 then bit (dev_inb s (io_log s) 0x21) n else bit (dev_inb s (io_log s) 0xA1) (n - 8))"
  by (auto simp: irq_mask_def bit_simps dest: bit_u8)

lemma irq_port_cases:
  assumes "unat irq < 16"
  obtains "irq_port irq = (0x21, irq)" "unat irq < 8" | "irq_port irq = (0xA1, irq - 8)" "8 \<le> unat irq" "unat (irq - 8) = unat irq - 8"
proof (cases "unat irq < 8")
  case True
  then show thesis using that(1) by (simp add: irq_port_def word_less_nat_alt)
next
  case False
  then show thesis using that(2) by (simp add: irq_port_def word_less_nat_alt unat_sub word_le_nat_alt)
qed

lemma shift_left_16: "unat n < 32 \<Longrightarrow> shift_left n = Some (push_bit (unat n) 1)"
  by (simp add: shift_left_def)

text \<open>Reading a data port and writing a value that depends on it.\<close>

definition update_port :: "u16 \<Rightarrow> (u8 \<Rightarrow> u8) \<Rightarrow> io \<Rightarrow> io" where
  "update_port p f s = (case hal_inb p s of (v, s) \<Rightarrow> hal_outb p (f v) s)"

lemma update_port_mask:
  assumes "pic_pair s" "operational s" "p = 0x21 \<or> p = 0xA1"
  shows "pic_pair (update_port p f s)" "operational (update_port p f s)"
    "dev_inb (update_port p f s) (io_log (update_port p f s)) 0x21 = (if p = 0x21 then f else id) (dev_inb s (io_log s) 0x21)"
    "dev_inb (update_port p f s) (io_log (update_port p f s)) 0xA1 = (if p = 0xA1 then f else id) (dev_inb s (io_log s) 0xA1)"
proof -
  let ?t = "snd (hal_inb p s)"
  have u: "update_port p f s = hal_outb p (f (dev_inb s (io_log s) p)) ?t"
    using hal_inb_fst(1)[of p s] by (cases "hal_inb p s") (auto simp: update_port_def)
  have t: "pic_pair ?t" "operational ?t" using pic_access(7,8)[OF assms(1,2)] by auto
  note A = pic_access[OF t] pic_access(9,10)[OF assms(1,2), of p]
  show "pic_pair (update_port p f s)" "operational (update_port p f s)"
    "dev_inb (update_port p f s) (io_log (update_port p f s)) 0x21 = (if p = 0x21 then f else id) (dev_inb s (io_log s) 0x21)"
    "dev_inb (update_port p f s) (io_log (update_port p f s)) 0xA1 = (if p = 0xA1 then f else id) (dev_inb s (io_log s) 0xA1)"
    unfolding u using A assms(3) by (auto simp: hal_inb_fst)
qed

lemma mask_irq_update:
  "unat n < 32 \<Longrightarrow> irq_port irq = (p, n) \<Longrightarrow>
     hal_pic_mask_irq irq s = Some (update_port p (\<lambda>v. ucast (ucast v OR push_bit (unat n) 1 :: u32)) s)"
  "unat n < 32 \<Longrightarrow> irq_port irq = (p, n) \<Longrightarrow>
     hal_pic_unmask_irq irq s = Some (update_port p (\<lambda>v. ucast (ucast v AND NOT (push_bit (unat n) 1) :: u32)) s)"
  by (simp_all add: hal_pic_mask_irq_def hal_pic_unmask_irq_def update_port_def shift_left_16 split: prod.split)

lemma mask_unmask_spec:
  assumes "pic_pair s" "operational s" "unat irq < 16"
  shows "\<exists>m u. hal_pic_mask_irq irq s = Some m \<and> irq_mask m = irq_mask s OR push_bit (unat irq) 1 \<and>
       hal_pic_unmask_irq irq s = Some u \<and> irq_mask u = irq_mask s AND NOT (push_bit (unat irq) 1) \<and> operational m \<and> operational u"
  using assms(3)
proof (cases rule: irq_port_cases)
  case 1
  note U = update_port_mask[OF assms(1,2), of "0x21"] and M = mask_irq_update[OF _ 1(1), of s]
  show ?thesis
    using 1(2) M U by (auto intro!: bit_word_eqI simp: irq_mask_bit bit_simps)
next
  case 2
  note U = update_port_mask[OF assms(1,2), of "0xA1"] and M = mask_irq_update[OF _ 2(1), of s]
  obtain i where i: "unat irq = i + 8" "unat (irq - 8) = i" using 2(2,3) le_add_diff_inverse2 by metis
  have eq: "w = w'" if "\<And>n. n < 8 \<Longrightarrow> bit w n = bit w' n" "\<And>j. j + 8 < 16 \<Longrightarrow> bit w (j + 8) = bit w' (j + 8)" for w w' :: u16
  proof (rule bit_word_eqI)
    fix n assume "n < LENGTH(16)"
    then show "bit w n = bit w' n" using that(1)[of n] that(2)[of "n - 8"] by (cases "n < 8") auto
  qed
  show ?thesis
    using i assms(3) M U by (auto intro!: eq simp: irq_mask_bit bit_simps)
qed

lemma unmask_mask:
  assumes "pic_pair s" "operational s" "unat irq < 16" "hal_pic_unmask_irq irq s = Some u"
  shows "irq_mask u = irq_mask s AND NOT (push_bit (unat irq) 1)"
  using mask_unmask_spec[OF assms(1-3)] assms(4) by auto

section \<open>Properties\<close>

text \<open>
  With chips that behave as documented, \<^verbatim>\<open>hal_pic_init\<close> leaves both operational with vectors 0x20 and 0x28 and every
  interrupt masked, and from then on the mask is a set of lines: masking or unmasking a line below 16 adds or
  removes exactly that line, and what is written as a mask is read back.
\<close>

lemma irq_mask_exact:
  assumes "pic_pair s" and "operational s" and "unat irq < 16"
  shows "pic_pair (hal_pic_init s) \<and> operational (hal_pic_init s) \<and> irq_mask (hal_pic_init s) = 0xFFFF \<and>
    (\<exists>m u. hal_pic_mask_irq irq s = Some m \<and> irq_mask m = irq_mask s OR push_bit (unat irq) 1 \<and>
       hal_pic_unmask_irq irq s = Some u \<and> irq_mask u = irq_mask s AND NOT (push_bit (unat irq) 1) \<and>
       operational m \<and> operational u) \<and>
    fst (hal_pic_get_irq_mask (hal_pic_set_irq_mask v s)) = v"
proof (intro conjI)
  have dw: "3 \<le> data_writes 0x20 0x21 (io_log (hal_pic_remap 0x20 0x28 s))" "3 \<le> data_writes 0xA0 0xA1 (io_log (hal_pic_remap 0x20 0x28 s))"
    and dv: "dev_inb (hal_pic_remap 0x20 0x28 s) = dev_inb s"
    by (simp_all add: hal_pic_remap_def hal_inb_def hal_outb_def Let_def)
  have R: "pic_pair (hal_pic_remap 0x20 0x28 s)" "operational (hal_pic_remap 0x20 0x28 s)"
    using assms(1) dw dv by (simp_all add: pic_pair_def operational_def)
  note A = pic_access(1,2)[OF R, of "0x21" "0xFF"] pic_access(3,5)[OF R, of "0xFF"]
  have S: "pic_pair (hal_outb 0x21 0xFF (hal_pic_remap 0x20 0x28 s))" "operational (hal_outb 0x21 0xFF (hal_pic_remap 0x20 0x28 s))"
    using A(1,2) by simp_all
  note B = pic_access(1,2)[OF S, of "0xA1" "0xFF"] pic_access(4,6)[OF S, of "0xFF"]
  show "pic_pair (hal_pic_init s)" "operational (hal_pic_init s)" using B(1,2) by (simp_all add: hal_pic_init_def)
  have "dev_inb (hal_pic_init s) (io_log (hal_pic_init s)) 0x21 = 0xFF" "dev_inb (hal_pic_init s) (io_log (hal_pic_init s)) 0xA1 = 0xFF"
    using A B by (simp_all add: hal_pic_init_def hal_inb_fst dv)
  then show "irq_mask (hal_pic_init s) = 0xFFFF" by (simp add: irq_mask_def)
next
  show "\<exists>m u. hal_pic_mask_irq irq s = Some m \<and> irq_mask m = irq_mask s OR push_bit (unat irq) 1 \<and>
       hal_pic_unmask_irq irq s = Some u \<and> irq_mask u = irq_mask s AND NOT (push_bit (unat irq) 1) \<and> operational m \<and> operational u"
    by (rule mask_unmask_spec[OF assms])
next
  let ?t = "hal_outb 0x21 (ucast (v AND 0xFF)) s"
  have T: "pic_pair ?t" "operational ?t" using pic_access(1,2)[OF assms(1,2), of "0x21"] by simp_all
  let ?u = "hal_outb 0xA1 (ucast (drop_bit 8 v AND 0xFF)) ?t"
  have U: "pic_pair ?u" "operational ?u" using pic_access(1,2)[OF T, of "0xA1"] by simp_all
  have m: "irq_mask ?u = v"
    using pic_access(3,5)[OF assms(1,2), of "ucast (v AND 0xFF)"] pic_access(4,6)[OF T, of "ucast (drop_bit 8 v AND 0xFF)"]
    by (intro bit_word_eqI) (auto simp: irq_mask_bit hal_inb_fst bit_simps bit_255)
  have "fst (hal_pic_get_irq_mask ?u) = irq_mask ?u"
    using pic_access(9)[OF U, of "0xA1"] by (simp add: hal_pic_get_irq_mask_def hal_inb_def Let_def irq_mask_def)
  then show "fst (hal_pic_get_irq_mask (hal_pic_set_irq_mask v s)) = v" using m by (simp add: hal_pic_set_irq_mask_def)
qed

text \<open>A pair of chips that behave as documented: the mask is the last data written while operational.\<close>

fun mask_of :: "u16 \<Rightarrow> u16 \<Rightarrow> io_event list \<Rightarrow> u8" where
  "mask_of c d [] = 0"
| "mask_of c d (Outb p v # log) = (if p = d \<and> 3 \<le> data_writes c d log then v else mask_of c d log)"
| "mask_of c d (_ # log) = mask_of c d log"

definition pic_io :: io where
  "pic_io = demo_io\<lparr>dev_inb := (\<lambda>log p. if p = 0x21 then mask_of 0x20 0x21 log else if p = 0xA1 then mask_of 0xA0 0xA1 log else 0xFF)\<rparr>"

lemma mask_of_other: "(\<And>v. e \<noteq> Outb d v) \<Longrightarrow> mask_of c d (e # log) = mask_of c d log"
  by (cases e) auto

lemma pic_io_ok: "pic_pair pic_io" "operational pic_io"
  by (auto simp: pic_pair_def reads_mask_def pic_io_def operational_def demo_io_def mask_of_other)

lemma irq_mask_exact_witness:
  "irq_mask (hal_pic_init pic_io) = 0xFFFF \<and> (\<exists>u. hal_pic_unmask_irq 0 (hal_pic_init pic_io) = Some u \<and> irq_mask u = 0xFFFE)"
proof -
  have a: "pic_pair (hal_pic_init pic_io)" "operational (hal_pic_init pic_io)" "irq_mask (hal_pic_init pic_io) = 0xFFFF"
    using irq_mask_exact[OF pic_io_ok, of 0] by auto
  from irq_mask_exact[OF a(1,2), of 0] a(3) show ?thesis by auto
qed

end
