(* ===== verification/Idt.thy ===== *)
theory Idt
  imports Gdt
begin

text \<open>
  The interrupt descriptor table of \<^verbatim>\<open>kernel/interrupt.c\<close>. Where the linker put the assembly entry points is a parameter: \<open>addr\<close>
  gives the address of each handler.
\<close>

record idt_entry =
  i_base_low :: u16
  i_selector :: u16
  i_zero :: u8
  i_type_attr :: u8
  i_base_high :: u16

datatype handler =
    divide_error | debug_exception | nmi | breakpoint | overflow | bound_range_exceeded | invalid_opcode
  | device_not_available | double_fault | invalid_tss | segment_not_present | stack_segment_fault
  | general_protection_fault | page_fault | x87_fpu_error | alignment_check | machine_check | simd_floating_point
  | timer_irq | keyboard_irq | syscall_wrapper

definition idt_set_gate :: "u8 \<Rightarrow> u32 \<Rightarrow> u16 \<Rightarrow> u8 \<Rightarrow> idt_entry list \<Rightarrow> idt_entry list option" where
  "idt_set_gate num base sel flags t =
     (if unat num < length t
      then Some (t[unat num := \<lparr>i_base_low = ucast (base AND 0xFFFF), i_selector = sel, i_zero = 0, i_type_attr = flags,
        i_base_high = ucast (drop_bit 16 base AND 0xFFFF)\<rparr>])
      else None)"

text \<open>The gates that \<^verbatim>\<open>interrupt_init\<close> sets, in its order: number, handler, attributes.\<close>

definition gates :: "(u8 \<times> handler \<times> u8) list" where
  "gates = [(0, divide_error, 0x8E), (1, debug_exception, 0x8E), (2, nmi, 0x8E), (3, breakpoint, 0x8E), (4, overflow, 0x8E),
     (5, bound_range_exceeded, 0x8E), (6, invalid_opcode, 0x8E), (7, device_not_available, 0x8E), (8, double_fault, 0x8E),
     (10, invalid_tss, 0x8E), (11, segment_not_present, 0x8E), (12, stack_segment_fault, 0x8E),
     (13, general_protection_fault, 0x8E), (14, page_fault, 0x8E), (16, x87_fpu_error, 0x8E), (17, alignment_check, 0x8E),
     (18, machine_check, 0x8E), (19, simd_floating_point, 0x8E), (32, timer_irq, 0x8E), (33, keyboard_irq, 0x8E),
     (0x80, syscall_wrapper, 0xEE)]"

record idt_state =
  idt :: "idt_entry list"
  idtr_limit :: u16
  idtr_base :: u32

definition clear_gates :: "idt_entry list \<Rightarrow> idt_entry list option" where
  "clear_gates t = for_each (\<lambda>i. idt_set_gate (of_nat i) 0 0 0) [0..<256] t"

definition set_gates :: "(handler \<Rightarrow> u32) \<Rightarrow> idt_entry list \<Rightarrow> idt_entry list option" where
  "set_gates addr t = for_each (\<lambda>(n, h, fl). idt_set_gate n (addr h) 0x08 fl) gates t"

definition load_idt :: "(handler \<Rightarrow> u32) \<Rightarrow> u32 \<Rightarrow> idt_state \<Rightarrow> idt_state option" where
  "load_idt addr idt_addr s =
     Option.bind (clear_gates (idt s)) (\<lambda>t.
     Option.bind (set_gates addr t) (\<lambda>t.
     Some (s\<lparr>idt := t, idtr_limit := 8 * 256 - 1, idtr_base := idt_addr\<rparr>)))"

section \<open>What the processor reads from a gate\<close>

definition gate_offset :: "idt_entry \<Rightarrow> u32" where
  "gate_offset e = ucast (i_base_low e) OR push_bit 16 (ucast (i_base_high e))"

definition gate_present :: "idt_entry \<Rightarrow> bool" where "gate_present e = bit (i_type_attr e) 7"
definition gate_dpl :: "idt_entry \<Rightarrow> nat" where "gate_dpl e = unat (drop_bit 5 (i_type_attr e) AND 3)"

text \<open>An interrupt gate for a handler: present, into the kernel code segment, entered with interrupts disabled.\<close>

definition interrupt_gate :: "idt_entry \<Rightarrow> u32 \<Rightarrow> nat \<Rightarrow> bool" where
  "interrupt_gate e base dpl \<longleftrightarrow> gate_present e \<and> gate_offset e = base \<and> gate_dpl e = dpl \<and> i_selector e = 0x08 \<and>
     i_type_attr e AND 0x0F = 0x0E"

lemma gate_offset_roundtrip:
  "gate_offset \<lparr>i_base_low = ucast ((base :: u32) AND 0xFFFF), i_selector = sel, i_zero = 0, i_type_attr = fl,
     i_base_high = ucast (drop_bit 16 base AND 0xFFFF)\<rparr> = base"
proof (rule bit_word_eqI)
  fix n assume "n < LENGTH(32)"
  then have n: "n < 32" by simp
  consider "n < 16" | "16 \<le> n" by linarith
  then show "bit (gate_offset \<lparr>i_base_low = ucast ((base :: u32) AND 0xFFFF), i_selector = sel, i_zero = 0, i_type_attr = fl,
      i_base_high = ucast (drop_bit 16 base AND 0xFFFF)\<rparr>) n = bit base n"
    unfolding gate_offset_def idt_entry.simps nth_mask by cases (use n in \<open>auto simp: bit_simps\<close>)
qed

text \<open>Gates set in sequence: the last one for a number counts, and the others stay.\<close>

definition gate_of :: "(handler \<Rightarrow> u32) \<Rightarrow> handler \<Rightarrow> u8 \<Rightarrow> idt_entry" where
  "gate_of addr h fl = \<lparr>i_base_low = ucast (addr h AND 0xFFFF), i_selector = 0x08, i_zero = 0, i_type_attr = fl,
     i_base_high = ucast (drop_bit 16 (addr h) AND 0xFFFF)\<rparr>"

lemma set_gates_list:
  assumes "length t = 256" "distinct (map fst gs)"
  shows "\<exists>t'. for_each (\<lambda>(n, h, fl). idt_set_gate n (addr h) 0x08 fl) gs t = Some t' \<and> length t' = 256 \<and>
    (\<forall>n h fl. (n, h, fl) \<in> set gs \<longrightarrow> t' ! unat n = gate_of addr h fl) \<and>
    (\<forall>n. n \<notin> fst ` set gs \<longrightarrow> t' ! unat n = t ! unat n)"
  using assms
proof (induction gs arbitrary: t)
  case (Cons g gs)
  obtain n h fl where g: "g = (n, h, fl)" by (cases g)
  have lt: "unat m < 256" for m :: u8 using unsigned_less[of m] by simp
  let ?t = "t[unat n := gate_of addr h fl]"
  have s: "idt_set_gate n (addr h) 0x08 fl t = Some ?t" using Cons.prems(1) lt[of n] by (simp add: idt_set_gate_def gate_of_def)
  obtain t' where t': "for_each (\<lambda>(n, h, fl). idt_set_gate n (addr h) 0x08 fl) gs ?t = Some t'" "length t' = 256"
    "\<forall>n h fl. (n, h, fl) \<in> set gs \<longrightarrow> t' ! unat n = gate_of addr h fl" "\<forall>n. n \<notin> fst ` set gs \<longrightarrow> t' ! unat n = ?t ! unat n"
    using Cons.IH[of ?t] Cons.prems by auto
  have "n \<notin> fst ` set gs" using Cons.prems(2) g by auto
  then have "t' ! unat n = gate_of addr h fl" using t'(4) Cons.prems(1) lt[of n] by simp
  moreover have "t' ! unat m = t ! unat m" if "m \<notin> fst ` set (g # gs)" for m
    using that t'(4) g Cons.prems(1) lt[of m] by (auto simp: nth_list_update word_unat_eq_iff)
  ultimately show ?case using s t'(1-3) g by (intro exI[of _ t']) auto
qed simp

lemma clear_gates_spec:
  assumes "length t = 256"
  shows "\<exists>t'. clear_gates t = Some t' \<and> length t' = 256 \<and> (\<forall>i < 256. \<not> gate_present (t' ! i))"
proof -
  let ?e = "\<lparr>i_base_low = 0, i_selector = 0, i_zero = 0, i_type_attr = 0, i_base_high = 0\<rparr>"
  have "\<exists>t'. for_each (\<lambda>i. idt_set_gate (of_nat i) 0 0 0) [0..<256] t = Some t' \<and> (length t' = 256 \<and> (\<forall>j < 256. t' ! j = ?e))"
  proof (rule for_each_upt_total[where P = "\<lambda>i t. length t = 256 \<and> (\<forall>j < i. t ! j = ?e)", simplified])
    fix i and t :: "idt_entry list"
    assume "i < 256" "length t = 256 \<and> (\<forall>j < i. t ! j = ?e)"
    moreover from this have "unat (of_nat i :: u8) = i" by (simp add: unat_of_nat take_bit_nat_eq_self)
    ultimately show "\<exists>t'. idt_set_gate (word_of_nat i) 0 0 0 t = Some t' \<and> length t' = 256 \<and> (\<forall>j < Suc i. t' ! j = ?e)"
      by (auto simp: idt_set_gate_def nth_list_update less_Suc_eq)
  qed (use assms in auto)
  then show ?thesis by (auto simp: clear_gates_def gate_present_def)
qed

section \<open>Properties\<close>

text \<open>
  Which handler belongs to which vector, written down from the architecture and not from the table above: the processor
  numbers its exceptions from 0 and reserves 9 and 15, the interrupt controllers are remapped so that line \<open>i\<close> raises vector
  \<open>32 + i\<close> (the timer is on line 0, the keyboard on line 1), and user programs call the kernel by \<^verbatim>\<open>int 0x80\<close>. The lemma
  \<open>vector_handler_gates\<close> is the check that the table of \<^verbatim>\<open>interrupt_init\<close> agrees.
\<close>

definition exception_handlers :: "handler option list" where
  "exception_handlers =
     [Some divide_error, Some debug_exception, Some nmi, Some breakpoint, Some overflow, Some bound_range_exceeded,
      Some invalid_opcode, Some device_not_available, Some double_fault, None, Some invalid_tss, Some segment_not_present,
      Some stack_segment_fault, Some general_protection_fault, Some page_fault, None, Some x87_fpu_error,
      Some alignment_check, Some machine_check, Some simd_floating_point]"

definition vector_handler :: "nat \<Rightarrow> handler option" where
  "vector_handler n =
     (if n < 20 then exception_handlers ! n
      else if n = 32 + 0 then Some timer_irq
      else if n = 32 + 1 then Some keyboard_irq
      else if n = 0x80 then Some syscall_wrapper
      else None)"

lemma vector_handler_gates: "vector_handler n = map_option (\<lambda>(_, h, _). h) (find (\<lambda>(m, _, _). unat m = n) gates)"
proof (cases "n < 20")
  case True
  then have "n \<in> {0, 1, 2, 3, 4, 5, 6, 7, 8, 9, 10, 11, 12, 13, 14, 15, 16, 17, 18, 19}" by (simp, arith)
  then show ?thesis by (elim insertE emptyE) (simp_all add: vector_handler_def exception_handlers_def gates_def)
next
  case False
  then show ?thesis by (simp add: vector_handler_def gates_def)
qed

lemma load_idt_spec:
  assumes "length (idt s) = 256"
  shows "\<exists>s'. load_idt addr idt_addr s = Some s' \<and> length (idt s') = 256 \<and> idtr_base s' = idt_addr \<and> idtr_limit s' = 2047 \<and>
    (\<forall>n < 256. case vector_handler n of
       Some h \<Rightarrow> interrupt_gate (idt s' ! n) (addr h) (if n = 0x80 then 3 else 0)
     | None \<Rightarrow> \<not> gate_present (idt s' ! n))"
proof -
  obtain t where t: "clear_gates (idt s) = Some t" "length t = 256" "\<forall>i < 256. \<not> gate_present (t ! i)"
    using clear_gates_spec[OF assms] by blast
  have d: "distinct (map fst gates)" by (simp add: gates_def)
  obtain t' where t': "set_gates addr t = Some t'" "length t' = 256"
    "\<And>n h fl. (n, h, fl) \<in> set gates \<Longrightarrow> t' ! unat n = gate_of addr h fl" "\<And>n. n \<notin> fst ` set gates \<Longrightarrow> t' ! unat n = t ! unat n"
    using set_gates_list[OF t(2) d, of addr] unfolding set_gates_def by blast
  have fl: "fl = (if unat n = 0x80 then 0xEE else 0x8E)" if "(n, h, fl) \<in> set gates" for n h fl
    using that by (auto simp: gates_def)
  have g: "interrupt_gate (gate_of addr h (if b then 0xEE else 0x8E)) (addr h) (if b then 3 else 0)" for h b
    using gate_offset_roundtrip[of "addr h" "0x08"] by (simp add: interrupt_gate_def gate_of_def gate_present_def gate_dpl_def)
  have vec: "case vector_handler n of Some h \<Rightarrow> interrupt_gate (t' ! n) (addr h) (if n = 0x80 then 3 else 0) | None \<Rightarrow> \<not> gate_present (t' ! n)"
    if n: "n < 256" for n
  proof (cases "find (\<lambda>(m, _, _). unat m = n) gates")
    case None
    have u: "unat (of_nat n :: u8) = n" using n by (simp add: unat_of_nat take_bit_nat_eq_self)
    have "of_nat n \<notin> fst ` set gates" using None u by (fastforce simp: find_None_iff)
    from t'(4)[OF this] show ?thesis using None t(3) n u by (simp add: vector_handler_gates)
  next
    case (Some x)
    obtain m h fl' where x: "x = (m, h, fl')" by (cases x)
    have mem: "(m, h, fl') \<in> set gates" "unat m = n" using Some x by (auto simp: find_Some_iff dest: nth_mem)
    then have "t' ! n = gate_of addr h (if n = 0x80 then 0xEE else 0x8E)" using t'(3)[OF mem(1)] fl[OF mem(1)] mem(2) by simp
    then show ?thesis using Some x g[of h "n = 0x80"] by (simp add: vector_handler_gates)
  qed
  define s' where "s' = s\<lparr>idt := t', idtr_limit := 8 * 256 - 1, idtr_base := idt_addr\<rparr>"
  have s': "load_idt addr idt_addr s = Some s'" "idt s' = t'" "idtr_base s' = idt_addr" "idtr_limit s' = 2047"
    using t(1) t'(1) by (simp_all add: load_idt_def s'_def)
  show ?thesis by (rule exI[of _ s']) (use s' t'(2) vec in blast)
qed

text \<open>
  C38: after \<^verbatim>\<open>interrupt_init\<close> the processor finds for each of the 18 exceptions, the timer, the keyboard and the system call
  a present interrupt gate into the kernel code segment, to the handler that \<open>vector_handler\<close> assigns to that number from the
  numbering of the architecture, callable from ring 3 for the system call 0x80 only; every other vector is not present.
\<close>

theorem idt_complete:
  assumes "length (idt s) = 256"
  shows "\<exists>s'. load_idt addr idt_addr s = Some s' \<and> length (idt s') = 256 \<and> idtr_base s' = idt_addr \<and> idtr_limit s' = 2047 \<and>
    (\<forall>n < 256. case vector_handler n of
       Some h \<Rightarrow> interrupt_gate (idt s' ! n) (addr h) (if n = 0x80 then 3 else 0)
     | None \<Rightarrow> \<not> gate_present (idt s' ! n))"
  by (rule load_idt_spec[OF assms])

definition demo_idt :: idt_state where
  "demo_idt = \<lparr>idt = replicate 256 \<lparr>i_base_low = 0, i_selector = 0, i_zero = 0, i_type_attr = 0, i_base_high = 0\<rparr>,
     idtr_limit = 0, idtr_base = 0\<rparr>"

theorem idt_complete_witness:
  "\<exists>s'. load_idt (\<lambda>_. 0x12345678) 0x30000 demo_idt = Some s' \<and> interrupt_gate (idt s' ! 0x80) 0x12345678 3 \<and>
     interrupt_gate (idt s' ! 14) 0x12345678 0 \<and> \<not> gate_present (idt s' ! 9)"
proof -
  have h: "vector_handler 128 = Some syscall_wrapper" "vector_handler 14 = Some page_fault" "vector_handler 9 = None"
    by (simp_all add: vector_handler_def exception_handlers_def)
  obtain s' where s': "load_idt (\<lambda>_. 0x12345678) 0x30000 demo_idt = Some s'"
    and v: "\<forall>n < 256. case vector_handler n of Some h \<Rightarrow> interrupt_gate (idt s' ! n) 0x12345678 (if n = 0x80 then 3 else 0)
      | None \<Rightarrow> \<not> gate_present (idt s' ! n)"
    using idt_complete[of demo_idt "\<lambda>_. 0x12345678" "0x30000"] by (auto simp: demo_idt_def)
  from v[rule_format, of 128] v[rule_format, of 14] v[rule_format, of 9] h s' show ?thesis by simp
qed

end
