(* ===== verification/Kernel_State.thy ===== *)
theory Kernel_State
  imports Address_Space Scheduler Capability Pic Idt
begin

text \<open>
  The state of the whole kernel and the result type of its operations.

  The static variables of the modules are the fields of \<open>kernel\<close>. An operation that may reach
  \<^verbatim>\<open>context_switch_asm\<close>, \<^verbatim>\<open>kernel_panic\<close> or undefined behaviour yields an \<open>outcome\<close>. A context switch suspends
  the calling C code: \<open>Switch prev next k rest\<close> says that the processor has left for process \<open>next\<close>
  with the kernel in state \<open>k\<close>, and \<open>rest\<close> is the code that runs when \<open>prev\<close> is switched back to, as
  a function of the kernel state at that time. It never runs when \<open>prev\<close> is \<open>None\<close>, since
  then nothing was saved.
\<close>

text \<open>The functions a slot of \<^verbatim>\<open>syscall_table\<close> can point to.\<close>

datatype sys_handler =
    Sys_process_create | Sys_process_exit | Sys_process_yield | Sys_process_kill | Sys_memory_alloc | Sys_memory_free
  | Sys_memory_map | Sys_ipc_send | Sys_ipc_receive | Sys_ipc_register | Sys_driver_register | Sys_driver_request
  | Sys_system_shutdown | Sys_debug_print

record kernel =
  k_mm :: mm
  k_sched :: sched
  k_caps :: caps
  process_used :: "bool list"
  alloc_next_pid :: u32
  message_queues :: "u32 list"
  next_msg_id :: u32
  msg_handlers :: "u32 list"
  timer_ticks :: u32
  int_flag :: bool
  timer_frequency :: u32
  cpu_features :: u32
  syscall_table :: "sys_handler option list"
  kernel_initialized :: bool
  k_io :: io
  k_segs :: seg_state
  k_idt :: idt_state
  console :: string

datatype 'a outcome =
    Return 'a kernel
  | Switch "nat option" nat kernel "kernel \<Rightarrow> 'a outcome"
  | Halt kernel
  | Undef

primrec obind :: "'a outcome \<Rightarrow> ('a \<Rightarrow> kernel \<Rightarrow> 'b outcome) \<Rightarrow> 'b outcome" where
  "obind (Return a k) f = f a k"
| "obind (Switch p n k rest) f = Switch p n k (\<lambda>k'. obind (rest k') f)"
| "obind (Halt k) f = Halt k"
| "obind Undef f = Undef"

text \<open>Sequencing of kernel operations: \<open>f ;> g\<close> in prefix form.\<close>

definition kbind :: "(kernel \<Rightarrow> 'a outcome) \<Rightarrow> ('a \<Rightarrow> kernel \<Rightarrow> 'b outcome) \<Rightarrow> kernel \<Rightarrow> 'b outcome" where
  "kbind f g k = obind (f k) g"

section \<open>The console\<close>

text \<open>
  \<open>console\<close> is the text sent to the serial port so far. That the port functions of \<^verbatim>\<open>kernel/main.c\<close> transmit exactly this
  text is the subject of the theory \<open>Serial\<close>; here a print appends it, and \<^verbatim>\<open>vga_print\<close> also writes the screen cells.
\<close>

definition crlf :: string where
  "crlf = [CHR 0x0D, CHR 0x0A]"

definition print :: "string \<Rightarrow> kernel \<Rightarrow> kernel" where
  "print str k = k\<lparr>console := console k @ str\<rparr>"

definition print_hex :: "u32 \<Rightarrow> kernel \<Rightarrow> kernel" where
  "print_hex v k = print (hex_string v) k"

definition vga_write :: "string \<Rightarrow> u32 \<Rightarrow> memory \<Rightarrow> memory" where
  "vga_write str line m =
     foldl (\<lambda>m i. store16 m (VGA_MEMORY + 2 * (line * 80 + of_nat i)) (vga_cell (str ! i))) m [0..<length str]"

definition print_line :: "string \<Rightarrow> u32 \<Rightarrow> kernel \<Rightarrow> kernel" where
  "print_line str line k = print (str @ crlf) (k\<lparr>k_mm := (k_mm k)\<lparr>mem := vga_write str line (mem (k_mm k))\<rparr>\<rparr>)"

section \<open>Lifting the components\<close>

text \<open>Operations of the memory manager and of the scheduler as kernel operations.\<close>

definition on_mm :: "(mm \<Rightarrow> ('a \<times> mm) option) \<Rightarrow> kernel \<Rightarrow> 'a outcome" where
  "on_mm f k = (case f (k_mm k) of None \<Rightarrow> Undef | Some (a, s) \<Rightarrow> Return a (k\<lparr>k_mm := s\<rparr>))"

definition do_mm :: "(mm \<Rightarrow> mm option) \<Rightarrow> kernel \<Rightarrow> unit outcome" where
  "do_mm f k = (case f (k_mm k) of None \<Rightarrow> Undef | Some s \<Rightarrow> Return () (k\<lparr>k_mm := s\<rparr>))"

definition do_sched :: "(sched \<Rightarrow> sched option) \<Rightarrow> kernel \<Rightarrow> unit outcome" where
  "do_sched f k = (case f (k_sched k) of None \<Rightarrow> Undef | Some s \<Rightarrow> Return () (k\<lparr>k_sched := s\<rparr>))"

text \<open>
  A scheduler operation that may switch; when it is resumed there is nothing left for it to do. \<^verbatim>\<open>scheduler_switch_to\<close> traces
  each switch on the console.
\<close>

definition on_switch :: "(sched \<Rightarrow> (sched \<times> control) option) \<Rightarrow> kernel \<Rightarrow> unit outcome" where
  "on_switch f k = (case f (k_sched k) of
     None \<Rightarrow> Undef
   | Some (s, Returned) \<Rightarrow> Return () (k\<lparr>k_sched := s\<rparr>)
   | Some (s, Switched p n) \<Rightarrow> Switch p n (print ''S'' (k\<lparr>k_sched := s\<rparr>)) (Return ()))"

definition pcb_of :: "kernel \<Rightarrow> nat \<Rightarrow> pcb" where
  "pcb_of k p = pcbs (k_sched k) p"

definition set_pcb :: "nat \<Rightarrow> (pcb \<Rightarrow> pcb) \<Rightarrow> kernel \<Rightarrow> kernel" where
  "set_pcb p f k = k\<lparr>k_sched := upd_pcb p f (k_sched k)\<rparr>"

definition current_of :: "kernel \<Rightarrow> nat option" where
  "current_of k = scheduler_get_current (k_sched k)"

text \<open>\<^verbatim>\<open>hal_cpu_disable_interrupts\<close> followed by the endless halt loop.\<close>

definition halt_forever :: "kernel \<Rightarrow> 'a outcome" where
  "halt_forever k = Halt (k\<lparr>int_flag := False\<rparr>)"

definition kernel_panic :: "string \<Rightarrow> kernel \<Rightarrow> 'a outcome" where
  "kernel_panic message k =
     (let k = print_line ''KERNEL PANIC: '' 20 k;
          k = print_line message 21 k;
          k = print crlf k;
          k = print ''KERNEL PANIC: '' k;
          k = print message k;
          k = print crlf k
      in halt_forever k)"

lemma print_simps [simp]:
  "k_mm (print str k) = k_mm k" "k_sched (print str k) = k_sched k" "k_caps (print str k) = k_caps k"
  "process_used (print str k) = process_used k" "alloc_next_pid (print str k) = alloc_next_pid k"
  "message_queues (print str k) = message_queues k" "next_msg_id (print str k) = next_msg_id k"
  "msg_handlers (print str k) = msg_handlers k" "timer_ticks (print str k) = timer_ticks k" "int_flag (print str k) = int_flag k"
  "pcb_of (print str k) = pcb_of k" "current_of (print str k) = current_of k" "k_io (print str k) = k_io k"
  "console (print str k) = console k @ str"
  by (simp_all add: print_def pcb_of_def current_of_def fun_eq_iff)

lemma set_pcb_simps [simp]:
  "pcb_of (set_pcb p f k) = (pcb_of k)(p := f (pcb_of k p))"
  "k_mm (set_pcb p f k) = k_mm k" "k_caps (set_pcb p f k) = k_caps k"
  "process_used (set_pcb p f k) = process_used k" "alloc_next_pid (set_pcb p f k) = alloc_next_pid k"
  "message_queues (set_pcb p f k) = message_queues k" "next_msg_id (set_pcb p f k) = next_msg_id k"
  "msg_handlers (set_pcb p f k) = msg_handlers k" "timer_ticks (set_pcb p f k) = timer_ticks k"
  "int_flag (set_pcb p f k) = int_flag k" "current_of (set_pcb p f k) = current_of k"
  "k_sched (set_pcb p f k) = upd_pcb p f (k_sched k)"
  by (simp_all add: set_pcb_def pcb_of_def current_of_def scheduler_get_current_def fun_eq_iff)

text \<open>Laws of sequencing.\<close>

lemma obind_assoc: "obind (obind x f) g = obind x (\<lambda>a k. obind (f a k) g)"
  by (induction x) simp_all

lemma obind_Return [simp]: "obind x Return = x"
  by (induction x) simp_all

end
