(* ===== verification/Process.thy ===== *)
theory Process
  imports Kernel_State
begin

text \<open>
  Process management, \<^verbatim>\<open>kernel/process.c\<close>: the process table, identifiers, creation with an address
  space and stacks, termination, lookup, and the initial kernel stack of a process. A \<^verbatim>\<open>pcb_t*\<close> result is
  the slot of the control block, \<open>None\<close> for NULL.
\<close>

section \<open>The code\<close>

definition process_init :: "kernel \<Rightarrow> kernel" where
  "process_init k = print (''Process management initialized'' @ crlf) (k\<lparr>process_used := replicate MAX_PROCESSES False,
     k_sched := (k_sched k)\<lparr>pcbs := \<lambda>i. if i < MAX_PROCESSES then zero_pcb else pcb_of k i\<rparr>\<rparr>)"

text \<open>The inner loop of \<^verbatim>\<open>process_allocate_pid\<close>.\<close>

definition pid_used :: "kernel \<Rightarrow> u32 \<Rightarrow> bool" where
  "pid_used k pid \<longleftrightarrow> list_ex (\<lambda>j. process_used k ! j \<and> p_pid (pcb_of k j) = pid) [0..<MAX_PROCESSES]"

definition candidate_pid :: "kernel \<Rightarrow> nat \<Rightarrow> u32" where
  "candidate_pid k i = (alloc_next_pid k + of_nat i) mod of_nat MAX_PROCESSES"

definition process_allocate_pid :: "kernel \<Rightarrow> u32 \<times> kernel" where
  "process_allocate_pid k =
     (case find (\<lambda>i. candidate_pid k i \<noteq> 0 \<and> \<not> pid_used k (candidate_pid k i)) [0..<MAX_PROCESSES] of
        None \<Rightarrow> (0, k)
      | Some i \<Rightarrow> (candidate_pid k i, k\<lparr>alloc_next_pid := candidate_pid k i + 1\<rparr>))"

definition process_free_pid :: "u32 \<Rightarrow> kernel \<Rightarrow> kernel" where
  "process_free_pid pid k = k"

definition process_cleanup :: "nat option \<Rightarrow> kernel \<Rightarrow> unit outcome" where
  "process_cleanup process k = (case process of
     None \<Rightarrow> Return () k
   | Some p \<Rightarrow>
       obind (if p_page_directory (pcb_of k p) \<noteq> 0 \<and> p_page_directory (pcb_of k p) \<noteq> kernel_page_dir (k_mm k)
              then do_mm (memory_destroy_page_directory (p_page_directory (pcb_of k p))) k
              else Return () k) (\<lambda>_ k.
       obind (if p_kernel_stack (pcb_of k p) \<noteq> 0
              then do_mm (memory_free_pages (p_kernel_stack (pcb_of k p)) 2) k else Return () k) (\<lambda>_ k.
       if p_user_stack (pcb_of k p) \<noteq> 0
       then do_mm (memory_free_pages (p_user_stack (pcb_of k p)) 4) k else Return () k)))"

text \<open>The loops that map the \<open>n\<close> pages of a stack at their own addresses.\<close>

definition map_stack :: "u32 \<Rightarrow> u32 \<Rightarrow> nat \<Rightarrow> u32 \<Rightarrow> mm \<Rightarrow> mm option" where
  "map_stack pd stack n flags =
     for_each (\<lambda>i. memory_map_page pd (stack + of_nat i * PAGE_SIZE) (stack + of_nat i * PAGE_SIZE) flags) [0..<n]"

definition process_create_internal :: "u32 \<Rightarrow> bool \<Rightarrow> kernel \<Rightarrow> nat option outcome" where
  "process_create_internal parent_pid is_user k =
     (case find (\<lambda>i. \<not> process_used k ! i) [0..<MAX_PROCESSES] of
        None \<Rightarrow> Return None k
      | Some slot \<Rightarrow>
     (let (pid, k) = process_allocate_pid k in
      if pid = 0 then Return None k
      else
      let k = set_pcb slot (\<lambda>_. zero_pcb\<lparr>p_pid := pid, p_parent_pid := parent_pid,
                p_state := PROCESS_CREATED, p_priority := 5, p_is_user := is_user\<rparr>) k in
      obind (on_mm memory_create_page_directory k) (\<lambda>pd k.
      let k = set_pcb slot (\<lambda>c. c\<lparr>p_page_directory := pd\<rparr>) k in
      if pd = 0 then Return None k
      else
      obind (do_mm (memory_map_kernel pd) k) (\<lambda>_ k.
      obind (on_mm (memory_alloc_pages 2) k) (\<lambda>ks k.
      let k = set_pcb slot (\<lambda>c. c\<lparr>p_kernel_stack := ks\<rparr>) k in
      if ks = 0 then obind (process_cleanup (Some slot) k) (\<lambda>_. Return None)
      else
      obind (do_mm (map_stack pd ks 2 0x03) k) (\<lambda>_ k.
      if is_user then
        obind (on_mm (memory_alloc_pages 4) k) (\<lambda>us k.
        let k = set_pcb slot (\<lambda>c. c\<lparr>p_user_stack := us\<rparr>) k in
        if us = 0 then obind (process_cleanup (Some slot) k) (\<lambda>_. Return None)
        else
        obind (do_mm (map_stack pd us 4 0x07) k) (\<lambda>_ k.
        Return (Some slot) (k\<lparr>process_used := (process_used k)[slot := True]\<rparr>)))
      else Return (Some slot) (k\<lparr>process_used := (process_used k)[slot := True]\<rparr>)))))))"

definition process_create :: "u32 \<Rightarrow> kernel \<Rightarrow> nat option outcome" where
  "process_create parent_pid k = process_create_internal parent_pid True k"

definition process_create_kernel :: "kernel \<Rightarrow> nat option outcome" where
  "process_create_kernel k = process_create_internal 0 False k"

definition exit_message :: "u32 \<Rightarrow> kernel \<Rightarrow> kernel" where
  "exit_message pid k = print crlf (print_hex pid (print ''Terminating Process '' k))"

definition process_exit :: "nat option \<Rightarrow> u32 \<Rightarrow> kernel \<Rightarrow> unit outcome" where
  "process_exit process exit_code k = (case process of
     None \<Rightarrow> Return () k
   | Some p \<Rightarrow>
       (let pid = p_pid (pcb_of k p);
            k = exit_message pid k;
            k = set_pcb p (\<lambda>c. c\<lparr>p_state := PROCESS_TERMINATED, p_exit_code := exit_code\<rparr>) k in
        obind (on_switch (scheduler_remove_process (Some p)) k) (\<lambda>_ k.
        obind (process_cleanup (Some p) k) (\<lambda>_ k.
        let k = (if p < MAX_PROCESSES then k\<lparr>process_used := (process_used k)[p := False]\<rparr> else k)
        in Return () (process_free_pid pid k)))))"

definition process_find :: "u32 \<Rightarrow> kernel \<Rightarrow> nat option" where
  "process_find pid k = find (\<lambda>i. process_used k ! i \<and> p_pid (pcb_of k i) = pid) [0..<MAX_PROCESSES]"

definition process_kill :: "u32 \<Rightarrow> kernel \<Rightarrow> status_t outcome" where
  "process_kill pid k = (case process_find pid k of
     None \<Rightarrow> Return STATUS_NOT_FOUND k
   | Some p \<Rightarrow> obind (process_exit (Some p) 0 k) (\<lambda>_. Return STATUS_SUCCESS))"

text \<open>
  \<^verbatim>\<open>*--kernel_stack = v\<close>. The address of \<^verbatim>\<open>first_run_user_handler\<close> is fixed by the linker and is the
  parameter \<open>frh\<close>.
\<close>

definition push_word :: "u32 \<Rightarrow> memory \<times> u32 \<Rightarrow> memory \<times> u32" where
  "push_word v ms = (store32 (fst ms) (snd ms - 4) v, snd ms - 4)"

definition push_words :: "u32 list \<Rightarrow> memory \<times> u32 \<Rightarrow> memory \<times> u32" where
  "push_words vs ms = foldl (\<lambda>ms v. push_word v ms) ms vs"

definition user_frame :: "u32 \<Rightarrow> u32 \<Rightarrow> u32 \<Rightarrow> u32 list" where
  "user_frame frh user_stack entry_point =
     [0x23, user_stack + 16384, 0x202, 0x1B, entry_point,
      0, 0,
      0, 0, 0, 0, 0, 0, 0, 0,
      0x23, 0x23, 0x23, 0x23,
      frh]"

definition switch_frame :: "u32 list" where
  "switch_frame = [0x202, 0, 0, 0, 0]"

definition process_setup_stack :: "u32 \<Rightarrow> nat option \<Rightarrow> u32 \<Rightarrow> kernel \<Rightarrow> unit outcome" where
  "process_setup_stack frh process entry_point k = (case process of
     None \<Rightarrow> kernel_panic ''Invalid process setup'' k
   | Some p \<Rightarrow>
       if entry_point = 0 then kernel_panic ''Invalid process setup'' k
       else
         let c = pcb_of k p;
             ms = (mem (k_mm k), p_kernel_stack c + 8192);
             ms = (if p_is_user c then push_words (user_frame frh (p_user_stack c) entry_point) ms
                   else push_word entry_point ms);
             (m, sp) = push_words switch_frame ms;
             k = k\<lparr>k_mm := (k_mm k)\<lparr>mem := m\<rparr>\<rparr>
         in Return () (set_pcb p (\<lambda>c. c\<lparr>p_registers := (p_registers c)[4 := sp]\<rparr>) k))"

lemma exit_message_simps [simp]:
  "k_mm (exit_message pid k) = k_mm k" "k_sched (exit_message pid k) = k_sched k"
  "process_used (exit_message pid k) = process_used k" "alloc_next_pid (exit_message pid k) = alloc_next_pid k"
  "message_queues (exit_message pid k) = message_queues k" "pcb_of (exit_message pid k) = pcb_of k"
  "current_of (exit_message pid k) = current_of k"
  by (simp_all add: exit_message_def print_hex_def)

section \<open>Identifiers\<close>

lemma unat_MAX_PROCESSES [simp]: "unat (of_nat MAX_PROCESSES :: u32) = MAX_PROCESSES"
  by (simp add: MAX_PROCESSES_def)

lemma candidate_unat: "unat (candidate_pid k i) = (unat (alloc_next_pid k) + i) mod MAX_PROCESSES"
proof -
  have "unat (candidate_pid k i) = unat (alloc_next_pid k + of_nat i :: u32) mod MAX_PROCESSES"
    by (simp add: candidate_pid_def unat_mod)
  also have "unat (alloc_next_pid k + of_nat i :: u32) = (unat (alloc_next_pid k) + i) mod 2 ^ 32"
    by (simp add: unat_word_ariths unat_of_nat take_bit_eq_mod mod_add_right_eq)
  also have "\<dots> mod MAX_PROCESSES = (unat (alloc_next_pid k) + i) mod MAX_PROCESSES"
    by (rule mod_mod_cancel) (simp add: MAX_PROCESSES_def)
  finally show ?thesis .
qed

lemma pid_used_iff: "pid_used k pid \<longleftrightarrow> (\<exists>j < MAX_PROCESSES. process_used k ! j \<and> p_pid (pcb_of k j) = pid)"
  by (auto simp: pid_used_def list_ex_iff)

text \<open>Every identifier below the table size is a candidate: the residues of consecutive numbers.\<close>

lemma candidate_surj:
  assumes "unat pid < MAX_PROCESSES"
  obtains i where "i < MAX_PROCESSES" "candidate_pid k i = pid"
proof -
  let ?n = "unat (alloc_next_pid k) mod MAX_PROCESSES"
  let ?i = "(unat pid + MAX_PROCESSES - ?n) mod MAX_PROCESSES"
  have M: "0 < MAX_PROCESSES" "?n < MAX_PROCESSES" by (simp_all add: MAX_PROCESSES_def)
  have "(unat (alloc_next_pid k) + ?i) mod MAX_PROCESSES = (?n + (unat pid + MAX_PROCESSES - ?n)) mod MAX_PROCESSES"
    by (simp add: mod_add_left_eq mod_add_right_eq)
  also have "?n + (unat pid + MAX_PROCESSES - ?n) = unat pid + MAX_PROCESSES" using M(2) by linarith
  also have "\<dots> mod MAX_PROCESSES = unat pid" using assms by simp
  finally have "candidate_pid k ?i = pid" by (simp add: word32_eq_iff_unat candidate_unat)
  then show thesis using that[of ?i] M(1) by simp
qed

lemma allocate_pid_cases:
  obtains (none) "process_allocate_pid k = (0, k)" "\<And>pid. pid \<noteq> 0 \<Longrightarrow> unat pid < MAX_PROCESSES \<Longrightarrow> pid_used k pid"
    | (some) pid where "process_allocate_pid k = (pid, k\<lparr>alloc_next_pid := pid + 1\<rparr>)" "pid \<noteq> 0"
      "unat pid < MAX_PROCESSES" "\<not> pid_used k pid"
proof (cases "find (\<lambda>i. candidate_pid k i \<noteq> 0 \<and> \<not> pid_used k (candidate_pid k i)) [0..<MAX_PROCESSES]")
  case None
  have "pid_used k pid" if "pid \<noteq> 0" "unat pid < MAX_PROCESSES" for pid
    using None that(1) candidate_surj[OF that(2), of k] unfolding find_upt_None_iff by metis
  then show thesis using None by (intro none) (simp_all add: process_allocate_pid_def)
next
  case (Some i)
  then have "candidate_pid k i \<noteq> 0" "\<not> pid_used k (candidate_pid k i)" unfolding find_upt_Some_iff by blast+
  then show thesis
    using Some candidate_unat[of k i]
    by (intro some[of "candidate_pid k i"]) (simp_all add: process_allocate_pid_def MAX_PROCESSES_def)
qed

text \<open>The table invariant: identifiers of processes in use are positive, small and distinct.\<close>

definition proc_inv :: "kernel \<Rightarrow> bool" where
  "proc_inv k \<longleftrightarrow> length (process_used k) = MAX_PROCESSES \<and>
     (\<forall>i < MAX_PROCESSES. process_used k ! i \<longrightarrow> p_pid (pcb_of k i) \<noteq> 0 \<and> unat (p_pid (pcb_of k i)) < MAX_PROCESSES) \<and>
     (\<forall>i < MAX_PROCESSES. \<forall>j < MAX_PROCESSES. process_used k ! i \<longrightarrow> process_used k ! j \<longrightarrow>
        p_pid (pcb_of k i) = p_pid (pcb_of k j) \<longrightarrow> i = j)"

lemma process_find_iff:
  assumes "proc_inv k"
  shows "process_find pid k = Some p \<longleftrightarrow> p < MAX_PROCESSES \<and> process_used k ! p \<and> p_pid (pcb_of k p) = pid"
proof
  assume R: "p < MAX_PROCESSES \<and> process_used k ! p \<and> p_pid (pcb_of k p) = pid"
  have "\<not> (process_used k ! j \<and> p_pid (pcb_of k j) = pid)" if "j < p" for j
  proof
    assume "process_used k ! j \<and> p_pid (pcb_of k j) = pid"
    then have "j = p" using assms R that unfolding proc_inv_def by (metis less_trans)
    then show False using that by simp
  qed
  then show "process_find pid k = Some p" using R unfolding process_find_def find_upt_Some_iff by blast
qed (auto simp: process_find_def find_upt_Some_iff)

section \<open>Finding room after other allocations\<close>

lemma card_Diff_split:
  assumes "finite A" "U \<subseteq> V"
  shows "card ((A - U) \<inter> V) + card (A - V) = card (A - U)"
proof -
  have "A - U = ((A - U) \<inter> V) \<union> (A - V)" using assms(2) by blast
  moreover have "card (((A - U) \<inter> V) \<union> (A - V)) = card ((A - U) \<inter> V) + card (A - V)"
    by (rule card_Un_disjoint) (use assms(1) in auto)
  ultimately show ?thesis by simp
qed

lemma avail_diff: "used s \<subseteq> used s' \<Longrightarrow> card (({..<4095} - used s) \<inter> used s') + avail s' = avail s"
  unfolding avail_def by (rule card_Diff_split) simp_all

text \<open>A long free run still has a free block of \<open>c\<close> pages after fewer than \<open>n\<close> pages were taken.\<close>

lemma run_survives:
  assumes run: "free_run (used s) (n * c) b" "b + n * c \<le> 4095" and c: "0 < c"
    and sub: "used s \<subseteq> used s'" and few: "avail s < avail s' + n"
  shows "\<exists>j. j + c \<le> 4095 \<and> free_run (used s') c j"
proof -
  define Y where "Y = {b..<b + n * c} \<inter> used s'"
  have "Y \<subseteq> ({..<4095} - used s) \<inter> used s'" using run unfolding Y_def free_run_def by auto
  then have "card Y \<le> card (({..<4095} - used s) \<inter> used s')" by (intro card_mono) auto
  then have "card Y < n" using avail_diff[OF sub] few by simp
  moreover have "finite Y" by (simp add: Y_def)
  ultimately have "card ((\<lambda>y. (y - b) div c) ` Y) < n" using card_image_le le_less_trans by blast
  then have "\<not> {..<n} \<subseteq> (\<lambda>y. (y - b) div c) ` Y"
    using card_mono[of "(\<lambda>y. (y - b) div c) ` Y" "{..<n}"] \<open>finite Y\<close> by fastforce
  then obtain i where i: "i < n" "\<And>y. y \<in> Y \<Longrightarrow> (y - b) div c \<noteq> i" by auto
  have le: "(i + 1) * c \<le> n * c" using i(1) by (intro mult_le_mono1) simp
  have "y \<notin> used s'" if "b + i * c \<le> y" "y < b + i * c + c" for y
  proof
    assume "y \<in> used s'"
    then have "y \<in> Y" using that le by (auto simp: Y_def algebra_simps)
    moreover have "(y - b) div c = i" using that by (intro div_nat_eqI) (auto simp: algebra_simps)
    ultimately show False using i(2) by blast
  qed
  then have "free_run (used s') c (b + i * c)" by (auto simp: free_run_def)
  moreover have "b + i * c + c \<le> 4095" using le run(2) by (simp add: algebra_simps)
  ultimately show ?thesis by blast
qed

section \<open>The memory of a process\<close>

lemma alloc_run:
  assumes inv: "mm_inv s" and c: "0 < unat c" and run: "free_run (used s) (unat c) j" "j + unat c \<le> 4095"
  obtains p s' where "memory_alloc_pages c s = Some (page_addr p, s')" "0 < p" "p + unat c \<le> 4095"
    "{p..<p + unat c} \<inter> used s = {}" "used s' = used s \<union> {p..<p + unat c}" "mm_inv s'" "mm_content s' = mm_content s"
proof -
  have wf: "wf_bitmap (page_bitmap s)" and z: "0 \<in> used s" using inv by (simp_all add: mm_inv_def)
  have le: "unat c \<le> 4096" using run(2) by simp
  from wf le show thesis
  proof (cases rule: alloc_cases)
    case fail
    moreover have "j < 4096 - unat c" using run(2) by simp
    ultimately show thesis using run(1) by blast
  next
    case (success k bm)
    have "k \<noteq> 0" using success(2) z c by (auto simp: free_run_def)
    moreover have "{k..<k + unat c} \<inter> used s = {}" using success(2) by (simp add: free_run_def)
    ultimately show thesis
      using success(1,4-6) z by (intro that[OF success(6)]) (auto simp: used_def mm_inv_def mm_content_def)
  qed
qed

lemma aspace_rep_mono:
  assumes "aspace_rep pd s f" "mem s' = mem s" "used s \<subseteq> used s'" "mm_inv s'"
  shows "aspace_rep pd s' f"
  using assms unfolding aspace_rep_def pd_wf_def by (auto dest: subsetD)

lemma aspace_ready:
  assumes "aspace_rep pd s f" "f v = Some e" "v < 2 ^ 20"
  shows "map_ready pd s v"
proof -
  have "entry_ok (mem s) pd (page_addr v) (f (vpn (page_addr v)))" using assms(1) by (simp add: aspace_rep_def)
  then have "load32 (mem s) (ent pd (pdi (page_addr v))) AND 3 = 3"
    using assms(2,3) by (cases e) (simp add: vpn_page_addr)
  then show ?thesis using assms(3) present_of_low by (simp add: map_ready_def)
qed

definition overlay :: "nat \<Rightarrow> nat \<Rightarrow> bool \<Rightarrow> aspace \<Rightarrow> aspace" where
  "overlay p n u f = (\<lambda>v. if v \<in> {p..<p + n} then Some (page_addr v, u) else f v)"

lemma foldl_overlay: "foldl (\<lambda>f i. f(p + i \<mapsto> (page_addr (p + i), u))) f [0..<n] = overlay p n u f"
  by (induction n) (auto simp: overlay_def fun_eq_iff)

lemma map_stack_rep:
  assumes rep: "aspace_rep pd s f" and dom: "\<And>i. i < n \<Longrightarrow> f (p + i) \<noteq> None" and lt: "p + n \<le> 4096"
  shows "\<exists>s'. map_stack pd (page_addr p) n (map_flags u) s = Some s' \<and> aspace_rep pd s' (overlay p n u f) \<and>
    map_rest pd s' = map_rest pd s"
proof -
  have "map_ready pd s (p + i)" if "i \<in> set [0..<n]" for i
    using aspace_ready[OF rep, of "p + i"] dom[of i] that lt by auto
  then obtain s' where "for_each (\<lambda>i. map_vpn pd (p + i) (page_addr (p + i), u)) [0..<n] s = Some s'"
    "aspace_rep pd s' (foldl (\<lambda>f i. f(p + i \<mapsto> (page_addr (p + i), u))) f [0..<n])" "map_rest pd s' = map_rest pd s"
    using pm.map_list[OF rep, of "[0..<n]" "\<lambda>i. p + i" "\<lambda>i. (page_addr (p + i), u)"] by blast
  moreover have "page_addr p + of_nat i * PAGE_SIZE = page_addr (p + i)" for i
    by (simp add: page_addr_def algebra_simps)
  ultimately show ?thesis by (simp add: map_stack_def map_vpn_def foldl_overlay)
qed

lemma overlay_kernel: "p + n \<le> 4096 \<Longrightarrow> overlay p n False (kernel_space 4096) = kernel_space 4096"
  by (auto simp: overlay_def kernel_space_def fun_eq_iff)

lemma map_flags_eq: "3 = map_flags False" "7 = map_flags True"
  by (simp_all add: map_flags_def)

text \<open>A new directory with the kernel mapped into it.\<close>

lemma process_directory:
  assumes inv: "mm_inv s" and room: "5 \<le> avail s"
  obtains k s1 s2 where "memory_create_page_directory s = Some (page_addr k, s1)" "0 < k" "k < 4095" "k \<notin> used s"
    "memory_map_kernel (page_addr k) s1 = Some s2" "aspace_rep (page_addr k) s2 (kernel_space 4096)"
    "used s2 = used s \<union> insert k (table_frames (mem s2) (page_addr k))"
    "insert k (table_frames (mem s2) (page_addr k)) \<inter> used s = {}" "avail s = avail s2 + 5" "mm_regs s2 = mm_regs s"
    "\<And>a. unat a div 4096 \<in> used s \<Longrightarrow> mem s2 a = mem s a"
proof -
  have "\<exists>k < 4095. k \<notin> used s" using room by (intro avail_pos) simp
  then obtain k t where k: "memory_alloc_pages 1 s = Some (page_addr k, t)" "0 < k" "k < 4095" "k \<notin> used s"
    "used t = insert k (used s)" "mm_inv t" "mem t = mem s" "mm_regs t = mm_regs s"
    using alloc_one[OF inv] by metis
  let ?pd = "page_addr k"
  let ?s1 = "t\<lparr>mem := memset (mem t) ?pd 0 4096\<rparr>"
  have pd: "page_aligned ?pd" "unat ?pd div 4096 = k" "?pd \<noteq> 0"
    using k(2,3) by (simp_all add: unat_page_addr page_addr_eq_0_iff)
  have cr: "memory_create_page_directory s = Some (?pd, ?s1)"
    using k(1) pd(3) by (simp add: memory_create_page_directory_def)
  have u1: "used ?s1 = insert k (used s)" using k(5) by (simp add: used_def)
  have K0: "kmap_inv ?s1 ?pd 0 ?s1"
    using pd k(6) by (intro kmap_start) (auto simp: mm_inv_def used_def k(5)[unfolded used_def] load32_memset_ent)
  have av: "Suc (avail ?s1) = avail s" using avail_insert[OF k(3,4) u1] .
  then have "4 \<le> avail ?s1" using room by simp
  from kernel_aspace[OF K0 this] obtain s2 where s2: "memory_map_kernel ?pd ?s1 = Some s2" "kmap_inv ?s1 ?pd 4096 s2"
    "aspace_rep ?pd s2 (kernel_space 4096)" by blast
  have f: "mm_regs s2 = mm_regs ?s1" "avail s2 + (4096 + 1023) div 1024 = avail ?s1"
    "used s2 = used ?s1 \<union> table_frames (mem s2) ?pd" "table_frames (mem s2) ?pd \<inter> used ?s1 = {}"
    using s2(2) unfolding kmap_inv_def by blast+
  have frame: "mem s2 a = mem s a" if "unat a div 4096 \<in> used s" for a :: u32
  proof -
    have ne: "unat a div 4096 \<noteq> k" using that k(4) by auto
    then have "mem s2 a = mem ?s1 a" using kmap_frame[OF s2(2), of a] that u1 pd(2) by simp
    then show ?thesis using memset_page[OF pd(1)] ne pd(2) k(7) by simp
  qed
  show thesis
    by (rule that[OF cr k(2-4) s2(1,3)])
      (use f av u1 k(4,8) frame in \<open>auto simp: mm_regs_def\<close>)
qed

text \<open>What creation leaves in memory: directory, tables and stacks, all fresh.\<close>

definition process_frames :: "memory \<Rightarrow> nat \<Rightarrow> nat \<Rightarrow> nat option \<Rightarrow> nat set" where
  "process_frames m k p u = insert k (table_frames m (page_addr k)) \<union> {p..<p + 2} \<union>
     (case u of None \<Rightarrow> {} | Some q \<Rightarrow> {q..<q + 4})"

definition roomy :: "mm \<Rightarrow> bool" where
  "roomy s \<longleftrightarrow> (\<exists>b. b + 32 \<le> 4095 \<and> free_run (used s) 32 b)"

lemma roomy_avail: "roomy s \<Longrightarrow> 32 \<le> avail s"
proof -
  assume "roomy s"
  then obtain b where b: "b + 32 \<le> 4095" "free_run (used s) 32 b" by (auto simp: roomy_def)
  then have "{b..<b + 32} \<subseteq> {..<4095} - used s" by (auto simp: free_run_def)
  then have "card {b..<b + 32} \<le> avail s" unfolding avail_def by (intro card_mono) auto
  then show ?thesis by simp
qed

lemma mm_content_regs: "mm_content s' = mm_content s \<Longrightarrow> mem s' = mem s \<and> mm_regs s' = mm_regs s"
  by (simp add: mm_content_def mm_regs_def)

lemma map_rest_used: "map_rest pd s' = map_rest pd s \<Longrightarrow> used s' = used s \<and> mm_regs s' = mm_regs s \<and>
    table_frames (mem s') pd = table_frames (mem s) pd"
  by (simp add: map_rest_def)

lemma map_rest_mem:
  assumes "map_rest pd s' = map_rest pd s" "unat a div 4096 \<notin> insert (unat pd div 4096) (table_frames (mem s) pd)"
  shows "mem s' a = mem s a"
proof -
  have "outside pd s' a = outside pd s a" "table_frames (mem s') pd = table_frames (mem s) pd"
    using assms(1) by (simp_all add: map_rest_def)
  then show ?thesis using assms(2) by (simp add: outside_def)
qed

lemma avail_range:
  assumes "{p..<p + n} \<inter> used s = {}" "used s' = used s \<union> {p..<p + n}" "p + n \<le> 4095"
  shows "avail s' + n = avail s"
proof -
  have "({..<4095} - used s) \<inter> used s' = {p..<p + n}" using assms by auto
  then show ?thesis using avail_diff[of s s'] assms(2) by simp
qed

lemma process_kernel_memory:
  assumes inv: "mm_inv s" and room: "roomy s"
  obtains k s1 s2 p s3 s4 where "memory_create_page_directory s = Some (page_addr k, s1)" "0 < k" "k < 4095"
    "memory_map_kernel (page_addr k) s1 = Some s2" "memory_alloc_pages 2 s2 = Some (page_addr p, s3)" "0 < p" "p + 2 \<le> 4095"
    "map_stack (page_addr k) (page_addr p) 2 3 s3 = Some s4"
    "aspace_rep (page_addr k) s4 (kernel_space 4096)" "used s4 = used s \<union> process_frames (mem s4) k p None"
    "process_frames (mem s4) k p None \<inter> used s = {}" "{p..<p + 2} \<inter> insert k (table_frames (mem s4) (page_addr k)) = {}"
    "avail s = avail s4 + 7" "mm_regs s4 = mm_regs s"
    "\<And>a. unat a div 4096 \<in> used s \<Longrightarrow> mem s4 a = mem s a"
proof -
  have "5 \<le> avail s" using roomy_avail[OF room] by simp
  from process_directory[OF inv this] obtain k s1 s2 where
    k: "memory_create_page_directory s = Some (page_addr k, s1)" "0 < k" "k < 4095" "k \<notin> used s"
    "memory_map_kernel (page_addr k) s1 = Some s2" "aspace_rep (page_addr k) s2 (kernel_space 4096)"
    "used s2 = used s \<union> insert k (table_frames (mem s2) (page_addr k))"
    "insert k (table_frames (mem s2) (page_addr k)) \<inter> used s = {}" "avail s = avail s2 + 5" "mm_regs s2 = mm_regs s"
    and fr2: "\<And>a. unat a div 4096 \<in> used s \<Longrightarrow> mem s2 a = mem s a" by metis
  let ?pd = "page_addr k"
  have pdk: "unat ?pd div 4096 = k" using k(3) by (simp add: unat_page_addr)
  obtain b where b: "b + 16 * 2 \<le> 4095" "free_run (used s) (16 * 2) b" using room by (auto simp: roomy_def)
  have "\<exists>j. j + 2 \<le> 4095 \<and> free_run (used s2) 2 j"
    by (rule run_survives[OF b(2,1)]) (use k(7,9) in auto)
  then obtain j where j: "j + 2 \<le> 4095" "free_run (used s2) 2 j" by blast
  have inv2: "mm_inv s2" using k(6) by (simp add: aspace_rep_def)
  from alloc_run[OF inv2, of 2 j] j obtain p s3 where
    p: "memory_alloc_pages 2 s2 = Some (page_addr p, s3)" "0 < p" "p + 2 \<le> 4095" "{p..<p + 2} \<inter> used s2 = {}"
    "used s3 = used s2 \<union> {p..<p + 2}" "mm_inv s3" "mm_content s3 = mm_content s2" by auto
  have c3: "mem s3 = mem s2" "mm_regs s3 = mm_regs s2" using mm_content_regs[OF p(7)] by auto
  have rep3: "aspace_rep ?pd s3 (kernel_space 4096)"
    using aspace_rep_mono[OF k(6) c3(1) _ p(6)] p(5) by auto
  have "kernel_space 4096 (p + i) \<noteq> None" if "i < 2" for i using that p(3) by (simp add: kernel_space_def)
  from map_stack_rep[OF rep3 this, where u = False and n = 2] p(3) obtain s4 where
    s4: "map_stack ?pd (page_addr p) 2 3 s3 = Some s4" "aspace_rep ?pd s4 (kernel_space 4096)" "map_rest ?pd s4 = map_rest ?pd s3"
    by (auto simp: overlay_kernel map_flags_eq[symmetric])
  note m4 = map_rest_used[OF s4(3)]
  have fr4: "mem s4 a = mem s a" if "unat a div 4096 \<in> used s" for a :: u32
  proof -
    have "unat a div 4096 \<notin> insert (unat ?pd div 4096) (table_frames (mem s3) ?pd)"
      unfolding c3(1) pdk using that k(8) by blast
    from map_rest_mem[OF s4(3) this] show ?thesis using c3(1) fr2[OF that] by simp
  qed
  have av: "avail s = avail s4 + 7"
    using k(9) avail_range[OF p(4,5,3)] m4 by (simp add: avail_def)
  show thesis
    by (rule that[OF k(1-3,5) p(1-3) s4(1,2) _ _ _ av _ fr4])
      (use m4 c3 k(7,8,10) p(4,5) in \<open>auto simp: process_frames_def\<close>)
qed

lemma process_user_memory:
  assumes inv: "mm_inv s" and room: "roomy s"
    and rep: "aspace_rep (page_addr k) s4 (kernel_space 4096)" and k: "k < 4095"
    and u4: "used s4 = used s \<union> process_frames (mem s4) k p None" "process_frames (mem s4) k p None \<inter> used s = {}"
    and av: "avail s = avail s4 + 7" and fr4: "\<And>a. unat a div 4096 \<in> used s \<Longrightarrow> mem s4 a = mem s a"
  obtains q s5 s6 where "memory_alloc_pages 4 s4 = Some (page_addr q, s5)" "0 < q" "q + 4 \<le> 4095"
    "map_stack (page_addr k) (page_addr q) 4 7 s5 = Some s6"
    "aspace_rep (page_addr k) s6 (overlay q 4 True (kernel_space 4096))"
    "used s6 = used s \<union> process_frames (mem s6) k p (Some q)" "process_frames (mem s6) k p (Some q) \<inter> used s = {}"
    "table_frames (mem s6) (page_addr k) = table_frames (mem s4) (page_addr k)"
    "{q..<q + 4} \<inter> process_frames (mem s6) k p None = {}" "mm_regs s6 = mm_regs s4" "avail s = avail s6 + 11"
    "\<And>a. unat a div 4096 \<in> used s \<Longrightarrow> mem s6 a = mem s a"
proof -
  let ?pd = "page_addr k"
  have pdk: "unat ?pd div 4096 = k" using k by (simp add: unat_page_addr)
  obtain b where b: "b + 8 * 4 \<le> 4095" "free_run (used s) (8 * 4) b" using room by (auto simp: roomy_def)
  have "\<exists>j. j + 4 \<le> 4095 \<and> free_run (used s4) 4 j"
    by (rule run_survives[OF b(2,1)]) (use u4(1) av in auto)
  then obtain j where j: "j + 4 \<le> 4095" "free_run (used s4) 4 j" by blast
  have inv4: "mm_inv s4" using rep by (simp add: aspace_rep_def)
  from alloc_run[OF inv4, of 4 j] j obtain q s5 where
    q: "memory_alloc_pages 4 s4 = Some (page_addr q, s5)" "0 < q" "q + 4 \<le> 4095" "{q..<q + 4} \<inter> used s4 = {}"
    "used s5 = used s4 \<union> {q..<q + 4}" "mm_inv s5" "mm_content s5 = mm_content s4" by auto
  have c5: "mem s5 = mem s4" "mm_regs s5 = mm_regs s4" using mm_content_regs[OF q(7)] by auto
  have rep5: "aspace_rep ?pd s5 (kernel_space 4096)"
    using aspace_rep_mono[OF rep c5(1) _ q(6)] q(5) by auto
  have "kernel_space 4096 (q + i) \<noteq> None" if "i < 4" for i using that q(3) by (simp add: kernel_space_def)
  from map_stack_rep[OF rep5 this, where u = True and n = 4] q(3) obtain s6 where
    s6: "map_stack ?pd (page_addr q) 4 7 s5 = Some s6" "aspace_rep ?pd s6 (overlay q 4 True (kernel_space 4096))"
    "map_rest ?pd s6 = map_rest ?pd s5"
    by (auto simp: map_flags_eq[symmetric])
  note m6 = map_rest_used[OF s6(3)]
  have fr6: "mem s6 a = mem s a" if "unat a div 4096 \<in> used s" for a :: u32
  proof -
    have "unat a div 4096 \<notin> insert (unat ?pd div 4096) (table_frames (mem s5) ?pd)"
      unfolding c5(1) pdk using that u4(2) unfolding process_frames_def by blast
    from map_rest_mem[OF s6(3) this] show ?thesis using c5(1) fr4[OF that] by simp
  qed
  have av6: "avail s = avail s6 + 11"
    using av avail_range[OF q(4,5,3)] m6 by (simp add: avail_def)
  show thesis
    by (rule that[OF q(1-3) s6(1,2) _ _ _ _ _ av6 fr6])
      (use m6 c5 u4 q(4,5) in \<open>auto simp: process_frames_def\<close>)
qed

text \<open>Addresses of stack pages and of identity-mapped pages.\<close>

lemma stack_page_iff:
  assumes "q + 4 \<le> 4095"
  shows "va \<in> {page_addr q..<page_addr q + 16384} \<longleftrightarrow> vpn va \<in> {q..<q + 4}"
proof -
  have u: "unat (page_addr q) = 4096 * q" using assms by (simp add: unat_page_addr)
  then have v: "unat (page_addr q + 16384) = 4096 * q + 16384"
    using unat_add_small[of "page_addr q" 16384] assms by simp
  have "va \<in> {page_addr q..<page_addr q + 16384} \<longleftrightarrow> 4096 * q \<le> unat va \<and> unat va < 4096 * (q + 4)"
    using u v by (simp add: word_le_nat_alt word_less_nat_alt)
  also have "\<dots> \<longleftrightarrow> q \<le> unat va div 4096 \<and> unat va div 4096 < q + 4"
    by (simp add: less_eq_div_iff_mult_less_eq div_less_iff_less_mult mult.commute)
  finally show ?thesis by (simp add: vpn_def)
qed

lemma identity_page:
  assumes "unat va < 16777216"
  shows "PTE_ADDR (page_addr (vpn va)) OR (va AND 0xFFF) = va" and "vpn va < 4096"
proof -
  show lt: "vpn va < 4096" using assms by (simp add: vpn_def div_less_iff_less_mult)
  show "PTE_ADDR (page_addr (vpn va)) OR (va AND 0xFFF) = va"
    by (rule PTE_ADDR_page_addr) (use lt in \<open>simp_all add: vpn_def\<close>)
qed

section \<open>Creation\<close>

lemma on_mm_Some: "f (k_mm k) = Some (a, s) \<Longrightarrow> on_mm f k = Return a (k\<lparr>k_mm := s\<rparr>)"
  by (simp add: on_mm_def)

lemma do_mm_Some: "f (k_mm k) = Some s \<Longrightarrow> do_mm f k = Return () (k\<lparr>k_mm := s\<rparr>)"
  by (simp add: do_mm_def)

text \<open>The control block of a fresh process, with its directory \<open>pd\<close> and stacks \<open>ks\<close> and \<open>us\<close>.\<close>

definition fresh_pcb :: "u32 \<Rightarrow> u32 \<Rightarrow> bool \<Rightarrow> u32 \<Rightarrow> u32 \<Rightarrow> u32 \<Rightarrow> pcb" where
  "fresh_pcb pid parent is_user pd ks us = zero_pcb\<lparr>p_pid := pid, p_parent_pid := parent,
     p_state := PROCESS_CREATED, p_priority := 5, p_is_user := is_user, p_page_directory := pd,
     p_kernel_stack := ks, p_user_stack := us\<rparr>"

text \<open>
  The memory \<open>s'\<close> of a process created from \<open>s\<close>: directory in page \<open>d\<close>, kernel stack from page \<open>p\<close>,
  user stack from page \<open>q\<close> if it has one. All its pages are fresh.
\<close>

definition process_memory :: "mm \<Rightarrow> nat \<Rightarrow> nat \<Rightarrow> nat option \<Rightarrow> mm \<Rightarrow> bool" where
  "process_memory s d p u s' \<longleftrightarrow> 0 < d \<and> d < 4095 \<and> 0 < p \<and> p + 2 \<le> 4095 \<and>
     (case u of None \<Rightarrow> aspace_rep (page_addr d) s' (kernel_space 4096)
      | Some q \<Rightarrow> 0 < q \<and> q + 4 \<le> 4095 \<and> {q..<q + 4} \<inter> process_frames (mem s') d p None = {} \<and>
          aspace_rep (page_addr d) s' (overlay q 4 True (kernel_space 4096))) \<and>
     used s' = used s \<union> process_frames (mem s') d p u \<and> process_frames (mem s') d p u \<inter> used s = {} \<and>
     {p..<p + 2} \<inter> insert d (table_frames (mem s') (page_addr d)) = {} \<and> mm_regs s' = mm_regs s \<and>
     avail s = avail s' + (if u = None then 7 else 11) \<and>
     (\<forall>a. unat a div 4096 \<in> used s \<longrightarrow> mem s' a = mem s a)"

lemma process_memoryD:
  assumes "process_memory s d p u s'"
  shows "0 < d" "d < 4095" "0 < p" "p + 2 \<le> 4095" "used s' = used s \<union> process_frames (mem s') d p u"
    "process_frames (mem s') d p u \<inter> used s = {}" "mm_regs s' = mm_regs s"
    "\<And>a. unat a div 4096 \<in> used s \<Longrightarrow> mem s' a = mem s a"
    "u = Some q \<Longrightarrow> 0 < q" "u = Some q \<Longrightarrow> q + 4 \<le> 4095"
    "aspace_rep (page_addr d) s' (case u of None \<Rightarrow> kernel_space 4096 | Some q \<Rightarrow> overlay q 4 True (kernel_space 4096))"
    "avail s = avail s' + (if u = None then 7 else 11)"
    "{p..<p + 2} \<inter> insert d (table_frames (mem s') (page_addr d)) = {}"
  using assms unfolding process_memory_def by (simp_all split: option.splits)

text \<open>
  Successful creation, in one equation: the slot and the identifier are free ones, the memory is as
  constructed above, and nothing else of the kernel changes.
\<close>

lemma create_internal_spec:
  assumes inv: "mm_inv (k_mm k)" and room: "roomy (k_mm k)" and len: "length (process_used k) = MAX_PROCESSES"
    and slot: "find (\<lambda>i. \<not> process_used k ! i) [0..<MAX_PROCESSES] = Some slot"
    and pid: "process_allocate_pid k = (pid, k\<lparr>alloc_next_pid := pid + 1\<rparr>)" "pid \<noteq> 0"
  shows "\<exists>d p q s'. process_create_internal parent is_user k = Return (Some slot)
       (set_pcb slot (\<lambda>_. fresh_pcb pid parent is_user (page_addr d) (page_addr p) (if is_user then page_addr q else 0))
         (k\<lparr>alloc_next_pid := pid + 1, k_mm := s', process_used := (process_used k)[slot := True]\<rparr>)) \<and>
    process_memory (k_mm k) d p (if is_user then Some q else None) s'"
proof -
  let ?s = "k_mm k"
  from process_kernel_memory[OF inv room] obtain d s1 s2 p s3 s4 where
    d: "memory_create_page_directory ?s = Some (page_addr d, s1)" "0 < d" "d < 4095"
    "memory_map_kernel (page_addr d) s1 = Some s2" "memory_alloc_pages 2 s2 = Some (page_addr p, s3)" "0 < p" "p + 2 \<le> 4095"
    "map_stack (page_addr d) (page_addr p) 2 3 s3 = Some s4"
    "aspace_rep (page_addr d) s4 (kernel_space 4096)" "used s4 = used ?s \<union> process_frames (mem s4) d p None"
    "process_frames (mem s4) d p None \<inter> used ?s = {}" "{p..<p + 2} \<inter> insert d (table_frames (mem s4) (page_addr d)) = {}"
    "avail ?s = avail s4 + 7" "mm_regs s4 = mm_regs ?s"
    and fr4: "\<And>a. unat a div 4096 \<in> used ?s \<Longrightarrow> mem s4 a = mem ?s a" by metis
  from process_user_memory[OF inv room d(9,3,10,11,13) fr4] obtain q s5 s6 where
    q: "memory_alloc_pages 4 s4 = Some (page_addr q, s5)" "0 < q" "q + 4 \<le> 4095"
    "map_stack (page_addr d) (page_addr q) 4 7 s5 = Some s6"
    "aspace_rep (page_addr d) s6 (overlay q 4 True (kernel_space 4096))"
    "used s6 = used ?s \<union> process_frames (mem s6) d p (Some q)" "process_frames (mem s6) d p (Some q) \<inter> used ?s = {}"
    "table_frames (mem s6) (page_addr d) = table_frames (mem s4) (page_addr d)"
    "{q..<q + 4} \<inter> process_frames (mem s6) d p None = {}" "mm_regs s6 = mm_regs s4" "avail ?s = avail s6 + 11"
    and fr6: "\<And>a. unat a div 4096 \<in> used ?s \<Longrightarrow> mem s6 a = mem ?s a" by metis
  have nz: "page_addr d \<noteq> 0" "page_addr p \<noteq> 0" "page_addr q \<noteq> 0"
    using d(2,3,6,7) q(2,3) by (simp_all add: page_addr_eq_0_iff)
  let ?s' = "if is_user then s6 else s4"
  have eq: "process_create_internal parent is_user k = Return (Some slot)
       (set_pcb slot (\<lambda>_. fresh_pcb pid parent is_user (page_addr d) (page_addr p) (if is_user then page_addr q else 0))
         (k\<lparr>alloc_next_pid := pid + 1, k_mm := ?s', process_used := (process_used k)[slot := True]\<rparr>))"
    using slot pid nz d(1,4,5,8) q(1,4)
    by (simp add: process_create_internal_def on_mm_def do_mm_def Let_def set_pcb_def upd_pcb_def fresh_pcb_def
        pcb_of_def zero_pcb_def)
  have "process_memory ?s d p (if is_user then Some q else None) ?s'"
  proof (cases is_user)
    case True
    then show ?thesis unfolding process_memory_def using d(2,3,6,7,12,14) q fr6 by simp
  next
    case False
    then show ?thesis unfolding process_memory_def using d fr4 by simp
  qed
  then show ?thesis using eq by blast
qed

lemma slot_available:
  assumes "proc_inv k" "\<exists>i < MAX_PROCESSES. \<not> process_used k ! i"
  obtains slot where "find (\<lambda>i. \<not> process_used k ! i) [0..<MAX_PROCESSES] = Some slot" "slot < MAX_PROCESSES"
    "\<not> process_used k ! slot"
proof (cases "find (\<lambda>i. \<not> process_used k ! i) [0..<MAX_PROCESSES]")
  case None
  then show thesis using assms(2) unfolding find_upt_None_iff by blast
next
  case (Some slot)
  then show thesis using that[of slot] unfolding find_upt_Some_iff by blast
qed

lemma proc_inv_create:
  assumes inv: "proc_inv k" and slot: "slot < MAX_PROCESSES" "\<not> process_used k ! slot"
    and pid: "pid \<noteq> 0" "unat pid < MAX_PROCESSES" "\<not> pid_used k pid"
    and pcb: "p_pid c = pid" and k': "process_used k' = (process_used k)[slot := True]" "pcb_of k' = (pcb_of k)(slot := c)"
  shows "proc_inv k'"
proof -
  have len: "length (process_used k) = MAX_PROCESSES" using inv by (simp add: proc_inv_def)
  have old: "process_used k' ! i \<longleftrightarrow> i = slot \<or> process_used k ! i" if "i < MAX_PROCESSES" for i
    using that len by (cases "i = slot") (simp_all add: k'(1))
  have free: "p_pid (pcb_of k i) \<noteq> pid" if "i < MAX_PROCESSES" "process_used k ! i" for i
    using that pid(3) by (auto simp: pid_used_iff)
  have dist: "i = j" if "i < MAX_PROCESSES" "j < MAX_PROCESSES" "process_used k ! i" "process_used k ! j"
    "p_pid (pcb_of k i) = p_pid (pcb_of k j)" for i j
    using inv that unfolding proc_inv_def by blast
  have "i = j" if ij: "i < MAX_PROCESSES" "j < MAX_PROCESSES" "process_used k' ! i" "process_used k' ! j"
    "p_pid (pcb_of k' i) = p_pid (pcb_of k' j)" for i j
  proof (cases "i = slot \<or> j = slot")
    case True
    then show ?thesis
      using ij(5) old[OF ij(1)] old[OF ij(2)] ij(3,4) free[OF ij(1)] free[OF ij(2)] pcb
      by (auto simp: k'(2) split: if_splits)
  next
    case False
    then show ?thesis using ij old dist[OF ij(1,2)] by (simp add: k'(2))
  qed
  moreover have "p_pid (pcb_of k' i) \<noteq> 0 \<and> unat (p_pid (pcb_of k' i)) < MAX_PROCESSES"
    if "i < MAX_PROCESSES" "process_used k' ! i" for i
    using inv that old[OF that(1)] pid(1,2) pcb unfolding proc_inv_def by (cases "i = slot") (auto simp: k'(2))
  ultimately show ?thesis using len unfolding proc_inv_def by (simp add: k'(1))
qed

section \<open>Cleanup\<close>

lemma free_run_release:
  assumes "mm_inv s" "0 < p" "p + unat c \<le> 4095"
  shows "\<exists>s'. memory_free_pages (page_addr p) c s = Some s' \<and> used s' = used s - {p..<p + unat c} \<and> mm_inv s' \<and>
    mm_content s' = mm_content s"
proof -
  have p: "p < 2 ^ 20" using assms(3) by simp
  then have "unat (page_addr p) div 4096 = p" by (simp add: unat_page_addr)
  then show ?thesis
    using pa.release_block[OF assms(1), of "page_addr p" c] assms(2,3) frames_page_addr[OF p, of c] by auto
qed

text \<open>Cleaning a process up gives back exactly its directory, tables and stacks.\<close>

lemma cleanup_spec:
  assumes pcb: "p_page_directory (pcb_of k slot) = page_addr d" "p_kernel_stack (pcb_of k slot) = page_addr p"
      "p_user_stack (pcb_of k slot) = (case u of None \<Rightarrow> 0 | Some q \<Rightarrow> page_addr q)"
    and rep: "aspace_rep (page_addr d) (k_mm k) f" and d: "0 < d" "d < 4095" "page_addr d \<noteq> kernel_page_dir (k_mm k)"
    and p: "0 < p" "p + 2 \<le> 4095" and u: "\<And>q. u = Some q \<Longrightarrow> 0 < q \<and> q + 4 \<le> 4095"
  shows "\<exists>s'. process_cleanup (Some slot) k = Return () (k\<lparr>k_mm := s'\<rparr>) \<and> mm_inv s' \<and>
    used s' = used (k_mm k) - process_frames (mem (k_mm k)) d p u \<and> mm_content s' = mm_content (k_mm k)"
proof -
  let ?s = "k_mm k"
  have nz: "page_addr d \<noteq> 0" "page_addr p \<noteq> 0" using d p by (simp_all add: page_addr_eq_0_iff)
  have wf: "pd_wf ?s (page_addr d)" "mm_inv ?s" using rep by (simp_all add: aspace_rep_def)
  have dk: "unat (page_addr d) div 4096 = d" using d(2) by (simp add: unat_page_addr)
  obtain s1 where s1: "memory_destroy_page_directory (page_addr d) ?s = Some s1" "mm_inv s1"
    "mm_content s1 = mm_content ?s" "used s1 = used ?s - insert d (table_frames (mem ?s) (page_addr d))"
    using destroy_directory[OF wf nz(1)] dk by auto
  obtain s2 where s2: "memory_free_pages (page_addr p) 2 s1 = Some s2" "used s2 = used s1 - {p..<p + 2}"
    "mm_inv s2" "mm_content s2 = mm_content s1"
    using free_run_release[OF s1(2) p(1), of 2] p(2) by auto
  have st: "process_cleanup (Some slot) k = (if p_user_stack (pcb_of k slot) \<noteq> 0
      then do_mm (memory_free_pages (p_user_stack (pcb_of k slot)) 4) (k\<lparr>k_mm := s2\<rparr>)
      else Return () (k\<lparr>k_mm := s2\<rparr>))"
    using pcb(1,2) nz d(3) s1(1) s2(1) by (simp add: process_cleanup_def do_mm_def pcb_of_def)
  show ?thesis
  proof (cases u)
    case None
    then show ?thesis using st pcb(3) s2 s1 by (auto simp: process_frames_def)
  next
    case (Some q)
    have "0 < q" "q + 4 \<le> 4095" using u[OF Some] by auto
    then obtain s3 where s3: "memory_free_pages (page_addr q) 4 s2 = Some s3" "used s3 = used s2 - {q..<q + 4}"
      "mm_inv s3" "mm_content s3 = mm_content s2" "page_addr q \<noteq> 0"
      using free_run_release[OF s2(3), of q 4] by (auto simp: page_addr_eq_0_iff)
    then have "process_cleanup (Some slot) k = Return () (k\<lparr>k_mm := s3\<rparr>)"
      using st pcb(3) Some by (simp add: do_mm_def)
    then show ?thesis using Some s3 s2 s1 by (auto simp: process_frames_def)
  qed
qed

lemma cleanup_frame:
  assumes "process_cleanup q k = Return () k'"
  shows "k_sched k' = k_sched k" "process_used k' = process_used k"
  using assms by (auto simp: process_cleanup_def do_mm_def split: option.splits if_splits)

lemma terminate_queue:
  "queue_rep (upd_pcb p (\<lambda>c. c\<lparr>p_state := st, p_exit_code := e\<rparr>) s) xs = queue_rep s xs"
  by (auto simp: queue_rep_def)

text \<open>The current process exits while others are ready.\<close>

text \<open>The entries of all processes outside \<open>A\<close> are as they were, but for the two links of the ready queue.\<close>

definition others_kept :: "nat set \<Rightarrow> kernel \<Rightarrow> kernel \<Rightarrow> bool" where
  "others_kept A k k1 \<longleftrightarrow> (\<forall>q. q \<notin> A \<longrightarrow> pcb_core (pcb_of k1 q) = pcb_core (pcb_of k q))"

lemma exit_current_full:
  assumes "sched_inv (k_sched k) (x # xs)" and "current_of k = Some p" and "p \<notin> set (x # xs)"
  shows "\<exists>k1 rest. process_exit (Some p) code k = Switch None x k1 rest \<and>
    k1 = k\<lparr>k_sched := k_sched k1, console := console k1\<rparr> \<and>
    current_of k1 = Some x \<and> sched_inv (k_sched k1) xs \<and> p_state (pcb_of k1 p) = PROCESS_TERMINATED \<and>
    p_state (pcb_of k1 x) = PROCESS_RUNNING \<and> others_kept {p, x} k k1"
proof -
  let ?k = "set_pcb p (\<lambda>c. c\<lparr>p_state := PROCESS_TERMINATED, p_exit_code := code\<rparr>) (exit_message (p_pid (pcb_of k p)) k)"
  let ?s = "upd_pcb p (\<lambda>c. c\<lparr>p_state := PROCESS_TERMINATED\<rparr>) ((k_sched ?k)\<lparr>current_process := None\<rparr>)"
  have cur: "current_process (k_sched k) = Some p" using assms(2) by (simp add: current_of_def scheduler_get_current_def)
  have inv: "sched_inv ?s (x # xs)"
  proof -
    have "queue_rep (k_sched ?k) (x # xs)" using assms(1) by (simp add: sched_inv_def terminate_queue)
    moreover have "p_state (pcbs ?s q) \<noteq> PROCESS_RUNNING" for q
      using sched_inv_running[OF assms(1), of q] cur by (cases "q = p") auto
    moreover have "\<forall>q \<in> set (x # xs). p_state (pcbs ?s q) = PROCESS_READY"
      using assms(1,3) by (auto simp: sched_inv_def)
    ultimately show ?thesis by (simp add: sched_inv_def)
  qed
  have rr: "rr_yield (current_process ?s) (current_running ?s) (x # xs) = (Some x, xs, Switched None x)"
    by (simp add: current_running_def)
  obtain s' where s': "scheduler_yield ?s = Some (s', Switched None x)" "sched_inv s' xs" "current_process s' = Some x"
    "same_static ?s s'" "current_running s'" using yield_spec[OF inv rr] by blast
  have st: "p_state (pcbs s' p) = PROCESS_TERMINATED"
    using yield_state_other[OF s'(1), of p] assms(3) by simp
  have sw: "on_switch (scheduler_remove_process (Some p)) ?k = Switch None x (print ''S'' (?k\<lparr>k_sched := s'\<rparr>)) (Return ())"
    using s'(1) cur by (simp add: on_switch_def scheduler_remove_process_def Let_def)
  have "\<exists>rest. process_exit (Some p) code k = Switch None x (print ''S'' (?k\<lparr>k_sched := s'\<rparr>)) rest"
    unfolding process_exit_def option.case Let_def sw obind.simps by (rule exI) (rule refl)
  then obtain rest where "process_exit (Some p) code k = Switch None x (print ''S'' (?k\<lparr>k_sched := s'\<rparr>)) rest" by blast
  moreover define k1 where "k1 = print ''S'' (?k\<lparr>k_sched := s'\<rparr>)"
  moreover have "k1 = k\<lparr>k_sched := k_sched k1, console := console k1\<rparr>"
    by (simp add: k1_def print_def set_pcb_def exit_message_def print_hex_def)
  moreover have "current_of k1 = Some x" "sched_inv (k_sched k1) xs" "p_state (pcb_of k1 p) = PROCESS_TERMINATED"
    "p_state (pcb_of k1 x) = PROCESS_RUNNING"
    using s' st by (simp_all add: k1_def current_of_def scheduler_get_current_def pcb_of_def current_running_def)
  moreover have "pcb_core (pcb_of k1 q) = pcb_core (pcb_of k q)" if "q \<notin> {p, x}" for q
  proof -
    have "p_state (pcbs s' q) = p_state (pcbs ?s q)" using yield_state_other[OF s'(1), of q] that by blast
    then have "pcb_core (pcbs s' q) = pcb_core (pcbs ?s q)"
      using s'(4) by (simp add: same_static_def pcb_static_eq_iff) (simp add: pcb_core_def)
    then show ?thesis using that by (simp add: k1_def pcb_of_def)
  qed
  ultimately show ?thesis unfolding others_kept_def by blast
qed

lemma exit_current:
  assumes "sched_inv (k_sched k) (x # xs)" and "current_of k = Some p" and "p \<notin> set (x # xs)"
  shows "\<exists>k1 rest. process_exit (Some p) code k = Switch None x k1 rest \<and>
    process_used k1 = process_used k \<and> k_mm k1 = k_mm k \<and>
    current_of k1 = Some x \<and> sched_inv (k_sched k1) xs \<and> p_state (pcb_of k1 p) = PROCESS_TERMINATED"
proof -
  obtain k1 rest where "process_exit (Some p) code k = Switch None x k1 rest" and k1: "k1 = k\<lparr>k_sched := k_sched k1, console := console k1\<rparr>"
    and "current_of k1 = Some x" "sched_inv (k_sched k1) xs" "p_state (pcb_of k1 p) = PROCESS_TERMINATED"
    using exit_current_full[OF assms] by blast
  moreover have "process_used k1 = process_used k" "k_mm k1 = k_mm k" by (subst k1, simp)+
  ultimately show ?thesis by blast
qed

text \<open>
  The current process exits while nobody is ready: the scheduler comes back, and the rest of \<^verbatim>\<open>process_exit\<close> runs. The process has
  its directory in page \<open>d\<close>, its kernel stack from page \<open>q\<close> and its user stack, if it has one, from the page in \<open>u\<close>.
\<close>

definition has_memory :: "kernel \<Rightarrow> nat \<Rightarrow> nat \<Rightarrow> nat \<Rightarrow> nat option \<Rightarrow> bool" where
  "has_memory k p d q u \<longleftrightarrow> p_page_directory (pcb_of k p) = page_addr d \<and> p_kernel_stack (pcb_of k p) = page_addr q \<and>
     p_user_stack (pcb_of k p) = (case u of None \<Rightarrow> 0 | Some a \<Rightarrow> page_addr a) \<and> (\<exists>f. aspace_rep (page_addr d) (k_mm k) f) \<and>
     0 < d \<and> d < 4095 \<and> page_addr d \<noteq> kernel_page_dir (k_mm k) \<and> 0 < q \<and> q + 2 \<le> 4095 \<and>
     (\<forall>a. u = Some a \<longrightarrow> 0 < a \<and> a + 4 \<le> 4095)"

lemma exit_alone:
  assumes "sched_inv (k_sched k) []" and "current_of k = Some p" and "has_memory k p d q u"
    and "p < MAX_PROCESSES" and "length (process_used k) = MAX_PROCESSES"
  shows "\<exists>k1. process_exit (Some p) code k = Return () k1 \<and>
    k1 = k\<lparr>k_mm := k_mm k1, k_sched := k_sched k1, process_used := (process_used k)[p := False], console := console k1\<rparr> \<and>
    mm_content (k_mm k1) = mm_content (k_mm k) \<and> used (k_mm k1) = used (k_mm k) - process_frames (mem (k_mm k)) d q u \<and>
    current_of k1 = None \<and> sched_inv (k_sched k1) [] \<and> p_state (pcb_of k1 p) = PROCESS_TERMINATED \<and> others_kept {p} k k1"
proof -
  let ?t = "\<lambda>c. c\<lparr>p_state := PROCESS_TERMINATED, p_exit_code := code\<rparr>"
  let ?k = "set_pcb p ?t (exit_message (p_pid (pcb_of k p)) k)"
  define s where "s = upd_pcb p (\<lambda>c. c\<lparr>p_state := PROCESS_TERMINATED\<rparr>) ((k_sched ?k)\<lparr>current_process := None\<rparr>)"
  have cur: "current_process (k_sched k) = Some p" using assms(2) by (simp add: current_of_def scheduler_get_current_def)
  have h: "ready_queue_head (k_sched k) = None" using assms(1) by (simp add: sched_inv_def queue_rep_def)
  have sw: "on_switch (scheduler_remove_process (Some p)) ?k = Return () (?k\<lparr>k_sched := s\<rparr>)"
    using cur h by (simp add: on_switch_def scheduler_remove_process_def Let_def scheduler_yield_def s_def)
  have mem: "k_mm (?k\<lparr>k_sched := s\<rparr>) = k_mm k" by simp
  have pcb: "p_page_directory (pcb_of (?k\<lparr>k_sched := s\<rparr>) p) = page_addr d" "p_kernel_stack (pcb_of (?k\<lparr>k_sched := s\<rparr>) p) = page_addr q"
    "p_user_stack (pcb_of (?k\<lparr>k_sched := s\<rparr>) p) = (case u of None \<Rightarrow> 0 | Some a \<Rightarrow> page_addr a)"
    using assms(3) by (simp_all add: has_memory_def pcb_of_def s_def)
  obtain f where m: "aspace_rep (page_addr d) (k_mm (?k\<lparr>k_sched := s\<rparr>)) f" "0 < d" "d < 4095"
    "page_addr d \<noteq> kernel_page_dir (k_mm (?k\<lparr>k_sched := s\<rparr>))" "0 < q" "q + 2 \<le> 4095" "\<And>a. u = Some a \<Longrightarrow> 0 < a \<and> a + 4 \<le> 4095"
    using assms(3) unfolding has_memory_def mem by blast
  obtain s2 where s2: "process_cleanup (Some p) (?k\<lparr>k_sched := s\<rparr>) = Return () (?k\<lparr>k_sched := s, k_mm := s2\<rparr>)"
    "used s2 = used (k_mm k) - process_frames (mem (k_mm k)) d q u" "mm_content s2 = mm_content (k_mm k)"
    using cleanup_spec[OF pcb m] unfolding mem by auto
  define k1 where "k1 = ?k\<lparr>k_sched := s, k_mm := s2, process_used := (process_used k)[p := False]\<rparr>"
  have e: "process_exit (Some p) code k = Return () k1"
    using sw s2(1) assms(4) by (simp add: process_exit_def process_free_pid_def Let_def k1_def)
  have upd: "k1 = k\<lparr>k_mm := k_mm k1, k_sched := k_sched k1, process_used := (process_used k)[p := False], console := console k1\<rparr>"
    by (simp add: k1_def set_pcb_def exit_message_def print_def print_hex_def)
  have st: "p_state (pcbs s i) = (if i = p then PROCESS_TERMINATED else p_state (pcbs (k_sched k) i))"
    "p_next (pcbs s i) = p_next (pcbs (k_sched k) i)" "p_prev (pcbs s i) = p_prev (pcbs (k_sched k) i)"
    "i \<noteq> p \<Longrightarrow> pcbs s i = pcbs (k_sched k) i" for i
    by (simp_all add: s_def)
  have "p_state (pcbs s i) \<noteq> PROCESS_RUNNING" for i
    using sched_inv_running[OF assms(1), of i] cur by (cases "i = p") (auto simp: st)
  moreover have "queue_rep s []" using assms(1) st(2,3) by (simp add: sched_inv_def queue_rep_def s_def)
  ultimately have "sched_inv s []" by (simp add: sched_inv_def)
  moreover have "current_process s = None" by (simp add: s_def)
  ultimately show ?thesis using e upd s2(2,3) st(1)[of p] st(4)
    by (intro exI[of _ k1]) (simp add: k1_def current_of_def scheduler_get_current_def others_kept_def pcb_of_def)
qed

section \<open>Concrete kernels\<close>

definition demo_kernel :: kernel where
  "demo_kernel = \<lparr>k_mm = demo_mm, k_sched = demo_sched, k_caps = demo_caps,
     process_used = True # True # True # replicate 61 False, alloc_next_pid = 4,
     message_queues = replicate 64 0, next_msg_id = 1, msg_handlers = replicate 32 0,
     timer_ticks = 0, int_flag = True, timer_frequency = 100, cpu_features = 0, syscall_table = replicate 256 None,
     kernel_initialized = True, k_io = pic_io, k_segs = demo_segs, k_idt = demo_idt, console = []\<rparr>"

lemma demo_kernel_simps [simp]:
  "k_mm demo_kernel = demo_mm" "k_sched demo_kernel = demo_sched"
  "process_used demo_kernel = True # True # True # replicate 61 False" "alloc_next_pid demo_kernel = 4"
  by (simp_all add: demo_kernel_def)

lemma demo_used_iff: "i < MAX_PROCESSES \<Longrightarrow> process_used demo_kernel ! i \<longleftrightarrow> i < 3"
  by (auto simp: MAX_PROCESSES_def nth_Cons split: nat.splits)

lemma demo_pcb: "p_pid (pcb_of demo_kernel 0) = 1" "p_pid (pcb_of demo_kernel 1) = 2" "p_pid (pcb_of demo_kernel 2) = 3"
  by (simp_all add: pcb_of_def demo_sched_def)

lemma demo_proc_inv: "proc_inv demo_kernel"
proof -
  have c: "i = 0 \<or> i = 1 \<or> i = 2" if "i < 3" for i :: nat using that by linarith
  have pid: "p_pid (pcb_of demo_kernel i) = of_nat (Suc i)" if "i < 3" for i
    using c[OF that] demo_pcb by auto
  have u: "unat (of_nat (Suc i) :: u32) = Suc i" if "i < 3" for i using that by (intro unat_of_nat32) simp
  have "length (process_used demo_kernel) = MAX_PROCESSES" by (simp add: MAX_PROCESSES_def)
  moreover have "p_pid (pcb_of demo_kernel i) \<noteq> 0 \<and> unat (p_pid (pcb_of demo_kernel i)) < MAX_PROCESSES"
    if "i < MAX_PROCESSES" "process_used demo_kernel ! i" for i
    using pid[of i] u[of i] demo_used_iff[OF that(1)] that(2) by (auto simp: word32_eq_iff_unat MAX_PROCESSES_def)
  moreover have "i = j" if "i < MAX_PROCESSES" "j < MAX_PROCESSES" "process_used demo_kernel ! i"
    "process_used demo_kernel ! j" "p_pid (pcb_of demo_kernel i) = p_pid (pcb_of demo_kernel j)" for i j
    using pid[of i] pid[of j] u[of i] u[of j] demo_used_iff[OF that(1)] demo_used_iff[OF that(2)] that(3-5)
    by (metis Suc_inject)
  ultimately show ?thesis unfolding proc_inv_def by blast
qed

lemma demo_roomy: "roomy demo_mm"
  unfolding roomy_def by (rule exI[of _ 1]) (auto simp: free_run_def)

lemma demo_free_pid: "\<not> pid_used demo_kernel 9"
proof -
  have c: "i = 0 \<or> i = 1 \<or> i = 2" if "i < 3" for i :: nat using that by linarith
  show ?thesis unfolding pid_used_iff using demo_used_iff c demo_pcb by fastforce
qed

lemma demo_process_create: "\<exists>slot k'. process_create 0 demo_kernel = Return (Some slot) k'"
proof -
  have ex: "\<exists>i < MAX_PROCESSES. \<not> process_used demo_kernel ! i"
    by (rule exI[of _ 3]) (simp add: demo_used_iff MAX_PROCESSES_def)
  obtain slot where slot: "find (\<lambda>i. \<not> process_used demo_kernel ! i) [0..<MAX_PROCESSES] = Some slot"
    using slot_available[OF demo_proc_inv ex] by metis
  have nine: "unat (9 :: u32) < MAX_PROCESSES" "(9 :: u32) \<noteq> 0" by (simp_all add: MAX_PROCESSES_def)
  obtain pid where pid: "process_allocate_pid demo_kernel = (pid, demo_kernel\<lparr>alloc_next_pid := pid + 1\<rparr>)" "pid \<noteq> 0"
    by (cases rule: allocate_pid_cases[of demo_kernel]) (use nine demo_free_pid in blast)+
  have len: "length (process_used demo_kernel) = MAX_PROCESSES" by (simp add: MAX_PROCESSES_def)
  show ?thesis
    using create_internal_spec[OF _ _ len slot pid, of 0 True] demo_roomy by (auto simp: process_create_def)
qed

section \<open>Properties\<close>

text \<open>
  Identifier allocation is sound and complete: \<^verbatim>\<open>process_allocate_pid\<close> returns an identifier between 1 and 63
  that no process in use has, and it returns 0 only when all 63 are taken.
\<close>

lemma allocate_pid_fresh:
  assumes "process_allocate_pid k = (pid, k')"
  shows "if pid = 0 then k' = k \<and> (\<forall>q. q \<noteq> 0 \<and> unat q < MAX_PROCESSES \<longrightarrow> pid_used k q)
    else unat pid < MAX_PROCESSES \<and> \<not> pid_used k pid \<and> k' = k\<lparr>alloc_next_pid := pid + 1\<rparr>"
  by (cases rule: allocate_pid_cases[of k]) (use assms in auto)

lemma allocate_pid_fresh_witness:
  "\<exists>pid k'. process_allocate_pid demo_kernel = (pid, k') \<and> pid \<noteq> 0 \<and> \<not> pid_used demo_kernel pid"
proof -
  obtain pid k' where a: "process_allocate_pid demo_kernel = (pid, k')" by fastforce
  have "unat (9 :: u32) < MAX_PROCESSES" "(9 :: u32) \<noteq> 0" by (simp_all add: MAX_PROCESSES_def)
  then show ?thesis using allocate_pid_fresh[OF a] demo_free_pid a by (auto split: if_splits)
qed

text \<open>
  C27: \<^verbatim>\<open>process_create\<close> builds an isolated address space. If a slot and an identifier are free and 32
  consecutive pages of memory are, it returns a process in a slot that was free; the table
  invariant holds; and in the page directory of the process every address below 16 MB is mapped to
  itself and writable, user mode reaches exactly the 16 KB of the user stack, and no other address is
  mapped. Memory that was in use before keeps its contents.
\<close>

theorem process_create_address_space:
  assumes "proc_inv k" and "mm_inv (k_mm k)" and "roomy (k_mm k)"
    and "\<exists>i < MAX_PROCESSES. \<not> process_used k ! i"
    and "pid0 \<noteq> 0" and "unat pid0 < MAX_PROCESSES" and "\<not> pid_used k pid0"
  shows "\<exists>slot k'. process_create parent k = Return (Some slot) k' \<and> slot < MAX_PROCESSES \<and>
    \<not> process_used k ! slot \<and> process_used k' = (process_used k)[slot := True] \<and> proc_inv k' \<and>
    p_state (pcb_of k' slot) = PROCESS_CREATED \<and> p_parent_pid (pcb_of k' slot) = parent \<and>
    (\<forall>va. walk (mem (k_mm k')) (p_page_directory (pcb_of k' slot)) va =
      (if unat va < 16 * 1024 * 1024
       then Some (va, if va \<in> {p_user_stack (pcb_of k' slot)..<p_user_stack (pcb_of k' slot) + 16384} then 6 else 2)
       else None)) \<and>
    (\<forall>a. unat a div 4096 \<in> used (k_mm k) \<longrightarrow> mem (k_mm k') a = mem (k_mm k) a)"
proof -
  obtain slot where slot: "find (\<lambda>i. \<not> process_used k ! i) [0..<MAX_PROCESSES] = Some slot" "slot < MAX_PROCESSES"
    "\<not> process_used k ! slot" using slot_available[OF assms(1,4)] .
  obtain pid where pid: "process_allocate_pid k = (pid, k\<lparr>alloc_next_pid := pid + 1\<rparr>)" "pid \<noteq> 0"
    "unat pid < MAX_PROCESSES" "\<not> pid_used k pid"
    by (cases rule: allocate_pid_cases[of k]) (use assms(5-7) in blast)+
  have len: "length (process_used k) = MAX_PROCESSES" using assms(1) by (simp add: proc_inv_def)
  obtain d p q s' where
    cr: "process_create parent k = Return (Some slot)
       (set_pcb slot (\<lambda>_. fresh_pcb pid parent True (page_addr d) (page_addr p) (page_addr q))
         (k\<lparr>alloc_next_pid := pid + 1, k_mm := s', process_used := (process_used k)[slot := True]\<rparr>))"
    and pm: "process_memory (k_mm k) d p (Some q) s'"
    using create_internal_spec[OF assms(2,3) len slot(1) pid(1,2), of parent True]
    by (auto simp: process_create_def)
  have q: "q + 4 \<le> 4095" and rep: "aspace_rep (page_addr d) s' (overlay q 4 True (kernel_space 4096))"
    and fr: "\<And>a. unat a div 4096 \<in> used (k_mm k) \<Longrightarrow> mem s' a = mem (k_mm k) a"
    using process_memoryD[OF pm] by auto
  let ?k = "set_pcb slot (\<lambda>_. fresh_pcb pid parent True (page_addr d) (page_addr p) (page_addr q))
         (k\<lparr>alloc_next_pid := pid + 1, k_mm := s', process_used := (process_used k)[slot := True]\<rparr>)"
  have pcb: "pcb_of ?k = (pcb_of k)(slot := fresh_pcb pid parent True (page_addr d) (page_addr p) (page_addr q))"
    by (simp add: pcb_of_def fun_eq_iff)
  have "proc_inv ?k"
    by (rule proc_inv_create[OF assms(1) slot(2,3) pid(2-4) _ _ pcb]) (simp_all add: fresh_pcb_def)
  moreover have "walk (mem s') (page_addr d) va = (if unat va < 16 * 1024 * 1024
       then Some (va, if va \<in> {page_addr q..<page_addr q + 16384} then 6 else 2) else None)" for va
    unfolding aspace_walk[OF rep] using stack_page_iff[OF q, of va] identity_page[of va] q
    by (auto simp: overlay_def kernel_space_def vpn_def)
  ultimately show ?thesis
    using cr slot(2,3) fr by (auto simp: fresh_pcb_def zero_pcb_def)
qed

theorem process_create_address_space_witness:
  "\<exists>slot k'. process_create 0 demo_kernel = Return (Some slot) k' \<and>
     walk (mem (k_mm k')) (p_page_directory (pcb_of k' slot)) 0x123456 \<noteq> None"
proof -
  have "\<exists>i < MAX_PROCESSES. \<not> process_used demo_kernel ! i"
    by (rule exI[of _ 3]) (simp add: demo_used_iff MAX_PROCESSES_def)
  moreover have "unat (9 :: u32) < MAX_PROCESSES" "(9 :: u32) \<noteq> 0" by (simp_all add: MAX_PROCESSES_def)
  ultimately obtain slot k' where "process_create 0 demo_kernel = Return (Some slot) k'"
    "\<forall>va. walk (mem (k_mm k')) (p_page_directory (pcb_of k' slot)) va =
      (if unat va < 16 * 1024 * 1024
       then Some (va, if va \<in> {p_user_stack (pcb_of k' slot)..<p_user_stack (pcb_of k' slot) + 16384} then 6 else 2)
       else None)"
    using process_create_address_space[OF demo_proc_inv, of 9 0] demo_free_pid demo_roomy by auto
  then show ?thesis by auto
qed

text \<open>What a successful creation tells.\<close>

lemma process_created:
  assumes "proc_inv k" and "mm_inv (k_mm k)" and "roomy (k_mm k)" and create: "process_create parent k = Return (Some slot) k1"
  obtains pid d p q s' where "slot < MAX_PROCESSES" "\<not> process_used k ! slot"
    "k1 = set_pcb slot (\<lambda>_. fresh_pcb pid parent True (page_addr d) (page_addr p) (page_addr q))
         (k\<lparr>alloc_next_pid := pid + 1, k_mm := s', process_used := (process_used k)[slot := True]\<rparr>)"
    "process_memory (k_mm k) d p (Some q) s'" "proc_inv k1"
proof -
  have len: "length (process_used k) = MAX_PROCESSES" using assms(1) by (simp add: proc_inv_def)
  have fs: "find (\<lambda>i. \<not> process_used k ! i) [0..<MAX_PROCESSES] = Some slot"
    using create by (auto simp: process_create_def process_create_internal_def on_mm_def do_mm_def process_cleanup_def
        Let_def split: option.splits prod.splits if_splits)
  then have slot: "slot < MAX_PROCESSES" "\<not> process_used k ! slot" unfolding find_upt_Some_iff by blast+
  obtain pid where pid: "process_allocate_pid k = (pid, k\<lparr>alloc_next_pid := pid + 1\<rparr>)" "pid \<noteq> 0"
    "unat pid < MAX_PROCESSES" "\<not> pid_used k pid"
    by (cases rule: allocate_pid_cases[of k])
      (use create fs in \<open>auto simp: process_create_def process_create_internal_def\<close>)
  obtain d p q s' where k1: "k1 = set_pcb slot (\<lambda>_. fresh_pcb pid parent True (page_addr d) (page_addr p) (page_addr q))
         (k\<lparr>alloc_next_pid := pid + 1, k_mm := s', process_used := (process_used k)[slot := True]\<rparr>)"
    and pm: "process_memory (k_mm k) d p (Some q) s'"
    using create_internal_spec[OF assms(2,3) len fs pid(1,2), of parent True] create by (auto simp: process_create_def)
  have "pcb_of k1 = (pcb_of k)(slot := fresh_pcb pid parent True (page_addr d) (page_addr p) (page_addr q))"
    by (simp add: k1 pcb_of_def fun_eq_iff)
  then have "proc_inv k1"
    by (rule proc_inv_create[OF assms(1) slot pid(2-4), rotated 2]) (simp_all add: fresh_pcb_def k1)
  then show thesis using that slot k1 pm by blast
qed

text \<open>The identifiers in use depend on the entries of the used slots only.\<close>

lemma same_identifiers:
  assumes "process_used k2 = process_used k" "\<And>j. j < MAX_PROCESSES \<Longrightarrow> process_used k ! j \<Longrightarrow> pcb_of k2 j = pcb_of k j"
  shows "pid_used k2 i = pid_used k i" "process_find i k2 = process_find i k" "proc_inv k \<Longrightarrow> proc_inv k2"
proof -
  show "pid_used k2 i = pid_used k i" using assms by (auto simp: pid_used_iff)
  show "process_find i k2 = process_find i k"
    unfolding process_find_def by (rule find_cong) (use assms in auto)
  show "proc_inv k \<Longrightarrow> proc_inv k2" unfolding proc_inv_def using assms by simp
qed

lemma created_identifier:
  assumes "proc_inv k1" "slot < MAX_PROCESSES" "\<not> process_used k ! slot" "length (process_used k) = MAX_PROCESSES"
    "process_used k1 = (process_used k)[slot := True]" "pcb_of k1 = (pcb_of k)(slot := c)" "pid = p_pid c"
  shows "0 < unat pid" "unat pid < MAX_PROCESSES" "\<not> pid_used k pid" "pid_used k1 pid" "process_find pid k1 = Some slot"
proof -
  have u: "process_used k1 ! slot" "p_pid (pcb_of k1 slot) = pid" using assms(2,4-7) by simp_all
  then show "0 < unat pid" "unat pid < MAX_PROCESSES" using assms(1,2) by (auto simp: proc_inv_def unat_gt_0)
  show "pid_used k1 pid" using u assms(2) by (auto simp: pid_used_iff)
  show "process_find pid k1 = Some slot" using u assms(2) by (simp add: process_find_iff[OF assms(1)])
  show "\<not> pid_used k pid"
  proof
    assume "pid_used k pid"
    then obtain j where j: "j < MAX_PROCESSES" "process_used k ! j" "p_pid (pcb_of k j) = pid" by (auto simp: pid_used_iff)
    then have "j \<noteq> slot" using assms(3) by blast
    then have "j \<noteq> slot" "process_used k1 ! j" "p_pid (pcb_of k1 j) = pid" using j assms(5,6) by simp_all
    then show False using j(1) u assms(1,2) unfolding proc_inv_def by metis
  qed
qed

text \<open>
  C32: Creating a process and killing it before it is ever scheduled gives everything back. The identifier is a fresh one
  between 1 and 63 by which the new process is found; the kill reports success, exactly the pages in use before the
  creation are in use, the slot is free, the identifier is no longer in use, every identifier is in use or not and finds
  the process it found before the creation, and the entries of all other processes and the ready queue are untouched.
  (The kernel's own directory is in use, and the current process, if any, occupies its slot.)
\<close>

theorem create_kill_roundtrip:
  assumes "proc_inv k" and "mm_inv (k_mm k)" and "roomy (k_mm k)"
    and "unat (kernel_page_dir (k_mm k)) div 4096 \<in> used (k_mm k)"
    and "\<And>c. current_of k = Some c \<Longrightarrow> c < MAX_PROCESSES \<and> process_used k ! c"
    and "process_create parent k = Return (Some slot) k1" and "pid = p_pid (pcb_of k1 slot)"
  shows "\<exists>k2. 0 < unat pid \<and> unat pid < MAX_PROCESSES \<and> \<not> pid_used k pid \<and> pid_used k1 pid \<and> process_find pid k1 = Some slot \<and>
    process_kill pid k1 = Return STATUS_SUCCESS k2 \<and>
    used (k_mm k2) = used (k_mm k) \<and> mm_inv (k_mm k2) \<and> process_used k2 = process_used k \<and>
    \<not> pid_used k2 pid \<and> (\<forall>i. pid_used k2 i = pid_used k i \<and> process_find i k2 = process_find i k) \<and> proc_inv k2 \<and>
    (\<forall>j. j \<noteq> slot \<longrightarrow> pcb_of k2 j = pcb_of k j) \<and> k_sched k2 = (k_sched k)\<lparr>pcbs := pcbs (k_sched k2)\<rparr>"
proof -
  obtain i d p q s' where slot: "slot < MAX_PROCESSES" "\<not> process_used k ! slot"
    and k1: "k1 = set_pcb slot (\<lambda>_. fresh_pcb i parent True (page_addr d) (page_addr p) (page_addr q))
         (k\<lparr>alloc_next_pid := i + 1, k_mm := s', process_used := (process_used k)[slot := True]\<rparr>)"
    and pm: "process_memory (k_mm k) d p (Some q) s'" and inv: "proc_inv k1"
    by (rule process_created[OF assms(1-3,6)])
  note pmD = process_memoryD[OF pm]
  have len: "length (process_used k) = MAX_PROCESSES" using assms(1) by (simp add: proc_inv_def)
  have pcb: "pcb_of k1 = (pcb_of k)(slot := fresh_pcb i parent True (page_addr d) (page_addr p) (page_addr q))"
    by (simp add: k1 pcb_of_def fun_eq_iff)
  have pid: "pid = p_pid (fresh_pcb i parent True (page_addr d) (page_addr p) (page_addr q))"
    using assms(7) by (simp add: pcb)
  have id: "0 < unat pid" "unat pid < MAX_PROCESSES" "\<not> pid_used k pid" "pid_used k1 pid" "process_find pid k1 = Some slot"
    using created_identifier[OF inv slot len _ pcb pid] by (simp_all add: k1)
  have cur: "current_process (k_sched k1) \<noteq> Some slot"
    using assms(5)[of slot] slot(2) by (auto simp: k1 current_of_def scheduler_get_current_def)
  let ?k = "set_pcb slot (\<lambda>c. c\<lparr>p_state := PROCESS_TERMINATED, p_exit_code := 0\<rparr>) (exit_message (p_pid (pcb_of k1 slot)) k1)"
  have rm: "on_switch (scheduler_remove_process (Some slot)) ?k = Return () ?k"
    using cur by (simp add: on_switch_def scheduler_remove_process_def Let_def)
  have "kernel_page_dir (k_mm ?k) = kernel_page_dir (k_mm k)" using pmD(7) by (simp add: k1 mm_regs_def)
  moreover have "unat (page_addr d) div 4096 \<notin> used (k_mm k)" using pmD(1,2,6) by (auto simp: unat_page_addr process_frames_def)
  ultimately have kp: "page_addr d \<noteq> kernel_page_dir (k_mm ?k)" using assms(4) by auto
  have "\<exists>s2. process_cleanup (Some slot) ?k = Return () (?k\<lparr>k_mm := s2\<rparr>) \<and> mm_inv s2 \<and>
    used s2 = used (k_mm ?k) - process_frames (mem (k_mm ?k)) d p (Some q) \<and> mm_content s2 = mm_content (k_mm ?k)"
    by (rule cleanup_spec[OF _ _ _ _ pmD(1,2) kp pmD(3,4)])
      (use pmD(9-11) in \<open>simp_all add: pcb fresh_pcb_def k1\<close>)
  then obtain s2 where s2: "process_cleanup (Some slot) ?k = Return () (?k\<lparr>k_mm := s2\<rparr>)" "mm_inv s2"
    "used s2 = used s' - process_frames (mem s') d p (Some q)" by (auto simp: k1)
  define k2 where "k2 = ?k\<lparr>k_mm := s2, process_used := (process_used k1)[slot := False]\<rparr>"
  have kill: "process_kill pid k1 = Return STATUS_SUCCESS k2"
    using id(5) rm s2(1) slot(1) by (simp add: process_kill_def process_exit_def process_free_pid_def Let_def k2_def)
  have fin: "used (k_mm k2) = used (k_mm k)" "mm_inv (k_mm k2)" using s2(2,3) pmD(5,6) by (auto simp: k2_def)
  have pu: "process_used k2 = process_used k" using slot len by (simp add: k2_def k1 list_update_same_conv)
  have oth: "pcb_of k2 j = pcb_of k j" if "j \<noteq> slot" for j using that by (simp add: k2_def k1 pcb_of_def set_pcb_def)
  have sc: "k_sched k2 = (k_sched k)\<lparr>pcbs := pcbs (k_sched k2)\<rparr>" by (simp add: k2_def k1 set_pcb_def)
  have "pcb_of k2 j = pcb_of k j" if "process_used k ! j" for j
    using that slot(2) by (intro oth) (rule notI, simp)
  then have "pid_used k2 i = pid_used k i" "process_find i k2 = process_find i k" "proc_inv k2" for i
    using same_identifiers[OF pu] assms(1) by blast+
  then show ?thesis using id kill fin pu oth sc by (intro exI[of _ k2]) auto
qed

theorem create_kill_roundtrip_witness:
  "\<exists>slot k1 k2. process_create 0 demo_kernel = Return (Some slot) k1 \<and>
     pid_used k1 (p_pid (pcb_of k1 slot)) \<and> process_kill (p_pid (pcb_of k1 slot)) k1 = Return STATUS_SUCCESS k2 \<and>
     \<not> pid_used k2 (p_pid (pcb_of k1 slot)) \<and> used (k_mm k2) = {0}"
proof -
  obtain slot k1 where cr: "process_create 0 demo_kernel = Return (Some slot) k1" using demo_process_create by blast
  have cur: "c < MAX_PROCESSES \<and> process_used demo_kernel ! c" if "current_of demo_kernel = Some c" for c
    using that by (auto simp: current_of_def scheduler_get_current_def demo_sched_def MAX_PROCESSES_def)
  have "unat (kernel_page_dir (k_mm demo_kernel)) div 4096 \<in> used (k_mm demo_kernel)"
    by (simp add: demo_mm_def[THEN arg_cong[of _ _ kernel_page_dir]])
  from create_kill_roundtrip[OF demo_proc_inv _ _ this cur cr refl] show ?thesis using cr demo_roomy by auto
qed

text \<open>
  Killing a process that waits in the ready queue does not take it out of the queue:
  \<^verbatim>\<open>process_exit\<close> marks it TERMINATED before it calls \<^verbatim>\<open>scheduler_remove_process\<close>, which unlinks only READY
  processes. When \<^verbatim>\<open>process_exit\<close> returns, the slot and the memory of the process are free but the ready
  queue still holds it at its old position.
\<close>

lemma exit_ready_process_stays_queued:
  assumes "sched_inv (k_sched k) xs" and "p \<in> set xs" and "current_of k \<noteq> Some p"
    and "p < length (process_used k)" and "p < MAX_PROCESSES" and "process_exit (Some p) code k = Return () k'"
  shows "\<not> process_used k' ! p \<and> queue_rep (k_sched k') xs \<and> p \<in> set xs \<and>
    p_state (pcb_of k' p) = PROCESS_TERMINATED"
proof -
  let ?k = "set_pcb p (\<lambda>c. c\<lparr>p_state := PROCESS_TERMINATED, p_exit_code := code\<rparr>) (exit_message (p_pid (pcb_of k p)) k)"
  have "on_switch (scheduler_remove_process (Some p)) ?k = Return () ?k"
    using assms(3) by (simp add: on_switch_def scheduler_remove_process_def Let_def current_of_def scheduler_get_current_def)
  then obtain k1 where k1: "process_cleanup (Some p) ?k = Return () k1"
    and k': "k' = k1\<lparr>process_used := (process_used k1)[p := False]\<rparr>"
    using assms(5,6) by (cases "process_cleanup (Some p) ?k") (auto simp: process_exit_def process_free_pid_def Let_def)
  note fr = cleanup_frame[OF k1]
  have "queue_rep (k_sched ?k) xs" using assms(1) by (simp add: sched_inv_def terminate_queue)
  then show ?thesis using fr k' assms(2,4) by (simp add: pcb_of_def)
qed

lemma exit_ready_process_stays_queued_witness:
  "\<exists>k'. process_exit (Some 1) 0 demo_kernel = Return () k' \<and> \<not> process_used k' ! 1 \<and>
     queue_rep (k_sched k') [1, 2]"
proof -
  have m: "1 < MAX_PROCESSES" by (simp add: MAX_PROCESSES_def)
  have cur: "current_of demo_kernel \<noteq> Some 1"
    by (simp add: current_of_def scheduler_get_current_def demo_sched_def)
  then obtain k' where e: "process_exit (Some 1) 0 demo_kernel = Return () k'"
    using m by (simp add: process_exit_def on_switch_def scheduler_remove_process_def Let_def current_of_def
        scheduler_get_current_def process_cleanup_def pcb_of_def demo_sched_def zero_pcb_def)
  have "sched_inv (k_sched demo_kernel) [1, 2]" using demo_sched_inv by simp
  from exit_ready_process_stays_queued[OF this _ cur _ m e] show ?thesis using e by simp
qed

text \<open>
  Whose turn it is, whatever the states of the waiting processes: a yield looks at the links of the queue and at the state
  of the current process only.
\<close>

definition turns :: "sched \<Rightarrow> nat list \<Rightarrow> bool" where
  "turns s xs \<longleftrightarrow> xs \<noteq> [] \<and> current_process s = Some (hd xs) \<and> p_state (pcbs s (hd xs)) = PROCESS_RUNNING \<and>
     queue_rep s (tl xs) \<and> hd xs \<notin> set (tl xs)"

lemma yield_turns:
  assumes "turns s xs"
  shows "\<exists>s' ctl. scheduler_yield s = Some (s', ctl) \<and> turns s' (rotate1 xs)"
proof -
  obtain c r where xs: "xs = c # r" using assms by (cases xs) (auto simp: turns_def)
  show ?thesis
  proof (cases r)
    case Nil
    then show ?thesis using assms xs by (auto simp: turns_def scheduler_yield_def queue_rep_def)
  next
    case (Cons x ys)
    then have cur: "current_process s = Some c" "p_state (pcbs s c) = PROCESS_RUNNING" and rep: "queue_rep s (x # ys)"
      and c: "c \<notin> set (x # ys)" using assms xs by (simp_all add: turns_def)
    let ?s1 = "upd_pcb c (\<lambda>c. c\<lparr>p_state := PROCESS_READY\<rparr>) s"
    obtain s2 where s2: "scheduler_add_to_ready (Some c) ?s1 = Some s2" "queue_rep s2 (x # ys @ [c])"
      using add_to_ready_rep[of ?s1 "x # ys" c] rep c by auto
    obtain s' ctl where sw: "scheduler_switch_to x (scheduler_remove_from_ready (Some x) s2) = (s', ctl)" by fastforce
    have "scheduler_yield s = Some (s', ctl)"
      using rq.rep_front[OF rep] rq.rep_front[OF s2(2)] s2(1) cur sw by (simp add: scheduler_yield_def current_running_def)
    moreover have "queue_rep (scheduler_remove_from_ready (Some x) s2) (ys @ [c])" using rq.front_unlink[OF s2(2)] by simp
    moreover have "x \<notin> set (ys @ [c])" using rq.rep_distinct[OF s2(2)] by simp
    ultimately show ?thesis using sw xs Cons by (auto simp: turns_def scheduler_switch_to_def Let_def split: if_splits)
  qed
qed

lemma yields_turns: "turns s xs \<Longrightarrow> \<exists>s'. yields n s = Some s' \<and> turns s' (rotate n xs)"
proof (induction n)
  case (Suc n)
  then obtain t where "yields n s = Some t" "turns t (rotate n xs)" by blast
  then show ?case using yield_turns[of t "rotate n xs"] by auto
qed simp

text \<open>
  A process that is killed while it waits its turn runs again. \<^verbatim>\<open>process_kill\<close> of a process that is the \<open>i\<close>-th in the ready queue
  reports success when it returns: the entry is TERMINATED, the slot is free and \<^verbatim>\<open>process_cleanup\<close> has freed its stacks and its
  directory. But \<^verbatim>\<open>process_exit\<close> has marked it TERMINATED before it called \<^verbatim>\<open>scheduler_remove_process\<close>, which only unlinks READY
  processes, so that the queue still holds it at its old position, and after \<open>i + 1\<close> yields it is the current process,
  marked RUNNING again.
\<close>

lemma killed_process_runs_again:
  assumes "rr_state (k_sched k) (c # xs)" and "i < length xs" and "process_find pid k = Some (xs ! i)"
    and "length (process_used k) = MAX_PROCESSES" and "process_kill pid k = Return st k1"
  shows "st = STATUS_SUCCESS \<and> \<not> process_used k1 ! (xs ! i) \<and> p_state (pcb_of k1 (xs ! i)) = PROCESS_TERMINATED \<and>
    process_find pid k1 \<noteq> Some (xs ! i) \<and> queue_rep (k_sched k1) xs \<and>
    (\<exists>s'. yields (Suc i) (k_sched k1) = Some s' \<and> current_process s' = Some (xs ! i) \<and>
       p_state (pcbs s' (xs ! i)) = PROCESS_RUNNING)"
proof -
  let ?p = "xs ! i"
  have inv: "sched_inv (k_sched k) xs" and cur: "current_process (k_sched k) = Some c" "p_state (pcbs (k_sched k) c) = PROCESS_RUNNING"
    using assms(1) by (auto simp: rr_state_def current_running_def)
  have p: "?p \<in> set xs" "?p < MAX_PROCESSES" using assms(2,3) by (auto simp: process_find_def find_upt_Some_iff)
  have cp: "c \<notin> set xs" using inv cur(2) by (auto simp: sched_inv_def)
  then have nc: "?p \<noteq> c" using p(1) by blast
  obtain k' where e: "process_exit (Some ?p) 0 k = Return () k'" and k1: "k1 = k'" "st = STATUS_SUCCESS"
    using assms(3,5) by (cases "process_exit (Some ?p) 0 k") (auto simp: process_kill_def)
  let ?k = "set_pcb ?p (\<lambda>c. c\<lparr>p_state := PROCESS_TERMINATED, p_exit_code := 0\<rparr>) (exit_message (p_pid (pcb_of k ?p)) k)"
  have "on_switch (scheduler_remove_process (Some ?p)) ?k = Return () ?k"
    using cur nc by (simp add: on_switch_def scheduler_remove_process_def Let_def)
  then obtain k2 where k2: "process_cleanup (Some ?p) ?k = Return () k2"
    and k': "k' = k2\<lparr>process_used := (process_used k2)[?p := False]\<rparr>"
    using p(2) e by (cases "process_cleanup (Some ?p) ?k") (auto simp: process_exit_def process_free_pid_def Let_def)
  have sch: "k_sched k1 = k_sched ?k" and pu: "process_used k1 = (process_used k)[?p := False]"
    using cleanup_frame[OF k2] k' k1 by simp_all
  have rep: "queue_rep (k_sched k1) xs" using inv by (simp add: sch sched_inv_def terminate_queue)
  have "turns (k_sched k1) (c # xs)" using rep cur cp nc by (simp add: turns_def sch)
  then obtain s' where s': "yields (Suc i) (k_sched k1) = Some s'" "turns s' (rotate (Suc i) (c # xs))"
    using yields_turns by blast
  have "hd (rotate (Suc i) (c # xs)) = ?p" using assms(2) by (simp add: hd_rotate_conv_nth del: rotate_Suc)
  then have "current_process s' = Some ?p" "p_state (pcbs s' ?p) = PROCESS_RUNNING" using s'(2) by (auto simp: turns_def)
  moreover have "process_find pid k1 \<noteq> Some ?p" using p(2) pu assms(4) by (auto simp: process_find_def find_upt_Some_iff)
  moreover have "p_state (pcb_of k1 ?p) = PROCESS_TERMINATED" using sch by (simp add: pcb_of_def)
  ultimately show ?thesis using k1(2) pu p(2) assms(4) rep s'(1) by auto
qed

lemma killed_process_demo:
  "\<exists>k1 s'. process_kill 3 demo_kernel = Return STATUS_SUCCESS k1 \<and> \<not> process_used k1 ! 2 \<and>
     yields 2 (k_sched k1) = Some s' \<and> current_process s' = Some 2"
proof -
  have rr: "rr_state (k_sched demo_kernel) [0, 1, 2]" using demo_rr_state by simp
  have find: "process_find 3 demo_kernel = Some 2"
    using demo_proc_inv by (simp add: process_find_iff pcb_of_def demo_sched_def MAX_PROCESSES_def)
  then obtain k1 where e: "process_kill 3 demo_kernel = Return STATUS_SUCCESS k1"
    by (simp add: process_kill_def process_exit_def on_switch_def scheduler_remove_process_def Let_def current_of_def
        scheduler_get_current_def process_cleanup_def pcb_of_def demo_sched_def zero_pcb_def MAX_PROCESSES_def)
  have len: "length (process_used demo_kernel) = MAX_PROCESSES" using demo_proc_inv by (simp add: proc_inv_def)
  from killed_process_runs_again[OF rr, of 1, OF _ _ len e] find e show ?thesis by (auto simp: numeral_2_eq_2)
qed

text \<open>
  C35: When the current process exits while others are ready, \<^verbatim>\<open>scheduler_remove_process\<close> switches away with
  no process to save (\<open>prev\<close> is NULL), so the rest of \<^verbatim>\<open>process_exit\<close> never runs: at the switch the slot is
  still marked used and not a page of the process has been given back.
\<close>

theorem exit_current_never_cleans_up:
  assumes "sched_inv (k_sched k) (x # xs)" and "current_of k = Some p" and "p \<notin> set (x # xs)"
  shows "\<exists>k1 rest. process_exit (Some p) code k = Switch None x k1 rest \<and>
    process_used k1 = process_used k \<and> k_mm k1 = k_mm k \<and>
    current_of k1 = Some x \<and> sched_inv (k_sched k1) xs \<and> p_state (pcb_of k1 p) = PROCESS_TERMINATED"
  by (rule exit_current[OF assms])

theorem exit_current_never_cleans_up_witness:
  "\<exists>k1 rest. process_exit (Some 0) 7 demo_kernel = Switch None 1 k1 rest \<and> process_used k1 ! 0"
proof -
  have i: "sched_inv (k_sched demo_kernel) [1, 2]" using demo_sched_inv by simp
  have "current_of demo_kernel = Some 0" by (simp add: current_of_def scheduler_get_current_def demo_sched_def)
  moreover have "0 \<notin> set [1, 2 :: nat]" by simp
  ultimately obtain k1 rest where "process_exit (Some 0) 7 demo_kernel = Switch None 1 k1 rest"
    "process_used k1 = process_used demo_kernel"
    using exit_current_never_cleans_up[OF i, of 0 7] by blast
  then show ?thesis by simp
qed

end
