(* ===== verification/Ipc.thy ===== *)
theory Ipc
  imports Process
begin

text \<open>
  Message passing, \<^verbatim>\<open>kernel/ipc.c\<close>. Queue headers and messages live in pages of their own in the byte
  memory, at the offsets of \<^verbatim>\<open>message_queue_t\<close> and \<^verbatim>\<open>ipc_message_t\<close>; pointers are addresses and 0 is NULL. The
  message in the caller's address space (\<^verbatim>\<open>ipc_abi_message_t\<close>) is read and written through the same
  memory. An index outside \<^verbatim>\<open>message_queues\<close> is \<open>Undef\<close>, and so is a pointer chain that never ends.
\<close>

section \<open>Layout\<close>

text \<open>The header fields have the same offsets in the kernel's and in the caller's message.\<close>

definition msg_id :: "memory \<Rightarrow> u32 \<Rightarrow> u32" where "msg_id m p = load32 m p"
definition msg_sender :: "memory \<Rightarrow> u32 \<Rightarrow> u32" where "msg_sender m p = load32 m (p + 4)"
definition msg_receiver :: "memory \<Rightarrow> u32 \<Rightarrow> u32" where "msg_receiver m p = load32 m (p + 8)"
definition msg_type :: "memory \<Rightarrow> u32 \<Rightarrow> u32" where "msg_type m p = load32 m (p + 12)"
definition msg_flags :: "memory \<Rightarrow> u32 \<Rightarrow> u32" where "msg_flags m p = load32 m (p + 16)"
definition msg_timestamp :: "memory \<Rightarrow> u32 \<Rightarrow> u32" where "msg_timestamp m p = load32 m (p + 20)"
definition msg_size :: "memory \<Rightarrow> u32 \<Rightarrow> u32" where "msg_size m p = load32 m (p + 24)"
definition msg_next :: "memory \<Rightarrow> u32 \<Rightarrow> u32" where "msg_next m p = load32 m (p + 28)"

abbreviation KMSG_DATA :: u32 where "KMSG_DATA \<equiv> 32"
abbreviation UMSG_DATA :: u32 where "UMSG_DATA \<equiv> 28"
abbreviation IPC_MAX_DATA :: u32 where "IPC_MAX_DATA \<equiv> 256"

definition q_head :: "memory \<Rightarrow> u32 \<Rightarrow> u32" where "q_head m q = load32 m q"
definition q_tail :: "memory \<Rightarrow> u32 \<Rightarrow> u32" where "q_tail m q = load32 m (q + 4)"
definition q_count :: "memory \<Rightarrow> u32 \<Rightarrow> u32" where "q_count m q = load32 m (q + 8)"
definition q_max :: "memory \<Rightarrow> u32 \<Rightarrow> u32" where "q_max m q = load32 m (q + 12)"

definition set_mem :: "memory \<Rightarrow> kernel \<Rightarrow> kernel" where
  "set_mem m k = k\<lparr>k_mm := (k_mm k)\<lparr>mem := m\<rparr>\<rparr>"

definition kmem :: "kernel \<Rightarrow> memory" where
  "kmem k = mem (k_mm k)"

definition queue_of :: "u32 \<Rightarrow> kernel \<Rightarrow> u32 option" where
  "queue_of pid k = (if unat pid < length (message_queues k) then Some (message_queues k ! unat pid) else None)"

section \<open>Queues\<close>

definition ipc_init :: "kernel \<Rightarrow> kernel" where
  "ipc_init k = print (''IPC system initialized'' @ crlf)
     (k\<lparr>message_queues := replicate MAX_PROCESSES 0, next_msg_id := 1, msg_handlers := replicate 32 0\<rparr>)"

text \<open>The memory effect of \<^verbatim>\<open>ipc_remove_from_queue\<close> on a queue that is not empty.\<close>

definition queue_pop :: "u32 \<Rightarrow> memory \<Rightarrow> u32 \<times> memory" where
  "queue_pop q m =
     (let msg = q_head m q;
          m = store32 m q (msg_next m msg);
          m = (if q_head m q = 0 then store32 m (q + 4) 0 else m);
          m = store32 m (q + 8) (q_count m q - 1)
      in (msg, store32 m (msg + 28) 0))"

definition ipc_remove_from_queue :: "u32 \<Rightarrow> kernel \<Rightarrow> u32 outcome" where
  "ipc_remove_from_queue pid k = (case queue_of pid k of
     None \<Rightarrow> Undef
   | Some q \<Rightarrow>
       if q = 0 \<or> q_head (kmem k) q = 0 then Return 0 k
       else (case queue_pop q (kmem k) of (msg, m) \<Rightarrow> Return msg (set_mem m k)))"

text \<open>The end of \<^verbatim>\<open>ipc_add_to_queue\<close>: link the message at the tail and count it.\<close>

definition queue_append :: "u32 \<Rightarrow> u32 \<Rightarrow> memory \<Rightarrow> memory" where
  "queue_append q msg m =
     (let m = store32 m (msg + 28) 0;
          m = (if q_head m q = 0 then store32 (store32 m q msg) (q + 4) msg
               else store32 (store32 m (q_tail m q + 28) msg) (q + 4) msg)
      in store32 m (q + 8) (q_count m q + 1))"

definition queue_header :: "u32 \<Rightarrow> memory \<Rightarrow> memory" where
  "queue_header q m = store32 (store32 (store32 (store32 m q 0) (q + 4) 0) (q + 8) 0) (q + 12) 100"

definition ipc_add_to_queue :: "u32 \<Rightarrow> u32 \<Rightarrow> kernel \<Rightarrow> unit outcome" where
  "ipc_add_to_queue pid msg k =
     (if msg = 0 then Return () k
      else case queue_of pid k of
        None \<Rightarrow> Undef
      | Some q0 \<Rightarrow>
          obind (if q0 = 0
                 then obind (on_mm (memory_alloc_pages 1) k) (\<lambda>q k.
                        let k = k\<lparr>message_queues := (message_queues k)[unat pid := q]\<rparr>
                        in if q = 0 then Return False k else Return True (set_mem (queue_header q (kmem k)) k))
                 else Return True k) (\<lambda>ok k.
          if \<not> ok then Return () k
          else
            let q = message_queues k ! unat pid in
            obind (if q_count (kmem k) q \<ge> q_max (kmem k) q then ipc_remove_from_queue pid k else Return 0 k) (\<lambda>_ k.
            Return () (set_mem (queue_append q msg (kmem k)) k))))"

text \<open>The search loop of \<^verbatim>\<open>ipc_find_in_queue\<close>: the first match and its predecessor, 0 for none.\<close>

partial_function (option) find_msg :: "(u32 \<Rightarrow> bool) \<Rightarrow> memory \<Rightarrow> u32 \<Rightarrow> u32 \<Rightarrow> (u32 \<times> u32) option" where
  "find_msg P m current prev =
     (if current = 0 then Some (0, prev)
      else if P current then Some (current, prev)
      else find_msg P m (msg_next m current) current)"

definition queue_unlink :: "u32 \<Rightarrow> u32 \<Rightarrow> u32 \<Rightarrow> memory \<Rightarrow> memory" where
  "queue_unlink q current prev m =
     (let m = (if prev \<noteq> 0 then store32 m (prev + 28) (msg_next m current)
               else store32 m q (msg_next m current));
          m = (if current = q_tail m q then store32 m (q + 4) prev else m);
          m = store32 m (q + 8) (q_count m q - 1)
      in store32 m (current + 28) 0)"

definition ipc_find_in_queue :: "u32 \<Rightarrow> u32 \<Rightarrow> kernel \<Rightarrow> u32 outcome" where
  "ipc_find_in_queue pid sender_pid k = (case queue_of pid k of
     None \<Rightarrow> Undef
   | Some q \<Rightarrow>
       if q = 0 then Return 0 k
       else (case find_msg (\<lambda>c. sender_pid = 0 \<or> msg_sender (kmem k) c = sender_pid) (kmem k) (q_head (kmem k) q) 0 of
               None \<Rightarrow> Undef
             | Some (current, prev) \<Rightarrow>
                 if current = 0 then Return 0 k
                 else Return current (set_mem (queue_unlink q current prev (kmem k)) k)))"

section \<open>Sending and receiving\<close>

definition find_process :: "u32 \<Rightarrow> kernel \<Rightarrow> nat option outcome" where
  "find_process pid k = (case scheduler_find_process pid (k_sched k) of None \<Rightarrow> Undef | Some r \<Rightarrow> Return r k)"

definition ipc_wakeup_receiver :: "u32 \<Rightarrow> kernel \<Rightarrow> unit outcome" where
  "ipc_wakeup_receiver pid k =
     obind (find_process pid k) (\<lambda>process k. case process of
       None \<Rightarrow> Return () k
     | Some p \<Rightarrow>
         if p_state (pcb_of k p) = PROCESS_BLOCKED
         then obind (do_sched (scheduler_unblock_process (Some p)) k) (\<lambda>_ k.
                Return () (set_pcb p (\<lambda>c. c\<lparr>p_waiting_for := 0\<rparr>) k))
         else Return () k)"

text \<open>
  \<^verbatim>\<open>scheduler_get_current()->pid\<close>: the identifier is the first field of the structure, so with no current
  process the read goes to address 0.
\<close>

definition current_pid :: "kernel \<Rightarrow> u32" where
  "current_pid k = (case current_of k of None \<Rightarrow> load32 (kmem k) 0 | Some p \<Rightarrow> p_pid (pcb_of k p))"

definition write_kernel_msg :: "u32 \<Rightarrow> u32 \<Rightarrow> u32 \<Rightarrow> u32 \<Rightarrow> u32 \<Rightarrow> memory \<Rightarrow> memory" where
  "write_kernel_msg km um i sender receiver m =
     (let m = store32 m km i;
          m = store32 m (km + 4) sender;
          m = store32 m (km + 8) receiver;
          m = store32 m (km + 12) (msg_type m um);
          m = store32 m (km + 16) (msg_flags m um);
          m = store32 m (km + 20) 0;
          m = store32 m (km + 24) (msg_size m um);
          m = store32 m (km + 28) 0
      in if msg_size m um > 0 then memcpy m (km + KMSG_DATA) (um + UMSG_DATA) (unat (msg_size m um)) else m)"

definition ipc_send :: "u32 \<Rightarrow> u32 \<Rightarrow> kernel \<Rightarrow> status_t outcome" where
  "ipc_send receiver_pid um k =
     (if um = 0 then Return STATUS_INVALID_PARAM k
      else obind (find_process receiver_pid k) (\<lambda>receiver k.
        if receiver = None then Return STATUS_NOT_FOUND k
        else if msg_size (kmem k) um > IPC_MAX_DATA then Return STATUS_INVALID_PARAM k
        else
          obind (on_mm (memory_alloc_pages ((32 + msg_size (kmem k) um + PAGE_SIZE - 1) div PAGE_SIZE)) k) (\<lambda>km k.
          if km = 0 then Return STATUS_OUT_OF_MEMORY k
          else
            let m = write_kernel_msg km um (next_msg_id k) (current_pid k) receiver_pid (kmem k);
                k = set_mem m (k\<lparr>next_msg_id := next_msg_id k + 1\<rparr>)
            in obind (ipc_add_to_queue receiver_pid km k) (\<lambda>_ k.
               obind (ipc_wakeup_receiver receiver_pid k) (\<lambda>_. Return STATUS_SUCCESS)))))"

definition write_user_msg :: "u32 \<Rightarrow> u32 \<Rightarrow> memory \<Rightarrow> memory" where
  "write_user_msg um km m =
     (let m = store32 m um (msg_id m km);
          m = store32 m (um + 4) (msg_sender m km);
          m = store32 m (um + 8) (msg_receiver m km);
          m = store32 m (um + 12) (msg_type m km);
          m = store32 m (um + 16) (msg_flags m km);
          m = store32 m (um + 20) (msg_timestamp m km);
          m = store32 m (um + 24) (msg_size m km)
      in if msg_size m km > 0 \<and> msg_size m km \<le> IPC_MAX_DATA
         then memcpy m (um + UMSG_DATA) (km + KMSG_DATA) (unat (msg_size m km)) else m)"

definition ipc_receive :: "u32 \<Rightarrow> u32 \<Rightarrow> bool \<Rightarrow> kernel \<Rightarrow> status_t outcome" where
  "ipc_receive sender_pid um block k = (case current_of k of
     None \<Rightarrow> Return STATUS_PERMISSION_DENIED k
   | Some r \<Rightarrow>
       obind (ipc_find_in_queue (p_pid (pcb_of k r)) sender_pid k) (\<lambda>km k.
       if km = 0 then
         if block then obind (on_switch scheduler_block_current k) (\<lambda>_. Return STATUS_SUCCESS)
         else Return STATUS_NOT_FOUND k
       else
         let k = (if um \<noteq> 0 then set_mem (write_user_msg um km (kmem k)) k else k)
         in obind (do_mm (memory_free_pages km 1) k) (\<lambda>_. Return STATUS_SUCCESS)))"

definition ipc_register_handler :: "u32 \<Rightarrow> u32 \<Rightarrow> kernel \<Rightarrow> status_t \<times> kernel" where
  "ipc_register_handler ty handler k =
     (if ty \<ge> 32 \<or> handler = 0 then (STATUS_INVALID_PARAM, k)
      else (STATUS_SUCCESS, k\<lparr>msg_handlers := (msg_handlers k)[unat ty := handler]\<rparr>))"

text \<open>The loop of \<^verbatim>\<open>ipc_broadcast\<close>, counting the successful sends.\<close>

fun broadcast_loop :: "nat list \<Rightarrow> u32 \<Rightarrow> u32 \<Rightarrow> kernel \<Rightarrow> u32 outcome" where
  "broadcast_loop [] um sent k = Return sent k"
| "broadcast_loop (i # r) um sent k =
     obind (ipc_send (of_nat i) um k) (\<lambda>st k. broadcast_loop r um (if st = STATUS_SUCCESS then sent + 1 else sent) k)"

definition ipc_broadcast :: "u32 \<Rightarrow> u32 \<Rightarrow> kernel \<Rightarrow> status_t outcome" where
  "ipc_broadcast ty um k =
     (if um = 0 then Return STATUS_INVALID_PARAM k
      else obind (broadcast_loop [1..<MAX_PROCESSES] um 0 k) (\<lambda>sent.
        Return (if sent > 0 then STATUS_SUCCESS else STATUS_ERROR)))"

text \<open>Status, and the two values stored through the pointers when the status is success.\<close>

definition ipc_get_queue_stats :: "u32 \<Rightarrow> kernel \<Rightarrow> status_t \<times> u32 \<times> u32" where
  "ipc_get_queue_stats pid k =
     (if pid \<ge> of_nat MAX_PROCESSES then (STATUS_INVALID_PARAM, 0, 0)
      else let q = message_queues k ! unat pid in
        if q = 0 then (STATUS_SUCCESS, 0, 0) else (STATUS_SUCCESS, q_count (kmem k) q, q_max (kmem k) q))"

partial_function (option) free_chain :: "u32 \<Rightarrow> mm \<Rightarrow> mm option" where
  "free_chain current s =
     (if current = 0 then Some s
      else let next = msg_next (mem s) current in
        (case memory_free_pages current 1 s of None \<Rightarrow> None | Some s \<Rightarrow> free_chain next s))"

definition ipc_clear_queue :: "u32 \<Rightarrow> kernel \<Rightarrow> status_t outcome" where
  "ipc_clear_queue pid k =
     (if pid \<ge> of_nat MAX_PROCESSES then Return STATUS_INVALID_PARAM k
      else let q = message_queues k ! unat pid in
        if q = 0 then Return STATUS_SUCCESS k
        else obind (do_mm (free_chain (q_head (kmem k) q)) k) (\<lambda>_ k.
          Return STATUS_SUCCESS (set_mem (store32 (store32 (store32 (kmem k) q 0) (q + 4) 0) (q + 8) 0) k)))"

section \<open>A queue in memory as a list of messages\<close>

definition ptr :: "u32 option \<Rightarrow> u32" where
  "ptr x = (case x of None \<Rightarrow> 0 | Some p \<Rightarrow> p)"

lemma ptr_simps [simp]: "ptr None = 0" "ptr (Some p) = p"
  by (simp_all add: ptr_def)

definition msg_page :: "u32 \<Rightarrow> u32 \<Rightarrow> bool" where
  "msg_page q p \<longleftrightarrow> page_aligned p \<and> p \<noteq> 0 \<and> p \<noteq> q"

definition mq_rep :: "u32 \<Rightarrow> memory \<Rightarrow> u32 list \<Rightarrow> bool" where
  "mq_rep q m xs \<longleftrightarrow> page_aligned q \<and> q \<noteq> 0 \<and> distinct xs \<and> (\<forall>p \<in> set xs. msg_page q p) \<and>
     q_head m q = ptr (hd_opt xs) \<and> q_tail m q = ptr (hd_opt (rev xs)) \<and> q_count m q = of_nat (length xs) \<and>
     (\<forall>p \<in> set xs. msg_next m p = ptr (nxt xs p))"

lemmas q_defs = q_head_def q_tail_def q_count_def q_max_def msg_next_def

lemma mq_repD:
  assumes "mq_rep q m xs"
  shows "page_aligned q" "q \<noteq> 0" "distinct xs" "q_head m q = ptr (hd_opt xs)" "q_tail m q = ptr (hd_opt (rev xs))"
    "q_count m q = of_nat (length xs)"
    "\<And>p. p \<in> set xs \<Longrightarrow> page_aligned p" "\<And>p. p \<in> set xs \<Longrightarrow> p \<noteq> 0" "\<And>p. p \<in> set xs \<Longrightarrow> p \<noteq> q"
    "\<And>p. p \<in> set xs \<Longrightarrow> msg_next m p = ptr (nxt xs p)"
  using assms by (simp_all add: mq_rep_def msg_page_def)

lemma mq_repI:
  assumes "page_aligned q" "q \<noteq> 0" "distinct xs" "\<And>p. p \<in> set xs \<Longrightarrow> msg_page q p"
    "q_head m q = ptr (hd_opt xs)" "q_tail m q = ptr (hd_opt (rev xs))" "q_count m q = of_nat (length xs)"
    "\<And>p. p \<in> set xs \<Longrightarrow> msg_next m p = ptr (nxt xs p)"
  shows "mq_rep q m xs"
  using assms by (simp add: mq_rep_def)

lemma mq_empty_iff: "mq_rep q m xs \<Longrightarrow> q_head m q = 0 \<longleftrightarrow> xs = []"
  using mq_repD(4,8)[of q m xs] by (cases xs) auto

text \<open>Appending.\<close>

lemma queue_append_rep:
  assumes rep: "mq_rep q m xs" and new: "p \<notin> set xs" "msg_page q p"
  shows "mq_rep q (queue_append q p m) (xs @ [p])"
proof -
  note D = mq_repD[OF rep]
  have p: "page_aligned p" "p \<noteq> 0" "p \<noteq> q" using new(2) by (auto simp: msg_page_def)
  have d: "distinct (xs @ [p])" using D(3) new(1) by simp
  show ?thesis
  proof (cases xs rule: rev_cases)
    case Nil
    then show ?thesis
      using D(1,2,4,6) p
      by (intro mq_repI) (auto simp: queue_append_def q_defs Let_def load32_store32_struct msg_page_def)
  next
    case (snoc ys t)
    have t: "t \<in> set xs" "hd_opt (rev xs) = Some t" "xs \<noteq> []" using snoc by auto
    note T = D(7)[OF t(1)] D(8)[OF t(1)] D(9)[OF t(1)]
    have tp: "t \<noteq> p" using t(1) new(1) by auto
    have h: "q_head m q \<noteq> 0" using mq_empty_iff[OF rep] t(3) by simp
    let ?m = "queue_append q p m"
    have e: "?m = store32 (store32 (store32 (store32 m (p + 28) 0) (t + 28) p) (q + 4) p) (q + 8) (q_count m q + 1)"
      using h D(1,5) t(2) p T tp by (simp add: queue_append_def q_defs Let_def load32_store32_struct)
    have nx: "msg_next ?m a = (if a = t then p else if a = p then 0 else msg_next m a)" if "page_aligned a" "a \<noteq> q" for a
      unfolding e using that D(1) p T tp by (auto simp: msg_next_def load32_store32_struct)
    have "msg_next ?m a = ptr (nxt (xs @ [p]) a)" if "a \<in> set (xs @ [p])" for a
      using nxt_snoc[OF d, of a] t(2) that new(1) nx[of a] D(7,9,10)[of a] p tp by auto
    moreover have "q_head ?m q = q_head m q" "q_tail ?m q = p" "q_count ?m q = q_count m q + 1"
      unfolding e using D(1) p T by (auto simp: q_defs load32_store32_struct)
    ultimately show ?thesis
      using D t(3) new by (intro mq_repI) (auto simp: hd_opt_append mq_rep_def msg_page_def)
  qed
qed

text \<open>Searching.\<close>

lemma find_msg_spec:
  assumes "mq_rep q m (ys @ zs)"
  shows "find_msg P m (ptr (hd_opt zs)) (ptr (hd_opt (rev ys))) = Some (case find P zs of
      None \<Rightarrow> (0, ptr (hd_opt (rev (ys @ zs)))) | Some c \<Rightarrow> (c, ptr (nxt (rev (ys @ zs)) c)))"
  using assms
proof (induction zs arbitrary: ys)
  case Nil
  then show ?case by (simp add: find_msg.simps)
next
  case (Cons z zs)
  note D = mq_repD[OF Cons.prems]
  have z: "z \<noteq> 0" using D(8)[of z] by simp
  have d: "distinct (ys @ z # zs)" "distinct (rev zs @ (z # rev ys))" using D(3) by auto
  have n: "msg_next m z = ptr (hd_opt zs)"
    using D(10)[of z] nxt_append[OF d(1), of z] d(1) by (cases zs) (auto simp: nxt_Cons)
  have pv: "nxt (rev (ys @ z # zs)) z = hd_opt (rev ys)"
    using nxt_append[OF d(2), of z] d(2) by (cases "rev ys") (auto simp: nxt_Cons)
  show ?case
  proof (cases "P z")
    case True
    then show ?thesis using z pv by (simp add: find_msg.simps[of P m z])
  next
    case False
    have "find_msg P m (ptr (hd_opt zs)) (ptr (hd_opt (rev (ys @ [z])))) = Some (case find P zs of
      None \<Rightarrow> (0, ptr (hd_opt (rev ((ys @ [z]) @ zs)))) | Some c \<Rightarrow> (c, ptr (nxt (rev ((ys @ [z]) @ zs)) c)))"
      by (rule Cons.IH) (use Cons.prems in simp)
    then show ?thesis unfolding append_assoc append.simps using False z n by (simp add: find_msg.simps[of P m z])
  qed
qed

text \<open>Unlinking.\<close>

lemma queue_unlink_rep:
  assumes rep: "mq_rep q m xs" and c: "c \<in> set xs" and pv: "prev = ptr (nxt (rev xs) c)"
  shows "mq_rep q (queue_unlink q c prev m) (remove1 c xs)"
proof -
  note D = mq_repD[OF rep]
  note C = D(7)[OF c] D(8)[OF c] D(9)[OF c]
  have d: "distinct (rev xs)" and c': "c \<in> set (rev xs)" using D(3) c by auto
  note rem = nxt_remove1[OF D(3) c] hd_opt_remove1[OF D(3) c] hd_opt_remove1[OF d c'] rev_remove1[OF D(3)]
  have iff: "nxt (rev xs) a = Some b \<longleftrightarrow> nxt xs b = Some a" for a b by (rule nxt_rev_iff[OF D(3)])
  have ends: "nxt xs c = None \<longleftrightarrow> hd_opt (rev xs) = Some c" "nxt (rev xs) c = None \<longleftrightarrow> hd_opt xs = Some c"
    using nxt_None_iff[OF D(3) c] nxt_None_iff[OF d c'] by simp_all
  have tl: "c = q_tail m q \<longleftrightarrow> hd_opt (rev xs) = Some c" using D(5) C(2) by (cases "hd_opt (rev xs)") auto
  have P: "page_aligned b \<and> b \<noteq> 0 \<and> b \<noteq> q \<and> b \<in> set xs" if "nxt (rev xs) c = Some b" for b
    using nxt_in[OF that] D(7-9)[of b] by simp
  define n where "n = ptr (nxt xs c)"
  have n: "msg_next m c = n" unfolding n_def by (rule D(10)[OF c])
  define m1 where "m1 = (if prev \<noteq> 0 then store32 m (prev + 28) n else store32 m q n)"
  define t where "t = (if hd_opt (rev xs) = Some c then prev else q_tail m q)"
  let ?m = "queue_unlink q c prev m"
  have prev: "prev = 0 \<or> page_aligned prev \<and> prev \<noteq> 0 \<and> prev \<noteq> q \<and> prev \<noteq> c"
    using P pv nxt_irrefl[OF d, of c] by (cases "nxt (rev xs) c") auto
  have m1: "q_tail m1 q = q_tail m q" "q_count m1 q = q_count m q" "q_head m1 q = (if prev \<noteq> 0 then q_head m q else n)"
    "page_aligned a \<Longrightarrow> a \<noteq> q \<Longrightarrow> msg_next m1 a = (if a = prev \<and> prev \<noteq> 0 then n else msg_next m a)" for a
    using prev D(1) by (auto simp: m1_def q_defs load32_store32_struct)
  have e: "?m = (let m2 = (if hd_opt (rev xs) = Some c then store32 m1 (q + 4) prev else m1)
      in store32 (store32 m2 (q + 8) (q_count m2 q - 1)) (c + 28) 0)"
    unfolding queue_unlink_def Let_def n m1_def[symmetric] m1(1) tl ..
  have m: "q_head ?m q = q_head m1 q" "q_tail ?m q = t" "q_count ?m q = q_count m q - 1"
    "page_aligned a \<Longrightarrow> a \<noteq> q \<Longrightarrow> msg_next ?m a = (if a = c then 0 else msg_next m1 a)" for a
    unfolding e t_def m1(1,2)[symmetric] using C D(1) by (auto simp: q_defs Let_def load32_store32_struct)
  have isprev: "nxt xs a = Some c \<longleftrightarrow> a = prev \<and> prev \<noteq> 0" if "a \<in> set xs" for a
    using iff[of c a] P pv D(8)[OF that] by (cases "nxt (rev xs) c") auto
  have first: "prev = 0 \<longleftrightarrow> hd_opt xs = Some c" using P pv ends(2) by (cases "nxt (rev xs) c") auto
  show ?thesis
  proof (rule mq_repI)
    fix a assume "a \<in> set (remove1 c xs)"
    then have a: "a \<in> set xs" "a \<noteq> c" using D(3) by auto
    show "msg_page q a" using rep a by (simp add: mq_rep_def)
    show "msg_next ?m a = ptr (nxt (remove1 c xs) a)"
      using m(4)[OF D(7,9)[OF a(1)]] m1(4)[OF D(7,9)[OF a(1)]] isprev[OF a(1)] a D(10)[OF a(1)] by (simp add: rem(1) n_def)
  next
    show "q_head ?m q = ptr (hd_opt (remove1 c xs))" unfolding m(1) m1(3) using first D(4) by (simp add: rem(2) n_def)
    show "q_tail ?m q = ptr (hd_opt (rev (remove1 c xs)))" unfolding m(2) t_def using D(5) pv by (simp add: rem(3,4))
    have "length xs = Suc (length (remove1 c xs))" using length_pos_if_in_set[OF c] c by (simp add: length_remove1)
    then show "q_count ?m q = of_nat (length (remove1 c xs))" unfolding m(3) D(6) by simp
  qed (use D in auto)
qed

text \<open>Taking the oldest message is unlinking the head.\<close>

lemma queue_pop_unlink:
  assumes rep: "mq_rep q m (x # xs)"
  shows "queue_pop q m = (x, queue_unlink q x 0 m)"
proof -
  note D = mq_repD[OF rep]
  have x: "page_aligned x" "x \<noteq> 0" "x \<noteq> q" using D(7-9)[of x] by simp_all
  have n: "msg_next m x = 0 \<longleftrightarrow> xs = []"
    using D(10)[of x] D(3) D(8) by (cases xs) (auto simp: nxt_Cons)
  have "x = q_tail m q \<longleftrightarrow> xs = []" using D(3,5) by (cases xs rule: rev_cases) auto
  moreover have "q_tail (store32 m q v) q = q_tail m q" "q_head (store32 m q v) q = v" for v
    using D(1) by (simp_all add: q_defs load32_store32_struct)
  ultimately show ?thesis using D(4) n by (simp add: queue_pop_def queue_unlink_def Let_def)
qed

text \<open>Unlinking a given message, the way \<^verbatim>\<open>ipc_find_in_queue\<close> searches and unlinks.\<close>

definition queue_take :: "(u32 \<Rightarrow> bool) \<Rightarrow> u32 \<Rightarrow> memory \<Rightarrow> (u32 \<times> memory) option" where
  "queue_take P q m = (case find_msg P m (q_head m q) 0 of
     None \<Rightarrow> None
   | Some (current, prev) \<Rightarrow> Some (if current = 0 then (0, m) else (current, queue_unlink q current prev m)))"

lemma queue_take_spec:
  assumes rep: "mq_rep q m xs"
  shows "case find P xs of
      None \<Rightarrow> queue_take P q m = Some (0, m)
    | Some c \<Rightarrow> queue_take P q m = Some (c, queue_unlink q c (ptr (nxt (rev xs) c)) m) \<and>
        mq_rep q (queue_unlink q c (ptr (nxt (rev xs) c)) m) (remove1 c xs)"
proof -
  have f: "find_msg P m (q_head m q) 0 = Some (case find P xs of
      None \<Rightarrow> (0, ptr (hd_opt (rev xs))) | Some c \<Rightarrow> (c, ptr (nxt (rev xs) c)))"
    using find_msg_spec[of q m "[]" xs P, unfolded append.simps] rep mq_repD(4)[OF rep] by simp
  show ?thesis
  proof (cases "find P xs")
    case None
    then show ?thesis using f by (simp add: queue_take_def)
  next
    case (Some c)
    then have c: "c \<in> set xs" by (auto simp: find_Some_iff)
    then show ?thesis
      using Some f mq_repD(8)[OF rep c] queue_unlink_rep[OF rep c refl] by (simp add: queue_take_def)
  qed
qed

lemma find_eq: "c \<in> set xs \<Longrightarrow> find ((=) c) xs = Some c"
  by (induction xs) auto

interpretation mq: linked_queue "mq_rep q" "\<lambda>p m. Some (queue_append q p m)"
  "\<lambda>p m. snd (the (queue_take ((=) p) q m))" "\<lambda>m. if q_head m q = 0 then None else Some (q_head m q)"
  "\<lambda>p m. msg_page q p"
proof unfold_locales
  fix m xs p
  assume rep: "mq_rep q m xs"
  show "distinct xs" by (rule mq_repD(3)[OF rep])
  show "\<exists>m'. Some (queue_append q p m) = Some m' \<and> mq_rep q m' (xs @ [p])" if "p \<notin> set xs" "msg_page q p"
    using queue_append_rep[OF rep that] by simp
  show "mq_rep q (snd (the (queue_take ((=) p) q m))) (remove1 p xs)" if "p \<in> set xs"
    using queue_take_spec[OF rep, of "(=) p"] find_eq[OF that] by simp
  show "(if q_head m q = 0 then None else Some (q_head m q)) = hd_opt xs"
    using mq_empty_iff[OF rep] mq_repD(4)[OF rep] by (cases xs) auto
  show "msg_page q p" if "p \<in> set xs" using rep that by (simp add: mq_rep_def)
qed

end
