(* ===== verification/Mailbox.thy ===== *)
theory Mailbox
  imports Ipc
begin

text \<open>
  What message passing promises. The queues of all processes, as linked pages in memory, are related to
  mailboxes: lists of messages with their contents. Sending appends one message to one mailbox, receiving
  takes the first match out, and nothing else changes. The argument is about which bytes an operation
  writes: only words of the queue header and the link words of messages.
\<close>

section \<open>Linking and unlinking\<close>

text \<open>The bytes that linking and unlinking may write.\<close>

definition links :: "u32 \<Rightarrow> u32 set \<Rightarrow> u32 set" where
  "links q S = span q 12 \<union> (\<Union>p \<in> S. span (p + 28) 4)"

lemma links_mono: "S \<subseteq> T \<Longrightarrow> links q S \<subseteq> links q T"
  by (auto simp: links_def)

lemma links_header: "span q 4 \<subseteq> links q S" "span (q + 4) 4 \<subseteq> links q S" "span (q + 8) 4 \<subseteq> links q S"
  using span_sub[of 0 4 12 q] span_sub[of 4 4 12 q] span_sub[of 8 4 12 q] by (auto simp: links_def)

lemma links_link: "p \<in> S \<Longrightarrow> span (p + 28) 4 \<subseteq> links q S"
  by (auto simp: links_def)

lemma queue_append_changed:
  assumes rep: "mq_rep q m xs" and p: "msg_page q p"
  shows "changed m (queue_append q p m) \<subseteq> links q (insert p (set xs))"
proof -
  note D = mq_repD[OF rep]
  let ?m = "store32 m (p + 28) 0"
  have e: "q_head ?m q = q_head m q" "q_tail ?m q = q_tail m q"
    using D(1) p by (auto simp: q_defs load32_store32_struct msg_page_def)
  have t: "q_tail m q \<in> set xs" if "q_head m q \<noteq> 0"
    using that D(5) mq_empty_iff[OF rep] by (cases xs rule: rev_cases) auto
  show ?thesis
    unfolding queue_append_def Let_def e
    by (cases "q_head m q = 0") (simp_all add: changed_store32D links_header links_link t)
qed

lemma queue_unlink_changed:
  assumes "prev = 0 \<or> prev \<in> S" "c \<in> S"
  shows "changed m (queue_unlink q c prev m) \<subseteq> links q S"
proof -
  define m1 where "m1 = (if prev \<noteq> 0 then store32 m (prev + 28) (msg_next m c) else store32 m q (msg_next m c))"
  have m1: "changed m m1 \<subseteq> links q S"
    using assms by (cases "prev = 0") (simp_all add: m1_def changed_store32D links_header links_link)
  have "queue_unlink q c prev m = (let m2 = if c = q_tail m1 q then store32 m1 (q + 4) prev else m1
      in store32 (store32 m2 (q + 8) (q_count m2 q - 1)) (c + 28) 0)"
    unfolding queue_unlink_def Let_def m1_def ..
  then show ?thesis
    using m1 assms(2) by (simp add: Let_def changed_store32D links_header links_link)
qed

section \<open>Message contents\<close>

record message =
  m_id :: u32
  m_sender :: u32
  m_receiver :: u32
  m_type :: u32
  m_flags :: u32
  m_time :: u32
  m_data :: "u8 list"

definition bytes_at :: "memory \<Rightarrow> u32 \<Rightarrow> nat \<Rightarrow> u8 list" where
  "bytes_at m a n = map (\<lambda>i. m (a + of_nat i)) [0..<n]"

text \<open>The contents of a message of the kernel, and of a message in the caller's memory.\<close>

definition kmsg :: "memory \<Rightarrow> u32 \<Rightarrow> message" where
  "kmsg m p = \<lparr>m_id = msg_id m p, m_sender = msg_sender m p, m_receiver = msg_receiver m p, m_type = msg_type m p,
     m_flags = msg_flags m p, m_time = msg_timestamp m p, m_data = bytes_at m (p + KMSG_DATA) (unat (msg_size m p))\<rparr>"

definition umsg :: "memory \<Rightarrow> u32 \<Rightarrow> message" where
  "umsg m p = \<lparr>m_id = msg_id m p, m_sender = msg_sender m p, m_receiver = msg_receiver m p, m_type = msg_type m p,
     m_flags = msg_flags m p, m_time = msg_timestamp m p, m_data = bytes_at m (p + UMSG_DATA) (unat (msg_size m p))\<rparr>"

lemmas msg_defs = msg_id_def msg_sender_def msg_receiver_def msg_type_def msg_flags_def msg_timestamp_def msg_size_def

lemma bytes_at_unchanged:
  assumes "changed m m' \<inter> span a n = {}" "n \<le> 2 ^ 31"
  shows "bytes_at m' a n = bytes_at m a n"
  using assms by (auto simp: bytes_at_def changed_def span_def word_nat)

text \<open>A message is untouched when only its link word may change.\<close>

definition msg_body :: "u32 \<Rightarrow> u32 set" where
  "msg_body p = span p 28 \<union> span (p + 32) 256"

lemma span_body: "unat i + 4 \<le> 28 \<Longrightarrow> span (p + i) 4 \<subseteq> msg_body p" "span p 4 \<subseteq> msg_body p"
  using span_sub[of i 4 28 p] span_sub[of 0 4 28 p] by (auto simp: msg_body_def)

lemma load32_body:
  assumes "changed m m' \<inter> msg_body p = {}"
  shows "unat i + 4 \<le> 28 \<Longrightarrow> load32 m' (p + i) = load32 m (p + i)" "load32 m' p = load32 m p"
  using assms span_body(1)[of i p] span_body(2)[of p] by (intro load32_unchanged; blast)+

lemma msg_fields_unchanged:
  assumes "changed m m' \<inter> msg_body p = {}"
  shows "msg_id m' p = msg_id m p" "msg_sender m' p = msg_sender m p" "msg_receiver m' p = msg_receiver m p"
    "msg_type m' p = msg_type m p" "msg_flags m' p = msg_flags m p" "msg_timestamp m' p = msg_timestamp m p"
    "msg_size m' p = msg_size m p"
  by (simp_all add: msg_defs load32_body[OF assms])

lemma kmsg_unchanged:
  assumes "changed m m' \<inter> msg_body p = {}" "unat (msg_size m p) \<le> 256"
  shows "kmsg m' p = kmsg m p"
proof -
  have "changed m m' \<inter> span (p + 32) (unat (msg_size m p)) = {}"
    using assms by (auto simp: msg_body_def span_def)
  then show ?thesis
    using assms(2) msg_fields_unchanged[OF assms(1)] by (simp add: kmsg_def bytes_at_unchanged)
qed

section \<open>One mailbox\<close>

lemma body_page: "page_aligned p \<Longrightarrow> msg_body p \<subseteq> {a. pg a = pg p}"
  using span_page[of p 0 28] span_page[of p 32 256] by (auto simp: msg_body_def)

lemma links_page:
  assumes "page_aligned q" "\<forall>p \<in> S. page_aligned p"
  shows "links q S \<subseteq> {a. pg a \<in> insert (pg q) (pg ` S)}"
proof -
  have "span q 12 \<subseteq> {a. pg a = pg q}" using span_page[of q 0 12] assms(1) by simp
  moreover have "span (p + 28) 4 \<subseteq> {a. pg a = pg p}" if "p \<in> S" for p
    using span_page[of p 28 4] assms(2) that by simp
  ultimately show ?thesis unfolding links_def by auto
qed

lemma links_body:
  assumes "page_aligned q" "\<forall>p \<in> S. page_aligned p" "page_aligned p" "p \<noteq> q"
  shows "links q S \<inter> msg_body p = {}"
proof -
  have "span (r + 28) 4 \<inter> msg_body p = {}" if "r \<in> S" for r
  proof (cases "r = p")
    case True
    then show ?thesis using span_disjoint[of 0 28 28 4 p] span_disjoint[of 28 4 32 256 p] by (auto simp: msg_body_def)
  next
    case False
    then show ?thesis using span_page[of r 28 4] body_page[OF assms(3)] assms(2,3) that pg_inj[of r p] by fastforce
  qed
  moreover have "span q 12 \<inter> msg_body p = {}"
    using span_page[of q 0 12] body_page[OF assms(3)] assms pg_inj[of q p] by fastforce
  ultimately show ?thesis unfolding links_def by auto
qed

lemma links_max:
  assumes "page_aligned q" "\<forall>p \<in> S. page_aligned p \<and> p \<noteq> q"
  shows "links q S \<inter> span (q + 12) 4 = {}"
proof -
  have "span (r + 28) 4 \<inter> span (q + 12) 4 = {}" if "r \<in> S" for r
    using span_page[of r 28 4] span_page[of q 12 4] assms that pg_inj[of r q] by fastforce
  moreover have "span q 12 \<inter> span (q + 12) 4 = {}" using span_disjoint[of 0 12 12 4 q] by simp
  ultimately show ?thesis unfolding links_def by auto
qed

lemma mq_rep_frame:
  assumes rep: "mq_rep q m xs" and keep: "\<forall>a \<in> changed m m'. pg a \<notin> insert (pg q) (pg ` set xs)"
  shows "mq_rep q m' xs"
proof -
  note D = mq_repD[OF rep]
  have eq: "load32 m' (p + i) = load32 m (p + i)" if "p = q \<or> p \<in> set xs" "unat i + 4 \<le> 4096" for p i
    using span_page[of p i 4] D(1,7) that keep by (intro load32_unchanged) fastforce
  have "load32 m' q = load32 m q" using eq[of q 0] by simp
  then show ?thesis
    using rep by (auto simp: mq_rep_def q_defs eq)
qed

definition box_ok :: "memory \<Rightarrow> u32 \<Rightarrow> u32 list \<Rightarrow> bool" where
  "box_ok m q xs \<longleftrightarrow> (if q = 0 then xs = []
     else mq_rep q m xs \<and> q_max m q = 100 \<and> length xs \<le> 100 \<and> (\<forall>p \<in> set xs. unat (msg_size m p) \<le> 256))"

definition box_pages :: "u32 \<Rightarrow> u32 list \<Rightarrow> nat set" where
  "box_pages q xs = (if q = 0 then {} else insert (pg q) (pg ` set xs))"

lemma box_frame:
  assumes ok: "box_ok m q xs" and keep: "\<forall>a \<in> changed m m'. pg a \<notin> box_pages q xs"
  shows "box_ok m' q xs \<and> map (kmsg m') xs = map (kmsg m) xs"
proof (cases "q = 0")
  case False
  with ok have rep: "mq_rep q m xs" and mx: "q_max m q = 100"
    and le: "length xs \<le> 100" "\<forall>p \<in> set xs. unat (msg_size m p) \<le> 256" by (auto simp: box_ok_def)
  note D = mq_repD[OF rep]
  have body: "changed m m' \<inter> msg_body p = {}" if "p \<in> set xs" for p
    using body_page[OF D(7)[OF that]] keep False that by (fastforce simp: box_pages_def)
  have "mq_rep q m' xs" using mq_rep_frame[OF rep] keep False by (simp add: box_pages_def)
  moreover have "q_max m' q = q_max m q" unfolding q_max_def
    by (rule load32_unchanged) (use span_page[of q 12 4] D(1) keep False in \<open>fastforce simp: box_pages_def\<close>)
  moreover have "kmsg m' p = kmsg m p" "msg_size m' p = msg_size m p" if "p \<in> set xs" for p
    using kmsg_unchanged[OF body[OF that]] msg_fields_unchanged(7)[OF body[OF that]] le that by auto
  ultimately show ?thesis using False mx le by (simp add: box_ok_def)
qed (use ok in \<open>simp add: box_ok_def\<close>)

lemma box_step:
  assumes ok: "box_ok m q xs" "q \<noteq> 0" and new: "\<forall>p \<in> S. msg_page q p" "set ys \<subseteq> S" "length ys \<le> 100"
    and ch: "changed m m' \<subseteq> links q S" and rep: "mq_rep q m' ys" and size: "\<forall>p \<in> S. unat (msg_size m p) \<le> 256"
  shows "box_ok m' q ys \<and> (\<forall>p \<in> S. kmsg m' p = kmsg m p) \<and> (\<forall>p \<in> S. unat (msg_size m' p) \<le> 256)"
proof -
  have q: "page_aligned q" using rep by (simp add: mq_rep_def)
  have S: "\<forall>p \<in> S. page_aligned p \<and> p \<noteq> q" using new(1) by (simp add: msg_page_def)
  have body: "changed m m' \<inter> msg_body p = {}" if "p \<in> S" for p
    using links_body[OF q, of S p] ch S that by blast
  have "kmsg m' p = kmsg m p" "msg_size m' p = msg_size m p" if "p \<in> S" for p
    using kmsg_unchanged[OF body[OF that]] msg_fields_unchanged(7)[OF body[OF that]] size that by auto
  moreover have "q_max m' q = q_max m q" unfolding q_max_def
    by (rule load32_unchanged) (use links_max[OF q S] ch in blast)
  ultimately show ?thesis using ok rep new size by (auto simp: box_ok_def)
qed

lemma box_append:
  assumes ok: "box_ok m q xs" "q \<noteq> 0" "length xs < 100" and p: "msg_page q p" "p \<notin> set xs" "unat (msg_size m p) \<le> 256"
  shows "box_ok (queue_append q p m) q (xs @ [p])"
    and "map (kmsg (queue_append q p m)) (xs @ [p]) = map (kmsg m) (xs @ [p])"
    and "\<forall>a \<in> changed m (queue_append q p m). pg a \<in> box_pages q (xs @ [p])"
proof -
  have rep: "mq_rep q m xs" and S: "\<forall>a \<in> insert p (set xs). msg_page q a" "\<forall>a \<in> insert p (set xs). unat (msg_size m a) \<le> 256"
    using ok p by (auto simp: box_ok_def mq_rep_def)
  note ch = queue_append_changed[OF rep p(1)]
  from box_step[OF ok(1,2) S(1) _ _ ch queue_append_rep[OF rep p(2,1)] S(2)] ok(3)
  show "box_ok (queue_append q p m) q (xs @ [p])" "map (kmsg (queue_append q p m)) (xs @ [p]) = map (kmsg m) (xs @ [p])"
    by auto
  have "page_aligned q" "\<forall>a \<in> insert p (set xs). page_aligned a" using rep S(1) by (auto simp: mq_rep_def msg_page_def)
  from links_page[OF this] ch ok(2) show "\<forall>a \<in> changed m (queue_append q p m). pg a \<in> box_pages q (xs @ [p])"
    by (auto simp: box_pages_def)
qed

lemma box_unlink:
  assumes ok: "box_ok m q xs" "q \<noteq> 0" and c: "c \<in> set xs" and pv: "prev = ptr (nxt (rev xs) c)"
  shows "box_ok (queue_unlink q c prev m) q (remove1 c xs)"
    and "\<forall>p \<in> set xs. kmsg (queue_unlink q c prev m) p = kmsg m p"
    and "\<forall>a \<in> changed m (queue_unlink q c prev m). pg a \<in> box_pages q xs"
    and "\<forall>p \<in> set xs. unat (msg_size (queue_unlink q c prev m) p) \<le> 256"
proof -
  have rep: "mq_rep q m xs" and S: "\<forall>a \<in> set xs. msg_page q a" "\<forall>a \<in> set xs. unat (msg_size m a) \<le> 256" "length xs \<le> 100"
    using ok by (auto simp: box_ok_def mq_rep_def)
  have "prev = 0 \<or> prev \<in> set xs" using pv nxt_in[of "rev xs" c] by (cases "nxt (rev xs) c") auto
  note ch = queue_unlink_changed[OF this c, of m q]
  have sub: "set (remove1 c xs) \<subseteq> set xs" "length (remove1 c xs) \<le> 100"
    using set_remove1_subset[of c xs] S(3) by (auto simp: length_remove1)
  from box_step[OF ok S(1) sub ch queue_unlink_rep[OF rep c pv] S(2)]
  show "box_ok (queue_unlink q c prev m) q (remove1 c xs)" "\<forall>p \<in> set xs. kmsg (queue_unlink q c prev m) p = kmsg m p"
    "\<forall>p \<in> set xs. unat (msg_size (queue_unlink q c prev m) p) \<le> 256"
    by auto
  have "page_aligned q" "\<forall>a \<in> set xs. page_aligned a" using rep S(1) by (auto simp: mq_rep_def msg_page_def)
  from links_page[OF this] ch ok(2) show "\<forall>a \<in> changed m (queue_unlink q c prev m). pg a \<in> box_pages q xs"
    by (auto simp: box_pages_def)
qed

text \<open>A full mailbox gives up its oldest message before the new one is linked.\<close>

definition trim :: "'a list \<Rightarrow> 'a list" where
  "trim xs = (if length xs \<ge> 100 then tl xs else xs)"

lemma trim_map: "trim (map f xs) = map f (trim xs)"
  by (simp add: trim_def map_tl)

lemma set_trim: "set (trim xs) \<subseteq> set xs"
  by (cases xs) (auto simp: trim_def)

definition queue_post :: "u32 \<Rightarrow> u32 \<Rightarrow> memory \<Rightarrow> memory" where
  "queue_post q p m = queue_append q p (if q_count m q \<ge> q_max m q then snd (queue_pop q m) else m)"

lemma box_post:
  assumes ok: "box_ok m q xs" "q \<noteq> 0" and p: "msg_page q p" "p \<notin> set xs" "unat (msg_size m p) \<le> 256"
  shows "box_ok (queue_post q p m) q (trim xs @ [p])"
    and "map (kmsg (queue_post q p m)) (trim xs @ [p]) = map (kmsg m) (trim xs @ [p])"
    and "\<forall>a \<in> changed m (queue_post q p m). pg a \<in> box_pages q (xs @ [p])"
proof -
  have rep: "mq_rep q m xs" and mx: "q_max m q = 100" and le: "length xs \<le> 100" using ok by (auto simp: box_ok_def)
  have full: "q_count m q \<ge> q_max m q \<longleftrightarrow> length xs = 100"
    using le mx mq_repD(6)[OF rep] by (auto simp: word_le_nat_alt word_nat)
  have "box_ok (queue_post q p m) q (trim xs @ [p]) \<and>
    map (kmsg (queue_post q p m)) (trim xs @ [p]) = map (kmsg m) (trim xs @ [p]) \<and>
    (\<forall>a \<in> changed m (queue_post q p m). pg a \<in> box_pages q (xs @ [p]))"
  proof (cases "length xs = 100")
    case False
    then show ?thesis using box_append[OF ok _ p] le full by (simp add: queue_post_def trim_def)
  next
    case True
    then obtain x ys where xs: "xs = x # ys" by (cases xs) auto
    define m1 where "m1 = queue_unlink q x 0 m"
    have pop: "queue_pop q m = (x, m1)" unfolding m1_def using queue_pop_unlink rep xs by blast
    have d: "distinct xs" by (rule mq_repD(3)[OF rep])
    have pv: "(0 :: u32) = ptr (nxt (rev xs) x)"
      using nxt_None_iff[of "rev xs" x] d xs by simp
    have x: "x \<in> set xs" "remove1 x xs = ys" using xs by simp_all
    note U = box_unlink[OF ok x(1) pv, folded m1_def, unfolded x(2)]
    have "changed m m1 \<inter> msg_body p = {}"
    proof -
      have "changed m m1 \<subseteq> links q (set xs)" unfolding m1_def by (rule queue_unlink_changed) (use x in auto)
      moreover have "page_aligned q" "\<forall>a \<in> set xs. page_aligned a" using mq_repD[OF rep] by auto
      ultimately show ?thesis using links_body[of q "set xs" p] p(1) by (auto simp: msg_page_def)
    qed
    note P = msg_fields_unchanged(7)[OF this] kmsg_unchanged[OF this p(3)]
    have s: "unat (msg_size m1 p) \<le> 256" using P(1) p(3) by simp
    have ys: "length ys < 100" "p \<notin> set ys" using True xs p(2) by auto
    note A = box_append[OF U(1) ok(2) ys(1) p(1) ys(2) s]
    have e: "queue_post q p m = queue_append q p m1" "trim xs = ys" using full True pop xs by (simp_all add: queue_post_def trim_def)
    have sub: "box_pages q xs \<subseteq> box_pages q (xs @ [p])" "box_pages q (ys @ [p]) \<subseteq> box_pages q (xs @ [p])"
      using xs by (auto simp: box_pages_def)
    have "map (kmsg m1) (ys @ [p]) = map (kmsg m) (ys @ [p])" using U(2) P(2) xs by simp
    moreover have "\<forall>a \<in> changed m (queue_append q p m1). pg a \<in> box_pages q (xs @ [p])"
      by (rule changed_trans_all[of _ m1]) (use U(3) A(3) sub in blast)+
    ultimately show ?thesis unfolding e using A by simp
  qed
  then show "box_ok (queue_post q p m) q (trim xs @ [p])"
    "map (kmsg (queue_post q p m)) (trim xs @ [p]) = map (kmsg m) (trim xs @ [p])"
    "\<forall>a \<in> changed m (queue_post q p m). pg a \<in> box_pages q (xs @ [p])" by blast+
qed

section \<open>All mailboxes\<close>

definition boxp :: "kernel \<Rightarrow> (nat \<Rightarrow> u32 list) \<Rightarrow> nat \<Rightarrow> nat set" where
  "boxp k f i = box_pages (message_queues k ! i) (f i)"

definition ipc_inv :: "kernel \<Rightarrow> (nat \<Rightarrow> u32 list) \<Rightarrow> bool" where
  "ipc_inv k f \<longleftrightarrow> mm_inv (k_mm k) \<and> length (message_queues k) = MAX_PROCESSES \<and>
     (\<forall>i < MAX_PROCESSES. box_ok (kmem k) (message_queues k ! i) (f i) \<and> boxp k f i \<subseteq> used (k_mm k)) \<and>
     (\<forall>i < MAX_PROCESSES. \<forall>j < MAX_PROCESSES. i \<noteq> j \<longrightarrow> boxp k f i \<inter> boxp k f j = {})"

definition inbox :: "kernel \<Rightarrow> (nat \<Rightarrow> u32 list) \<Rightarrow> nat \<Rightarrow> message list" where
  "inbox k f i = map (kmsg (kmem k)) (f i)"

lemma ipc_invD:
  assumes "ipc_inv k f" "i < MAX_PROCESSES"
  shows "mm_inv (k_mm k)" "length (message_queues k) = MAX_PROCESSES" "box_ok (kmem k) (message_queues k ! i) (f i)"
    "boxp k f i \<subseteq> used (k_mm k)" "\<And>j. j < MAX_PROCESSES \<Longrightarrow> i \<noteq> j \<Longrightarrow> boxp k f i \<inter> boxp k f j = {}"
  using assms unfolding ipc_inv_def by blast+

lemma ipc_inv_update:
  assumes inv: "ipc_inv k f" and i: "i < MAX_PROCESSES"
    and q: "message_queues k' = (message_queues k)[i := q']" and mm: "mm_inv (k_mm k')"
    and box: "box_ok (kmem k') q' xs'" "box_pages q' xs' \<subseteq> used (k_mm k')"
    and others: "\<And>j. j < MAX_PROCESSES \<Longrightarrow> j \<noteq> i \<Longrightarrow> boxp k f j \<subseteq> used (k_mm k') \<and>
      boxp k f j \<inter> box_pages q' xs' = {} \<and> (\<forall>a \<in> changed (kmem k) (kmem k'). pg a \<notin> boxp k f j)"
  shows "ipc_inv k' (f(i := xs'))"
    and "\<And>j. j < MAX_PROCESSES \<Longrightarrow> j \<noteq> i \<Longrightarrow> inbox k' (f(i := xs')) j = inbox k f j"
proof -
  note I = ipc_invD[OF inv]
  have len: "length (message_queues k') = MAX_PROCESSES" using I(2)[OF i] q by simp
  have pi: "boxp k' (f(i := xs')) i = box_pages q' xs'" "message_queues k' ! i = q'"
    using I(2)[OF i] q i by (simp_all add: boxp_def)
  have pj: "boxp k' (f(i := xs')) j = boxp k f j" "message_queues k' ! j = message_queues k ! j" if "j \<noteq> i" for j
    using q that by (simp_all add: boxp_def)
  have fr: "box_ok (kmem k') (message_queues k ! j) (f j) \<and> map (kmsg (kmem k')) (f j) = map (kmsg (kmem k)) (f j)"
    if "j < MAX_PROCESSES" "j \<noteq> i" for j
    using box_frame[OF I(3)[OF that(1)], of "kmem k'"] others[OF that] by (simp add: boxp_def)
  then show "inbox k' (f(i := xs')) j = inbox k f j" if "j < MAX_PROCESSES" "j \<noteq> i" for j
    using that by (simp add: inbox_def)
  have b: "box_ok (kmem k') (message_queues k' ! j) ((f(i := xs')) j) \<and> boxp k' (f(i := xs')) j \<subseteq> used (k_mm k')"
    if "j < MAX_PROCESSES" for j
    using box pi pj[of j] fr[OF that] others[OF that] by (cases "j = i") auto
  have "boxp k' (f(i := xs')) a \<inter> boxp k' (f(i := xs')) b = {}" if "a < MAX_PROCESSES" "b < MAX_PROCESSES" "a \<noteq> b" for a b
    using pi pj[of a] pj[of b] others[of a] others[of b] I(5)[OF that(1,2)] that by (cases "a = i"; cases "b = i") auto
  with b len mm show "ipc_inv k' (f(i := xs'))" by (simp add: ipc_inv_def)
qed

section \<open>Adding a message\<close>

lemma queue_header_box:
  assumes q: "page_aligned q" "q \<noteq> 0"
  shows "box_ok (queue_header q m) q []" and "\<forall>a \<in> changed m (queue_header q m). pg a = pg q"
proof -
  show "box_ok (queue_header q m) q []"
    using q by (simp add: box_ok_def mq_rep_def queue_header_def q_defs load32_store32_struct)
  have "changed m (queue_header q m) \<subseteq> {a. pg a = pg q}"
    using span_page[of q 0 4] span_page[of q 4 4] span_page[of q 8 4] span_page[of q 12 4] q
    by (simp add: queue_header_def changed_store32D)
  then show "\<forall>a \<in> changed m (queue_header q m). pg a = pg q" by blast
qed

text \<open>The queue of the process after its header exists.\<close>

lemma add_to_existing_queue:
  assumes inv: "ipc_inv k f" and i: "unat pid < MAX_PROCESSES" and q: "message_queues k ! unat pid \<noteq> 0"
    and p: "page_aligned p" "p \<noteq> 0" "pg p \<in> used (k_mm k)" "\<And>j. j < MAX_PROCESSES \<Longrightarrow> pg p \<notin> boxp k f j"
    "unat (msg_size (kmem k) p) \<le> 256"
  defines "k' \<equiv> set_mem (queue_post (message_queues k ! unat pid) p (kmem k)) k"
    and "f' \<equiv> f(unat pid := trim (f (unat pid)) @ [p])"
  shows "ipc_add_to_queue pid p k = Return () k'"
    and "ipc_inv k' f'" and "inbox k' f' (unat pid) = map (kmsg (kmem k)) (f' (unat pid))"
    and "\<And>j. j < MAX_PROCESSES \<Longrightarrow> j \<noteq> unat pid \<Longrightarrow> inbox k' f' j = inbox k f j"
    and "\<forall>a \<in> changed (kmem k) (kmem k'). pg a \<in> insert (pg p) (boxp k f (unat pid))"
    and "boxp k' f' (unat pid) \<subseteq> insert (pg p) (boxp k f (unat pid))" and "\<And>j. j \<noteq> unat pid \<Longrightarrow> boxp k' f' j = boxp k f j"
proof -
  define q where "q = message_queues k ! unat pid"
  have q0: "q \<noteq> 0" using q by (simp add: q_def)
  note I = ipc_invD[OF inv i]
  have ok: "box_ok (kmem k) q (f (unat pid))" using I(3) by (simp add: q_def)
  have rep: "mq_rep q (kmem k) (f (unat pid))" using ok q0 by (simp add: box_ok_def)
  have bx: "boxp k f (unat pid) = insert (pg q) (pg ` set (f (unat pid)))" using q0 by (simp add: boxp_def box_pages_def q_def)
  have mp: "msg_page q p" "p \<notin> set (f (unat pid))" using p(1,2) p(4)[OF i] bx by (auto simp: msg_page_def)
  note B = box_post[OF ok q0 mp p(5)]
  have km: "kmem k' = queue_post q p (kmem k)" "used (k_mm k') = used (k_mm k)" "mm_inv (k_mm k')" "message_queues k' = message_queues k"
    using I(1) by (simp_all add: k'_def kmem_def set_mem_def q_def used_def mm_inv_def)
  have qo: "queue_of pid k = Some q" using i I(2) by (simp add: queue_of_def q_def)
  have head: "q_head (kmem k) q \<noteq> 0" if "q_count (kmem k) q \<ge> q_max (kmem k) q"
  proof -
    have "q_max (kmem k) q = 100" using ok q0 by (simp add: box_ok_def)
    then have "f (unat pid) \<noteq> []" using that mq_repD(6)[OF rep] by auto
    then show ?thesis using mq_empty_iff[OF rep] by simp
  qed
  show "ipc_add_to_queue pid p k = Return () k'"
    unfolding ipc_add_to_queue_def qo using p(2) q0 qo head
    by (auto simp: k'_def queue_post_def ipc_remove_from_queue_def set_mem_def kmem_def Let_def q_def[symmetric] split: prod.splits)
  have bp: "box_pages q (f' (unat pid)) \<subseteq> insert (pg p) (boxp k f (unat pid))"
    "\<forall>a \<in> changed (kmem k) (kmem k'). pg a \<in> insert (pg p) (boxp k f (unat pid))"
    using B(3) bx q0 set_trim[of "f (unat pid)"] unfolding km(1) by (auto simp: box_pages_def f'_def)
  then show "\<forall>a \<in> changed (kmem k) (kmem k'). pg a \<in> insert (pg p) (boxp k f (unat pid))" by blast
  show "boxp k' f' (unat pid) \<subseteq> insert (pg p) (boxp k f (unat pid))" "\<And>j. j \<noteq> unat pid \<Longrightarrow> boxp k' f' j = boxp k f j"
    using bp(1) km(4) by (simp_all add: boxp_def q_def f'_def)
  have up: "message_queues k' = (message_queues k)[unat pid := q]" unfolding km(4) q_def by simp
  have ot: "boxp k f j \<subseteq> used (k_mm k') \<and> boxp k f j \<inter> box_pages q (trim (f (unat pid)) @ [p]) = {} \<and>
      (\<forall>a \<in> changed (kmem k) (kmem k'). pg a \<notin> boxp k f j)" if "j < MAX_PROCESSES" "j \<noteq> unat pid" for j
    using bp p(4)[OF that(1)] I(5)[OF that(1)] that(2) ipc_invD(4)[OF inv that(1)] km(2) by (auto simp: f'_def)
  have bu: "box_pages q (trim (f (unat pid)) @ [p]) \<subseteq> used (k_mm k')" using bp(1) p(3) I(4) km(2) by (auto simp: f'_def)
  show "ipc_inv k' f'" unfolding f'_def by (rule ipc_inv_update(1)[OF inv i up km(3) _ bu ot]) (use B(1) km(1) in simp_all)
  show "inbox k' f' j = inbox k f j" if "j < MAX_PROCESSES" "j \<noteq> unat pid" for j
    unfolding f'_def by (rule ipc_inv_update(2)[OF inv i up km(3) _ bu ot that]) (use B(1) km(1) in simp_all)
  show "inbox k' f' (unat pid) = map (kmsg (kmem k)) (f' (unat pid))" using B(2) unfolding inbox_def km(1) f'_def by simp
qed

text \<open>The first message of a process allocates the header of its queue.\<close>

lemma create_queue:
  assumes inv: "ipc_inv k f" and i: "unat pid < MAX_PROCESSES" and q: "message_queues k ! unat pid = 0"
    and room: "\<exists>n < 4095. n \<notin> used (k_mm k)"
  obtains k1 n where "k1 = k\<lparr>k_mm := k_mm k1, message_queues := (message_queues k)[unat pid := page_addr n]\<rparr>"
    "ipc_inv k1 f" "\<And>j. j < MAX_PROCESSES \<Longrightarrow> inbox k1 f j = inbox k f j"
    "0 < n" "n < 4095" "n \<notin> used (k_mm k)" "used (k_mm k1) = insert n (used (k_mm k))"
    "\<forall>a \<in> changed (kmem k) (kmem k1). pg a = n" "boxp k1 f (unat pid) = {n}"
    "\<And>p. p \<noteq> 0 \<Longrightarrow> ipc_add_to_queue pid p k = ipc_add_to_queue pid p k1"
proof -
  note I = ipc_invD[OF inv i]
  obtain n s1 where al: "memory_alloc_pages 1 (k_mm k) = Some (page_addr n, s1)" "0 < n" "n < 4095" "n \<notin> used (k_mm k)"
    "used s1 = insert n (used (k_mm k))" "mm_inv s1" "mem s1 = mem (k_mm k)"
    by (rule alloc_one[OF I(1) room]) blast
  define q where "q = page_addr n"
  have qa: "page_aligned q" "q \<noteq> 0" "pg q = n"
    using al(2,3) unat_page_addr[of n] by (simp_all add: q_def page_addr_eq_0_iff pg_def)
  define k1 where "k1 = set_mem (queue_header q (kmem k)) (k\<lparr>k_mm := s1, message_queues := (message_queues k)[unat pid := q]\<rparr>)"
  have k1: "kmem k1 = queue_header q (kmem k)" "used (k_mm k1) = insert n (used (k_mm k))" "mm_inv (k_mm k1)"
    "message_queues k1 = (message_queues k)[unat pid := q]" "message_queues k1 ! unat pid = q"
    using al(5,6) i I(2) by (simp_all add: k1_def kmem_def set_mem_def used_def mm_inv_def)
  note H = queue_header_box[OF qa(1,2), of "kmem k"]
  have f0: "f (unat pid) = []" using I(3) q by (simp add: box_ok_def)
  have fi: "f(unat pid := []) = f" using f0 by auto
  have ot: "boxp k f j \<subseteq> used (k_mm k1) \<and> boxp k f j \<inter> box_pages q [] = {} \<and>
      (\<forall>a \<in> changed (kmem k) (kmem k1). pg a \<notin> boxp k f j)" if "j < MAX_PROCESSES" "j \<noteq> unat pid" for j
    using ipc_invD(4)[OF inv that(1)] al(4) H(2) qa unfolding k1 by (auto simp: box_pages_def)
  have bu: "box_pages q [] \<subseteq> used (k_mm k1)" using qa k1(2) by (simp add: box_pages_def)
  have ok: "box_ok (kmem k1) q []" using H(1) k1(1) by simp
  have inv1: "ipc_inv k1 f" using ipc_inv_update(1)[OF inv i k1(4,3) ok bu ot] unfolding fi by simp
  show thesis
  proof (rule that[of k1 n])
    show "k1 = k\<lparr>k_mm := k_mm k1, message_queues := (message_queues k)[unat pid := page_addr n]\<rparr>"
      by (simp add: k1_def set_mem_def q_def)
    show "inbox k1 f j = inbox k f j" if "j < MAX_PROCESSES" for j
      using ipc_inv_update(2)[OF inv i k1(4,3) ok bu ot that, unfolded fi] f0 by (cases "j = unat pid") (auto simp: inbox_def)
    show "boxp k1 f (unat pid) = {n}" using qa k1(5) f0 by (simp add: boxp_def box_pages_def)
    show "ipc_add_to_queue pid p k = ipc_add_to_queue pid p k1" if "p \<noteq> 0" for p
    proof -
      have "queue_of pid k = Some 0" "queue_of pid k1 = Some q" using i I(2) q k1(4,5) by (simp_all add: queue_of_def)
      moreover have "on_mm (memory_alloc_pages 1) k = Return q (k\<lparr>k_mm := s1\<rparr>)" using al(1) by (simp add: on_mm_def q_def)
      moreover have "kmem (k\<lparr>k_mm := s1, message_queues := (message_queues k)[unat pid := q]\<rparr>) = kmem k" using al(7) by (simp add: kmem_def)
      ultimately show ?thesis using that qa(2) by (simp add: ipc_add_to_queue_def Let_def k1_def)
    qed
  qed (use inv1 al k1 H(2) qa in auto)
qed

lemma add_to_queue_spec:
  assumes inv: "ipc_inv k f" and i: "unat pid < MAX_PROCESSES"
    and room: "message_queues k ! unat pid \<noteq> 0 \<or> (\<exists>n < 4095. n \<notin> used (k_mm k))"
    and p: "page_aligned p" "p \<noteq> 0" "pg p \<in> used (k_mm k)" "\<And>j. j < MAX_PROCESSES \<Longrightarrow> pg p \<notin> boxp k f j"
    "unat (msg_size (kmem k) p) \<le> 256"
  defines "f' \<equiv> f(unat pid := trim (f (unat pid)) @ [p])"
  obtains k' where "ipc_add_to_queue pid p k = Return () k'"
    "k' = k\<lparr>k_mm := k_mm k', message_queues := message_queues k'\<rparr>" "ipc_inv k' f'"
    "inbox k' f' (unat pid) = trim (inbox k f (unat pid)) @ [kmsg (kmem k) p]"
    "\<And>j. j < MAX_PROCESSES \<Longrightarrow> j \<noteq> unat pid \<Longrightarrow> inbox k' f' j = inbox k f j"
    "\<forall>a \<in> changed (kmem k) (kmem k'). pg a \<in> insert (pg p) (boxp k f (unat pid)) \<union> - used (k_mm k)"
    "used (k_mm k) \<subseteq> used (k_mm k')"
    "\<And>j. boxp k' f' j \<subseteq> insert (pg p) (boxp k f j) \<union> - used (k_mm k)"
proof (cases "message_queues k ! unat pid = 0")
  case False
  note A = add_to_existing_queue[OF inv i False p, folded f'_def]
  have boxes: "boxp (set_mem (queue_post (message_queues k ! unat pid) p (kmem k)) k) f' j \<subseteq> insert (pg p) (boxp k f j) \<union> - used (k_mm k)" for j
    using A(6) A(7)[of j] by (cases "j = unat pid") auto
  show thesis
    by (rule that[OF A(1) _ A(2)])
      (use A(3-6) boxes in \<open>auto simp: f'_def inbox_def trim_map set_mem_def used_def\<close>)
next
  case True
  then obtain k1 n where k1: "k1 = k\<lparr>k_mm := k_mm k1, message_queues := (message_queues k)[unat pid := page_addr n]\<rparr>"
    "ipc_inv k1 f" "\<And>j. j < MAX_PROCESSES \<Longrightarrow> inbox k1 f j = inbox k f j"
    "0 < n" "n < 4095" "n \<notin> used (k_mm k)" "used (k_mm k1) = insert n (used (k_mm k))"
    "\<forall>a \<in> changed (kmem k) (kmem k1). pg a = n" "boxp k1 f (unat pid) = {n}"
    "\<And>p. p \<noteq> 0 \<Longrightarrow> ipc_add_to_queue pid p k = ipc_add_to_queue pid p k1"
    using room by (rule_tac create_queue[OF inv i True]) auto
  have len: "length (message_queues k) = MAX_PROCESSES" using ipc_invD(2)[OF inv i] .
  have q1: "message_queues k1 ! unat pid = page_addr n" using i len by (subst k1(1)) simp
  then have q0: "message_queues k1 ! unat pid \<noteq> 0" using k1(4,5) by (simp add: page_addr_eq_0_iff)
  have pn: "pg p \<noteq> n" using p(3) k1(6) by auto
  have oth: "boxp k1 f j = boxp k f j" if "j \<noteq> unat pid" for j using that by (subst k1(1)) (simp add: boxp_def)
  have p4: "pg p \<notin> boxp k1 f j" if "j < MAX_PROCESSES" for j
    using k1(9) pn oth[of j] p(4)[OF that] by (cases "j = unat pid") auto
  have "changed (kmem k) (kmem k1) \<inter> msg_body p = {}"
    using body_page[OF p(1)] k1(8) pn by fastforce
  note M = msg_fields_unchanged(7)[OF this] kmsg_unchanged[OF this p(5)]
  have p3: "pg p \<in> used (k_mm k1)" using p(3) k1(7) by simp
  have p5: "unat (msg_size (kmem k1) p) \<le> 256" using M(1) p(5) by simp
  note A = add_to_existing_queue[OF k1(2) i q0 p(1,2) p3 p4 p5, folded f'_def]
  define k' where "k' = set_mem (queue_post (message_queues k1 ! unat pid) p (kmem k1)) k1"
  note A = A[folded k'_def]
  have f0: "f (unat pid) = []" using ipc_invD(3)[OF inv i] True by (simp add: box_ok_def)
  have "k' = k1\<lparr>k_mm := k_mm k', message_queues := message_queues k'\<rparr>" by (simp add: k'_def set_mem_def)
  also have "\<dots> = k\<lparr>k_mm := k_mm k', message_queues := message_queues k'\<rparr>" by (subst k1(1)) simp
  finally have e: "k' = k\<lparr>k_mm := k_mm k', message_queues := message_queues k'\<rparr>" .
  show thesis
  proof (rule that[of k'])
    show "\<forall>a \<in> changed (kmem k) (kmem k'). pg a \<in> insert (pg p) (boxp k f (unat pid)) \<union> - used (k_mm k)"
      by (rule changed_trans_all[of _ "kmem k1"]) (use k1(6,8,9) A(5) in auto)
    show "inbox k' f' j = inbox k f j" if "j < MAX_PROCESSES" "j \<noteq> unat pid" for j
      using A(4)[OF _ that] k1(3)[OF that(1)] by simp
    show "boxp k' f' j \<subseteq> insert (pg p) (boxp k f j) \<union> - used (k_mm k)" for j
      using A(6) A(7)[of j] k1(6,9) oth[of j] by (cases "j = unat pid") auto
    show "used (k_mm k) \<subseteq> used (k_mm k')" using k1(7) by (auto simp: k'_def set_mem_def used_def)
    show "inbox k' f' (unat pid) = trim (inbox k f (unat pid)) @ [kmsg (kmem k) p]"
      using A(3) M(2) f0 by (simp add: f'_def inbox_def trim_def)
  qed (use e A(1,2) k1(10)[OF p(2)] in auto)
qed

section \<open>Copying messages\<close>

lemma memcpy_away:
  assumes "\<And>k. k < n \<Longrightarrow> s + of_nat k \<notin> span d n" "n \<le> 2 ^ 31"
  shows "bytes_at (memcpy m d s n) d n = bytes_at m s n" and "changed m (memcpy m d s n) \<subseteq> span d n"
proof -
  have e: "memcpy m d s n a = (if unat (a - d) < n then m (s + (a - d)) else m a)" for a
    using assms by (intro memcpy_apply) (auto simp: span_def not_less)
  show "bytes_at (memcpy m d s n) d n = bytes_at m s n"
    using assms(2) by (auto simp: bytes_at_def e word_nat)
  show "changed m (memcpy m d s n) \<subseteq> span d n" by (auto simp: changed_def e span_def split: if_splits)
qed

lemma span_memI: "unat i + k < n \<Longrightarrow> n \<le> 2 ^ 31 \<Longrightarrow> p + i + of_nat k \<in> span p n"
proof -
  assume *: "unat i + k < n" "n \<le> 2 ^ 31"
  then have k: "unat (of_nat k :: u32) = k" by (intro unat_of_nat32) simp
  with * have "unat (i + of_nat k) = unat i + k" by (subst unat_add_small) simp_all
  then show ?thesis using * by (simp add: span_def add.assoc)
qed

text \<open>The two messages of a copy do not overlap: one is a page, the other lies outside that page.\<close>

definition apart :: "u32 \<Rightarrow> u32 \<Rightarrow> bool" where
  "apart um km \<longleftrightarrow> page_aligned km \<and> (\<forall>a \<in> span um 284. pg a \<noteq> pg km)"

lemma apart_user_word:
  assumes "apart um km" "\<forall>a \<in> changed m m'. pg a = pg km"
  shows "unat j + 4 \<le> 284 \<Longrightarrow> load32 m' (um + j) = load32 m (um + j)"
  using assms span_sub[of j 4 284 um] by (intro load32_unchanged) (auto simp: apart_def)

lemma apart_kernel_word:
  assumes "apart um km" "changed m m' \<subseteq> span um 284" "unat j + 4 \<le> 4096"
  shows "load32 m' (km + j) = load32 m (km + j)"
  using assms span_page[of km j 4] by (intro load32_unchanged) (fastforce simp: apart_def)

lemma apart_kernel_copy:
  assumes "apart um km" "n \<le> 256" "k < n"
  shows "um + 28 + of_nat k \<notin> span (km + 32) n"
proof -
  have "um + 28 + of_nat k \<in> span um 284" using assms by (intro span_memI) simp_all
  moreover have "span (km + 32) n \<subseteq> {a. pg a = pg km}" using assms by (intro span_page) (simp_all add: apart_def)
  ultimately show ?thesis using assms by (auto simp: apart_def)
qed

lemma apart_user_copy:
  assumes "apart um km" "n \<le> 256" "k < n"
  shows "km + 32 + of_nat k \<notin> span (um + 28) n"
proof -
  have "km + 32 + of_nat k \<in> span (km + 32) n" using span_memI[of 0 k n "km + 32"] assms by simp
  moreover have "span (km + 32) n \<subseteq> {a. pg a = pg km}" using assms by (intro span_page) (simp_all add: apart_def)
  moreover have "span (um + 28) n \<subseteq> span um 284" using assms by (intro span_sub) simp_all
  ultimately show ?thesis using assms by (auto simp: apart_def)
qed

lemma write_kernel_msg_spec:
  assumes ap: "apart um km" and size: "unat (msg_size m um) \<le> 256" and m'_def: "m' = write_kernel_msg km um i sender receiver m"
  shows "kmsg m' km = (umsg m um)\<lparr>m_id := i, m_sender := sender, m_receiver := receiver, m_time := 0\<rparr>"
    and "\<forall>a \<in> changed m m'. pg a = pg km" and "msg_size m' km = msg_size m um"
proof -
  have km: "page_aligned km" using ap by (simp add: apart_def)
  define n where "n = unat (msg_size m um)"
  define m1 where "m1 = store32 (store32 (store32 (store32 (store32 (store32 (store32 (store32 m km i) (km + 4) sender)
    (km + 8) receiver) (km + 12) (msg_type m um)) (km + 16) (msg_flags m um)) (km + 20) 0) (km + 24) (msg_size m um)) (km + 28) 0"
  have st: "changed x y \<subseteq> {a. pg a = pg km} \<Longrightarrow> unat j + 4 \<le> 4096 \<Longrightarrow> changed x (store32 y (km + j) v) \<subseteq> {a. pg a = pg km}"
    "changed x y \<subseteq> {a. pg a = pg km} \<Longrightarrow> changed x (store32 y km v) \<subseteq> {a. pg a = pg km}" for x y j v
    using span_page[OF km, of j 4] span_page[OF km, of 0 4] by (simp_all add: changed_store32D)
  have rd1: "load32 (store32 y (km + l) v) (um + j) = load32 y (um + j)" if "unat j + 4 \<le> 284" "unat l + 4 \<le> 4096" for y j l v
  proof -
    have "changed y (store32 y (km + l) v) \<subseteq> {a. pg a = pg km}" using st(1)[of y y l v] that(2) by simp
    then show ?thesis by (intro apart_user_word[OF ap _ that(1)]) blast
  qed
  have rd0: "load32 (store32 y km v) (um + j) = load32 y (um + j)" if "unat j + 4 \<le> 284" for y j v
    using rd1[of j 0 y v] that by simp
  have m1: "changed m m1 \<subseteq> {a. pg a = pg km}" by (simp add: m1_def st)
  have cp: "changed m1 (memcpy m1 (km + 32) (um + 28) n) \<subseteq> span (km + 32) n"
    "bytes_at (memcpy m1 (km + 32) (um + 28) n) (km + 32) n = bytes_at m1 (um + 28) n"
    using apart_kernel_copy[OF ap, of n] size by (intro memcpy_away; simp add: n_def)+
  have m': "m' = memcpy m1 (km + 32) (um + 28) n"
    by (cases "msg_size m um = 0")
      (simp_all add: m'_def write_kernel_msg_def Let_def m1_def n_def msg_defs rd1 rd0 word_gt_0)
  have "span (km + 32) n \<subseteq> {a. pg a = pg km}" using size by (intro span_page[OF km]) (simp add: n_def)
  with cp(1) have "changed m1 m' \<subseteq> {a. pg a = pg km}" by (simp add: m')
  from changed_trans[OF m1 this] show "\<forall>a \<in> changed m m'. pg a = pg km" by blast
  have hd: "load32 m' (km + j) = load32 m1 (km + j)" if "unat j + 4 \<le> 32" for j
    using cp(1) span_disjoint[of j 4 32 n km] that size unfolding m' n_def by (intro load32_unchanged) auto
  have hd0: "load32 m' km = load32 m1 km" using hd[of 0] by simp
  have "bytes_at m1 (um + 28) n = bytes_at m (um + 28) n"
  proof (rule bytes_at_unchanged)
    have "span (um + 28) n \<subseteq> span um 284" using size by (intro span_sub) (simp_all add: n_def)
    then show "changed m m1 \<inter> span (um + 28) n = {}" using m1 ap by (auto simp: apart_def)
  qed (use size in \<open>simp add: n_def\<close>)
  then have data: "bytes_at m' (km + 32) n = bytes_at m (um + 28) n" using cp(2) m' by simp
  show sz: "msg_size m' km = msg_size m um"
    unfolding msg_size_def using hd[of 24] by (simp add: m1_def load32_store32_near msg_size_def)
  show "kmsg m' km = (umsg m um)\<lparr>m_id := i, m_sender := sender, m_receiver := receiver, m_time := 0\<rparr>"
    using data unfolding kmsg_def umsg_def sz n_def[symmetric]
    by (simp add: msg_defs hd hd0 m1_def load32_store32_near load32_store32_near0)
qed

section \<open>Sending\<close>

text \<open>Writing outside the mailboxes and freeing a page that is in none of them keeps them all.\<close>

lemma ipc_inv_outside:
  assumes inv: "ipc_inv k f" and q: "message_queues k' = message_queues k" and mm: "mm_inv (k_mm k')"
    and keep: "\<And>j. j < MAX_PROCESSES \<Longrightarrow> boxp k f j \<subseteq> used (k_mm k') \<and> (\<forall>a \<in> changed (kmem k) (kmem k'). pg a \<notin> boxp k f j)"
  shows "ipc_inv k' f" and "\<And>j. j < MAX_PROCESSES \<Longrightarrow> inbox k' f j = inbox k f j"
proof -
  have bx: "boxp k' f j = boxp k f j" for j by (simp add: boxp_def q)
  have fr: "box_ok (kmem k') (message_queues k ! j) (f j) \<and> map (kmsg (kmem k')) (f j) = map (kmsg (kmem k)) (f j)"
    if "j < MAX_PROCESSES" for j
    using box_frame[OF ipc_invD(3)[OF inv that], of "kmem k'"] keep[OF that] by (simp add: boxp_def)
  then show "inbox k' f j = inbox k f j" if "j < MAX_PROCESSES" for j using that by (simp add: inbox_def)
  show "ipc_inv k' f" unfolding ipc_inv_def bx q using mm fr inv keep by (auto simp: ipc_inv_def)
qed

text \<open>Memory in use that belongs to no mailbox, and the caller's buffer in such memory.\<close>

definition user_page :: "kernel \<Rightarrow> (nat \<Rightarrow> u32 list) \<Rightarrow> nat \<Rightarrow> bool" where
  "user_page k f n \<longleftrightarrow> n \<in> used (k_mm k) \<and> (\<forall>j < MAX_PROCESSES. n \<notin> boxp k f j)"

definition user_buffer :: "kernel \<Rightarrow> (nat \<Rightarrow> u32 list) \<Rightarrow> u32 \<Rightarrow> bool" where
  "user_buffer k f um \<longleftrightarrow> um \<noteq> 0 \<and> (\<forall>a \<in> span um 284. user_page k f (pg a))"

lemma one_page_message:
  assumes "unat (n :: u32) \<le> 256"
  shows "(32 + n + PAGE_SIZE - 1) div PAGE_SIZE = 1"
proof -
  have e: "32 + n + PAGE_SIZE - 1 = n + 4127" by simp
  have "unat (n + 4127) = unat n + 4127" using assms by (subst unat_add_small) simp_all
  then have "unat ((n + 4127) div PAGE_SIZE) = 1" using assms by (simp add: unat_div)
  then show ?thesis unfolding e by (simp add: word32_eq_iff_unat)
qed

lemma umsg_unchanged:
  assumes "changed m m' \<inter> span um 284 = {}" "unat (msg_size m um) \<le> 256"
  shows "umsg m' um = umsg m um"
proof -
  have w: "load32 m' (um + j) = load32 m (um + j)" if "unat j + 4 \<le> 28" for j
    using assms(1) span_sub[of j 4 284 um] that by (intro load32_unchanged) auto
  have w0: "load32 m' um = load32 m um" using w[of 0] by simp
  have "span (um + 28) (unat (msg_size m um)) \<subseteq> span um 284" using assms(2) by (intro span_sub) simp_all
  then have "bytes_at m' (um + 28) (unat (msg_size m um)) = bytes_at m (um + 28) (unat (msg_size m um))"
    using assms by (intro bytes_at_unchanged) auto
  then show ?thesis by (simp add: umsg_def msg_defs w w0)
qed

text \<open>The message that a send delivers: the caller's, with identity, sender, receiver and time set by the kernel.\<close>

definition sent_message :: "kernel \<Rightarrow> u32 \<Rightarrow> u32 \<Rightarrow> message" where
  "sent_message k receiver um =
     (umsg (kmem k) um)\<lparr>m_id := next_msg_id k, m_sender := current_pid k, m_receiver := receiver, m_time := 0\<rparr>"

lemma wakeup_running:
  assumes "scheduler_find_process pid (k_sched k) = Some (Some r)" "p_state (pcb_of k r) \<noteq> PROCESS_BLOCKED"
  shows "ipc_wakeup_receiver pid k = Return () k"
  using assms by (simp add: ipc_wakeup_receiver_def find_process_def)

text \<open>What a send does up to the queue: allocate a page and write the message.\<close>

lemma send_reaches_queue:
  assumes um: "um \<noteq> 0" and size: "unat (msg_size (kmem k) um) \<le> 256"
    and rcv: "scheduler_find_process pid (k_sched k) = Some (Some r)" "p_state (pcb_of k r) \<noteq> PROCESS_BLOCKED"
    and al: "memory_alloc_pages 1 (k_mm k) = Some (p, s1)" "p \<noteq> 0" "mem s1 = mem (k_mm k)"
    and add: "ipc_add_to_queue pid p (k\<lparr>k_mm := s1\<lparr>mem := write_kernel_msg p um (next_msg_id k) (current_pid k) pid (kmem k)\<rparr>,
        next_msg_id := next_msg_id k + 1\<rparr>) = Return () k'"
    and sch: "k_sched k' = k_sched k"
  shows "ipc_send pid um k = Return STATUS_SUCCESS k'"
proof -
  have fp: "find_process pid k = Return (Some r) k" using rcv(1) by (simp add: find_process_def)
  have sz: "\<not> msg_size (kmem k) um > IPC_MAX_DATA" using size by (simp add: word_less_nat_alt)
  have am: "on_mm (memory_alloc_pages ((32 + msg_size (kmem k) um + PAGE_SIZE - 1) div PAGE_SIZE)) k = Return p (k\<lparr>k_mm := s1\<rparr>)"
    unfolding one_page_message[OF size] by (simp add: on_mm_def al(1))
  have cur: "current_pid (k\<lparr>k_mm := s1\<rparr>) = current_pid k" "kmem (k\<lparr>k_mm := s1\<rparr>) = kmem k"
    using al(3) by (simp_all add: current_pid_def current_of_def pcb_of_def kmem_def split: option.split)
  have wk: "ipc_wakeup_receiver pid k' = Return () k'" by (rule wakeup_running) (use rcv sch in \<open>simp_all add: pcb_of_def\<close>)
  have st: "set_mem m (k\<lparr>k_mm := s1, next_msg_id := next_msg_id k + 1\<rparr>) = k\<lparr>k_mm := s1\<lparr>mem := m\<rparr>, next_msg_id := next_msg_id k + 1\<rparr>" for m
    by (simp add: set_mem_def)
  show ?thesis
    unfolding ipc_send_def fp obind.simps am using um sz al(2) by (simp add: Let_def cur st add wk)
qed

text \<open>The state in which the message is written and not yet linked.\<close>

definition with_message :: "u32 \<Rightarrow> mm \<Rightarrow> u32 \<Rightarrow> u32 \<Rightarrow> kernel \<Rightarrow> kernel" where
  "with_message p s pid um k = k\<lparr>k_mm := s\<lparr>mem := write_kernel_msg p um (next_msg_id k) (current_pid k) pid (kmem k)\<rparr>,
     next_msg_id := next_msg_id k + 1\<rparr>"

lemma write_message_spec:
  assumes inv: "ipc_inv k f" and buf: "user_buffer k f um"
    and size: "unat (msg_size (kmem k) um) \<le> 256" and room: "0 < avail (k_mm k)"
  obtains p s k1 where "memory_alloc_pages 1 (k_mm k) = Some (p, s)" "mem s = mem (k_mm k)" "page_aligned p" "p \<noteq> 0"
    "pg p < 4095" "pg p \<notin> used (k_mm k)" "k1 = with_message p s pid um k"
    "used (k_mm k1) = insert (pg p) (used (k_mm k))" "ipc_inv k1 f" "\<And>j. j < MAX_PROCESSES \<Longrightarrow> inbox k1 f j = inbox k f j"
    "kmsg (kmem k1) p = sent_message k pid um" "unat (msg_size (kmem k1) p) \<le> 256"
    "\<forall>a \<in> changed (kmem k) (kmem k1). pg a = pg p"
proof -
  have inv0: "mm_inv (k_mm k)" using inv by (simp add: ipc_inv_def)
  obtain n s where al: "memory_alloc_pages 1 (k_mm k) = Some (page_addr n, s)" "0 < n" "n < 4095" "n \<notin> used (k_mm k)"
    "used s = insert n (used (k_mm k))" "mm_inv s" "mem s = mem (k_mm k)"
    using alloc_one[OF inv0] room avail_pos[of "k_mm k"] by metis
  define p where "p = page_addr n"
  have p: "page_aligned p" "p \<noteq> 0" "pg p = n"
    using al(2,3) unat_page_addr[of n] by (simp_all add: p_def page_addr_eq_0_iff pg_def)
  have ap: "apart um p" using buf al(4) p by (auto simp: user_buffer_def user_page_def apart_def)
  define k1 where "k1 = with_message p s pid um k"
  have k1: "kmem k1 = write_kernel_msg p um (next_msg_id k) (current_pid k) pid (kmem k)"
    "used (k_mm k1) = insert n (used (k_mm k))" "mm_inv (k_mm k1)" "message_queues k1 = message_queues k"
    using al(5,6) by (simp_all add: k1_def with_message_def kmem_def used_def mm_inv_def)
  note W = write_kernel_msg_spec[OF ap size k1(1)]
  have "boxp k f j \<subseteq> used (k_mm k1) \<and> (\<forall>a \<in> changed (kmem k) (kmem k1). pg a \<notin> boxp k f j)" if "j < MAX_PROCESSES" for j
    using ipc_invD(4)[OF inv that] W(2) p(3) al(4) unfolding k1(2) by auto
  note O = ipc_inv_outside[OF inv k1(4,3) this]
  show thesis
    by (rule that[of p s k1]) (use al(1,3,4,7) p k1(2) O W size in \<open>simp_all add: p_def[symmetric] k1_def[symmetric] sent_message_def\<close>)
qed

lemma send_spec:
  assumes inv: "ipc_inv k f" and i: "unat pid < MAX_PROCESSES" and buf: "user_buffer k f um"
    and size: "unat (msg_size (kmem k) um) \<le> 256" and room: "2 \<le> avail (k_mm k)"
    and rcv: "scheduler_find_process pid (k_sched k) = Some (Some r)" "p_state (pcb_of k r) \<noteq> PROCESS_BLOCKED"
  obtains k' p where "ipc_send pid um k = Return STATUS_SUCCESS k'"
    "ipc_inv k' (f(unat pid := trim (f (unat pid)) @ [p]))"
    "inbox k' (f(unat pid := trim (f (unat pid)) @ [p])) (unat pid) = trim (inbox k f (unat pid)) @ [sent_message k pid um]"
    "\<And>j. j < MAX_PROCESSES \<Longrightarrow> j \<noteq> unat pid \<Longrightarrow> inbox k' (f(unat pid := trim (f (unat pid)) @ [p])) j = inbox k f j"
    "next_msg_id k' = next_msg_id k + 1" "k_sched k' = k_sched k" "syscall_table k' = syscall_table k"
    "\<And>a. a \<in> changed (kmem k) (kmem k') \<Longrightarrow> \<not> user_page k f (pg a)"
    "\<And>n. user_page k f n \<Longrightarrow> user_page k' (f(unat pid := trim (f (unat pid)) @ [p])) n"
proof -
  have "0 < avail (k_mm k)" using room by simp
  from write_message_spec[OF inv buf size this, of pid] obtain p s k1
    where al: "memory_alloc_pages 1 (k_mm k) = Some (p, s)" "mem s = mem (k_mm k)" and p: "page_aligned p" "p \<noteq> 0"
      "pg p < 4095" "pg p \<notin> used (k_mm k)" and k1: "k1 = with_message p s pid um k"
      and u1: "used (k_mm k1) = insert (pg p) (used (k_mm k))" and inv1: "ipc_inv k1 f"
      and ib1: "\<And>j. j < MAX_PROCESSES \<Longrightarrow> inbox k1 f j = inbox k f j"
      and m1: "kmsg (kmem k1) p = sent_message k pid um" "unat (msg_size (kmem k1) p) \<le> 256"
      and ch1: "\<forall>a \<in> changed (kmem k) (kmem k1). pg a = pg p" by metis
  have f1: "boxp k1 f j = boxp k f j" "k_sched k1 = k_sched k" "next_msg_id k1 = next_msg_id k + 1" "syscall_table k1 = syscall_table k" for j
    by (simp_all add: k1 boxp_def with_message_def)
  have room1: "message_queues k1 ! unat pid \<noteq> 0 \<or> (\<exists>n < 4095. n \<notin> used (k_mm k1))"
    using avail_insert[of "pg p" "k_mm k" "k_mm k1"] p(3,4) u1 room avail_pos[of "k_mm k1"] by auto
  have pu: "pg p \<in> used (k_mm k1)" "pg p \<notin> boxp k1 f j" if "j < MAX_PROCESSES" for j
    using u1 p(4) f1(1) ipc_invD(4)[OF inv that] by auto
  define f' where "f' = f(unat pid := trim (f (unat pid)) @ [p])"
  obtain k' where k': "ipc_add_to_queue pid p k1 = Return () k'" "k' = k1\<lparr>k_mm := k_mm k', message_queues := message_queues k'\<rparr>"
    "ipc_inv k' f'" "inbox k' f' (unat pid) = trim (inbox k1 f (unat pid)) @ [kmsg (kmem k1) p]"
    "\<And>j. j < MAX_PROCESSES \<Longrightarrow> j \<noteq> unat pid \<Longrightarrow> inbox k' f' j = inbox k1 f j"
    "\<forall>a \<in> changed (kmem k1) (kmem k'). pg a \<in> insert (pg p) (boxp k1 f (unat pid)) \<union> - used (k_mm k1)"
    "used (k_mm k1) \<subseteq> used (k_mm k')" "\<And>j. boxp k' f' j \<subseteq> insert (pg p) (boxp k1 f j) \<union> - used (k_mm k1)"
    unfolding f'_def by (rule add_to_queue_spec[OF inv1 i room1 p(1,2) pu m1(2)]) (use i in auto)
  have same: "k_sched k' = k_sched k" "next_msg_id k' = next_msg_id k + 1" "syscall_table k' = syscall_table k"
    using arg_cong[OF k'(2), of k_sched] arg_cong[OF k'(2), of next_msg_id] arg_cong[OF k'(2), of syscall_table] by (simp_all add: f1)
  have e: "ipc_send pid um k = Return STATUS_SUCCESS k'"
    by (rule send_reaches_queue[OF _ size rcv al(1) p(2) al(2)])
      (use buf k'(1) same in \<open>simp_all add: k1 with_message_def user_buffer_def\<close>)
  have ch: "\<forall>a \<in> changed (kmem k) (kmem k'). pg a \<in> insert (pg p) (boxp k f (unat pid)) \<union> - used (k_mm k)"
    by (rule changed_trans_all[of _ "kmem k1"]) (use ch1 k'(6) u1 f1(1) p(4) in auto)
  have up: "user_page k' f' n" if "user_page k f n" for n
    using that k'(7,8) u1 p(4) unfolding user_page_def f1(1) by blast
  have cu: "\<not> user_page k f (pg a)" if "a \<in> changed (kmem k) (kmem k')" for a
    using bspec[OF ch that] i p(4) unfolding user_page_def by auto
  show thesis
    by (rule that[OF e, of p, folded f'_def]) (use k'(3-5) ib1 same m1(1) i up cu in auto)
qed

lemma user_buffer_kept:
  assumes "\<And>n. user_page k f n \<Longrightarrow> user_page k' f' n" "user_buffer k f b"
  shows "user_buffer k' f' b"
  using assms by (simp add: user_buffer_def)

lemma user_bytes_kept:
  assumes "\<And>a. a \<in> changed (kmem k) (kmem k') \<Longrightarrow> \<not> user_page k f (pg a)" "user_buffer k f um" "unat (msg_size (kmem k) um) \<le> 256"
  shows "umsg (kmem k') um = umsg (kmem k) um"
  by (rule umsg_unchanged) (use assms in \<open>auto simp: user_buffer_def\<close>)

section \<open>Receiving\<close>

lemma write_user_msg_spec:
  assumes ap: "apart um km" and size: "unat (msg_size m km) \<le> 256" and m'_def: "m' = write_user_msg um km m"
  shows "umsg m' um = kmsg m km" and "changed m m' \<subseteq> span um 284"
proof -
  have km: "page_aligned km" using ap by (simp add: apart_def)
  define n where "n = unat (msg_size m km)"
  define m1 where "m1 = store32 (store32 (store32 (store32 (store32 (store32 (store32 m um (msg_id m km)) (um + 4) (msg_sender m km))
    (um + 8) (msg_receiver m km)) (um + 12) (msg_type m km)) (um + 16) (msg_flags m km)) (um + 20) (msg_timestamp m km))
    (um + 24) (msg_size m km)"
  have rd: "load32 (store32 y (um + l) v) (km + j) = load32 y (km + j)" if "unat l + 4 \<le> 284" "unat j + 4 \<le> 4096" for y j l v
    using changed_store32[of y "um + l" v] span_sub[of l 4 284 um] that by (intro apart_kernel_word[OF ap]) auto
  have rd': "load32 (store32 y um v) (km + j) = load32 y (km + j)" if "unat j + 4 \<le> 4096" for y j v
    using rd[of 0 j y v] that by simp
  note r = rd rd' rd[where j = 0, simplified] rd'[where j = 0, simplified]
  have "span um 4 \<subseteq> span um 284" "\<And>j. unat j + 4 \<le> 284 \<Longrightarrow> span (um + j) 4 \<subseteq> span um 284"
    using span_sub[of 0 4 284 um] span_sub[of _ 4 284 um] by auto
  then have m1: "changed m m1 \<subseteq> span um 284" by (simp add: m1_def changed_store32D)
  have cp: "changed m1 (memcpy m1 (um + 28) (km + 32) n) \<subseteq> span (um + 28) n"
    "bytes_at (memcpy m1 (um + 28) (km + 32) n) (um + 28) n = bytes_at m1 (km + 32) n"
    using apart_user_copy[OF ap, of n] size by (intro memcpy_away; simp add: n_def)+
  have m': "m' = memcpy m1 (um + 28) (km + 32) n"
    using size by (cases "msg_size m km = 0")
      (simp_all add: m'_def write_user_msg_def Let_def m1_def n_def msg_defs r word_gt_0 word_le_nat_alt)
  have "span (um + 28) n \<subseteq> span um 284" using size by (intro span_sub) (simp_all add: n_def)
  with cp(1) have "changed m1 m' \<subseteq> span um 284" by (simp add: m')
  from changed_trans[OF m1 this] show "changed m m' \<subseteq> span um 284" .
  have hd: "load32 m' (um + j) = load32 m1 (um + j)" if "unat j + 4 \<le> 28" for j
    using cp(1) span_disjoint[of j 4 28 n um] that size unfolding m' n_def by (intro load32_unchanged) auto
  have hd0: "load32 m' um = load32 m1 um" using hd[of 0] by simp
  have "bytes_at m1 (km + 32) n = bytes_at m (km + 32) n"
  proof (rule bytes_at_unchanged)
    have "span (km + 32) n \<subseteq> {a. pg a = pg km}" using size by (intro span_page[OF km]) (simp add: n_def)
    then show "changed m m1 \<inter> span (km + 32) n = {}" using m1 ap by (auto simp: apart_def)
  qed (use size in \<open>simp add: n_def\<close>)
  then have data: "bytes_at m' (um + 28) n = bytes_at m (km + 32) n" using cp(2) m' by simp
  have sz: "msg_size m' um = msg_size m km"
    unfolding msg_size_def using hd[of 24] by (simp add: m1_def msg_size_def)
  show "umsg m' um = kmsg m km"
    using data unfolding kmsg_def umsg_def sz n_def[symmetric]
    by (simp add: msg_defs hd hd0 m1_def load32_store32_near load32_store32_near0)
qed

fun remove_first :: "('a \<Rightarrow> bool) \<Rightarrow> 'a list \<Rightarrow> 'a list" where
  "remove_first P [] = []"
| "remove_first P (x # xs) = (if P x then xs else x # remove_first P xs)"

lemma remove_first_find:
  "find (\<lambda>c. P (g c)) xs = Some c \<Longrightarrow> map g (remove1 c xs) = remove_first P (map g xs)"
  by (induction xs) (auto split: if_splits dest: find_Some_iff[THEN iffD1])

lemma find_map: "find P (map g xs) = map_option g (find (\<lambda>c. P (g c)) xs)"
  by (induction xs) auto

lemma box_pages_remove1:
  assumes rep: "mq_rep q m xs" and c: "c \<in> set xs"
  shows "pg c \<notin> box_pages q (remove1 c xs)"
proof -
  note D = mq_repD[OF rep]
  have "pg d \<noteq> pg c" if "d \<in> set (remove1 c xs)" for d
    using that D(3) D(7)[OF c] D(7)[of d] pg_inj[of d c] by auto
  then have "pg c \<notin> pg ` set (remove1 c xs)" by fastforce
  then show ?thesis using pg_inj[of c q] D(1,2) D(7,9)[OF c] by (auto simp: box_pages_def)
qed

text \<open>Which messages a receive accepts: any, or those of one sender.\<close>

definition accepts :: "u32 \<Rightarrow> message \<Rightarrow> bool" where
  "accepts sender_pid msg \<longleftrightarrow> sender_pid = 0 \<or> m_sender msg = sender_pid"

definition taken :: "kernel \<Rightarrow> (nat \<Rightarrow> u32 list) \<Rightarrow> nat \<Rightarrow> u32 \<Rightarrow> kernel \<Rightarrow> (nat \<Rightarrow> u32 list) \<Rightarrow> bool" where
  "taken k f i c k' f' \<longleftrightarrow> c \<noteq> 0 \<and> page_aligned c \<and> pg c \<in> boxp k f i \<and> k' = set_mem (kmem k') k \<and>
     unat (msg_size (kmem k') c) \<le> 256 \<and> ipc_inv k' f' \<and> (\<forall>j < MAX_PROCESSES. pg c \<notin> boxp k' f' j) \<and>
     (\<forall>j. boxp k' f' j \<subseteq> boxp k f j) \<and> (\<forall>j < MAX_PROCESSES. j \<noteq> i \<longrightarrow> inbox k' f' j = inbox k f j)"

text \<open>Unlinking a message of one mailbox: it is in no mailbox any more and the others are as before.\<close>

lemma unlink_spec:
  assumes inv: "ipc_inv k f" and i: "i < MAX_PROCESSES" and c: "c \<in> set (f i)"
    and k': "k' = set_mem (queue_unlink (message_queues k ! i) c (ptr (nxt (rev (f i)) c)) (kmem k)) k"
    and f': "f' = f(i := remove1 c (f i))"
  shows "taken k f i c k' f'" and "kmsg (kmem k') c = kmsg (kmem k) c"
    and "inbox k' f' i = map (kmsg (kmem k)) (remove1 c (f i))"
proof -
  note I = ipc_invD[OF inv i]
  define q where "q = message_queues k ! i"
  have ok: "box_ok (kmem k) q (f i)" using I(3) by (simp add: q_def)
  have q0: "q \<noteq> 0" using c ok by (auto simp: box_ok_def)
  then have rep: "mq_rep q (kmem k) (f i)" using ok by (simp add: box_ok_def)
  note D = mq_repD[OF rep] and U = box_unlink[OF ok q0 c refl]
  have m: "kmem k' = queue_unlink q c (ptr (nxt (rev (f i)) c)) (kmem k)" "used (k_mm k') = used (k_mm k)" "mm_inv (k_mm k')"
    "message_queues k' = (message_queues k)[i := q]" "message_queues k' = message_queues k"
    using I(1) by (simp_all add: k' kmem_def set_mem_def used_def mm_inv_def q_def)
  have bx: "boxp k f i = insert (pg q) (pg ` set (f i))" using q0 by (simp add: boxp_def box_pages_def q_def)
  have bp: "box_pages q (remove1 c (f i)) \<subseteq> boxp k f i"
    using bx set_remove1_subset[of c "f i"] q0 by (auto simp: box_pages_def)
  have ch: "\<forall>a \<in> changed (kmem k) (kmem k'). pg a \<in> boxp k f i" using U(3) q0 unfolding m bx by (simp add: box_pages_def)
  have ot: "boxp k f j \<subseteq> used (k_mm k') \<and> boxp k f j \<inter> box_pages q (remove1 c (f i)) = {} \<and>
      (\<forall>a \<in> changed (kmem k) (kmem k'). pg a \<notin> boxp k f j)" if "j < MAX_PROCESSES" "j \<noteq> i" for j
    using bp ch I(5)[OF that(1)] that(2) ipc_invD(4)[OF inv that(1)] m(2) by blast
  have bu: "box_pages q (remove1 c (f i)) \<subseteq> used (k_mm k')" using bp I(4) m(2) by auto
  have ok': "box_ok (kmem k') q (remove1 c (f i))" using U(1) m(1) by simp
  note up = ipc_inv_update[OF inv i m(4,3) ok' bu ot, folded f']
  have b': "boxp k' f' i = box_pages q (remove1 c (f i))" "\<And>j. j \<noteq> i \<Longrightarrow> boxp k' f' j = boxp k f j"
    by (simp_all add: boxp_def m(5) f' q_def)
  have "pg c \<notin> boxp k' f' j" if "j < MAX_PROCESSES" for j
    using box_pages_remove1[OF rep c] b'(1) b'(2)[of j] c bx I(5)[OF that] by (cases "j = i") auto
  moreover have "boxp k' f' j \<subseteq> boxp k f j" for j using b' bp by (cases "j = i") auto
  moreover have "k' = set_mem (kmem k') k" by (simp add: k' kmem_def set_mem_def)
  ultimately show "taken k f i c k' f'" unfolding taken_def using D(7,8)[OF c] U(4) c m(1) bx up by auto
  show "kmsg (kmem k') c = kmsg (kmem k) c" "inbox k' f' i = map (kmsg (kmem k)) (remove1 c (f i))"
    using U(2) c m(1) set_remove1_subset[of c "f i"] by (auto simp: inbox_def f')
qed

lemma find_in_queue_result:
  assumes inv: "ipc_inv k f" and i: "unat pid < MAX_PROCESSES"
  shows "ipc_find_in_queue pid sender k = (case find (\<lambda>c. accepts sender (kmsg (kmem k) c)) (f (unat pid)) of
      None \<Rightarrow> Return 0 k
    | Some c \<Rightarrow> Return c (set_mem (queue_unlink (message_queues k ! unat pid) c (ptr (nxt (rev (f (unat pid))) c)) (kmem k)) k))"
proof -
  note I = ipc_invD[OF inv i]
  define q where "q = message_queues k ! unat pid"
  have P: "(\<lambda>c. sender = 0 \<or> msg_sender (kmem k) c = sender) = (\<lambda>c. accepts sender (kmsg (kmem k) c))"
    by (simp add: accepts_def kmsg_def)
  have qo: "queue_of pid k = Some q" using i I(2) by (simp add: queue_of_def q_def)
  show ?thesis
  proof (cases "q = 0")
    case True
    then have "f (unat pid) = []" using I(3) by (simp add: box_ok_def q_def)
    then show ?thesis using True by (simp add: ipc_find_in_queue_def qo)
  next
    case False
    then have rep: "mq_rep q (kmem k) (f (unat pid))" using I(3) by (simp add: box_ok_def q_def)
    have nz: "c \<noteq> 0" if "find (\<lambda>c. accepts sender (kmsg (kmem k) c)) (f (unat pid)) = Some c" for c
      using that mq_repD(8)[OF rep, of c] by (auto simp: find_Some_iff dest: nth_mem)
    from find_msg_spec[of q "kmem k" "[]" "f (unat pid)" "\<lambda>c. accepts sender (kmsg (kmem k) c)"] rep mq_repD(4)[OF rep] False nz
    show ?thesis by (auto simp: ipc_find_in_queue_def qo P q_def[symmetric] split: option.splits)
  qed
qed

lemma find_in_queue_spec:
  assumes inv: "ipc_inv k f" and i: "unat pid < MAX_PROCESSES"
  shows "case find (accepts sender) (inbox k f (unat pid)) of
      None \<Rightarrow> ipc_find_in_queue pid sender k = Return 0 k
    | Some msg \<Rightarrow> (\<exists>c k' f'. ipc_find_in_queue pid sender k = Return c k' \<and> kmsg (kmem k') c = msg \<and> taken k f (unat pid) c k' f' \<and>
        inbox k' f' (unat pid) = remove_first (accepts sender) (inbox k f (unat pid)))"
proof (cases "find (\<lambda>c. accepts sender (kmsg (kmem k) c)) (f (unat pid))")
  case None
  then show ?thesis using find_in_queue_result[OF inv i, of sender] by (simp add: inbox_def find_map)
next
  case (Some c)
  then have c: "c \<in> set (f (unat pid))" by (auto simp: find_Some_iff)
  from unlink_spec[OF inv i c refl refl] Some show ?thesis
    using find_in_queue_result[OF inv i, of sender] remove_first_find[of "accepts sender" "kmsg (kmem k)" "f (unat pid)" c]
    by (auto simp: inbox_def find_map intro!: exI)
qed

lemma receive_spec:
  assumes inv: "ipc_inv k f" and cur: "current_of k = Some r" and i: "unat (p_pid (pcb_of k r)) < MAX_PROCESSES"
    and buf: "user_buffer k f um" and msg: "find (accepts sender) (inbox k f (unat (p_pid (pcb_of k r)))) = Some msg"
  obtains k' f' where "ipc_receive sender um block k = Return STATUS_SUCCESS k'" "umsg (kmem k') um = msg" "ipc_inv k' f'"
    "inbox k' f' (unat (p_pid (pcb_of k r))) = remove_first (accepts sender) (inbox k f (unat (p_pid (pcb_of k r))))"
    "\<And>j. j < MAX_PROCESSES \<Longrightarrow> j \<noteq> unat (p_pid (pcb_of k r)) \<Longrightarrow> inbox k' f' j = inbox k f j"
    "k_sched k' = k_sched k" "syscall_table k' = syscall_table k" "Suc (card (used (k_mm k'))) = card (used (k_mm k))"
    "\<And>n. user_page k f n \<Longrightarrow> user_page k' f' n"
proof -
  define pid where "pid = p_pid (pcb_of k r)"
  have i: "unat pid < MAX_PROCESSES" using i by (simp add: pid_def)
  obtain c k1 g where k1: "ipc_find_in_queue pid sender k = Return c k1" "kmsg (kmem k1) c = msg" "taken k f (unat pid) c k1 g"
    "inbox k1 g (unat pid) = remove_first (accepts sender) (inbox k f (unat pid))"
    using find_in_queue_spec[OF inv i, of sender] msg by (auto simp: pid_def)
  note T = k1(3)[unfolded taken_def]
  have c: "c \<noteq> 0" "page_aligned c" "pg c \<in> boxp k f (unat pid)" "unat (msg_size (kmem k1) c) \<le> 256" using T by blast+
  have e1: "k1 = set_mem (kmem k1) k" using T by blast
  have g: "ipc_inv k1 g" "\<forall>j < MAX_PROCESSES. pg c \<notin> boxp k1 g j" "\<forall>j. boxp k1 g j \<subseteq> boxp k f j"
    "\<forall>j < MAX_PROCESSES. j \<noteq> unat pid \<longrightarrow> inbox k1 g j = inbox k f j" using T by blast+
  have u1: "used (k_mm k1) = used (k_mm k)" by (subst e1) (simp add: set_mem_def used_def)
  have um: "um \<noteq> 0" and bf: "\<And>a j. a \<in> span um 284 \<Longrightarrow> j < MAX_PROCESSES \<Longrightarrow> pg a \<notin> boxp k f j"
    using buf by (auto simp: user_buffer_def user_page_def)
  have ap: "apart um c" using bf[OF _ i] c(2,3) unfolding apart_def by metis
  define m where "m = write_user_msg um c (kmem k1)"
  note W = write_user_msg_spec[OF ap c(4) m_def]
  have cu: "pg c \<in> used (k_mm k)" using c(3) ipc_invD(4)[OF inv i] by blast
  have pos: "0 < unat c div 4096" "unat c div 4096 + unat (1 :: u32) \<le> 4096"
    using c(1,2) used_bound[of "k_mm k" "pg c"] cu ipc_invD(1)[OF inv i] pg_inj[of c 0]
    by (auto simp: mm_inv_def pg_def page_aligned_def)
  have inv2: "mm_inv (k_mm (set_mem m k1))" using ipc_invD(1)[OF g(1) i] by (simp add: set_mem_def mm_inv_def used_def)
  obtain s where s: "memory_free_pages c 1 (k_mm (set_mem m k1)) = Some s" "used s = used (k_mm k) - {pg c}" "mm_inv s"
    "mem s = m"
    using pa.release_block[OF inv2 pos] u1 by (auto simp: frames_one pg_def set_mem_def used_def mm_content_def)
  define k' where "k' = k1\<lparr>k_mm := s\<rparr>"
  have k': "kmem k' = m" "used (k_mm k') = used (k_mm k) - {pg c}" "message_queues k' = message_queues k1" "mm_inv (k_mm k')"
    using s by (simp_all add: k'_def kmem_def)
  have e: "ipc_receive sender um block k = Return STATUS_SUCCESS k'"
    using cur k1(1) c(1) um s(1) by (simp add: ipc_receive_def pid_def[symmetric] Let_def do_mm_def m_def k'_def set_mem_def)
  have keep: "boxp k1 g j \<subseteq> used (k_mm k') \<and> (\<forall>a \<in> changed (kmem k1) (kmem k'). pg a \<notin> boxp k1 g j)"
    if "j < MAX_PROCESSES" for j
    using ipc_invD(4)[OF g(1) that] u1 g(2,3) that W(2) bf[OF _ that] unfolding k'(1,2) by blast
  note O = ipc_inv_outside[OF g(1) k'(3,4) keep]
  have sch: "k_sched k' = k_sched k" "syscall_table k' = syscall_table k"
    using arg_cong[OF e1, of k_sched] arg_cong[OF e1, of syscall_table] by (simp_all add: k'_def set_mem_def)
  have up: "user_page k' g n" if "user_page k f n" for n
    using that g(3) c(3) i unfolding user_page_def k'(2) boxp_def k'(3) by blast
  have cd: "Suc (card (used (k_mm k'))) = card (used (k_mm k))" unfolding k'(2) by (rule card_Suc_Diff1[OF finite_used cu])
  show thesis
    by (rule that[OF e _ O(1)]) (use W(1) k'(1) k1(2,4) O(2) g(4) i sch cd up in \<open>auto simp: pid_def\<close>)
qed

section \<open>Clearing a mailbox\<close>

lemma free_chain_spec:
  assumes "mm_inv s" "distinct xs" "\<forall>p \<in> set xs. page_aligned p \<and> p \<noteq> 0 \<and> pg p \<in> used s"
    and "\<forall>p \<in> set xs. msg_next (mem s) p = ptr (nxt xs p)"
  shows "\<exists>s'. free_chain (ptr (hd_opt xs)) s = Some s' \<and> mm_inv s' \<and> used s' = used s - pg ` set xs \<and> mem s' = mem s"
  using assms
proof (induction xs arbitrary: s)
  case Nil
  then show ?case by (simp add: free_chain.simps)
next
  case (Cons x xs)
  have x: "page_aligned x" "x \<noteq> 0" "pg x \<in> used s" using Cons.prems(3) by simp_all
  have pos: "0 < unat x div 4096" "unat x div 4096 + unat (1 :: u32) \<le> 4096"
    using x used_bound[of s "pg x"] Cons.prems(1) pg_inj[of x 0] by (auto simp: mm_inv_def pg_def page_aligned_def)
  obtain s1 where s1: "memory_free_pages x 1 s = Some s1" "used s1 = used s - {pg x}" "mm_inv s1" "mem s1 = mem s"
    using pa.release_block[OF Cons.prems(1) pos] by (auto simp: frames_one pg_def mm_content_def)
  have n: "msg_next (mem s) x = ptr (hd_opt xs)" using Cons.prems(2,4) by (cases xs) (auto simp: nxt_Cons)
  have "\<forall>p \<in> set xs. page_aligned p \<and> p \<noteq> 0 \<and> pg p \<in> used s1"
    using Cons.prems(2,3) s1(2) pg_inj[of _ x] x(1) by fastforce
  moreover have "\<forall>p \<in> set xs. msg_next (mem s1) p = ptr (nxt xs p)"
    using Cons.prems(2,4) s1(4) by (auto simp: nxt_Cons)
  ultimately obtain s2 where "free_chain (ptr (hd_opt xs)) s1 = Some s2" "mm_inv s2" "used s2 = used s1 - pg ` set xs" "mem s2 = mem s1"
    using Cons.IH[OF s1(3)] Cons.prems(2) by auto
  then show ?case using s1 n x(2) by (auto simp: free_chain.simps[of x s])
qed

lemma emptied_header:
  assumes "page_aligned q" "q \<noteq> 0" "q_max m q = 100"
  shows "box_ok (store32 (store32 (store32 m q 0) (q + 4) 0) (q + 8) 0) q []"
    and "\<forall>a \<in> changed m (store32 (store32 (store32 m q 0) (q + 4) 0) (q + 8) 0). pg a = pg q"
proof -
  show "box_ok (store32 (store32 (store32 m q 0) (q + 4) 0) (q + 8) 0) q []"
    using assms by (simp add: box_ok_def mq_rep_def q_defs load32_store32_struct)
  have "changed m (store32 (store32 (store32 m q 0) (q + 4) 0) (q + 8) 0) \<subseteq> {a. pg a = pg q}"
    using span_page[of q 0 4] span_page[of q 4 4] span_page[of q 8 4] assms(1) by (simp add: changed_store32D)
  then show "\<forall>a \<in> changed m (store32 (store32 (store32 m q 0) (q + 4) 0) (q + 8) 0). pg a = pg q" by blast
qed

lemma clear_queue_spec:
  assumes inv: "ipc_inv k f" and i: "unat pid < MAX_PROCESSES"
  obtains k' where "ipc_clear_queue pid k = Return STATUS_SUCCESS k'" "ipc_inv k' (f(unat pid := []))"
    "\<And>j. j < MAX_PROCESSES \<Longrightarrow> j \<noteq> unat pid \<Longrightarrow> inbox k' (f(unat pid := [])) j = inbox k f j"
    "used (k_mm k') = used (k_mm k) - pg ` set (f (unat pid))"
proof -
  note I = ipc_invD[OF inv i]
  define q where "q = message_queues k ! unat pid"
  have g: "\<not> pid \<ge> of_nat MAX_PROCESSES" using i by (simp add: word_le_nat_alt MAX_PROCESSES_def)
  show thesis
  proof (cases "q = 0")
    case True
    then have "f (unat pid) = []" using I(3) by (simp add: box_ok_def q_def)
    moreover from this have "f(unat pid := []) = f" by auto
    ultimately show thesis using that[of k] inv True g by (simp add: ipc_clear_queue_def q_def Let_def)
  next
    case False
    have ok: "box_ok (kmem k) q (f (unat pid))" using I(3) by (simp add: q_def)
    have rep: "mq_rep q (kmem k) (f (unat pid))" and mx: "q_max (kmem k) q = 100" using ok False by (simp_all add: box_ok_def)
    note D = mq_repD[OF rep]
    have bx: "boxp k f (unat pid) = insert (pg q) (pg ` set (f (unat pid)))" using False by (simp add: boxp_def box_pages_def q_def)
    obtain s where s: "free_chain (q_head (kmem k) q) (k_mm k) = Some s" "mm_inv s"
      "used s = used (k_mm k) - pg ` set (f (unat pid))" "mem s = kmem k"
    proof -
      have "\<forall>p \<in> set (f (unat pid)). page_aligned p \<and> p \<noteq> 0 \<and> pg p \<in> used (k_mm k)" using D(7,8) I(4) bx by blast
      then show thesis using that free_chain_spec[OF I(1) D(3)] D(4,10) by (auto simp: kmem_def)
    qed
    define m where "m = store32 (store32 (store32 (kmem k) q 0) (q + 4) 0) (q + 8) 0"
    define k' where "k' = k\<lparr>k_mm := s\<lparr>mem := m\<rparr>\<rparr>"
    have k': "kmem k' = m" "used (k_mm k') = used (k_mm k) - pg ` set (f (unat pid))" "mm_inv (k_mm k')"
      "message_queues k' = (message_queues k)[unat pid := q]"
      using s(2,3) by (simp_all add: k'_def kmem_def used_def mm_inv_def q_def)
    have ok': "box_ok (kmem k') q []" and ch: "\<forall>a \<in> changed (kmem k) (kmem k'). pg a = pg q"
      unfolding k'(1) m_def using emptied_header[OF D(1) False mx] by blast+
    have qn: "pg q \<notin> pg ` set (f (unat pid))" using pg_inj[of q] D(1,7,9) by fastforce
    have bu: "box_pages q [] \<subseteq> used (k_mm k')" using I(4) bx qn False k'(2) by (auto simp: box_pages_def)
    have ot: "boxp k f j \<subseteq> used (k_mm k') \<and> boxp k f j \<inter> box_pages q [] = {} \<and>
        (\<forall>a \<in> changed (kmem k) (kmem k'). pg a \<notin> boxp k f j)" if "j < MAX_PROCESSES" "j \<noteq> unat pid" for j
    proof -
      have "boxp k f (unat pid) \<inter> boxp k f j = {}" using I(5)[OF that(1)] that(2) by blast
      then show ?thesis using ch ipc_invD(4)[OF inv that(1)] unfolding k'(2) bx by (auto simp: box_pages_def)
    qed
    have e: "ipc_clear_queue pid k = Return STATUS_SUCCESS k'"
      using g False s(1,4) by (simp add: ipc_clear_queue_def Let_def q_def[symmetric] do_mm_def m_def k'_def set_mem_def kmem_def)
    note up = ipc_inv_update[OF inv i k'(4,3) ok' bu ot]
    show thesis by (rule that[OF e]) (use up k'(2) in auto)
  qed
qed

section \<open>Concrete mailboxes\<close>

lemma demo_queue: "i < MAX_PROCESSES \<Longrightarrow> message_queues demo_kernel ! i = 0" "length (message_queues demo_kernel) = MAX_PROCESSES"
  by (simp_all add: demo_kernel_def MAX_PROCESSES_def)

lemma demo_ipc_inv: "ipc_inv demo_kernel (\<lambda>_. [])"
  unfolding ipc_inv_def boxp_def using demo_queue by (auto simp: box_ok_def box_pages_def)

lemma demo_buffer: "user_buffer demo_kernel (\<lambda>_. []) 16"
proof -
  have "span 16 284 \<subseteq> {a. pg a = pg 0}" using span_page[of 0 16 284] by (simp add: page_aligned_def)
  then have "pg a = 0" if "a \<in> span 16 284" for a using that by (auto simp: pg_def)
  then show ?thesis using demo_queue by (simp add: user_buffer_def user_page_def boxp_def box_pages_def)
qed

lemma demo_avail: "2 \<le> avail demo_mm"
  using avail_bound[of demo_mm 1] by simp

lemma demo_size: "msg_size (kmem demo_kernel) 16 = 0"
  by (simp add: msg_size_def kmem_def load32_def demo_mm_def)

lemma demo_find2: "scheduler_find_process 2 demo_sched = Some (Some 1)"
  using find_process_spec[OF demo_sched_inv, of 2] by (simp add: demo_sched_def)

lemma demo_ready: "p_state (pcb_of demo_kernel 1) \<noteq> PROCESS_BLOCKED"
  by (simp add: pcb_of_def demo_sched_def)

lemma pid2: "unat (2 :: u32) < MAX_PROCESSES"
  by (simp add: MAX_PROCESSES_def)

lemma demo_inbox: "inbox demo_kernel (\<lambda>_. []) i = []"
  by (simp add: inbox_def)

lemmas demo_send = demo_ipc_inv pid2 demo_buffer

section \<open>Properties\<close>

text \<open>
  C16: \<^verbatim>\<open>ipc_send\<close> to a process that is running or ready, with two pages free, appends exactly one message to its mailbox:
  the caller's type, flags and data with the identity, sender, receiver and time set by the kernel. A
  mailbox of 100 messages first gives up its oldest one. The other mailboxes, the scheduler, the
  caller's message and every caller's buffer are unchanged, and the queues stay well linked in pages of their own.
\<close>

theorem send_appends_message:
  assumes "ipc_inv k f" and "unat pid < MAX_PROCESSES" and "user_buffer k f um"
    and "unat (msg_size (kmem k) um) \<le> 256" and "2 \<le> avail (k_mm k)"
    and "scheduler_find_process pid (k_sched k) = Some (Some r)" and "p_state (pcb_of k r) \<noteq> PROCESS_BLOCKED"
  shows "\<exists>k' f'. ipc_send pid um k = Return STATUS_SUCCESS k' \<and> ipc_inv k' f' \<and>
    inbox k' f' (unat pid) = trim (inbox k f (unat pid)) @ [sent_message k pid um] \<and>
    (\<forall>j < MAX_PROCESSES. j \<noteq> unat pid \<longrightarrow> inbox k' f' j = inbox k f j) \<and>
    next_msg_id k' = next_msg_id k + 1 \<and> k_sched k' = k_sched k \<and> umsg (kmem k') um = umsg (kmem k) um"
proof (rule send_spec[OF assms])
  fix k' p
  let ?f = "f(unat pid := trim (f (unat pid)) @ [p])"
  assume *: "ipc_send pid um k = Return STATUS_SUCCESS k'" "ipc_inv k' ?f"
    "inbox k' ?f (unat pid) = trim (inbox k f (unat pid)) @ [sent_message k pid um]"
    "\<And>j. j < MAX_PROCESSES \<Longrightarrow> j \<noteq> unat pid \<Longrightarrow> inbox k' ?f j = inbox k f j"
    "next_msg_id k' = next_msg_id k + 1" "k_sched k' = k_sched k"
    and keep: "\<And>a. a \<in> changed (kmem k) (kmem k') \<Longrightarrow> \<not> user_page k f (pg a)"
  have "umsg (kmem k') um = umsg (kmem k) um" by (rule user_bytes_kept[OF keep assms(3,4)])
  with * show ?thesis by blast
qed

theorem send_appends_message_witness:
  "\<exists>k' f'. ipc_send 2 16 demo_kernel = Return STATUS_SUCCESS k' \<and> ipc_inv k' f' \<and>
    inbox k' f' 2 = [sent_message demo_kernel 2 16]"
  using send_appends_message[OF demo_send _ _ _ demo_ready] demo_size demo_avail demo_find2
  by (auto simp: demo_inbox trim_def)

text \<open>
  C17: \<^verbatim>\<open>ipc_receive\<close> is first in, first out per sender. When the mailbox of the current process holds a message of the
  requested sender (any, for 0), the first such message is copied to the caller's buffer with its data,
  leaves the mailbox and gives its page back; the other messages and mailboxes stay. When there is none, a
  call that does not block returns \<^verbatim>\<open>STATUS_NOT_FOUND\<close> and changes nothing.
\<close>

theorem receive_takes_first:
  assumes "ipc_inv k f" and "current_of k = Some r" and "pid = unat (p_pid (pcb_of k r))" and "pid < MAX_PROCESSES"
    and "user_buffer k f um"
  shows "case find (accepts sender) (inbox k f pid) of
      None \<Rightarrow> ipc_receive sender um False k = Return STATUS_NOT_FOUND k
    | Some msg \<Rightarrow> (\<exists>k' f'. ipc_receive sender um block k = Return STATUS_SUCCESS k' \<and> umsg (kmem k') um = msg \<and>
        ipc_inv k' f' \<and> inbox k' f' pid = remove_first (accepts sender) (inbox k f pid) \<and>
        (\<forall>j < MAX_PROCESSES. j \<noteq> pid \<longrightarrow> inbox k' f' j = inbox k f j) \<and>
        Suc (card (used (k_mm k'))) = card (used (k_mm k)))"
proof (cases "find (accepts sender) (inbox k f pid)")
  case None
  then show ?thesis
    using find_in_queue_spec[OF assms(1), of "p_pid (pcb_of k r)" sender] assms(2-4) by (simp add: ipc_receive_def)
next
  case (Some msg)
  show ?thesis unfolding Some option.case assms(3)
    by (rule receive_spec[OF assms(1,2) _ assms(5), of sender msg block]) (use assms(3,4) Some in auto)
qed

lemma demo_current: "current_of demo_kernel = Some 0" "p_pid (pcb_of demo_kernel 0) = 1"
  by (simp_all add: current_of_def scheduler_get_current_def demo_sched_def pcb_of_def)

theorem receive_takes_first_witness:
  "ipc_receive 0 16 False demo_kernel = Return STATUS_NOT_FOUND demo_kernel"
  using receive_takes_first[OF demo_ipc_inv demo_current(1) refl _ demo_buffer, of 0]
  by (simp add: demo_current(2) demo_inbox MAX_PROCESSES_def)

lemma ipc_inv_sched: "ipc_inv (k\<lparr>k_sched := s\<rparr>) f = ipc_inv k f" "inbox (k\<lparr>k_sched := s\<rparr>) f = inbox k f"
  "user_buffer (k\<lparr>k_sched := s\<rparr>) f b = user_buffer k f b"
  by (simp_all add: ipc_inv_def boxp_def kmem_def inbox_def user_buffer_def user_page_def fun_eq_iff)

text \<open>
  A message arrives as it was sent: if the mailbox of the receiver is empty, then after a send
  and whatever scheduling makes the receiver current, a receive from any sender or from this one
  returns the type, flags and data of the sender's message, with the sender's identifier, and the mailbox is empty again.
\<close>

lemma send_receive_roundtrip:
  assumes "ipc_inv k f" and "unat pid < MAX_PROCESSES" and "inbox k f (unat pid) = []"
    and "user_buffer k f um" and "unat (msg_size (kmem k) um) \<le> 256" and "2 \<le> avail (k_mm k)"
    and "scheduler_find_process pid (k_sched k) = Some (Some r)" and "p_state (pcb_of k r) \<noteq> PROCESS_BLOCKED"
    and "user_buffer k f rm" and "scheduler_get_current s = Some c" and "p_pid (pcbs s c) = pid"
    and "sender = 0 \<or> sender = current_pid k"
  shows "\<exists>k1 k2 f2. ipc_send pid um k = Return STATUS_SUCCESS k1 \<and>
    ipc_receive sender rm block (k1\<lparr>k_sched := s\<rparr>) = Return STATUS_SUCCESS k2 \<and>
    umsg (kmem k2) rm = sent_message k pid um \<and> ipc_inv k2 f2 \<and> inbox k2 f2 (unat pid) = []"
proof -
  obtain k1 p where k1: "ipc_send pid um k = Return STATUS_SUCCESS k1" "ipc_inv k1 (f(unat pid := trim (f (unat pid)) @ [p]))"
    "inbox k1 (f(unat pid := trim (f (unat pid)) @ [p])) (unat pid) = trim (inbox k f (unat pid)) @ [sent_message k pid um]"
    and up: "\<And>n. user_page k f n \<Longrightarrow> user_page k1 (f(unat pid := trim (f (unat pid)) @ [p])) n"
    by (rule send_spec[OF assms(1,2,4-8)]) blast
  have ib: "inbox k1 (f(unat pid := trim (f (unat pid)) @ [p])) (unat pid) = [sent_message k pid um]"
    unfolding k1(3) assms(3) by (simp add: trim_def)
  note buf = user_buffer_kept[OF up assms(9)]
  let ?k = "k1\<lparr>k_sched := s\<rparr>"
  have pid: "p_pid (pcb_of ?k c) = pid" "current_of ?k = Some c" using assms(10,11) by (simp_all add: pcb_of_def current_of_def)
  have acc: "accepts sender (sent_message k pid um)" using assms(12) by (auto simp: accepts_def sent_message_def)
  obtain k2 f2 where "ipc_receive sender rm block ?k = Return STATUS_SUCCESS k2" "umsg (kmem k2) rm = sent_message k pid um"
    "ipc_inv k2 f2" "inbox k2 f2 (unat pid) = []"
    by (rule receive_spec[of ?k "f(unat pid := trim (f (unat pid)) @ [p])" c rm sender "sent_message k pid um" block])
      (use k1(2) ib buf pid assms(2) acc in \<open>auto simp: ipc_inv_sched\<close>)
  with k1(1) show ?thesis by blast
qed

lemma send_receive_roundtrip_witness:
  "\<exists>k1 k2. ipc_send 2 16 demo_kernel = Return STATUS_SUCCESS k1 \<and>
    ipc_receive 1 16 True (k1\<lparr>k_sched := demo_sched\<lparr>current_process := Some 1\<rparr>\<rparr>) = Return STATUS_SUCCESS k2 \<and>
    umsg (kmem k2) 16 = sent_message demo_kernel 2 16"
  using send_receive_roundtrip[OF demo_ipc_inv pid2 _ demo_buffer _ _ _ demo_ready demo_buffer,
      of "demo_sched\<lparr>current_process := Some 1\<rparr>" 1 1 True]
    demo_size demo_avail demo_find2 demo_current
  by (auto simp: demo_inbox scheduler_get_current_def demo_sched_def current_pid_def)

text \<open>
  C34: A process that is blocked cannot be sent a message: \<^verbatim>\<open>ipc_send\<close> looks the receiver up among the current and
  the ready processes only, so for a blocked receiver it returns \<^verbatim>\<open>STATUS_NOT_FOUND\<close> and the call of
  \<^verbatim>\<open>ipc_wakeup_receiver\<close> is never reached. A process that blocks in \<^verbatim>\<open>ipc_receive\<close> is not woken by a send.
\<close>

theorem send_to_blocked_not_found:
  assumes "sched_inv (k_sched k) xs" and "\<And>x. p_pid (pcb_of k x) = pid \<Longrightarrow> x = p"
    and "p_state (pcb_of k p) = PROCESS_BLOCKED" and "current_of k \<noteq> Some p" and "um \<noteq> 0"
  shows "ipc_send pid um k = Return STATUS_NOT_FOUND k"
proof -
  have "p \<notin> set xs" using assms(1,3) by (auto simp: sched_inv_def pcb_of_def)
  then have "find (\<lambda>x. p_pid (pcbs (k_sched k) x) = pid)
      (case current_process (k_sched k) of None \<Rightarrow> xs | Some c \<Rightarrow> c # xs) = None"
    using assms(2,4) unfolding find_None_iff pcb_of_def current_of_def scheduler_get_current_def
    by (auto split: option.splits)
  then show ?thesis
    using find_process_spec[OF assms(1), of pid] assms(5) by (simp add: ipc_send_def find_process_def)
qed

definition blocked_kernel :: kernel where
  "blocked_kernel = demo_kernel\<lparr>k_sched := upd_pcb 5 (\<lambda>c. c\<lparr>p_pid := 7, p_state := PROCESS_BLOCKED\<rparr>) demo_sched\<rparr>"

lemma blocked_sched_inv: "sched_inv (k_sched blocked_kernel) [1, 2]"
  by (auto simp: blocked_kernel_def demo_sched_def sched_inv_def queue_rep_def zero_pcb_def upd_pcb_def)

theorem send_to_blocked_not_found_witness:
  "ipc_send 7 16 blocked_kernel = Return STATUS_NOT_FOUND blocked_kernel"
  by (rule send_to_blocked_not_found[OF blocked_sched_inv, of 7 5])
    (auto simp: blocked_kernel_def pcb_of_def upd_pcb_def demo_sched_def zero_pcb_def current_of_def
      scheduler_get_current_def split: if_splits)

lemma alloc_none:
  assumes "mm_inv s" "avail s = 0"
  shows "memory_alloc_pages 1 s = Some (0, s)"
proof -
  have "n \<in> used s" if "n < 4095" for n using assms(2) that by (auto simp: avail_def)
  then have full: "\<not> free_run (used s) 1 n" if "n < 4095" for n using that by (simp add: free_run_def)
  have "wf_bitmap (page_bitmap s)" using assms(1) by (simp add: mm_inv_def)
  from this one_page show ?thesis
  proof (cases rule: alloc_cases)
    case (success n bm)
    then show ?thesis using full[of n] by simp
  qed
qed

text \<open>
  A send that finds memory for the message but none for the queue header reports success and
  loses the message: with one page left and no queue yet, \<^verbatim>\<open>ipc_send\<close> returns \<^verbatim>\<open>STATUS_SUCCESS\<close>, no
  mailbox has changed, the receiver still has no queue, and the page is gone.
\<close>

lemma send_loses_message:
  assumes "ipc_inv k f" and "unat pid < MAX_PROCESSES" and "user_buffer k f um"
    and "unat (msg_size (kmem k) um) \<le> 256" and "avail (k_mm k) = 1" and "message_queues k ! unat pid = 0"
    and "scheduler_find_process pid (k_sched k) = Some (Some r)" and "p_state (pcb_of k r) \<noteq> PROCESS_BLOCKED"
  shows "\<exists>k'. ipc_send pid um k = Return STATUS_SUCCESS k' \<and> ipc_inv k' f \<and>
    (\<forall>j < MAX_PROCESSES. inbox k' f j = inbox k f j) \<and> message_queues k' ! unat pid = 0 \<and>
    avail (k_mm k') = 0"
proof -
  have "0 < avail (k_mm k)" using assms(5) by simp
  from write_message_spec[OF assms(1,3,4) this, of pid] obtain p s k1
    where al: "memory_alloc_pages 1 (k_mm k) = Some (p, s)" "mem s = mem (k_mm k)" and p: "p \<noteq> 0" "pg p < 4095" "pg p \<notin> used (k_mm k)"
      and k1: "k1 = with_message p s pid um k" and u1: "used (k_mm k1) = insert (pg p) (used (k_mm k))"
      and inv1: "ipc_inv k1 f" and ib: "\<And>j. j < MAX_PROCESSES \<Longrightarrow> inbox k1 f j = inbox k f j" by metis
  have same: "message_queues k1 = message_queues k" "k_sched k1 = k_sched k" by (simp_all add: k1 with_message_def)
  have av: "avail (k_mm k1) = 0" using avail_insert[OF p(2,3) u1] assms(5) by simp
  have q: "queue_of pid k1 = Some 0" using assms(2,6) ipc_invD(2)[OF inv1 assms(2)] same by (simp add: queue_of_def)
  have "k1\<lparr>message_queues := (message_queues k1)[unat pid := 0]\<rparr> = k1"
    using assms(6) same list_update_id[of "message_queues k1" "unat pid"] by simp
  then have add: "ipc_add_to_queue pid p k1 = Return () k1"
    using alloc_none[OF ipc_invD(1)[OF inv1 assms(2)] av] p(1) q by (simp add: ipc_add_to_queue_def on_mm_def Let_def)
  have "ipc_send pid um k = Return STATUS_SUCCESS k1"
    by (rule send_reaches_queue[OF _ assms(4,7,8) al(1) p(1) al(2)])
      (use assms(3) add same in \<open>simp_all add: k1 with_message_def user_buffer_def\<close>)
  then show ?thesis using inv1 ib same assms(6) av by auto
qed

definition full_mm :: mm where
  "full_mm = demo_mm\<lparr>page_bitmap := NOT (push_bit 5 1) # replicate 127 (- 1)\<rparr>"

lemma used_full: "used full_mm = {..<4096} - {5}"
proof -
  have a: "bit (- 1 :: u32) n" and b: "bit (NOT (push_bit 5 1) :: u32) n \<longleftrightarrow> n \<noteq> 5" if "n < 32" for n
    using that by (simp_all only: bit_minus_1_iff bit_not_iff bit_push_bit_iff bit_1_iff possible_bit_word) auto
  have "p \<in> used full_mm \<longleftrightarrow> p < 4096 \<and> p \<noteq> 5" for p
  proof (cases "p div 32")
    case 0
    then have "p < 32" by (simp add: div_eq_0_iff)
    then show ?thesis using b[of p] by (auto simp: used_def bits_of_def full_mm_def)
  next
    case (Suc d)
    have p: "p div 32 < 128 \<longleftrightarrow> p < 4096" by (simp add: div_less_iff_less_mult)
    have "p \<noteq> 5" using Suc by auto
    then show ?thesis using a[of "p mod 32"] Suc p by (auto simp: used_def bits_of_def full_mm_def)
  qed
  then show ?thesis by auto
qed

lemma full_mm_inv: "mm_inv full_mm" "avail full_mm = 1"
proof -
  show "mm_inv full_mm" using used_full by (simp add: mm_inv_def wf_bitmap_def full_mm_def)
  have "{..<4095} - used full_mm = {5}" unfolding used_full by auto
  then show "avail full_mm = 1" by (simp add: avail_def)
qed

lemma send_loses_message_witness:
  "\<exists>k'. ipc_send 2 16 (demo_kernel\<lparr>k_mm := full_mm\<rparr>) = Return STATUS_SUCCESS k' \<and> message_queues k' ! 2 = 0 \<and>
    inbox k' (\<lambda>_. []) 2 = []"
proof -
  let ?k = "demo_kernel\<lparr>k_mm := full_mm\<rparr>"
  have q: "message_queues ?k ! i = 0" if "i < MAX_PROCESSES" for i using demo_queue(1)[OF that] by simp
  have inv: "ipc_inv ?k (\<lambda>_. [])"
    unfolding ipc_inv_def boxp_def using demo_queue full_mm_inv by (auto simp: box_ok_def box_pages_def)
  have buf: "user_buffer ?k (\<lambda>_. []) 16"
    using demo_buffer q used_full by (auto simp: user_buffer_def user_page_def boxp_def box_pages_def)
  have sz: "msg_size (kmem ?k) 16 = 0" using demo_size by (simp add: kmem_def full_mm_def)
  have st: "p_state (pcb_of ?k 1) \<noteq> PROCESS_BLOCKED" using demo_ready by (simp add: pcb_of_def)
  from send_loses_message[OF inv pid2 buf _ _ _ _ st] sz full_mm_inv(2) q[of 2] demo_find2 pid2
  show ?thesis by (auto simp: inbox_def)
qed

text \<open>
  C33: \<^verbatim>\<open>ipc_clear_queue\<close> ends and empties one mailbox: every message page of that mailbox and no other page goes
  back to the allocator, the queue stays usable, and the other mailboxes keep their messages.
\<close>

theorem clear_queue_frees_messages:
  assumes "ipc_inv k f" and "unat pid < MAX_PROCESSES"
  shows "\<exists>k'. ipc_clear_queue pid k = Return STATUS_SUCCESS k' \<and> ipc_inv k' (f(unat pid := [])) \<and>
    (\<forall>j < MAX_PROCESSES. j \<noteq> unat pid \<longrightarrow> inbox k' (f(unat pid := [])) j = inbox k f j) \<and>
    used (k_mm k') = used (k_mm k) - pg ` set (f (unat pid))"
  by (rule clear_queue_spec[OF assms]) blast

theorem clear_queue_frees_messages_witness:
  "\<exists>k1 k2. ipc_send 2 16 demo_kernel = Return STATUS_SUCCESS k1 \<and>
    ipc_clear_queue 2 k1 = Return STATUS_SUCCESS k2 \<and> (\<exists>f. ipc_inv k2 f \<and> f 2 = [])"
proof -
  obtain k1 p where k1: "ipc_send 2 16 demo_kernel = Return STATUS_SUCCESS k1"
    "ipc_inv k1 ((\<lambda>_. [])(unat (2 :: u32) := trim [] @ [p]))"
    by (rule send_spec[OF demo_send _ _ _ demo_ready]) (use demo_size demo_avail demo_find2 in auto)
  from clear_queue_frees_messages[OF k1(2) pid2] obtain k2
    where "ipc_clear_queue 2 k1 = Return STATUS_SUCCESS k2" "ipc_inv k2 ((\<lambda>_. [])(2 := []))" by auto
  then show ?thesis using k1(1) by (intro exI[of _ k1] exI[of _ k2]) auto
qed

end
