(* ===== verification/Hal_Cpu.thy ===== *)
theory Hal_Cpu
  imports Kernel_State
begin

text \<open>
  Processor control, \<^verbatim>\<open>hal/cpu.c\<close>. What the processor answers is a parameter: its flags register, whether it has the CPUID
  instruction (on a processor without it bit 21 of the flags cannot be changed), the feature word of leaf 1, the cycle
  counter, and the page fault address. Executing CPUID on a processor that has none is an invalid opcode and has no result.
\<close>

record processor =
  eflags0 :: u32
  has_cpuid :: bool
  cpuid1_edx :: u32
  tsc :: "64 word"
  cr2 :: u32
  cs_reg :: u16

abbreviation CPU_FEAT_FPU :: u32 where "CPU_FEAT_FPU \<equiv> 0x01"
abbreviation CPU_FEAT_MMX :: u32 where "CPU_FEAT_MMX \<equiv> 0x02"
abbreviation CPU_FEAT_SSE :: u32 where "CPU_FEAT_SSE \<equiv> 0x04"
abbreviation CPU_FEAT_SSE2 :: u32 where "CPU_FEAT_SSE2 \<equiv> 0x08"
abbreviation CPU_FEAT_APIC :: u32 where "CPU_FEAT_APIC \<equiv> 0x10"

text \<open>
  The first assembly block: read the flags, toggle bit 21, write them and read them back; \<^verbatim>\<open>sete\<close> replaces the low byte of
  the value read back by whether the two reads agree.
\<close>

definition cpuid_probe :: "processor \<Rightarrow> u32" where
  "cpuid_probe p =
     (let ebx = eflags0 p;
          eax = (if has_cpuid p then ebx XOR 0x200000 else ebx)
      in (eax AND NOT 0xFF) OR (if eax = ebx then 1 else 0))"

definition hal_cpu_get_features :: "processor \<Rightarrow> u32 option" where
  "hal_cpu_get_features p =
     (if cpuid_probe p = 0 then Some 0
      else if \<not> has_cpuid p then None
      else
        let edx = cpuid1_edx p;
            f = 0;
            f = (if edx AND push_bit 0 1 \<noteq> 0 then f OR CPU_FEAT_FPU else f);
            f = (if edx AND push_bit 23 1 \<noteq> 0 then f OR CPU_FEAT_MMX else f);
            f = (if edx AND push_bit 25 1 \<noteq> 0 then f OR CPU_FEAT_SSE else f);
            f = (if edx AND push_bit 26 1 \<noteq> 0 then f OR CPU_FEAT_SSE2 else f);
            f = (if edx AND push_bit 9 1 \<noteq> 0 then f OR CPU_FEAT_APIC else f)
        in Some f)"

definition hal_cpu_init :: "processor \<Rightarrow> kernel \<Rightarrow> kernel option" where
  "hal_cpu_init p k = (case hal_cpu_get_features p of None \<Rightarrow> None | Some f \<Rightarrow> Some (k\<lparr>cpu_features := f\<rparr>))"

definition hal_cpu_get_cycles :: "processor \<Rightarrow> kernel \<Rightarrow> 64 word" where
  "hal_cpu_get_cycles p k =
     (if cpu_features k AND CPU_FEAT_APIC \<noteq> 0
      then let low = (ucast (tsc p) :: u32); high = (ucast (drop_bit 32 (tsc p)) :: u32)
           in push_bit 32 (ucast high) OR ucast low
      else 0)"

definition hal_cpu_get_cr0 :: "kernel \<Rightarrow> u32" where "hal_cpu_get_cr0 k = cr0 (k_mm k)"
definition hal_cpu_get_cr2 :: "processor \<Rightarrow> u32" where "hal_cpu_get_cr2 p = cr2 p"
definition hal_cpu_get_cr3 :: "kernel \<Rightarrow> u32" where "hal_cpu_get_cr3 k = cr3 (k_mm k)"

definition hal_cpu_enable_interrupts :: "kernel \<Rightarrow> kernel" where
  "hal_cpu_enable_interrupts k = k\<lparr>int_flag := True\<rparr>"

definition hal_cpu_disable_interrupts :: "kernel \<Rightarrow> kernel" where
  "hal_cpu_disable_interrupts k = k\<lparr>int_flag := False\<rparr>"

definition hal_cpu_get_cpl :: "processor \<Rightarrow> u32" where
  "hal_cpu_get_cpl p = ucast (cs_reg p) AND 0x3"

definition hal_cpu_load_tr :: "u16 \<Rightarrow> kernel \<Rightarrow> kernel" where
  "hal_cpu_load_tr selector k = k\<lparr>k_segs := (k_segs k)\<lparr>task_reg := selector\<rparr>\<rparr>"

definition hal_cpu_store_tr :: "kernel \<Rightarrow> u16" where
  "hal_cpu_store_tr k = task_reg (k_segs k)"

section \<open>Features\<close>

text \<open>The features as a set of bit positions of the feature word.\<close>

definition feature_bit :: "nat \<Rightarrow> nat option" where
  "feature_bit i = (if i = 0 then Some 0 else if i = 1 then Some 23 else if i = 2 then Some 25 else if i = 3 then Some 26
     else if i = 4 then Some 9 else None)"

lemma and_push_bit: "(w AND push_bit n 1 \<noteq> 0) = bit (w :: u32) n" if "n < 32"
  using that by (auto simp: bit_iff_and_push_bit_not_eq_0)

lemma cycles_tsc: "push_bit 32 (ucast (ucast (drop_bit 32 t) :: u32)) OR ucast (ucast t :: u32) = t" for t :: "64 word"
proof (rule bit_word_eqI)
  fix n assume "n < LENGTH(64)"
  then show "bit (push_bit 32 (ucast (ucast (drop_bit 32 t) :: u32)) OR ucast (ucast t :: u32) :: 64 word) n = bit t n"
    by (cases "n < 32") (auto simp: bit_simps)
qed

lemma bit_int_power: "bit (2 :: int) i \<longleftrightarrow> i = 1" "bit (4 :: int) i \<longleftrightarrow> i = 2" "bit (8 :: int) i \<longleftrightarrow> i = 3" "bit (16 :: int) i \<longleftrightarrow> i = 4"
proof -
  have "(2 :: int) = push_bit 1 1" "(4 :: int) = push_bit 2 1" "(8 :: int) = push_bit 3 1" "(16 :: int) = push_bit 4 1" by simp_all
  then show "bit (2 :: int) i \<longleftrightarrow> i = 1" "bit (4 :: int) i \<longleftrightarrow> i = 2" "bit (8 :: int) i \<longleftrightarrow> i = 3" "bit (16 :: int) i \<longleftrightarrow> i = 4"
    by (simp_all only: bit_push_bit_iff bit_1_iff) auto
qed

lemma features_bits:
  assumes "has_cpuid p" "\<not> bit (eflags0 p) 21"
  shows "\<exists>f. hal_cpu_get_features p = Some f \<and> (\<forall>i. bit f i \<longleftrightarrow> (\<exists>j. feature_bit i = Some j \<and> bit (cpuid1_edx p) j))"
proof -
  have m: "(0x200000 :: u32) = push_bit 21 1" "(0xFF :: u32) = mask 8" by (simp_all add: mask_eq_exp_minus_1)
  have "bit (cpuid_probe p) 21"
    using assms unfolding cpuid_probe_def Let_def m by (simp add: bit_simps)
  then have nz: "cpuid_probe p \<noteq> 0" by auto
  have t: "(w AND push_bit 0 1 \<noteq> 0) = bit w 0" "(w AND push_bit 23 1 \<noteq> 0) = bit w 23" "(w AND push_bit 25 1 \<noteq> 0) = bit w 25"
    "(w AND push_bit 26 1 \<noteq> 0) = bit w 26" "(w AND push_bit 9 1 \<noteq> 0) = bit w 9" for w :: u32
    by (rule and_push_bit, simp)+
  let ?b = "\<lambda>n v. if bit (cpuid1_edx p) n then v else (0 :: u32)"
  have f: "hal_cpu_get_features p = Some (?b 0 (push_bit 0 1) OR ?b 23 (push_bit 1 1) OR ?b 25 (push_bit 2 1) OR ?b 26 (push_bit 3 1) OR ?b 9 (push_bit 4 1))"
    using nz assms(1) unfolding hal_cpu_get_features_def Let_def t by simp
  show ?thesis
    unfolding f by (auto simp: feature_bit_def bit_simps bit_int_power split: if_splits)
qed

section \<open>Properties\<close>

text \<open>
  The CPUID check is inverted. On a processor without the instruction the probe is never 0 (\<^verbatim>\<open>sete\<close> puts a 1 there), so
  \<^verbatim>\<open>hal_cpu_get_features\<close> goes on to execute CPUID, an invalid opcode. On a processor that has it and whose ID flag
  was clear the answer is right: exactly the five features whose bits the processor reports.
\<close>

lemma cpuid_check_inverted:
  "if has_cpuid p
   then \<not> bit (eflags0 p) 21 \<longrightarrow>
     (\<exists>f. hal_cpu_get_features p = Some f \<and> (\<forall>i. bit f i \<longleftrightarrow> (\<exists>j. feature_bit i = Some j \<and> bit (cpuid1_edx p) j)))
   else hal_cpu_get_features p = None"
proof (cases "has_cpuid p")
  case True
  then show ?thesis using features_bits by auto
next
  case False
  have "bit (cpuid_probe p) 0" using False by (simp add: cpuid_probe_def Let_def bit_simps)
  then have "cpuid_probe p \<noteq> 0" by auto
  then show ?thesis using False by (simp add: hal_cpu_get_features_def)
qed

definition demo_cpu_old :: processor where
  "demo_cpu_old = \<lparr>eflags0 = 0x202, has_cpuid = False, cpuid1_edx = 0, tsc = 0, cr2 = 0, cs_reg = 8\<rparr>"

definition demo_cpu_new :: processor where
  "demo_cpu_new = \<lparr>eflags0 = 0x202, has_cpuid = True, cpuid1_edx = 0x201, tsc = 0, cr2 = 0, cs_reg = 8\<rparr>"

lemma cpuid_check_inverted_witness:
  "hal_cpu_get_features demo_cpu_old = None \<and> (\<exists>f. hal_cpu_get_features demo_cpu_new = Some f \<and> bit f 0 \<and> bit f 4 \<and> \<not> bit f 2)"
proof -
  have "\<not> bit (0x202 :: u32) 21" "bit (0x201 :: u32) 0" "bit (0x201 :: u32) 9" "\<not> bit (0x201 :: u32) 25" by simp_all
  then show ?thesis
    using cpuid_check_inverted[of demo_cpu_old] cpuid_check_inverted[of demo_cpu_new]
    by (auto simp: demo_cpu_old_def demo_cpu_new_def feature_bit_def)
qed

end
