(* ===== verification/Syscall.thy ===== *)
theory Syscall
  imports Mailbox Hal_Cpu
begin

text \<open>
  System calls, \<^verbatim>\<open>kernel/syscall.c\<close>. The trap frame is the block of words that the assembly entry has pushed on the kernel
  stack, so the dispatcher reads the arguments from memory at \<open>frame\<close> and writes the result back there. A string argument is
  read from memory up to its terminating zero byte; a memory without a zero byte has no result. Pointers that a user passes are
  used as they are: the scheduler never changes the page directory register, and every directory maps the kernel's memory at its own addresses.
\<close>

section \<open>The trap frame\<close>

abbreviation (input) FRAME_GS :: u32 where "FRAME_GS \<equiv> 0"
abbreviation (input) FRAME_FS :: u32 where "FRAME_FS \<equiv> 4"
abbreviation (input) FRAME_ES :: u32 where "FRAME_ES \<equiv> 8"
abbreviation (input) FRAME_DS :: u32 where "FRAME_DS \<equiv> 12"
abbreviation (input) FRAME_EBX :: u32 where "FRAME_EBX \<equiv> 32"
abbreviation (input) FRAME_EDX :: u32 where "FRAME_EDX \<equiv> 36"
abbreviation (input) FRAME_ECX :: u32 where "FRAME_ECX \<equiv> 40"
abbreviation (input) FRAME_EAX :: u32 where "FRAME_EAX \<equiv> 44"
abbreviation (input) FRAME_INT_NO :: u32 where "FRAME_INT_NO \<equiv> 48"
abbreviation (input) FRAME_ERR_CODE :: u32 where "FRAME_ERR_CODE \<equiv> 52"
abbreviation (input) FRAME_EIP :: u32 where "FRAME_EIP \<equiv> 56"
abbreviation (input) FRAME_CS :: u32 where "FRAME_CS \<equiv> 60"
abbreviation (input) FRAME_EFLAGS :: u32 where "FRAME_EFLAGS \<equiv> 64"
abbreviation (input) FRAME_USER_ESP :: u32 where "FRAME_USER_ESP \<equiv> 68"
abbreviation (input) FRAME_USER_SS :: u32 where "FRAME_USER_SS \<equiv> 72"

definition frame_word :: "kernel \<Rightarrow> u32 \<Rightarrow> u32 \<Rightarrow> u32" where
  "frame_word k frame off = load32 (kmem k) (frame + off)"

section \<open>The numbers\<close>

abbreviation (input) SYS_PROCESS_CREATE :: u32 where "SYS_PROCESS_CREATE \<equiv> 0x01"
abbreviation (input) SYS_PROCESS_EXIT :: u32 where "SYS_PROCESS_EXIT \<equiv> 0x02"
abbreviation (input) SYS_PROCESS_YIELD :: u32 where "SYS_PROCESS_YIELD \<equiv> 0x03"
abbreviation (input) SYS_PROCESS_KILL :: u32 where "SYS_PROCESS_KILL \<equiv> 0x04"
abbreviation (input) SYS_MEMORY_ALLOC :: u32 where "SYS_MEMORY_ALLOC \<equiv> 0x10"
abbreviation (input) SYS_MEMORY_FREE :: u32 where "SYS_MEMORY_FREE \<equiv> 0x11"
abbreviation (input) SYS_MEMORY_MAP :: u32 where "SYS_MEMORY_MAP \<equiv> 0x12"
abbreviation (input) SYS_IPC_SEND :: u32 where "SYS_IPC_SEND \<equiv> 0x20"
abbreviation (input) SYS_IPC_RECEIVE :: u32 where "SYS_IPC_RECEIVE \<equiv> 0x21"
abbreviation (input) SYS_IPC_REGISTER :: u32 where "SYS_IPC_REGISTER \<equiv> 0x22"
abbreviation (input) SYS_DRIVER_REGISTER :: u32 where "SYS_DRIVER_REGISTER \<equiv> 0x30"
abbreviation (input) SYS_DRIVER_REQUEST :: u32 where "SYS_DRIVER_REQUEST \<equiv> 0x31"
abbreviation (input) SYS_SYSTEM_SHUTDOWN :: u32 where "SYS_SYSTEM_SHUTDOWN \<equiv> 0x40"
abbreviation (input) SYS_DEBUG_PRINT :: u32 where "SYS_DEBUG_PRINT \<equiv> 0x41"

section \<open>The handlers\<close>

definition sys_process_create :: "u32 \<Rightarrow> u32 \<Rightarrow> u32 \<Rightarrow> kernel \<Rightarrow> status_t outcome" where
  "sys_process_create ebx ecx edx k =
     obind (process_create (case current_of k of None \<Rightarrow> 0 | Some c \<Rightarrow> p_pid (pcb_of k c)) k) (\<lambda>proc k.
       Return (case proc of None \<Rightarrow> STATUS_ERROR | Some p \<Rightarrow> p_pid (pcb_of k p)) k)"

definition sys_process_exit :: "u32 \<Rightarrow> u32 \<Rightarrow> u32 \<Rightarrow> kernel \<Rightarrow> status_t outcome" where
  "sys_process_exit ebx ecx edx k = obind (process_exit (current_of k) ebx k) (\<lambda>_. Return STATUS_SUCCESS)"

definition sys_process_yield :: "u32 \<Rightarrow> u32 \<Rightarrow> u32 \<Rightarrow> kernel \<Rightarrow> status_t outcome" where
  "sys_process_yield ebx ecx edx k = obind (on_switch scheduler_yield k) (\<lambda>_. Return STATUS_SUCCESS)"

definition sys_process_kill :: "u32 \<Rightarrow> u32 \<Rightarrow> u32 \<Rightarrow> kernel \<Rightarrow> status_t outcome" where
  "sys_process_kill ebx ecx edx k = process_kill ebx k"

text \<open>The loop of \<^verbatim>\<open>sys_memory_alloc\<close> maps the pages at their own addresses, as \<open>map_stack\<close> does.\<close>

definition sys_memory_alloc :: "u32 \<Rightarrow> u32 \<Rightarrow> u32 \<Rightarrow> kernel \<Rightarrow> status_t outcome" where
  "sys_memory_alloc ebx ecx edx k =
     (let pages = (ebx + PAGE_SIZE - 1) div PAGE_SIZE in
      obind (on_mm (memory_alloc_pages pages) k) (\<lambda>ptr k.
      if ptr = 0 then Return STATUS_OUT_OF_MEMORY k
      else
        obind (case current_of k of
                 None \<Rightarrow> Return () k
               | Some c \<Rightarrow> do_mm (map_stack (p_page_directory (pcb_of k c)) ptr (unat pages) 0x07) k) (\<lambda>_.
        Return ptr)))"

definition sys_memory_free :: "u32 \<Rightarrow> u32 \<Rightarrow> u32 \<Rightarrow> kernel \<Rightarrow> status_t outcome" where
  "sys_memory_free ebx ecx edx k = obind (do_mm (memory_free_pages ebx 1) k) (\<lambda>_. Return STATUS_SUCCESS)"

definition sys_memory_map :: "u32 \<Rightarrow> u32 \<Rightarrow> u32 \<Rightarrow> kernel \<Rightarrow> status_t outcome" where
  "sys_memory_map ebx ecx edx k =
     obind (case current_of k of
              None \<Rightarrow> Return () k
            | Some c \<Rightarrow> do_mm (memory_map_page (p_page_directory (pcb_of k c)) ebx ecx edx) k) (\<lambda>_.
     Return STATUS_SUCCESS)"

definition sys_ipc_send :: "u32 \<Rightarrow> u32 \<Rightarrow> u32 \<Rightarrow> kernel \<Rightarrow> status_t outcome" where
  "sys_ipc_send ebx ecx edx k = ipc_send ebx ecx k"

definition sys_ipc_receive :: "u32 \<Rightarrow> u32 \<Rightarrow> u32 \<Rightarrow> kernel \<Rightarrow> status_t outcome" where
  "sys_ipc_receive ebx ecx edx k = ipc_receive ebx ecx (edx \<noteq> 0) k"

definition sys_ipc_register :: "u32 \<Rightarrow> u32 \<Rightarrow> u32 \<Rightarrow> kernel \<Rightarrow> status_t outcome" where
  "sys_ipc_register ebx ecx edx k = (case ipc_register_handler ebx ecx k of (st, k) \<Rightarrow> Return st k)"

definition sys_driver_register :: "u32 \<Rightarrow> u32 \<Rightarrow> u32 \<Rightarrow> kernel \<Rightarrow> status_t outcome" where
  "sys_driver_register ebx ecx edx k = Return STATUS_SUCCESS k"

definition sys_driver_request :: "u32 \<Rightarrow> u32 \<Rightarrow> u32 \<Rightarrow> kernel \<Rightarrow> status_t outcome" where
  "sys_driver_request ebx ecx edx k = ipc_send ebx ecx k"

definition sys_system_shutdown :: "u32 \<Rightarrow> u32 \<Rightarrow> u32 \<Rightarrow> kernel \<Rightarrow> status_t outcome" where
  "sys_system_shutdown ebx ecx edx k =
     halt_forever (print (''System shutdown requested. Halting.'' @ crlf) k)"

partial_function (option) c_string :: "memory \<Rightarrow> u32 \<Rightarrow> string option" where
  "c_string m str =
     (if m str = 0 then Some []
      else Option.bind (c_string m (str + 1)) (\<lambda>r. Some (char_of (unat (m str)) # r)))"

definition sys_debug_print :: "u32 \<Rightarrow> u32 \<Rightarrow> u32 \<Rightarrow> kernel \<Rightarrow> status_t outcome" where
  "sys_debug_print ebx ecx edx k = (case c_string (kmem k) ebx of
     None \<Rightarrow> Undef
   | Some str \<Rightarrow> Return STATUS_SUCCESS (print str k))"

section \<open>The table and the dispatcher\<close>

definition syscall_entries :: "(u32 \<times> sys_handler) list" where
  "syscall_entries =
     [(SYS_PROCESS_CREATE, Sys_process_create), (SYS_PROCESS_EXIT, Sys_process_exit),
      (SYS_PROCESS_YIELD, Sys_process_yield), (SYS_PROCESS_KILL, Sys_process_kill),
      (SYS_MEMORY_ALLOC, Sys_memory_alloc), (SYS_MEMORY_FREE, Sys_memory_free), (SYS_MEMORY_MAP, Sys_memory_map),
      (SYS_IPC_SEND, Sys_ipc_send), (SYS_IPC_RECEIVE, Sys_ipc_receive), (SYS_IPC_REGISTER, Sys_ipc_register),
      (SYS_DRIVER_REGISTER, Sys_driver_register), (SYS_DRIVER_REQUEST, Sys_driver_request),
      (SYS_SYSTEM_SHUTDOWN, Sys_system_shutdown), (SYS_DEBUG_PRINT, Sys_debug_print)]"

definition syscall_init :: "kernel \<Rightarrow> kernel" where
  "syscall_init k =
     (let t = foldl (\<lambda>t i. t[i := None]) (syscall_table k) [0..<256];
          t = foldl (\<lambda>t (n, h). t[unat n := Some h]) t syscall_entries
      in print (''System calls initialized'' @ crlf) (k\<lparr>syscall_table := t\<rparr>))"

fun call_handler :: "sys_handler \<Rightarrow> u32 \<Rightarrow> u32 \<Rightarrow> u32 \<Rightarrow> kernel \<Rightarrow> status_t outcome" where
  "call_handler Sys_process_create = sys_process_create"
| "call_handler Sys_process_exit = sys_process_exit"
| "call_handler Sys_process_yield = sys_process_yield"
| "call_handler Sys_process_kill = sys_process_kill"
| "call_handler Sys_memory_alloc = sys_memory_alloc"
| "call_handler Sys_memory_free = sys_memory_free"
| "call_handler Sys_memory_map = sys_memory_map"
| "call_handler Sys_ipc_send = sys_ipc_send"
| "call_handler Sys_ipc_receive = sys_ipc_receive"
| "call_handler Sys_ipc_register = sys_ipc_register"
| "call_handler Sys_driver_register = sys_driver_register"
| "call_handler Sys_driver_request = sys_driver_request"
| "call_handler Sys_system_shutdown = sys_system_shutdown"
| "call_handler Sys_debug_print = sys_debug_print"

definition syscall_trace :: "u32 \<Rightarrow> nat option \<Rightarrow> kernel \<Rightarrow> kernel" where
  "syscall_trace eax current k =
     (if eax = SYS_PROCESS_YIELD then k
      else
        let k = print_hex eax (print ''Syscall '' k);
            k = (case current of None \<Rightarrow> k | Some c \<Rightarrow> print_hex (p_pid (pcb_of k c)) (print '' from PID '' k))
        in print crlf k)"

definition syscall_dispatch :: "u32 \<Rightarrow> kernel \<Rightarrow> unit outcome" where
  "syscall_dispatch frame k =
     (let eax = frame_word k frame FRAME_EAX;
          ebx = frame_word k frame FRAME_EBX;
          ecx = frame_word k frame FRAME_ECX;
          edx = frame_word k frame FRAME_EDX;
          k = syscall_trace eax (current_of k) k
      in obind (if eax \<ge> 256 \<or> syscall_table k ! unat eax = None then Return STATUS_NOT_IMPLEMENTED k
                else call_handler (the (syscall_table k ! unat eax)) ebx ecx edx k) (\<lambda>result k.
         Return () (set_mem (store32 (kmem k) (frame + FRAME_EAX) result) k)))"

section \<open>Strings\<close>

text \<open>The string at an address: the bytes before the first zero.\<close>

lemma c_string_bytes:
  assumes "m (a + of_nat n) = 0" "\<And>i. i < n \<Longrightarrow> m (a + of_nat i) \<noteq> 0"
  shows "c_string m a = Some (map (\<lambda>i. char_of (unat (m (a + of_nat i)))) [0..<n])"
  using assms
proof (induction n arbitrary: a)
  case 0
  then show ?case by (simp add: c_string.simps)
next
  case (Suc n)
  have "c_string m (a + 1) = Some (map (\<lambda>i. char_of (unat (m (a + 1 + of_nat i)))) [0..<n])"
  proof (rule Suc.IH)
    show "m (a + 1 + of_nat n) = 0" using Suc.prems(1) by (simp add: algebra_simps)
    show "m (a + 1 + of_nat i) \<noteq> 0" if "i < n" for i using Suc.prems(2)[of "Suc i"] that by (simp add: algebra_simps)
  qed
  moreover have "m a \<noteq> 0" using Suc.prems(2)[of 0] by simp
  moreover have "map (\<lambda>i. char_of (unat (m (a + of_nat i)))) [0..<Suc n] =
      (char_of (unat (m a)) :: char) # map (\<lambda>i. char_of (unat (m (a + 1 + of_nat i)))) [0..<n]"
    by (subst upt_conv_Cons) (simp_all add: map_Suc_upt[symmetric] algebra_simps del: upt_Suc)
  ultimately show ?case by (simp add: c_string.simps[of m a] del: upt_Suc)
qed

section \<open>The table\<close>

lemma foldl_update_length: "length (foldl (\<lambda>t (n, h). t[unat n := Some h]) t es) = length t"
  by (induction es arbitrary: t) auto

lemma foldl_clear: "n \<le> length t \<Longrightarrow> foldl (\<lambda>t i. t[i := None]) t [0..<n] = replicate n None @ drop n t"
proof (induction n)
  case (Suc n)
  then have "foldl (\<lambda>t i. t[i := None]) t [0..<n] = replicate n None @ drop n t" by simp
  moreover have "drop n t = t ! n # drop (Suc n) t" using Suc.prems by (simp add: Cons_nth_drop_Suc)
  ultimately show ?case using Suc.prems by (simp add: list_update_append replicate_append_same)
qed simp

lemma foldl_update_nth:
  assumes "distinct (map fst es)" "\<And>n h. (n, h) \<in> set es \<Longrightarrow> unat n < length t" "unat j < length t"
  shows "foldl (\<lambda>t (n, h). t[unat n := Some h]) t es ! unat j = (case map_of es j of None \<Rightarrow> t ! unat j | Some h \<Rightarrow> Some h)"
  using assms
proof (induction es arbitrary: t)
  case (Cons e es)
  obtain n h where e: "e = (n, h)" by (cases e)
  have d: "n \<notin> fst ` set es" using Cons.prems(1) e by simp
  have "foldl (\<lambda>t (n, h). t[unat n := Some h]) (t[unat n := Some h]) es ! unat j =
      (case map_of es j of None \<Rightarrow> t[unat n := Some h] ! unat j | Some h \<Rightarrow> Some h)"
    using Cons.prems e by (intro Cons.IH) auto
  moreover have "unat n = unat j \<longleftrightarrow> n = j" by (simp add: word_unat_eq_iff)
  moreover have "map_of es n = None" using d by (simp add: map_of_eq_None_iff)
  ultimately show ?case using e Cons.prems(3) by (auto simp: nth_list_update split: option.splits)
qed simp

lemma syscall_entries_small: "(n, h) \<in> set syscall_entries \<Longrightarrow> n < 256"
  by (auto simp: syscall_entries_def)

lemma syscall_init_table:
  assumes "length (syscall_table k) = 256" "j < 256"
  shows "syscall_table (syscall_init k) ! unat j = map_of syscall_entries j"
proof -
  have "distinct (map fst syscall_entries)" by (simp add: syscall_entries_def)
  moreover have u: "unat j < 256" if "j < 256" for j :: u32 using that by (simp add: word_less_nat_alt)
  ultimately have "foldl (\<lambda>t (n, h). t[unat n := Some h]) (replicate 256 None) syscall_entries ! unat j =
      (case map_of syscall_entries j of None \<Rightarrow> replicate 256 None ! unat j | Some h \<Rightarrow> Some h)"
    using assms(2) syscall_entries_small by (intro foldl_update_nth) auto
  then show ?thesis
    using assms u by (simp add: syscall_init_def print_def foldl_clear Let_def split: option.splits)
qed

lemma trace_simps [simp]:
  "syscall_table (syscall_trace eax c k) = syscall_table k" "k_mm (syscall_trace eax c k) = k_mm k"
  "current_of (syscall_trace eax c k) = current_of k"
  by (auto simp: syscall_trace_def Let_def print_def print_hex_def current_of_def split: option.splits)

lemma dispatch_lookup:
  assumes "length (syscall_table k0) = 256" and "syscall_table k = syscall_table (syscall_init k0)"
  shows "syscall_dispatch frame k =
    (let eax = frame_word k frame FRAME_EAX; t = syscall_trace eax (current_of k) k in
     obind (case map_of syscall_entries eax of
              None \<Rightarrow> Return STATUS_NOT_IMPLEMENTED t
            | Some h \<Rightarrow> call_handler h (frame_word k frame FRAME_EBX) (frame_word k frame FRAME_ECX) (frame_word k frame FRAME_EDX) t)
       (\<lambda>r k'. Return () (set_mem (store32 (kmem k') (frame + FRAME_EAX) r) k')))"
proof (cases "frame_word k frame FRAME_EAX < 256")
  case True
  then show ?thesis
    using syscall_init_table[OF assms(1) True] assms(2)
    by (auto simp: syscall_dispatch_def Let_def split: option.splits)
next
  case False
  then have "map_of syscall_entries (frame_word k frame FRAME_EAX) = None"
    using syscall_entries_small by (fastforce simp: map_of_eq_None_iff)
  then show ?thesis using False by (simp add: syscall_dispatch_def Let_def not_less)
qed

section \<open>Memory calls\<close>

lemma alloc_page_count:
  assumes "unat (n :: u32) \<le> 4096 * 4096"
  shows "unat ((n + PAGE_SIZE - 1) div PAGE_SIZE) = (unat n + 4095) div 4096"
proof -
  have "n + PAGE_SIZE - 1 = n + 4095" by (simp add: algebra_simps)
  moreover have "unat (n + 4095) = unat n + 4095" using assms by (subst unat_add_small) simp_all
  ultimately show ?thesis by (simp only: unat_div) simp
qed

lemma alloc_nothing: "memory_alloc_pages 0 s = Some (0, s)"
proof -
  have "unat (PHYS_PAGES - 0) = Suc 4095" by simp
  then have "alloc_scan (page_bitmap s) 0 0 (unat (PHYS_PAGES - 0)) = Some (Some 0)" by (simp only: alloc_scan.simps) simp
  then show ?thesis by (simp add: memory_alloc_pages_def)
qed

lemma sys_alloc_cases:
  assumes cur: "current_of k = Some c" and pd: "p_page_directory (pcb_of k c) = pd"
    and rep: "aspace_rep pd (k_mm k) f" and dom: "\<And>v. v < 4096 \<Longrightarrow> f v \<noteq> None"
    and n: "0 < unat n" "unat n \<le> 4096 * 4096" and pages: "pages = (unat n + 4095) div 4096"
  obtains (full) "sys_memory_alloc n ecx edx k = Return STATUS_OUT_OF_MEMORY k"
      "\<And>j. j + pages \<le> 4095 \<Longrightarrow> \<not> free_run (used (k_mm k)) pages j"
  | (block) p s where "sys_memory_alloc n ecx edx k = Return (page_addr p) (k\<lparr>k_mm := s\<rparr>)" "0 < p" "p + pages \<le> 4095"
      "{p..<p + pages} \<inter> used (k_mm k) = {}" "used s = used (k_mm k) \<union> {p..<p + pages}"
      "aspace_rep pd s (overlay p pages True f)"
proof -
  define w where "w = (n + PAGE_SIZE - 1) div PAGE_SIZE"
  have w: "unat w = pages" using alloc_page_count[OF n(2)] by (simp add: w_def pages)
  have p0: "0 < pages" "pages \<le> 4096" using n by (simp_all add: pages)
  have inv: "mm_inv (k_mm k)" using rep by (simp add: aspace_rep_def)
  show thesis
  proof (cases "\<exists>j. j + pages \<le> 4095 \<and> free_run (used (k_mm k)) pages j")
    case True
    then obtain j where "free_run (used (k_mm k)) (unat w) j" "j + unat w \<le> 4095" using w by auto
    moreover have "0 < unat w" using w p0 by simp
    ultimately obtain p s1 where a: "memory_alloc_pages w (k_mm k) = Some (page_addr p, s1)" "0 < p" "p + unat w \<le> 4095"
      "{p..<p + unat w} \<inter> used (k_mm k) = {}" "used s1 = used (k_mm k) \<union> {p..<p + unat w}" "mm_inv s1"
      "mm_content s1 = mm_content (k_mm k)" using alloc_run[OF inv] by metis
    have rep1: "aspace_rep pd s1 f"
      using aspace_rep_mono[OF rep _ _ a(6)] mm_content_regs[OF a(7)] a(5) by auto
    have d: "f (p + i) \<noteq> None" if "i < unat w" for i using that a(3) by (intro dom) simp
    have "p + unat w \<le> 4096" using a(3) by simp
    from map_stack_rep[OF rep1 d this, of True] obtain s where
      s: "map_stack pd (page_addr p) (unat w) (map_flags True) s1 = Some s" "aspace_rep pd s (overlay p (unat w) True f)"
      "map_rest pd s = map_rest pd s1" by blast
    have nz: "page_addr p \<noteq> 0" using a(2,3) by (subst page_addr_eq_0_iff) simp_all
    have cur1: "current_of (k\<lparr>k_mm := s1\<rparr>) = Some c" "pcb_of (k\<lparr>k_mm := s1\<rparr>) = pcb_of k"
      using cur by (simp_all add: current_of_def pcb_of_def fun_eq_iff)
    have "sys_memory_alloc n ecx edx k = Return (page_addr p) (k\<lparr>k_mm := s\<rparr>)"
      using a(1) s(1) nz cur1 pd
      unfolding sys_memory_alloc_def w_def[symmetric] Let_def by (simp add: on_mm_def do_mm_def map_flags_def)
    then show thesis using a s map_rest_used[OF s(3)] w by (intro block) auto
  next
    case False
    then have no: "\<not> free_run (used (k_mm k)) pages j" if "j + pages \<le> 4095" for j using that by blast
    have "wf_bitmap (page_bitmap (k_mm k))" "unat w \<le> 4096" using inv w p0 by (simp_all add: mm_inv_def)
    then have "memory_alloc_pages w (k_mm k) = Some (0, k_mm k)"
      by (cases rule: alloc_cases) (use no w in auto)
    then have "sys_memory_alloc n ecx edx k = Return STATUS_OUT_OF_MEMORY k"
      unfolding sys_memory_alloc_def w_def[symmetric] Let_def by (simp add: on_mm_def)
    then show thesis using no by (rule full)
  qed
qed

section \<open>Properties\<close>

text \<open>
  With the table that \<^verbatim>\<open>syscall_init\<close> builds, the dispatcher is the lookup in the list of the fourteen calls: a known number
  runs its handler on the three arguments of the frame, every other number, also beyond the table, changes no state but the
  console, and in both cases the EAX word of the frame gets the result (\<^verbatim>\<open>STATUS_NOT_IMPLEMENTED\<close> for an unknown number).
\<close>

lemma syscall_dispatch_exact:
  assumes "length (syscall_table k0) = 256" and "syscall_table k = syscall_table (syscall_init k0)"
  shows "syscall_dispatch frame k =
    (let eax = frame_word k frame FRAME_EAX; t = syscall_trace eax (current_of k) k in
     obind (case map_of syscall_entries eax of
              None \<Rightarrow> Return STATUS_NOT_IMPLEMENTED t
            | Some h \<Rightarrow> call_handler h (frame_word k frame FRAME_EBX) (frame_word k frame FRAME_ECX) (frame_word k frame FRAME_EDX) t)
       (\<lambda>r k'. Return () (set_mem (store32 (kmem k') (frame + FRAME_EAX) r) k')))"
  by (rule dispatch_lookup[OF assms])

lemma syscall_dispatch_exact_witness:
  "\<exists>k'. syscall_dispatch 0x8000 (syscall_init demo_kernel) = Return () k' \<and>
     frame_word k' 0x8000 FRAME_EAX = STATUS_NOT_IMPLEMENTED"
proof -
  have "length (syscall_table demo_kernel) = 256" by (simp add: demo_kernel_def)
  moreover have "frame_word (syscall_init demo_kernel) 0x8000 FRAME_EAX = 0"
    by (simp add: frame_word_def kmem_def syscall_init_def Let_def demo_mm_def)
  moreover have "map_of syscall_entries 0 = None" by (simp add: syscall_entries_def)
  ultimately show ?thesis
    using syscall_dispatch_exact[of demo_kernel "syscall_init demo_kernel" "0x8000"]
    by (simp add: frame_word_def kmem_def set_mem_def Let_def)
qed

text \<open>
  C36: \<^verbatim>\<open>SYS_MEMORY_ALLOC\<close> of a size from 1 byte to 16 MB, called by a process whose directory maps the 16 MB of physical memory: it
  returns the address of as many consecutive pages as the size needs, all of which were free, which are now in use and mapped at
  their own addresses in the caller's directory with user rights, every other mapping being as before; or it reports
  \<^verbatim>\<open>STATUS_OUT_OF_MEMORY\<close> and changes nothing. The second happens exactly when no such run of free pages ends before the last page of
  memory: page 4095 is never handed out, so that a request that only a run up to the last page could serve fails.
\<close>

theorem sys_memory_alloc_maps:
  assumes "current_of k = Some c" and "aspace_rep (p_page_directory (pcb_of k c)) (k_mm k) f"
    and "\<forall>v < 4096. f v \<noteq> None" and "0 < unat n" and "unat n \<le> 4096 * 4096"
  shows "\<exists>pages. 4096 * (pages - 1) < unat n \<and> unat n \<le> 4096 * pages \<and>
    ((\<exists>p s. sys_memory_alloc n ecx edx k = Return (page_addr p) (k\<lparr>k_mm := s\<rparr>) \<and> 0 < p \<and> p + pages \<le> 4095 \<and>
        {p..<p + pages} \<inter> used (k_mm k) = {} \<and> used s = used (k_mm k) \<union> {p..<p + pages} \<and>
        aspace_rep (p_page_directory (pcb_of k c)) s (overlay p pages True f)) \<or>
     (sys_memory_alloc n ecx edx k = Return STATUS_OUT_OF_MEMORY k \<and>
        (\<forall>j. j + pages \<le> 4095 \<longrightarrow> \<not> free_run (used (k_mm k)) pages j)))"
proof -
  define pages where "pages = (unat n + 4095) div 4096"
  have b: "4096 * (pages - 1) < unat n" "unat n \<le> 4096 * pages" using assms(4) by (simp_all add: pages_def)
  have dom: "\<And>v. v < 4096 \<Longrightarrow> f v \<noteq> None" using assms(3) by blast
  show ?thesis
    by (rule exI[of _ pages], cases rule: sys_alloc_cases[OF assms(1) refl assms(2) dom assms(4,5) pages_def, of ecx edx])
      (use b in blast)+
qed

theorem sys_memory_alloc_maps_witness:
  "\<exists>k p k'. sys_memory_alloc 10000 0 0 k = Return (page_addr p) k' \<and>
     walk (mem (k_mm k')) (p_page_directory (pcb_of k 0)) (page_addr p) = Some (page_addr p, 6)"
proof -
  have "5 \<le> avail demo_mm" using roomy_avail[OF demo_roomy] by simp
  from process_directory[OF demo_mm_inv this] obtain d s where
    d: "aspace_rep (page_addr d) s (kernel_space 4096)" "avail demo_mm = avail s + 5" "d < 4095" "used demo_mm \<subseteq> used s"
    by (metis Un_upper1)
  define k where "k = set_pcb 0 (\<lambda>c. c\<lparr>p_page_directory := page_addr d\<rparr>) (demo_kernel\<lparr>k_mm := s\<rparr>)"
  have k: "current_of k = Some 0" "p_page_directory (pcb_of k 0) = page_addr d" "k_mm k = s"
    by (simp_all add: k_def current_of_def scheduler_get_current_def demo_sched_def)
  have "\<exists>j. j + 3 \<le> 4095 \<and> free_run (used s) 3 j"
    by (rule run_survives[of demo_mm 6 3 1]) (use d in \<open>auto simp: free_run_def\<close>)
  then obtain j where j: "j + 3 \<le> 4095" "free_run (used s) 3 j" by blast
  obtain pages where "4096 * (pages - 1) < 10000" "10000 \<le> 4096 * pages" and
    r: "(\<exists>p t. sys_memory_alloc 10000 0 0 k = Return (page_addr p) (k\<lparr>k_mm := t\<rparr>) \<and> 0 < p \<and> p + pages \<le> 4095 \<and>
        aspace_rep (page_addr d) t (overlay p pages True (kernel_space 4096))) \<or>
     (\<forall>j. j + pages \<le> 4095 \<longrightarrow> \<not> free_run (used s) pages j)"
    using sys_memory_alloc_maps[OF k(1), of "kernel_space 4096" 10000 0 0] d(1) k by (auto simp: kernel_space_def)
  then have "pages = 3" by simp
  then obtain p t where t: "sys_memory_alloc 10000 0 0 k = Return (page_addr p) (k\<lparr>k_mm := t\<rparr>)" "p + 3 \<le> 4095"
    "aspace_rep (page_addr d) t (overlay p 3 True (kernel_space 4096))" using r j by blast
  have v: "vpn (page_addr p) = p" using t(2) by (intro vpn_page_addr) simp
  then have "walk (mem t) (page_addr d) (page_addr p) = Some (PTE_ADDR (page_addr p) OR (page_addr p AND 0xFFF), 6)"
    using aspace_walk[OF t(3), of "page_addr p"] by (simp add: overlay_def)
  then have "walk (mem (k_mm (k\<lparr>k_mm := t\<rparr>))) (p_page_directory (pcb_of k 0)) (page_addr p) = Some (page_addr p, 6)"
    using k(2) t(2) identity_page(1)[of "page_addr p"] by (simp add: v unat_page_addr)
  then show ?thesis using t(1) by blast
qed

text \<open>
  \<^verbatim>\<open>SYS_MEMORY_FREE\<close> does not look at who owns the page: whatever page of physical memory the argument names, it is released,
  and no directory is changed, so the caller and every other process keep their mappings of it. When it is the lowest free page the next
  allocation hands it out again.
\<close>

lemma sys_memory_free_any_page:
  assumes "mm_inv (k_mm k)" and "0 < unat a div 4096" and "unat a div 4096 < 4095"
  shows "\<exists>s. sys_memory_free a ecx edx k = Return STATUS_SUCCESS (k\<lparr>k_mm := s\<rparr>) \<and>
    used s = used (k_mm k) - {unat a div 4096} \<and> (\<forall>pd va. walk (mem s) pd va = walk (mem (k_mm k)) pd va) \<and>
    ((\<forall>j < unat a div 4096. j \<in> used (k_mm k)) \<longrightarrow>
      (\<exists>s'. memory_alloc_pages 1 s = Some (page_addr (unat a div 4096), s')))"
proof -
  have "unat a div 4096 + unat (1 :: u32) \<le> 4096" using assms(3) by simp
  from pa.release_block[OF assms(1,2) this] obtain s where
    s: "memory_free_pages a 1 (k_mm k) = Some s" "used s = used (k_mm k) - {unat a div 4096}" "mm_inv s"
    "mm_content s = mm_content (k_mm k)" by (auto simp: frames_one)
  have call: "sys_memory_free a ecx edx k = Return STATUS_SUCCESS (k\<lparr>k_mm := s\<rparr>)"
    using s(1) by (simp add: sys_memory_free_def do_mm_def)
  have next_alloc: "\<exists>s'. memory_alloc_pages 1 s = Some (page_addr (unat a div 4096), s')"
    if low: "\<forall>j < unat a div 4096. j \<in> used (k_mm k)"
  proof -
    have "\<exists>j < 4095. j \<notin> used s" using assms(3) s(2) by blast
    then obtain q s' where q: "memory_alloc_pages 1 s = Some (page_addr q, s')" "q \<notin> used s" "\<forall>j < q. j \<in> used s"
      using alloc_one[OF s(3)] by metis
    have "\<not> q < unat a div 4096" using q(2) low s(2) by auto
    moreover have "\<not> unat a div 4096 < q" using q(3) s(2) by blast
    ultimately have "q = unat a div 4096" by simp
    then show ?thesis using q(1) by blast
  qed
  have "\<forall>pd va. walk (mem s) pd va = walk (mem (k_mm k)) pd va" using mm_content_regs[OF s(4)] by simp
  then show ?thesis using call s(2) next_alloc by blast
qed

lemma sys_memory_free_any_page_witness:
  "\<exists>s. sys_memory_free 0x1000 0 0 (demo_kernel\<lparr>k_mm := demo_dirs\<rparr>) = Return STATUS_SUCCESS (demo_kernel\<lparr>k_mm := s\<rparr>) \<and>
     used s = {0, 2} \<and> (\<exists>s'. memory_alloc_pages 1 s = Some (0x1000, s'))"
proof -
  have "page_addr 1 = 0x1000" by (simp add: page_addr_def)
  then show ?thesis
    using sys_memory_free_any_page[of "demo_kernel\<lparr>k_mm := demo_dirs\<rparr>" "0x1000" 0 0] by (auto simp: insert_Diff_if)
qed

end
