(* ===== verification/Hal_Timer.thy ===== *)
theory Hal_Timer
  imports Process
begin

text \<open>
  The timer, \<^verbatim>\<open>hal/timer.c\<close>. A division by zero is undefined. The two waiting functions halt until the next interrupt; how many
  timer interrupts arrive during the \<open>i\<close>-th halt is a parameter, \<open>arrivals i\<close>, and a wait that never ends has no result.
\<close>

definition do_io :: "(io \<Rightarrow> io option) \<Rightarrow> kernel \<Rightarrow> unit outcome" where
  "do_io f k = (case f (k_io k) of None \<Rightarrow> Undef | Some s \<Rightarrow> Return () (k\<lparr>k_io := s\<rparr>))"

abbreviation PIT_FREQUENCY :: u32 where "PIT_FREQUENCY \<equiv> 1193180"

definition write_divisor :: "u32 \<Rightarrow> io \<Rightarrow> io" where
  "write_divisor divisor s =
     (let s = hal_outb PORT_TIMER_CMD 0x36 s;
          s = hal_outb PORT_TIMER_DATA (ucast (divisor AND 0xFF)) s
      in hal_outb PORT_TIMER_DATA (ucast (drop_bit 8 divisor AND 0xFF)) s)"

definition hal_timer_set_frequency :: "u32 \<Rightarrow> kernel \<Rightarrow> unit outcome" where
  "hal_timer_set_frequency hz k =
     (if hz = 0 then Undef
      else Return () (k\<lparr>k_io := write_divisor (PIT_FREQUENCY div hz) (k_io k), timer_frequency := hz\<rparr>))"

definition hal_timer_enable_irq :: "kernel \<Rightarrow> unit outcome" where
  "hal_timer_enable_irq = do_io (hal_pic_unmask_irq 0)"

definition hal_timer_disable_irq :: "kernel \<Rightarrow> unit outcome" where
  "hal_timer_disable_irq = do_io (hal_pic_mask_irq 0)"

definition hal_timer_init :: "u32 \<Rightarrow> kernel \<Rightarrow> unit outcome" where
  "hal_timer_init frequency k =
     obind (hal_timer_set_frequency frequency (k\<lparr>timer_frequency := frequency\<rparr>)) (\<lambda>_. hal_timer_enable_irq)"

definition hal_timer_get_ticks :: "kernel \<Rightarrow> u32" where
  "hal_timer_get_ticks k = timer_ticks k"

definition hal_timer_get_frequency :: "kernel \<Rightarrow> u32" where
  "hal_timer_get_frequency k = timer_frequency k"

definition hal_timer_reset_ticks :: "kernel \<Rightarrow> kernel" where
  "hal_timer_reset_ticks k = k\<lparr>timer_ticks := 0\<rparr>"

definition hal_timer_interrupt_handler :: "kernel \<Rightarrow> unit outcome" where
  "hal_timer_interrupt_handler k = on_switch scheduler_tick (k\<lparr>timer_ticks := timer_ticks k + 1\<rparr>)"

definition hal_timer_get_ms :: "kernel \<Rightarrow> u32 option" where
  "hal_timer_get_ms k = (if timer_frequency k = 0 then None else Some (timer_ticks k * 1000 div timer_frequency k))"

definition hal_timer_get_seconds :: "kernel \<Rightarrow> u32 option" where
  "hal_timer_get_seconds k = (if timer_frequency k = 0 then None else Some (timer_ticks k div timer_frequency k))"

text \<open>\<^verbatim>\<open>while (condition) hal_cpu_halt();\<close> with the tick counter advancing during the halts; the counter at the end.\<close>

partial_function (option) halt_while :: "(u32 \<Rightarrow> bool) \<Rightarrow> (nat \<Rightarrow> u32) \<Rightarrow> nat \<Rightarrow> u32 \<Rightarrow> u32 option" where
  "halt_while condition arrivals i t =
     (if condition t then halt_while condition arrivals (Suc i) (t + arrivals i) else Some t)"

definition hal_timer_delay_ms :: "(nat \<Rightarrow> u32) \<Rightarrow> u32 \<Rightarrow> kernel \<Rightarrow> u32 option" where
  "hal_timer_delay_ms arrivals ms k =
     (let start_ticks = timer_ticks k;
          delay_ticks = (ms * timer_frequency k) div 1000
      in halt_while (\<lambda>t. t - start_ticks < delay_ticks) arrivals 0 start_ticks)"

definition hal_timer_wait_ticks :: "(nat \<Rightarrow> u32) \<Rightarrow> u32 \<Rightarrow> kernel \<Rightarrow> u32 option" where
  "hal_timer_wait_ticks arrivals n k =
     (let target = timer_ticks k + n in halt_while (\<lambda>t. t < target) arrivals 0 (timer_ticks k))"

section \<open>Waiting\<close>

text \<open>With one tick per halt the loop runs as long as the condition holds of the successive counter values.\<close>

lemma halt_while_steps:
  assumes "\<And>j. j < n \<Longrightarrow> condition (t + of_nat j)" "\<not> condition (t + of_nat n)"
  shows "halt_while condition (\<lambda>_. 1) i t = Some (t + of_nat n)"
  using assms
proof (induction n arbitrary: t i)
  case 0
  then show ?case by (simp add: halt_while.simps)
next
  case (Suc n)
  have "condition t" using Suc.prems(1)[of 0] by simp
  moreover have "halt_while condition (\<lambda>_. 1) (Suc i) (t + 1) = Some (t + 1 + of_nat n)"
  proof (rule Suc.IH)
    show "condition (t + 1 + of_nat j)" if "j < n" for j using Suc.prems(1)[of "Suc j"] that by (simp add: algebra_simps)
    show "\<not> condition (t + 1 + of_nat n)" using Suc.prems(2) by (simp add: algebra_simps)
  qed
  ultimately show ?case by (simp add: halt_while.simps[of condition _ i t] algebra_simps)
qed

lemma delay_exact: "hal_timer_delay_ms (\<lambda>_. 1) ms k = Some (timer_ticks k + (ms * timer_frequency k) div 1000)"
proof -
  let ?d = "(ms * timer_frequency k) div 1000"
  have "halt_while (\<lambda>t. t - timer_ticks k < ?d) (\<lambda>_. 1) 0 (timer_ticks k) = Some (timer_ticks k + of_nat (unat ?d))"
  proof (rule halt_while_steps)
    show "timer_ticks k + of_nat j - timer_ticks k < ?d" if "j < unat ?d" for j
    proof -
      have "unat (of_nat j :: u32) = j" using unat_lt_32[of ?d] by (intro unat_of_nat32 less_trans[OF that]) simp
      then show ?thesis using that by (simp add: word_less_nat_alt)
    qed
  qed simp
  then show ?thesis by (simp add: hal_timer_delay_ms_def Let_def)
qed

lemma wait_exact:
  "hal_timer_wait_ticks (\<lambda>_. 1) n k =
     Some (if unat (timer_ticks k) + unat n < 2 ^ 32 then timer_ticks k + n else timer_ticks k)"
proof (cases "unat (timer_ticks k) + unat n < 2 ^ 32")
  case True
  have u: "unat (timer_ticks k + n) = unat (timer_ticks k) + unat n" using True by (rule unat_add_small)
  have "halt_while (\<lambda>t. t < timer_ticks k + n) (\<lambda>_. 1) 0 (timer_ticks k) = Some (timer_ticks k + of_nat (unat n))"
  proof (rule halt_while_steps)
    show "timer_ticks k + of_nat j < timer_ticks k + n" if "j < unat n" for j
    proof -
      have "unat (of_nat j :: u32) = j" using unat_lt_32[of n] by (intro unat_of_nat32 less_trans[OF that]) simp
      moreover from this have "unat (timer_ticks k + of_nat j) = unat (timer_ticks k) + j"
        using that True by (subst unat_add_small) simp_all
      ultimately show ?thesis using that u by (simp add: word_less_nat_alt)
    qed
  qed simp
  then show ?thesis using True by (simp add: hal_timer_wait_ticks_def Let_def)
next
  case False
  have "unat (timer_ticks k + n) = (unat (timer_ticks k) + unat n) mod 2 ^ 32" by (simp add: unat_word_ariths)
  also have "\<dots> = unat (timer_ticks k) + unat n - 2 ^ 32"
    using False add_strict_mono[OF unat_lt_32[of "timer_ticks k"] unat_lt_32[of n]]
    by (subst mod_if) (simp add: mod_less less_diff_conv2)
  finally have "\<not> timer_ticks k < timer_ticks k + n"
    using False add_strict_left_mono[OF unat_lt_32[of n], of "unat (timer_ticks k)"]
    by (simp add: word_less_nat_alt less_diff_conv less_not_sym)
  then show ?thesis using False by (simp add: hal_timer_wait_ticks_def Let_def halt_while.simps)
qed

section \<open>Properties\<close>

text \<open>The writes to the two ports of the timer chip the kernel uses.\<close>

definition timer_event :: "io_event \<Rightarrow> bool" where
  "timer_event e = (case e of Outb p v \<Rightarrow> p = 0x40 \<or> p = 0x43 | _ \<Rightarrow> False)"

text \<open>
  The two waits differ at the wrap-around of the tick counter. With one tick per halt both return; \<^verbatim>\<open>hal_timer_delay_ms\<close>
  waits exactly \<^verbatim>\<open>ms * frequency / 1000\<close> ticks whatever the counter was, but \<^verbatim>\<open>hal_timer_wait_ticks\<close> does not wait at all when
  the sum of the counter and the ticks exceeds 32 bits.
\<close>

lemma timer_waits:
  "hal_timer_delay_ms (\<lambda>_. 1) ms k = Some (timer_ticks k + (ms * timer_frequency k) div 1000) \<and>
   hal_timer_wait_ticks (\<lambda>_. 1) n k =
     Some (if unat (timer_ticks k) + unat n < 2 ^ 32 then timer_ticks k + n else timer_ticks k)"
  using delay_exact wait_exact by blast

text \<open>
  C40: \<^verbatim>\<open>hal_timer_init\<close> programs the rate it was asked for: from 19 Hz up the two bytes it writes to channel 0 are the low and the
  high byte of the rounded divisor of 1193180 Hz, the timer line and no other is unmasked, and nothing else is sent to the timer
  chip. Below 19 Hz the divisor does not fit, and the chip gets it reduced modulo 65536.
\<close>

theorem timer_init_programs:
  assumes "pic_pair (k_io k)" and "operational (k_io k)" and "hz \<noteq> 0"
  shows "\<exists>k' lo hi. hal_timer_init hz k = Return () k' \<and> timer_frequency k' = hz \<and>
    irq_mask (k_io k') = irq_mask (k_io k) AND NOT 1 \<and>
    filter timer_event (io_log (k_io k')) = [Outb 0x40 hi, Outb 0x40 lo, Outb 0x43 0x36] @ filter timer_event (io_log (k_io k)) \<and>
    unat hi * 256 + unat lo = (1193180 div unat hz) mod 65536 \<and>
    (19 \<le> unat hz \<longrightarrow> unat hi * 256 + unat lo = 1193180 div unat hz)"
proof -
  define d where "d = PIT_FREQUENCY div hz"
  define s where "s = write_divisor d (k_io k)"
  define lo :: u8 where "lo = ucast (d AND 0xFF)"
  define hi :: u8 where "hi = ucast (drop_bit 8 d AND 0xFF)"
  have s: "s = hal_outb 0x40 hi (hal_outb 0x40 lo (hal_outb 0x43 0x36 (k_io k)))"
    by (simp add: s_def write_divisor_def lo_def hi_def Let_def)
  have ok: "pic_pair s" "operational s"
    using assms(1,2) by (auto simp: s pic_pair_def operational_def hal_outb_def)
  have mask: "irq_mask s = irq_mask (k_io k)"
    using assms(1,2) by (auto simp: s irq_mask_def hal_outb_def pic_pair_def operational_def reads_mask_def)
  have p: "irq_port 0 = (0x21, 0)" by (simp add: irq_port_def)
  have "hal_pic_unmask_irq 0 s = Some (update_port 0x21 (\<lambda>v. ucast (ucast v AND NOT (push_bit (unat (0 :: u8)) 1) :: u32)) s)"
    by (rule mask_irq_update(2)[OF _ p]) simp
  then obtain f where u: "hal_pic_unmask_irq 0 s = Some (update_port 0x21 f s)" by blast
  have m0: "irq_mask (update_port 0x21 f s) = irq_mask s AND NOT 1"
    using unmask_mask[OF ok, of 0] u by simp
  define k' where "k' = k\<lparr>timer_frequency := hz, k_io := update_port 0x21 f s\<rparr>"
  have i: "hal_timer_init hz k = Return () k'"
    using assms(3) u by (simp add: hal_timer_init_def hal_timer_set_frequency_def hal_timer_enable_irq_def do_io_def k'_def s_def d_def)
  have log: "filter timer_event (io_log (k_io k')) = [Outb 0x40 hi, Outb 0x40 lo, Outb 0x43 0x36] @ filter timer_event (io_log (k_io k))"
    by (simp add: k'_def update_port_def s hal_inb_def hal_outb_def timer_event_def Let_def)
  have m: "(0xFF :: u32) = mask 8" by (simp add: mask_eq_exp_minus_1)
  have "unat lo = unat d mod 256" "unat hi = unat d div 256 mod 256"
    unfolding lo_def hi_def m take_bit_eq_mask[symmetric]
    by (simp_all add: unsigned_ucast_eq unsigned_take_bit_eq unat_drop_bit_eq take_bit_eq_mod drop_bit_eq_div
        unat_mod unat_div)
  moreover have "unat d div 256 mod 256 * 256 + unat d mod 256 = unat d mod 65536"
    using mod_mult2_eq[of "unat d" 256 256] by simp
  moreover have ud: "unat d = 1193180 div unat hz" by (simp add: d_def unat_div)
  ultimately have v: "unat hi * 256 + unat lo = (1193180 div unat hz) mod 65536" by simp
  have "1193180 div unat hz < 65536" if "19 \<le> unat hz"
  proof -
    have "1193180 div unat hz \<le> 1193180 div 19" using that by (intro div_le_mono2) simp_all
    then show ?thesis by simp
  qed
  then show ?thesis using i log v m0 mask by (intro exI[of _ k'] exI[of _ lo] exI[of _ hi]) (auto simp: k'_def)
qed

theorem timer_init_programs_witness:
  "\<exists>k' lo hi. hal_timer_init 100 demo_kernel = Return () k' \<and> timer_frequency k' = 100 \<and>
     irq_mask (k_io k') = irq_mask pic_io AND NOT 1 \<and>
     filter timer_event (io_log (k_io k')) = [Outb 0x40 hi, Outb 0x40 lo, Outb 0x43 0x36] @ filter timer_event (io_log pic_io) \<and>
     unat hi * 256 + unat lo = 11931"
proof -
  have io: "k_io demo_kernel = pic_io" by (simp add: demo_kernel_def)
  show ?thesis using timer_init_programs[of demo_kernel 100] pic_io_ok by (auto simp: io)
qed

end
