(* ===== verification/Context.thy ===== *)
theory Context
  imports Process
begin

text \<open>
  The assembly of the context switch: \<^verbatim>\<open>context_switch_asm\<close> of \<^verbatim>\<open>kernel/scheduler.c\<close> and
  \<^verbatim>\<open>first_run_user_handler\<close> of \<^verbatim>\<open>kernel/process.c\<close>, instruction by instruction on a register file and the byte
  memory. The address of \<^verbatim>\<open>process_table\<close> is fixed by the linker and is the parameter \<open>pt\<close>; a control
  block takes 120 bytes.
\<close>

section \<open>Registers and stack instructions\<close>

record cpu =
  r_eax :: u32
  r_ebx :: u32
  r_ecx :: u32
  r_edx :: u32
  r_esi :: u32
  r_edi :: u32
  r_ebp :: u32
  r_esp :: u32
  r_eip :: u32
  r_eflags :: u32
  r_cs :: u32
  r_ss :: u32
  r_ds :: u32
  r_es :: u32
  r_fs :: u32
  r_gs :: u32

definition push32 :: "u32 \<Rightarrow> cpu \<times> memory \<Rightarrow> cpu \<times> memory" where
  "push32 v cm = ((fst cm)\<lparr>r_esp := r_esp (fst cm) - 4\<rparr>, store32 (snd cm) (r_esp (fst cm) - 4) v)"

text \<open>\<open>pop32 set (c, m)\<close> pops a word into the register that \<open>set\<close> writes.\<close>

definition pop32 :: "(u32 \<Rightarrow> cpu \<Rightarrow> cpu) \<Rightarrow> memory \<Rightarrow> cpu \<Rightarrow> cpu" where
  "pop32 put m c = put (load32 m (r_esp c)) (c\<lparr>r_esp := r_esp c + 4\<rparr>)"

text \<open>The status flags that \<^verbatim>\<open>test v, v\<close> leaves (CF and OF cleared; PF, ZF and SF from the value).\<close>

definition test_flags :: "u32 \<Rightarrow> u32 \<Rightarrow> u32" where
  "test_flags v f = (f AND NOT 0x8C5) OR (if v = 0 then 0x40 else 0) OR (if bit v 31 then 0x80 else 0)
     OR (if even (length (filter (bit v) [0..<8])) then 4 else 0)"

abbreviation PCB_SIZE :: u32 where "PCB_SIZE \<equiv> 120"

definition pcb_ptr :: "u32 \<Rightarrow> nat \<Rightarrow> u32" where
  "pcb_ptr pt p = pt + of_nat p * PCB_SIZE"

definition pcb_slot :: "u32 \<Rightarrow> u32 \<Rightarrow> nat" where
  "pcb_slot pt a = unat ((a - pt) div PCB_SIZE)"

section \<open>The code\<close>

definition save_context :: "u32 \<Rightarrow> cpu \<times> memory \<times> sched \<Rightarrow> cpu \<times> memory \<times> sched" where
  "save_context pt st = (case st of (c, m, s) \<Rightarrow>
     let (c, m) = push32 (r_eflags c) (c, m);
         (c, m) = push32 (r_ebp c) (c, m);
         (c, m) = push32 (r_ebx c) (c, m);
         (c, m) = push32 (r_esi c) (c, m);
         (c, m) = push32 (r_edi c) (c, m)
     in (c, m, upd_pcb (pcb_slot pt (r_eax c)) (\<lambda>b. b\<lparr>p_registers := (p_registers b)[4 := r_esp c]\<rparr>) s))"

definition load_context :: "u32 \<Rightarrow> cpu \<times> memory \<times> sched \<Rightarrow> cpu \<times> memory \<times> sched" where
  "load_context pt st = (case st of (c, m, s) \<Rightarrow>
     let c = c\<lparr>r_esp := p_registers (pcbs s (pcb_slot pt (r_edx c))) ! 4\<rparr>;
         c = pop32 (\<lambda>v c. c\<lparr>r_edi := v\<rparr>) m c;
         c = pop32 (\<lambda>v c. c\<lparr>r_esi := v\<rparr>) m c;
         c = pop32 (\<lambda>v c. c\<lparr>r_ebx := v\<rparr>) m c;
         c = pop32 (\<lambda>v c. c\<lparr>r_ebp := v\<rparr>) m c;
         c = pop32 (\<lambda>v c. c\<lparr>r_eflags := v\<rparr>) m c;
         c = pop32 (\<lambda>v c. c\<lparr>r_eip := v\<rparr>) m c
     in (c, m, s))"

definition context_switch_asm :: "u32 \<Rightarrow> cpu \<times> memory \<times> sched \<Rightarrow> cpu \<times> memory \<times> sched" where
  "context_switch_asm pt st = (case st of (c, m, s) \<Rightarrow>
     let c = c\<lparr>r_eax := load32 m (r_esp c + 4), r_edx := load32 m (r_esp c + 8)\<rparr>;
         c = c\<lparr>r_eflags := test_flags (r_eax c) (r_eflags c)\<rparr>
     in load_context pt (if r_eax c = 0 then (c, m, s) else save_context pt (c, m, s)))"

text \<open>\<^verbatim>\<open>iret\<close>; the stack is switched as well when it returns to a less privileged level.\<close>

definition iret :: "memory \<Rightarrow> cpu \<Rightarrow> cpu" where
  "iret m c =
     (let cpl = r_cs c AND 3;
          c = pop32 (\<lambda>v c. c\<lparr>r_eip := v\<rparr>) m c;
          c = pop32 (\<lambda>v c. c\<lparr>r_cs := v\<rparr>) m c;
          c = pop32 (\<lambda>v c. c\<lparr>r_eflags := v\<rparr>) m c
      in if r_cs c AND 3 > cpl
         then c\<lparr>r_esp := load32 m (r_esp c), r_ss := load32 m (r_esp c + 4)\<rparr> else c)"

text \<open>\<^verbatim>\<open>popa\<close> skips the saved stack pointer.\<close>

definition popa :: "memory \<Rightarrow> cpu \<Rightarrow> cpu" where
  "popa m c =
     (let c = pop32 (\<lambda>v c. c\<lparr>r_edi := v\<rparr>) m c;
          c = pop32 (\<lambda>v c. c\<lparr>r_esi := v\<rparr>) m c;
          c = pop32 (\<lambda>v c. c\<lparr>r_ebp := v\<rparr>) m c;
          c = pop32 (\<lambda>v c. c) m c;
          c = pop32 (\<lambda>v c. c\<lparr>r_ebx := v\<rparr>) m c;
          c = pop32 (\<lambda>v c. c\<lparr>r_edx := v\<rparr>) m c;
          c = pop32 (\<lambda>v c. c\<lparr>r_ecx := v\<rparr>) m c
      in pop32 (\<lambda>v c. c\<lparr>r_eax := v\<rparr>) m c)"

definition pop_segments :: "memory \<Rightarrow> cpu \<Rightarrow> cpu" where
  "pop_segments m c =
     (let c = pop32 (\<lambda>v c. c\<lparr>r_gs := v\<rparr>) m c;
          c = pop32 (\<lambda>v c. c\<lparr>r_fs := v\<rparr>) m c;
          c = pop32 (\<lambda>v c. c\<lparr>r_es := v\<rparr>) m c
      in pop32 (\<lambda>v c. c\<lparr>r_ds := v\<rparr>) m c)"

definition first_run_user_handler :: "memory \<Rightarrow> cpu \<Rightarrow> cpu" where
  "first_run_user_handler m c =
     (let c = popa m (pop_segments m c) in iret m (c\<lparr>r_esp := r_esp c + 8\<rparr>))"

section \<open>Stacks\<close>

lemma pcb_slot_ptr:
  assumes "p < MAX_PROCESSES" "unat pt + 7680 < 2 ^ 32"
  shows "pcb_slot pt (pcb_ptr pt p) = p"
proof -
  have "p * 120 < 2 ^ 32" using assms(1) by (simp add: MAX_PROCESSES_def)
  then have "unat (of_nat p * PCB_SIZE) = p * 120" using assms(1)
    by (subst unat_mult_small) (simp_all add: unat_of_nat32 MAX_PROCESSES_def)
  then show ?thesis by (simp add: pcb_slot_def pcb_ptr_def unat_div)
qed

lemma pcb_ptr_nz:
  assumes "p < MAX_PROCESSES" "unat pt + 7680 < 2 ^ 32" "pt \<noteq> 0"
  shows "pcb_ptr pt p \<noteq> 0"
proof -
  have p: "p * 120 < 7680" using assms(1) by (simp add: MAX_PROCESSES_def)
  then have u: "unat (of_nat p * PCB_SIZE) = p * 120"
    by (subst unat_mult_small) (simp_all add: unat_of_nat32)
  have "unat (pcb_ptr pt p) = unat pt + p * 120"
    unfolding pcb_ptr_def using u p assms(2) by (subst unat_add_small) simp_all
  then show ?thesis using assms(3) by (auto simp: unat_eq_zero)
qed

lemma aligned4_offset: "aligned4 a \<Longrightarrow> unat (w :: u32) mod 4 = 0 \<Longrightarrow> aligned4 (a - w)"
  using unat_diff_mod4[of a w] by (simp add: aligned4_def)

text \<open>The six words that a suspended process keeps at the top of its stack, from its saved stack pointer.\<close>

definition saved_words :: "u32 \<Rightarrow> u32 set" where
  "saved_words e = {e, e + 4, e + 8, e + 12, e + 16, e + 20}"

definition same_words :: "u32 set \<Rightarrow> memory \<Rightarrow> memory \<Rightarrow> bool" where
  "same_words A m m' \<longleftrightarrow> (\<forall>a \<in> A. load32 m' a = load32 m a)"

lemma load_context_eq:
  "load_context pt (c, m, s) = (let e = p_registers (pcbs s (pcb_slot pt (r_edx c))) ! 4 in
     (c\<lparr>r_edi := load32 m e, r_esi := load32 m (e + 4), r_ebx := load32 m (e + 8), r_ebp := load32 m (e + 12),
        r_eflags := load32 m (e + 16), r_esp := e + 24, r_eip := load32 m (e + 20)\<rparr>, m, s))"
  by (simp add: load_context_def pop32_def Let_def add.commute)

lemma pop_segments_eq:
  "pop_segments m c = (let e = r_esp c in c\<lparr>r_gs := load32 m e, r_fs := load32 m (e + 4), r_es := load32 m (e + 8),
     r_esp := e + 16, r_ds := load32 m (e + 12)\<rparr>)"
  by (simp add: pop_segments_def pop32_def Let_def add.commute)

lemma popa_eq:
  "popa m c = (let e = r_esp c in c\<lparr>r_edi := load32 m e, r_esi := load32 m (e + 4), r_ebp := load32 m (e + 8),
     r_ebx := load32 m (e + 16), r_edx := load32 m (e + 20), r_ecx := load32 m (e + 24),
     r_esp := e + 32, r_eax := load32 m (e + 28)\<rparr>)"
  by (simp add: popa_def pop32_def Let_def add.commute)

lemma iret_user_eq:
  assumes "r_cs c AND 3 = 0" "load32 m (r_esp c + 4) AND 3 = 3"
  shows "iret m c = (let e = r_esp c in c\<lparr>r_eip := load32 m e, r_cs := load32 m (e + 4), r_eflags := load32 m (e + 8),
     r_esp := load32 m (e + 12), r_ss := load32 m (e + 16)\<rparr>)"
proof -
  have "r_cs c AND 3 < load32 m (r_esp c + 4) AND 3"
    unfolding assms by (simp add: word_less_nat_alt)
  then show ?thesis by (simp add: iret_def pop32_def Let_def add.assoc)
qed

definition saved_mem :: "cpu \<Rightarrow> memory \<Rightarrow> memory" where
  "saved_mem c m = store32 (store32 (store32 (store32 (store32 m (r_esp c - 20 + 16) (r_eflags c)) (r_esp c - 20 + 12) (r_ebp c))
     (r_esp c - 20 + 8) (r_ebx c)) (r_esp c - 20 + 4) (r_esi c)) (r_esp c - 20) (r_edi c)"

lemma save_context_eq:
  "save_context pt (c, m, s) = (c\<lparr>r_esp := r_esp c - 20\<rparr>, saved_mem c m,
     upd_pcb (pcb_slot pt (r_eax c)) (\<lambda>b. b\<lparr>p_registers := (p_registers b)[4 := r_esp c - 20]\<rparr>) s)"
  by (simp add: save_context_def push32_def saved_mem_def Let_def)

lemma aligned4_plus:
  assumes "aligned4 a" "unat (w :: u32) mod 4 = 0"
  shows "aligned4 (a + w)"
proof -
  have "aligned4 (a - (0 - w))"
    by (rule aligned4_offset[OF assms(1)])
      (use aligned4_offset[of 0 w] assms(2) in \<open>simp add: aligned4_def\<close>)
  then show ?thesis by simp
qed

lemma aligned4_saved:
  "aligned4 e \<Longrightarrow> aligned4 (e + 4)" "aligned4 e \<Longrightarrow> aligned4 (e + 8)" "aligned4 e \<Longrightarrow> aligned4 (e + 12)"
  "aligned4 e \<Longrightarrow> aligned4 (e + 16)" "aligned4 e \<Longrightarrow> aligned4 (e + 20)"
  by (simp_all add: aligned4_plus)

text \<open>What is on the stack right after saving.\<close>

lemma saved_mem_load:
  assumes al: "aligned4 (r_esp c)"
  shows "load32 (saved_mem c m) (r_esp c - 20) = r_edi c" "load32 (saved_mem c m) (r_esp c - 20 + 4) = r_esi c"
    "load32 (saved_mem c m) (r_esp c - 20 + 8) = r_ebx c" "load32 (saved_mem c m) (r_esp c - 20 + 12) = r_ebp c"
    "load32 (saved_mem c m) (r_esp c - 20 + 16) = r_eflags c"
    "load32 (saved_mem c m) (r_esp c - 20 + 20) = load32 m (r_esp c)"
proof -
  obtain e where e: "r_esp c - 20 = e" by blast
  then have sp: "r_esp c = e + 20" by (simp add: algebra_simps)
  have ae: "aligned4 e" using aligned4_offset[OF al, of 20] e by simp
  note al' = ae aligned4_saved[OF ae]
  show "load32 (saved_mem c m) (r_esp c - 20) = r_edi c" "load32 (saved_mem c m) (r_esp c - 20 + 4) = r_esi c"
    "load32 (saved_mem c m) (r_esp c - 20 + 8) = r_ebx c" "load32 (saved_mem c m) (r_esp c - 20 + 12) = r_ebp c"
    "load32 (saved_mem c m) (r_esp c - 20 + 16) = r_eflags c"
    "load32 (saved_mem c m) (r_esp c - 20 + 20) = load32 m (r_esp c)"
    unfolding saved_mem_def e unfolding sp using al' by (simp_all add: load32_store32_aligned)
qed

text \<open>Saving writes only below the stack pointer of the process that is switched out.\<close>

lemma saved_mem_other:
  assumes "aligned4 (r_esp c)" "aligned4 a" "a \<notin> saved_words (r_esp c - 20) - {r_esp c}"
  shows "load32 (saved_mem c m) a = load32 m a"
proof -
  obtain e where e: "r_esp c - 20 = e" by blast
  then have sp: "r_esp c = e + 20" by (simp add: algebra_simps)
  have ae: "aligned4 e" using aligned4_offset[OF assms(1), of 20] e by simp
  have "a \<noteq> e" "a \<noteq> e + 4" "a \<noteq> e + 8" "a \<noteq> e + 12" "a \<noteq> e + 16"
    using assms(3) unfolding e unfolding sp saved_words_def by auto
  then show ?thesis
    unfolding saved_mem_def e using ae aligned4_saved[OF ae] assms(2) by (simp add: load32_store32_aligned)
qed

text \<open>The whole switch, for a caller that is process \<open>a\<close> (saved) or none.\<close>

lemma switch_from_process:
  assumes "load32 m (r_esp c + 4) = pcb_ptr pt a" "a < MAX_PROCESSES" "unat pt + 7680 < 2 ^ 32" "pt \<noteq> 0"
    and "c' = c\<lparr>r_eax := pcb_ptr pt a, r_edx := load32 m (r_esp c + 8), r_eflags := test_flags (pcb_ptr pt a) (r_eflags c)\<rparr>"
  shows "context_switch_asm pt (c, m, s) = load_context pt (c'\<lparr>r_esp := r_esp c - 20\<rparr>, saved_mem c' m,
     upd_pcb a (\<lambda>b. b\<lparr>p_registers := (p_registers b)[4 := r_esp c - 20]\<rparr>) s)"
  using assms pcb_ptr_nz[OF assms(2-4)]
  by (simp add: context_switch_asm_def save_context_eq pcb_slot_ptr Let_def)

lemma switch_from_none:
  assumes "load32 m (r_esp c + 4) = 0"
  shows "context_switch_asm pt (c, m, s) =
    load_context pt (c\<lparr>r_eax := 0, r_edx := load32 m (r_esp c + 8), r_eflags := test_flags 0 (r_eflags c)\<rparr>, m, s)"
  using assms by (simp add: context_switch_asm_def Let_def)

text \<open>
  Switching to process \<open>a\<close> from none or from another process: the words in \<open>W\<close>, apart from what the
  caller saves, and the saved stack pointer of \<open>a\<close> reach \<^verbatim>\<open>load_context\<close> unchanged.
\<close>

lemma switch_in:
  assumes lay: "a < MAX_PROCESSES" "unat pt + 7680 < 2 ^ 32" "pt \<noteq> 0"
    and to: "load32 m (r_esp c + 8) = pcb_ptr pt a"
    and caller: "load32 m (r_esp c + 4) \<in> {0} \<union> pcb_ptr pt ` ({..<MAX_PROCESSES} - {a})" "aligned4 (r_esp c)"
    and W: "\<And>w. w \<in> W \<Longrightarrow> aligned4 w" "W \<inter> (saved_words (r_esp c - 20) - {r_esp c}) = {}"
  obtains c' m' s' where "context_switch_asm pt (c, m, s) = load_context pt (c', m', s')"
    "r_edx c' = pcb_ptr pt a" "p_registers (pcbs s' a) ! 4 = p_registers (pcbs s a) ! 4"
    "\<And>w. w \<in> W \<Longrightarrow> load32 m' w = load32 m w" "r_cs c' = r_cs c"
proof (cases "load32 m (r_esp c + 4) = 0")
  case True
  then show thesis by (rule that[OF switch_from_none]) (use to in simp_all)
next
  case False
  then obtain b where b: "b < MAX_PROCESSES" "b \<noteq> a" "load32 m (r_esp c + 4) = pcb_ptr pt b" using caller(1) by auto
  define d where "d = c\<lparr>r_eax := pcb_ptr pt b, r_edx := load32 m (r_esp c + 8),
    r_eflags := test_flags (pcb_ptr pt b) (r_eflags c)\<rparr>"
  have keep: "load32 (saved_mem d m) w = load32 m w" if "w \<in> W" for w
  proof (rule saved_mem_other)
    show "aligned4 (r_esp d)" using caller(2) by (simp add: d_def)
    show "aligned4 w" by (rule W(1)[OF that])
    show "w \<notin> saved_words (r_esp d - 20) - {r_esp d}" using W(2) that by (auto simp: d_def)
  qed
  show thesis
    by (rule that[OF switch_from_process[OF b(3,1) lay(2,3) d_def] _ _ keep]) (use to b(2) in \<open>simp_all add: d_def\<close>)
qed

text \<open>The words that a sequence of pushes leaves.\<close>

lemma push_words_snoc: "push_words (vs @ [v]) ms = push_word v (push_words vs ms)"
  by (simp add: push_words_def)

definition slot_word :: "u32 \<Rightarrow> nat \<Rightarrow> u32" where
  "slot_word sp i = sp - of_nat (4 * (i + 1))"

lemma slot_word_inj:
  assumes "i < 1000" "j < 1000"
  shows "slot_word sp i = slot_word sp j \<longleftrightarrow> i = j"
proof -
  have "unat (of_nat (4 * (i + 1)) :: u32) = 4 * (i + 1)" "unat (of_nat (4 * (j + 1)) :: u32) = 4 * (j + 1)"
    by (rule unat_of_nat32, use assms in simp)+
  then have "(of_nat (4 * (i + 1)) :: u32) = of_nat (4 * (j + 1)) \<longleftrightarrow> i = j" unfolding word32_eq_iff_unat by simp
  then show ?thesis unfolding slot_word_def by (metis diff_left_imp_eq)
qed

lemma slot_word_aligned:
  assumes "aligned4 sp" "i < 1000"
  shows "aligned4 (slot_word sp i)"
proof -
  have "unat (of_nat (4 * (i + 1)) :: u32) = 4 * (i + 1)" by (rule unat_of_nat32) (use assms(2) in simp)
  then show ?thesis unfolding slot_word_def by (intro aligned4_offset[OF assms(1)]) simp
qed

lemma push_words_spec:
  assumes "aligned4 sp" "length vs < 1000"
  shows "snd (push_words vs (m, sp)) = sp - of_nat (4 * length vs) \<and>
    (\<forall>i < length vs. load32 (fst (push_words vs (m, sp))) (slot_word sp i) = vs ! i)"
  using assms(2)
proof (induction vs rule: rev_induct)
  case Nil
  then show ?case by (simp add: push_words_def)
next
  case (snoc v vs)
  let ?r = "push_words vs (m, sp)"
  have IH: "snd ?r = sp - of_nat (4 * length vs)" "\<And>i. i < length vs \<Longrightarrow> load32 (fst ?r) (slot_word sp i) = vs ! i"
    using snoc by auto
  have top: "snd ?r - 4 = slot_word sp (length vs)"
    using IH(1) by (simp add: slot_word_def algebra_simps)
  have "load32 (store32 (fst ?r) (slot_word sp (length vs)) v) (slot_word sp i) = (vs @ [v]) ! i"
    if "i < length (vs @ [v])" for i
    using that IH(2)[of i] slot_word_inj[of "length vs" i sp] slot_word_aligned[OF assms(1)] snoc.prems
    by (auto simp: load32_store32_aligned nth_append less_Suc_eq)
  moreover have "slot_word sp (length vs) = sp - of_nat (4 * length (vs @ [v]))" by (simp add: slot_word_def)
  ultimately show ?case unfolding push_words_snoc push_word_def top by simp
qed

section \<open>Concrete register files\<close>

definition demo_cpu :: "u32 \<Rightarrow> cpu" where
  "demo_cpu sp = \<lparr>r_eax = 1, r_ebx = 2, r_ecx = 3, r_edx = 4, r_esi = 5, r_edi = 6, r_ebp = 7, r_esp = sp, r_eip = 8,
     r_eflags = 0x202, r_cs = 0x08, r_ss = 0x10, r_ds = 0x10, r_es = 0x10, r_fs = 0x10, r_gs = 0x10\<rparr>"

lemma demo_cpu_simps [simp]: "r_esp (demo_cpu sp) = sp" "r_ebx (demo_cpu sp) = 2" "r_cs (demo_cpu sp) = 8"
  by (simp_all add: demo_cpu_def)

text \<open>A stack at \<open>sp\<close> with the two arguments of a call of \<^verbatim>\<open>context_switch_asm\<close>.\<close>

definition call_frame :: "u32 \<Rightarrow> u32 \<Rightarrow> u32 \<Rightarrow> memory \<Rightarrow> memory" where
  "call_frame sp from to m = store32 (store32 m (sp + 4) from) (sp + 8) to"

lemma call_frame_args:
  assumes "aligned4 sp"
  shows "load32 (call_frame sp from to m) (sp + 4) = from" "load32 (call_frame sp from to m) (sp + 8) = to"
  using aligned4_saved[OF assms] by (simp_all add: call_frame_def load32_store32_aligned)

lemma call_frame_other:
  assumes "aligned4 sp" "aligned4 w" "w \<noteq> sp + 4" "w \<noteq> sp + 8"
  shows "load32 (call_frame sp from to m) w = load32 m w"
  using assms aligned4_saved[OF assms(1)] by (simp add: call_frame_def load32_store32_aligned)

lemma slot_word_low:
  assumes "4 * (i + 1) \<le> unat sp" "i < 1000"
  shows "slot_word sp i < sp"
proof -
  have u: "unat (of_nat (4 * (i + 1)) :: u32) = 4 * (i + 1)" by (rule unat_of_nat32) (use assms(2) in simp)
  have "of_nat (4 * (i + 1)) \<le> sp" using u assms(1) by (simp add: word_le_nat_alt)
  then have "unat (slot_word sp i) = unat sp - 4 * (i + 1)" unfolding slot_word_def by (simp only: unat_sub u)
  then show ?thesis using assms(1) by (simp add: word_less_nat_alt)
qed

lemma setup_stack_returns: "entry \<noteq> 0 \<Longrightarrow> \<exists>k'. process_setup_stack frh (Some p) entry k = Return () k'"
  by (simp add: process_setup_stack_def Let_def split_beta)

section \<open>Properties\<close>

text \<open>
  C28: A context switch out and back is invisible to a process. Let process \<open>a\<close> call
  \<^verbatim>\<open>context_switch_asm\<close>, and let some caller later switch to \<open>a\<close> while the saved stack pointer of \<open>a\<close> and
  the six words above it are as they were left and lie outside the words this caller saves. Then \<open>a\<close>
  continues at its return address with its stack pointer, EBX, ESI, EDI and EBP as at its call, and
  its flags as they were apart from the status bits.
\<close>

theorem context_switch_roundtrip:
  assumes lay: "a < MAX_PROCESSES" "unat pt + 7680 < 2 ^ 32" "pt \<noteq> 0"
    and out: "context_switch_asm pt (c, m, s) = (c1, m1, s1)" "load32 m (r_esp c + 4) = pcb_ptr pt a"
      "length (p_registers (pcbs s a)) = 16" "aligned4 (r_esp c)"
    and kept: "p_registers (pcbs s2 a) ! 4 = p_registers (pcbs s1 a) ! 4" "same_words (saved_words (r_esp c - 20)) m1 m2"
    and again: "context_switch_asm pt (c2, m2, s2) = (c3, m3, s3)" "load32 m2 (r_esp c2 + 8) = pcb_ptr pt a"
      "load32 m2 (r_esp c2 + 4) \<in> {0} \<union> pcb_ptr pt ` ({..<MAX_PROCESSES} - {a})" "aligned4 (r_esp c2)"
      "saved_words (r_esp c - 20) \<inter> (saved_words (r_esp c2 - 20) - {r_esp c2}) = {}"
  shows "r_eip c3 = load32 m (r_esp c) \<and> r_esp c3 = r_esp c + 4 \<and> r_ebx c3 = r_ebx c \<and> r_esi c3 = r_esi c \<and>
    r_edi c3 = r_edi c \<and> r_ebp c3 = r_ebp c \<and> r_eflags c3 = test_flags (pcb_ptr pt a) (r_eflags c)"
proof -
  define d where "d = c\<lparr>r_eax := pcb_ptr pt a, r_edx := load32 m (r_esp c + 8),
    r_eflags := test_flags (pcb_ptr pt a) (r_eflags c)\<rparr>"
  let ?e = "r_esp c - 20"
  have m1: "m1 = saved_mem d m"
    and s1: "s1 = upd_pcb a (\<lambda>b. b\<lparr>p_registers := (p_registers b)[4 := ?e]\<rparr>) s"
    using out(1) switch_from_process[OF out(2) lay d_def] by (simp_all add: load_context_eq Let_def)
  have ad: "aligned4 (r_esp d)" "r_esp d = r_esp c" using out(4) by (simp_all add: d_def)
  have ae: "aligned4 ?e" using aligned4_offset[OF out(4), of 20] by simp
  have reg: "p_registers (pcbs s2 a) ! 4 = ?e" using kept(1) s1 out(3) by simp
  have rest: "load32 m2 w = load32 (saved_mem d m) w" if "w \<in> saved_words ?e" for w
    using kept(2) that by (simp add: same_words_def m1)
  have al: "aligned4 w" if "w \<in> saved_words ?e" for w
    using that ae aligned4_saved[OF ae] by (auto simp: saved_words_def)
  obtain c' m' s' where f: "context_switch_asm pt (c2, m2, s2) = load_context pt (c', m', s')"
    "r_edx c' = pcb_ptr pt a" "p_registers (pcbs s' a) ! 4 = ?e" "\<And>w. w \<in> saved_words ?e \<Longrightarrow> load32 m' w = load32 m2 w"
    using switch_in[OF lay again(2-4) al again(5)] reg by metis
  have w: "load32 m' w = load32 (saved_mem d m) w" if "w \<in> saved_words ?e" for w using f(4) rest that by simp
  have mem: "?e \<in> saved_words ?e" "?e + 4 \<in> saved_words ?e" "?e + 8 \<in> saved_words ?e" "?e + 12 \<in> saved_words ?e"
    "?e + 16 \<in> saved_words ?e" "?e + 20 \<in> saved_words ?e" by (simp_all add: saved_words_def)
  have c3: "c3 = c'\<lparr>r_edi := r_edi d, r_esi := r_esi d, r_ebx := r_ebx d, r_ebp := r_ebp d,
        r_eflags := r_eflags d, r_esp := ?e + 24, r_eip := load32 m (r_esp c)\<rparr>"
    using again(1) f(1-3) w[OF mem(1)] w[OF mem(2)] w[OF mem(3)] w[OF mem(4)] w[OF mem(5)] w[OF mem(6)]
      saved_mem_load[OF ad(1), of m, unfolded ad(2)] pcb_slot_ptr[OF lay(1,2)]
    by (simp only: load_context_eq Let_def prod.inject)
  have "?e + 24 = r_esp c + 4" by (simp add: algebra_simps)
  then show ?thesis unfolding c3 by (simp add: d_def)
qed

theorem context_switch_roundtrip_witness:
  "\<exists>c1 m1 s1 c3 m3 s3.
     context_switch_asm 0x100000 (demo_cpu 0x1000, call_frame 0x1000 (pcb_ptr 0x100000 0) (pcb_ptr 0x100000 1) (\<lambda>_. 0),
       demo_sched) = (c1, m1, s1) \<and>
     context_switch_asm 0x100000 (demo_cpu 0x2000, call_frame 0x2000 0 (pcb_ptr 0x100000 0) m1, s1) = (c3, m3, s3) \<and>
     r_ebx c3 = 2 \<and> r_esp c3 = 0x1004"
proof -
  let ?m = "call_frame 0x1000 (pcb_ptr 0x100000 0) (pcb_ptr 0x100000 1) (\<lambda>_. 0)"
  obtain c1 m1 s1 where sw: "context_switch_asm 0x100000 (demo_cpu 0x1000, ?m, demo_sched) = (c1, m1, s1)"
    by (metis prod_cases3)
  let ?m2 = "call_frame 0x2000 0 (pcb_ptr 0x100000 0) m1"
  obtain c3 m3 s3 where bk: "context_switch_asm 0x100000 (demo_cpu 0x2000, ?m2, s1) = (c3, m3, s3)"
    by (metis prod_cases3)
  have al: "aligned4 0x1000" "aligned4 0x2000" by (simp_all add: aligned4_def)
  have a1: "load32 ?m (r_esp (demo_cpu 0x1000) + 4) = pcb_ptr 0x100000 0"
    using call_frame_args(1)[OF al(1)] by simp
  have a2: "load32 ?m2 (r_esp (demo_cpu 0x2000) + 8) = pcb_ptr 0x100000 0" "load32 ?m2 (r_esp (demo_cpu 0x2000) + 4) = 0"
    using call_frame_args[OF al(2)] by simp_all
  have keep: "same_words (saved_words (r_esp (demo_cpu 0x1000) - 20)) m1 ?m2"
    unfolding same_words_def saved_words_def
    by (simp add: call_frame_other[OF al(2)] aligned4_def)
  have dis: "saved_words (r_esp (demo_cpu 0x1000) - 20) \<inter>
    (saved_words (r_esp (demo_cpu 0x2000) - 20) - {r_esp (demo_cpu 0x2000)}) = {}"
    by (simp add: saved_words_def)
  have "r_ebx c3 = r_ebx (demo_cpu 0x1000) \<and> r_esp c3 = r_esp (demo_cpu 0x1000) + 4"
    using context_switch_roundtrip[OF _ _ _ sw a1 _ _ _ keep bk a2(1) _ _ dis] a2(2) al
    by (simp add: MAX_PROCESSES_def demo_sched_def zero_pcb_def)
  then show ?thesis using sw bk by auto
qed

text \<open>The words that \<^verbatim>\<open>process_setup_stack\<close> prepares for a user process, and where the saved stack pointer points.\<close>

definition first_words :: "u32 \<Rightarrow> u32 \<Rightarrow> u32 \<Rightarrow> u32 list" where
  "first_words frh us entry = user_frame frh us entry @ switch_frame"

lemma setup_stack_words:
  assumes prep: "process_setup_stack frh (Some p) entry k = Return () k'" "p_is_user (pcb_of k p)" "entry \<noteq> 0"
    "length (p_registers (pcb_of k p)) = 16" "aligned4 (p_kernel_stack (pcb_of k p) + 8192)"
  defines "sp \<equiv> p_kernel_stack (pcb_of k p) + 8192" and "vs \<equiv> first_words frh (p_user_stack (pcb_of k p)) entry"
  shows "p_registers (pcb_of k' p) ! 4 = sp - 100" and "i < 25 \<Longrightarrow> load32 (mem (k_mm k')) (slot_word sp i) = vs ! i"
proof -
  have n: "length vs = 25" by (simp add: vs_def first_words_def user_frame_def switch_frame_def)
  have pw: "push_words switch_frame (push_words (user_frame frh (p_user_stack (pcb_of k p)) entry) (mem (k_mm k), sp)) =
    push_words vs (mem (k_mm k), sp)" by (simp add: vs_def first_words_def push_words_def)
  have k': "mem (k_mm k') = fst (push_words vs (mem (k_mm k), sp))"
    "p_registers (pcb_of k' p) ! 4 = snd (push_words vs (mem (k_mm k), sp))"
    using prep(1-4) pw by (auto simp: sp_def process_setup_stack_def Let_def pcb_of_def split: prod.splits)
  have al: "aligned4 sp" using prep(5) by (simp add: sp_def)
  show "p_registers (pcb_of k' p) ! 4 = sp - 100" "i < 25 \<Longrightarrow> load32 (mem (k_mm k')) (slot_word sp i) = vs ! i"
    using push_words_spec[OF al, of vs "mem (k_mm k)"] n k' by auto
qed

text \<open>\<^verbatim>\<open>first_run_user_handler\<close> on these words.\<close>

lemma first_run_handler:
  assumes w: "\<And>i. i < 25 \<Longrightarrow> load32 m (slot_word sp i) = first_words frh us entry ! i" and c: "r_esp c = sp - 76" "r_cs c AND 3 = 0"
  shows "first_run_user_handler m c = c\<lparr>r_gs := 0x23, r_fs := 0x23, r_es := 0x23, r_ds := 0x23, r_edi := 0, r_esi := 0, r_ebp := 0,
     r_ebx := 0, r_edx := 0, r_ecx := 0, r_eax := 0, r_eip := entry, r_cs := 0x1B, r_eflags := 0x202, r_esp := us + 16384, r_ss := 0x23\<rparr>"
proof -
  have ld: "load32 m (sp - 76) = 0x23" "load32 m (sp - 72) = 0x23" "load32 m (sp - 68) = 0x23" "load32 m (sp - 64) = 0x23"
    "load32 m (sp - 60) = 0" "load32 m (sp - 56) = 0" "load32 m (sp - 52) = 0" "load32 m (sp - 44) = 0"
    "load32 m (sp - 40) = 0" "load32 m (sp - 36) = 0" "load32 m (sp - 32) = 0"
    "load32 m (sp - 20) = entry" "load32 m (sp - 16) = 0x1B" "load32 m (sp - 12) = 0x202"
    "load32 m (sp - 8) = us + 16384" "load32 m (sp - 4) = 0x23"
    using w[of 18] w[of 17] w[of 16] w[of 15] w[of 14] w[of 13] w[of 12] w[of 10] w[of 9] w[of 8] w[of 7]
      w[of 4] w[of 3] w[of 2] w[of 1] w[of 0]
    by (simp_all add: first_words_def slot_word_def user_frame_def switch_frame_def)
  let ?d = "popa m (pop_segments m c)"
  have d: "?d = c\<lparr>r_gs := 0x23, r_fs := 0x23, r_es := 0x23, r_ds := 0x23, r_edi := 0, r_esi := 0, r_ebp := 0,
     r_ebx := 0, r_edx := 0, r_ecx := 0, r_esp := sp - 28, r_eax := 0\<rparr>"
    using ld by (simp add: pop_segments_eq popa_eq c Let_def)
  have "iret m (?d\<lparr>r_esp := r_esp ?d + 8\<rparr>) = ?d\<lparr>r_eip := entry, r_cs := 0x1B, r_eflags := 0x202, r_esp := us + 16384, r_ss := 0x23\<rparr>"
    by (subst iret_user_eq) (use ld c in \<open>simp_all add: d Let_def\<close>)
  then show ?thesis unfolding first_run_user_handler_def Let_def by (simp add: d)
qed

text \<open>
  C29: The first run of a user process ends in user mode at its entry point. After
  \<^verbatim>\<open>process_setup_stack\<close>, the first switch to the process (with the prepared words of its kernel stack and
  its saved stack pointer untouched) goes to \<^verbatim>\<open>first_run_user_handler\<close>, and that handler leaves the processor
  at the entry point with user code and data segments, the stack pointer at the top of the user stack,
  interrupts enabled, and all general registers zero.
\<close>

theorem first_run_enters_user_mode:
  assumes lay: "p < MAX_PROCESSES" "unat pt + 7680 < 2 ^ 32" "pt \<noteq> 0"
    and prep: "process_setup_stack frh (Some p) entry k = Return () k'" "p_is_user (pcb_of k p)" "entry \<noteq> 0"
      "length (p_registers (pcb_of k p)) = 16" "page_aligned (p_kernel_stack (pcb_of k p))"
    and kept: "p_registers (pcbs s p) ! 4 = p_registers (pcb_of k' p) ! 4"
      "same_words (slot_word (p_kernel_stack (pcb_of k p) + 8192) ` {..<25}) (mem (k_mm k')) m"
    and switch: "context_switch_asm pt (c, m, s) = (c1, m1, s1)" "load32 m (r_esp c + 8) = pcb_ptr pt p"
      "load32 m (r_esp c + 4) \<in> {0} \<union> pcb_ptr pt ` ({..<MAX_PROCESSES} - {p})" "aligned4 (r_esp c)" "r_cs c AND 3 = 0"
      "slot_word (p_kernel_stack (pcb_of k p) + 8192) ` {..<25} \<inter> (saved_words (r_esp c - 20) - {r_esp c}) = {}"
  shows "r_eip c1 = frh \<and> (let u = first_run_user_handler m1 c1 in
    r_eip u = entry \<and> r_cs u = 0x1B \<and> r_eflags u = 0x202 \<and> r_ss u = 0x23 \<and>
    r_esp u = p_user_stack (pcb_of k p) + 16384 \<and>
    r_ds u = 0x23 \<and> r_es u = 0x23 \<and> r_fs u = 0x23 \<and> r_gs u = 0x23 \<and>
    r_eax u = 0 \<and> r_ebx u = 0 \<and> r_ecx u = 0 \<and> r_edx u = 0 \<and> r_esi u = 0 \<and> r_edi u = 0 \<and> r_ebp u = 0)"
proof -
  let ?sp = "p_kernel_stack (pcb_of k p) + 8192" and ?vs = "first_words frh (p_user_stack (pcb_of k p)) entry"
  have al: "aligned4 ?sp" by (rule aligned4_plus) (use prep(5) in \<open>auto simp: aligned4_def page_aligned_def mod_mod_cancel elim!: page_alignedE\<close>)
  note P = setup_stack_words[OF prep(1-4) al]
  let ?W = "slot_word ?sp ` {..<25}"
  have "aligned4 w" if "w \<in> ?W" for w using that slot_word_aligned[OF al] by auto
  then obtain c' m' s' where f: "context_switch_asm pt (c, m, s) = load_context pt (c', m', s')"
    "r_edx c' = pcb_ptr pt p" "p_registers (pcbs s' p) ! 4 = p_registers (pcbs s p) ! 4"
    "\<And>w. w \<in> ?W \<Longrightarrow> load32 m' w = load32 m w" "r_cs c' = r_cs c"
    using switch_in[OF lay switch(2-4) _ switch(6)] by metis
  have w: "load32 m' (slot_word ?sp i) = ?vs ! i" if "i < 25" for i
    using f(4) kept(2) P(2)[OF that] that by (simp add: same_words_def)
  have "load32 m' (?sp - 100) = 0" "load32 m' (?sp - 96) = 0" "load32 m' (?sp - 92) = 0" "load32 m' (?sp - 88) = 0"
    "load32 m' (?sp - 84) = 0x202" "load32 m' (?sp - 80) = frh"
    using w[of 24] w[of 23] w[of 22] w[of 21] w[of 20] w[of 19]
    by (simp_all add: first_words_def slot_word_def user_frame_def switch_frame_def)
  then have c1: "c1 = c'\<lparr>r_edi := 0, r_esi := 0, r_ebx := 0, r_ebp := 0, r_eflags := 0x202, r_esp := ?sp - 76, r_eip := frh\<rparr>" "m1 = m'"
    using switch(1) f(1-3) kept(1) P(1) pcb_slot_ptr[OF lay(1,2)] by (auto simp: load_context_eq Let_def)
  have "first_run_user_handler m1 c1 = c1\<lparr>r_gs := 0x23, r_fs := 0x23, r_es := 0x23, r_ds := 0x23, r_edi := 0, r_esi := 0, r_ebp := 0,
     r_ebx := 0, r_edx := 0, r_ecx := 0, r_eax := 0, r_eip := entry, r_cs := 0x1B, r_eflags := 0x202,
     r_esp := p_user_stack (pcb_of k p) + 16384, r_ss := 0x23\<rparr>"
    unfolding c1(2) by (rule first_run_handler[OF w]) (use f(5) switch(5) in \<open>simp_all add: c1(1)\<close>)
  then show ?thesis unfolding Let_def by (simp add: c1(1))
qed

theorem first_run_enters_user_mode_witness:
  "\<exists>k' c1 m1 s1.
     process_setup_stack 0x200000 (Some 1) 0x400000 (set_pcb 1 (\<lambda>b. b\<lparr>p_is_user := True, p_kernel_stack := 0x6000, p_user_stack := 0x8000\<rparr>) demo_kernel)
       = Return () k' \<and>
     context_switch_asm 0x100000 (demo_cpu 0x20000, call_frame 0x20000 0 (pcb_ptr 0x100000 1) (mem (k_mm k')), k_sched k') = (c1, m1, s1) \<and>
     r_eip c1 = 0x200000 \<and> r_cs (first_run_user_handler m1 c1) = 0x1B \<and> r_esp (first_run_user_handler m1 c1) = 0xC000"
proof -
  let ?k = "set_pcb 1 (\<lambda>b. b\<lparr>p_is_user := True, p_kernel_stack := 0x6000, p_user_stack := 0x8000\<rparr>) demo_kernel"
  have pcb: "p_is_user (pcb_of ?k 1)" "p_kernel_stack (pcb_of ?k 1) = 0x6000" "p_user_stack (pcb_of ?k 1) = 0x8000"
    "length (p_registers (pcb_of ?k 1)) = 16"
    by (simp_all add: pcb_of_def demo_sched_def zero_pcb_def)
  obtain k' where st: "process_setup_stack 0x200000 (Some 1) 0x400000 ?k = Return () k'"
    using setup_stack_returns[of "0x400000" "0x200000" 1 ?k] by auto
  let ?m = "call_frame 0x20000 0 (pcb_ptr 0x100000 1) (mem (k_mm k'))"
  obtain c1 m1 s1 where sw: "context_switch_asm 0x100000 (demo_cpu 0x20000, ?m, k_sched k') = (c1, m1, s1)"
    by (metis prod_cases3)
  have al: "aligned4 0x20000" "aligned4 (0x6000 + 8192)" by (simp_all add: aligned4_def)
  have low: "w < 0x6000 + 8192" "aligned4 w" if "w \<in> slot_word (0x6000 + 8192) ` {..<25}" for w
    using that slot_word_low[of _ "0x6000 + 8192"] slot_word_aligned[OF al(2)] by auto
  have same: "same_words (slot_word (p_kernel_stack (pcb_of ?k 1) + 8192) ` {..<25}) (mem (k_mm k')) ?m"
    unfolding same_words_def pcb
  proof
    fix w
    assume "w \<in> slot_word (0x6000 + 8192) ` {..<25}"
    note l = low[OF this]
    have "w \<noteq> 0x20000 + 4" "w \<noteq> 0x20000 + 8" using l(1) by auto
    then show "load32 ?m w = load32 (mem (k_mm k')) w" using call_frame_other[OF al(1) l(2)] by simp
  qed
  have dis: "slot_word (p_kernel_stack (pcb_of ?k 1) + 8192) ` {..<25} \<inter>
    (saved_words (r_esp (demo_cpu 0x20000) - 20) - {r_esp (demo_cpu 0x20000)}) = {}"
    unfolding pcb saved_words_def using low(1) by (fastforce simp: word_less_nat_alt)
  show ?thesis
    using first_run_enters_user_mode[OF _ _ _ st pcb(1) _ pcb(4) _ _ same sw _ _ _ _ dis] st sw al pcb
      call_frame_args[OF al(1), of 0 "pcb_ptr 0x100000 1" "mem (k_mm k')"]
    by (simp add: MAX_PROCESSES_def page_aligned_def pcb_of_def Let_def)
qed

end
