(* ===== verification/Interrupt.thy ===== *)
theory Interrupt
  imports Syscall Hal_Timer Context
begin

text \<open>
  Interrupts, \<^verbatim>\<open>kernel/interrupt.c\<close>: the common handler with its exception report, and the assembly entry points, from the words
  that the processor pushes to the return. The entry code runs on the register file of the theory \<open>Context\<close>; the
  handler it calls is the kernel operation, which can suspend the process in the middle, and the registers are restored
  from the trap frame in the memory of the kernel state at that time. The stack that the C code itself uses
  lies below the trap frame and is not represented.
\<close>

section \<open>The handler\<close>

definition timer_interrupt_handler :: "kernel \<Rightarrow> unit outcome" where
  "timer_interrupt_handler k = hal_timer_interrupt_handler k"

definition keyboard_interrupt_handler :: "kernel \<Rightarrow> unit outcome" where
  "keyboard_interrupt_handler k = Return () (k\<lparr>k_io := snd (hal_inb PORT_KEYBOARD_DATA (k_io k))\<rparr>)"

definition exception_name :: "u32 \<Rightarrow> string" where
  "exception_name int_no = (if int_no = 14 then ''Page Fault'' else if int_no = 13 then ''GPF'' else ''Other'')"

text \<open>The text that the exception branch prints before it decides what to do.\<close>

definition fault_report :: "processor \<Rightarrow> u32 \<Rightarrow> string" where
  "fault_report cpu err_code =
     ''Fault Address: '' @ hex_string (hal_cpu_get_cr2 cpu) @ '' ('' @
     (if err_code AND 0x01 \<noteq> 0 then ''Present '' else ''Non-present '') @
     (if err_code AND 0x02 \<noteq> 0 then ''Write '' else ''Read '') @
     (if err_code AND 0x04 \<noteq> 0 then ''User '' else ''Kernel '') @ '')'' @ crlf"

definition exception_report :: "processor \<Rightarrow> u32 \<Rightarrow> nat option \<Rightarrow> kernel \<Rightarrow> kernel" where
  "exception_report cpu frame current k =
     (let w = (\<lambda>off. hex_string (frame_word k frame off));
          k = print (crlf @ ''CPU EXCEPTION '' @ w FRAME_INT_NO @ '' ('' @ exception_name (frame_word k frame FRAME_INT_NO) @
            '') Error Code: '' @ w FRAME_ERR_CODE @ crlf) k;
          k = (case current of None \<Rightarrow> k | Some c \<Rightarrow> print (''PID: '' @ hex_string (p_pid (pcb_of k c)) @ crlf) k);
          k = print (''EIP: '' @ w FRAME_EIP @ '' CS: '' @ w FRAME_CS @ '' EFLAGS: '' @ w FRAME_EFLAGS @ crlf) k;
          k = print (''EAX: '' @ w FRAME_EAX @ '' EBX: '' @ w FRAME_EBX @ '' ECX: '' @ w FRAME_ECX @ '' EDX: '' @ w FRAME_EDX @ crlf) k;
          k = print (''DS: '' @ w FRAME_DS @ '' ES: '' @ w FRAME_ES @ '' FS: '' @ w FRAME_FS @ '' GS: '' @ w FRAME_GS @ crlf) k;
          k = print (''ESP: '' @ w FRAME_USER_ESP @ '' SS: '' @ w FRAME_USER_SS @ crlf) k
      in if frame_word k frame FRAME_INT_NO = 14 then print (fault_report cpu (frame_word k frame FRAME_ERR_CODE)) k else k)"

definition handle_exception :: "processor \<Rightarrow> u32 \<Rightarrow> kernel \<Rightarrow> unit outcome" where
  "handle_exception cpu frame k =
     (let current = current_of k;
          k = exception_report cpu frame current k
      in if frame_word k frame FRAME_CS AND 0x03 = 0x03 \<and> current \<noteq> None
         then process_exit current (frame_word k frame FRAME_INT_NO) (print (''User process crashed. Terminating.'' @ crlf) k)
         else kernel_panic ''Unhandled CPU exception in kernel'' k)"

definition handle_irq :: "u32 \<Rightarrow> kernel \<Rightarrow> unit outcome" where
  "handle_irq irq k =
     obind (if irq = 0 then timer_interrupt_handler k
            else if irq = 1 then keyboard_interrupt_handler k
            else Return () k) (\<lambda>_ k.
     Return () (k\<lparr>k_io := hal_pic_send_eoi (ucast irq) (k_io k)\<rparr>))"

definition interrupt_handler_common :: "processor \<Rightarrow> u32 \<Rightarrow> kernel \<Rightarrow> unit outcome" where
  "interrupt_handler_common cpu frame k =
     (let int_no = frame_word k frame FRAME_INT_NO in
      if int_no < 32 then handle_exception cpu frame k
      else if int_no \<ge> 32 \<and> int_no < 48 then handle_irq (int_no - 32) k
      else Return () k)"

section \<open>The assembly\<close>

text \<open>What each entry point pushes before it jumps to the common code.\<close>

fun stub_words :: "handler \<Rightarrow> u32 list" where
  "stub_words divide_error = [0, 0]"
| "stub_words debug_exception = [0, 1]"
| "stub_words nmi = [0, 2]"
| "stub_words breakpoint = [0, 3]"
| "stub_words overflow = [0, 4]"
| "stub_words bound_range_exceeded = [0, 5]"
| "stub_words invalid_opcode = [0, 6]"
| "stub_words device_not_available = [0, 7]"
| "stub_words double_fault = [8]"
| "stub_words invalid_tss = [10]"
| "stub_words segment_not_present = [11]"
| "stub_words stack_segment_fault = [12]"
| "stub_words general_protection_fault = [13]"
| "stub_words page_fault = [14]"
| "stub_words x87_fpu_error = [0, 16]"
| "stub_words alignment_check = [17]"
| "stub_words machine_check = [0, 18]"
| "stub_words simd_floating_point = [0, 19]"
| "stub_words timer_irq = [0, 32]"
| "stub_words keyboard_irq = [0, 33]"
| "stub_words syscall_wrapper = [0, 0x80]"

definition push_all :: "u32 list \<Rightarrow> cpu \<times> memory \<Rightarrow> cpu \<times> memory" where
  "push_all ws cm = foldl (\<lambda>cm w. push32 w cm) cm ws"

text \<open>\<^verbatim>\<open>pusha\<close> pushes the stack pointer as it was before the instruction.\<close>

definition pusha :: "cpu \<times> memory \<Rightarrow> cpu \<times> memory" where
  "pusha cm = (let c = fst cm in
     push_all [r_eax c, r_ecx c, r_edx c, r_ebx c, r_esp c, r_ebp c, r_esi c, r_edi c] cm)"

definition save_registers :: "cpu \<times> memory \<Rightarrow> cpu \<times> memory" where
  "save_registers cm =
     (let (c, m) = pusha cm;
          (c, m) = push_all [r_ds c, r_es c, r_fs c, r_gs c] (c, m);
          c = c\<lparr>r_eax := (r_eax c AND NOT 0xFFFF) OR 0x10\<rparr>
      in (c\<lparr>r_ds := 0x10, r_es := 0x10, r_fs := 0x10, r_gs := 0x10\<rparr>, m))"

definition restore_registers :: "memory \<Rightarrow> cpu \<Rightarrow> cpu" where
  "restore_registers m c =
     (let c = popa m (pop_segments m c) in iret m (c\<lparr>r_esp := r_esp c + 8\<rparr>))"

definition trap_common :: "(u32 \<Rightarrow> kernel \<Rightarrow> unit outcome) \<Rightarrow> cpu \<Rightarrow> kernel \<Rightarrow> cpu outcome" where
  "trap_common body c k =
     (let (c, m) = save_registers (c, kmem k);
          frame = r_esp c;
          (c, m) = push32 frame (c, m)
      in obind (body frame (set_mem m k)) (\<lambda>_ k.
         Return (restore_registers (kmem k) (c\<lparr>r_esp := r_esp c + 4\<rparr>)) k))"

definition interrupt_entry :: "processor \<Rightarrow> handler \<Rightarrow> cpu \<Rightarrow> kernel \<Rightarrow> cpu outcome" where
  "interrupt_entry cpu h c k =
     (let (c, m) = push_all (stub_words h) (c, kmem k)
      in trap_common (if h = syscall_wrapper then syscall_dispatch else interrupt_handler_common cpu) c (set_mem m k))"

text \<open>
  What the processor does when it takes an interrupt through a gate of the table: it takes the stack of ring 0 from the task state
  segment when it comes from user mode, pushes where it was, clears the interrupt, trap, nested-task, resume and virtual-mode flags, and pushes an error code for some
  exceptions.
\<close>

definition has_error_code :: "nat \<Rightarrow> bool" where
  "has_error_code n \<longleftrightarrow> n \<in> {8, 10, 11, 12, 13, 14, 17}"

definition take_interrupt :: "u32 \<Rightarrow> u32 \<Rightarrow> nat \<Rightarrow> u32 \<Rightarrow> u32 \<Rightarrow> cpu \<times> memory \<Rightarrow> cpu \<times> memory" where
  "take_interrupt esp0 ss0 n err entry_point cm =
     (let c = fst cm;
          cm = (if r_cs c AND 3 \<noteq> 0 then push_all [r_ss c, r_esp c] (c\<lparr>r_esp := esp0, r_ss := ss0\<rparr>, snd cm) else cm);
          cm = push_all ([r_eflags c, r_cs c, r_eip c] @ (if has_error_code n then [err] else [])) cm
      in ((fst cm)\<lparr>r_cs := 0x08, r_eflags := r_eflags c AND NOT 0x34300, r_eip := entry_point\<rparr>, snd cm))"

definition trap :: "processor \<Rightarrow> (handler \<Rightarrow> u32) \<Rightarrow> u32 \<Rightarrow> u32 \<Rightarrow> nat \<Rightarrow> u32 \<Rightarrow> cpu \<Rightarrow> kernel \<Rightarrow> cpu outcome" where
  "trap cpu addr esp0 ss0 n err c k = (case vector_handler n of
     None \<Rightarrow> Undef
   | Some h \<Rightarrow> (case take_interrupt esp0 ss0 n err (addr h) (c, kmem k) of (c, m) \<Rightarrow> interrupt_entry cpu h c (set_mem m k)))"

section \<open>The trap frame\<close>

lemma push_words_append: "push_words (a @ b) ms = push_words b (push_words a ms)"
  by (simp add: push_words_def)

lemma push_all_eq:
  "push_all ws (c, m) = (c\<lparr>r_esp := snd (push_words ws (m, r_esp c))\<rparr>, fst (push_words ws (m, r_esp c)))"
  by (induction ws arbitrary: c m) (simp_all add: push_all_def push_words_def push_word_def push32_def)

lemma push_all_state:
  assumes "r_esp c = snd ms"
  shows "push_all ws (c, fst ms) = (c\<lparr>r_esp := snd (push_words ws ms)\<rparr>, fst (push_words ws ms))"
  using assms by (simp add: push_all_eq)

lemma save_registers_state:
  assumes "r_esp c = snd ms"
  shows "save_registers (c, fst ms) =
    (let ms' = push_words [r_eax c, r_ecx c, r_edx c, r_ebx c, r_esp c, r_ebp c, r_esi c, r_edi c, r_ds c, r_es c, r_fs c, r_gs c] ms
     in (c\<lparr>r_esp := snd ms', r_eax := (r_eax c AND NOT 0xFFFF) OR 0x10, r_ds := 0x10, r_es := 0x10, r_fs := 0x10, r_gs := 0x10\<rparr>,
         fst ms'))"
proof -
  have "push_words [r_eax c, r_ecx c, r_edx c, r_ebx c, r_esp c, r_ebp c, r_esi c, r_edi c, r_ds c, r_es c, r_fs c, r_gs c] ms =
      push_words [r_ds c, r_es c, r_fs c, r_gs c] (push_words [r_eax c, r_ecx c, r_edx c, r_ebx c, r_esp c, r_ebp c, r_esi c, r_edi c] ms)"
    by (simp add: push_words_append[symmetric])
  then show ?thesis using assms by (simp add: save_registers_def pusha_def push_all_state Let_def)
qed

lemma push_words_snd: "snd (push_words ws (m, sp)) = sp - of_nat (4 * length ws)"
  by (induction ws arbitrary: m sp) (simp_all add: push_words_def push_word_def algebra_simps)

lemma vector_gate:
  assumes "vector_handler n = Some h"
  obtains m fl where "(m, h, fl) \<in> set gates" "unat m = n"
  using assms by (fastforce simp: vector_handler_gates find_Some_iff dest: nth_mem)

lemma stub_uniform:
  assumes "vector_handler n = Some h"
  shows "(if has_error_code n then [err] else []) @ stub_words h = [if has_error_code n then err else 0, of_nat n]"
    and "h = syscall_wrapper \<longleftrightarrow> n = 0x80"
  by (rule vector_gate[OF assms]; auto simp: gates_def has_error_code_def)+

text \<open>The nineteen words of the frame of a trap from user mode, in the order they are pushed.\<close>

definition trap_words :: "u32 \<Rightarrow> nat \<Rightarrow> u32 \<Rightarrow> cpu \<Rightarrow> u32 list" where
  "trap_words esp0 n err c =
     [r_ss c, r_esp c, r_eflags c, r_cs c, r_eip c, if has_error_code n then err else 0, of_nat n,
      r_eax c, r_ecx c, r_edx c, r_ebx c, esp0 - 28, r_ebp c, r_esi c, r_edi c, r_ds c, r_es c, r_fs c, r_gs c]"

definition entry_memory :: "u32 \<Rightarrow> nat \<Rightarrow> u32 \<Rightarrow> cpu \<Rightarrow> memory \<Rightarrow> memory" where
  "entry_memory esp0 n err c m = fst (push_words (trap_words esp0 n err c @ [esp0 - 76]) (m, esp0))"

lemma user_trap:
  assumes "vector_handler n = Some h" "r_cs c AND 3 = 3"
  obtains c2 where "r_esp c2 = esp0 - 76" "r_cs c2 = 8"
    "trap cpu addr esp0 ss0 n err c k =
       obind ((if n = 0x80 then syscall_dispatch else interrupt_handler_common cpu) (esp0 - 76)
                (set_mem (entry_memory esp0 n err c (kmem k)) k))
         (\<lambda>_ k'. Return (restore_registers (kmem k') c2) k')"
proof -
  define code where "code = (if has_error_code n then [err] else [])"
  let ?w5 = "[r_ss c, r_esp c, r_eflags c, r_cs c, r_eip c]"
  define m1 where "m1 = push_words (?w5 @ code) (kmem k, esp0)"
  define m2 where "m2 = push_words (stub_words h) m1"
  define m3 where "m3 = push_words (trap_words esp0 n err c) (kmem k, esp0)"
  define c1 where "c1 = c\<lparr>r_esp := snd m1, r_ss := ss0, r_cs := 0x08, r_eflags := r_eflags c AND NOT 0x34300, r_eip := addr h\<rparr>"
  define c2 where "c2 = c1\<lparr>r_esp := esp0 - 76, r_eax := (r_eax c1 AND NOT 0xFFFF) OR 0x10,
    r_ds := 0x10, r_es := 0x10, r_fs := 0x10, r_gs := 0x10\<rparr>"
  have "m1 = push_words ([r_eflags c, r_cs c, r_eip c] @ code) (push_words [r_ss c, r_esp c] (kmem k, esp0))"
    by (simp add: m1_def push_words_append[symmetric])
  then have t: "take_interrupt esp0 ss0 n err (addr h) (c, kmem k) = (c1, fst m1)"
    using assms(2) by (simp add: take_interrupt_def push_all_eq c1_def code_def Let_def)
  have "m2 = push_words (?w5 @ (code @ stub_words h)) (kmem k, esp0)"
    by (simp add: m2_def m1_def push_words_append[symmetric])
  then have m2: "m2 = push_words (?w5 @ [if has_error_code n then err else 0, of_nat n]) (kmem k, esp0)"
    unfolding code_def stub_uniform(1)[OF assms(1)] .
  have s1: "push_all (stub_words h) (c1, fst m1) = (c1\<lparr>r_esp := snd m2\<rparr>, fst m2)"
    unfolding m2_def by (rule push_all_state) (simp add: c1_def)
  have e2: "snd m2 = esp0 - 28" unfolding m2 by (simp add: push_words_snd)
  let ?w12 = "[r_eax c, r_ecx c, r_edx c, r_ebx c, esp0 - 28, r_ebp c, r_esi c, r_edi c, r_ds c, r_es c, r_fs c, r_gs c]"
  have m3: "push_words ?w12 m2 = m3" "snd m3 = esp0 - 76"
    unfolding m2 m3_def by (simp_all add: push_words_append[symmetric] trap_words_def push_words_snd)
  then have s2: "save_registers (c1\<lparr>r_esp := snd m2\<rparr>, fst m2) = (c2, fst m3)"
    using e2 by (subst save_registers_state) (simp_all add: c2_def c1_def Let_def)
  have s3: "push32 (esp0 - 76) (c2, fst m3) = (c2\<lparr>r_esp := esp0 - 80\<rparr>, entry_memory esp0 n err c (kmem k))"
    using m3(2) unfolding m3_def by (simp add: push32_def entry_memory_def push_words_snoc push_word_def c2_def)
  have km: "kmem (set_mem m k) = m" "set_mem m (set_mem m' k) = set_mem m k" for m m' by (simp_all add: kmem_def set_mem_def)
  have r: "r_esp c2 = esp0 - 76" "r_cs c2 = 8" "c2\<lparr>r_esp := esp0 - 76\<rparr> = c2" by (simp_all add: c2_def c1_def)
  let ?body = "if n = 0x80 then syscall_dispatch else interrupt_handler_common cpu"
  have "trap cpu addr esp0 ss0 n err c k = trap_common ?body (c1\<lparr>r_esp := snd m2\<rparr>) (set_mem (fst m2) k)"
    by (simp only: trap_def assms(1) t interrupt_entry_def s1 km stub_uniform(2)[OF assms(1)] Let_def option.case prod.case)
  also have "\<dots> = obind (?body (esp0 - 76) (set_mem (entry_memory esp0 n err c (kmem k)) k))
      (\<lambda>_ k'. Return (restore_registers (kmem k') c2) k')"
    by (simp add: trap_common_def km s2 s3 r)
  finally show thesis by (rule that[OF r(1,2)])
qed

lemma entry_memory_word:
  assumes "aligned4 esp0" "i < 19"
  shows "load32 (entry_memory esp0 n err c m) (slot_word esp0 i) = trap_words esp0 n err c ! i"
proof -
  have len: "length (trap_words esp0 n err c) = 19" by (simp add: trap_words_def)
  then show ?thesis
    using push_words_spec[OF assms(1), of "trap_words esp0 n err c @ [esp0 - 76]" m] assms(2)
    by (simp add: entry_memory_def nth_append)
qed

lemma frame_slot: "esp0 - 76 + of_nat (4 * j) = slot_word esp0 (18 - j)" if "j \<le> 18"
proof -
  have "(of_nat (4 * (18 - j + 1)) :: u32) + of_nat (4 * j) = of_nat 76"
    unfolding of_nat_add[symmetric] using that by (intro arg_cong[of _ _ of_nat]) simp
  then have "(76 :: u32) = of_nat (4 * (18 - j + 1)) + of_nat (4 * j)" by simp
  then show ?thesis unfolding slot_word_def by (simp only:) (simp add: algebra_simps)
qed

text \<open>
  A frame whose words are intact, the one of EAX apart, gives back the registers of the interrupted process.
\<close>

lemma restore_frame:
  assumes c2: "r_esp c2 = esp0 - 76" "r_cs c2 = 8" and user: "r_cs c AND 3 = 3"
    and frame: "\<And>i. i < 19 \<Longrightarrow> i \<noteq> 7 \<Longrightarrow> load32 m (slot_word esp0 i) = trap_words esp0 n err c ! i"
  shows "restore_registers m c2 = c\<lparr>r_eax := load32 m (slot_word esp0 7)\<rparr>"
proof -
  define e where "e = esp0 - 76"
  have slot: "slot_word esp0 (18 - j) = e + of_nat (4 * j)" if "j \<le> 18" for j using frame_slot[OF that] by (simp add: e_def)
  have w: "load32 m (e + of_nat (4 * j)) = trap_words esp0 n err c ! (18 - j)" if "j \<le> 18" "j \<noteq> 11" for j
    using frame[of "18 - j"] slot[OF that(1)] that by simp
  have l: "load32 m e = r_gs c" "load32 m (e + 4) = r_fs c" "load32 m (e + 8) = r_es c" "load32 m (e + 12) = r_ds c"
    "load32 m (e + 16) = r_edi c" "load32 m (e + 20) = r_esi c" "load32 m (e + 24) = r_ebp c" "load32 m (e + 32) = r_ebx c"
    "load32 m (e + 36) = r_edx c" "load32 m (e + 40) = r_ecx c" "load32 m (e + 56) = r_eip c" "load32 m (e + 60) = r_cs c"
    "load32 m (e + 64) = r_eflags c" "load32 m (e + 68) = r_esp c" "load32 m (e + 72) = r_ss c"
    using w[of 0] w[of 1] w[of 2] w[of 3] w[of 4] w[of 5] w[of 6] w[of 8] w[of 9] w[of 10] w[of 14] w[of 15] w[of 16] w[of 17] w[of 18]
    by (simp_all add: trap_words_def)
  have eax: "slot_word esp0 7 = e + 44" using slot[of 11] by simp
  define d where "d = (popa m (pop_segments m c2))\<lparr>r_esp := e + 56\<rparr>"
  have d: "restore_registers m c2 = iret m d" "r_esp d = e + 56" "r_cs d = 8"
    using c2 by (simp_all add: restore_registers_def d_def popa_eq pop_segments_eq e_def Let_def add.assoc)
  have "iret m d = d\<lparr>r_eip := r_eip c, r_cs := r_cs c, r_eflags := r_eflags c, r_esp := r_esp c, r_ss := r_ss c\<rparr>"
    using l user d(2,3) by (subst iret_user_eq) (simp_all add: Let_def add.assoc)
  also have "\<dots> = c\<lparr>r_eax := load32 m (slot_word esp0 7)\<rparr>"
    using l c2(1) unfolding d_def eax e_def[symmetric]
    by (simp add: popa_eq pop_segments_eq Let_def add.assoc e_def[symmetric])
  finally show ?thesis using d(1) by simp
qed

definition frame_slots :: "u32 \<Rightarrow> u32 set" where
  "frame_slots esp0 = slot_word esp0 ` {..<19}"

definition trap_state :: "u32 \<Rightarrow> nat \<Rightarrow> u32 \<Rightarrow> cpu \<Rightarrow> kernel \<Rightarrow> kernel" where
  "trap_state esp0 n err c k = set_mem (entry_memory esp0 n err c (kmem k)) k"

lemma trap_state_word:
  assumes "aligned4 esp0" "j \<le> 18"
  shows "load32 (kmem (trap_state esp0 n err c k)) (esp0 - 76 + of_nat (4 * j)) = trap_words esp0 n err c ! (18 - j)"
proof -
  have "kmem (trap_state esp0 n err c k) = entry_memory esp0 n err c (kmem k)" by (simp add: trap_state_def kmem_def set_mem_def)
  then show ?thesis unfolding frame_slot[OF assms(2)] using entry_memory_word[OF assms(1), of "18 - j"] by simp
qed

lemma same_frame:
  assumes "aligned4 esp0" "same_words (frame_slots esp0) (kmem (trap_state esp0 n err c k)) m" "i < 19"
  shows "load32 m (slot_word esp0 i) = trap_words esp0 n err c ! i"
  using assms entry_memory_word[OF assms(1,3), of n err c "kmem k"]
  by (simp add: same_words_def frame_slots_def trap_state_def kmem_def set_mem_def)

text \<open>
  A trap from user mode: the body runs on the state with the frame, and afterwards, whenever that is, a memory with the
  frame intact apart from EAX restores the registers.
\<close>

lemma user_trap_run:
  assumes "vector_handler n = Some h" "r_cs c AND 3 = 3" "aligned4 esp0"
  obtains c2 where "trap cpu addr esp0 ss0 n err c k =
      obind ((if n = 0x80 then syscall_dispatch else interrupt_handler_common cpu) (esp0 - 76) (trap_state esp0 n err c k))
        (\<lambda>_ k'. Return (restore_registers (kmem k') c2) k')"
    "\<And>m v. same_words (frame_slots esp0) (kmem (trap_state esp0 n err c k)) m \<Longrightarrow>
       restore_registers (store32 m (slot_word esp0 7) v) c2 = c\<lparr>r_eax := v\<rparr>"
    "\<And>m. same_words (frame_slots esp0) (kmem (trap_state esp0 n err c k)) m \<Longrightarrow> restore_registers m c2 = c"
proof -
  obtain c2 where c2: "r_esp c2 = esp0 - 76" "r_cs c2 = 8"
    "trap cpu addr esp0 ss0 n err c k =
      obind ((if n = 0x80 then syscall_dispatch else interrupt_handler_common cpu) (esp0 - 76) (trap_state esp0 n err c k))
        (\<lambda>_ k'. Return (restore_registers (kmem k') c2) k')"
    unfolding trap_state_def
    by (rule user_trap[OF assms(1,2), where cpu = cpu and addr = addr and ?esp0.0 = esp0 and ?ss0.0 = ss0 and err = err and k = k])
  show thesis
  proof (rule that[OF c2(3)])
    fix m v assume same: "same_words (frame_slots esp0) (kmem (trap_state esp0 n err c k)) m"
    have keep: "load32 (store32 m (slot_word esp0 7) v) (slot_word esp0 i) = load32 m (slot_word esp0 i)" if "i < 19" "i \<noteq> 7" for i
      using slot_word_inj[of 7 i esp0] slot_word_aligned[OF assms(3)] that by (simp add: load32_store32_aligned)
    show "restore_registers (store32 m (slot_word esp0 7) v) c2 = c\<lparr>r_eax := v\<rparr>"
      using restore_frame[OF c2(1,2) assms(2), of "store32 m (slot_word esp0 7) v" n err] keep same_frame[OF assms(3) same] by simp
    have "load32 m (slot_word esp0 7) = r_eax c" using same_frame[OF assms(3) same, of 7] by (simp add: trap_words_def)
    then show "restore_registers m c2 = c"
      using restore_frame[OF c2(1,2) assms(2), of m n err] same_frame[OF assms(3) same] by simp
  qed
qed

lemma trap_state_simps [simp]:
  "k_sched (trap_state esp0 n err c k) = k_sched k" "k_io (trap_state esp0 n err c k) = k_io k"
  "timer_ticks (trap_state esp0 n err c k) = timer_ticks k" "syscall_table (trap_state esp0 n err c k) = syscall_table k"
  "current_of (trap_state esp0 n err c k) = current_of k"
  by (simp_all add: trap_state_def set_mem_def current_of_def)

lemma report_simps [simp]:
  "k_mm (exception_report cpu frame cur k) = k_mm k" "k_sched (exception_report cpu frame cur k) = k_sched k"
  "current_of (exception_report cpu frame cur k) = current_of k" "int_flag (exception_report cpu frame cur k) = int_flag k"
  by (simp_all add: exception_report_def Let_def split: option.splits)

lemma frame_word_print [simp]:
  "frame_word (print str k) frame off = frame_word k frame off"
  "frame_word (exception_report cpu frame' cur k) frame off = frame_word k frame off"
  by (simp_all add: frame_word_def kmem_def)

lemma report_console:
  "\<exists>r. console (exception_report cpu frame cur k) =
     console k @ crlf @ ''CPU EXCEPTION '' @ hex_string (frame_word k frame FRAME_INT_NO) @ r"
  by (cases cur; cases "frame_word k frame FRAME_INT_NO = 14") (simp_all add: exception_report_def Let_def)

section \<open>Properties\<close>

text \<open>A process in user mode, for the witnesses.\<close>

definition user_cpu :: cpu where
  "user_cpu = (demo_cpu 0x5000)\<lparr>r_eax := 0x30, r_cs := 0x1B\<rparr>"

text \<open>
  C5: A timer interrupt is transparent to the user process it interrupts. The tick is counted, and either the handler returns at
  once, with an end-of-interrupt command sent to the controller and every register of the process as it was; or it switches to another
  process, and whenever the interrupted one is resumed, if the frame on its kernel stack is still there, it continues with every register
  as it was. In the second case the end-of-interrupt command is sent only then: at the switch the controller has not been told.
\<close>

theorem preemption_transparent:
  assumes "r_cs c AND 3 = 3" and "aligned4 esp0" and "sched_inv (k_sched k) xs"
  shows "(\<exists>k'. trap cpu addr esp0 ss0 32 err c k = Return c k' \<and> timer_ticks k' = timer_ticks k + 1 \<and>
      k_io k' = hal_outb PORT_PIC_MASTER_CMD PIC_EOI (k_io k)) \<or>
    (\<exists>p q k1 rest. trap cpu addr esp0 ss0 32 err c k = Switch p q k1 rest \<and> timer_ticks k1 = timer_ticks k + 1 \<and>
      k_io k1 = k_io k \<and>
      (\<forall>k2. same_words (frame_slots esp0) (kmem k1) (kmem k2) \<longrightarrow>
        rest k2 = Return c (k2\<lparr>k_io := hal_outb PORT_PIC_MASTER_CMD PIC_EOI (k_io k2)\<rparr>)))"
proof -
  let ?k = "trap_state esp0 32 err c k"
  have "vector_handler 32 = Some timer_irq" by (simp add: vector_handler_def)
  then obtain c2 where
    "trap cpu addr esp0 ss0 32 err c k = obind ((if (32 :: nat) = 0x80 then syscall_dispatch else interrupt_handler_common cpu) (esp0 - 76) ?k)
        (\<lambda>_ k'. Return (restore_registers (kmem k') c2) k')"
    and r: "\<And>m. same_words (frame_slots esp0) (kmem ?k) m \<Longrightarrow> restore_registers m c2 = c"
    by (rule user_trap_run[OF _ assms(1,2), where cpu = cpu and addr = addr and ?ss0.0 = ss0 and err = err and k = k]) blast
  then have t: "trap cpu addr esp0 ss0 32 err c k = obind (interrupt_handler_common cpu (esp0 - 76) ?k)
        (\<lambda>_ k'. Return (restore_registers (kmem k') c2) k')" by simp
  have "frame_word ?k (esp0 - 76) FRAME_INT_NO = 32"
    using trap_state_word[OF assms(2), of 12 32 err c k] by (simp add: frame_word_def trap_words_def)
  then have h: "interrupt_handler_common cpu (esp0 - 76) ?k = handle_irq 0 ?k" by (simp add: interrupt_handler_common_def)
  obtain s ctl where tick: "scheduler_tick (k_sched k) = Some (s, ctl)" using tick_inv[OF assms(3)] by blast
  show ?thesis
  proof (cases ctl)
    case Returned
    define k' where "k' = ?k\<lparr>timer_ticks := timer_ticks k + 1, k_sched := s, k_io := hal_outb PORT_PIC_MASTER_CMD PIC_EOI (k_io k)\<rparr>"
    have "handle_irq 0 ?k = Return () k'"
      using tick Returned by (simp add: handle_irq_def timer_interrupt_handler_def hal_timer_interrupt_handler_def on_switch_def
        hal_pic_send_eoi_def k'_def)
    moreover have "restore_registers (kmem k') c2 = c" by (rule r) (simp add: same_words_def k'_def kmem_def)
    ultimately show ?thesis using t h by (simp add: k'_def)
  next
    case (Switched p q)
    define k1 where "k1 = print ''S'' (?k\<lparr>timer_ticks := timer_ticks k + 1, k_sched := s\<rparr>)"
    define rest where "rest = (\<lambda>k2. let k3 = k2\<lparr>k_io := hal_outb PORT_PIC_MASTER_CMD PIC_EOI (k_io k2)\<rparr>
      in Return (restore_registers (kmem k3) c2) k3)"
    have "handle_irq 0 ?k = Switch p q k1 (\<lambda>k2. Return () (k2\<lparr>k_io := hal_outb PORT_PIC_MASTER_CMD PIC_EOI (k_io k2)\<rparr>))"
      using tick Switched by (simp add: handle_irq_def timer_interrupt_handler_def hal_timer_interrupt_handler_def on_switch_def
        hal_pic_send_eoi_def k1_def)
    then have sw: "trap cpu addr esp0 ss0 32 err c k = Switch p q k1 rest" using t h by (simp add: rest_def Let_def)
    have "rest k2 = Return c (k2\<lparr>k_io := hal_outb PORT_PIC_MASTER_CMD PIC_EOI (k_io k2)\<rparr>)"
      if "same_words (frame_slots esp0) (kmem k1) (kmem k2)" for k2
      using r[of "kmem k2"] that by (simp add: rest_def k1_def kmem_def)
    moreover have "timer_ticks k1 = timer_ticks k + 1" "k_io k1 = k_io k" by (simp_all add: k1_def)
    ultimately show ?thesis using sw by blast
  qed
qed

theorem preemption_transparent_witness:
  "(\<exists>k'. trap demo_cpu_new (\<lambda>_. 0) 0x9000 0x10 32 0 user_cpu demo_kernel = Return user_cpu k' \<and> timer_ticks k' = 1) \<or>
   (\<exists>p q k1 rest. trap demo_cpu_new (\<lambda>_. 0) 0x9000 0x10 32 0 user_cpu demo_kernel = Switch p q k1 rest \<and> timer_ticks k1 = 1)"
proof -
  have "timer_ticks demo_kernel = 0" by (simp add: demo_kernel_def)
  moreover have "sched_inv (k_sched demo_kernel) [1, 2]" using demo_sched_inv by simp
  ultimately show ?thesis
    using preemption_transparent[of user_cpu "0x9000" demo_kernel "[1, 2]" demo_cpu_new "\<lambda>_. 0" "0x10" 0]
    by (auto simp: user_cpu_def aligned4_def)
qed

text \<open>
  C4: The system call interface. A user process that executes \<^verbatim>\<open>int $0x80\<close> with a number in EAX has the handler of that number run
  on its EBX, ECX and EDX; and when the handler is done, at once or after any number of switches to other processes,
  with the frame on the kernel stack still there, the process continues with the handler's result in EAX and every other register,
  flags, segments, stack and instruction pointer included, as it was. An unknown number gives \<^verbatim>\<open>STATUS_NOT_IMPLEMENTED\<close>.
\<close>

theorem syscall_abi:
  assumes "r_cs c AND 3 = 3" and "aligned4 esp0"
    and "length (syscall_table k0) = 256" and "syscall_table k = syscall_table (syscall_init k0)"
  shows "\<exists>k1 finish. k1 = syscall_trace (r_eax c) (current_of k) (trap_state esp0 0x80 err c k) \<and>
    trap cpu addr esp0 ss0 0x80 err c k =
      obind (case map_of syscall_entries (r_eax c) of
               None \<Rightarrow> Return STATUS_NOT_IMPLEMENTED k1
             | Some h \<Rightarrow> call_handler h (r_ebx c) (r_ecx c) (r_edx c) k1) finish \<and>
    (\<forall>r k2. same_words (frame_slots esp0) (kmem k1) (kmem k2) \<longrightarrow>
       (\<exists>k3. finish r k2 = Return (c\<lparr>r_eax := r\<rparr>) k3))"
proof -
  let ?k = "trap_state esp0 0x80 err c k"
  have "vector_handler 0x80 = Some syscall_wrapper" by (simp add: vector_handler_def)
  then obtain c2 where
    "trap cpu addr esp0 ss0 0x80 err c k = obind ((if (0x80 :: nat) = 0x80 then syscall_dispatch else interrupt_handler_common cpu) (esp0 - 76) ?k)
        (\<lambda>_ k'. Return (restore_registers (kmem k') c2) k')"
    and r: "\<And>m v. same_words (frame_slots esp0) (kmem ?k) m \<Longrightarrow>
       restore_registers (store32 m (slot_word esp0 7) v) c2 = c\<lparr>r_eax := v\<rparr>"
    by (rule user_trap_run[OF _ assms(1,2), where cpu = cpu and addr = addr and ?ss0.0 = ss0 and err = err and k = k]) blast
  then have t: "trap cpu addr esp0 ss0 0x80 err c k = obind (syscall_dispatch (esp0 - 76) ?k)
        (\<lambda>_ k'. Return (restore_registers (kmem k') c2) k')" by simp
  have f: "frame_word ?k (esp0 - 76) FRAME_EAX = r_eax c" "frame_word ?k (esp0 - 76) FRAME_EBX = r_ebx c"
    "frame_word ?k (esp0 - 76) FRAME_ECX = r_ecx c" "frame_word ?k (esp0 - 76) FRAME_EDX = r_edx c"
    using trap_state_word[OF assms(2), of 11 "0x80" err c k] trap_state_word[OF assms(2), of 8 "0x80" err c k]
      trap_state_word[OF assms(2), of 10 "0x80" err c k] trap_state_word[OF assms(2), of 9 "0x80" err c k]
    by (simp_all add: frame_word_def trap_words_def)
  define k1 where "k1 = syscall_trace (r_eax c) (current_of k) ?k"
  have slot: "esp0 - 76 + FRAME_EAX = slot_word esp0 7" using frame_slot[of 11 esp0] by simp
  define finish where "finish = (\<lambda>r k'. let k3 = set_mem (store32 (kmem k') (slot_word esp0 7) r) k'
    in Return (restore_registers (kmem k3) c2) k3)"
  have tab: "syscall_table ?k = syscall_table (syscall_init k0)" using assms(4) by simp
  have "trap cpu addr esp0 ss0 0x80 err c k =
      obind (case map_of syscall_entries (r_eax c) of
               None \<Rightarrow> Return STATUS_NOT_IMPLEMENTED k1
             | Some h \<Rightarrow> call_handler h (r_ebx c) (r_ecx c) (r_edx c) k1) finish"
    unfolding t dispatch_lookup[OF assms(3) tab] f
    by (simp add: k1_def finish_def slot obind_assoc Let_def cong: option.case_cong)
  moreover have "kmem k1 = kmem ?k" by (simp add: k1_def kmem_def)
  then have "\<exists>k3. finish r k2 = Return (c\<lparr>r_eax := r\<rparr>) k3"
    if "same_words (frame_slots esp0) (kmem k1) (kmem k2)" for r k2
  proof -
    have "kmem (set_mem m k2) = m" for m by (simp add: kmem_def set_mem_def)
    then show ?thesis using that \<open>kmem k1 = kmem ?k\<close> by (simp add: finish_def r)
  qed
  ultimately show ?thesis using k1_def by blast
qed

theorem syscall_abi_witness:
  "\<exists>k3. trap demo_cpu_new (\<lambda>_. 0) 0x9000 0x10 0x80 0 user_cpu (syscall_init demo_kernel) =
     Return (user_cpu\<lparr>r_eax := STATUS_SUCCESS\<rparr>) k3"
proof -
  have "length (syscall_table demo_kernel) = 256" by (simp add: demo_kernel_def)
  moreover have "r_cs user_cpu AND 3 = 3" "aligned4 0x9000" by (simp_all add: user_cpu_def aligned4_def)
  ultimately obtain k1 finish where
    t: "trap demo_cpu_new (\<lambda>_. 0) 0x9000 0x10 0x80 0 user_cpu (syscall_init demo_kernel) =
      obind (case map_of syscall_entries (r_eax user_cpu) of
               None \<Rightarrow> Return STATUS_NOT_IMPLEMENTED k1
             | Some h \<Rightarrow> call_handler h (r_ebx user_cpu) (r_ecx user_cpu) (r_edx user_cpu) k1) finish"
    and f: "\<And>r k2. same_words (frame_slots 0x9000) (kmem k1) (kmem k2) \<Longrightarrow> \<exists>k3. finish r k2 = Return (user_cpu\<lparr>r_eax := r\<rparr>) k3"
    using syscall_abi[of user_cpu "0x9000" demo_kernel "syscall_init demo_kernel" 0 demo_cpu_new "\<lambda>_. 0" "0x10"] by blast
  have "map_of syscall_entries (r_eax user_cpu) = Some Sys_driver_register" by (simp add: syscall_entries_def user_cpu_def)
  then show ?thesis using f[of k1 STATUS_SUCCESS] unfolding t by (simp add: sys_driver_register_def same_words_def)
qed

text \<open>
  What is left of the kernel's state when a process has crashed: everything but the scheduler and the console is as it was, and
  of the processes only the crashed one and the one that runs next have changed, but for the links of the queue.
\<close>

lemma only_prints: "\<exists>con. k = k\<lparr>console := con\<rparr>" "\<exists>con. k' = k\<lparr>console := con\<rparr> \<Longrightarrow> \<exists>con. print w k' = k\<lparr>console := con\<rparr>"
proof -
  show "\<exists>con. k = k\<lparr>console := con\<rparr>" by (rule exI[of _ "console k"]) simp
  assume "\<exists>con. k' = k\<lparr>console := con\<rparr>"
  then obtain con where "k' = k\<lparr>console := con\<rparr>" by blast
  then have "print w k' = k\<lparr>console := con @ w\<rparr>" by (simp add: print_def)
  then show "\<exists>con. print w k' = k\<lparr>console := con\<rparr>" by blast
qed

lemma report_only_prints: "\<exists>con. print w (exception_report cpu frame cur k) = k\<lparr>console := con\<rparr>"
proof -
  have branch: "\<exists>con. x = k\<lparr>console := con\<rparr> \<Longrightarrow> \<exists>con. y = k\<lparr>console := con\<rparr> \<Longrightarrow> \<exists>con. (if b then x else y) = k\<lparr>console := con\<rparr>" for x y b
    by simp
  show ?thesis unfolding exception_report_def Let_def by (cases cur; simp only: option.case; intro only_prints branch)
qed

lemma crash_exit:
  assumes "frame_word k frame FRAME_INT_NO < 32" "frame_word k frame FRAME_CS AND 3 = 3" "current_of k = Some p"
  obtains con where "interrupt_handler_common cpu frame k =
    process_exit (Some p) (frame_word k frame FRAME_INT_NO) (k\<lparr>console := con\<rparr>)"
proof -
  obtain con where "print (''User process crashed. Terminating.'' @ crlf) (exception_report cpu frame (current_of k) k) = k\<lparr>console := con\<rparr>"
    using report_only_prints by blast
  then show thesis using assms that[of con] by (simp add: interrupt_handler_common_def handle_exception_def Let_def)
qed

lemma crash_kept: "others_kept A (k\<lparr>console := con\<rparr>) k1 = others_kept A k k1"
  by (simp add: others_kept_def pcb_of_def)

lemma crash_alone:
  assumes "frame_word k frame FRAME_INT_NO < 32" "frame_word k frame FRAME_CS AND 3 = 3" "current_of k = Some p"
    and "sched_inv (k_sched k) []" "has_memory k p d q u" "p < MAX_PROCESSES" "length (process_used k) = MAX_PROCESSES"
  shows "\<exists>k1. interrupt_handler_common cpu frame k = Return () k1 \<and> current_of k1 = None \<and>
    p_state (pcb_of k1 p) = PROCESS_TERMINATED \<and> \<not> process_used k1 ! p \<and> others_kept {p} k k1 \<and> kmem k1 = kmem k \<and>
    used (k_mm k1) = used (k_mm k) - process_frames (kmem k) d q u"
proof -
  obtain con where h: "interrupt_handler_common cpu frame k =
      process_exit (Some p) (frame_word k frame FRAME_INT_NO) (k\<lparr>console := con\<rparr>)"
    by (rule crash_exit[OF assms(1-3)])
  let ?k = "k\<lparr>console := con\<rparr>"
  have pre: "sched_inv (k_sched ?k) []" "current_of ?k = Some p" "has_memory ?k p d q u" "length (process_used ?k) = MAX_PROCESSES"
    using assms(3-5,7) by (simp_all add: has_memory_def pcb_of_def current_of_def)
  obtain k1 where "interrupt_handler_common cpu frame k = Return () k1" "current_of k1 = None" "p_state (pcb_of k1 p) = PROCESS_TERMINATED"
    "others_kept {p} k k1" "mm_content (k_mm k1) = mm_content (k_mm k)"
    "used (k_mm k1) = used (k_mm k) - process_frames (kmem k) d q u"
    and k1: "k1 = ?k\<lparr>k_mm := k_mm k1, k_sched := k_sched k1, process_used := (process_used k)[p := False], console := console k1\<rparr>"
    using exit_alone[OF pre(1-3) assms(6) pre(4), of "frame_word k frame FRAME_INT_NO"] unfolding crash_kept h by (auto simp: kmem_def)
  moreover have "\<not> process_used k1 ! p" using assms(6,7) by (subst k1) simp
  ultimately show ?thesis by (auto simp: mm_content_def kmem_def)
qed

text \<open>
  So a process that is alone runs on after its own crash: the trap ends in the program, at the instruction that faulted and
  with all its registers, while the kernel has freed its pages and has no current process.
\<close>

lemma fault_alone_resumes:
  assumes "vector_handler n = Some h" "n < 32" "r_cs c AND 3 = 3" "aligned4 esp0"
    and "sched_inv (k_sched k) []" "current_of k = Some p" "has_memory (trap_state esp0 n err c k) p d q u"
    and "p < MAX_PROCESSES" "length (process_used k) = MAX_PROCESSES"
  shows "\<exists>k1. trap cpu addr esp0 ss0 n err c k = Return c k1 \<and> current_of k1 = None \<and> \<not> process_used k1 ! p"
proof -
  let ?k = "trap_state esp0 n err c k"
  obtain c2 where
    "trap cpu addr esp0 ss0 n err c k = obind ((if n = 0x80 then syscall_dispatch else interrupt_handler_common cpu) (esp0 - 76) ?k)
        (\<lambda>_ k'. Return (restore_registers (kmem k') c2) k')"
    and r: "\<And>m. same_words (frame_slots esp0) (kmem ?k) m \<Longrightarrow> restore_registers m c2 = c"
    by (rule user_trap_run[OF assms(1,3,4), where cpu = cpu and addr = addr and ?ss0.0 = ss0 and err = err and k = k]) blast
  then have t: "trap cpu addr esp0 ss0 n err c k = obind (interrupt_handler_common cpu (esp0 - 76) ?k)
        (\<lambda>_ k'. Return (restore_registers (kmem k') c2) k')" using assms(2) by simp
  have "of_nat n < (32 :: u32)" using assms(2) by (simp add: word_less_nat_alt unat_of_nat32)
  then have f: "frame_word ?k (esp0 - 76) FRAME_INT_NO < 32" "frame_word ?k (esp0 - 76) FRAME_CS AND 3 = 3"
    using trap_state_word[OF assms(4), of 12 n err c k] trap_state_word[OF assms(4), of 15 n err c k] assms(3)
    by (simp_all add: frame_word_def trap_words_def)
  have "sched_inv (k_sched ?k) []" "current_of ?k = Some p" "length (process_used ?k) = MAX_PROCESSES"
    using assms(5,6,9) by (simp_all add: trap_state_def set_mem_def current_of_def)
  from crash_alone[OF f this(2,1) assms(7,8) this(3), of cpu] obtain k1 where
    "interrupt_handler_common cpu (esp0 - 76) ?k = Return () k1" "current_of k1 = None" "\<not> process_used k1 ! p" "kmem k1 = kmem ?k" by blast
  then show ?thesis using r[of "kmem k1"] t by (simp add: same_words_def)
qed

text \<open>
  C37: Exceptions. In user mode the process that caused it is ended. When another process is ready, the handler switches to
  the first of the queue: the crashed process is TERMINATED, the next one runs, and nothing else of the kernel changes, neither
  memory nor the entries of the other processes, waiting or blocked. When no process is ready the fault is not contained:
  \<^verbatim>\<open>process_exit\<close> comes back, having freed the slot and the pages of the process, and the handler returns to the program that
  faulted, with no process current. In kernel mode the machine stops: the report goes to the console, interrupts are disabled
  and the processor halts, with the run queue as it was.
\<close>

theorem exceptions_end_process:
  assumes "frame_word k frame FRAME_INT_NO < 32" and "sched_inv (k_sched k) xs" and "current_of k = Some p" and "p \<notin> set xs"
    and "xs = [] \<Longrightarrow> has_memory k p d q u \<and> p < MAX_PROCESSES \<and> length (process_used k) = MAX_PROCESSES"
  shows "if frame_word k frame FRAME_CS AND 3 = 3
    then (case xs of
        x # ys \<Rightarrow> (\<exists>k1 rest. interrupt_handler_common cpu frame k = Switch None x k1 rest \<and> current_of k1 = Some x \<and>
          sched_inv (k_sched k1) ys \<and> p_state (pcb_of k1 p) = PROCESS_TERMINATED \<and> p_state (pcb_of k1 x) = PROCESS_RUNNING \<and>
          others_kept {p, x} k k1 \<and> k1 = k\<lparr>k_sched := k_sched k1, console := console k1\<rparr>)
      | [] \<Rightarrow> (\<exists>k1. interrupt_handler_common cpu frame k = Return () k1 \<and> current_of k1 = None \<and>
          p_state (pcb_of k1 p) = PROCESS_TERMINATED \<and> \<not> process_used k1 ! p \<and> others_kept {p} k k1 \<and> kmem k1 = kmem k \<and>
          used (k_mm k1) = used (k_mm k) - process_frames (kmem k) d q u))
    else \<exists>k1 report. interrupt_handler_common cpu frame k = Halt k1 \<and> \<not> int_flag k1 \<and> k_sched k1 = k_sched k \<and>
      console k1 = console k @ crlf @ ''CPU EXCEPTION '' @ hex_string (frame_word k frame FRAME_INT_NO) @ report"
proof (cases "frame_word k frame FRAME_CS AND 3 = 3")
  case True
  obtain con where h: "interrupt_handler_common cpu frame k =
      process_exit (Some p) (frame_word k frame FRAME_INT_NO) (k\<lparr>console := con\<rparr>)"
    by (rule crash_exit[OF assms(1) True assms(3)])
  have cur: "current_of (k\<lparr>console := con\<rparr>) = Some p" "sched_inv (k_sched (k\<lparr>console := con\<rparr>)) xs"
    using assms(2,3) by (simp_all add: current_of_def)
  show ?thesis
  proof (cases xs)
    case Nil
    then have "has_memory k p d q u" "p < MAX_PROCESSES" "length (process_used k) = MAX_PROCESSES" using assms(5) by blast+
    from crash_alone[OF assms(1) True assms(3) assms(2)[unfolded Nil] this, of cpu]
    show ?thesis unfolding if_P[OF True] Nil list.case .
  next
    case (Cons x ys)
    from exit_current_full[OF cur(2)[unfolded Cons] cur(1), of "frame_word k frame FRAME_INT_NO"] assms(4) Cons
    obtain k1 rest where "interrupt_handler_common cpu frame k = Switch None x k1 rest" "current_of k1 = Some x" "sched_inv (k_sched k1) ys"
      "p_state (pcb_of k1 p) = PROCESS_TERMINATED" "p_state (pcb_of k1 x) = PROCESS_RUNNING" "others_kept {p, x} k k1"
      "k1 = k\<lparr>k_sched := k_sched k1, console := console k1\<rparr>"
      unfolding crash_kept h by auto
    then show ?thesis unfolding if_P[OF True] Cons list.case by blast
  qed
next
  case False
  let ?k = "exception_report cpu frame (current_of k) k"
  obtain r where r: "console ?k = console k @ crlf @ ''CPU EXCEPTION '' @ hex_string (frame_word k frame FRAME_INT_NO) @ r"
    using report_console by blast
  have "\<exists>k1 t. kernel_panic msg ?k = (Halt k1 :: unit outcome) \<and> \<not> int_flag k1 \<and> k_sched k1 = k_sched ?k \<and> console k1 = console ?k @ t" for msg
    by (simp add: kernel_panic_def halt_forever_def print_line_def Let_def)
  then obtain k1 t where "kernel_panic ''Unhandled CPU exception in kernel'' ?k = (Halt k1 :: unit outcome)" "\<not> int_flag k1" "k_sched k1 = k_sched ?k"
    "console k1 = console ?k @ t" by blast
  then have "interrupt_handler_common cpu frame k = Halt k1 \<and> \<not> int_flag k1 \<and> k_sched k1 = k_sched k \<and>
    console k1 = console k @ crlf @ ''CPU EXCEPTION '' @ hex_string (frame_word k frame FRAME_INT_NO) @ (r @ t)"
    using False assms(1) r by (simp add: interrupt_handler_common_def handle_exception_def Let_def)
  then show ?thesis unfolding if_not_P[OF False] by (intro exI)
qed

text \<open>A kernel with a single process, which runs: what \<^verbatim>\<open>process_create\<close> makes of a kernel with a word in page 0.\<close>

lemma demo_create_with_word:
  obtains slot k1 d p q s' where "slot < MAX_PROCESSES" "k1 = demo_kernel\<lparr>k_mm := demo_mm\<lparr>mem := m\<rparr>\<rparr>"
    "process_memory (k_mm k1) d p (Some q) s'"
proof -
  define k where "k = demo_kernel\<lparr>k_mm := demo_mm\<lparr>mem := m\<rparr>\<rparr>"
  have same: "used (k_mm k) = used demo_mm" "pid_used k = pid_used demo_kernel" "process_used k = process_used demo_kernel"
    by (simp_all add: k_def used_def pid_used_def pcb_of_def fun_eq_iff)
  have inv: "proc_inv k" using demo_proc_inv by (simp add: proc_inv_def k_def pcb_of_def)
  have ex: "\<exists>i < MAX_PROCESSES. \<not> process_used k ! i"
    by (rule exI[of _ 3]) (simp add: same demo_used_iff MAX_PROCESSES_def)
  obtain slot where slot: "find (\<lambda>i. \<not> process_used k ! i) [0..<MAX_PROCESSES] = Some slot" "slot < MAX_PROCESSES"
    using slot_available[OF inv ex] by metis
  have nine: "unat (9 :: u32) < MAX_PROCESSES" "(9 :: u32) \<noteq> 0" by (simp_all add: MAX_PROCESSES_def)
  obtain pid where pid: "process_allocate_pid k = (pid, k\<lparr>alloc_next_pid := pid + 1\<rparr>)" "pid \<noteq> 0"
    by (cases rule: allocate_pid_cases[of k]) (use nine demo_free_pid same(2) in auto)
  have len: "length (process_used k) = MAX_PROCESSES" using inv by (simp add: proc_inv_def)
  have mm: "mm_inv (k_mm k)" "roomy (k_mm k)" using demo_roomy demo_mm_inv by (simp_all add: k_def roomy_def mm_inv_def used_def)
  show thesis
    using create_internal_spec[OF mm len slot(1) pid, of 0 True] slot(2) that[of slot k] by (auto simp: k_def)
qed

lemma demo_alone:
  obtains k d p q where "sched_inv (k_sched k) []" "current_of k = Some 0" "has_memory k 0 d p (Some q)"
    "length (process_used k) = MAX_PROCESSES" "process_used k ! 0" "frame_word k 0x100 FRAME_INT_NO = 0" "frame_word k 0x100 FRAME_CS = 0x1B"
proof -
  define m where "m = store32 (mem demo_mm) 0x13C 0x1B"
  obtain d p q s' where pm: "process_memory (demo_mm\<lparr>mem := m\<rparr>) d p (Some q) s'"
    by (rule demo_create_with_word[of m]) auto
  note pmD = process_memoryD[OF pm]
  define c where "c = (fresh_pcb 1 0 True (page_addr d) (page_addr p) (page_addr q))\<lparr>p_state := PROCESS_RUNNING\<rparr>"
  define k where "k = demo_kernel\<lparr>k_mm := s', k_sched := demo_sched\<lparr>pcbs := (\<lambda>_. zero_pcb)(0 := c), current_process := Some 0,
    ready_queue_head := None, ready_queue_tail := None\<rparr>\<rparr>"
  have inv: "sched_inv (k_sched k) []"
    by (auto simp: k_def sched_inv_def queue_rep_def c_def fresh_pcb_def zero_pcb_def split: if_splits)
  have "kernel_page_dir s' = kernel_page_dir demo_mm" using pmD(7) by (simp add: mm_regs_def)
  then have "page_addr d \<noteq> kernel_page_dir s'" using pmD(1,2) by (simp add: demo_mm_def page_addr_eq_0_iff)
  then have mem: "has_memory k 0 d p (Some q)"
    using pmD(1-4,9-11) by (auto simp: has_memory_def k_def pcb_of_def c_def fresh_pcb_def)
  have pg: "mem s' a = m a" if "unat a < 4096" for a
    using pmD(8)[of a] that by (simp add: used_def[of "demo_mm\<lparr>mem := m\<rparr>"]) (simp add: used_def[symmetric])
  have small: "unat (a + of_nat j :: u32) < 4096" if "unat a < 4000" "j < 4" for a and j :: nat
    using that by (subst unat_add_small) (simp_all add: unat_of_nat32)
  have ld: "load32 (mem s') a = load32 m a" if "unat a < 4000" for a
    by (rule load32_cong) (rule pg, rule small[OF that])
  have wd: "word_disjoint 0x13C (0x130 :: u32)" by (simp add: word_disjoint_def)
  have "frame_word k 0x100 FRAME_INT_NO = 0" "frame_word k 0x100 FRAME_CS = 0x1B"
    using ld[of "0x130"] ld[of "0x13C"] load32_store32_disjoint[OF wd, of "mem demo_mm" "0x1B"]
    by (simp_all add: frame_word_def kmem_def k_def m_def) (simp add: demo_mm_def)
  then show thesis using that[OF inv _ mem] by (simp add: k_def current_of_def scheduler_get_current_def MAX_PROCESSES_def)
qed

theorem exceptions_end_process_witness:
  "(\<exists>k1 rest. interrupt_handler_common demo_cpu_new 0x8000
     (set_mem (store32 (kmem demo_kernel) 0x803C 0x1B) demo_kernel) = Switch None 1 k1 rest \<and> p_state (pcb_of k1 0) = PROCESS_TERMINATED) \<and>
   (\<exists>k k1. process_used k ! 0 \<and> current_of k = Some 0 \<and> interrupt_handler_common demo_cpu_new 0x100 k = Return () k1 \<and>
     current_of k1 = None \<and> \<not> process_used k1 ! 0)"
proof -
  have d: "word_disjoint 0x803C (0x8030 :: u32)" by (simp add: word_disjoint_def)
  let ?k = "set_mem (store32 (kmem demo_kernel) 0x803C 0x1B) demo_kernel"
  have i: "sched_inv (k_sched ?k) [1, 2]" using demo_sched_inv by (simp add: set_mem_def)
  have c: "current_of ?k = Some 0" by (simp add: current_of_def scheduler_get_current_def demo_sched_def set_mem_def)
  have cs: "frame_word ?k 0x8000 FRAME_CS AND 3 = 3" by (simp add: frame_word_def kmem_def set_mem_def)
  have n: "frame_word ?k 0x8000 FRAME_INT_NO < 32"
    using load32_store32_disjoint[OF d, of "kmem demo_kernel" "0x1B"]
    by (simp add: frame_word_def kmem_def set_mem_def) (simp add: demo_mm_def)
  have "\<exists>k1 rest. interrupt_handler_common demo_cpu_new 0x8000 ?k = Switch None 1 k1 rest \<and> p_state (pcb_of k1 0) = PROCESS_TERMINATED"
    using exceptions_end_process[OF n i c, where cpu = demo_cpu_new] unfolding if_P[OF cs] by auto
  moreover obtain k d p q where k: "sched_inv (k_sched k) []" "current_of k = Some 0" "has_memory k 0 d p (Some q)"
    "length (process_used k) = MAX_PROCESSES" "process_used k ! 0" "frame_word k 0x100 FRAME_INT_NO = 0" "frame_word k 0x100 FRAME_CS = 0x1B"
    by (rule demo_alone)
  moreover have "\<exists>k1. interrupt_handler_common demo_cpu_new 0x100 k = Return () k1 \<and> current_of k1 = None \<and> \<not> process_used k1 ! 0"
    using exceptions_end_process[OF _ k(1,2), of "0x100" d p "Some q" demo_cpu_new] k(3,4,6,7) by (auto simp: MAX_PROCESSES_def)
  ultimately show ?thesis by blast
qed

end
