(* ===== verification/Boot_Memory.thy ===== *)
theory Boot_Memory
  imports Process
begin

text \<open>
  How the memory fills up while the kernel starts. Nothing is freed, and the allocator takes the lowest free pages: the pages in use are
  those below a number, and nothing is written above it. So what the boot loader has put at 4 MB stays there.
\<close>

section \<open>The pages in use\<close>

text \<open>
  The pages in use are a prefix, and the bytes above it are those of \<open>M\<close>. Of \<open>M\<close> only what lies above 4 MB, page 1024, counts: the
  variables of the kernel are below.
\<close>

definition untouched :: "memory \<Rightarrow> mm \<Rightarrow> bool" where
  "untouched M s \<longleftrightarrow> mm_inv s \<and> (\<exists>n. used s = {..<n} \<and> (\<forall>a. n \<le> unat a div 4096 \<and> 1024 \<le> unat a div 4096 \<longrightarrow> mem s a = M a))"

lemma untouched_write:
  assumes "untouched M s" "\<And>a. unat a div 4096 \<notin> used s \<Longrightarrow> m a = mem s a"
  shows "untouched M (s\<lparr>mem := m\<rparr>)"
  using assms by (fastforce simp: untouched_def mm_inv_def used_def)

lemma untouched_inv: "untouched M s \<Longrightarrow> mm_inv s"
  by (simp add: untouched_def)

lemma alloc_untouched:
  assumes U: "untouched M s" and c: "0 < unat c" "unat c \<le> 4096" and al: "memory_alloc_pages c s = Some (p, s')"
  shows "untouched M s'" "page_aligned p" "used s \<subseteq> used s'" "mem s' = mem s"
    "p = 0 \<or> unat p div 4096 \<notin> used s \<and> {unat p div 4096..<unat p div 4096 + unat c} \<subseteq> used s'"
proof -
  have wf: "wf_bitmap (page_bitmap s)" and z: "0 \<in> used s" using untouched_inv[OF U] by (simp_all add: mm_inv_def)
  obtain n where n: "used s = {..<n}" "\<forall>a. n \<le> unat a div 4096 \<and> 1024 \<le> unat a div 4096 \<longrightarrow> mem s a = M a"
    using U by (auto simp: untouched_def)
  have "untouched M s' \<and> page_aligned p \<and> used s \<subseteq> used s' \<and> mem s' = mem s \<and>
    (p = 0 \<or> unat p div 4096 \<notin> used s \<and> {unat p div 4096..<unat p div 4096 + unat c} \<subseteq> used s')"
    using wf c(2)
  proof (cases rule: alloc_cases)
    case fail
    then show ?thesis using al U by (simp add: page_aligned_def)
  next
    case (success k bm)
    have "k \<in> {k..<k + unat c}" using c(1) by simp
    then have "k \<notin> used s" using success(2) by (meson disjoint_iff free_run_def)
    then have "k \<notin> {..<n}" by (simp add: n(1))
    then have k: "n \<le> k" "k < 4096" using success(1) by simp_all
    have "free_run (used s) (unat c) n" by (auto simp: free_run_def n(1))
    then have kn: "k = n" using success(3) k(1) by (metis le_neq_implies_less)
    have p: "p = page_addr k" and s': "s' = s\<lparr>page_bitmap := bm, total_allocated_pages := total_allocated_pages s + c\<rparr>"
      using al success(6) by simp_all
    have "{..<n} \<union> {n..<n + unat c} = {..<n + unat c}" by auto
    then have u': "used s' = {..<n + unat c}" using success(5) by (simp add: s' used_def n(1)[unfolded used_def] kn)
    have "mm_inv s'" using success(4) z u' n(1) by (simp add: mm_inv_def s')
    then have "untouched M s'" using n(2) u' by (auto simp: untouched_def s')
    moreover have "unat p div 4096 = n" "page_aligned p" using k(2) by (simp_all add: p kn unat_page_addr)
    moreover have "mem s' = mem s" by (simp add: s')
    ultimately show ?thesis using u' n(1) by auto
  qed
  then show "untouched M s'" "page_aligned p" "used s \<subseteq> used s'" "mem s' = mem s"
    "p = 0 \<or> unat p div 4096 \<notin> used s \<and> {unat p div 4096..<unat p div 4096 + unat c} \<subseteq> used s'" by blast+
qed

section \<open>Page tables\<close>

text \<open>A directory and its tables lie in pages in use, and no table is the directory itself.\<close>

definition tables_in :: "mm \<Rightarrow> u32 \<Rightarrow> bool" where
  "tables_in s pd \<longleftrightarrow> page_aligned pd \<and> pd \<noteq> 0 \<and> unat pd div 4096 \<in> used s \<and>
     (\<forall>i. unat i < 1024 \<longrightarrow> present (mem s) pd i \<longrightarrow> unat (table (mem s) pd i) div 4096 \<in> used s \<and> table (mem s) pd i \<noteq> pd)"

lemma store_entry_in:
  assumes "page_aligned q" "unat i < 1024" "unat q div 4096 \<in> U" "unat a div 4096 \<notin> U"
  shows "store32 m (ent q i) v a = m a"
  using assms by (intro store32_ent_other_page) auto

lemma map_page_new_table:
  assumes U: "untouched M s" and T: "tables_in s pd" and abs: "\<not> present (mem s) pd (pdi virt)"
    and run: "memory_map_page pd virt phys flags s = Some s'"
  shows "untouched M s' \<and> tables_in s' pd \<and> used s \<subseteq> used s'"
proof -
  have z: "0 \<in> used s" using untouched_inv[OF U] by (simp add: mm_inv_def)
  have pd: "page_aligned pd" "pd \<noteq> 0" "unat pd div 4096 \<in> used s" using T by (simp_all add: tables_in_def)
  obtain pt s1 where al: "memory_alloc_pages 1 s = Some (pt, s1)"
    and s': "s' = s1\<lparr>mem := store32 (store32 (memset (mem s1) pt 0 4096) (ent pd (pdi virt)) (pt OR (flags AND 7))) (ent pt (pti virt)) (PTE phys flags)\<rparr>"
    using run abs by (auto simp: memory_map_page_def Let_def present_def PTE_def PTE_ADDR_def pdi_def [symmetric] pti_def [symmetric]
        hal_cpu_flush_tlb_def split: option.splits)
  have one: "0 < unat (1 :: u32)" "unat (1 :: u32) \<le> 4096" by simp_all
  note A = alloc_untouched[OF U one al]
  have pt: "unat pt div 4096 \<in> used s1" using A(3,5) z by auto
  have ne: "pt \<noteq> pd" using A(5) pd(2,3) by auto
  have ld: "load32 (mem s') (ent pd j) = (if j = pdi virt then pt OR (flags AND 7) else load32 (mem s) (ent pd j))" if "unat j < 1024" for j
    using that pd(1) A(2,4) ne by (simp add: s' load32_store32_ent load32_memset_ent)
  have "untouched M s'" unfolding s'
  proof (rule untouched_write[OF A(1)])
    fix a :: u32
    assume a: "unat a div 4096 \<notin> used s1"
    have "unat pd div 4096 \<in> used s1" using pd(3) A(3) by blast
    then show "store32 (store32 (memset (mem s1) pt 0 4096) (ent pd (pdi virt)) (pt OR (flags AND 7))) (ent pt (pti virt)) (PTE phys flags) a = mem s1 a"
      using a pt pd(1) A(2) by (auto simp: store_entry_in[where U = "used s1"] memset_page)
  qed
  moreover have "used s' = used s1" by (simp add: s' used_def)
  moreover have "tables_in s' pd" unfolding tables_in_def
    using T A(2,3) pt ne PTE_ADDR_or(2)[OF A(2), of flags] ld \<open>used s' = used s1\<close>
    by (auto simp: tables_in_def present_def table_def)
  ultimately show ?thesis using A(3) by simp
qed

lemma map_page_old_table:
  assumes U: "untouched M s" and T: "tables_in s pd" and pr: "present (mem s) pd (pdi virt)"
    and run: "memory_map_page pd virt phys flags s = Some s'"
  shows "untouched M s' \<and> tables_in s' pd \<and> used s \<subseteq> used s'"
proof -
  define pde where "pde = load32 (mem s) (ent pd (pdi virt))"
  define pt where "pt = table (mem s) pd (pdi virt)"
  define m1 where "m1 = (if flags AND 4 \<noteq> 0 then store32 (mem s) (ent pd (pdi virt)) (pde OR 4) else mem s)"
  have pd: "page_aligned pd" "pd \<noteq> 0" "unat pd div 4096 \<in> used s" using T by (simp_all add: tables_in_def)
  have pt: "page_aligned pt" "unat pt div 4096 \<in> used s" "pt \<noteq> pd" using T pr by (auto simp: tables_in_def pt_def table_def)
  have s': "s' = s\<lparr>mem := store32 m1 (ent pt (pti virt)) (PTE phys flags)\<rparr>"
    using run pr by (auto simp: memory_map_page_def Let_def present_def PTE_def PTE_ADDR_def pt_def table_def m1_def pde_def
        pdi_def [symmetric] pti_def [symmetric] hal_cpu_flush_tlb_def)
  have ld: "load32 (mem s') (ent pd j) = load32 (mem s) (ent pd j) \<or> j = pdi virt \<and> load32 (mem s') (ent pd j) = pde OR 4" if "unat j < 1024" for j
    using that pd(1) pt(1,3) by (auto simp: s' m1_def load32_store32_ent)
  have "untouched M s'" unfolding s'
    by (rule untouched_write[OF U]) (use pd pt in \<open>simp add: m1_def store_entry_in[where U = "used s"]\<close>)
  moreover have u: "used s' = used s" by (simp add: s' used_def)
  moreover have "tables_in s' pd" unfolding tables_in_def u
  proof (intro conjI allI impI pd)
    fix i :: u32
    assume i: "unat i < 1024" and p: "present (mem s') pd i"
    have "present (mem s) pd i \<and> table (mem s') pd i = table (mem s) pd i"
      using ld[OF i] p pr by (auto simp: present_def table_def pde_def)
    then show "unat (table (mem s') pd i) div 4096 \<in> used s" "table (mem s') pd i \<noteq> pd" using T i by (auto simp: tables_in_def)
  qed
  ultimately show ?thesis by simp
qed

lemma map_page_untouched:
  assumes "untouched M s" "tables_in s pd" "memory_map_page pd virt phys flags s = Some s'"
  shows "untouched M s' \<and> tables_in s' pd \<and> used s \<subseteq> used s'"
  using assms map_page_new_table map_page_old_table by (cases "present (mem s) pd (pdi virt)") blast+

text \<open>The loops that map a range of pages.\<close>

lemma map_loop_untouched:
  assumes run: "for_each (\<lambda>i. memory_map_page pd (v i) (p i) flags) xs s = Some s'" and U: "untouched M s" "tables_in s pd"
  shows "untouched M s' \<and> tables_in s' pd \<and> used s \<subseteq> used s'"
proof -
  have "untouched M s' \<and> tables_in s' pd \<and> used s \<subseteq> used s'"
    by (rule for_each_invariant[OF run, where P = "\<lambda>t. untouched M t \<and> tables_in t pd \<and> used s \<subseteq> used t"])
      (use U map_page_untouched in blast)+
  then show ?thesis .
qed

lemma map_kernel_untouched:
  assumes "memory_map_kernel pd s = Some s'" "untouched M s" "tables_in s pd"
  shows "untouched M s' \<and> tables_in s' pd \<and> used s \<subseteq> used s'"
  using map_loop_untouched[OF assms(1)[unfolded memory_map_kernel_def] assms(2,3)] .

section \<open>A new process\<close>

lemma create_directory_untouched:
  assumes U: "untouched M s" and run: "memory_create_page_directory s = Some (pd, s')" and pd: "pd \<noteq> 0"
  shows "untouched M s' \<and> tables_in s' pd \<and> used s \<subseteq> used s'"
proof -
  have one: "0 < unat (1 :: u32)" "unat (1 :: u32) \<le> 4096" by simp_all
  obtain s1 where al: "memory_alloc_pages 1 s = Some (pd, s1)" and s': "s' = s1\<lparr>mem := memset (mem s1) pd 0 4096\<rparr>"
    using run pd by (auto simp: memory_create_page_directory_def split: option.splits if_splits)
  note A = alloc_untouched[OF U one al]
  have in1: "unat pd div 4096 \<in> used s1" using A(5) pd by auto
  have "untouched M s'" unfolding s' by (rule untouched_write[OF A(1)]) (use in1 A(2) in \<open>auto simp: memset_page\<close>)
  moreover have "used s' = used s1" by (simp add: s' used_def)
  ultimately show ?thesis using A(2,3) in1 pd by (auto simp: tables_in_def present_def s' load32_memset_ent)
qed

lemma tables_in_mono:
  assumes "tables_in s pd" "used s \<subseteq> used s'" "mem s' = mem s"
  shows "tables_in s' pd"
  using assms by (auto simp: tables_in_def)

lemma map_stack_untouched:
  assumes "map_stack pd stack n flags s = Some s'" "untouched M s" "tables_in s pd"
  shows "untouched M s' \<and> tables_in s' pd \<and> used s \<subseteq> used s'"
  using map_loop_untouched[OF assms(1)[unfolded map_stack_def] assms(2,3)] .

text \<open>The memory of a process that was created: directory, tables and kernel stack are in pages in use.\<close>

lemma create_memory_steps:
  assumes "process_create_internal parent is_user k = Return (Some slot) k'"
  shows "\<exists>pd s1 s2 ks s3 s4. memory_create_page_directory (k_mm k) = Some (pd, s1) \<and> pd \<noteq> 0 \<and> memory_map_kernel pd s1 = Some s2 \<and>
    memory_alloc_pages 2 s2 = Some (ks, s3) \<and> ks \<noteq> 0 \<and> map_stack pd ks 2 0x03 s3 = Some s4 \<and>
    p_page_directory (pcb_of k' slot) = pd \<and> p_kernel_stack (pcb_of k' slot) = ks \<and>
    (k_mm k' = s4 \<or> (\<exists>us s5. memory_alloc_pages 4 s4 = Some (us, s5) \<and> map_stack pd us 4 0x07 s5 = Some (k_mm k')))"
  using assms
  by (auto simp: process_create_internal_def process_allocate_pid_def on_mm_def do_mm_def process_cleanup_def Let_def
      pcb_of_def set_pcb_def upd_pcb_def split: option.splits prod.splits if_splits)

lemma create_untouched:
  assumes U: "untouched M (k_mm k)" and run: "process_create_internal parent is_user k = Return (Some slot) k'"
  defines "ks \<equiv> p_kernel_stack (pcb_of k' slot)"
  shows "untouched M (k_mm k')" "tables_in (k_mm k') (p_page_directory (pcb_of k' slot))"
    "{unat ks div 4096..<unat ks div 4096 + 2} \<subseteq> used (k_mm k')"
proof -
  obtain pd s1 s2 s3 s4 where pd: "memory_create_page_directory (k_mm k) = Some (pd, s1)" "pd \<noteq> 0"
    and mk: "memory_map_kernel pd s1 = Some s2" and ks: "memory_alloc_pages 2 s2 = Some (ks, s3)" "ks \<noteq> 0"
    and ms: "map_stack pd ks 2 0x03 s3 = Some s4" and dir: "p_page_directory (pcb_of k' slot) = pd"
    and fin: "k_mm k' = s4 \<or> (\<exists>us s5. memory_alloc_pages 4 s4 = Some (us, s5) \<and> map_stack pd us 4 0x07 s5 = Some (k_mm k'))"
    using create_memory_steps[OF run] unfolding ks_def by blast
  have two: "0 < unat (2 :: u32)" "unat (2 :: u32) \<le> 4096" "0 < unat (4 :: u32)" "unat (4 :: u32) \<le> 4096" by simp_all
  have 2: "untouched M s2" "tables_in s2 pd"
    using map_kernel_untouched[OF mk] create_directory_untouched[OF U pd] by blast+
  note A = alloc_untouched[OF 2(1) two(1,2) ks(1)]
  have 4: "untouched M s4" "tables_in s4 pd" "used s3 \<subseteq> used s4"
    using map_stack_untouched[OF ms A(1) tables_in_mono[OF 2(2) A(3,4)]] by blast+
  then have in4: "{unat ks div 4096..<unat ks div 4096 + 2} \<subseteq> used s4" using A(5) ks(2) by simp blast
  have "untouched M (k_mm k') \<and> tables_in (k_mm k') pd \<and> used s4 \<subseteq> used (k_mm k')"
    using fin
  proof (elim disjE exE conjE)
    fix us s5
    assume al: "memory_alloc_pages 4 s4 = Some (us, s5)" and ms: "map_stack pd us 4 0x07 s5 = Some (k_mm k')"
    note A = alloc_untouched[OF 4(1) two(3,4) al]
    show ?thesis using map_stack_untouched[OF ms A(1) tables_in_mono[OF 4(2) A(3,4)]] A(3) by blast
  qed (use 4 in simp)
  then show "untouched M (k_mm k')" "tables_in (k_mm k') (p_page_directory (pcb_of k' slot))"
    "{unat ks div 4096..<unat ks div 4096 + 2} \<subseteq> used (k_mm k')" using dir in4 by blast+
qed

section \<open>The start of the memory manager\<close>

text \<open>From the reserved 512 pages on, with the memory as it is found.\<close>

lemma memory_init_untouched:
  assumes "memory_init s = Some s'" "\<And>a. 1024 \<le> unat a div 4096 \<Longrightarrow> mem s a = M a"
  shows "untouched M s'"
proof -
  let ?pd = "page_addr 512"
  obtain s2 where i: "memory_init s = (case memory_map_kernel ?pd s2 of
      None \<Rightarrow> None | Some s3 \<Rightarrow> Some (hal_cpu_enable_paging (kernel_page_dir s3) s3))"
    and K: "kmap_inv s2 ?pd 0 s2" and u: "used s2 = {..<513}" and m: "mem s2 = memset (mem s) ?pd 0 4096"
    by (rule memory_init_steps)
  have pd: "page_aligned ?pd" "unat ?pd div 4096 = 512" "?pd \<noteq> 0" by (simp_all add: unat_page_addr page_addr_eq_0_iff)
  have "untouched M s2" using K u assms(2) pd(1,2) by (auto simp: untouched_def kmap_inv_def m memset_page)
  moreover have "tables_in s2 ?pd" using pd u by (auto simp: tables_in_def present_def m load32_memset_ent)
  moreover obtain s3 where mk: "memory_map_kernel ?pd s2 = Some s3" and s': "s' = hal_cpu_enable_paging (kernel_page_dir s3) s3"
    using assms(1) i by (auto split: option.splits)
  ultimately have "untouched M s3" using map_kernel_untouched[OF mk] by blast
  then show ?thesis by (simp add: s' hal_cpu_enable_paging_def hal_cpu_set_cr3_def untouched_def mm_inv_def used_def Let_def)
qed

text \<open>The reserved pages keep their contents.\<close>

lemma memory_init_low:
  assumes "memory_init s = Some s'" "unat a div 4096 < 512"
  shows "mem s' a = mem s a"
proof -
  let ?pd = "page_addr 512"
  obtain s2 where i: "memory_init s = (case memory_map_kernel ?pd s2 of
      None \<Rightarrow> None | Some s3 \<Rightarrow> Some (hal_cpu_enable_paging (kernel_page_dir s3) s3))"
    and K: "kmap_inv s2 ?pd 0 s2" and s2: "used s2 = {..<513}" "avail s2 = 3582" "mem s2 = memset (mem s) ?pd 0 4096"
    by (rule memory_init_steps)
  obtain s3 where s3: "memory_map_kernel ?pd s2 = Some s3" "kmap_inv s2 ?pd 4096 s3" using kmap_loop[OF K] s2(2) by auto
  have pd: "page_aligned ?pd" "unat ?pd div 4096 = 512" by (simp_all add: unat_page_addr)
  have "mem s' = mem s3" using assms(1) i s3(1) by (auto simp: hal_cpu_enable_paging_def hal_cpu_set_cr3_def Let_def)
  moreover have "mem s3 a = mem s2 a" using assms(2) s2(1) pd by (intro kmap_frame[OF s3(2)]) simp
  ultimately show ?thesis using s2(3) memset_page[OF pd(1)] pd(2) assms(2) by simp
qed

text \<open>
  The kernel's own directory, in page 512: paging is on, the directory is the one the processor uses, and it maps the kernel only.
\<close>

definition kernel_map :: "mm \<Rightarrow> bool" where
  "kernel_map s \<longleftrightarrow> cr3 s = page_addr 512 \<and> kernel_page_dir s = page_addr 512 \<and> bit (cr0 s) 31 \<and>
     aspace_rep (page_addr 512) s (kernel_space 4096) \<and> insert 512 (table_frames (mem s) (page_addr 512)) \<inter> {..<512} = {}"

lemma memory_init_kernel_map:
  assumes "memory_init s = Some s'"
  shows "kernel_map s'"
proof -
  let ?pd = "page_addr 512"
  obtain s2 where i: "memory_init s = (case memory_map_kernel ?pd s2 of
      None \<Rightarrow> None | Some s3 \<Rightarrow> Some (hal_cpu_enable_paging (kernel_page_dir s3) s3))"
    and K: "kmap_inv s2 ?pd 0 s2" and s2: "used s2 = {..<513}" "avail s2 = 3582" "kernel_page_dir s2 = ?pd"
    by (rule memory_init_steps)
  have "4 \<le> avail s2" by (simp add: s2(2))
  from kernel_aspace[OF K this] obtain s3 where s3: "memory_map_kernel ?pd s2 = Some s3" "kmap_inv s2 ?pd 4096 s3"
    and rep: "aspace_rep ?pd s3 (kernel_space 4096)" by blast
  have s': "s' = hal_cpu_enable_paging ?pd s3" using assms i s3 s2(3) by (auto simp: kmap_inv_def mm_regs_def)
  have "kernel_page_dir s3 = ?pd" "table_frames (mem s3) ?pd \<inter> {..<513} = {}" using s3(2) s2 by (auto simp: kmap_inv_def mm_regs_def)
  moreover have "aspace_rep ?pd s' (kernel_space 4096)"
    using rep by (rule aspace_rep_mono) (use rep in \<open>auto simp: s' hal_cpu_enable_paging_def hal_cpu_set_cr3_def Let_def used_def aspace_rep_def mm_inv_def\<close>)
  ultimately show ?thesis
    by (auto simp: kernel_map_def s' hal_cpu_enable_paging_def hal_cpu_set_cr3_def Let_def bit_or_iff)
qed

text \<open>What the processor then translates: every address below 16 MB to itself, for the supervisor only, and no other address.\<close>

lemma kernel_map_walk:
  assumes "kernel_map s" "unat va < 16 * 1024 * 1024"
  shows "walk (mem s) (cr3 s) va = Some (va, 2)"
proof -
  have v: "vpn va < 4096" using assms(2) by (simp add: vpn_def less_mult_imp_div_less)
  then have "kernel_space 4096 (vpn va) = Some (page_addr (vpn va), False)" by (simp add: kernel_space_def)
  moreover have "PTE_ADDR (page_addr (vpn va)) OR (va AND 0xFFF) = va" using v by (intro PTE_ADDR_page_addr) (simp_all add: vpn_def)
  ultimately show ?thesis using assms(1) aspace_walk[of "page_addr 512" s "kernel_space 4096" va] by (simp add: kernel_map_def)
qed

lemma kernel_map_walk_none:
  assumes "kernel_map s" "16 * 1024 * 1024 \<le> unat va"
  shows "walk (mem s) (cr3 s) va = None"
proof -
  have "\<not> vpn va < 4096" using assms(2) by (simp add: vpn_def)
  then have "kernel_space 4096 (vpn va) = None" by (simp add: kernel_space_def)
  then show ?thesis using assms(1) aspace_walk[of "page_addr 512" s "kernel_space 4096" va] by (simp add: kernel_map_def)
qed

end
