(* ===== verification/Kernel_Main.thy ===== *)
theory Kernel_Main
  imports Interrupt Boot_Memory
begin

text \<open>
  The start of the kernel, \<^verbatim>\<open>kernel/main.c\<close>: clearing the screen and the variables, the initialisation of every component in its
  order, and the five system services. The addresses that the linker chooses are the parameter \<open>layout\<close>. The
  final idle loop of \<^verbatim>\<open>kernel_main\<close> is the outcome \<open>Halt\<close>, with interrupts enabled.
\<close>

record layout =
  bss_start :: u32
  bss_end :: u32
  gdt_addr :: u32
  tss_addr :: u32
  idt_addr :: u32
  handler_addr :: "handler \<Rightarrow> u32"
  first_run_addr :: u32

section \<open>The components at kernel level\<close>

definition clear_screen :: "kernel \<Rightarrow> kernel" where
  "clear_screen k =
     set_mem (foldl (\<lambda>m i. store16 m (VGA_MEMORY + 2 * of_nat i) 0x0F20) (kmem k) [0..<80 * 25]) k"

text \<open>
  \<^verbatim>\<open>clear_bss\<close> zeroes the bytes between the two linker symbols; that is where the variables without a
  nonzero initialiser live, so in the model their fields become zero as well. The counters \<^verbatim>\<open>next_pid\<close>, \<^verbatim>\<open>next_msg_id\<close>, \<^verbatim>\<open>next_cap_id\<close> and
  the timer frequency have nonzero initialisers and keep their values.
\<close>

definition clear_bss :: "layout \<Rightarrow> kernel \<Rightarrow> kernel" where
  "clear_bss lay k =
     k\<lparr>k_mm := (k_mm k)\<lparr>mem := memset (kmem k) (bss_start lay) 0 (unat (bss_end lay - bss_start lay)),
         page_bitmap := replicate BITMAP_SIZE 0, total_allocated_pages := 0, kernel_page_dir := 0\<rparr>,
       k_sched := (k_sched k)\<lparr>pcbs := (\<lambda>_. zero_pcb), current_process := None, ready_queue_head := None,
         ready_queue_tail := None, scheduler_ticks := 0\<rparr>,
       k_caps := (k_caps k)\<lparr>capabilities := replicate MAX_CAPS 0, capability_count := 0\<rparr>,
       process_used := replicate MAX_PROCESSES False,
       message_queues := replicate MAX_PROCESSES 0, msg_handlers := replicate 32 0,
       timer_ticks := 0, cpu_features := 0, syscall_table := replicate 256 None, kernel_initialized := False,
       k_io := (k_io k)\<lparr>port_permissions := replicate PORT_WORDS 0\<rparr>,
       k_segs := (k_segs k)\<lparr>gdt := replicate GDT_ENTRIES null_entry\<rparr>,
       k_idt := (k_idt k)\<lparr>idt := replicate 256 \<lparr>i_base_low = 0, i_selector = 0, i_zero = 0, i_type_attr = 0, i_base_high = 0\<rparr>\<rparr>\<rparr>"

definition gdt_init_k :: "layout \<Rightarrow> kernel \<Rightarrow> unit outcome" where
  "gdt_init_k lay k = (case hal_gdt_init (gdt_addr lay) (tss_addr lay) (k_segs k, kmem k) of
     None \<Rightarrow> Undef
   | Some (s, m) \<Rightarrow> Return () (set_mem m (k\<lparr>k_segs := s\<rparr>)))"

definition cpu_init_k :: "processor \<Rightarrow> kernel \<Rightarrow> unit outcome" where
  "cpu_init_k cpu k = (case hal_cpu_init cpu k of None \<Rightarrow> Undef | Some k \<Rightarrow> Return () k)"

definition memory_init_k :: "kernel \<Rightarrow> unit outcome" where
  "memory_init_k k = obind (do_mm memory_init k) (\<lambda>_ k.
     let k = print (''Memory manager initialized'' @ crlf) k;
         k = print ''Total memory: '' k;
         k = print_hex MEMORY_SIZE k
     in Return () (print ('' bytes'' @ crlf) k))"

definition scheduler_init_k :: "kernel \<Rightarrow> kernel" where
  "scheduler_init_k k = print (''Scheduler initialized'' @ crlf) (k\<lparr>k_sched := scheduler_init (k_sched k)\<rparr>)"

definition capability_init_k :: "kernel \<Rightarrow> kernel" where
  "capability_init_k k = print (''Capability system initialized'' @ crlf) (k\<lparr>k_caps := capability_init (k_caps k)\<rparr>)"

definition interrupt_init :: "layout \<Rightarrow> kernel \<Rightarrow> unit outcome" where
  "interrupt_init lay k = (case load_idt (handler_addr lay) (idt_addr lay) (k_idt k) of
     None \<Rightarrow> Undef
   | Some t \<Rightarrow> Return () (print (''Interrupt system initialized'' @ crlf) (k\<lparr>k_idt := t\<rparr>)))"

section \<open>Services\<close>

text \<open>The loop of \<^verbatim>\<open>start_service\<close> that maps the eight pages of the binary.\<close>

definition map_binary :: "u32 \<Rightarrow> u32 \<Rightarrow> mm \<Rightarrow> mm option" where
  "map_binary page_dir phys_addr =
     for_each (\<lambda>i. memory_map_page page_dir (0x400000 + of_nat i * PAGE_SIZE) (phys_addr + of_nat i * PAGE_SIZE) 0x07) [0..<8]"

definition start_service :: "layout \<Rightarrow> string \<Rightarrow> u32 \<Rightarrow> bool \<Rightarrow> kernel \<Rightarrow> unit outcome" where
  "start_service lay name phys_addr is_user k =
     obind (if is_user then process_create 0 k else process_create_kernel k) (\<lambda>proc k.
     case proc of
       None \<Rightarrow> Return () (print crlf (print name (print ''Failed to create process for '' k)))
     | Some p \<Rightarrow>
         obind (do_mm (map_binary (p_page_directory (pcb_of k p)) phys_addr) k) (\<lambda>_ k.
         obind (process_setup_stack (first_run_addr lay) (Some p) 0x400000 k) (\<lambda>_ k.
         do_sched (scheduler_add_process (Some p)) k)))"

definition start_system_services :: "layout \<Rightarrow> kernel \<Rightarrow> unit outcome" where
  "start_system_services lay k =
     obind (start_service lay ''Init'' 0x400000 True (print_line ''Starting Init Process (PID 1)...'' 12 k)) (\<lambda>_ k.
     obind (start_service lay ''Keyboard'' 0x408000 False (print_line ''Starting Keyboard Driver (PID 2)...'' 13 k)) (\<lambda>_ k.
     obind (start_service lay ''Console'' 0x410000 False (print_line ''Starting Console Driver (PID 3)...'' 14 k)) (\<lambda>_ k.
     obind (start_service lay ''Timer'' 0x418000 False (print_line ''Starting Timer Driver (PID 4)...'' 15 k)) (\<lambda>_ k.
     obind (start_service lay ''Shell'' 0x420000 True (print_line ''Starting Shell (PID 5)...'' 16 k)) (\<lambda>_ k.
     Return () (print (''System services started.'' @ crlf) k))))))"

section \<open>The main function\<close>

text \<open>Everything up to \<^verbatim>\<open>kernel_initialized = true\<close>, then the rest.\<close>

definition kernel_setup :: "layout \<Rightarrow> processor \<Rightarrow> kernel \<Rightarrow> unit outcome" where
  "kernel_setup lay cpu k =
     (let k = clear_screen k;
          k = print_line ''Cat-OS Microkernel v1.0'' 0 k;
          k = print_line ''========================'' 1 k;
          k = print_line ''Initializing kernel...'' 2 k;
          k = clear_bss lay k;
          k = print_line ''BSS cleared'' 3 k in
      obind (gdt_init_k lay k) (\<lambda>_ k.
      obind (cpu_init_k cpu (print_line ''GDT initialized'' 4 k)) (\<lambda>_ k.
      obind (do_io hal_io_init (print_line ''CPU initialized'' 5 k)) (\<lambda>_ k.
      let k = print_line ''I/O initialized'' 5 k;
          k = k\<lparr>k_io := hal_pic_init (k_io k)\<rparr>;
          k = print_line ''PIC initialized'' 6 k in
      obind (memory_init_k k) (\<lambda>_ k.
      let k = print_line ''Memory manager initialized'' 7 k;
          k = print_line ''Scheduler initialized'' 8 (scheduler_init_k k);
          k = print_line ''Process management initialized'' 9 (process_init k);
          k = print_line ''IPC initialized'' 10 (ipc_init k);
          k = print_line ''Capability system initialized'' 11 (capability_init_k k);
          k = print_line ''System calls initialized'' 12 (syscall_init k) in
      obind (interrupt_init lay k) (\<lambda>_ k.
      obind (hal_timer_init 100 (print_line ''Interrupts initialized'' 13 k)) (\<lambda>_ k.
      Return () ((print_line ''Timer enabled'' 14 k)\<lparr>kernel_initialized := True\<rparr>))))))))"

definition kernel_main :: "layout \<Rightarrow> processor \<Rightarrow> kernel \<Rightarrow> unit outcome" where
  "kernel_main lay cpu k =
     obind (kernel_setup lay cpu k) (\<lambda>_ k.
     let k = print_line ''Kernel initialization complete!'' 15 k;
         k = print_line ''Cat-OS Microkernel is RUNNING!'' 16 k;
         k = print_line ''Starting system services...'' 17 k in
     obind (start_system_services lay k) (\<lambda>_ k.
     Halt (hal_cpu_enable_interrupts (print_line ''All services started!'' 18 k))))"

section \<open>Memory outside the tables\<close>

lemma aspace_rep_outside:
  assumes rep: "aspace_rep pd s f"
    and same: "\<And>a. unat a div 4096 \<in> insert (unat pd div 4096) (table_frames (mem s) pd) \<Longrightarrow> m a = mem s a"
  shows "aspace_rep pd (s\<lparr>mem := m\<rparr>) f" and "table_frames m pd = table_frames (mem s) pd"
proof -
  have al: "page_aligned pd" and inv: "mm_inv s" using rep by (simp_all add: aspace_rep_def pd_wf_def)
  have dir: "load32 m (ent pd i) = load32 (mem s) (ent pd i)" if "unat i < 1024" for i
  proof (rule load32_cong)
    fix b :: nat assume "b < 4"
    moreover have "unat (4 * i) = 4 * unat i" using that by (subst unat_mult_small) simp_all
    ultimately have "unat (ent pd i + of_nat b) div 4096 = unat pd div 4096"
      unfolding ent_def using that by (intro word_in_page[OF al]) simp_all
    then show "m (ent pd i + of_nat b) = mem s (ent pd i + of_nat b)" by (intro same) simp
  qed
  have pt: "present m pd i = present (mem s) pd i" "table m pd i = table (mem s) pd i" if "unat i < 1024" for i
    using dir[OF that] by (simp_all add: present_def table_def)
  have tab: "load32 m (ent (table (mem s) pd i) j) = load32 (mem s) (ent (table (mem s) pd i) j)"
    if "unat i < 1024" "present (mem s) pd i" "unat j < 1024" for i j
  proof (rule load32_cong)
    fix b :: nat assume "b < 4"
    moreover have "unat (4 * j) = 4 * unat j" using that(3) by (subst unat_mult_small) simp_all
    moreover have "page_aligned (table (mem s) pd i)" by (simp add: table_def)
    ultimately have "unat (ent (table (mem s) pd i) j + of_nat b) div 4096 = unat (table (mem s) pd i) div 4096"
      unfolding ent_def using that(3) by (intro word_in_page) simp_all
    moreover have "unat (table (mem s) pd i) div 4096 \<in> table_frames (mem s) pd" using that(1,2) by (auto simp: table_frames_def)
    ultimately show "m (ent (table (mem s) pd i) j + of_nat b) = mem s (ent (table (mem s) pd i) j + of_nat b)"
      by (intro same) simp
  qed
  have wf: "pd_wf (s\<lparr>mem := m\<rparr>) pd"
    using rep pt unfolding aspace_rep_def pd_wf_def by (simp add: used_def)
  have "entry_ok m pd va (f (vpn va))" for va
  proof -
    have e: "entry_ok (mem s) pd va (f (vpn va))" using rep by (simp add: aspace_rep_def)
    have i: "unat (pdi va) < 1024" "unat (pti va) < 1024" by (rule unat_pdi_lt, rule unat_pti_lt)
    have "leaf m pd va = leaf (mem s) pd va" if "present (mem s) pd (pdi va)"
      unfolding leaf_def pt(2)[OF i(1)] by (rule tab[OF i(1) that i(2)])
    moreover have "present (mem s) pd (pdi va)" if "load32 (mem s) (ent pd (pdi va)) AND 3 = 3"
      by (rule present_of_low[OF that])
    ultimately show ?thesis
      using e dir[OF i(1)] pt(1)[OF i(1)] by (cases "f (vpn va)") (auto split: prod.splits)
  qed
  then show "aspace_rep pd (s\<lparr>mem := m\<rparr>) f" using wf inv by (simp add: aspace_rep_def mm_inv_def used_def)
  show "table_frames m pd = table_frames (mem s) pd" unfolding table_frames_def using pt by (simp cong: conj_cong)
qed

lemma push_words_outside:
  assumes "page_aligned q" "length vs \<le> 100" "unat a div 4096 \<noteq> unat q div 4096"
  shows "fst (push_words vs (m, q + 4096)) a = m a"
  using assms(2)
proof (induction vs rule: rev_induct)
  case Nil
  then show ?case by (simp add: push_words_def)
next
  case (snoc v vs)
  define off :: u32 where "off = 4096 - of_nat (4 * Suc (length vs))"
  have u: "unat (of_nat (4 * Suc (length vs)) :: u32) = 4 * Suc (length vs)" by (rule unat_of_nat32) (use snoc.prems in simp)
  have "unat off = 4096 - 4 * Suc (length vs)"
    unfolding off_def using u snoc.prems by (subst unat_sub) (simp_all only: word_le_nat_alt, simp_all)
  then have o: "unat off < 4096" "unat off mod 4 = 0" using snoc.prems by (auto simp: algebra_simps)
  have e: "snd (push_words vs (m, q + 4096)) - 4 = q + off"
    by (simp add: push_words_snd off_def algebra_simps)
  show ?case
    unfolding push_words_snoc push_word_def fst_conv e
    using snoc store32_other_page[OF assms(1) o assms(3)] by simp
qed

section \<open>Starting one service\<close>

definition binary_space :: "u32 \<Rightarrow> aspace \<Rightarrow> aspace" where
  "binary_space phys f = (\<lambda>v. if v \<in> {1024..<1032} then Some (phys + of_nat (v - 1024) * PAGE_SIZE, True) else f v)"

lemma foldl_binary:
  "foldl (\<lambda>f i. f(1024 + i \<mapsto> (phys + of_nat i * PAGE_SIZE, True))) f [0..<n] =
     (\<lambda>v. if v \<in> {1024..<1024 + n} then Some (phys + of_nat (v - 1024) * PAGE_SIZE, True) else f v)"
  by (induction n) (auto simp: fun_eq_iff)

lemma map_binary_rep:
  assumes rep: "aspace_rep pd s f" and dom: "\<And>v. v < 4096 \<Longrightarrow> f v \<noteq> None"
  shows "\<exists>s'. map_binary pd phys s = Some s' \<and> aspace_rep pd s' (binary_space phys f) \<and> map_rest pd s' = map_rest pd s"
proof -
  have "map_ready pd s (1024 + i)" if "i \<in> set [0..<8]" for i
    using aspace_ready[OF rep, of "1024 + i"] dom[of "1024 + i"] that by auto
  then obtain s' where "for_each (\<lambda>i. map_vpn pd (1024 + i) (phys + of_nat i * PAGE_SIZE, True)) [0..<8] s = Some s'"
    "aspace_rep pd s' (foldl (\<lambda>f i. f(1024 + i \<mapsto> (phys + of_nat i * PAGE_SIZE, True))) f [0..<8])" "map_rest pd s' = map_rest pd s"
    using pm.map_list[OF rep, of "[0..<8]" "\<lambda>i. 1024 + i" "\<lambda>i. (phys + of_nat i * PAGE_SIZE, True)"] by blast
  moreover have "0x400000 + of_nat i * PAGE_SIZE = page_addr (1024 + i)" for i
    by (simp add: page_addr_def algebra_simps)
  ultimately show ?thesis
    by (simp add: map_binary_def map_vpn_def map_flags_def foldl_binary binary_space_def del: upt_rec_numeral)
qed

text \<open>The stack of a fresh process is prepared inside its kernel stack.\<close>

lemma setup_stack_spec:
  assumes "p_kernel_stack (pcb_of k slot) = page_addr p" "p + 2 \<le> 4095" "entry \<noteq> 0"
  obtains m sp where "process_setup_stack frh (Some slot) entry k =
      Return () (set_pcb slot (\<lambda>c. c\<lparr>p_registers := (p_registers c)[4 := sp]\<rparr>) (k\<lparr>k_mm := (k_mm k)\<lparr>mem := m\<rparr>\<rparr>))"
    "\<And>a. unat a div 4096 \<noteq> p + 1 \<Longrightarrow> m a = mem (k_mm k) a"
proof -
  define vs where "vs = (if p_is_user (pcb_of k slot) then user_frame frh (p_user_stack (pcb_of k slot)) entry else [entry]) @ switch_frame"
  have top: "page_addr p + 8192 = page_addr (p + 1) + 4096" by (simp add: page_addr_def algebra_simps)
  have w: "push_words switch_frame
      (if p_is_user (pcb_of k slot) then push_words (user_frame frh (p_user_stack (pcb_of k slot)) entry) ms else push_word entry ms) =
      push_words vs ms" for ms
    by (simp add: vs_def push_words_append) (simp add: push_words_def)
  have out: "fst (push_words vs (mem (k_mm k), page_addr p + 8192)) a = mem (k_mm k) a" if "unat a div 4096 \<noteq> p + 1" for a
    unfolding top using assms(2) that
    by (intro push_words_outside) (simp_all add: unat_page_addr vs_def user_frame_def switch_frame_def)
  show thesis
    by (rule that[OF _ out])
      (use assms(1,3) w in \<open>simp_all add: process_setup_stack_def Let_def split_beta\<close>)
qed

lemma add_fresh_process:
  assumes inv: "sched_inv s xs" and "p_pid (pcbs s p) \<noteq> 0" and st: "p_state (pcbs s p) \<noteq> PROCESS_READY"
  shows "\<exists>t. scheduler_add_process (Some p) s = Some t \<and> sched_inv t (xs @ [p]) \<and> current_process t = current_process s \<and>
    (\<forall>i. pcb_core (pcbs t i) = pcb_core (pcbs (upd_pcb p (\<lambda>c. c\<lparr>p_state := PROCESS_READY\<rparr>) s) i))"
proof -
  have "p \<notin> set xs" using st inv by (auto simp: sched_inv_def)
  then obtain t where t: "scheduler_add_to_ready (Some p) s = Some t" "same_core s t"
    using inv push_inv[of s xs p] unfolding sched_inv_def by metis
  define t' where "t' = upd_pcb p (\<lambda>c. c\<lparr>p_state := PROCESS_READY\<rparr>) t"
  have add: "scheduler_add_process (Some p) s = Some t'"
    using t(1) assms(2) st by (simp add: scheduler_add_process_def t'_def)
  moreover have "sched_inv t' (xs @ [p])" using add_process_inv[OF inv, of p] add st by simp
  moreover have "current_process t' = current_process s" using same_coreD(3)[OF t(2)] by (simp add: t'_def)
  moreover have "pcb_core (pcbs t' i) = pcb_core (pcbs (upd_pcb p (\<lambda>c. c\<lparr>p_state := PROCESS_READY\<rparr>) s) i)" for i
    using t(2) by (auto simp: t'_def same_core_def pcb_core_eq_iff)
  ultimately show ?thesis by blast
qed

text \<open>
  A service that is started gets a free slot and a fresh identifier, its binary at 4 MB, and the last place in the run queue.
\<close>

definition service_space :: "u32 \<Rightarrow> nat option \<Rightarrow> aspace" where
  "service_space phys u = binary_space phys (case u of None \<Rightarrow> kernel_space 4096 | Some q \<Rightarrow> overlay q 4 True (kernel_space 4096))"

text \<open>The memory \<open>s\<close> after a service is started from \<open>s0\<close>: its directory is in page \<open>d\<close>, and no page in use is changed.\<close>

definition service_memory :: "mm \<Rightarrow> nat \<Rightarrow> u32 \<Rightarrow> nat option \<Rightarrow> mm \<Rightarrow> bool" where
  "service_memory s0 d phys u s \<longleftrightarrow> aspace_rep (page_addr d) s (service_space phys u) \<and>
     insert d (table_frames (mem s) (page_addr d)) \<inter> used s0 = {} \<and> avail s0 = avail s + (if u = None then 7 else 11) \<and> used s0 \<subseteq> used s \<and>
     mm_regs s = mm_regs s0 \<and> (\<forall>a. unat a div 4096 \<in> used s0 \<longrightarrow> mem s a = mem s0 a)"

text \<open>Mapping the binary and writing the initial stack, which lies in the page after \<open>p\<close>.\<close>

lemma service_memory_built:
  assumes pm: "process_memory s0 d p u s1"
  obtains s2 where "map_binary (page_addr d) phys s1 = Some s2"
    "\<And>m. (\<And>a. unat a div 4096 \<noteq> p + 1 \<Longrightarrow> m a = mem s2 a) \<Longrightarrow> service_memory s0 d phys u (s2\<lparr>mem := m\<rparr>)"
proof -
  note D = process_memoryD[OF pm]
  let ?f = "case u of None \<Rightarrow> kernel_space 4096 | Some q \<Rightarrow> overlay q 4 True (kernel_space 4096)"
  have dom: "?f v \<noteq> None" if "v < 4096" for v using that by (auto simp: kernel_space_def overlay_def split: option.splits)
  obtain s2 where s2: "map_binary (page_addr d) phys s1 = Some s2" "aspace_rep (page_addr d) s2 (binary_space phys ?f)"
    "map_rest (page_addr d) s2 = map_rest (page_addr d) s1"
    using map_binary_rep[OF D(11) dom] by blast
  note m2 = map_rest_used[OF s2(3)]
  have dk: "unat (page_addr d) div 4096 = d" using D(2) by (simp add: unat_page_addr)
  have off: "unat a div 4096 \<noteq> p + 1"
    if "unat a div 4096 \<in> insert (unat (page_addr d) div 4096) (table_frames (mem s2) (page_addr d))" for a :: u32
  proof -
    have "unat a div 4096 \<in> insert d (table_frames (mem s1) (page_addr d))" using that m2 dk by simp
    moreover have "p + 1 \<in> {p..<p + 2}" by simp
    ultimately show ?thesis using D(13) by (metis IntI empty_iff)
  qed
  have "service_memory s0 d phys u (s2\<lparr>mem := m\<rparr>)" if m: "\<And>a. unat a div 4096 \<noteq> p + 1 \<Longrightarrow> m a = mem s2 a" for m
  proof -
    note rep = aspace_rep_outside[OF s2(2) m[OF off]]
    have u3: "used (s2\<lparr>mem := m\<rparr>) = used s1" using m2 by (simp add: used_def)
    have "m a = mem s0 a" if "unat a div 4096 \<in> used s0" for a
    proof -
      have "unat a div 4096 \<notin> process_frames (mem s1) d p u" using that D(6) by blast
      then have "unat a div 4096 \<noteq> p + 1" "unat a div 4096 \<notin> insert d (table_frames (mem s1) (page_addr d))"
        by (auto simp: process_frames_def)
      then show ?thesis using m[of a] map_rest_mem[OF s2(3), of a] dk D(8)[OF that] by simp
    qed
    moreover have "mm_regs (s2\<lparr>mem := m\<rparr>) = mm_regs s0" using m2 D(7) by (simp add: mm_regs_def)
    moreover have "insert d (table_frames m (page_addr d)) \<inter> used s0 = {}" using D(6) rep(2) m2 by (auto simp: process_frames_def)
    ultimately show ?thesis using rep(1) D(5,12) u3 by (auto simp: service_memory_def service_space_def avail_def)
  qed
  then show thesis using that s2(1) by blast
qed

text \<open>A new process control block, put in a free slot, becomes the last of the run queue.\<close>

lemma service_queued:
  assumes sch: "sched_inv S xs" "current_process S \<noteq> Some slot" "slot \<notin> set xs"
    and c: "p_pid c \<noteq> 0" "p_state c = PROCESS_CREATED" "p_next c = None" "p_prev c = None"
  obtains t where "scheduler_add_process (Some slot) (upd_pcb slot (\<lambda>_. c) S) = Some t" "sched_inv t (xs @ [slot])"
    "current_process t = current_process S" "\<And>i. i \<noteq> slot \<Longrightarrow> pcb_core (pcbs t i) = pcb_core (pcbs S i)"
    "pcb_core (pcbs t slot) = pcb_core (c\<lparr>p_state := PROCESS_READY\<rparr>)"
proof -
  define S' where "S' = upd_pcb slot (\<lambda>_. c) S"
  have n: "nxt xs slot = None" "nxt (rev xs) slot = None" using sch(1,3) by (simp_all add: nxt_notin)
  then have inv: "sched_inv S' xs" using sch c by (auto simp: S'_def sched_inv_def queue_rep_def upd_pcb_def)
  have "p_pid (pcbs S' slot) \<noteq> 0" "p_state (pcbs S' slot) \<noteq> PROCESS_READY" using c by (simp_all add: S'_def upd_pcb_def)
  from add_fresh_process[OF inv this] obtain t where
    t: "scheduler_add_process (Some slot) S' = Some t" "sched_inv t (xs @ [slot])" "current_process t = current_process S'"
    and core: "\<And>i. pcb_core (pcbs t i) = pcb_core (pcbs (upd_pcb slot (\<lambda>c. c\<lparr>p_state := PROCESS_READY\<rparr>) S') i)" by blast
  show thesis by (rule that[OF t(1)[unfolded S'_def] t(2)]) (use t(3) core in \<open>simp_all add: S'_def upd_pcb_def\<close>)
qed

text \<open>Creating the process, mapping its binary and writing its first stack frame change pages in use only.\<close>

lemma service_untouched:
  assumes U: "untouched M (k_mm k)" and cr: "process_create_internal 0 u k = Return (Some slot) k1"
    and ks: "p_kernel_stack (pcb_of k1 slot) = page_addr p" "p + 2 \<le> 4096"
    and mb: "map_binary (p_page_directory (pcb_of k1 slot)) phys (k_mm k1) = Some s2"
    and m: "\<And>a. unat a div 4096 \<noteq> p + 1 \<Longrightarrow> m a = mem s2 a"
  shows "untouched M (s2\<lparr>mem := m\<rparr>)"
proof -
  note C = create_untouched[OF U cr]
  have B: "untouched M s2" "used (k_mm k1) \<subseteq> used s2"
    using map_loop_untouched[OF mb[unfolded map_binary_def] C(1,2)] by blast+
  have "unat (page_addr p) div 4096 = p" using ks(2) by (simp add: unat_page_addr)
  then have "{p..<p + 2} \<subseteq> used s2" using C(3) B(2) unfolding ks(1) by (metis subset_trans)
  then have "p + 1 \<in> used s2" by (rule subsetD) simp
  then show ?thesis by (intro untouched_write[OF B(1)]) (metis m)
qed

lemma start_service_spec:
  assumes inv: "mm_inv (k_mm k)" and room: "roomy (k_mm k)" and len: "length (process_used k) = MAX_PROCESSES"
    and slot: "find (\<lambda>i. \<not> process_used k ! i) [0..<MAX_PROCESSES] = Some slot"
    and pid: "process_allocate_pid k = (pid, k\<lparr>alloc_next_pid := pid + 1\<rparr>)" "pid \<noteq> 0"
    and sch: "sched_inv (k_sched k) xs" "current_process (k_sched k) \<noteq> Some slot" "slot \<notin> set xs"
  obtains d p q s t where
    "start_service lay name phys is_user k = Return () (k\<lparr>alloc_next_pid := pid + 1, k_mm := s,
       process_used := (process_used k)[slot := True], k_sched := t\<rparr>)"
    "sched_inv t (xs @ [slot])" "current_process t = current_process (k_sched k)"
    "\<And>i. i \<noteq> slot \<Longrightarrow> pcb_core (pcbs t i) = pcb_core (pcbs (k_sched k) i)"
    "p_pid (pcbs t slot) = pid" "p_state (pcbs t slot) = PROCESS_READY" "p_is_user (pcbs t slot) = is_user"
    "p_page_directory (pcbs t slot) = page_addr d" "d < 4095" "service_memory (k_mm k) d phys (if is_user then Some q else None) s"
    "\<And>M. untouched M (k_mm k) \<Longrightarrow> untouched M s"
proof -
  obtain d p q s1 where
    cr: "process_create_internal 0 is_user k = Return (Some slot)
       (set_pcb slot (\<lambda>_. fresh_pcb pid 0 is_user (page_addr d) (page_addr p) (if is_user then page_addr q else 0))
         (k\<lparr>alloc_next_pid := pid + 1, k_mm := s1, process_used := (process_used k)[slot := True]\<rparr>))"
    and pm: "process_memory (k_mm k) d p (if is_user then Some q else None) s1"
    using create_internal_spec[OF inv room len slot pid, of 0 is_user] by blast
  define c where "c = fresh_pcb pid 0 is_user (page_addr d) (page_addr p) (if is_user then page_addr q else 0)"
  define k1 where "k1 = set_pcb slot (\<lambda>_. c) (k\<lparr>alloc_next_pid := pid + 1, k_mm := s1, process_used := (process_used k)[slot := True]\<rparr>)"
  have created: "(if is_user then process_create 0 k else process_create_kernel k) = Return (Some slot) k1"
    using cr by (cases is_user) (simp_all add: process_create_def process_create_kernel_def k1_def c_def)
  obtain s2 where s2: "map_binary (page_addr d) phys s1 = Some s2"
    and built: "\<And>m. (\<And>a. unat a div 4096 \<noteq> p + 1 \<Longrightarrow> m a = mem s2 a) \<Longrightarrow>
      service_memory (k_mm k) d phys (if is_user then Some q else None) (s2\<lparr>mem := m\<rparr>)"
    using service_memory_built[OF pm, of phys] by blast
  have c: "p_pid c = pid" "p_state c = PROCESS_CREATED" "p_next c = None" "p_prev c = None" "p_is_user c = is_user"
    "p_page_directory c = page_addr d" "p_kernel_stack c = page_addr p" by (simp_all add: c_def fresh_pcb_def zero_pcb_def)
  have pk: "p_kernel_stack (pcb_of (k1\<lparr>k_mm := s2\<rparr>) slot) = page_addr p" using c(7) by (simp add: k1_def pcb_of_def)
  obtain m sp where st: "process_setup_stack (first_run_addr lay) (Some slot) 0x400000 (k1\<lparr>k_mm := s2\<rparr>) =
      Return () (set_pcb slot (\<lambda>c. c\<lparr>p_registers := (p_registers c)[4 := sp]\<rparr>) (k1\<lparr>k_mm := s2\<lparr>mem := m\<rparr>\<rparr>))"
    and m: "\<And>a. unat a div 4096 \<noteq> p + 1 \<Longrightarrow> m a = mem s2 a"
    by (rule setup_stack_spec[OF pk process_memoryD(4)[OF pm], of "0x400000" "first_run_addr lay"]) auto
  define c' where "c' = c\<lparr>p_registers := (p_registers c)[4 := sp]\<rparr>"
  obtain t where t: "scheduler_add_process (Some slot) (upd_pcb slot (\<lambda>_. c') (k_sched k)) = Some t" "sched_inv t (xs @ [slot])"
    "current_process t = current_process (k_sched k)" "\<And>i. i \<noteq> slot \<Longrightarrow> pcb_core (pcbs t i) = pcb_core (pcbs (k_sched k) i)"
    "pcb_core (pcbs t slot) = pcb_core (c'\<lparr>p_state := PROCESS_READY\<rparr>)"
    using service_queued[OF sch, of c'] c(1-4) pid(2) by (auto simp: c'_def)
  have k3: "set_pcb slot (\<lambda>c. c\<lparr>p_registers := (p_registers c)[4 := sp]\<rparr>) (k1\<lparr>k_mm := s2\<lparr>mem := m\<rparr>\<rparr>) =
      k\<lparr>alloc_next_pid := pid + 1, k_mm := s2\<lparr>mem := m\<rparr>, process_used := (process_used k)[slot := True], k_sched := upd_pcb slot (\<lambda>_. c') (k_sched k)\<rparr>"
    by (simp add: k1_def c'_def set_pcb_def upd_pcb_def)
  have k1: "k_mm k1 = s1" "p_page_directory (pcb_of k1 slot) = page_addr d" using c(6) by (simp_all add: k1_def)
  have "start_service lay name phys is_user k = Return () (k\<lparr>alloc_next_pid := pid + 1, k_mm := s2\<lparr>mem := m\<rparr>,
       process_used := (process_used k)[slot := True], k_sched := t\<rparr>)"
    using created k1 s2 st[unfolded k3] t(1) by (simp add: start_service_def do_mm_def do_sched_def)
  moreover have "untouched M (s2\<lparr>mem := m\<rparr>)" if "untouched M (k_mm k)" for M
    by (rule service_untouched[OF that cr[folded c_def, folded k1_def] _ _ _ m]) (use k1 c(7) s2 process_memoryD(4)[OF pm] in \<open>simp_all add: k1_def\<close>)
  ultimately show thesis by (intro that[OF _ t(2-4) _ _ _ _ process_memoryD(2)[OF pm] built[OF m]])
      (use t(5) c in \<open>simp_all add: pcb_core_eq_iff c'_def\<close>)
qed

section \<open>The screen\<close>

lemma store16_outside:
  assumes "unat i \<le> 3998" "unat a div 4096 \<noteq> 184"
  shows "store16 m (VGA_MEMORY + i) v a = m a"
proof -
  have u: "unat (VGA_MEMORY + i) = 0xB8000 + unat i" using assms(1) by (subst unat_add_small) simp_all
  moreover have "unat (VGA_MEMORY + i + 1) = 0xB8000 + unat i + 1" using u assms(1) by (subst unat_add_small) simp_all
  ultimately have "a \<noteq> VGA_MEMORY + i" "a \<noteq> VGA_MEMORY + i + 1" using assms by auto
  then show ?thesis by (simp add: store16_def)
qed

lemma unat_cell:
  assumes "unat line * 80 + i < 2000"
  shows "unat (2 * (line * 80 + of_nat i) :: u32) = 2 * (unat line * 80 + i)"
proof -
  have "unat (line * 80) = unat line * 80" using assms by (subst unat_mult_small) simp_all
  moreover have "unat (of_nat i :: u32) = i" using assms by (intro unat_of_nat32) simp
  ultimately have "unat (line * 80 + of_nat i) = unat line * 80 + i" using assms by (subst unat_add_small) simp_all
  then show ?thesis using assms by (subst unat_mult_small) simp_all
qed

lemma vga_write_outside:
  assumes "unat line * 80 + length str \<le> 2000" "unat a div 4096 \<noteq> 184"
  shows "vga_write str line m a = m a"
proof -
  have "foldl (\<lambda>m i. store16 m (VGA_MEMORY + 2 * (line * 80 + of_nat i)) (vga_cell (str ! i))) m [0..<n] a = m a"
    if "n \<le> length str" for n
    using that
  proof (induction n)
    case (Suc n)
    then have "unat (2 * (line * 80 + of_nat n) :: u32) \<le> 3998" using unat_cell[of line n] assms(1) by simp
    then show ?case using Suc store16_outside[OF _ assms(2)] by simp
  qed simp
  then show ?thesis by (simp add: vga_write_def)
qed

section \<open>The services during the start\<close>

definition service_ok :: "u32 \<Rightarrow> bool \<Rightarrow> mm \<Rightarrow> pcb \<Rightarrow> bool" where
  "service_ok phys u s c \<longleftrightarrow> p_state c = PROCESS_READY \<and> p_is_user c = u \<and>
     (\<exists>d q. p_page_directory c = page_addr d \<and> d < 4095 \<and>
       aspace_rep (page_addr d) s (service_space phys (if u then Some q else None)) \<and>
       insert d (table_frames (mem s) (page_addr d)) \<inter> {..<513} = {})"

definition service_addr :: "nat \<Rightarrow> u32" where
  "service_addr i = 0x400000 + of_nat i * 0x8000"

text \<open>The reserved pages, apart from that of the screen, hold what they held.\<close>

definition low_kept :: "memory \<Rightarrow> memory \<Rightarrow> bool" where
  "low_kept M m \<longleftrightarrow> (\<forall>a. unat a div 4096 < 512 \<and> unat a div 4096 \<noteq> 184 \<longrightarrow> m a = M a)"

definition boot_inv :: "memory \<Rightarrow> bool list \<Rightarrow> kernel \<Rightarrow> bool" where
  "boot_inv M us k \<longleftrightarrow> length us \<le> 5 \<and> untouched M (k_mm k) \<and> kernel_map (k_mm k) \<and> low_kept M (mem (k_mm k)) \<and>
     process_used k = replicate (length us) True @ replicate (MAX_PROCESSES - length us) False \<and>
     alloc_next_pid k = of_nat (length us) + 1 \<and> sched_inv (k_sched k) [0..<length us] \<and> current_process (k_sched k) = None \<and>
     mm_inv (k_mm k) \<and> {..<513} \<subseteq> used (k_mm k) \<and> 3578 \<le> avail (k_mm k) + 11 * length us \<and>
     (\<forall>i < length us. p_pid (pcbs (k_sched k) i) = of_nat (i + 1) \<and>
        service_ok (service_addr i) (us ! i) (k_mm k) (pcbs (k_sched k) i))"

text \<open>Directories stay as they are while others are built, and while the low pages below \<open>b\<close> are written.\<close>

lemma aspace_keep:
  assumes d: "d < 4095" and rep: "aspace_rep (page_addr d) s f" and fresh: "insert d (table_frames (mem s) (page_addr d)) \<inter> {..<b} = {}"
    and same: "\<And>a. unat a div 4096 \<in> used s \<Longrightarrow> \<not> unat a div 4096 < b \<Longrightarrow> mem s' a = mem s a"
    and grow: "used s \<subseteq> used s'" "mm_inv s'"
  shows "aspace_rep (page_addr d) s' f" "table_frames (mem s') (page_addr d) = table_frames (mem s) (page_addr d)"
proof -
  have dk: "unat (page_addr d) div 4096 = d" using d by (simp add: unat_page_addr)
  have sub: "insert d (table_frames (mem s) (page_addr d)) \<subseteq> used s"
    using rep dk by (auto simp: aspace_rep_def pd_wf_def table_frames_def)
  have "mem s' a = mem s a" if "unat a div 4096 \<in> insert (unat (page_addr d) div 4096) (table_frames (mem s) (page_addr d))" for a
    using that sub fresh by (intro same) (auto simp: dk)
  from aspace_rep_outside[OF rep this]
  have r: "aspace_rep (page_addr d) (s\<lparr>mem := mem s'\<rparr>) f" "table_frames (mem s') (page_addr d) = table_frames (mem s) (page_addr d)" by blast+
  moreover have "used (s\<lparr>mem := mem s'\<rparr>) = used s" by (simp add: used_def)
  ultimately show "aspace_rep (page_addr d) s' f" using aspace_rep_mono[of "page_addr d" "s\<lparr>mem := mem s'\<rparr>" _ s'] grow by simp
  show "table_frames (mem s') (page_addr d) = table_frames (mem s) (page_addr d)" by (rule r(2))
qed

lemma service_ok_keep:
  assumes ok: "service_ok phys u s c" and core: "pcb_core c' = pcb_core c"
    and same: "\<And>a. unat a div 4096 \<in> used s \<Longrightarrow> \<not> unat a div 4096 < 513 \<Longrightarrow> mem s' a = mem s a"
    and grow: "used s \<subseteq> used s'" "mm_inv s'"
  shows "service_ok phys u s' c'"
proof -
  obtain d q where d: "p_page_directory c = page_addr d" "d < 4095"
    and rep: "aspace_rep (page_addr d) s (service_space phys (if u then Some q else None))"
    and fresh: "insert d (table_frames (mem s) (page_addr d)) \<inter> {..<513} = {}"
    using ok by (auto simp: service_ok_def)
  note K = aspace_keep[OF d(2) rep fresh same grow]
  then show ?thesis using ok core d fresh unfolding service_ok_def pcb_core_eq_iff by metis
qed

lemma kernel_map_keep:
  assumes map: "kernel_map s" and regs: "mm_regs s' = mm_regs s"
    and same: "\<And>a. unat a div 4096 \<in> used s \<Longrightarrow> \<not> unat a div 4096 < 512 \<Longrightarrow> mem s' a = mem s a"
    and grow: "used s \<subseteq> used s'" "mm_inv s'"
  shows "kernel_map s'"
proof -
  have "aspace_rep (page_addr 512) s (kernel_space 4096)" "insert 512 (table_frames (mem s) (page_addr 512)) \<inter> {..<512} = {}"
    using map by (simp_all add: kernel_map_def)
  from aspace_keep[OF _ this same grow] show ?thesis using map regs by (simp add: kernel_map_def mm_regs_def)
qed

definition boot_memory :: "memory \<Rightarrow> kernel \<Rightarrow> bool" where
  "boot_memory M k \<longleftrightarrow> untouched M (k_mm k) \<and> kernel_map (k_mm k) \<and> low_kept M (mem (k_mm k)) \<and> 184 \<in> used (k_mm k)"

lemma print_line_memory:
  assumes "boot_memory M k" "unat line * 80 + length str \<le> 2000"
  shows "boot_memory M (print_line str line k)"
proof -
  let ?s = "(k_mm k)\<lparr>mem := vga_write str line (mem (k_mm k))\<rparr>"
  have "untouched M ?s"
    by (rule untouched_write) (use assms(1) in \<open>simp add: boot_memory_def\<close>, metis vga_write_outside[OF assms(2)] assms(1) boot_memory_def)
  moreover have "kernel_map ?s"
    by (rule kernel_map_keep[of "k_mm k"])
      (use vga_write_outside[OF assms(2)] assms(1) untouched_inv[OF calculation] in \<open>auto simp: boot_memory_def mm_regs_def used_def\<close>)
  moreover have "low_kept M (mem ?s)" using vga_write_outside[OF assms(2)] assms(1) by (simp add: boot_memory_def low_kept_def)
  ultimately show ?thesis using assms(1) by (simp add: print_line_def boot_memory_def used_def)
qed

lemma boot_print_line:
  assumes "boot_inv M us k" "unat line * 80 + length str \<le> 2000"
  shows "boot_inv M us (print_line str line k)"
proof -
  let ?s = "(k_mm k)\<lparr>mem := vga_write str line (mem (k_mm k))\<rparr>"
  have "service_ok phys u ?s c" if "service_ok phys u (k_mm k) c" for phys u c
    by (rule service_ok_keep[OF that refl])
      (use vga_write_outside[OF assms(2)] assms(1) in \<open>auto simp: used_def boot_inv_def mm_inv_def\<close>)
  moreover have "boot_memory M k" using assms(1) by (auto simp: boot_inv_def boot_memory_def)
  then have "untouched M (k_mm (print_line str line k))" "kernel_map (k_mm (print_line str line k))" "low_kept M (mem (k_mm (print_line str line k)))"
    using print_line_memory[OF _ assms(2)] unfolding boot_memory_def by blast+
  ultimately show ?thesis using assms(1) by (auto simp: boot_inv_def print_line_def used_def mm_inv_def avail_def)
qed

lemma low_memory_roomy:
  assumes "mm_inv s" "{..<513} \<subseteq> used s" "3500 \<le> avail s"
  shows "roomy s"
proof -
  obtain bm where bm: "wf_bitmap bm" "bits_of bm = {0..<513}"
    using reserve_range[of "replicate BITMAP_SIZE 0" 513 0] by (auto simp: wf_bitmap_def)
  let ?s = "s\<lparr>page_bitmap := bm\<rparr>"
  have "used ?s = bits_of bm" by (simp add: used_def)
  then have u: "used ?s = {..<513}" unfolding bm(2) atLeast0LessThan .
  have "{..<4095} - {..<513} = {513..<4095 :: nat}" by auto
  then have "avail ?s = 3582" unfolding avail_def u by simp
  moreover have "free_run (used ?s) (100 * 32) 513" unfolding u by (auto simp: free_run_def)
  ultimately have "\<exists>j. j + 32 \<le> 4095 \<and> free_run (used s) 32 j"
    using assms(2,3) u by (intro run_survives[of ?s 100 32 513]) simp_all
  then show ?thesis by (auto simp: roomy_def)
qed

lemma boot_pid:
  assumes "boot_inv M us k" "length us < 5"
  shows "process_allocate_pid k = (of_nat (length us) + 1, k\<lparr>alloc_next_pid := of_nat (length us) + 1 + 1\<rparr>)"
proof -
  let ?n = "length us"
  have u: "unat (of_nat ?n :: u32) = ?n" using assms(2) by (intro unat_of_nat32) simp
  then have un: "unat (of_nat ?n + 1 :: u32) = ?n + 1" using assms(2) by (subst unat_add_small) simp_all
  have "candidate_pid k 0 = of_nat ?n + 1"
    using assms un by (simp add: candidate_pid_def boot_inv_def word32_eq_iff_unat unat_mod MAX_PROCESSES_def)
  moreover have "\<not> pid_used k (of_nat ?n + 1)"
  proof
    assume "pid_used k (of_nat ?n + 1)"
    then obtain j where j: "j < MAX_PROCESSES" "process_used k ! j" "p_pid (pcb_of k j) = of_nat ?n + 1" by (auto simp: pid_used_iff)
    have "j < ?n" using j(1,2) assms(1) by (auto simp: boot_inv_def nth_append split: if_splits)
    then have "p_pid (pcb_of k j) = of_nat (j + 1)" using assms(1) by (simp add: boot_inv_def pcb_of_def)
    moreover have "unat (of_nat (j + 1) :: u32) = j + 1" using \<open>j < ?n\<close> assms(2) by (intro unat_of_nat32) simp
    ultimately show False using j(3) un \<open>j < ?n\<close> by (metis add_right_cancel less_irrefl_nat)
  qed
  moreover have "(of_nat ?n + 1 :: u32) \<noteq> 0" using un by (metis add_is_0 one_neq_zero unat_0)
  moreover have "[0..<MAX_PROCESSES] = 0 # [1..<MAX_PROCESSES]" by (subst upt_conv_Cons) (simp_all add: MAX_PROCESSES_def)
  ultimately show ?thesis by (simp add: process_allocate_pid_def)
qed

lemma boot_slot:
  assumes "boot_inv M us k"
  shows "find (\<lambda>i. \<not> process_used k ! i) [0..<MAX_PROCESSES] = Some (length us)"
  unfolding find_upt_Some_iff using assms by (auto simp: boot_inv_def nth_append MAX_PROCESSES_def)

text \<open>What the start of the services does not touch.\<close>

definition started :: "kernel \<Rightarrow> bool \<times> u32 \<times> sys_handler option list \<times> idt_state" where
  "started k = (kernel_initialized k, timer_frequency k, syscall_table k, k_idt k)"

lemma boot_used:
  assumes "n < 5"
  shows "(replicate n True @ replicate (MAX_PROCESSES - n) False)[n := True] = replicate (Suc n) True @ replicate (MAX_PROCESSES - Suc n) False"
proof -
  have "replicate (MAX_PROCESSES - n) False = False # replicate (MAX_PROCESSES - Suc n) False"
    using assms by (simp add: MAX_PROCESSES_def Suc_diff_le replicate_Suc[symmetric] del: replicate_Suc)
  moreover have "replicate (Suc n) True = replicate n True @ [True]" by (simp add: replicate_append_same)
  ultimately show ?thesis by (simp add: list_update_append del: replicate_Suc)
qed

lemma boot_service:
  assumes inv: "boot_inv M us k" and n: "length us < 5"
  shows "\<exists>k'. start_service lay name (service_addr (length us)) u k = Return () k' \<and> boot_inv M (us @ [u]) k' \<and>
    started k' = started k"
proof -
  let ?n = "length us"
  have B: "mm_inv (k_mm k)" "{..<513} \<subseteq> used (k_mm k)" "sched_inv (k_sched k) [0..<?n]" "current_process (k_sched k) \<noteq> Some ?n"
    "length (process_used k) = MAX_PROCESSES" "3578 \<le> avail (k_mm k) + 11 * ?n"
    using inv n by (auto simp: boot_inv_def MAX_PROCESSES_def)
  have room: "roomy (k_mm k)" using low_memory_roomy[OF B(1,2)] B(6) n by simp
  have nz: "(of_nat ?n + 1 :: u32) \<noteq> 0" using n by (simp add: word32_eq_iff_unat unat_word_ariths unat_of_nat32 mod_less)
  have notin: "?n \<notin> set [0..<?n]" by simp
  obtain d p q s t where
    run: "start_service lay name (service_addr ?n) u k = Return () (k\<lparr>alloc_next_pid := of_nat ?n + 1 + 1, k_mm := s,
       process_used := (process_used k)[?n := True], k_sched := t\<rparr>)"
    and t: "sched_inv t ([0..<?n] @ [?n])" "current_process t = current_process (k_sched k)"
    "\<And>i. i \<noteq> ?n \<Longrightarrow> pcb_core (pcbs t i) = pcb_core (pcbs (k_sched k) i)"
    and new: "p_pid (pcbs t ?n) = of_nat ?n + 1" "p_state (pcbs t ?n) = PROCESS_READY" "p_is_user (pcbs t ?n) = u"
    "p_page_directory (pcbs t ?n) = page_addr d" "d < 4095"
    and sm: "service_memory (k_mm k) d (service_addr ?n) (if u then Some q else None) s" and un: "untouched M (k_mm k) \<Longrightarrow> untouched M s"
    by (rule start_service_spec[OF B(1) room B(5) boot_slot[OF inv] boot_pid[OF inv n] nz B(3,4) notin, of lay name "service_addr ?n" u]) blast
  have rep: "insert d (table_frames (mem s) (page_addr d)) \<inter> used (k_mm k) = {}"
      "aspace_rep (page_addr d) s (service_space (service_addr ?n) (if u then Some q else None))"
    and s: "avail (k_mm k) = avail s + (if u then 11 else 7)" "used (k_mm k) \<subseteq> used s"
      "\<And>a. unat a div 4096 \<in> used (k_mm k) \<Longrightarrow> mem s a = mem (k_mm k) a" and regs: "mm_regs s = mm_regs (k_mm k)"
    using sm unfolding service_memory_def by (auto split: if_splits)
  define k' where "k' = k\<lparr>alloc_next_pid := of_nat ?n + 1 + 1, k_mm := s, process_used := (process_used k)[?n := True], k_sched := t\<rparr>"
  have inv_s: "mm_inv s" using rep(2) by (simp add: aspace_rep_def)
  have kmap: "kernel_map s" by (rule kernel_map_keep[OF _ regs s(3) s(2) inv_s]) (use inv in \<open>simp_all add: boot_inv_def\<close>)
  have "unat a div 4096 \<in> used (k_mm k)" if "unat a div 4096 < 512" for a :: u32 using B(2) that by auto
  then have low: "low_kept M (mem s)" using inv s(3) by (simp add: boot_inv_def low_kept_def)
  have newok: "service_ok (service_addr ?n) u s (pcbs t ?n)"
    using new rep B(2) unfolding service_ok_def by blast
  have oldok: "service_ok (service_addr i) (us ! i) s (pcbs t i)" "p_pid (pcbs t i) = of_nat (i + 1)" if "i < ?n" for i
  proof -
    have ok: "service_ok (service_addr i) (us ! i) (k_mm k) (pcbs (k_sched k) i)" "p_pid (pcbs (k_sched k) i) = of_nat (i + 1)"
      using inv that by (auto simp: boot_inv_def)
    show "service_ok (service_addr i) (us ! i) s (pcbs t i)"
      by (rule service_ok_keep[OF ok(1) t(3)]) (use that s inv_s in auto)
    show "p_pid (pcbs t i) = of_nat (i + 1)" using t(3)[of i] ok(2) that by (simp add: pcb_core_eq_iff)
  qed
  have used': "process_used k' = replicate (Suc ?n) True @ replicate (MAX_PROCESSES - Suc ?n) False"
    using inv boot_used[OF n] by (simp add: k'_def boot_inv_def)
  have av: "3578 \<le> avail s + (11 + ?n * 11)" using B(6) s(1) by (cases u) simp_all
  have "boot_inv M (us @ [u]) k'"
    unfolding boot_inv_def using n used' t(1,2) inv inv_s B(2) av s(2) newok oldok new(1) un kmap low
    by (auto simp: k'_def boot_inv_def nth_append less_Suc_eq algebra_simps)
  then show ?thesis using run by (intro exI[of _ k']) (simp add: k'_def started_def)
qed

section \<open>The initialisation\<close>

lemma boot_print: "boot_inv M us (print str k) = boot_inv M us k"
  by (simp add: boot_inv_def)

lemma boot_services:
  assumes "boot_inv M [] k"
  shows "\<exists>k'. start_system_services lay k = Return () k' \<and> boot_inv M [True, False, False, False, True] k' \<and>
    started k' = started k"
proof -
  have addr: "service_addr 0 = 0x400000" "service_addr (Suc 0) = 0x408000" "service_addr (Suc (Suc 0)) = 0x410000"
    "service_addr (Suc (Suc (Suc 0))) = 0x418000" "service_addr (Suc (Suc (Suc (Suc 0)))) = 0x420000" by (simp_all add: service_addr_def)
  have step: "\<exists>k'. start_service lay name (service_addr (length us)) u (print_line str line k) = Return () k' \<and> boot_inv M (us @ [u]) k' \<and>
      started k' = started k"
    if "boot_inv M us k" "length us < 5" "unat line * 80 + length str \<le> 2000" for us u name str line k
    using boot_service[OF boot_print_line[OF that(1,3)] that(2), of lay name u] by (simp add: print_line_def print_def started_def)
  obtain k1 where k1: "start_service lay ''Init'' 0x400000 True (print_line ''Starting Init Process (PID 1)...'' 12 k) = Return () k1"
    "boot_inv M [True] k1" "started k1 = started k"
    using step[OF assms, of 12 "''Starting Init Process (PID 1)...''" "''Init''" True] addr(1) by auto
  obtain k2 where k2: "start_service lay ''Keyboard'' 0x408000 False (print_line ''Starting Keyboard Driver (PID 2)...'' 13 k1) = Return () k2"
    "boot_inv M [True, False] k2" "started k2 = started k"
    using step[OF k1(2), of 13 "''Starting Keyboard Driver (PID 2)...''" "''Keyboard''" False] addr(2) k1 by auto
  obtain k3 where k3: "start_service lay ''Console'' 0x410000 False (print_line ''Starting Console Driver (PID 3)...'' 14 k2) = Return () k3"
    "boot_inv M [True, False, False] k3" "started k3 = started k"
    using step[OF k2(2), of 14 "''Starting Console Driver (PID 3)...''" "''Console''" False] addr(3) k2 by auto
  obtain k4 where k4: "start_service lay ''Timer'' 0x418000 False (print_line ''Starting Timer Driver (PID 4)...'' 15 k3) = Return () k4"
    "boot_inv M [True, False, False, False] k4" "started k4 = started k"
    using step[OF k3(2), of 15 "''Starting Timer Driver (PID 4)...''" "''Timer''" False] addr(4) k3 by auto
  obtain k5 where k5: "start_service lay ''Shell'' 0x420000 True (print_line ''Starting Shell (PID 5)...'' 16 k4) = Return () k5"
    "boot_inv M [True, False, False, False, True] k5" "started k5 = started k"
    using step[OF k4(2), of 16 "''Starting Shell (PID 5)...''" "''Shell''" True] addr(5) k4 by auto
  show ?thesis
    using k1(1) k2(1) k3(1) k4(1) k5 by (simp add: start_system_services_def boot_print) (simp add: print_def started_def)
qed

lemma print_line_simps [simp]:
  "k_sched (print_line str line k) = k_sched k" "process_used (print_line str line k) = process_used k"
  "alloc_next_pid (print_line str line k) = alloc_next_pid k" "syscall_table (print_line str line k) = syscall_table k"
  "k_io (print_line str line k) = k_io k" "k_segs (print_line str line k) = k_segs k" "k_idt (print_line str line k) = k_idt k"
  "timer_frequency (print_line str line k) = timer_frequency k" "used (k_mm (print_line str line k)) = used (k_mm k)"
  "mm_inv (k_mm (print_line str line k)) = mm_inv (k_mm k)" "avail (k_mm (print_line str line k)) = avail (k_mm k)"
  "kernel_initialized (print_line str line k) = kernel_initialized k"
  by (simp_all add: print_line_def print_def used_def mm_inv_def avail_def)

lemma print_more [simp]:
  "syscall_table (print str k) = syscall_table k" "k_segs (print str k) = k_segs k" "k_idt (print str k) = k_idt k"
  "timer_frequency (print str k) = timer_frequency k" "kernel_initialized (print str k) = kernel_initialized k"
  by (simp_all add: print_def)

lemma syscall_init_frame [simp]:
  "alloc_next_pid (syscall_init k) = alloc_next_pid k" "k_sched (syscall_init k) = k_sched k" "k_mm (syscall_init k) = k_mm k"
  "process_used (syscall_init k) = process_used k" "k_idt (syscall_init k) = k_idt k"
  by (simp_all add: syscall_init_def Let_def)

lemma timer_init_returns:
  assumes "hz \<noteq> 0"
  shows "\<exists>s. hal_timer_init hz k = Return () (k\<lparr>timer_frequency := hz, k_io := s\<rparr>)"
proof -
  have "irq_port 0 = (0x21, 0)" by (simp add: irq_port_def)
  then have "\<exists>s'. hal_pic_unmask_irq 0 s = Some s'" for s using mask_irq_update(2)[of 0 0 "0x21" s] by simp
  then obtain s' where "hal_pic_unmask_irq 0 (write_divisor (PIT_FREQUENCY div hz) (k_io k)) = Some s'" by blast
  then show ?thesis
    using assms by (auto simp: hal_timer_init_def hal_timer_set_frequency_def hal_timer_enable_irq_def do_io_def)
qed

text \<open>
  The image of the kernel lies between 1 MB, where \<^verbatim>\<open>kernel.ld\<close> places it, and 2 MB, as \<^verbatim>\<open>memory_init\<close> takes it to. Then nothing of the
  hardware setup writes at 4 MB or above.
\<close>

definition low_layout :: "layout \<Rightarrow> bool" where
  "low_layout lay \<longleftrightarrow> bss_start lay \<le> bss_end lay \<and> unat (bss_end lay) \<le> 0x200000 \<and>
     0x100000 \<le> unat (tss_addr lay) \<and> unat (tss_addr lay) + 104 \<le> 0x200000"

definition high_same :: "memory \<Rightarrow> memory \<Rightarrow> bool" where
  "high_same m m' \<longleftrightarrow> (\<forall>a. 1024 \<le> unat a div 4096 \<longrightarrow> m' a = m a)"

lemma print_line_high:
  assumes "high_same m (kmem k)" "unat line * 80 + length str \<le> 2000"
  shows "high_same m (kmem (print_line str line k))"
  using assms(1) vga_write_outside[OF assms(2)] by (auto simp: high_same_def print_line_def kmem_def)

lemma clear_screen_high: "high_same (kmem k) (kmem (clear_screen k))"
proof -
  have "foldl (\<lambda>m i. store16 m (VGA_MEMORY + 2 * of_nat i) 0x0F20) m [0..<n] a = m a" if "n \<le> 2000" "unat a div 4096 \<noteq> 184" for m n a
    using that
  proof (induction n)
    case (Suc n)
    then have "unat (2 * of_nat n :: u32) \<le> 3998" by (simp add: unat_word_ariths unat_of_nat32)
    then show ?case using Suc store16_outside[OF _ Suc.prems(2)] by simp
  qed simp
  from this[of 2000] show ?thesis by (auto simp: high_same_def clear_screen_def set_mem_def kmem_def)
qed

lemma low_block:
  assumes "unat p + n \<le> 0x400000" "1024 \<le> unat a div 4096"
  shows "n \<le> unat (a - p)"
proof -
  have "0x400000 \<le> unat a" using assms(2) by linarith
  then show ?thesis using assms(1) by (simp add: unat_sub word_le_nat_alt)
qed

lemma clear_bss_high:
  assumes "low_layout lay" "high_same m (kmem k)"
  shows "high_same m (kmem (clear_bss lay k))"
proof -
  define n where "n = unat (bss_end lay - bss_start lay)"
  have n: "unat (bss_start lay) + n \<le> 0x400000" using assms(1) by (simp add: n_def low_layout_def unat_sub word_le_nat_alt)
  have "memset (kmem k) (bss_start lay) 0 n a = kmem k a" if "1024 \<le> unat a div 4096" for a
    using low_block[OF n that] n by (simp add: memset_apply)
  then show ?thesis using assms(2) by (simp add: high_same_def clear_bss_def kmem_def n_def)
qed

lemma gdt_init_high:
  assumes "low_layout lay" "hal_gdt_init g (tss_addr lay) (s, m) = Some (s', m')"
  shows "high_same m m'"
proof -
  let ?t = "tss_addr lay"
  have near: "store32 m (?t + i) v a = m a" if "unat i \<le> 100" "104 \<le> unat (a - ?t)" for m i v a
  proof -
    have "unat (a - ?t - i) = unat (a - ?t) - unat i" using that by (simp add: unat_sub word_le_nat_alt)
    then show ?thesis using that by (intro store32_other_byte) (simp add: algebra_simps)
  qed
  have last: "store16 m (?t + 102) w a = m a" if "104 \<le> unat (a - ?t)" for m w a
  proof -
    have "a - ?t \<noteq> 102" "a - ?t \<noteq> 103" using that by auto
    then have "a \<noteq> ?t + 102" "a \<noteq> ?t + 102 + 1" by (auto simp: algebra_simps)
    then show ?thesis by (simp add: store16_def)
  qed
  obtain t t' where w: "write_tss ?t 5 0x10 0x0 t m = Some (t', m')"
    using assms(2) by (auto simp: hal_gdt_init_def split: bind_splits)
  have "m' a = m a" if "1024 \<le> unat a div 4096" for a
  proof -
    have "104 \<le> unat (a - ?t)" using assms(1) that by (intro low_block) (simp_all add: low_layout_def)
    then show ?thesis using w by (auto simp: write_tss_def Let_def near last memset_apply split: option.splits)
  qed
  then show ?thesis by (simp add: high_same_def)
qed

lemma init_memory:
  "boot_memory M k \<Longrightarrow> boot_memory M (print str k)" "boot_memory M k \<Longrightarrow> boot_memory M (print_hex w k)"
  "boot_memory M k \<Longrightarrow> boot_memory M (scheduler_init_k k)" "boot_memory M k \<Longrightarrow> boot_memory M (process_init k)"
  "boot_memory M k \<Longrightarrow> boot_memory M (ipc_init k)" "boot_memory M k \<Longrightarrow> boot_memory M (capability_init_k k)"
  "boot_memory M k \<Longrightarrow> boot_memory M (syscall_init k)"
  by (simp_all add: boot_memory_def scheduler_init_k_def capability_init_k_def ipc_init_def process_init_def print_hex_def)

text \<open>The word of the task state segment with the stack for traps from user mode.\<close>

lemma tss_kept:
  assumes "low_layout lay" "low_kept M m"
  shows "tss_esp0 m (tss_addr lay) = tss_esp0 M (tss_addr lay)"
  unfolding tss_esp0_def
proof (rule load32_cong)
  fix i :: nat
  assume i: "i < 4"
  define a where "a = tss_addr lay + 4 + of_nat i"
  have "unat a = unat (tss_addr lay) + 4 + i"
    using assms(1) i by (simp add: a_def low_layout_def unat_word_ariths unat_of_nat32)
  then have "256 * 4096 \<le> unat a" "unat a < 512 * 4096" using assms(1) i by (simp_all add: low_layout_def)
  then have "256 \<le> unat a div 4096" "unat a div 4096 < 512" by (simp_all add: less_mult_imp_div_less)
  then show "m (tss_addr lay + 4 + of_nat i) = M (tss_addr lay + 4 + of_nat i)" using assms(2) unfolding low_kept_def a_def[symmetric] by simp
qed

lemma print_line_low: "unat line * 80 + length str \<le> 2000 \<Longrightarrow> low_kept (kmem k) (kmem (print_line str line k))"
  using vga_write_outside by (simp add: low_kept_def print_line_def kmem_def)

text \<open>The start in three parts: the hardware layer, the components of the kernel, interrupts and the timer.\<close>

definition bare :: "kernel \<Rightarrow> bool" where
  "bare k \<longleftrightarrow> alloc_next_pid k = 1 \<and> pcbs (k_sched k) = (\<lambda>_. zero_pcb) \<and> length (idt (k_idt k)) = 256 \<and> length (syscall_table k) = 256"

lemma hardware_setup:
  fixes lay :: layout
  assumes "hal_cpu_get_features cpu = Some f" and "alloc_next_pid k = 1"
  defines "k0 \<equiv> print_line ''BSS cleared'' 3 (clear_bss lay (print_line ''Initializing kernel...'' 2
    (print_line ''========================'' 1 (print_line ''Cat-OS Microkernel v1.0'' 0 (clear_screen k)))))"
  obtains k1 k2 k3 where "gdt_init_k lay k0 = Return () k1" "cpu_init_k cpu (print_line ''GDT initialized'' 4 k1) = Return () k2"
    "do_io hal_io_init (print_line ''CPU initialized'' 5 k2) = Return () k3" "bare k3" "low_layout lay \<longrightarrow> high_same (kmem k) (kmem k3)"
    "low_layout lay \<longrightarrow> tss_esp0 (kmem k3) (tss_addr lay) = 0"
proof -
  have f0: "bare k0" "length (gdt (k_segs k0)) = GDT_ENTRIES"
    using assms(2) by (simp_all add: bare_def k0_def clear_bss_def clear_screen_def set_mem_def)
  obtain sg m where g: "hal_gdt_init (gdt_addr lay) (tss_addr lay) (k_segs k0, kmem k0) = Some (sg, m)" and t: "tss_esp0 m (tss_addr lay) = 0"
    using gdt_init_spec[OF f0(2)] by blast
  define k1 where "k1 = set_mem m (k0\<lparr>k_segs := sg\<rparr>)"
  define k2 where "k2 = (print_line ''GDT initialized'' 4 k1)\<lparr>cpu_features := f\<rparr>"
  obtain io1 where io1: "hal_io_init (k_io (print_line ''CPU initialized'' 5 k2)) = Some io1" by (rule io_init_spec)
  show thesis
  proof (rule that)
    show "gdt_init_k lay k0 = Return () k1" using g by (simp add: gdt_init_k_def k1_def)
    show "cpu_init_k cpu (print_line ''GDT initialized'' 4 k1) = Return () k2" using assms(1) by (simp add: cpu_init_k_def hal_cpu_init_def k2_def)
    show "do_io hal_io_init (print_line ''CPU initialized'' 5 k2) = Return () ((print_line ''CPU initialized'' 5 k2)\<lparr>k_io := io1\<rparr>)"
      using io1 by (simp add: do_io_def)
    show "bare ((print_line ''CPU initialized'' 5 k2)\<lparr>k_io := io1\<rparr>)" using f0(1) by (simp add: bare_def k2_def k1_def set_mem_def)
    show "low_layout lay \<longrightarrow> high_same (kmem k) (kmem ((print_line ''CPU initialized'' 5 k2)\<lparr>k_io := io1\<rparr>))"
    proof
      assume low: "low_layout lay"
      have "high_same (kmem k) (kmem k0)" unfolding k0_def by (intro print_line_high clear_bss_high[OF low] clear_screen_high) simp_all
      then have "high_same (kmem k) (kmem k1)" using gdt_init_high[OF low g] by (simp add: k1_def high_same_def set_mem_def kmem_def)
      then have "high_same (kmem k) (kmem (print_line ''GDT initialized'' 4 k1))" by (rule print_line_high) simp
      then have "high_same (kmem k) (kmem k2)" by (simp add: k2_def kmem_def)
      then have "high_same (kmem k) (kmem (print_line ''CPU initialized'' 5 k2))" by (rule print_line_high) simp
      then show "high_same (kmem k) (kmem ((print_line ''CPU initialized'' 5 k2)\<lparr>k_io := io1\<rparr>))" by (simp add: kmem_def)
    qed
    have "kmem k1 = m" "kmem k2 = kmem (print_line ''GDT initialized'' 4 k1)"
      "kmem ((print_line ''CPU initialized'' 5 k2)\<lparr>k_io := io1\<rparr>) = kmem (print_line ''CPU initialized'' 5 k2)"
      by (simp_all add: k1_def k2_def set_mem_def kmem_def)
    then show "low_layout lay \<longrightarrow> tss_esp0 (kmem ((print_line ''CPU initialized'' 5 k2)\<lparr>k_io := io1\<rparr>)) (tss_addr lay) = 0"
      using t tss_kept[OF _ print_line_low[of 4 "''GDT initialized''" k1]] tss_kept[OF _ print_line_low[of 5 "''CPU initialized''" k2]] by auto
  qed
qed

lemma component_setup:
  assumes "bare k"
  obtains k1 where "memory_init_k k = Return () k1"
    "let k2 = print_line ''System calls initialized'' 12 (syscall_init (print_line ''Capability system initialized'' 11 (capability_init_k
         (print_line ''IPC initialized'' 10 (ipc_init (print_line ''Process management initialized'' 9 (process_init
           (print_line ''Scheduler initialized'' 8 (scheduler_init_k (print_line ''Memory manager initialized'' 7 k1)))))))))) in
       boot_inv (kmem k) [] k2 \<and> length (idt (k_idt k2)) = 256 \<and> (\<forall>j < 256. syscall_table k2 ! unat j = map_of syscall_entries j)"
proof -
  obtain s where s: "memory_init (k_mm k) = Some s" "mm_inv s" "{..<513} \<subseteq> used s" "avail s = 3578"
    using memory_init_spec[of "k_mm k"] by blast
  define k1 where "k1 = print ('' bytes'' @ crlf) (print_hex MEMORY_SIZE (print ''Total memory: '' (print (''Memory manager initialized'' @ crlf) (k\<lparr>k_mm := s\<rparr>))))"
  define k2 where "k2 = print_line ''Capability system initialized'' 11 (capability_init_k
    (print_line ''IPC initialized'' 10 (ipc_init (print_line ''Process management initialized'' 9 (process_init
      (print_line ''Scheduler initialized'' 8 (scheduler_init_k (print_line ''Memory manager initialized'' 7 k1))))))))"
  have f: "alloc_next_pid k2 = 1" "pcbs (k_sched k2) = (\<lambda>_. zero_pcb)" "current_process (k_sched k2) = None"
    "ready_queue_head (k_sched k2) = None" "ready_queue_tail (k_sched k2) = None" "process_used k2 = replicate MAX_PROCESSES False"
    "length (idt (k_idt k2)) = 256" "length (syscall_table k2) = 256" "used (k_mm k2) = used s" "mm_inv (k_mm k2)" "avail (k_mm k2) = avail s"
    using assms s(2)
    by (simp_all add: bare_def k2_def k1_def capability_init_k_def ipc_init_def process_init_def scheduler_init_k_def scheduler_init_def
        print_hex_def pcb_of_def fun_eq_iff)
  have "untouched (kmem k) s" using s(1) by (rule memory_init_untouched) (simp add: kmem_def)
  then have "boot_memory (kmem k) (k\<lparr>k_mm := s\<rparr>)" using s(3) memory_init_kernel_map[OF s(1)] memory_init_low[OF s(1)]
    by (auto simp: boot_memory_def low_kept_def kmem_def)
  then have "boot_memory (kmem k) (print_line ''System calls initialized'' 12 (syscall_init k2))"
    unfolding k2_def k1_def by (intro print_line_memory init_memory) simp_all
  then have "untouched (kmem k) (k_mm (print_line ''System calls initialized'' 12 (syscall_init k2)))"
    "kernel_map (k_mm (print_line ''System calls initialized'' 12 (syscall_init k2)))"
    "low_kept (kmem k) (mem (k_mm (print_line ''System calls initialized'' 12 (syscall_init k2))))" by (simp_all only: boot_memory_def)
  moreover have "sched_inv (k_sched k2) []" using f by (simp add: sched_inv_def queue_rep_def zero_pcb_def)
  ultimately have "boot_inv (kmem k) [] (print_line ''System calls initialized'' 12 (syscall_init k2))" using f s(3,4) by (simp add: boot_inv_def)
  then show thesis using that[of k1] s(1) f(7) syscall_init_table[OF f(8)] unfolding k2_def[symmetric]
    by (simp add: memory_init_k_def do_mm_def k1_def Let_def)
qed

lemma interrupt_setup:
  assumes "boot_inv M [] k" "length (idt (k_idt k)) = 256"
  obtains k1 k2 where "interrupt_init lay k = Return () k1" "hal_timer_init 100 (print_line ''Interrupts initialized'' 13 k1) = Return () k2"
    "boot_inv M [] k2" "timer_frequency k2 = 100" "syscall_table k2 = syscall_table k"
    "\<forall>n < 256. case vector_handler n of
       Some h \<Rightarrow> interrupt_gate (idt (k_idt k2) ! n) (handler_addr lay h) (if n = 0x80 then 3 else 0)
     | None \<Rightarrow> \<not> gate_present (idt (k_idt k2) ! n)"
proof -
  obtain t where t: "load_idt (handler_addr lay) (idt_addr lay) (k_idt k) = Some t"
    "\<forall>n < 256. case vector_handler n of
       Some h \<Rightarrow> interrupt_gate (idt t ! n) (handler_addr lay h) (if n = 0x80 then 3 else 0)
     | None \<Rightarrow> \<not> gate_present (idt t ! n)"
    using load_idt_spec[OF assms(2)] by blast
  define k1 where "k1 = print (''Interrupt system initialized'' @ crlf) (k\<lparr>k_idt := t\<rparr>)"
  define k2 where "k2 = print_line ''Interrupts initialized'' 13 k1"
  obtain io where io: "hal_timer_init 100 k2 = Return () (k2\<lparr>timer_frequency := 100, k_io := io\<rparr>)"
    using timer_init_returns[of 100 k2] by auto
  have i: "k_idt (k2\<lparr>timer_frequency := 100, k_io := io\<rparr>) = t" by (simp add: k2_def k1_def)
  show thesis
  proof (rule that)
    show "interrupt_init lay k = Return () k1" using t(1) by (simp add: interrupt_init_def k1_def)
    show "hal_timer_init 100 (print_line ''Interrupts initialized'' 13 k1) = Return () (k2\<lparr>timer_frequency := 100, k_io := io\<rparr>)"
      using io unfolding k2_def .
    have "boot_inv M [] k1" using assms(1) by (simp add: boot_inv_def k1_def)
    then have "boot_inv M [] k2" unfolding k2_def by (rule boot_print_line) simp
    then show "boot_inv M [] (k2\<lparr>timer_frequency := 100, k_io := io\<rparr>)" by (simp add: boot_inv_def)
  qed (use t(2) in \<open>simp_all only: i\<close>, simp_all add: k2_def k1_def)
qed

lemma kernel_setup_spec:
  assumes "hal_cpu_get_features cpu = Some f" and "alloc_next_pid k = 1"
  shows "\<exists>k' M. kernel_setup lay cpu k = Return () k' \<and> boot_inv M [] k' \<and> (low_layout lay \<longrightarrow> high_same (kmem k) M \<and> tss_esp0 M (tss_addr lay) = 0) \<and> kernel_initialized k' \<and> timer_frequency k' = 100 \<and>
    (\<forall>j < 256. syscall_table k' ! unat j = map_of syscall_entries j) \<and>
    (\<forall>n < 256. case vector_handler n of
       Some h \<Rightarrow> interrupt_gate (idt (k_idt k') ! n) (handler_addr lay h) (if n = 0x80 then 3 else 0)
     | None \<Rightarrow> \<not> gate_present (idt (k_idt k') ! n))"
proof -
  obtain k1 k2 k3 where hw: "gdt_init_k lay (print_line ''BSS cleared'' 3 (clear_bss lay (print_line ''Initializing kernel...'' 2
      (print_line ''========================'' 1 (print_line ''Cat-OS Microkernel v1.0'' 0 (clear_screen k)))))) = Return () k1"
    "cpu_init_k cpu (print_line ''GDT initialized'' 4 k1) = Return () k2"
    "do_io hal_io_init (print_line ''CPU initialized'' 5 k2) = Return () k3" "bare k3"
    and low: "low_layout lay \<longrightarrow> high_same (kmem k) (kmem k3)" "low_layout lay \<longrightarrow> tss_esp0 (kmem k3) (tss_addr lay) = 0"
    by (rule hardware_setup[OF assms, of lay])
  define k4 where "k4 = print_line ''PIC initialized'' 6 ((print_line ''I/O initialized'' 5 k3)\<lparr>k_io := hal_pic_init (k_io (print_line ''I/O initialized'' 5 k3))\<rparr>)"
  have "bare k4" using hw(4) by (simp add: bare_def k4_def)
  then obtain k5 where k5: "memory_init_k k4 = Return () k5" and up: "let k2 = print_line ''System calls initialized'' 12 (syscall_init
      (print_line ''Capability system initialized'' 11 (capability_init_k (print_line ''IPC initialized'' 10 (ipc_init
        (print_line ''Process management initialized'' 9 (process_init (print_line ''Scheduler initialized'' 8 (scheduler_init_k
          (print_line ''Memory manager initialized'' 7 k5)))))))))) in
       boot_inv (kmem k4) [] k2 \<and> length (idt (k_idt k2)) = 256 \<and> (\<forall>j < 256. syscall_table k2 ! unat j = map_of syscall_entries j)"
    by (rule component_setup)
  define k6 where "k6 = print_line ''System calls initialized'' 12 (syscall_init (print_line ''Capability system initialized'' 11 (capability_init_k
    (print_line ''IPC initialized'' 10 (ipc_init (print_line ''Process management initialized'' 9 (process_init
      (print_line ''Scheduler initialized'' 8 (scheduler_init_k (print_line ''Memory manager initialized'' 7 k5))))))))))"
  have k6: "boot_inv (kmem k4) [] k6" "length (idt (k_idt k6)) = 256" "\<forall>j < 256. syscall_table k6 ! unat j = map_of syscall_entries j"
    using up unfolding k6_def[symmetric] Let_def by blast+
  obtain k7 k8 where i: "interrupt_init lay k6 = Return () k7" "hal_timer_init 100 (print_line ''Interrupts initialized'' 13 k7) = Return () k8"
    and k8: "boot_inv (kmem k4) [] k8" "timer_frequency k8 = 100" "syscall_table k8 = syscall_table k6"
    "\<forall>n < 256. case vector_handler n of
       Some h \<Rightarrow> interrupt_gate (idt (k_idt k8) ! n) (handler_addr lay h) (if n = 0x80 then 3 else 0)
     | None \<Rightarrow> \<not> gate_present (idt (k_idt k8) ! n)"
    by (rule interrupt_setup[OF k6(1,2)])
  define k9 where "k9 = (print_line ''Timer enabled'' 14 k8)\<lparr>kernel_initialized := True\<rparr>"
  have run: "kernel_setup lay cpu k = Return () k9"
    unfolding kernel_setup_def Let_def hw(1-3) obind.simps k4_def[symmetric] k5 k6_def[symmetric] i k9_def[symmetric] ..
  have "boot_inv (kmem k4) [] (print_line ''Timer enabled'' 14 k8)" by (rule boot_print_line[OF k8(1)]) simp
  then have "boot_inv (kmem k4) [] k9" unfolding k9_def by (simp add: boot_inv_def)
  moreover have "kernel_initialized k9" "timer_frequency k9 = 100" "syscall_table k9 = syscall_table k6" and idt: "k_idt k9 = k_idt k8"
    using k8(2,3) by (simp_all add: k9_def)
  moreover have "high_same (kmem k) (kmem k4) \<and> tss_esp0 (kmem k4) (tss_addr lay) = 0" if lay: "low_layout lay"
  proof
    define k35 where "k35 = (print_line ''I/O initialized'' 5 k3)\<lparr>k_io := hal_pic_init (k_io (print_line ''I/O initialized'' 5 k3))\<rparr>"
    have k35: "kmem k35 = kmem (print_line ''I/O initialized'' 5 k3)" by (simp add: k35_def kmem_def)
    have "high_same (kmem k) (kmem (print_line ''I/O initialized'' 5 k3))" using low(1) lay by (auto intro!: print_line_high)
    then show "high_same (kmem k) (kmem k4)" unfolding k4_def k35_def[symmetric] by (intro print_line_high) (simp_all add: k35)
    show "tss_esp0 (kmem k4) (tss_addr lay) = 0" unfolding k4_def k35_def[symmetric]
      using low(2) lay tss_kept[OF lay print_line_low[of 6 "''PIC initialized''" k35]] tss_kept[OF lay print_line_low[of 5 "''I/O initialized''" k3]]
      by (simp add: k35)
  qed
  ultimately show ?thesis using run k6(3) k8(4) unfolding idt[symmetric] by (intro exI[of _ k9] exI[of _ "kmem k4"]) simp
qed

section \<open>Properties\<close>

lemma service_walk:
  assumes ok: "service_ok (service_addr i) u s c" and i: "i < 5" and va: "0x400000 \<le> va" "va < 0x408000"
  shows "walk (mem s) (p_page_directory c) va = Some (va + of_nat i * 0x8000, 6)"
proof -
  obtain d q where pd: "p_page_directory c = page_addr d"
    and rep: "aspace_rep (page_addr d) s (service_space (service_addr i) (if u then Some q else None))"
    using ok by (auto simp: service_ok_def)
  have u: "unat va = 4194304 + (unat va - 4194304)" "unat va < 4227072" using va by (simp_all add: word_le_nat_alt word_less_nat_alt)
  have v: "vpn va \<in> {1024..<1032}" using u by (auto simp: vpn_def)
  have off: "unat (of_nat i * 0x8000 :: u32) = i * 32768" using i by (subst unat_mult_small) (simp_all add: unat_of_nat32)
  have va': "unat (va + of_nat i * 0x8000) = unat va + i * 32768" using off u(2) i by (subst unat_add_small) simp_all
  have "of_nat (vpn va - 1024) * PAGE_SIZE + service_addr i = page_addr (vpn va + 8 * i)"
    using v by (simp add: service_addr_def page_addr_def of_nat_diff algebra_simps)
  then have e: "service_space (service_addr i) w (vpn va) = Some (page_addr (vpn va + 8 * i), True)" for w
    using v by (simp add: service_space_def binary_space_def add.commute)
  have "(va + of_nat i * 0x8000) AND 0xFFF = va AND 0xFFF"
  proof -
    have "unat ((va + of_nat i * 0x8000) AND mask 12) = unat (va AND mask 12)"
      unfolding take_bit_eq_mask[symmetric] unsigned_take_bit_eq va'
      using mod_mult_self1[of "unat va" "i * 8" 4096] by (simp add: take_bit_eq_mod mult.assoc)
    then show ?thesis unfolding page_mask word32_eq_iff_unat .
  qed
  moreover have "unat (va + of_nat i * 0x8000) div 4096 = vpn va + 8 * i" unfolding va' vpn_def by simp
  then have "PTE_ADDR (page_addr (vpn va + 8 * i)) OR ((va + of_nat i * 0x8000) AND 0xFFF) = va + of_nat i * 0x8000"
    using v i by (intro PTE_ADDR_page_addr) simp_all
  ultimately show ?thesis
    using aspace_walk[OF rep, of va] by (simp only: pd e option.case prod.case if_True)
qed

lemma boot_state:
  assumes "hal_cpu_get_features cpu = Some f" and "alloc_next_pid k = 1"
  obtains k' M where "kernel_main lay cpu k = Halt k'" "int_flag k'" "kernel_initialized k'" "timer_frequency k' = 100"
    "\<forall>j < 256. syscall_table k' ! unat j = map_of syscall_entries j"
    "boot_inv M [True, False, False, False, True] k'" "low_layout lay \<longrightarrow> high_same (kmem k) M \<and> tss_esp0 M (tss_addr lay) = 0"
proof -
  obtain k1 M where k1: "kernel_setup lay cpu k = Return () k1" "boot_inv M [] k1" "kernel_initialized k1" "timer_frequency k1 = 100"
    "\<forall>j < 256. syscall_table k1 ! unat j = map_of syscall_entries j" and low: "low_layout lay \<longrightarrow> high_same (kmem k) M \<and> tss_esp0 M (tss_addr lay) = 0"
    using kernel_setup_spec[OF assms] by blast
  define k2 where "k2 = print_line ''Starting system services...'' 17 (print_line ''Cat-OS Microkernel is RUNNING!'' 16
    (print_line ''Kernel initialization complete!'' 15 k1))"
  have b2: "boot_inv M [] k2" unfolding k2_def by (intro boot_print_line k1(2)) simp_all
  obtain k3 where k3: "start_system_services lay k2 = Return () k3" "boot_inv M [True, False, False, False, True] k3" "started k3 = started k2"
    using boot_services[OF b2] by blast
  define k4 where "k4 = print_line ''All services started!'' 18 k3"
  have b4: "boot_inv M [True, False, False, False, True] k4" unfolding k4_def by (intro boot_print_line k3(2)) simp
  have run: "kernel_main lay cpu k = Halt (hal_cpu_enable_interrupts k4)"
    by (simp add: kernel_main_def k1(1) k2_def[symmetric] k3(1) k4_def Let_def)
  have same: "kernel_initialized k4" "timer_frequency k4 = 100" "syscall_table k4 = syscall_table k1"
    using k3(3) k1(3,4) by (simp_all add: k4_def k2_def started_def)
  show thesis by (rule that[OF run _ _ _ _ _ low]) (use same k1(5) b4 in \<open>simp_all add: hal_cpu_enable_interrupts_def boot_inv_def\<close>)
qed

lemma boot_spec:
  assumes "hal_cpu_get_features cpu = Some f" and "alloc_next_pid k = 1"
  shows "\<exists>k'. kernel_main lay cpu k = Halt k' \<and> int_flag k' \<and> kernel_initialized k' \<and> timer_frequency k' = 100 \<and>
    sched_inv (k_sched k') [0, 1, 2, 3, 4] \<and> current_of k' = None \<and>
    (\<forall>j < 256. syscall_table k' ! unat j = map_of syscall_entries j) \<and>
    (\<forall>i < 5. let c = pcb_of k' i in p_pid c = of_nat (i + 1) \<and> p_state c = PROCESS_READY \<and> p_is_user c = (i = 0 \<or> i = 4) \<and>
      (\<forall>va. 0x400000 \<le> va \<and> va < 0x408000 \<longrightarrow>
        walk (mem (k_mm k')) (p_page_directory c) va = Some (va + of_nat i * 0x8000, 6)))"
proof -
  obtain k4 M where run: "kernel_main lay cpu k = Halt k4" and same: "int_flag k4" "kernel_initialized k4" "timer_frequency k4 = 100"
    and k1: "\<forall>j < 256. syscall_table k4 ! unat j = map_of syscall_entries j" and b4: "boot_inv M [True, False, False, False, True] k4"
    by (rule boot_state[OF assms])
  have q: "[0..<length [True, False, False, False, True]] = [0, 1, 2, 3, 4]" by (simp add: upt_conv_Cons)
  have svc: "p_pid (pcbs (k_sched k4) i) = of_nat (i + 1)"
    "service_ok (service_addr i) (i = 0 \<or> i = 4) (k_mm k4) (pcbs (k_sched k4) i)" if "i < 5" for i
  proof -
    have us: "[True, False, False, False, True] ! i = (i = 0 \<or> i = 4)" using that by (auto simp: nth_Cons numeral_eq_Suc split: nat.splits)
    have "i < length [True, False, False, False, True]" using that by simp
    then show "p_pid (pcbs (k_sched k4) i) = of_nat (i + 1)"
      "service_ok (service_addr i) (i = 0 \<or> i = 4) (k_mm k4) (pcbs (k_sched k4) i)"
      using b4 us unfolding boot_inv_def by metis+
  qed
  have "sched_inv (k_sched k4) [0, 1, 2, 3, 4]" "current_process (k_sched k4) = None" using b4 unfolding boot_inv_def q by blast+
  then show ?thesis
    using run same svc k1 service_walk[OF svc(2)]
    by (intro exI[of _ k4])
      (auto simp: current_of_def scheduler_get_current_def pcb_of_def service_ok_def Let_def)
qed

text \<open>
  C1: The kernel starts. On a processor whose features can be read, \<^verbatim>\<open>kernel_main\<close> runs through all its initialisations and the
  start of the five services without undefined behaviour or panic, and comes to its idle loop with interrupts enabled and the kernel marked
  initialised. The ready queue then holds the five services in the order they were started, with the process identifiers 1 to 5, the
  three drivers as kernel processes and Init and the shell as user processes, all READY; and the directory of each maps the
  32 KB at 4 MB to the place of its own binary, accessible from user mode.
\<close>

theorem kernel_boots:
  assumes "hal_cpu_get_features cpu = Some f" and "alloc_next_pid k = 1"
  shows "\<exists>k'. kernel_main lay cpu k = Halt k' \<and> int_flag k' \<and> kernel_initialized k' \<and> timer_frequency k' = 100 \<and>
    sched_inv (k_sched k') [0, 1, 2, 3, 4] \<and> current_of k' = None \<and>
    (\<forall>j < 256. syscall_table k' ! unat j = map_of syscall_entries j) \<and>
    (\<forall>i < 5. let c = pcb_of k' i in p_pid c = of_nat (i + 1) \<and> p_state c = PROCESS_READY \<and> p_is_user c = (i = 0 \<or> i = 4) \<and>
      (\<forall>va. 0x400000 \<le> va \<and> va < 0x408000 \<longrightarrow>
        walk (mem (k_mm k')) (p_page_directory c) va = Some (va + of_nat i * 0x8000, 6)))"
  by (rule boot_spec[OF assms])

definition demo_layout :: layout where
  "demo_layout = \<lparr>bss_start = 0x120000, bss_end = 0x130000, gdt_addr = 0x120000, tss_addr = 0x120100, idt_addr = 0x121000,
     handler_addr = (\<lambda>_. 0x110000), first_run_addr = 0x111000\<rparr>"

lemma demo_features: "\<exists>f. hal_cpu_get_features demo_cpu_new = Some f"
  by (rule exE[OF features_bits[of demo_cpu_new]]) (auto simp: demo_cpu_new_def bit_simps)

theorem kernel_boots_witness:
  "\<exists>k'. kernel_main demo_layout demo_cpu_new (demo_kernel\<lparr>alloc_next_pid := 1\<rparr>) = Halt k' \<and>
     sched_inv (k_sched k') [0, 1, 2, 3, 4] \<and> p_pid (pcb_of k' 4) = 5 \<and>
     walk (mem (k_mm k')) (p_page_directory (pcb_of k' 4)) 0x400123 = Some (0x420123, 6)"
proof -
  obtain f where "hal_cpu_get_features demo_cpu_new = Some f" using demo_features by blast
  from kernel_boots[OF this, of "demo_kernel\<lparr>alloc_next_pid := 1\<rparr>" demo_layout] obtain k' where
    k': "kernel_main demo_layout demo_cpu_new (demo_kernel\<lparr>alloc_next_pid := 1\<rparr>) = Halt k'" "sched_inv (k_sched k') [0, 1, 2, 3, 4]"
    and svc: "\<And>i. i < 5 \<Longrightarrow> p_pid (pcb_of k' i) = of_nat (i + 1) \<and>
      (\<forall>va. 0x400000 \<le> va \<and> va < 0x408000 \<longrightarrow> walk (mem (k_mm k')) (p_page_directory (pcb_of k' i)) va = Some (va + of_nat i * 0x8000, 6))"
    unfolding Let_def by auto
  have "p_pid (pcb_of k' 4) = 5" "walk (mem (k_mm k')) (p_page_directory (pcb_of k' 4)) 0x400123 = Some (0x420123, 6)"
    using svc[of 4] by simp_all
  then show ?thesis using k' by blast
qed

end
