(* ===== verification/System_Start.thy ===== *)
theory System_Start
  imports Boot_Loader Kernel_Main
begin

text \<open>
  The whole start: the second boot stage (\<^verbatim>\<open>boot/stage2_c.c\<close>) puts the image of the user programs at 4 MB and jumps to the
  kernel, and \<^verbatim>\<open>kernel_main\<close> maps the programs at the places where the boot stage has put them. Both sides have those addresses written out;
  here they are shown to agree, and the kernel to keep the programs until it is started.
\<close>

section \<open>The memory at the end of the start\<close>

text \<open>At most 55 pages above the reserved ones are in use, so nothing at 4 MB or above has been written.\<close>

lemma boot_memory_end:
  assumes "boot_inv M [True, False, False, False, True] k"
  obtains n where "used (k_mm k) = {..<n}" "513 \<le> n" "n \<le> 572" "high_same M (kmem k)"
proof -
  have B: "untouched M (k_mm k)" "{..<513} \<subseteq> used (k_mm k)" "3578 \<le> avail (k_mm k) + 55"
    using assms by (simp_all add: boot_inv_def)
  obtain n where n: "used (k_mm k) = {..<n}" "\<forall>a. n \<le> unat a div 4096 \<and> 1024 \<le> unat a div 4096 \<longrightarrow> kmem k a = M a"
    using B(1) by (auto simp: untouched_def kmem_def)
  have "{..<4095} - {..<n} = {n..<4095}" by auto
  then have "avail (k_mm k) = 4095 - n" by (simp add: avail_def n(1))
  then have "n \<le> 572" using B(3) by simp
  moreover have "513 \<le> n" using B(2) n(1) by simp
  ultimately show thesis using that n by (simp add: high_same_def)
qed

text \<open>Where a byte of a program is after the boot stage.\<close>

lemma loaded_program:
  assumes "i < 5" "j < 0x8000"
  defines "a \<equiv> 0x400000 + of_nat j + of_nat i * 0x8000 :: u32"
  shows "unat a = 0x400000 + j + i * 0x8000" "loaded m a = m (0x28000 + of_nat (i * 0x8000 + j))"
proof -
  have a': "a = of_nat (0x400000 + j + i * 0x8000)" by (simp add: a_def)
  show u: "unat a = 0x400000 + j + i * 0x8000" unfolding a' using assms(1,2) by (intro unat_of_nat32) simp
  have "a - 0x3D8000 = 0x28000 + of_nat (i * 0x8000 + j)" by (simp add: a_def)
  then show "loaded m a = m (0x28000 + of_nat (i * 0x8000 + j))" using u assms(1,2) by (simp add: loaded_def)
qed

section \<open>Properties\<close>

text \<open>The image of the programs is where the boot stage has put it, in the state in which the kernel idles.\<close>

lemma image_kept:
  assumes "stage2_c_main (m, s) = Jump entry sp m1 s1" "high_same m1 (kmem k)"
    and "high_same (kmem k) M" "boot_inv M [True, False, False, False, True] k'"
    and "1024 \<le> unat a div 4096"
  shows "kmem k' a = loaded m a"
proof -
  have kept: "high_same M (kmem k')" by (rule boot_memory_end[OF assms(4)])
  have "\<not> on_screen a" using assms(5) by (auto simp: on_screen_def)
  then have "m1 a = loaded m a" using stage2_spec[of m s] assms(1) by (auto split: if_splits)
  then show ?thesis using kept assms(2,3,5) by (simp add: high_same_def)
qed

lemma program_addr:
  assumes "j < 0x8000"
  shows "unat (0x400000 + of_nat j :: u32) = 0x400000 + j"
  using assms by (simp add: unat_word_ariths unat_of_nat32)

lemma services_run_images:
  assumes "stage2_c_main (m, s) = Jump entry sp m1 s1" and "high_same m1 (kmem k)" and "low_layout lay"
    and "hal_cpu_get_features cpu = Some f" and "alloc_next_pid k = 1"
  shows "\<exists>k'. kernel_main lay cpu k = Halt k' \<and>
    (\<forall>i < 5. \<forall>j < 0x8000. \<exists>pa. walk (kmem k') (p_page_directory (pcb_of k' i)) (0x400000 + of_nat j) = Some (pa, 6) \<and>
       kmem k' pa = m (0x28000 + of_nat (i * 0x8000 + j)))"
proof -
  obtain k' M where run: "kernel_main lay cpu k = Halt k'" and inv: "boot_inv M [True, False, False, False, True] k'"
    and M: "low_layout lay \<longrightarrow> high_same (kmem k) M \<and> tss_esp0 M (tss_addr lay) = 0"
    by (rule boot_state[OF assms(4,5)])
  obtain k'' where "kernel_main lay cpu k = Halt k''"
    and walk: "\<And>i va. i < 5 \<Longrightarrow> 0x400000 \<le> va \<Longrightarrow> va < 0x408000 \<Longrightarrow>
      walk (mem (k_mm k'')) (p_page_directory (pcb_of k'' i)) va = Some (va + of_nat i * 0x8000, 6)"
    using boot_spec[OF assms(4,5), of lay] unfolding Let_def by blast
  then have k'': "k'' = k'" using run by simp
  have "walk (kmem k') (p_page_directory (pcb_of k' i)) (0x400000 + of_nat j) = Some (0x400000 + of_nat j + of_nat i * 0x8000, 6) \<and>
      kmem k' (0x400000 + of_nat j + of_nat i * 0x8000) = m (0x28000 + of_nat (i * 0x8000 + j))" if ij: "i < 5" "j < 0x8000" for i j
  proof
    show "walk (kmem k') (p_page_directory (pcb_of k' i)) (0x400000 + of_nat j) = Some (0x400000 + of_nat j + of_nat i * 0x8000, 6)"
      using walk[OF ij(1), of "0x400000 + of_nat j"] program_addr[OF ij(2)] ij(2) unfolding k'' kmem_def by (simp add: word_le_nat_alt word_less_nat_alt)
    note P = loaded_program[OF ij]
    show "kmem k' (0x400000 + of_nat j + of_nat i * 0x8000) = m (0x28000 + of_nat (i * 0x8000 + j))"
      using image_kept[OF assms(1,2) _ inv] M assms(3) P by simp
  qed
  then show ?thesis using run by blast
qed

lemma directory_in_use:
  assumes "stage2_c_main (m, s) = Jump entry sp m1 s1" and "high_same m1 (kmem k)" and "low_layout lay"
    and "hal_cpu_get_features cpu = Some f" and "alloc_next_pid k = 1"
  shows "\<exists>k'. kernel_main lay cpu k = Halt k' \<and> (\<forall>i < 5. p_page_directory (pcb_of k' i) \<noteq> cr3 (k_mm k')) \<and>
    (\<forall>j < 0x8000. walk (kmem k') (cr3 (k_mm k')) (0x400000 + of_nat j) = Some (0x400000 + of_nat j, 2) \<and>
       kmem k' (0x400000 + of_nat j) = m (0x28000 + of_nat j)) \<and>
    tss_esp0 (kmem k') (tss_addr lay) = 0 \<and> walk (kmem k') (cr3 (k_mm k')) (0 - 4) = None"
proof -
  obtain k' M where run: "kernel_main lay cpu k = Halt k'" and inv: "boot_inv M [True, False, False, False, True] k'"
    and "low_layout lay \<longrightarrow> high_same (kmem k) M \<and> tss_esp0 M (tss_addr lay) = 0"
    by (rule boot_state[OF assms(4,5)])
  then have M: "high_same (kmem k) M" "tss_esp0 M (tss_addr lay) = 0" using assms(3) by simp_all
  have map: "kernel_map (k_mm k')" using inv by (simp add: boot_inv_def)
  have "p_page_directory (pcb_of k' i) \<noteq> cr3 (k_mm k')" if "i < 5" for i
  proof -
    have "service_ok (service_addr i) ([True, False, False, False, True] ! i) (k_mm k') (pcb_of k' i)"
      using inv that unfolding boot_inv_def pcb_of_def by simp
    then obtain d where d: "p_page_directory (pcb_of k' i) = page_addr d" "d < 4095" "d \<notin> {..<513}"
      unfolding service_ok_def by (elim conjE exE) auto
    then have "unat (page_addr d) \<noteq> unat (page_addr 512)" by (simp add: unat_page_addr)
    then show ?thesis using d(1) map by (auto simp: kernel_map_def)
  qed
  moreover have "walk (kmem k') (cr3 (k_mm k')) (0x400000 + of_nat j) = Some (0x400000 + of_nat j, 2) \<and>
      kmem k' (0x400000 + of_nat j) = m (0x28000 + of_nat j)" if j: "j < 0x8000" for j
  proof
    show "walk (kmem k') (cr3 (k_mm k')) (0x400000 + of_nat j) = Some (0x400000 + of_nat j, 2)"
      unfolding kmem_def using program_addr[OF j] j by (intro kernel_map_walk[OF map]) simp
    have "0 < (5 :: nat)" by simp
    from loaded_program[OF this j] show "kmem k' (0x400000 + of_nat j) = m (0x28000 + of_nat j)"
      using image_kept[OF assms(1,2) M(1) inv, of "0x400000 + of_nat j"] by simp
  qed
  moreover have "low_kept M (kmem k')" using inv by (simp add: boot_inv_def kmem_def)
  from tss_kept[OF assms(3) this] have "tss_esp0 (kmem k') (tss_addr lay) = 0" using M(2) by simp
  moreover have "walk (kmem k') (cr3 (k_mm k')) (0 - 4) = None" unfolding kmem_def by (rule kernel_map_walk_none[OF map]) simp
  ultimately show ?thesis using run by blast
qed

text \<open>
  The kernel does not reserve the pages of the programs: the first 512 pages it gives out after the start, a request of 2 MB, contain
  page 1024, where the code of Init is.
\<close>

lemma program_pages_not_reserved:
  assumes "hal_cpu_get_features cpu = Some f" and "alloc_next_pid k = 1"
  shows "\<exists>k' n s'. kernel_main lay cpu k = Halt k' \<and> memory_alloc_pages 512 (k_mm k') = Some (page_addr n, s') \<and> 1024 \<in> {n..<n + 512}"
proof -
  obtain k' M where run: "kernel_main lay cpu k = Halt k'" and inv: "boot_inv M [True, False, False, False, True] k'"
    by (rule boot_state[OF assms])
  obtain n where n: "used (k_mm k') = {..<n}" "513 \<le> n" "n \<le> 572" by (rule boot_memory_end[OF inv])
  have wf: "wf_bitmap (page_bitmap (k_mm k'))" using inv by (simp add: boot_inv_def mm_inv_def)
  have c: "unat (512 :: u32) \<le> 4096" by simp
  have fr: "free_run (used (k_mm k')) 512 n" by (auto simp: free_run_def n(1))
  from wf c have "\<exists>s'. memory_alloc_pages 512 (k_mm k') = Some (page_addr n, s')"
  proof (cases rule: alloc_cases)
    case fail
    then show ?thesis using fr n(3) by auto
  next
    case (success j bm)
    have "\<not> n < j" using success(3) fr n(3) by auto
    moreover have "j \<in> {j..<j + unat (512 :: u32)}" by simp
    then have "j \<notin> {..<n}" using success(2) unfolding free_run_def n(1) by blast
    ultimately have "j = n" by simp
    then show ?thesis using success(6) by simp
  qed
  then show ?thesis using run n(2,3) by auto
qed

text \<open>
  C2: The system starts with the programs that were loaded. When the second boot stage ends with its jump, and the kernel finds the memory
  above 4 MB as that stage left it, its own image being below, then \<^verbatim>\<open>kernel_main\<close> comes to its idle loop, and the page directory of
  each of the five services leads, from each address of the 32 KB at 4 MB, with user rights, to the byte of its own program in the image that was
  read from the disk: program number i is the i-th block of 64 sectors behind the kernel. Nothing of the start, neither the page tables and stacks it allocates nor
  the variables it clears, has overwritten a program.
\<close>

theorem services_run_their_images:
  assumes "stage2_c_main (m, s) = Jump entry sp m1 s1" and "high_same m1 (kmem k)" and "low_layout lay"
    and "hal_cpu_get_features cpu = Some f" and "alloc_next_pid k = 1"
  shows "\<exists>k'. kernel_main lay cpu k = Halt k' \<and>
    (\<forall>i < 5. \<forall>j < 0x8000. \<exists>pa. walk (kmem k') (p_page_directory (pcb_of k' i)) (0x400000 + of_nat j) = Some (pa, 6) \<and>
       kmem k' pa = m (0x28000 + of_nat (i * 0x8000 + j)))"
  by (rule services_run_images[OF assms])

definition demo_disk :: memory where
  "demo_disk a = ucast (drop_bit 12 a)"

definition demo_start :: "memory \<Rightarrow> kernel" where
  "demo_start m1 = set_mem m1 (demo_kernel\<lparr>alloc_next_pid := 1\<rparr>)"

lemma demo_boot:
  obtains m1 s1 f where "stage2_c_main (demo_disk, k_io demo_kernel) = Jump 0x100000 0x90000 m1 s1" "high_same m1 (kmem (demo_start m1))"
    "low_layout demo_layout" "hal_cpu_get_features demo_cpu_new = Some f" "alloc_next_pid (demo_start m1) = 1"
proof -
  have "load32 demo_disk 0x20000 \<noteq> 0" by code_simp
  then obtain m1 s1 where st: "stage2_c_main (demo_disk, k_io demo_kernel) = Jump 0x100000 0x90000 m1 s1"
    using stage2_spec[of demo_disk "k_io demo_kernel"] by auto
  have k: "high_same m1 (kmem (demo_start m1))" "alloc_next_pid (demo_start m1) = 1"
    by (simp_all add: demo_start_def set_mem_def kmem_def high_same_def)
  have low: "low_layout demo_layout" by (simp add: low_layout_def demo_layout_def)
  obtain f where "hal_cpu_get_features demo_cpu_new = Some f" using demo_features by blast
  with st k low show thesis using that by blast
qed

theorem services_run_their_images_witness:
  "\<exists>m1 s1 k' pa. stage2_c_main (demo_disk, k_io demo_kernel) = Jump 0x100000 0x90000 m1 s1 \<and>
     kernel_main demo_layout demo_cpu_new (demo_start m1) = Halt k' \<and>
     walk (kmem k') (p_page_directory (pcb_of k' 4)) 0x400123 = Some (pa, 6) \<and> kmem k' pa = 0x48"
proof -
  obtain m1 s1 f where st: "stage2_c_main (demo_disk, k_io demo_kernel) = Jump 0x100000 0x90000 m1 s1"
    and h: "high_same m1 (kmem (demo_start m1))" "low_layout demo_layout" "hal_cpu_get_features demo_cpu_new = Some f"
      "alloc_next_pid (demo_start m1) = 1" by (rule demo_boot)
  from services_run_their_images[OF st h] obtain k' where run: "kernel_main demo_layout demo_cpu_new (demo_start m1) = Halt k'"
    and svc: "\<forall>i < 5. \<forall>j < 0x8000. \<exists>pa. walk (kmem k') (p_page_directory (pcb_of k' i)) (0x400000 + of_nat j) = Some (pa, 6) \<and>
       kmem k' pa = demo_disk (0x28000 + of_nat (i * 0x8000 + j))" by blast
  have "\<exists>pa. walk (kmem k') (p_page_directory (pcb_of k' 4)) 0x400123 = Some (pa, 6) \<and> kmem k' pa = demo_disk 0x48123"
    using svc[rule_format, of 4 "0x123"] by simp
  moreover have "demo_disk 0x48123 = 0x48" by code_simp
  ultimately show ?thesis using st run by auto
qed

text \<open>
  C3: The directory in use after the start is not that of any service. It is the kernel's, and it has the addresses of the programs, 32 KB from
  4 MB on, mapped to themselves and for the supervisor only: a service that runs in user mode there cannot execute its first
  instruction, and a driver that runs in kernel mode finds the program of the first service at its own addresses, whichever driver it is. Nor can a trap
  from user mode be taken: the task state segment gives it the stack pointer 0, and the word below address 0 is not mapped.
\<close>

theorem services_find_first_program:
  assumes "stage2_c_main (m, s) = Jump entry sp m1 s1" and "high_same m1 (kmem k)" and "low_layout lay"
    and "hal_cpu_get_features cpu = Some f" and "alloc_next_pid k = 1"
  shows "\<exists>k'. kernel_main lay cpu k = Halt k' \<and> (\<forall>i < 5. p_page_directory (pcb_of k' i) \<noteq> cr3 (k_mm k')) \<and>
    (\<forall>j < 0x8000. walk (kmem k') (cr3 (k_mm k')) (0x400000 + of_nat j) = Some (0x400000 + of_nat j, 2) \<and>
       kmem k' (0x400000 + of_nat j) = m (0x28000 + of_nat j)) \<and>
    tss_esp0 (kmem k') (tss_addr lay) = 0 \<and> walk (kmem k') (cr3 (k_mm k')) (0 - 4) = None"
  by (rule directory_in_use[OF assms])

theorem services_find_first_program_witness:
  "\<exists>m1 s1 k'. stage2_c_main (demo_disk, k_io demo_kernel) = Jump 0x100000 0x90000 m1 s1 \<and>
     kernel_main demo_layout demo_cpu_new (demo_start m1) = Halt k' \<and> p_page_directory (pcb_of k' 4) \<noteq> cr3 (k_mm k') \<and>
     walk (kmem k') (cr3 (k_mm k')) 0x400123 = Some (0x400123, 2) \<and> kmem k' 0x400123 = 0x28 \<and>
     tss_esp0 (kmem k') (tss_addr demo_layout) = 0"
proof -
  obtain m1 s1 f where st: "stage2_c_main (demo_disk, k_io demo_kernel) = Jump 0x100000 0x90000 m1 s1"
    and h: "high_same m1 (kmem (demo_start m1))" "low_layout demo_layout" "hal_cpu_get_features demo_cpu_new = Some f"
      "alloc_next_pid (demo_start m1) = 1" by (rule demo_boot)
  from services_find_first_program[OF st h] obtain k' where run: "kernel_main demo_layout demo_cpu_new (demo_start m1) = Halt k'"
    and dirs: "\<forall>i < 5. p_page_directory (pcb_of k' i) \<noteq> cr3 (k_mm k')"
    and svc: "\<forall>j < 0x8000. walk (kmem k') (cr3 (k_mm k')) (0x400000 + of_nat j) = Some (0x400000 + of_nat j, 2) \<and>
       kmem k' (0x400000 + of_nat j) = demo_disk (0x28000 + of_nat j)"
    and esp0: "tss_esp0 (kmem k') (tss_addr demo_layout) = 0" by blast
  have "walk (kmem k') (cr3 (k_mm k')) 0x400123 = Some (0x400123, 2) \<and> kmem k' 0x400123 = demo_disk 0x28123"
    using svc[rule_format, of "0x123"] by simp
  moreover have "demo_disk 0x28123 = 0x28" by code_simp
  moreover have "p_page_directory (pcb_of k' 4) \<noteq> cr3 (k_mm k')" using dirs by simp
  ultimately show ?thesis using st run esp0 by auto
qed

end
