(* ===== verification/Kernel_Typing.thy ===== *)
theory Kernel_Typing
  imports Kernel_Main
begin

text \<open>
  What stays true of the whole kernel: the system as a step relation of programs, interrupts and switches, and the contract
  \<open>kernel_invariant\<close> of the predicates that every entry into the kernel keeps, with any registers and any arguments. It is
  interpreted three times: on the types of the kernel's data (tables of their declared sizes, process pointers within the process
  table, system call entries with their handlers), on the page directory in use, and on the identifiers of the processes.
\<close>

section \<open>Well-typed states\<close>

definition slot_ptr :: "nat option \<Rightarrow> bool" where
  "slot_ptr x = (case x of None \<Rightarrow> True | Some p \<Rightarrow> p < MAX_PROCESSES)"

lemma slot_ptr_simps [simp]: "slot_ptr None" "slot_ptr (Some p) \<longleftrightarrow> p < MAX_PROCESSES"
  by (simp_all add: slot_ptr_def)

definition pcb_wf :: "pcb \<Rightarrow> bool" where
  "pcb_wf c \<longleftrightarrow> slot_ptr (p_next c) \<and> slot_ptr (p_prev c) \<and> length (p_registers c) = 16"

definition sched_wf :: "sched \<Rightarrow> bool" where
  "sched_wf s \<longleftrightarrow> slot_ptr (current_process s) \<and> slot_ptr (ready_queue_head s) \<and> slot_ptr (ready_queue_tail s) \<and>
     (\<forall>p < MAX_PROCESSES. pcb_wf (pcbs s p))"

text \<open>An entry of the system call table is empty or the handler of its number.\<close>

definition table_wf :: "sys_handler option list \<Rightarrow> bool" where
  "table_wf t \<longleftrightarrow> length t = 256 \<and> (\<forall>j < 256. t ! unat j = None \<or> t ! unat j = map_of syscall_entries (j :: u32))"

definition kernel_wf :: "kernel \<Rightarrow> bool" where
  "kernel_wf k \<longleftrightarrow> wf_bitmap (page_bitmap (k_mm k)) \<and> sched_wf (k_sched k) \<and> length (process_used k) = MAX_PROCESSES \<and>
     length (message_queues k) = MAX_PROCESSES \<and> length (msg_handlers k) = 32 \<and> table_wf (syscall_table k) \<and>
     length (capabilities (k_caps k)) = MAX_CAPS \<and> length (gdt (k_segs k)) = GDT_ENTRIES \<and> length (idt (k_idt k)) = 256"

text \<open>
  All states in which an operation leaves the kernel satisfy \<open>P\<close>: where it returns, with a result that satisfies \<open>Q\<close>; where it
  switches to another process, between slots of the table; and, once it is resumed in such a state, from there on.
\<close>

primrec keeps :: "(kernel \<Rightarrow> bool) \<Rightarrow> ('a \<Rightarrow> bool) \<Rightarrow> 'a outcome \<Rightarrow> bool" where
  "keeps P Q (Return a k) \<longleftrightarrow> P k \<and> Q a"
| "keeps P Q (Switch p n k rest) \<longleftrightarrow> P k \<and> slot_ptr p \<and> n < MAX_PROCESSES \<and> (\<forall>k'. P k' \<longrightarrow> keeps P Q (rest k'))"
| "keeps P Q (Halt k) \<longleftrightarrow> P k"
| "keeps P Q Undef \<longleftrightarrow> True"

abbreviation invariant :: "(kernel \<Rightarrow> bool) \<Rightarrow> 'a outcome \<Rightarrow> bool" where
  "invariant P \<equiv> keeps P (\<lambda>_. True)"

abbreviation typed :: "'a outcome \<Rightarrow> bool" where
  "typed \<equiv> invariant kernel_wf"

lemma keeps_bind:
  assumes "keeps P Q x" "\<And>a k. P k \<Longrightarrow> Q a \<Longrightarrow> keeps P R (f a k)"
  shows "keeps P R (obind x f)"
  using assms(1) by (induction x) (use assms(2) in auto)

lemma keeps_weaken: "keeps P Q x \<Longrightarrow> (\<And>a. Q a \<Longrightarrow> R a) \<Longrightarrow> keeps P R x"
  by (induction x) auto

text \<open>An operation that neither switches nor halts: it returns with \<open>Q\<close> of its result and state.\<close>

definition gives :: "('a \<Rightarrow> kernel \<Rightarrow> bool) \<Rightarrow> 'a outcome \<Rightarrow> bool" where
  "gives Q x \<longleftrightarrow> (case x of Return a k \<Rightarrow> Q a k | Undef \<Rightarrow> True | _ \<Rightarrow> False)"

abbreviation ends :: "(kernel \<Rightarrow> bool) \<Rightarrow> 'a outcome \<Rightarrow> bool" where
  "ends P \<equiv> gives (\<lambda>_. P)"

lemma gives_simps [simp]: "gives Q (Return a k) = Q a k" "gives Q Undef"
  by (simp_all add: gives_def)

lemma gives_bind: "gives Q x \<Longrightarrow> (\<And>a k. Q a k \<Longrightarrow> gives R (f a k)) \<Longrightarrow> gives R (obind x f)"
  by (cases x) (simp_all add: gives_def)

lemmas ends_bind = gives_bind[where Q = "\<lambda>_. P" for P]

lemma gives_keeps: "gives (\<lambda>a k. P k \<and> Q a) x \<Longrightarrow> keeps P Q x"
  by (cases x) (simp_all add: gives_def)

lemma gives_mm:
  "(\<And>a s'. f (k_mm k) = Some (a, s') \<Longrightarrow> Q a (k\<lparr>k_mm := s'\<rparr>)) \<Longrightarrow> gives Q (on_mm f k)"
  "(\<And>s'. g (k_mm k) = Some s' \<Longrightarrow> R () (k\<lparr>k_mm := s'\<rparr>)) \<Longrightarrow> gives R (do_mm g k)"
  by (auto simp: on_mm_def do_mm_def split: option.splits)

section \<open>The scheduler\<close>

lemma sched_wfD:
  assumes "sched_wf s"
  shows "slot_ptr (current_process s)" "slot_ptr (ready_queue_head s)" "slot_ptr (ready_queue_tail s)"
    "p < MAX_PROCESSES \<Longrightarrow> pcb_wf (pcbs s p)" "p < MAX_PROCESSES \<Longrightarrow> slot_ptr (p_next (pcbs s p))"
    "p < MAX_PROCESSES \<Longrightarrow> slot_ptr (p_prev (pcbs s p))"
  using assms by (simp_all add: sched_wf_def pcb_wf_def)

lemma upd_pcb_wf:
  assumes "sched_wf s" "p < MAX_PROCESSES \<Longrightarrow> pcb_wf (pcbs s p) \<Longrightarrow> pcb_wf (f (pcbs s p))"
  shows "sched_wf (upd_pcb p f s)"
  using assms by (simp add: sched_wf_def)

text \<open>Updates that concern neither pointers nor registers.\<close>

lemma pcb_wf_updates [simp]:
  "pcb_wf (c\<lparr>p_state := st\<rparr>) = pcb_wf c" "pcb_wf (c\<lparr>p_pid := i\<rparr>) = pcb_wf c" "pcb_wf (c\<lparr>p_cpu_time := t\<rparr>) = pcb_wf c"
  "pcb_wf (c\<lparr>p_waiting_for := w\<rparr>) = pcb_wf c" "pcb_wf (c\<lparr>p_exit_code := e\<rparr>) = pcb_wf c" "pcb_wf (c\<lparr>p_page_directory := a\<rparr>) = pcb_wf c"
  "pcb_wf (c\<lparr>p_kernel_stack := a\<rparr>) = pcb_wf c" "pcb_wf (c\<lparr>p_user_stack := a\<rparr>) = pcb_wf c"
  by (simp_all add: pcb_wf_def)

lemma pcb_wf_links: "pcb_wf c \<Longrightarrow> slot_ptr n \<Longrightarrow> pcb_wf (c\<lparr>p_next := n\<rparr>)" "pcb_wf c \<Longrightarrow> slot_ptr n \<Longrightarrow> pcb_wf (c\<lparr>p_prev := n\<rparr>)"
  by (simp_all add: pcb_wf_def)

lemma sched_wf_fields [simp]:
  "sched_wf (s\<lparr>sched_next_pid := i\<rparr>) = sched_wf s" "sched_wf (s\<lparr>scheduler_ticks := t\<rparr>) = sched_wf s"
  by (simp_all add: sched_wf_def)

lemma sched_wf_heads:
  "sched_wf s \<Longrightarrow> slot_ptr x \<Longrightarrow> sched_wf (s\<lparr>ready_queue_head := x\<rparr>)" "sched_wf s \<Longrightarrow> slot_ptr x \<Longrightarrow> sched_wf (s\<lparr>ready_queue_tail := x\<rparr>)"
  "sched_wf s \<Longrightarrow> slot_ptr x \<Longrightarrow> sched_wf (s\<lparr>current_process := x\<rparr>)"
  by (simp_all add: sched_wf_def)

lemma add_to_ready_wf:
  assumes wf: "sched_wf s" and p: "slot_ptr p" and run: "scheduler_add_to_ready p s = Some s'"
  shows "sched_wf s'"
proof (cases p)
  case None
  then show ?thesis using wf run by (simp add: scheduler_add_to_ready_def)
next
  case (Some i)
  then have i: "i < MAX_PROCESSES" using p by simp
  define s1 where "s1 = upd_pcb i (\<lambda>c. c\<lparr>p_next := None, p_prev := None\<rparr>) s"
  have wf1: "sched_wf s1" unfolding s1_def using wf by (rule upd_pcb_wf) (simp add: pcb_wf_def)
  have run1: "(if ready_queue_head s1 = None then Some (s1\<lparr>ready_queue_head := Some i, ready_queue_tail := Some i\<rparr>)
      else case ready_queue_tail s1 of None \<Rightarrow> None | Some t \<Rightarrow>
        Some (upd_pcb i (\<lambda>c. c\<lparr>p_prev := Some t\<rparr>) (upd_pcb t (\<lambda>c. c\<lparr>p_next := Some i\<rparr>) s1)\<lparr>ready_queue_tail := Some i\<rparr>)) = Some s'"
    using run unfolding scheduler_add_to_ready_def Some s1_def Let_def option.case .
  show ?thesis
  proof (cases "ready_queue_head s1 = None")
    case True
    then show ?thesis using run1 wf1 i by (auto simp: sched_wf_def)
  next
    case False
    then obtain t where t: "ready_queue_tail s1 = Some t"
      and s': "s' = upd_pcb i (\<lambda>c. c\<lparr>p_prev := Some t\<rparr>) (upd_pcb t (\<lambda>c. c\<lparr>p_next := Some i\<rparr>) s1)\<lparr>ready_queue_tail := Some i\<rparr>"
      using run1 by (auto split: option.splits)
    have "t < MAX_PROCESSES" using sched_wfD(3)[OF wf1] t by simp
    then show ?thesis unfolding s' using wf1 i by (intro sched_wf_heads upd_pcb_wf pcb_wf_links) auto
  qed
qed

lemma remove_from_ready_wf:
  assumes wf: "sched_wf s" and p: "slot_ptr p"
  shows "sched_wf (scheduler_remove_from_ready p s)"
proof (cases p)
  case None
  then show ?thesis using wf by (simp add: scheduler_remove_from_ready_def)
next
  case (Some i)
  then have i: "i < MAX_PROCESSES" using p by simp
  define first where "first = (case p_prev (pcbs s i) of
      Some q \<Rightarrow> Some (upd_pcb q (\<lambda>c. c\<lparr>p_next := p_next (pcbs s i)\<rparr>) s)
    | None \<Rightarrow> if ready_queue_head s = Some i then Some (s\<lparr>ready_queue_head := p_next (pcbs s i)\<rparr>) else None)"
  have first: "sched_wf s1" if "first = Some s1" for s1
    using that wf sched_wfD[OF wf] i unfolding first_def
    by (auto split: option.splits if_splits intro!: upd_pcb_wf pcb_wf_links sched_wf_heads)
  have second: "sched_wf (upd_pcb i (\<lambda>c. c\<lparr>p_next := None, p_prev := None\<rparr>) (case p_next (pcbs s1 i) of
        Some q \<Rightarrow> upd_pcb q (\<lambda>c. c\<lparr>p_prev := p_prev (pcbs s1 i)\<rparr>) s1
      | None \<Rightarrow> if ready_queue_tail s1 = Some i then s1\<lparr>ready_queue_tail := p_prev (pcbs s1 i)\<rparr> else s1))" if "sched_wf s1" for s1
  proof (rule upd_pcb_wf)
    show "sched_wf (case p_next (pcbs s1 i) of Some q \<Rightarrow> upd_pcb q (\<lambda>c. c\<lparr>p_prev := p_prev (pcbs s1 i)\<rparr>) s1
      | None \<Rightarrow> if ready_queue_tail s1 = Some i then s1\<lparr>ready_queue_tail := p_prev (pcbs s1 i)\<rparr> else s1)"
      using that sched_wfD[OF that] i by (auto split: option.splits intro!: upd_pcb_wf pcb_wf_links sched_wf_heads)
  qed (simp add: pcb_wf_def)
  have "scheduler_remove_from_ready p s = (case first of None \<Rightarrow> s | Some s1 \<Rightarrow>
      upd_pcb i (\<lambda>c. c\<lparr>p_next := None, p_prev := None\<rparr>) (case p_next (pcbs s1 i) of
        Some q \<Rightarrow> upd_pcb q (\<lambda>c. c\<lparr>p_prev := p_prev (pcbs s1 i)\<rparr>) s1
      | None \<Rightarrow> if ready_queue_tail s1 = Some i then s1\<lparr>ready_queue_tail := p_prev (pcbs s1 i)\<rparr> else s1))"
    unfolding scheduler_remove_from_ready_def Some first_def Let_def option.case ..
  then show ?thesis using wf first second by (cases first) simp_all
qed

text \<open>A switch is between slots of the table.\<close>

definition control_ok :: "control \<Rightarrow> bool" where
  "control_ok c = (case c of Returned \<Rightarrow> True | Switched p q \<Rightarrow> slot_ptr p \<and> q < MAX_PROCESSES)"

text \<open>No operation of the scheduler changes an identifier, except that adding a process gives it one when it has none.\<close>

definition same_pids :: "sched \<Rightarrow> sched \<Rightarrow> bool" where
  "same_pids s s' \<longleftrightarrow> (\<forall>p. p_pid (pcbs s p) \<noteq> 0 \<longrightarrow> p_pid (pcbs s' p) = p_pid (pcbs s p))"

lemma same_pids_refl [simp]: "same_pids s s"
  by (simp add: same_pids_def)

lemma same_pids_trans: "same_pids s t \<Longrightarrow> same_pids t u \<Longrightarrow> same_pids s u"
  by (simp add: same_pids_def)

lemma same_pids_static: "same_static s s' \<Longrightarrow> same_pids s s'"
  by (simp add: same_pids_def same_staticD(1))

lemma same_pids_core: "same_core s s' \<Longrightarrow> same_pids s s'"
  by (rule same_pids_static) (rule same_core_static)

lemma same_pids_upd: "(\<And>c. p_pid (f c) = p_pid c) \<Longrightarrow> same_pids s (upd_pcb p f s)"
  by (simp add: same_pids_def)

definition switch_ok :: "(sched \<Rightarrow> (sched \<times> control) option) \<Rightarrow> bool" where
  "switch_ok f \<longleftrightarrow> (\<forall>s s' c. f s = Some (s', c) \<longrightarrow> same_pids s s' \<and> (sched_wf s \<longrightarrow> sched_wf s' \<and> control_ok c))"

lemma switch_okI:
  "(\<And>s s' c. sched_wf s \<Longrightarrow> f s = Some (s', c) \<Longrightarrow> sched_wf s' \<and> control_ok c) \<Longrightarrow>
    (\<And>s s' c. f s = Some (s', c) \<Longrightarrow> same_pids s s') \<Longrightarrow> switch_ok f"
  by (simp add: switch_ok_def)

lemma switch_okD:
  "switch_ok f \<Longrightarrow> f s = Some (s', c) \<Longrightarrow> sched_wf s \<Longrightarrow> sched_wf s' \<and> control_ok c"
  "switch_ok f \<Longrightarrow> f s = Some (s', c) \<Longrightarrow> same_pids s s'"
  by (simp_all add: switch_ok_def)

lemma queue_pids:
  "scheduler_add_to_ready p s = Some s' \<Longrightarrow> same_pids s s'" "same_pids s (scheduler_remove_from_ready p s)"
proof -
  show "scheduler_add_to_ready p s = Some s' \<Longrightarrow> same_pids s s'"
    by (cases p) (auto simp: scheduler_add_to_ready_def[of None] dest: add_to_ready_core same_pids_core)
  show "same_pids s (scheduler_remove_from_ready p s)"
    using same_pids_core[OF remove_from_ready_core, of s] by (cases p) (auto simp: scheduler_remove_from_ready_def[of None])
qed

lemma switch_to_pids: "scheduler_switch_to n s = (s', c) \<Longrightarrow> same_pids s s'"
  by (auto simp: scheduler_switch_to_def same_pids_def Let_def split: if_splits)

lemma yield_pids: "scheduler_yield s = Some (s', c) \<Longrightarrow> same_pids s s'"
proof -
  assume run: "scheduler_yield s = Some (s', c)"
  show ?thesis
  proof (cases "ready_queue_head s = None")
    case False
    then obtain s1 n where s1: "(if current_running s
        then scheduler_add_to_ready (current_process s) (upd_pcb (the (current_process s)) (\<lambda>c. c\<lparr>p_state := PROCESS_READY\<rparr>) s)
        else Some s) = Some s1" "scheduler_switch_to n (scheduler_remove_from_ready (Some n) s1) = (s', c)"
      using run unfolding scheduler_yield_def by (auto simp: bind_eq_Some_conv split: option.splits)
    have "same_pids (upd_pcb i (\<lambda>c. c\<lparr>p_state := PROCESS_READY\<rparr>) s) s1 \<Longrightarrow> same_pids s s1" for i
      by (rule same_pids_trans[OF same_pids_upd]) simp_all
    then have "same_pids s s1" using s1(1) queue_pids(1) by (auto split: if_splits)
    then show ?thesis using queue_pids(2) switch_to_pids[OF s1(2)] same_pids_trans by blast
  qed (use run in \<open>simp add: scheduler_yield_def\<close>)
qed

lemma remove_process_pids: "scheduler_remove_process p s = Some (s', c) \<Longrightarrow> same_pids s s'"
proof -
  assume run: "scheduler_remove_process p s = Some (s', c)"
  have y: "same_pids t s'" if "scheduler_yield (upd_pcb i (\<lambda>c. c\<lparr>p_state := PROCESS_TERMINATED\<rparr>) (t\<lparr>current_process := None\<rparr>)) = Some (s', c)" for t i
    by (rule same_pids_trans[OF _ yield_pids[OF that]]) (simp add: same_pids_def)
  show ?thesis
  proof (cases p)
    case (Some i)
    define t where "t = (if p_state (pcbs s i) = PROCESS_READY then scheduler_remove_from_ready (Some i) s else s)"
    have "(if current_process t = Some i then scheduler_yield (upd_pcb i (\<lambda>c. c\<lparr>p_state := PROCESS_TERMINATED\<rparr>) (t\<lparr>current_process := None\<rparr>))
        else Some (t, Returned)) = Some (s', c)"
      using run unfolding scheduler_remove_process_def Some t_def Let_def option.case .
    then have "same_pids t s'" using y by (auto split: if_splits)
    moreover have "same_pids s t" using queue_pids(2) by (simp add: t_def)
    ultimately show ?thesis using same_pids_trans by blast
  qed (use run in \<open>simp add: scheduler_remove_process_def\<close>)
qed

lemma tick_pids: "scheduler_tick s = Some (s', c) \<Longrightarrow> same_pids s s'"
proof -
  assume run: "scheduler_tick s = Some (s', c)"
  define s0 where "s0 = s\<lparr>scheduler_ticks := scheduler_ticks s + 1\<rparr>"
  define s1 where "s1 = upd_pcb (the (current_process s)) (\<lambda>c. c\<lparr>p_cpu_time := p_cpu_time c + 1\<rparr>) s0"
  have p: "same_pids s s0" "same_pids s s1" by (simp_all add: s0_def s1_def same_pids_def)
  have "scheduler_yield s0 = Some (s', c) \<or> scheduler_yield s1 = Some (s', c) \<or> (s', c) = (s1, Returned)"
    using run unfolding scheduler_tick_def s1_def s0_def by (auto simp: Let_def split: option.splits if_splits)
  then show ?thesis using p yield_pids same_pids_trans by blast
qed

lemma block_pids: "scheduler_block_current s = Some (s', c) \<Longrightarrow> same_pids s s'"
  by (auto simp: scheduler_block_current_def split: option.splits intro: same_pids_trans[OF same_pids_upd yield_pids, rotated])

lemma unblock_pids: "scheduler_unblock_process p s = Some s' \<Longrightarrow> same_pids s s'"
  by (auto simp: scheduler_unblock_process_def split: option.splits if_splits intro: same_pids_trans[OF same_pids_upd queue_pids(1), rotated])

lemma add_process_pids: "scheduler_add_process p s = Some s' \<Longrightarrow> same_pids s s'"
proof -
  assume run: "scheduler_add_process p s = Some s'"
  show ?thesis
  proof (cases p)
    case None
    then show ?thesis using run by (simp add: scheduler_add_process_def)
  next
    case (Some i)
    define s1 where "s1 = (if p_pid (pcbs s i) = 0
      then upd_pcb i (\<lambda>c. c\<lparr>p_pid := sched_next_pid s\<rparr>) (s\<lparr>sched_next_pid := sched_next_pid s + 1\<rparr>) else s)"
    have s1: "same_pids s s1" by (simp add: s1_def same_pids_def)
    have "(if p_state (pcbs s1 i) = PROCESS_READY then Some s1
        else Option.bind (scheduler_add_to_ready (Some i) s1) (\<lambda>s. Some (upd_pcb i (\<lambda>c. c\<lparr>p_state := PROCESS_READY\<rparr>) s))) = Some s'"
      using run unfolding scheduler_add_process_def Some s1_def Let_def option.case .
    then consider "s' = s1" | s2 where "scheduler_add_to_ready (Some i) s1 = Some s2" "s' = upd_pcb i (\<lambda>c. c\<lparr>p_state := PROCESS_READY\<rparr>) s2"
      by (auto simp: bind_eq_Some_conv split: if_splits)
    then show ?thesis
    proof cases
      case 2
      then have "same_pids s2 s'" by (simp add: same_pids_upd)
      then show ?thesis using s1 queue_pids(1)[OF 2(1)] same_pids_trans by blast
    qed (use s1 in simp)
  qed
qed

lemma control_Returned [simp]: "control_ok Returned"
  by (simp add: control_ok_def)

lemma state_wf: "sched_wf s \<Longrightarrow> sched_wf (upd_pcb i (\<lambda>c. c\<lparr>p_state := st\<rparr>) s)"
  by (rule upd_pcb_wf) simp_all

lemma switch_to_wf:
  assumes "sched_wf s" "n < MAX_PROCESSES" "scheduler_switch_to n s = (s', c)"
  shows "sched_wf s' \<and> control_ok c"
proof -
  have "sched_wf (upd_pcb n (\<lambda>c. c\<lparr>p_state := PROCESS_RUNNING\<rparr>) (s\<lparr>current_process := Some n\<rparr>))"
    using assms(1,2) by (intro state_wf sched_wf_heads) simp_all
  then show ?thesis
    using assms sched_wfD(1)[OF assms(1)] by (auto simp: scheduler_switch_to_def Let_def control_ok_def split: if_splits)
qed

lemma yield_ok: "switch_ok scheduler_yield"
proof (rule switch_okI[OF _ yield_pids])
  fix s s' c
  assume wf: "sched_wf s" and run: "scheduler_yield s = Some (s', c)"
  define t where "t = (if current_running s
      then scheduler_add_to_ready (current_process s) (upd_pcb (the (current_process s)) (\<lambda>c. c\<lparr>p_state := PROCESS_READY\<rparr>) s)
      else Some s)"
  have t: "sched_wf s1" if "t = Some s1" for s1
    using that add_to_ready_wf[OF state_wf[OF wf] sched_wfD(1)[OF wf]] wf unfolding t_def by (auto split: if_splits)
  show "sched_wf s' \<and> control_ok c"
  proof (cases "ready_queue_head s = None")
    case True
    then show ?thesis using wf run by (auto simp: scheduler_yield_def)
  next
    case False
    then obtain s1 where s1: "t = Some s1" "(case ready_queue_head s1 of None \<Rightarrow> None
        | Some next \<Rightarrow> Some (scheduler_switch_to next (scheduler_remove_from_ready (Some next) s1))) = Some (s', c)"
      using run unfolding scheduler_yield_def t_def[symmetric] by (auto simp: bind_eq_Some_conv)
    then obtain n where n: "ready_queue_head s1 = Some n" "scheduler_switch_to n (scheduler_remove_from_ready (Some n) s1) = (s', c)"
      by (auto split: option.splits)
    have "n < MAX_PROCESSES" using sched_wfD(2)[OF t[OF s1(1)]] n(1) by simp
    then show ?thesis using switch_to_wf[OF remove_from_ready_wf[OF t[OF s1(1)]] _ n(2)] by simp
  qed
qed

lemma remove_process_ok: "slot_ptr p \<Longrightarrow> switch_ok (scheduler_remove_process p)"
proof (rule switch_okI[OF _ remove_process_pids])
  fix s s' c
  assume p: "slot_ptr p" and wf: "sched_wf s" and run: "scheduler_remove_process p s = Some (s', c)"
  show "sched_wf s' \<and> control_ok c"
  proof (cases p)
    case None
    then show ?thesis using wf run by (auto simp: scheduler_remove_process_def)
  next
    case (Some i)
    define s1 where "s1 = (if p_state (pcbs s i) = PROCESS_READY then scheduler_remove_from_ready (Some i) s else s)"
    have wf1: "sched_wf s1" using wf remove_from_ready_wf[OF wf p] Some by (simp add: s1_def)
    have "(if current_process s1 = Some i then scheduler_yield (upd_pcb i (\<lambda>c. c\<lparr>p_state := PROCESS_TERMINATED\<rparr>) (s1\<lparr>current_process := None\<rparr>))
        else Some (s1, Returned)) = Some (s', c)"
      using run unfolding scheduler_remove_process_def Some s1_def Let_def option.case .
    then show ?thesis
      using wf1 switch_okD(1)[OF yield_ok _ state_wf[OF sched_wf_heads(3)[OF wf1 slot_ptr_simps(1)]]] by (auto split: if_splits)
  qed
qed

lemma tick_ok: "switch_ok scheduler_tick"
proof (rule switch_okI[OF _ tick_pids])
  fix s s' c
  assume wf: "sched_wf s" and run: "scheduler_tick s = Some (s', c)"
  define s0 where "s0 = s\<lparr>scheduler_ticks := scheduler_ticks s + 1\<rparr>"
  define s1 where "s1 = upd_pcb (the (current_process s)) (\<lambda>c. c\<lparr>p_cpu_time := p_cpu_time c + 1\<rparr>) s0"
  have wf0: "sched_wf s0" "sched_wf s1" unfolding s1_def s0_def using wf by (auto intro: upd_pcb_wf)
  have "scheduler_yield s0 = Some (s', c) \<or> scheduler_yield s1 = Some (s', c) \<or> (s', c) = (s1, Returned)"
    using run unfolding scheduler_tick_def s1_def s0_def by (auto simp: Let_def split: option.splits if_splits)
  then show "sched_wf s' \<and> control_ok c" using wf0 switch_okD(1)[OF yield_ok, of s0 s' c] switch_okD(1)[OF yield_ok, of s1 s' c] by auto
qed

lemma block_current_ok: "switch_ok scheduler_block_current"
proof (rule switch_okI[OF _ block_pids])
  fix s s' c
  assume wf: "sched_wf s" and run: "scheduler_block_current s = Some (s', c)"
  show "sched_wf s' \<and> control_ok c"
  proof (cases "current_process s")
    case None
    then show ?thesis using wf run by (auto simp: scheduler_block_current_def)
  next
    case (Some i)
    then have "scheduler_yield (upd_pcb i (\<lambda>c. c\<lparr>p_state := PROCESS_BLOCKED\<rparr>) s) = Some (s', c)"
      using run by (simp add: scheduler_block_current_def)
    then show ?thesis by (rule switch_okD(1)[OF yield_ok _ state_wf[OF wf]])
  qed
qed

lemma unblock_wf:
  assumes "sched_wf s" "slot_ptr p" "scheduler_unblock_process p s = Some s'"
  shows "sched_wf s'"
proof -
  have "sched_wf (upd_pcb i (\<lambda>c. c\<lparr>p_state := PROCESS_READY\<rparr>) s)" for i using assms(1) by (intro upd_pcb_wf) simp_all
  then show ?thesis using assms add_to_ready_wf[of _ p s'] by (auto simp: scheduler_unblock_process_def split: option.splits if_splits)
qed

lemma find_in_ready_slot:
  assumes "find_in_ready pid s x = Some r" "sched_wf s" "slot_ptr x"
  shows "slot_ptr r"
  using assms
proof (induction rule: find_in_ready.raw_induct[rotated 1, consumes 1, case_names step])
  case (step f pid s x r)
  then show ?case using sched_wfD(5)[OF step.prems(1)] by (auto split: option.splits if_splits)
qed

lemma find_process_slot: "scheduler_find_process pid s = Some r \<Longrightarrow> sched_wf s \<Longrightarrow> slot_ptr r"
  using find_in_ready_slot[of pid s "ready_queue_head s" r] sched_wfD(1,2)[of s]
  by (cases "current_process s"; cases r) (auto simp: scheduler_find_process_def split: if_splits)

section \<open>The memory manager\<close>

lemma bitmap_wf:
  assumes "wf_bitmap bm"
  shows "bitmap_set i bm = Some bm' \<Longrightarrow> wf_bitmap bm'" "bitmap_clear i bm = Some bm' \<Longrightarrow> wf_bitmap bm'"
  using assms by (auto simp: wf_bitmap_def bitmap_set_def bitmap_clear_def Let_def split: if_splits)

lemma bitmap_loop_wf:
  assumes "wf_bitmap bm"
  shows "for_each (\<lambda>j. bitmap_set (g j)) xs bm = Some bm' \<Longrightarrow> wf_bitmap bm'"
    "for_each (\<lambda>j. bitmap_clear (g j)) xs bm = Some bm' \<Longrightarrow> wf_bitmap bm'"
  using assms for_each_invariant[of "\<lambda>j. bitmap_set (g j)" xs bm bm' wf_bitmap]
    for_each_invariant[of "\<lambda>j. bitmap_clear (g j)" xs bm bm' wf_bitmap] bitmap_wf by blast+

abbreviation mm_wf :: "mm \<Rightarrow> bool" where
  "mm_wf s \<equiv> wf_bitmap (page_bitmap s)"

text \<open>
  What the operations of the memory manager keep after its initialisation: the size of the bitmap, and the kernel's directory and
  the control registers, which none of them loads.
\<close>

definition mm_step :: "mm \<Rightarrow> mm \<Rightarrow> bool" where
  "mm_step s s' \<longleftrightarrow> (mm_wf s \<longrightarrow> mm_wf s') \<and> mm_regs s' = mm_regs s"

lemma mm_step_refl [simp]: "mm_step s s"
  by (simp add: mm_step_def)

lemma mm_step_trans: "mm_step s t \<Longrightarrow> mm_step t u \<Longrightarrow> mm_step s u"
  by (simp add: mm_step_def)

lemma mm_step_mem [simp]: "mm_step s (t\<lparr>mem := m\<rparr>) = mm_step s t"
  by (simp add: mm_step_def mm_regs_def)

lemma for_each_step:
  assumes "for_each f xs s = Some s'" "\<And>x t t'. f x t = Some t' \<Longrightarrow> mm_step t t'"
  shows "mm_step s s'"
  using for_each_invariant[OF assms(1), of "mm_step s"] assms(2) mm_step_trans by (metis mm_step_refl)

lemma alloc_step: "memory_alloc_pages n s = Some (a, s') \<Longrightarrow> mm_step s s'"
  using bitmap_loop_wf[of "page_bitmap s"] by (auto simp: mm_step_def mm_regs_def memory_alloc_pages_def split: option.splits)

lemma free_step: "memory_free_pages a n s = Some s' \<Longrightarrow> mm_step s s'"
  using bitmap_loop_wf[of "page_bitmap s"] by (auto simp: mm_step_def mm_regs_def memory_free_pages_def Let_def split: option.splits)

lemma map_page_step: "memory_map_page pd v a fl s = Some s' \<Longrightarrow> mm_step s s'"
  using alloc_step[of 1 s] by (auto simp: memory_map_page_def hal_cpu_flush_tlb_def Let_def split: option.splits if_splits)

lemma map_loop_step: "for_each (\<lambda>i. memory_map_page pd (v i) (a i) fl) xs s = Some s' \<Longrightarrow> mm_step s s'"
  by (erule for_each_step) (rule map_page_step)

lemma map_stack_step: "map_stack pd st n fl s = Some s' \<Longrightarrow> mm_step s s'"
  unfolding map_stack_def by (rule map_loop_step)

lemma map_kernel_step: "memory_map_kernel pd s = Some s' \<Longrightarrow> mm_step s s'"
  unfolding memory_map_kernel_def by (rule map_loop_step)

lemma create_directory_step: "memory_create_page_directory s = Some (a, s') \<Longrightarrow> mm_step s s'"
  using alloc_step[of 1 s] by (auto simp: memory_create_page_directory_def split: option.splits if_splits)

lemma destroy_directory_step:
  assumes "memory_destroy_page_directory pd s = Some s'"
  shows "mm_step s s'"
proof -
  define body where "body = (\<lambda>i t. let e = load32 (mem t) (ent pd (of_nat i))
    in if e AND 0x01 \<noteq> 0 then memory_free_pages (e AND NOT 0xFFF) 1 t else Some t)"
  obtain s1 where s1: "for_each body [0..<1024] s = Some s1" "memory_free_pages pd 1 s1 = Some s'"
    using assms unfolding memory_destroy_page_directory_def body_def[symmetric] by (auto split: option.splits)
  have "mm_step t t'" if "body i t = Some t'" for i t t'
    using that free_step unfolding body_def Let_def by (auto split: if_splits)
  then show ?thesis using for_each_step[OF s1(1)] free_step[OF s1(2)] mm_step_trans by blast
qed

section \<open>Kernel operations\<close>

lemma kernel_wfD:
  assumes "kernel_wf k"
  shows "mm_wf (k_mm k)" "sched_wf (k_sched k)" "slot_ptr (current_of k)"
  using assms sched_wfD(1) by (simp_all add: kernel_wf_def current_of_def scheduler_get_current_def)

lemma kernel_wf_updates [simp]:
  "kernel_wf (print str k) = kernel_wf k" "kernel_wf (print_hex v k) = kernel_wf k" "kernel_wf (set_mem m k) = kernel_wf k"
  "kernel_wf (k\<lparr>next_msg_id := i\<rparr>) = kernel_wf k" "kernel_wf (k\<lparr>alloc_next_pid := i\<rparr>) = kernel_wf k"
  "kernel_wf (k\<lparr>timer_ticks := i\<rparr>) = kernel_wf k" "kernel_wf (k\<lparr>int_flag := b\<rparr>) = kernel_wf k"
  "kernel_wf (k\<lparr>k_io := d\<rparr>) = kernel_wf k" "kernel_wf (k\<lparr>process_used := (process_used k)[j := b]\<rparr>) = kernel_wf k"
  "kernel_wf (k\<lparr>message_queues := (message_queues k)[j := a]\<rparr>) = kernel_wf k"
  "kernel_wf (k\<lparr>msg_handlers := (msg_handlers k)[j := a]\<rparr>) = kernel_wf k" "kernel_wf (print_line str n k) = kernel_wf k"
  "kernel_wf (k\<lparr>cpu_features := i\<rparr>) = kernel_wf k" "kernel_wf (k\<lparr>timer_frequency := i\<rparr>) = kernel_wf k"
  "kernel_wf (k\<lparr>kernel_initialized := b\<rparr>) = kernel_wf k"
  by (simp_all add: kernel_wf_def print_def print_hex_def print_line_def set_mem_def)

lemma zero_pcb_wf: "pcb_wf zero_pcb"
  by (simp add: pcb_wf_def zero_pcb_def)

lemma new_pcb_wf: "pcb_wf (zero_pcb\<lparr>p_pid := pid, p_parent_pid := pp, p_state := st, p_priority := 5, p_is_user := u\<rparr>)"
  using zero_pcb_wf by (simp add: pcb_wf_def)

lemma report_current: "current_of (exception_report cpu frame p k) = current_of k"
  by (auto simp: exception_report_def Let_def split: option.splits)

lemma add_process_wf:
  assumes wf: "sched_wf s" and p: "slot_ptr p" and run: "scheduler_add_process p s = Some s'"
  shows "sched_wf s'"
proof (cases p)
  case None
  then show ?thesis using wf run by (simp add: scheduler_add_process_def)
next
  case (Some i)
  define s1 where "s1 = (if p_pid (pcbs s i) = 0
    then upd_pcb i (\<lambda>c. c\<lparr>p_pid := sched_next_pid s\<rparr>) (s\<lparr>sched_next_pid := sched_next_pid s + 1\<rparr>) else s)"
  have wf1: "sched_wf s1" using wf by (auto simp: s1_def intro: upd_pcb_wf)
  have "(if p_state (pcbs s1 i) = PROCESS_READY then Some s1
      else Option.bind (scheduler_add_to_ready (Some i) s1) (\<lambda>s. Some (upd_pcb i (\<lambda>c. c\<lparr>p_state := PROCESS_READY\<rparr>) s))) = Some s'"
    using run unfolding scheduler_add_process_def Some s1_def Let_def option.case .
  then show ?thesis
    using wf1 add_to_ready_wf[OF wf1, of "Some i"] p Some state_wf by (auto simp: bind_eq_Some_conv split: if_splits)
qed

text \<open>
  What no operation breaks: a process that is in use afterwards was in use before, under the same identifier.
\<close>

definition ids_kept :: "kernel \<Rightarrow> kernel \<Rightarrow> bool" where
  "ids_kept k k' \<longleftrightarrow> (\<forall>j < MAX_PROCESSES. process_used k' ! j \<longrightarrow> process_used k ! j \<and>
     (p_pid (pcb_of k j) \<noteq> 0 \<longrightarrow> p_pid (pcb_of k' j) = p_pid (pcb_of k j)))"

lemma ids_keptI: "process_used k' = process_used k \<Longrightarrow> same_pids (k_sched k) (k_sched k') \<Longrightarrow> ids_kept k k'"
  by (simp add: ids_kept_def same_pids_def pcb_of_def)

text \<open>
  An invariant of the kernel that only rests on the types, on the registers of the memory manager and on the identifiers, and
  that a new process with an identifier not in use does not break, is kept by every operation.
\<close>

locale kernel_invariant =
  fixes P :: "kernel \<Rightarrow> bool"
  assumes wf: "P k \<Longrightarrow> kernel_wf k"
    and same: "P k \<Longrightarrow> kernel_wf k' \<Longrightarrow> mm_regs (k_mm k') = mm_regs (k_mm k) \<Longrightarrow> ids_kept k k' \<Longrightarrow> P k'"
    and fresh: "P k \<Longrightarrow> slot < MAX_PROCESSES \<Longrightarrow> \<not> process_used k ! slot \<Longrightarrow> p_pid (pcb_of k slot) = pid \<Longrightarrow> pid \<noteq> 0 \<Longrightarrow>
      unat pid < MAX_PROCESSES \<Longrightarrow> \<not> pid_used k pid \<Longrightarrow> P (k\<lparr>process_used := (process_used k)[slot := True]\<rparr>)"
begin

lemma kept_cong:
  assumes "kernel_wf k' = kernel_wf k" "mm_regs (k_mm k') = mm_regs (k_mm k)" "process_used k' = process_used k" "k_sched k' = k_sched k"
  shows "P k' = P k"
proof -
  have "ids_kept k k'" "ids_kept k' k" using assms(3,4) by (simp_all add: ids_keptI)
  then show ?thesis using wf same assms(1,2) by metis
qed

lemma kept_updates [simp]:
  "P (print str k) = P k" "P (print_hex v k) = P k" "P (set_mem m k) = P k"
  "P (k\<lparr>next_msg_id := i\<rparr>) = P k" "P (k\<lparr>alloc_next_pid := i\<rparr>) = P k"
  "P (k\<lparr>timer_ticks := i\<rparr>) = P k" "P (k\<lparr>int_flag := b\<rparr>) = P k"
  "P (k\<lparr>k_io := d\<rparr>) = P k" "P (k\<lparr>message_queues := (message_queues k)[j := a]\<rparr>) = P k"
  "P (k\<lparr>msg_handlers := (msg_handlers k)[j := a]\<rparr>) = P k" "P (print_line str n k) = P k"
  by (rule kept_cong; simp add: print_hex_def print_line_def set_mem_def mm_regs_def kernel_wf_def)+

lemma kept_unused:
  assumes "P k"
  shows "P (k\<lparr>process_used := (process_used k)[j := False]\<rparr>)"
proof (rule same[OF assms])
  have "process_used k ! i" if "(process_used k)[j := False] ! i" "i < MAX_PROCESSES" for i
    using that wf[OF assms] by (cases "i = j") (auto simp: kernel_wf_def)
  then show "ids_kept k (k\<lparr>process_used := (process_used k)[j := False]\<rparr>)" by (auto simp: ids_kept_def pcb_of_def)
qed (use wf[OF assms] in \<open>simp_all add: kernel_wf_def\<close>)

lemma kept_mm: "P k \<Longrightarrow> mm_step (k_mm k) s \<Longrightarrow> P (k\<lparr>k_mm := s\<rparr>)"
  by (frule wf, erule same) (simp_all add: kernel_wf_def mm_step_def ids_keptI)

lemma kept_sched: "P k \<Longrightarrow> sched_wf s \<Longrightarrow> same_pids (k_sched k) s \<Longrightarrow> P (k\<lparr>k_sched := s\<rparr>)"
  by (frule wf, erule same) (simp_all add: kernel_wf_def ids_keptI)

lemma kept_set_pcb: "P k \<Longrightarrow> (\<And>c. pcb_wf c \<Longrightarrow> pcb_wf (f c)) \<Longrightarrow> (\<And>c. p_pid (f c) = p_pid c) \<Longrightarrow> P (set_pcb p f k)"
  unfolding set_pcb_def using wf[of k] by (intro kept_sched upd_pcb_wf same_pids_upd) (simp_all add: kernel_wf_def)

text \<open>A slot that is not in use may get any well-typed entry.\<close>

lemma kept_set_unused:
  assumes "P k" "\<And>c. pcb_wf c \<Longrightarrow> pcb_wf (f c)" "\<not> process_used k ! p"
  shows "P (set_pcb p f k)"
proof -
  have "sched_wf (upd_pcb p f (k_sched k))" using wf[OF assms(1)] assms(2) by (intro upd_pcb_wf) (simp_all add: kernel_wf_def)
  then have "kernel_wf (set_pcb p f k)" using wf[OF assms(1)] by (simp add: set_pcb_def kernel_wf_def)
  moreover have "ids_kept k (set_pcb p f k)" using assms(3) by (auto simp: ids_kept_def)
  ultimately show ?thesis using same[OF assms(1)] by (simp add: mm_regs_def)
qed

lemma kept_on_mm: "P k \<Longrightarrow> (\<And>a s'. f (k_mm k) = Some (a, s') \<Longrightarrow> mm_step (k_mm k) s') \<Longrightarrow> invariant P (on_mm f k)"
  by (auto simp: on_mm_def kept_mm split: option.splits)

lemma kept_do_mm: "P k \<Longrightarrow> (\<And>s'. f (k_mm k) = Some s' \<Longrightarrow> mm_step (k_mm k) s') \<Longrightarrow> invariant P (do_mm f k)"
  by (auto simp: do_mm_def kept_mm split: option.splits)

lemma kept_on_switch: "P k \<Longrightarrow> switch_ok f \<Longrightarrow> invariant P (on_switch f k)"
  using switch_okD[of f "k_sched k"] kernel_wfD(2)[OF wf, of k]
  by (auto simp: on_switch_def control_ok_def kept_sched split: option.splits control.splits)

lemma kept_panic: "P k \<Longrightarrow> keeps P Q (kernel_panic msg k)"
  by (simp add: kernel_panic_def halt_forever_def Let_def)

lemma kept_memory:
  assumes "P k"
  shows "invariant P (on_mm (memory_alloc_pages n) k)" "invariant P (do_mm (memory_free_pages a n) k)" "invariant P (do_mm (map_stack pd a i fl) k)"
    "invariant P (do_mm (memory_destroy_page_directory pd) k)" "invariant P (on_mm memory_create_page_directory k)"
    "invariant P (do_mm (memory_map_kernel pd) k)" "invariant P (do_mm (memory_map_page pd v a fl) k)"
  by (rule kept_on_mm[OF assms] kept_do_mm[OF assms]; erule alloc_step free_step map_stack_step destroy_directory_step create_directory_step
      map_kernel_step map_page_step)+

text \<open>Processes.\<close>

lemma kept_cleanup: "P k \<Longrightarrow> invariant P (process_cleanup p k)"
  unfolding process_cleanup_def
  by (auto split: option.splits intro!: keeps_bind[where Q = "\<lambda>_. True"] kept_memory)

lemma kept_allocate_pid: "P k \<Longrightarrow> process_allocate_pid k = (pid, k') \<Longrightarrow> P k'"
  by (auto simp: process_allocate_pid_def split: option.splits)

text \<open>
  While a process is created in a slot that is not in use, under an identifier that is not in use, only the memory manager
  changes, until the slot is marked as used.
\<close>

definition creating :: "nat \<Rightarrow> u32 \<Rightarrow> kernel \<Rightarrow> bool" where
  "creating slot pid k \<longleftrightarrow> P k \<and> slot < MAX_PROCESSES \<and> \<not> process_used k ! slot \<and> p_pid (pcb_of k slot) = pid \<and> pid \<noteq> 0 \<and>
     unat pid < MAX_PROCESSES \<and> \<not> pid_used k pid"

lemma creating_mm: "creating slot pid k \<Longrightarrow> mm_step (k_mm k) s \<Longrightarrow> creating slot pid (k\<lparr>k_mm := s\<rparr>)"
  by (simp add: creating_def kept_mm pid_used_def pcb_of_def)

lemma creating_pcb:
  assumes "creating slot pid k" "\<And>c. pcb_wf c \<Longrightarrow> pcb_wf (f c)" "\<And>c. p_pid (f c) = p_pid c"
  shows "creating slot pid (set_pcb slot f k)"
proof -
  have "p_pid (pcb_of (set_pcb slot f k) j) = p_pid (pcb_of k j)" for j using assms(3) by simp
  then have "pid_used (set_pcb slot f k) pid = pid_used k pid" by (simp add: pid_used_iff)
  then show ?thesis using assms kept_set_pcb[of k f slot] by (simp add: creating_def)
qed

lemma creating_memory:
  assumes "creating slot pid k"
  shows "ends (creating slot pid) (on_mm memory_create_page_directory k)" "ends (creating slot pid) (do_mm (memory_map_kernel pd) k)"
    "ends (creating slot pid) (on_mm (memory_alloc_pages n) k)" "ends (creating slot pid) (do_mm (map_stack pd a i fl) k)"
    "ends (creating slot pid) (do_mm (memory_free_pages a n) k)" "ends (creating slot pid) (do_mm (memory_destroy_page_directory pd) k)"
  using creating_mm[OF assms]
  by (auto intro!: gives_mm dest: create_directory_step map_kernel_step alloc_step map_stack_step free_step destroy_directory_step)

lemma creating_cleanup: "creating slot pid k \<Longrightarrow> ends (creating slot pid) (process_cleanup p k)"
  unfolding process_cleanup_def
  by (auto split: option.splits intro!: gives_bind[where Q = "\<lambda>_. creating slot pid"] creating_memory)

lemma created: "creating slot pid k \<Longrightarrow> P (k\<lparr>process_used := (process_used k)[slot := True]\<rparr>)"
  unfolding creating_def by (blast intro: fresh)

lemma creatingD: "creating slot pid k \<Longrightarrow> P k"
  by (simp add: creating_def)

lemma kept_create:
  assumes "P k"
  shows "keeps P slot_ptr (process_create_internal parent u k)"
proof (cases "find (\<lambda>i. \<not> process_used k ! i) [0..<MAX_PROCESSES]")
  case None
  then show ?thesis using assms by (simp add: process_create_internal_def)
next
  case (Some slot)
  then have slot: "slot < MAX_PROCESSES" "\<not> process_used k ! slot" by (auto simp: find_upt_Some_iff)
  obtain pid k1 where pid: "process_allocate_pid k = (pid, k1)" by fastforce
  have P1: "P k1" by (rule kept_allocate_pid[OF assms pid])
  show ?thesis
  proof (cases "pid = 0")
    case True
    then show ?thesis using P1 by (simp add: process_create_internal_def Some pid)
  next
    case False
    then have k1: "k1 = k\<lparr>alloc_next_pid := pid + 1\<rparr>" "unat pid < MAX_PROCESSES" "\<not> pid_used k pid"
      using allocate_pid_fresh[OF pid] by simp_all
    let ?f = "\<lambda>_. zero_pcb\<lparr>p_pid := pid, p_parent_pid := parent, p_state := PROCESS_CREATED, p_priority := 5, p_is_user := u\<rparr>"
    have unused: "\<not> process_used k1 ! slot" using slot(2) k1(1) by simp
    have "pid_used (set_pcb slot ?f k1) pid = pid_used k pid" using slot(2) by (auto simp: pid_used_iff k1(1) pcb_of_def)
    then have start: "creating slot pid (set_pcb slot ?f k1)"
      using kept_set_unused[OF P1 new_pcb_wf unused] slot k1 False unused by (simp add: creating_def)
    show ?thesis unfolding process_create_internal_def Some option.case pid Let_def prod.case if_not_P[OF False]
      by (intro gives_keeps, rule gives_bind[OF creating_memory(1)[OF start]])
        (auto intro!: gives_bind[where Q = "\<lambda>_. creating slot pid"] creating_memory creating_cleanup creating_pcb
          simp: slot(1) created creatingD kept_set_pcb)
  qed
qed

lemma kept_exit:
  assumes "P k" "slot_ptr p"
  shows "invariant P (process_exit p code k)"
  using assms unfolding process_exit_def process_free_pid_def exit_message_def Let_def
  by (cases p) (auto intro!: keeps_bind[where Q = "\<lambda>_. True"] kept_on_switch remove_process_ok kept_cleanup kept_set_pcb kept_unused)

lemma kept_kill: "P k \<Longrightarrow> invariant P (process_kill pid k)"
  unfolding process_kill_def
  by (auto split: option.splits intro!: keeps_bind[where Q = "\<lambda>_. True"] kept_exit simp: process_find_def find_upt_Some_iff)

text \<open>Messages.\<close>

lemma kept_add_to_queue: "P k \<Longrightarrow> invariant P (ipc_add_to_queue pid msg k)"
  unfolding ipc_add_to_queue_def ipc_remove_from_queue_def Let_def
  by (auto split: option.splits prod.splits intro!: keeps_bind[where Q = "\<lambda>_. True"] kept_memory)

lemma kept_find: "P k \<Longrightarrow> keeps P slot_ptr (find_process pid k)"
  using find_process_slot[of pid "k_sched k"] kernel_wfD(2)[OF wf, of k] by (auto simp: find_process_def split: option.splits)

lemma kept_wakeup: "P k \<Longrightarrow> invariant P (ipc_wakeup_receiver pid k)"
proof -
  assume wfP: "P k"
  have "invariant P (do_sched (scheduler_unblock_process (Some p)) k)" if "P k" "p < MAX_PROCESSES" for k p
    using unblock_wf[OF kernel_wfD(2)[OF wf[OF that(1)]], of "Some p"] that
    by (auto simp: do_sched_def kept_sched unblock_pids split: option.splits)
  then show ?thesis unfolding ipc_wakeup_receiver_def using wfP
    by (intro keeps_bind[OF kept_find]) (auto split: option.splits intro!: keeps_bind[where Q = "\<lambda>_. True"] kept_set_pcb)
qed

lemma kept_send: "P k \<Longrightarrow> invariant P (ipc_send pid um k)"
  unfolding ipc_send_def Let_def
  by (auto intro!: keeps_bind[where Q = "\<lambda>_. True"] kept_memory kept_add_to_queue kept_wakeup keeps_weaken[OF kept_find])

lemma kept_find_in_queue: "P k \<Longrightarrow> invariant P (ipc_find_in_queue pid sender k)"
  by (auto simp: ipc_find_in_queue_def split: option.splits)

lemma kept_receive: "P k \<Longrightarrow> invariant P (ipc_receive sender um block k)"
  unfolding ipc_receive_def Let_def
  by (auto split: option.splits intro!: keeps_bind[where Q = "\<lambda>_. True"] kept_find_in_queue kept_on_switch block_current_ok kept_memory)

text \<open>Entering the kernel.\<close>

lemma kept_handler: "P k \<Longrightarrow> invariant P (call_handler h a b c k)"
proof -
  assume wfP: "P k"
  show ?thesis
  proof (cases h)
    case Sys_process_create
    then show ?thesis using kept_create[OF wfP] wfP by (auto simp: sys_process_create_def process_create_def intro!: keeps_bind)
  next
    case Sys_memory_alloc
    show ?thesis unfolding Sys_memory_alloc call_handler.simps sys_memory_alloc_def Let_def using wfP
      by (auto split: option.splits intro!: keeps_bind[where Q = "\<lambda>_. True"] kept_memory)
  next
    case Sys_memory_map
    show ?thesis unfolding Sys_memory_map call_handler.simps sys_memory_map_def using wfP
      by (auto split: option.splits intro!: keeps_bind[where Q = "\<lambda>_. True"] kept_memory)
  qed (use wfP kernel_wfD(3)[OF wf[OF wfP]] in \<open>auto simp: sys_process_exit_def sys_process_yield_def sys_process_kill_def sys_memory_free_def
      sys_ipc_send_def sys_ipc_receive_def sys_ipc_register_def ipc_register_handler_def sys_driver_register_def sys_driver_request_def
      sys_system_shutdown_def halt_forever_def sys_debug_print_def split: option.splits
      intro!: keeps_bind[where Q = "\<lambda>_. True"] kept_exit kept_on_switch yield_ok kept_kill kept_memory kept_send kept_receive\<close>)
qed

lemma kept_trace: "P (syscall_trace eax p k) = P k"
  by (auto simp: syscall_trace_def Let_def split: option.splits)

lemma kept_dispatch: "P k \<Longrightarrow> invariant P (syscall_dispatch frame k)"
  unfolding syscall_dispatch_def Let_def
  by (auto intro!: keeps_bind[where Q = "\<lambda>_. True"] kept_handler simp: kept_trace)

lemma kept_report: "P (exception_report cpu frame p k) = P k"
  by (auto simp: exception_report_def Let_def split: option.splits)

lemma kept_interrupt: "P k \<Longrightarrow> invariant P (interrupt_handler_common cpu frame k)"
  unfolding interrupt_handler_common_def handle_exception_def handle_irq_def timer_interrupt_handler_def
    hal_timer_interrupt_handler_def keyboard_interrupt_handler_def Let_def
  using kernel_wfD(3)[OF wf, of k]
  by (auto intro!: keeps_bind[where Q = "\<lambda>_. True"] kept_exit kept_panic kept_on_switch tick_ok simp: kept_report)

lemma kept_trap_common:
  assumes "P k" "\<And>frame k. P k \<Longrightarrow> invariant P (body frame k)"
  shows "invariant P (trap_common body c k)"
  using assms unfolding trap_common_def
  by (auto simp: Let_def split: prod.splits intro!: keeps_bind[where Q = "\<lambda>_. True"])

lemma kept_trap: "P k \<Longrightarrow> invariant P (trap cpu addr esp0 ss0 n err c k)"
  unfolding trap_def interrupt_entry_def
  by (auto simp: Let_def split: option.splits prod.splits intro!: kept_trap_common kept_dispatch kept_interrupt)

lemma kept_setup_stack: "P k \<Longrightarrow> invariant P (process_setup_stack frh p entry k)"
proof -
  assume wfP: "P k"
  have "P (set_pcb i (\<lambda>c. c\<lparr>p_registers := (p_registers c)[4 := sp]\<rparr>) (k\<lparr>k_mm := (k_mm k)\<lparr>mem := m\<rparr>\<rparr>))" for i sp m
    using wfP by (intro kept_set_pcb kept_mm) (simp_all add: kernel_wf_def pcb_wf_def)
  then show ?thesis
    using kept_panic[OF wfP] unfolding process_setup_stack_def Let_def by (auto split: option.splits prod.splits)
qed

lemma kept_service: "P k \<Longrightarrow> invariant P (start_service lay name a u k)"
proof -
  assume wfP: "P k"
  have bin: "invariant P (do_mm (map_binary pd a) k)" if "P k" for pd k
    unfolding map_binary_def by (rule kept_do_mm[OF that]) (erule map_loop_step)
  have add: "invariant P (do_sched (scheduler_add_process (Some p)) k)" if "P k" "p < MAX_PROCESSES" for k p
    using add_process_wf[OF kernel_wfD(2)[OF wf[OF that(1)]], of "Some p"] that
    by (auto simp: do_sched_def kept_sched add_process_pids split: option.splits)
  have new: "keeps P slot_ptr (if u then process_create 0 k else process_create_kernel k)"
    using kept_create[OF wfP] by (simp add: process_create_def process_create_kernel_def)
  show ?thesis unfolding start_service_def
    by (rule keeps_bind[OF new]) (auto split: option.splits intro!: keeps_bind[where Q = "\<lambda>_. True"] bin kept_setup_stack add)
qed

lemma kept_services: "P k \<Longrightarrow> invariant P (start_system_services lay k)"
  unfolding start_system_services_def
  by (intro keeps_bind[where Q = "\<lambda>_. True"] kept_service) simp_all

end

interpretation types: kernel_invariant kernel_wf
  by unfold_locales (simp_all add: kernel_wf_def)

text \<open>Paging is on, with the kernel's directory, in page 512, as the one in use.\<close>

definition paging_set :: "kernel \<Rightarrow> bool" where
  "paging_set k \<longleftrightarrow> cr3 (k_mm k) = page_addr 512 \<and> kernel_page_dir (k_mm k) = page_addr 512 \<and> bit (cr0 (k_mm k)) 31"

definition kernel_paged :: "kernel \<Rightarrow> bool" where
  "kernel_paged k \<longleftrightarrow> kernel_wf k \<and> paging_set k"

interpretation paged: kernel_invariant kernel_paged
  by unfold_locales (auto simp: kernel_paged_def paging_set_def mm_regs_def kernel_wf_def)

text \<open>The identifiers of the processes in use are positive, below 64 and distinct.\<close>

definition kernel_ids :: "kernel \<Rightarrow> bool" where
  "kernel_ids k \<longleftrightarrow> kernel_wf k \<and> proc_inv k"

lemma ids_kept_inv:
  assumes "proc_inv k" "ids_kept k k'" "length (process_used k') = MAX_PROCESSES"
  shows "proc_inv k'"
proof -
  have u: "process_used k ! j" "p_pid (pcb_of k' j) = p_pid (pcb_of k j)" if "j < MAX_PROCESSES" "process_used k' ! j" for j
    using assms(1,2) that by (auto simp: ids_kept_def proc_inv_def)
  then show ?thesis using assms(1,3) unfolding proc_inv_def by metis
qed

interpretation ids: kernel_invariant kernel_ids
proof
  fix k k' assume "kernel_ids k" "kernel_wf k'" "ids_kept k k'"
  then show "kernel_ids k'" using ids_kept_inv[of k k'] by (simp add: kernel_ids_def kernel_wf_def)
next
  fix k slot pid
  assume P: "kernel_ids k" and n: "slot < MAX_PROCESSES" "\<not> process_used k ! slot" "p_pid (pcb_of k slot) = pid" "pid \<noteq> 0" "unat pid < MAX_PROCESSES"
    "\<not> pid_used k pid"
  let ?k = "k\<lparr>process_used := (process_used k)[slot := True]\<rparr>"
  have "proc_inv ?k"
    by (rule proc_inv_create[OF _ n(1,2,4-6) n(3)]) (use P in \<open>simp_all add: kernel_ids_def pcb_of_def fun_eq_iff\<close>)
  then show "kernel_ids ?k" using P by (simp add: kernel_ids_def kernel_wf_def)
qed (simp add: kernel_ids_def)

section \<open>The start\<close>

lemma clear_bss_wf: "kernel_wf (clear_bss lay k)"
  using zero_pcb_wf by (simp add: kernel_wf_def clear_bss_def wf_bitmap_def sched_wf_def table_wf_def word_less_nat_alt)

lemma syscall_init_wf:
  assumes "kernel_wf k"
  shows "kernel_wf (syscall_init k)"
proof -
  have len: "length (syscall_table k) = 256" using assms by (simp add: kernel_wf_def table_wf_def)
  have "length (syscall_table (syscall_init k)) = 256"
    using len by (simp add: syscall_init_def print_def foldl_update_length foldl_clear Let_def)
  then have "table_wf (syscall_table (syscall_init k))" using syscall_init_table[OF len] by (simp add: table_wf_def)
  then show ?thesis using assms by (simp add: kernel_wf_def syscall_init_def print_def Let_def)
qed

lemma gdt_init_wf: "length (gdt s) = GDT_ENTRIES \<Longrightarrow> hal_gdt_init g t (s, m) = Some (s', m') \<Longrightarrow> length (gdt s') = GDT_ENTRIES"
  by (auto simp: hal_gdt_init_def gdt_set_gate_def write_tss_def Let_def bind_eq_Some_conv split: option.splits if_splits)

lemma typed_gdt_init: "kernel_wf k \<Longrightarrow> typed (gdt_init_k lay k)"
  using gdt_init_wf[of "k_segs k" "gdt_addr lay" "tss_addr lay" "kmem k"]
  by (auto simp: gdt_init_k_def kernel_wf_def set_mem_def split: option.splits)

lemma typed_interrupt_init: "kernel_wf k \<Longrightarrow> typed (interrupt_init lay k)"
  using load_idt_spec[of "k_idt k" "handler_addr lay" "idt_addr lay"]
  by (auto simp: interrupt_init_def kernel_wf_def print_def split: option.splits)

lemma typed_io: "kernel_wf k \<Longrightarrow> typed (do_io f k)"
  by (auto simp: do_io_def split: option.splits)

lemma typed_timer_init: "kernel_wf k \<Longrightarrow> typed (hal_timer_init f k)"
  unfolding hal_timer_init_def hal_timer_set_frequency_def hal_timer_enable_irq_def
  by (auto intro!: keeps_bind[where Q = "\<lambda>_. True"] typed_io)

lemma kernel_wf_mm: "kernel_wf k \<Longrightarrow> mm_wf s \<Longrightarrow> kernel_wf (k\<lparr>k_mm := s\<rparr>)"
  by (simp add: kernel_wf_def)

lemma memory_init_wf: "memory_init s = Some s' \<Longrightarrow> mm_wf s'"
  using memory_init_spec[of s] by (auto simp: mm_inv_def)

lemma typed_memory_init: "kernel_wf k \<Longrightarrow> typed (memory_init_k k)"
  unfolding memory_init_k_def Let_def do_mm_def by (auto split: option.splits intro!: kernel_wf_mm memory_init_wf)

lemma init_steps_wf:
  assumes "kernel_wf k"
  shows "kernel_wf (scheduler_init_k k)" "kernel_wf (process_init k)" "kernel_wf (ipc_init k)" "kernel_wf (capability_init_k k)"
  using assms zero_pcb_wf
  by (auto simp: kernel_wf_def sched_wf_def scheduler_init_k_def scheduler_init_def process_init_def ipc_init_def capability_init_k_def
      capability_init_def print_def pcb_of_def)

lemma typed_cpu_init: "kernel_wf k \<Longrightarrow> typed (cpu_init_k cpu k)"
  by (auto simp: cpu_init_k_def hal_cpu_init_def split: option.splits)

lemma typed_setup: "typed (kernel_setup lay cpu k)"
  unfolding kernel_setup_def Let_def
  by (intro keeps_bind[where Q = "\<lambda>_. True"] typed_gdt_init typed_cpu_init typed_io typed_memory_init typed_interrupt_init typed_timer_init)
    (auto simp: clear_bss_wf intro!: syscall_init_wf init_steps_wf)

lemma typed_main: "typed (kernel_main lay cpu k)"
  unfolding kernel_main_def Let_def hal_cpu_enable_interrupts_def
  by (intro keeps_bind[where Q = "\<lambda>_. True"] typed_setup types.kept_services) simp_all

text \<open>
  The initialisation of the memory manager turns paging on, and what follows it leaves the registers alone. None of these operations
  switches or halts.
\<close>

lemma ends_io: "P k \<Longrightarrow> (\<And>d. P (k\<lparr>k_io := d\<rparr>)) \<Longrightarrow> ends P (do_io f k)"
  by (auto simp: do_io_def split: option.splits)

lemma paging_set_updates [simp]:
  "paging_set (print str k) = paging_set k" "paging_set (print_hex v k) = paging_set k" "paging_set (print_line str n k) = paging_set k"
  "paging_set (k\<lparr>k_io := d\<rparr>) = paging_set k" "paging_set (k\<lparr>timer_frequency := i\<rparr>) = paging_set k"
  "paging_set (k\<lparr>kernel_initialized := b\<rparr>) = paging_set k" "paging_set (syscall_init k) = paging_set k"
  "paging_set (scheduler_init_k k) = paging_set k" "paging_set (process_init k) = paging_set k" "paging_set (ipc_init k) = paging_set k"
  "paging_set (capability_init_k k) = paging_set k"
  by (simp_all add: paging_set_def print_hex_def print_line_def scheduler_init_k_def process_init_def ipc_init_def capability_init_k_def)

lemma memory_init_paging: "ends paging_set (memory_init_k k)"
proof -
  obtain s where s: "memory_init (k_mm k) = Some s" using memory_init_spec[of "k_mm k"] by blast
  show ?thesis using memory_init_kernel_map[OF s]
    by (simp add: memory_init_k_def do_mm_def s Let_def) (simp add: paging_set_def kernel_map_def)
qed

lemma interrupt_init_paging: "paging_set k \<Longrightarrow> ends paging_set (interrupt_init lay k)"
  by (auto simp: interrupt_init_def paging_set_def split: option.splits)

lemma timer_init_paging: "paging_set k \<Longrightarrow> ends paging_set (hal_timer_init f k)"
  unfolding hal_timer_init_def hal_timer_set_frequency_def hal_timer_enable_irq_def
  by (auto intro!: ends_bind[where P = paging_set] ends_io)

lemma setup_paging: "ends paging_set (kernel_setup lay cpu k)"
proof -
  have hw: "ends (\<lambda>_. True) (gdt_init_k lay k)" "ends (\<lambda>_. True) (cpu_init_k cpu k)" "ends (\<lambda>_. True) (do_io f k)" for k f
    by (auto simp: gdt_init_k_def cpu_init_k_def do_io_def split: option.splits)
  show ?thesis unfolding kernel_setup_def Let_def
    by (intro ends_bind[OF hw(1)] ends_bind[OF hw(2)] ends_bind[OF hw(3)] ends_bind[OF memory_init_paging]
        ends_bind[OF interrupt_init_paging] ends_bind[OF timer_init_paging]) simp_all
qed

lemma paged_main: "invariant kernel_paged (kernel_main lay cpu k)"
proof -
  have "invariant kernel_paged (kernel_setup lay cpu k)"
    using typed_setup[of lay cpu k] setup_paging[of lay cpu k] by (cases "kernel_setup lay cpu k") (simp_all add: kernel_paged_def gives_def)
  then show ?thesis unfolding kernel_main_def Let_def hal_cpu_enable_interrupts_def
    by (intro keeps_bind[where Q = "\<lambda>_. True"] paged.kept_services) simp_all
qed

text \<open>\<^verbatim>\<open>process_init\<close> marks every slot as free, and the rest of the initialisation creates no process.\<close>

definition no_process :: "kernel \<Rightarrow> bool" where
  "no_process k \<longleftrightarrow> process_used k = replicate MAX_PROCESSES False"

lemma no_process_updates [simp]:
  "no_process (print str k) = no_process k" "no_process (print_line str n k) = no_process k" "no_process (k\<lparr>k_io := d\<rparr>) = no_process k"
  "no_process (k\<lparr>timer_frequency := i\<rparr>) = no_process k" "no_process (k\<lparr>kernel_initialized := b\<rparr>) = no_process k"
  "no_process (syscall_init k) = no_process k" "no_process (process_init k)" "no_process (ipc_init k) = no_process k"
  "no_process (capability_init_k k) = no_process k"
  by (simp_all add: no_process_def print_line_def syscall_init_def process_init_def ipc_init_def capability_init_k_def Let_def)

lemma setup_no_process: "ends no_process (kernel_setup lay cpu k)"
proof -
  have hw: "ends (\<lambda>_. True) (gdt_init_k lay k)" "ends (\<lambda>_. True) (cpu_init_k cpu k)" "ends (\<lambda>_. True) (do_io f k)"
    "ends (\<lambda>_. True) (memory_init_k k)" for k f
    by (auto simp: gdt_init_k_def cpu_init_k_def do_io_def memory_init_k_def do_mm_def Let_def split: option.splits)
  have int: "ends no_process (interrupt_init lay k)" if "no_process k" for k
    using that by (auto simp: interrupt_init_def no_process_def split: option.splits)
  have tim: "ends no_process (hal_timer_init f k)" if "no_process k" for k f
    using that unfolding hal_timer_init_def hal_timer_set_frequency_def hal_timer_enable_irq_def
    by (auto intro!: gives_bind[where Q = "\<lambda>_. no_process"] ends_io)
  show ?thesis unfolding kernel_setup_def Let_def
    by (intro ends_bind[OF hw(1)] ends_bind[OF hw(2)] ends_bind[OF hw(3)] ends_bind[OF hw(4)] ends_bind[OF int] ends_bind[OF tim]) simp_all
qed

lemma ids_main: "invariant kernel_ids (kernel_main lay cpu k)"
proof -
  have "proc_inv k'" if "no_process k'" for k' using that by (simp add: no_process_def proc_inv_def)
  then have "invariant kernel_ids (kernel_setup lay cpu k)"
    using typed_setup[of lay cpu k] setup_no_process[of lay cpu k]
    by (cases "kernel_setup lay cpu k") (simp_all add: kernel_ids_def gives_def)
  then show ?thesis unfolding kernel_main_def Let_def hal_cpu_enable_interrupts_def
    by (intro keeps_bind[where Q = "\<lambda>_. True"] ids.kept_services) simp_all
qed

section \<open>The system\<close>

text \<open>The state in which an operation gives up control, and what it leaves to be resumed.\<close>

fun settles :: "'a outcome \<Rightarrow> kernel \<Rightarrow> (kernel \<Rightarrow> 'a outcome) set \<Rightarrow> bool" where
  "settles (Return a k) k' R \<longleftrightarrow> k' = k \<and> R = {}"
| "settles (Switch p n k rest) k' R \<longleftrightarrow> k' = k \<and> R = {rest}"
| "settles (Halt k) k' R \<longleftrightarrow> k' = k \<and> R = {}"
| "settles Undef k' R \<longleftrightarrow> False"

text \<open>
  The states of the system outside the kernel, with the kernel operations that were suspended by a switch. It starts in any contents of memory
  and variables. Programs write to memory; anything enters the kernel, with any registers; and a suspended operation is resumed when its
  process is scheduled, which may be at any time here. The kernel's variables are fields of a record beside the memory: a program, and the
  kernel when it copies a message to a pointer that it does not check, is taken to write outside of them. Nothing in the code
  enforces this, since the drivers run in ring 0 in the same address space.
\<close>

inductive system :: "layout \<Rightarrow> kernel \<Rightarrow> (kernel \<Rightarrow> cpu outcome) set \<Rightarrow> bool" for lay where
  boot: "kernel_main lay cpu k0 = Halt k \<Longrightarrow> system lay k {}"
| program: "system lay k R \<Longrightarrow> system lay (set_mem m k) R"
| enter: "system lay k R \<Longrightarrow> settles (trap cpu (handler_addr lay) esp0 ss0 n err c k) k' S \<Longrightarrow> system lay k' (R \<union> S)"
| resume: "system lay k R \<Longrightarrow> r \<in> R \<Longrightarrow> settles (r k) k' S \<Longrightarrow> system lay k' (R \<union> S)"

lemma keeps_settles: "invariant P x \<Longrightarrow> settles x k R \<Longrightarrow> P k \<and> (\<forall>r \<in> R. \<forall>k'. P k' \<longrightarrow> invariant P (r k'))"
  by (cases x) auto

context kernel_invariant
begin

text \<open>An invariant that the start establishes holds in all states of the system, and every suspended operation keeps it.\<close>

lemma kept_system:
  assumes "system lay k R" "\<And>cpu k. invariant P (kernel_main lay cpu k)"
  shows "P k \<and> (\<forall>r \<in> R. \<forall>k'. P k' \<longrightarrow> invariant P (r k'))"
  using assms(1)
proof (induction rule: system.induct)
  case (boot cpu k0 k)
  then show ?case using assms(2)[of cpu k0] by simp
next
  case (program k R m)
  then show ?case by simp
next
  case (enter k R cpu esp0 ss0 n err c k' S)
  then show ?case using keeps_settles[OF kept_trap] by blast
next
  case (resume k R r k' S)
  then show ?case using keeps_settles by blast
qed

end

text \<open>
  In every such state the tables have their declared sizes, every process pointer of the scheduler points into the process
  table, and every entry of the system call table is empty or the handler of its number.
\<close>

lemma kernel_stays_typed: "system lay k R \<Longrightarrow> kernel_wf k"
  using types.kept_system[OF _ typed_main] by blast

lemma keyboard_settles:
  assumes "r_cs c AND 3 = 3" "aligned4 esp0"
  shows "\<exists>k'. settles (trap cpu addr esp0 ss0 33 err c k) k' {}"
proof -
  have "vector_handler 33 = Some keyboard_irq" by (simp add: vector_handler_def)
  then obtain c2 where t: "trap cpu addr esp0 ss0 33 err c k =
      obind (interrupt_handler_common cpu (esp0 - 76) (trap_state esp0 33 err c k)) (\<lambda>_ k'. Return (restore_registers (kmem k') c2) k')"
    by (rule user_trap_run[OF _ assms, where cpu = cpu and addr = addr and ?ss0.0 = ss0 and err = err and k = k]) auto
  have "frame_word (trap_state esp0 33 err c k) (esp0 - 76) FRAME_INT_NO = 33"
    using trap_state_word[OF assms(2), of 12 33 err c k] by (simp add: frame_word_def trap_words_def)
  then show ?thesis
    unfolding t by (simp add: interrupt_handler_common_def handle_irq_def keyboard_interrupt_handler_def)
qed

lemma demo_system:
  obtains k k' where "system demo_layout k {}" "process_used k ! 4" "p_pid (pcb_of k 4) = 5" "settles (trap demo_cpu_new (handler_addr demo_layout) 0x9000 0x10 33 0 user_cpu k) k' {}"
    "system demo_layout k' {}"
proof -
  obtain f where f: "hal_cpu_get_features demo_cpu_new = Some f" using demo_features by blast
  have "alloc_next_pid (demo_kernel\<lparr>alloc_next_pid := 1\<rparr>) = 1" by simp
  then obtain k M where run: "kernel_main demo_layout demo_cpu_new (demo_kernel\<lparr>alloc_next_pid := 1\<rparr>) = Halt k"
    and b: "boot_inv M [True, False, False, False, True] k"
    using boot_state[OF f, of "demo_kernel\<lparr>alloc_next_pid := 1\<rparr>" demo_layout] by blast
  then have k: "system demo_layout k {}" by (intro system.boot)
  have u: "process_used k ! 4" "p_pid (pcb_of k 4) = 5" using b by (auto simp: boot_inv_def pcb_of_def)
  obtain k' where k': "settles (trap demo_cpu_new (handler_addr demo_layout) 0x9000 0x10 33 0 user_cpu k) k' {}"
    using keyboard_settles[of user_cpu "0x9000" demo_cpu_new "handler_addr demo_layout" "0x10" 0 k] by (auto simp: user_cpu_def aligned4_def)
  have "system demo_layout k' ({} \<union> {})" by (rule system.enter[OF k k'])
  then show thesis using that[OF k u k'] by simp
qed



text \<open>
  C7: All processes run in one address space. In every state that the system reaches from its start, after any sequence of interrupts,
  exceptions, system calls and switches between processes, the directory that the processor uses is the kernel's own: paging is on, and the
  page directory that the kernel has built for a process is never loaded, neither by a switch to it nor by its first run.
\<close>

theorem one_address_space:
  assumes "system lay k R"
  shows "cr3 (k_mm k) = kernel_page_dir (k_mm k) \<and> kernel_page_dir (k_mm k) = page_addr 512 \<and> bit (cr0 (k_mm k)) 31"
  using paged.kept_system[OF assms paged_main] by (simp add: kernel_paged_def paging_set_def)

theorem one_address_space_witness:
  "\<exists>k k'. system demo_layout k {} \<and>
    settles (trap demo_cpu_new (handler_addr demo_layout) 0x9000 0x10 33 0 user_cpu k) k' {} \<and> cr3 (k_mm k') = kernel_page_dir (k_mm k')"
proof -
  obtain k k' where k: "system demo_layout k {}" and "process_used k ! 4" "p_pid (pcb_of k 4) = 5" and k': "settles (trap demo_cpu_new (handler_addr demo_layout) 0x9000 0x10 33 0 user_cpu k) k' {}"
    and s: "system demo_layout k' {}" by (rule demo_system)
  from one_address_space[OF s] show ?thesis using k k' by blast
qed

end
