(* ===== verification/Driver_Manager.thy ===== *)
theory Driver_Manager
  imports Machine_Memory
begin

text \<open>
  The messages of the user programs, \<^verbatim>\<open>include/ipc_abi.h\<close>, and the driver registry, \<^verbatim>\<open>drivers/driver_manager.c\<close>, which is
  linked into each driver. What the kernel answers to a send is a parameter of the operations that send.
\<close>

section \<open>Messages\<close>

record abi_msg =
  a_msg_id :: u32
  a_sender_pid :: u32
  a_receiver_pid :: u32
  a_msg_type :: u32
  a_flags :: u32
  a_timestamp :: u32
  a_data_size :: u32
  a_data :: "u8 list"

abbreviation (input) MSG_DATA :: u32 where "MSG_DATA \<equiv> 0x01"
abbreviation (input) MSG_DRIVER :: u32 where "MSG_DRIVER \<equiv> 0x05"
abbreviation (input) DRIVER_MSG_READ :: u32 where "DRIVER_MSG_READ \<equiv> 0x01"
abbreviation (input) DRIVER_MSG_WRITE :: u32 where "DRIVER_MSG_WRITE \<equiv> 0x02"
abbreviation (input) DRIVER_MSG_IOCTL :: u32 where "DRIVER_MSG_IOCTL \<equiv> 0x03"

definition empty_msg :: abi_msg where
  "empty_msg = \<lparr>a_msg_id = 0, a_sender_pid = 0, a_receiver_pid = 0, a_msg_type = 0, a_flags = 0, a_timestamp = 0,
     a_data_size = 0, a_data = replicate 256 0\<rparr>"

text \<open>The data of a message as an array of 32-bit words.\<close>

definition get32 :: "u8 list \<Rightarrow> nat \<Rightarrow> u32" where
  "get32 d i = ucast (d ! (4 * i)) OR push_bit 8 (ucast (d ! (4 * i + 1)))
     OR push_bit 16 (ucast (d ! (4 * i + 2))) OR push_bit 24 (ucast (d ! (4 * i + 3)))"

definition put32 :: "nat \<Rightarrow> u32 \<Rightarrow> u8 list \<Rightarrow> u8 list" where
  "put32 i v d = d[4 * i := ucast v, 4 * i + 1 := ucast (drop_bit 8 v), 4 * i + 2 := ucast (drop_bit 16 v),
     4 * i + 3 := ucast (drop_bit 24 v)]"

definition valid_msg :: "abi_msg \<Rightarrow> bool" where
  "valid_msg m \<longleftrightarrow> length (a_data m) = 256 \<and> unat (a_data_size m) \<le> 256"

lemma put32_length [simp]: "length (put32 i v d) = length d"
  by (simp add: put32_def)

lemma get32_put32 [simp]: "4 * i + 3 < length d \<Longrightarrow> get32 (put32 i v d) i = v"
  using ucast_bytes_id[of v] by (simp add: get32_def put32_def nth_list_update)

lemma get32_put32_other [simp]:
  assumes "i \<noteq> j"
  shows "get32 (put32 j v d) i = get32 d i"
proof -
  have ne: "4 * j + b \<noteq> 4 * i + a" if "a < 4" "b < 4" for a b
  proof
    assume "4 * j + b = 4 * i + a"
    then have "(4 * j + b) div 4 = (4 * i + a) div 4" by simp
    then show False using that assms by simp
  qed
  have "put32 j v d ! (4 * i + a) = d ! (4 * i + a)" if "a < 4" for a
    using ne[OF that, of 0] ne[OF that, of 1] ne[OF that, of 2] ne[OF that, of 3] by (simp add: put32_def)
  from this[of 0] this[of 1] this[of 2] this[of 3] show ?thesis by (simp add: get32_def)
qed

section \<open>The registry\<close>

text \<open>The four function pointers of an interface matter here only by whether \<^verbatim>\<open>shutdown\<close> is there.\<close>

record driver_interface =
  d_name :: string
  d_driver_id :: u32
  d_capabilities :: u32
  d_has_shutdown :: bool

record manager =
  registered_drivers :: "driver_interface option list"
  driver_count :: u32

definition MAX_DRIVERS :: nat where "MAX_DRIVERS = 16"

definition driver_manager_init :: "manager \<Rightarrow> manager" where
  "driver_manager_init s = s\<lparr>registered_drivers := foldl (\<lambda>t i. t[i := None]) (registered_drivers s) [0..<MAX_DRIVERS]\<rparr>"

definition slot_with :: "(driver_interface \<Rightarrow> bool) \<Rightarrow> manager \<Rightarrow> nat option" where
  "slot_with P s = find (\<lambda>i. case registered_drivers s ! i of None \<Rightarrow> False | Some d \<Rightarrow> P d) [0..<MAX_DRIVERS]"

definition driver_register :: "driver_interface option \<Rightarrow> manager \<Rightarrow> status_t \<times> manager" where
  "driver_register driver s = (case driver of
     None \<Rightarrow> (STATUS_INVALID_PARAM, s)
   | Some d \<Rightarrow>
       if slot_with (\<lambda>r. d_driver_id r = d_driver_id d) s \<noteq> None then (STATUS_ALREADY_EXISTS, s)
       else (case find (\<lambda>i. registered_drivers s ! i = None) [0..<MAX_DRIVERS] of
               None \<Rightarrow> (STATUS_OUT_OF_MEMORY, s)
             | Some i \<Rightarrow> (STATUS_SUCCESS, s\<lparr>registered_drivers := (registered_drivers s)[i := Some d],
                 driver_count := driver_count s + 1\<rparr>)))"

definition driver_unregister :: "u32 \<Rightarrow> manager \<Rightarrow> status_t \<times> manager" where
  "driver_unregister driver_id s = (case slot_with (\<lambda>r. d_driver_id r = driver_id) s of
     None \<Rightarrow> (STATUS_NOT_FOUND, s)
   | Some i \<Rightarrow> (STATUS_SUCCESS, s\<lparr>registered_drivers := (registered_drivers s)[i := None],
       driver_count := driver_count s - 1\<rparr>))"

text \<open>The status and the identifier stored through the pointer, if any.\<close>

definition driver_find :: "string option \<Rightarrow> bool \<Rightarrow> manager \<Rightarrow> status_t \<times> u32 option" where
  "driver_find name has_id s = (case name of
     None \<Rightarrow> (STATUS_INVALID_PARAM, None)
   | Some n \<Rightarrow> if \<not> has_id then (STATUS_INVALID_PARAM, None) else (case slot_with (\<lambda>r. d_name r = n) s of
       None \<Rightarrow> (STATUS_NOT_FOUND, None)
     | Some i \<Rightarrow> (STATUS_SUCCESS, map_option d_driver_id (registered_drivers s ! i))))"

text \<open>The kernel's part of a send: \<open>send pid msg e\<close> gives the status and the new environment.\<close>

type_synonym 'e sender = "u32 \<Rightarrow> abi_msg \<Rightarrow> 'e \<Rightarrow> status_t \<times> 'e"

definition driver_send_message :: "'e sender \<Rightarrow> u32 \<Rightarrow> abi_msg option \<Rightarrow> manager \<Rightarrow> 'e \<Rightarrow> status_t \<times> 'e" where
  "driver_send_message send driver_id msg s e = (case msg of
     None \<Rightarrow> (STATUS_INVALID_PARAM, e)
   | Some m \<Rightarrow>
       let index = driver_id - 1 in
       if index \<ge> of_nat MAX_DRIVERS \<or> registered_drivers s ! unat index = None then (STATUS_NOT_FOUND, e)
       else send driver_id m e)"

definition driver_broadcast_message :: "'e sender \<Rightarrow> abi_msg option \<Rightarrow> manager \<Rightarrow> 'e \<Rightarrow> status_t \<times> 'e" where
  "driver_broadcast_message send msg s e = (case msg of
     None \<Rightarrow> (STATUS_INVALID_PARAM, e)
   | Some m \<Rightarrow>
       let (sent, e) = foldl (\<lambda>(n, e) i. case registered_drivers s ! i of
             None \<Rightarrow> (n, e)
           | Some d \<Rightarrow> (let (st, e) = send (d_driver_id d) m e in (if st = STATUS_SUCCESS then n + 1 else n, e)))
           (0 :: u32, e) [0..<MAX_DRIVERS]
       in (if sent > 0 then STATUS_SUCCESS else STATUS_ERROR, e))"

text \<open>The drivers whose \<^verbatim>\<open>shutdown\<close> is called, in order, and the registry afterwards.\<close>

definition driver_shutdown_all :: "manager \<Rightarrow> driver_interface list \<times> manager" where
  "driver_shutdown_all s =
     (let (calls, s) = foldl (\<lambda>(calls, s) i. case registered_drivers s ! (i - 1) of
            None \<Rightarrow> (calls, s)
          | Some d \<Rightarrow> (if d_has_shutdown d then calls @ [d] else calls,
              s\<lparr>registered_drivers := (registered_drivers s)[i - 1 := None]\<rparr>)) ([], s) (rev [1..<MAX_DRIVERS + 1])
      in (calls, s\<lparr>driver_count := 0\<rparr>))"

text \<open>The entries written to the caller's array, as a map from its indices, and the count.\<close>

definition driver_list :: "bool \<Rightarrow> u32 option \<Rightarrow> manager \<Rightarrow> status_t \<times> (nat \<rightharpoonup> driver_interface) \<times> u32" where
  "driver_list has_array count s = (case count of
     None \<Rightarrow> (STATUS_INVALID_PARAM, Map.empty, 0)
   | Some c \<Rightarrow>
       (STATUS_SUCCESS,
        if has_array \<and> c \<ge> driver_count s then (\<lambda>i. if i < unat (driver_count s) then registered_drivers s ! i else None) else Map.empty,
        driver_count s))"

definition driver_get_stats :: "bool \<Rightarrow> bool \<Rightarrow> manager \<Rightarrow> status_t \<times> u32 option \<times> u32 option" where
  "driver_get_stats has_total active s =
     (if \<not> has_total then (STATUS_INVALID_PARAM, None, None)
      else (STATUS_SUCCESS, Some (driver_count s), if active then Some (driver_count s) else None))"

section \<open>The registry as a finite map\<close>

text \<open>
  The invariant: sixteen slots, no identifier twice, and the counter counts. Under it the registry is a map from identifiers to
  drivers.
\<close>

definition registered :: "manager \<Rightarrow> driver_interface set" where
  "registered s = {d. Some d \<in> set (registered_drivers s)}"

definition manager_inv :: "manager \<Rightarrow> bool" where
  "manager_inv s \<longleftrightarrow> length (registered_drivers s) = MAX_DRIVERS \<and>
     (\<forall>i < MAX_DRIVERS. \<forall>j < MAX_DRIVERS. \<forall>c d. registered_drivers s ! i = Some c \<longrightarrow> registered_drivers s ! j = Some d \<longrightarrow>
        d_driver_id c = d_driver_id d \<longrightarrow> i = j) \<and>
     driver_count s = of_nat (length (filter (\<lambda>d. d \<noteq> None) (registered_drivers s)))"

definition by_id :: "manager \<Rightarrow> u32 \<rightharpoonup> driver_interface" where
  "by_id s i = (case slot_with (\<lambda>d. d_driver_id d = i) s of None \<Rightarrow> None | Some j \<Rightarrow> registered_drivers s ! j)"

lemma slot_with_Some:
  "slot_with P s = Some i \<Longrightarrow> i < MAX_DRIVERS \<and> (\<exists>d. registered_drivers s ! i = Some d \<and> P d)"
  unfolding slot_with_def find_upt_Some_iff by (auto split: option.splits)

lemma slot_with_None:
  "slot_with P s = None \<longleftrightarrow> (\<forall>i < MAX_DRIVERS. \<forall>d. registered_drivers s ! i = Some d \<longrightarrow> \<not> P d)"
  unfolding slot_with_def find_upt_None_iff by (auto split: option.splits)

lemma by_id_iff:
  assumes "manager_inv s"
  shows "by_id s i = Some d \<longleftrightarrow> (\<exists>j < MAX_DRIVERS. registered_drivers s ! j = Some d \<and> d_driver_id d = i)"
proof (cases "slot_with (\<lambda>d. d_driver_id d = i) s")
  case None
  then show ?thesis unfolding by_id_def using slot_with_None[THEN iffD1, OF None] by auto
next
  case (Some j)
  then obtain c where c: "j < MAX_DRIVERS" "registered_drivers s ! j = Some c" "d_driver_id c = i" using slot_with_Some by blast
  have "j' = j" if "j' < MAX_DRIVERS" "registered_drivers s ! j' = Some d" "d_driver_id d = i" for j'
    using assms that c unfolding manager_inv_def by blast
  then have "(\<exists>j' < MAX_DRIVERS. registered_drivers s ! j' = Some d \<and> d_driver_id d = i) \<longleftrightarrow> c = d" using c by fastforce
  then show ?thesis using Some c(2) by (simp add: by_id_def)
qed

lemma count_update:
  assumes "i < length xs"
  shows "length (filter (\<lambda>d. d \<noteq> None) (xs[i := y])) + (if xs ! i \<noteq> None then 1 else 0) =
    length (filter (\<lambda>d. d \<noteq> None) xs) + (if y \<noteq> None then 1 else 0)"
  using assms
proof (induction xs arbitrary: i)
  case (Cons x xs)
  show ?case
  proof (cases i)
    case (Suc j)
    then show ?thesis using Cons.IH[of j] Cons.prems by (cases y; cases "xs ! j"; cases x) auto
  qed simp
qed simp

lemma map_eqI_Some: "(\<And>x y. f x = Some y \<longleftrightarrow> g x = Some y) \<Longrightarrow> f = g"
  by (rule ext) (metis not_None_eq)

text \<open>A driver with a new identifier, put in a free slot.\<close>

lemma insert_driver:
  assumes inv: "manager_inv s" and i: "i < MAX_DRIVERS" "registered_drivers s ! i = None"
    and fresh: "\<And>i c. i < MAX_DRIVERS \<Longrightarrow> registered_drivers s ! i = Some c \<Longrightarrow> d_driver_id c \<noteq> d_driver_id d"
  defines "s' \<equiv> s\<lparr>registered_drivers := (registered_drivers s)[i := Some d], driver_count := driver_count s + 1\<rparr>"
  shows "manager_inv s'" and "by_id s' = (by_id s)(d_driver_id d \<mapsto> d)"
proof -
  have len: "length (registered_drivers s) = MAX_DRIVERS" using inv by (simp add: manager_inv_def)
  have nth: "registered_drivers s' ! j = (if j = i then Some d else registered_drivers s ! j)" if "j < MAX_DRIVERS" for j
    using that i len by (simp add: s'_def nth_list_update)
  have "length (filter (\<lambda>d. d \<noteq> None) (registered_drivers s')) = length (filter (\<lambda>d. d \<noteq> None) (registered_drivers s)) + 1"
    using count_update[of i "registered_drivers s" "Some d"] i len by (simp add: s'_def)
  then have cnt: "driver_count s' = of_nat (length (filter (\<lambda>d. d \<noteq> None) (registered_drivers s')))"
    using inv by (simp add: s'_def manager_inv_def)
  have uniq: "j = l" if "j < MAX_DRIVERS" "l < MAX_DRIVERS" "registered_drivers s' ! j = Some c" "registered_drivers s' ! l = Some e"
    "d_driver_id c = d_driver_id e" for j l c e
  proof (cases "j = i \<or> l = i")
    case True
    then show ?thesis using that nth[OF that(1)] nth[OF that(2)] fresh[OF that(1), of c] fresh[OF that(2), of e] by (auto split: if_splits)
  next
    case False
    then show ?thesis using that nth[OF that(1)] nth[OF that(2)] inv unfolding manager_inv_def by (metis (full_types))
  qed
  show inv': "manager_inv s'" unfolding manager_inv_def using uniq cnt len by (auto simp: s'_def)
  have new: "by_id s' (d_driver_id d) = Some d" unfolding by_id_iff[OF inv'] using nth[OF i(1)] i(1) by (intro exI[of _ i]) simp
  have "by_id s' x = Some y \<longleftrightarrow> by_id s x = Some y" if "x \<noteq> d_driver_id d" for x y
  proof -
    have "registered_drivers s' ! j = Some y \<and> d_driver_id y = x \<longleftrightarrow> registered_drivers s ! j = Some y \<and> d_driver_id y = x"
      if "j < MAX_DRIVERS" for j using nth[OF that] i(2) \<open>x \<noteq> d_driver_id d\<close> by auto
    then show ?thesis unfolding by_id_iff[OF inv'] by (auto simp: by_id_iff[OF inv])
  qed
  then show "by_id s' = (by_id s)(d_driver_id d \<mapsto> d)" using new by (intro map_eqI_Some) auto
qed

lemma register_cases:
  assumes inv: "manager_inv s"
  obtains (exists) "driver_register (Some d) s = (STATUS_ALREADY_EXISTS, s)" "by_id s (d_driver_id d) \<noteq> None"
  | (full) "driver_register (Some d) s = (STATUS_OUT_OF_MEMORY, s)" "by_id s (d_driver_id d) = None" "None \<notin> set (registered_drivers s)"
  | (new) s' where "driver_register (Some d) s = (STATUS_SUCCESS, s')" "by_id s (d_driver_id d) = None" "None \<in> set (registered_drivers s)" "manager_inv s'"
      "by_id s' = (by_id s)(d_driver_id d \<mapsto> d)"
proof (cases "slot_with (\<lambda>r. d_driver_id r = d_driver_id d) s")
  case (Some i)
  then have "by_id s (d_driver_id d) \<noteq> None" using slot_with_Some[OF Some] by (auto simp: by_id_def)
  then show thesis using Some by (intro exists) (simp_all add: driver_register_def)
next
  case None
  then have free: "by_id s (d_driver_id d) = None" by (simp add: by_id_def)
  have fresh: "d_driver_id c \<noteq> d_driver_id d" if "i < MAX_DRIVERS" "registered_drivers s ! i = Some c" for i c
    using None that unfolding slot_with_None by blast
  have len: "length (registered_drivers s) = MAX_DRIVERS" using inv by (simp add: manager_inv_def)
  show thesis
  proof (cases "find (\<lambda>i. registered_drivers s ! i = None) [0..<MAX_DRIVERS]")
    case None': None
    then have "\<forall>i < MAX_DRIVERS. registered_drivers s ! i \<noteq> None" unfolding find_upt_None_iff by blast
    then have "None \<notin> set (registered_drivers s)" using len by (metis in_set_conv_nth)
    then show thesis using None None' free by (intro full) (simp_all add: driver_register_def)
  next
    case (Some i)
    then have i: "i < MAX_DRIVERS" "registered_drivers s ! i = None" unfolding find_upt_Some_iff by auto
    moreover have "None \<in> set (registered_drivers s)" using i len nth_mem[of i "registered_drivers s"] by simp
    ultimately show thesis using None Some free insert_driver[OF inv i fresh] by (intro new) (simp_all add: driver_register_def)
  qed
qed

lemma dom_by_id_card:
  assumes inv: "manager_inv s"
  shows "card (dom (by_id s)) = length (filter (\<lambda>d. d \<noteq> None) (registered_drivers s))"
proof -
  define F where "F = {j. j < MAX_DRIVERS \<and> registered_drivers s ! j \<noteq> None}"
  define f where "f = (\<lambda>j. d_driver_id (the (registered_drivers s ! j)))"
  have "inj_on f F"
  proof (rule inj_onI)
    fix i j
    assume "i \<in> F" "j \<in> F" and eq: "f i = f j"
    then obtain c d where "i < MAX_DRIVERS" "j < MAX_DRIVERS" "registered_drivers s ! i = Some c" "registered_drivers s ! j = Some d"
      unfolding F_def by auto
    then show "i = j" using inv eq unfolding manager_inv_def f_def by fastforce
  qed
  moreover have "dom (by_id s) = f ` F"
  proof (rule set_eqI)
    fix x
    have "x \<in> dom (by_id s) \<longleftrightarrow> (\<exists>d. \<exists>j < MAX_DRIVERS. registered_drivers s ! j = Some d \<and> d_driver_id d = x)"
      unfolding dom_def by (simp add: by_id_iff[OF inv])
    also have "\<dots> \<longleftrightarrow> x \<in> f ` F" unfolding F_def f_def image_iff by force
    finally show "x \<in> dom (by_id s) \<longleftrightarrow> x \<in> f ` F" .
  qed
  moreover have "card F = length (filter (\<lambda>d. d \<noteq> None) (registered_drivers s))"
    using inv unfolding F_def manager_inv_def by (simp add: length_filter_conv_card)
  ultimately show ?thesis by (simp add: card_image)
qed

lemma unregister_cases:
  assumes inv: "manager_inv s"
  obtains (missing) "driver_unregister k s = (STATUS_NOT_FOUND, s)" "by_id s k = None"
  | (removed) s' where "driver_unregister k s = (STATUS_SUCCESS, s')" "by_id s k \<noteq> None" "manager_inv s'"
      "by_id s' = (by_id s)(k := None)"
proof (cases "slot_with (\<lambda>r. d_driver_id r = k) s")
  case None
  then show thesis by (intro missing) (simp_all add: driver_unregister_def by_id_def)
next
  case (Some i)
  then obtain d where i: "i < MAX_DRIVERS" "registered_drivers s ! i = Some d" "d_driver_id d = k" using slot_with_Some by blast
  have len: "length (registered_drivers s) = MAX_DRIVERS" using inv by (simp add: manager_inv_def)
  define s' where "s' = s\<lparr>registered_drivers := (registered_drivers s)[i := None], driver_count := driver_count s - 1\<rparr>"
  have nth: "registered_drivers s' ! j = (if j = i then None else registered_drivers s ! j)" if "j < MAX_DRIVERS" for j
    using that i len by (simp add: s'_def nth_list_update)
  have n: "length (filter (\<lambda>d. d \<noteq> None) (registered_drivers s)) = length (filter (\<lambda>d. d \<noteq> None) (registered_drivers s')) + 1"
    using count_update[of i "registered_drivers s" None] i len by (simp add: s'_def)
  have "driver_count s = of_nat (length (filter (\<lambda>d. d \<noteq> None) (registered_drivers s)))" using inv by (simp add: manager_inv_def)
  then have cnt: "driver_count s' = of_nat (length (filter (\<lambda>d. d \<noteq> None) (registered_drivers s')))"
    unfolding n by (simp add: s'_def)
  have "j = l" if "j < MAX_DRIVERS" "l < MAX_DRIVERS" "registered_drivers s' ! j = Some c" "registered_drivers s' ! l = Some e"
    "d_driver_id c = d_driver_id e" for j l c e
    using that nth[OF that(1)] nth[OF that(2)] inv unfolding manager_inv_def by (metis option.distinct(1))
  then have inv': "manager_inv s'" unfolding manager_inv_def using cnt len by (auto simp: s'_def)
  have only: "j = i" if "j < MAX_DRIVERS" "registered_drivers s ! j = Some c" "d_driver_id c = k" for j c
    using that i inv unfolding manager_inv_def by blast
  have "by_id s' = (by_id s)(k := None)"
  proof (rule map_eqI_Some)
    fix x y
    have "registered_drivers s' ! j = Some y \<and> d_driver_id y = x \<longleftrightarrow> registered_drivers s ! j = Some y \<and> d_driver_id y = x \<and> x \<noteq> k"
      if "j < MAX_DRIVERS" for j using nth[OF that] only[OF that, of y] i by auto
    then show "by_id s' x = Some y \<longleftrightarrow> ((by_id s)(k := None)) x = Some y"
      unfolding by_id_iff[OF inv'] by (cases "x = k") (auto simp: by_id_iff[OF inv])
  qed
  moreover have "by_id s k \<noteq> None" using i by (simp add: by_id_def Some)
  ultimately show thesis using Some inv' by (intro removed[of s']) (simp_all add: driver_unregister_def s'_def)
qed

section \<open>The contract\<close>

text \<open>
  What a client of a registry of bounded capacity may rely on: the operations answer and change the abstract map the way a finite map
  of that capacity does.
\<close>

datatype ('k, 'v) reg_op = Register 'v | Unregister 'k

fun spec_op :: "nat \<Rightarrow> ('v \<Rightarrow> 'k) \<Rightarrow> ('k, 'v) reg_op \<Rightarrow> ('k \<rightharpoonup> 'v) \<Rightarrow> status_t \<times> ('k \<rightharpoonup> 'v)" where
  "spec_op n key (Register v) m =
     (if m (key v) \<noteq> None then (STATUS_ALREADY_EXISTS, m)
      else if card (dom m) = n then (STATUS_OUT_OF_MEMORY, m)
      else (STATUS_SUCCESS, m(key v \<mapsto> v)))"
| "spec_op n key (Unregister k) m =
     (if m k = None then (STATUS_NOT_FOUND, m) else (STATUS_SUCCESS, m(k := None)))"

fun run_ops :: "('o \<Rightarrow> 's \<Rightarrow> status_t \<times> 's) \<Rightarrow> 'o list \<Rightarrow> 's \<Rightarrow> status_t list \<times> 's" where
  "run_ops f [] s = ([], s)"
| "run_ops f (x # xs) s = (let (r, s) = f x s; (rs, s) = run_ops f xs s in (r # rs, s))"

fun reg_apply :: "('v \<Rightarrow> 's \<Rightarrow> status_t \<times> 's) \<Rightarrow> ('k \<Rightarrow> 's \<Rightarrow> status_t \<times> 's) \<Rightarrow> ('k, 'v) reg_op \<Rightarrow> 's \<Rightarrow> status_t \<times> 's" where
  "reg_apply add remove (Register v) s = add v s"
| "reg_apply add remove (Unregister k) s = remove k s"

locale registry =
  fixes inv :: "'s \<Rightarrow> bool" and look :: "'s \<Rightarrow> 'k \<rightharpoonup> 'v" and key :: "'v \<Rightarrow> 'k" and capacity :: nat
    and add :: "'v \<Rightarrow> 's \<Rightarrow> status_t \<times> 's" and remove :: "'k \<Rightarrow> 's \<Rightarrow> status_t \<times> 's"
  assumes add_law: "inv s \<Longrightarrow> inv (snd (add v s)) \<and> (fst (add v s), look (snd (add v s))) = spec_op capacity key (Register v) (look s)"
    and remove_law: "inv s \<Longrightarrow> inv (snd (remove k s)) \<and> (fst (remove k s), look (snd (remove k s))) = spec_op capacity key (Unregister k) (look s)"
begin

lemma reg_op_law:
  "inv s \<Longrightarrow> inv (snd (reg_apply add remove x s)) \<and>
     (fst (reg_apply add remove x s), look (snd (reg_apply add remove x s))) = spec_op capacity key x (look s)"
  by (cases x) (auto simp: add_law remove_law)

lemma simulation:
  assumes "inv s" "run_ops (reg_apply add remove) xs s = (rs, s')"
  shows "inv s' \<and> run_ops (spec_op capacity key) xs (look s) = (rs, look s')"
  using assms
proof (induction xs arbitrary: s rs)
  case (Cons x xs)
  obtain r t where step: "reg_apply add remove x s = (r, t)" by (cases "reg_apply add remove x s")
  obtain rs' where rest: "run_ops (reg_apply add remove) xs t = (rs', s')" "rs = r # rs'"
    using Cons.prems(2) step by (auto split: prod.splits)
  have t: "inv t" "spec_op capacity key x (look s) = (r, look t)" using reg_op_law[OF Cons.prems(1), of x] step by simp_all
  show ?case using Cons.IH[OF t(1) rest(1)] t(2) rest(2) by simp
qed simp

end

definition boot_manager :: manager where
  "boot_manager = \<lparr>registered_drivers = replicate MAX_DRIVERS None, driver_count = 0\<rparr>"

lemma full_iff:
  assumes "manager_inv s"
  shows "card (dom (by_id s)) = MAX_DRIVERS \<longleftrightarrow> None \<notin> set (registered_drivers s)"
proof -
  have len: "length (registered_drivers s) = MAX_DRIVERS" using assms by (simp add: manager_inv_def)
  have "length (filter P xs) = length xs \<longleftrightarrow> (\<forall>x \<in> set xs. P x)" for P and xs :: "driver_interface option list"
    by (metis filter_id_conv length_filter_less less_irrefl)
  from this[of "\<lambda>d. d \<noteq> None" "registered_drivers s"] show ?thesis unfolding dom_by_id_card[OF assms] len[symmetric] by metis
qed

interpretation drivers: registry manager_inv by_id d_driver_id MAX_DRIVERS "\<lambda>d. driver_register (Some d)" driver_unregister
proof
  fix s v
  assume inv: "manager_inv s"
  show "manager_inv (snd (driver_register (Some v) s)) \<and> (fst (driver_register (Some v) s), by_id (snd (driver_register (Some v) s))) =
    spec_op MAX_DRIVERS d_driver_id (Register v) (by_id s)"
    by (rule register_cases[OF inv, of v]) (use inv full_iff[OF inv] in auto)
next
  fix s k
  assume inv: "manager_inv s"
  show "manager_inv (snd (driver_unregister k s)) \<and> (fst (driver_unregister k s), by_id (snd (driver_unregister k s))) =
    spec_op MAX_DRIVERS d_driver_id (Unregister k) (by_id s)"
    by (rule unregister_cases[OF inv, of k]) (use inv in auto)
qed

lemma boot_manager_inv: "manager_inv boot_manager" "by_id boot_manager = Map.empty"
proof -
  show "manager_inv boot_manager" by (simp add: manager_inv_def boot_manager_def)
  have "slot_with P boot_manager = None" for P unfolding slot_with_None by (simp add: boot_manager_def)
  then show "by_id boot_manager = Map.empty" by (simp add: by_id_def fun_eq_iff)
qed

text \<open>
  C26: The driver registry is a finite map from driver identifiers to drivers of capacity sixteen. Whatever sequence of
  registrations and removals runs from the registry a driver starts with, each call returns the status the map gives
  (already there, full, not found, success), the registry then holds exactly the entries of the map, every identifier at most once,
  and the counter is the number of entries.
\<close>

theorem registry_refines_map:
  "let (rs, s) = run_ops (reg_apply (\<lambda>d. driver_register (Some d)) driver_unregister) xs boot_manager in
     manager_inv s \<and>
     run_ops (spec_op MAX_DRIVERS d_driver_id) xs Map.empty = (rs, by_id s) \<and>
     driver_count s = of_nat (card (dom (by_id s))) \<and>
     driver_get_stats True True s = (STATUS_SUCCESS, Some (driver_count s), Some (driver_count s))"
proof -
  obtain rs s where run: "run_ops (reg_apply (\<lambda>d. driver_register (Some d)) driver_unregister) xs boot_manager = (rs, s)"
    by (cases "run_ops (reg_apply (\<lambda>d. driver_register (Some d)) driver_unregister) xs boot_manager")
  have "manager_inv s \<and> run_ops (spec_op MAX_DRIVERS d_driver_id) xs Map.empty = (rs, by_id s)"
    using drivers.simulation[OF boot_manager_inv(1) run] by (simp add: boot_manager_inv(2))
  moreover from this have "driver_count s = of_nat (card (dom (by_id s)))" by (simp add: dom_by_id_card) (simp add: manager_inv_def)
  ultimately show ?thesis unfolding run by (simp add: driver_get_stats_def)
qed

end
