(* ===== verification/Userspace.thy ===== *)
theory Userspace
  imports Serial Driver_Manager
begin

text \<open>
  What the user programs share: \<^verbatim>\<open>userspace/userspace.c\<close> and the inline wrappers of \<^verbatim>\<open>include/userspace.h\<close>.

  A user program sees the kernel through system calls only. What the kernel answers is a parameter, \<open>kernel\<close>: it gives, for the
  calls made so far and the call being made, the value left in \<^verbatim>\<open>eax\<close> and, for a receive, the contents the message buffer
  then has, if the kernel writes to it. Any sequence of answers is such a function, because the calls made so far grow with every
  call. A message passed by pointer is passed by its contents.
\<close>

section \<open>Strings in memory\<close>

text \<open>A loop over a string that is not terminated does not end, and has no result.\<close>

partial_function (option) strlen_loop :: "memory \<Rightarrow> u32 \<Rightarrow> u32 \<Rightarrow> u32 option" where
  "strlen_loop m str len = (if m (str + len) = 0 then Some len else strlen_loop m str (len + 1))"

definition strlen :: "memory \<Rightarrow> u32 \<Rightarrow> u32 option" where
  "strlen m str = strlen_loop m str 0"

partial_function (option) strcpy_loop :: "u32 \<Rightarrow> u32 \<Rightarrow> memory \<Rightarrow> memory option" where
  "strcpy_loop d src m =
     (let c = m src; m = m(d := c) in if c = 0 then Some m else strcpy_loop (d + 1) (src + 1) m)"

definition strcpy :: "u32 \<Rightarrow> u32 \<Rightarrow> memory \<Rightarrow> (u32 \<times> memory) option" where
  "strcpy dest src m = map_option (Pair dest) (strcpy_loop dest src m)"

partial_function (option) strend_loop :: "memory \<Rightarrow> u32 \<Rightarrow> u32 option" where
  "strend_loop m d = (if m d = 0 then Some d else strend_loop m (d + 1))"

definition strcat :: "u32 \<Rightarrow> u32 \<Rightarrow> memory \<Rightarrow> (u32 \<times> memory) option" where
  "strcat dest src m =
     Option.bind (strend_loop m dest) (\<lambda>d. map_option (Pair dest) (strcpy_loop d src m))"

text \<open>\<^verbatim>\<open>char\<close> is signed on this target, so the difference is of values between -128 and 127.\<close>

partial_function (option) strcmp :: "memory \<Rightarrow> u32 \<Rightarrow> u32 \<Rightarrow> int option" where
  "strcmp m str1 str2 =
     (if m str1 \<noteq> 0 \<and> m str1 = m str2 then strcmp m (str1 + 1) (str2 + 1)
      else Some (sint (m str1) - sint (m str2)))"

text \<open>
  The byte loops count their 32-bit argument down, \<^verbatim>\<open>while (size--)\<close>; only the low byte of the value is stored.
\<close>

function user_memset_loop :: "u8 \<Rightarrow> u32 \<Rightarrow> u32 \<Rightarrow> memory \<Rightarrow> memory" where
  "user_memset_loop value p sz m = (if sz = 0 then m else user_memset_loop value (p + 1) (sz - 1) (m(p := value)))"
  by pat_completeness auto
termination by (relation "measure (\<lambda>(_, _, sz, _). unat sz)") (auto simp: unat_minus_one unat_gt_0)

definition user_memset :: "u32 \<Rightarrow> u32 \<Rightarrow> u32 \<Rightarrow> memory \<Rightarrow> u32 \<times> memory" where
  "user_memset ptr value sz m = (ptr, user_memset_loop (ucast value) ptr sz m)"

function user_memcpy_loop :: "u32 \<Rightarrow> u32 \<Rightarrow> u32 \<Rightarrow> memory \<Rightarrow> memory" where
  "user_memcpy_loop d s sz m = (if sz = 0 then m else user_memcpy_loop (d + 1) (s + 1) (sz - 1) (m(d := m s)))"
  by pat_completeness auto
termination by (relation "measure (\<lambda>(_, _, sz, _). unat sz)") (auto simp: unat_minus_one unat_gt_0)

definition user_memcpy :: "u32 \<Rightarrow> u32 \<Rightarrow> u32 \<Rightarrow> memory \<Rightarrow> u32 \<times> memory" where
  "user_memcpy dest src sz m = (dest, user_memcpy_loop dest src sz m)"

declare user_memset_loop.simps [simp del] user_memcpy_loop.simps [simp del]

section \<open>System calls\<close>

datatype ucall =
    Plain (u_number: u32) u32 u32 u32
  | Message (u_number: u32) u32 abi_msg
  | Receive (u_number: u32) u32 bool
  | Text (u_number: u32) string u32

record env =
  e_io :: io
  e_calls :: "ucall list"
  kernel :: "ucall list \<Rightarrow> ucall \<Rightarrow> u32 \<times> abi_msg option"

definition syscall :: "ucall \<Rightarrow> env \<Rightarrow> (u32 \<times> abi_msg option) \<times> env" where
  "syscall c e = (kernel e (e_calls e) c, e\<lparr>e_calls := c # e_calls e\<rparr>)"

definition call_value :: "ucall \<Rightarrow> env \<Rightarrow> u32 \<times> env" where
  "call_value c e = (let ((r, _), e) = syscall c e in (r, e))"

definition process_create_call :: "env \<Rightarrow> u32 \<times> env" where
  "process_create_call = call_value (Plain 0x01 0 0 0)"

definition process_exit_call :: "u32 \<Rightarrow> env \<Rightarrow> env" where
  "process_exit_call exit_code e = snd (call_value (Plain 0x02 exit_code 0 0) e)"

definition process_yield_call :: "env \<Rightarrow> env" where
  "process_yield_call e = snd (call_value (Plain 0x03 0 0 0) e)"

definition process_kill_call :: "u32 \<Rightarrow> env \<Rightarrow> u32 \<times> env" where
  "process_kill_call pid = call_value (Plain 0x04 pid 0 0)"

definition memory_alloc :: "u32 \<Rightarrow> env \<Rightarrow> u32 \<times> env" where
  "memory_alloc sz = call_value (Plain 0x10 sz 0 0)"

definition memory_free :: "u32 \<Rightarrow> env \<Rightarrow> env" where
  "memory_free ptr e = snd (call_value (Plain 0x11 ptr 0 0) e)"

definition memory_map :: "u32 \<Rightarrow> u32 \<Rightarrow> u32 \<Rightarrow> env \<Rightarrow> u32 \<times> env" where
  "memory_map virt_addr phys_addr flags = call_value (Plain 0x12 virt_addr phys_addr flags)"

definition ipc_send_call :: "u32 \<Rightarrow> abi_msg \<Rightarrow> env \<Rightarrow> u32 \<times> env" where
  "ipc_send_call receiver_pid msg = call_value (Message 0x20 receiver_pid msg)"

text \<open>
  The \<^verbatim>\<open>main\<close> function of a driver ends with a code or runs its loop for ever. It is modelled up to a number of iterations of the
  loop: it has ended by then, or it is at the head of the loop.
\<close>

datatype 's main_run = Exits u32 's | Loops 's

text \<open>
  The entry point of a program, \<^verbatim>\<open>_start\<close>, calls \<^verbatim>\<open>main\<close> and, should it return, yields for ever: here \<open>j\<close> times.
\<close>

fun start_program :: "('s \<Rightarrow> 's) \<Rightarrow> nat \<Rightarrow> 's main_run \<Rightarrow> 's" where
  "start_program yield j (Exits code s) = (yield ^^ j) s"
| "start_program yield j (Loops s) = s"

lemma yields_calls: "e_calls ((process_yield_call ^^ j) e) = replicate j (Plain 0x03 0 0 0) @ e_calls e"
  by (induction j) (simp_all add: process_yield_call_def call_value_def syscall_def split: prod.splits)

text \<open>The result and the buffer afterwards.\<close>

definition ipc_receive_call :: "u32 \<Rightarrow> abi_msg \<Rightarrow> bool \<Rightarrow> env \<Rightarrow> (u32 \<times> abi_msg) \<times> env" where
  "ipc_receive_call sender_pid msg block e =
     (let ((r, m), e) = syscall (Receive 0x21 sender_pid block) e in ((r, case m of None \<Rightarrow> msg | Some m \<Rightarrow> m), e))"

definition ipc_register_handler_call :: "u32 \<Rightarrow> u32 \<Rightarrow> env \<Rightarrow> u32 \<times> env" where
  "ipc_register_handler_call msg_type handler = call_value (Plain 0x22 msg_type handler 0)"

definition driver_register_wrapper :: "string \<Rightarrow> u32 \<Rightarrow> env \<Rightarrow> u32 \<times> env" where
  "driver_register_wrapper name capabilities = call_value (Text 0x30 name capabilities)"

definition driver_request :: "u32 \<Rightarrow> abi_msg \<Rightarrow> env \<Rightarrow> u32 \<times> env" where
  "driver_request driver_pid request = call_value (Message 0x31 driver_pid request)"

definition driver_get_ticks :: "env \<Rightarrow> u32 \<times> env" where
  "driver_get_ticks e =
     (let msg = empty_msg\<lparr>a_msg_type := DRIVER_MSG_READ, a_data_size := 0\<rparr>;
          (r, e) = driver_request 4 msg e
      in if r = 0 then
           (let ((st, response), e) = ipc_receive_call 4 empty_msg False e
            in if st = 0 \<and> a_data_size response \<ge> 4 then (get32 (a_data response) 0, e) else (0, e))
         else (0, e))"

definition system_shutdown :: "env \<Rightarrow> env" where
  "system_shutdown e = snd (call_value (Plain 0x40 0 0 0) e)"

section \<open>Printing and sleeping\<close>

text \<open>
  The text with its terminator is copied to the 256 bytes of the message; a text that does not fit would be written past its end,
  which has no result.
\<close>

definition text_data :: "string \<Rightarrow> u8 list" where
  "text_data str = map of_char str @ replicate (256 - length str) 0"

definition user_print :: "string \<Rightarrow> env \<Rightarrow> env option" where
  "user_print str e =
     (if length str + 1 > 256 then None
      else Some (snd (ipc_send_call 3 (empty_msg\<lparr>a_msg_type := DRIVER_MSG_WRITE, a_data_size := of_nat (length str) + 1,
        a_data := text_data str\<rparr>) e)))"

definition hex_buffer :: "u32 \<Rightarrow> string" where
  "hex_buffer value = fst (foldl (\<lambda>(b, v) i. (b[i := hex_chars ! unat (v AND 0x0F)], drop_bit 4 v))
     (''0x00000000'', value) [9, 8, 7, 6, 5, 4, 3, 2])"

definition user_print_hex :: "u32 \<Rightarrow> env \<Rightarrow> env option" where
  "user_print_hex value e = user_print (hex_buffer value) e"

text \<open>
  The request's status is taken for the identifier of the request: the loop waits for a message that carries it.
\<close>

partial_function (option) sleep_loop :: "u32 \<Rightarrow> abi_msg \<Rightarrow> env \<Rightarrow> env option" where
  "sleep_loop request_id response e =
     (let ((r, response), e) = ipc_receive_call 0 response True e
      in if r = 0 then
           (if a_msg_type response = DRIVER_MSG_IOCTL \<and> a_data_size response \<ge> 4 \<and> get32 (a_data response) 0 = request_id
            then Some e else sleep_loop request_id response e)
         else Some e)"

definition delay_msg :: "u32 \<Rightarrow> abi_msg" where
  "delay_msg ms = empty_msg\<lparr>a_msg_type := DRIVER_MSG_IOCTL, a_data_size := 12,
     a_data := put32 2 0 (put32 1 ms (put32 0 0x03 (a_data empty_msg)))\<rparr>"

definition sleep :: "u32 \<Rightarrow> env \<Rightarrow> env option" where
  "sleep ms e =
     (let (request_id, e) = driver_request 4 (delay_msg ms) e
      in if request_id \<noteq> 0 then sleep_loop request_id empty_msg e else Some e)"

section \<open>Byte blocks\<close>

text \<open>The loops of the user library and those of the C runtime of the kernel do the same, for every size.\<close>

lemma unat_count_down: "sz \<noteq> 0 \<Longrightarrow> unat (sz :: u32) = Suc (unat (sz - 1))"
  by (simp add: unat_minus_one unat_gt_0)

lemma user_memset_eq: "user_memset ptr value sz m = (ptr, memset m ptr (ucast value) (unat sz))"
proof -
  have "user_memset_loop v p sz m = memset m p v (unat sz)" for v p m
  proof (induction v p sz m rule: user_memset_loop.induct)
    case (1 v p sz m)
    show ?case
    proof (cases "sz = 0")
      case False
      then have "user_memset_loop v p sz m = memset (m(p := v)) (p + 1) v (unat (sz - 1))" using 1(1)[OF False] unfolding user_memset_loop.simps[of v p sz] by (simp only: if_False)
      then show ?thesis by (simp only: unat_count_down[OF False] memset.simps)
    qed (subst user_memset_loop.simps, simp)
  qed
  then show ?thesis by (simp add: user_memset_def)
qed

lemma user_memcpy_eq: "user_memcpy dest src sz m = (dest, memcpy m dest src (unat sz))"
proof -
  have "user_memcpy_loop d s sz m = memcpy m d s (unat sz)" for d s m
  proof (induction d s sz m rule: user_memcpy_loop.induct)
    case (1 d s sz m)
    show ?case
    proof (cases "sz = 0")
      case False
      then have "user_memcpy_loop d s sz m = memcpy (m(d := m s)) (d + 1) (s + 1) (unat (sz - 1))" using 1(1)[OF False] unfolding user_memcpy_loop.simps[of d s sz] by (simp only: if_False)
      then show ?thesis by (simp only: unat_count_down[OF False] memcpy.simps)
    qed (subst user_memcpy_loop.simps, simp)
  qed
  then show ?thesis by (simp add: user_memcpy_def)
qed

section \<open>String functions\<close>

text \<open>The string \<open>s\<close>, without its terminator, lies at \<open>p\<close>.\<close>

definition cstr :: "memory \<Rightarrow> u32 \<Rightarrow> u8 list \<Rightarrow> bool" where
  "cstr m p s \<longleftrightarrow> 0 \<notin> set s \<and> length s < 2 ^ 32 \<and> (\<forall>i < length s. m (p + of_nat i) = s ! i) \<and> m (p + of_nat (length s)) = 0"

lemma cstr_Nil: "cstr m p [] \<longleftrightarrow> m p = 0"
  by (simp add: cstr_def)

lemma cstr_Cons: "cstr m p (c # s) \<longleftrightarrow> c \<noteq> 0 \<and> m p = c \<and> length s + 1 < 2 ^ 32 \<and> cstr m (p + 1) s"
proof -
  have "(\<forall>i < length (c # s). m (p + of_nat i) = (c # s) ! i) \<longleftrightarrow> m p = c \<and> (\<forall>i < length s. m (p + 1 + of_nat i) = s ! i)"
    unfolding length_Cons All_less_Suc2 by (simp add: add.assoc)
  then show ?thesis by (auto simp: cstr_def add.assoc)
qed

lemma strlen_loop_cstr: "cstr m (p + n) s \<Longrightarrow> strlen_loop m p n = Some (n + of_nat (length s))"
proof (induction s arbitrary: n)
  case Nil
  then show ?case by (simp add: cstr_Nil strlen_loop.simps[of m p n])
next
  case (Cons c s)
  then show ?case by (simp add: cstr_Cons strlen_loop.simps[of m p n] add.assoc)
qed

lemma strend_loop_cstr: "cstr m p s \<Longrightarrow> strend_loop m p = Some (p + of_nat (length s))"
proof (induction s arbitrary: p)
  case Nil
  then show ?case by (simp add: cstr_Nil strend_loop.simps[of m p])
next
  case (Cons c s)
  then show ?case by (simp add: cstr_Cons strend_loop.simps[of m p] add.assoc)
qed

text \<open>The bytes a copy writes: the string and its terminator, and nothing else.\<close>

definition put_bytes :: "memory \<Rightarrow> u32 \<Rightarrow> u8 list \<Rightarrow> memory" where
  "put_bytes m d s = (\<lambda>a. if unat (a - d) < length s then s ! unat (a - d) else m a)"

lemma put_bytes_Cons:
  assumes "length s < 2 ^ 32"
  shows "put_bytes m d (c # s) = put_bytes (m(d := c)) (d + 1) s"
proof (rule ext)
  fix a
  show "put_bytes m d (c # s) a = put_bytes (m(d := c)) (d + 1) s a"
  proof (cases "a = d")
    case True
    have "unat (- 1 :: u32) \<ge> length s" using assms by (simp add: unat_minus_one_word32)
    then show ?thesis using True by (simp add: put_bytes_def)
  next
    case False
    then have nz: "a - d \<noteq> 0" by simp
    then have "unat (a - d) \<noteq> 0" by (simp add: unat_eq_0)
    then have "unat (a - d) = Suc (unat (a - d - 1))" using unat_minus_one[OF nz] by simp
    then show ?thesis using False by (simp add: put_bytes_def diff_diff_eq)
  qed
qed

lemma strcpy_loop_cstr:
  assumes "cstr m src s" "\<forall>i \<le> length s. \<forall>j \<le> length s. d + of_nat j \<noteq> src + of_nat i"
  shows "strcpy_loop d src m = Some (put_bytes m d (s @ [0]))"
  using assms
proof (induction s arbitrary: d src m)
  case Nil
  then show ?case by (simp add: cstr_Nil strcpy_loop.simps[of d src m] put_bytes_Cons Let_def) (simp add: put_bytes_def fun_eq_iff)
next
  case (Cons c s)
  have step: "d + 1 + of_nat j \<noteq> src + 1 + of_nat i" if "i \<le> length s" "j \<le> length s" for i j
    using Cons.prems(2)[rule_format, of "Suc i" "Suc j"] that by (simp add: algebra_simps)
  have same: "(m(d := c)) (src + 1 + of_nat i) = m (src + 1 + of_nat i)" if "i \<le> length s" for i
    using Cons.prems(2)[rule_format, of "Suc i" 0] that by (auto simp: algebra_simps)
  have "cstr m (src + 1) s" using Cons.prems(1) by (simp add: cstr_Cons)
  then have "cstr (m(d := c)) (src + 1) s" unfolding cstr_def using same less_imp_le by (metis order_refl)
  then have "strcpy_loop (d + 1) (src + 1) (m(d := c)) = Some (put_bytes (m(d := c)) (d + 1) (s @ [0]))"
    by (rule Cons.IH) (use step in blast)
  then show ?case using Cons.prems(1) by (simp add: cstr_Cons strcpy_loop.simps[of d src m] put_bytes_Cons Let_def)
qed

lemma sint8_eq_iff: "sint (v :: u8) = sint w \<longleftrightarrow> v = w"
  by (rule word_eq_iff_signed[symmetric])

lemma sint8_eq_0_iff: "sint (w :: u8) = 0 \<longleftrightarrow> w = 0"
  using sint8_eq_iff[of w 0] by simp

lemma strcmp_cstr:
  "cstr m p a \<Longrightarrow> cstr m q b \<Longrightarrow> \<exists>r. strcmp m p q = Some r \<and> (r = 0 \<longleftrightarrow> a = b)"
proof (induction a arbitrary: p q b)
  case Nil
  then show ?case by (cases b) (auto simp: cstr_Nil cstr_Cons strcmp.simps[of m p q] sint8_eq_0_iff)
next
  case (Cons c a)
  show ?case
  proof (cases b)
    case Nil
    then show ?thesis using Cons.prems by (auto simp: cstr_Nil cstr_Cons strcmp.simps[of m p q] sint8_eq_0_iff)
  next
    case (Cons c' b')
    show ?thesis
    proof (cases "c = c'")
      case True
      then show ?thesis using Cons.IH[of "p + 1" "q + 1" b'] Cons.prems Cons by (simp add: cstr_Cons strcmp.simps[of m p q])
    next
      case False
      then have "sint c - sint c' \<noteq> 0" by (simp add: sint8_eq_iff)
      then show ?thesis using False Cons.prems Cons by (simp add: cstr_Cons strcmp.simps[of m p q])
    qed
  qed
qed

lemma cstr_cong: "(\<And>i. i \<le> length s \<Longrightarrow> m' (p + of_nat i) = m (p + of_nat i)) \<Longrightarrow> cstr m' p s = cstr m p s"
  by (simp add: cstr_def)

lemma put_bytes_nth: "i < length s \<Longrightarrow> length s \<le> 2 ^ 32 \<Longrightarrow> put_bytes m d s (d + of_nat i) = s ! i"
  by (simp add: put_bytes_def unat_of_nat32)

lemma put_bytes_other: "(\<And>i. i < length s \<Longrightarrow> d + of_nat i \<noteq> a) \<Longrightarrow> put_bytes m d s a = m a"
proof -
  assume other: "\<And>i. i < length s \<Longrightarrow> d + of_nat i \<noteq> a"
  have "d + of_nat (unat (a - d)) = a" by simp
  then show ?thesis using other[of "unat (a - d)"] by (auto simp: put_bytes_def)
qed

text \<open>
  The string functions do what their names promise. Appending a terminated string to another, where the source does not
  overlap the room the result needs, ends and leaves the concatenation, terminated, at the destination, whose length
  \<^verbatim>\<open>strlen\<close> then measures; the source is unchanged, and so is every byte outside the result. Comparing two terminated strings
  ends with 0 exactly when they are equal.
\<close>

lemma string_functions:
  assumes a: "cstr m dest a" and b: "cstr m src b" and len: "length a + length b + 1 < 2 ^ 32"
    and disjoint: "\<forall>i \<le> length b. \<forall>j \<le> length a + length b. dest + of_nat j \<noteq> src + of_nat i"
  shows "(\<exists>m'. strcat dest src m = Some (dest, m') \<and> cstr m' dest (a @ b) \<and> cstr m' src b \<and>
      strlen m' dest = Some (of_nat (length a + length b)) \<and>
      (\<forall>x. (\<forall>j \<le> length a + length b. x \<noteq> dest + of_nat j) \<longrightarrow> m' x = m x)) \<and>
    (\<exists>r. strcmp m dest src = Some r \<and> (r = 0 \<longleftrightarrow> a = b))"
proof -
  define d where "d = dest + of_nat (length a)"
  define m' where "m' = put_bytes m d (b @ [0])"
  have "strcpy_loop d src m = Some m'" unfolding m'_def
  proof (rule strcpy_loop_cstr[OF b], intro allI impI)
    fix i j
    assume "i \<le> length b" "j \<le> length b"
    then show "d + of_nat j \<noteq> src + of_nat i" using disjoint[rule_format, of i "length a + j"] by (simp add: d_def add.assoc)
  qed
  then have run: "strcat dest src m = Some (dest, m')" by (simp add: strcat_def strend_loop_cstr[OF a] d_def)
  have other: "m' x = m x" if "\<And>j. j \<le> length a + length b \<Longrightarrow> x \<noteq> dest + of_nat j" for x unfolding m'_def
  proof (rule put_bytes_other)
    fix i
    assume "i < length (b @ [0])"
    then show "d + of_nat i \<noteq> x" using that[of "length a + i"] by (auto simp: d_def add.assoc)
  qed
  have b': "cstr m' d b"
    using b len put_bytes_nth[of _ "b @ [0]" m d] unfolding cstr_def m'_def by (auto simp: nth_append)
  have tail: "m' (dest + of_nat i) = b ! (i - length a)" if i: "length a \<le> i" "i < length a + length b" for i
  proof -
    obtain k where "i = length a + k" using i(1) le_Suc_ex by blast
    then show ?thesis using i(2) b' by (simp add: cstr_def d_def add.assoc)
  qed
  have "m' (dest + of_nat i) = a ! i" if i: "i < length a" for i
  proof -
    have "d + of_nat j \<noteq> dest + of_nat i" if "j \<le> length b" for j
    proof -
      have "unat (of_nat (length a + j) :: u32) \<noteq> unat (of_nat i :: u32)" using i that len by (simp add: unat_of_nat32 del: of_nat_add)
      then have "of_nat (length a + j) \<noteq> (of_nat i :: u32)" by metis
      then show ?thesis by (simp add: d_def add.assoc)
    qed
    then have "m' (dest + of_nat i) = m (dest + of_nat i)" unfolding m'_def by (intro put_bytes_other) auto
    then show ?thesis using a i by (simp add: cstr_def)
  qed
  then have ab: "cstr m' dest (a @ b)" using a b' len tail unfolding cstr_def d_def by (auto simp: nth_append add.assoc not_less simp flip: of_nat_add)
  have src: "cstr m' src b" using b cstr_cong[of b m' src m] other disjoint by metis
  have "strlen m' dest = Some (of_nat (length a + length b))"
    using strlen_loop_cstr[of m' dest 0 "a @ b"] ab by (simp add: strlen_def)
  then show ?thesis using run ab src other strcmp_cstr[OF a b] by blast
qed

lemma string_functions_witness:
  "let m = (\<lambda>_. 0)(100 := 65, 200 := 66, 201 := 67) in
     \<exists>m'. strcat 100 200 m = Some (100, m') \<and> cstr m' 100 [65, 66, 67] \<and> (\<exists>r. strcmp m 100 200 = Some r \<and> r \<noteq> 0)"
proof -
  define m :: memory where "m = (\<lambda>_. 0)(100 := 65, 200 := 66, 201 := 67)"
  have a: "cstr m 100 [65]" and b: "cstr m 200 [66, 67]" by (simp_all add: cstr_Cons cstr_Nil m_def)
  have len: "length [65 :: u8] + length [66, 67 :: u8] + 1 < 2 ^ 32" by simp
  have "(100 :: u32) + of_nat j \<noteq> 200 + of_nat i" if "i \<le> length [66, 67 :: u8]" "j \<le> length [65 :: u8] + length [66, 67 :: u8]" for i j
  proof -
    have "j \<in> {0, 1, 2, 3}" "i \<in> {0, 1, 2}" using that by auto
    then show ?thesis by auto
  qed
  then have disj: "\<forall>i \<le> length [66, 67 :: u8]. \<forall>j \<le> length [65 :: u8] + length [66, 67 :: u8]. (100 :: u32) + of_nat j \<noteq> 200 + of_nat i"
    by blast
  from string_functions[OF a b len disj] show ?thesis unfolding m_def[symmetric] Let_def by auto
qed

section \<open>Numbers in hexadecimal\<close>

text \<open>The user programs' routine gives the digits the kernel's gives.\<close>

lemma hex_buffer_hex_string: "hex_buffer v = hex_string v"
  by (simp add: hex_buffer_def hex_string_def hex_digit_def drop_bit_drop_bit)

lemma hex_buffer_length: "length (hex_buffer v) = 10"
  by (simp add: hex_buffer_hex_string hex_string_def)

lemma user_print_hex_some: "user_print_hex v e = Some (snd (ipc_send_call 3 (empty_msg\<lparr>a_msg_type := DRIVER_MSG_WRITE,
    a_data_size := 11, a_data := text_data (hex_string v)\<rparr>) e))"
  using hex_buffer_length[of v] by (simp add: user_print_hex_def user_print_def hex_buffer_hex_string)

section \<open>Sleeping\<close>

text \<open>
  A request that the kernel accepts has status 0, which is taken for the identifier 0: the call returns at once. One that the kernel
  refuses waits for a message that carries the error code.
\<close>

lemma sleep_accepted_returns:
  assumes "fst (driver_request 4 (delay_msg ms) e) = STATUS_SUCCESS"
  shows "sleep ms e = Some (e\<lparr>e_calls := Message 0x31 4 (delay_msg ms) # e_calls e\<rparr>)"
  using assms by (simp add: sleep_def driver_request_def call_value_def syscall_def STATUS_SUCCESS_def Let_def split: prod.splits)

end
