(* ===== verification/Transport.thy ===== *)
theory Transport
  imports Syscall Userspace
begin

text \<open>
  How the system calls of the user programs reach the kernel. A user program passes values in registers and a message by pointer; the
  kernel finds the registers in the trap frame and the message in memory. Here the calls as the user programs make them are
  related to the words and bytes the kernel sees, and a message is followed from the sender's buffer through the dispatcher to the
  receiver's buffer.
\<close>

section \<open>Messages in memory\<close>

text \<open>The structure \<^verbatim>\<open>ipc_abi_message_t\<close> at an address.\<close>

definition decode_msg :: "memory \<Rightarrow> u32 \<Rightarrow> abi_msg" where
  "decode_msg m p = \<lparr>a_msg_id = load32 m p, a_sender_pid = load32 m (p + 4), a_receiver_pid = load32 m (p + 8),
     a_msg_type = load32 m (p + 12), a_flags = load32 m (p + 16), a_timestamp = load32 m (p + 20),
     a_data_size = load32 m (p + 24), a_data = bytes_at m (p + 28) 256\<rparr>"

text \<open>The part of a message that the kernel carries: the header and the bytes that count.\<close>

definition carried :: "abi_msg \<Rightarrow> message" where
  "carried a = \<lparr>m_id = a_msg_id a, m_sender = a_sender_pid a, m_receiver = a_receiver_pid a, m_type = a_msg_type a,
     m_flags = a_flags a, m_time = a_timestamp a, m_data = take (unat (a_data_size a)) (a_data a)\<rparr>"

lemma take_bytes_at: "n \<le> l \<Longrightarrow> take n (bytes_at m a l) = bytes_at m a n"
  by (simp add: bytes_at_def take_map min_def)

lemma bytes_at_length [simp]: "length (bytes_at m a n) = n"
  by (simp add: bytes_at_def)

lemma umsg_decode: "unat (msg_size m p) \<le> 256 \<Longrightarrow> umsg m p = carried (decode_msg m p)"
  by (simp add: umsg_def carried_def decode_msg_def msg_defs take_bytes_at)

lemma decode_size: "msg_size m p = a_data_size (decode_msg m p)"
  by (simp add: decode_msg_def msg_size_def)

lemma decode_unchanged:
  assumes "changed m m' \<inter> span p 284 = {}"
  shows "decode_msg m' p = decode_msg m p"
proof -
  have w: "load32 m' (p + j) = load32 m (p + j)" if "unat j + 4 \<le> 28" for j
    using assms span_sub[of j 4 284 p] that by (intro load32_unchanged) auto
  have "span (p + 28) 256 \<subseteq> span p 284" by (intro span_sub) simp_all
  then have "bytes_at m' (p + 28) 256 = bytes_at m (p + 28) 256" using assms by (intro bytes_at_unchanged) auto
  then show ?thesis using w[of 0] by (simp add: decode_msg_def w)
qed

section \<open>Calls in a trap frame\<close>

text \<open>
  The trap frame holds a call: its number in \<^verbatim>\<open>eax\<close> and the arguments in \<^verbatim>\<open>ebx\<close>, \<^verbatim>\<open>ecx\<close> and \<^verbatim>\<open>edx\<close>, where a message or
  a string is passed by its address.
\<close>

fun call_in :: "kernel \<Rightarrow> u32 \<Rightarrow> ucall \<Rightarrow> bool" where
  "call_in k frame (Plain n a b c) \<longleftrightarrow> frame_word k frame FRAME_EAX = n \<and> frame_word k frame FRAME_EBX = a \<and>
     frame_word k frame FRAME_ECX = b \<and> frame_word k frame FRAME_EDX = c"
| "call_in k frame (Message n pid m) \<longleftrightarrow> frame_word k frame FRAME_EAX = n \<and> frame_word k frame FRAME_EBX = pid \<and>
     decode_msg (kmem k) (frame_word k frame FRAME_ECX) = m"
| "call_in k frame (Receive n pid block) \<longleftrightarrow> frame_word k frame FRAME_EAX = n \<and> frame_word k frame FRAME_EBX = pid \<and>
     frame_word k frame FRAME_EDX = (if block then 1 else 0)"
| "call_in k frame (Text n s caps) \<longleftrightarrow> frame_word k frame FRAME_EAX = n \<and>
     c_string (kmem k) (frame_word k frame FRAME_EBX) = Some s \<and> frame_word k frame FRAME_ECX = caps"

text \<open>The message buffer of the caller.\<close>

definition buffer_of :: "kernel \<Rightarrow> u32 \<Rightarrow> u32" where
  "buffer_of k frame = frame_word k frame FRAME_ECX"

text \<open>The dispatcher's table is the one that \<^verbatim>\<open>syscall_init\<close> made.\<close>

definition table_ready :: "kernel \<Rightarrow> bool" where
  "table_ready k \<longleftrightarrow> (\<exists>k0. length (syscall_table k0) = 256 \<and> syscall_table k = syscall_table (syscall_init k0))"

text \<open>The word of the frame that takes the result lies in memory in use outside the mailboxes.\<close>

definition frame_ok :: "kernel \<Rightarrow> (nat \<Rightarrow> u32 list) \<Rightarrow> u32 \<Rightarrow> bool" where
  "frame_ok k f frame \<longleftrightarrow> (\<forall>a \<in> span (frame + FRAME_EAX) 4. user_page k f (pg a))"

definition finish_call :: "u32 \<Rightarrow> status_t \<Rightarrow> kernel \<Rightarrow> kernel" where
  "finish_call frame r k = set_mem (store32 (kmem k) (frame + FRAME_EAX) r) k"

lemma finish_simps [simp]:
  "frame_word (finish_call frame r k) frame FRAME_EAX = r" "k_sched (finish_call frame r k) = k_sched k"
  "syscall_table (finish_call frame r k) = syscall_table k" "message_queues (finish_call frame r k) = message_queues k"
  "kmem (finish_call frame r k) = store32 (kmem k) (frame + FRAME_EAX) r" "used (k_mm (finish_call frame r k)) = used (k_mm k)"
  "boxp (finish_call frame r k) f = boxp k f" "user_page (finish_call frame r k) f = user_page k f"
  by (simp_all add: finish_call_def frame_word_def set_mem_def kmem_def used_def boxp_def user_page_def fun_eq_iff)

lemma finish_inv:
  assumes inv: "ipc_inv k f" and fr: "frame_ok k f frame"
  shows "ipc_inv (finish_call frame r k) f" and "j < MAX_PROCESSES \<Longrightarrow> inbox (finish_call frame r k) f j = inbox k f j"
proof -
  have mm: "mm_inv (k_mm (finish_call frame r k))" using inv by (simp add: ipc_inv_def finish_call_def set_mem_def mm_inv_def used_def)
  have "boxp k f j \<subseteq> used (k_mm (finish_call frame r k)) \<and>
      (\<forall>a \<in> changed (kmem k) (kmem (finish_call frame r k)). pg a \<notin> boxp k f j)" if "j < MAX_PROCESSES" for j
    using ipc_invD(4)[OF inv that] fr that changed_store32[of "kmem k" "frame + FRAME_EAX" r]
    by (auto simp: frame_ok_def user_page_def)
  note O = ipc_inv_outside[OF inv _ mm this]
  show "ipc_inv (finish_call frame r k) f" by (rule O) simp_all
  show "inbox (finish_call frame r k) f j = inbox k f j" if "j < MAX_PROCESSES" by (rule O) (use that in simp_all)
qed

lemma frame_ok_kept: "(\<And>n. user_page k f n \<Longrightarrow> user_page k' f' n) \<Longrightarrow> frame_ok k f frame \<Longrightarrow> frame_ok k' f' frame"
  by (simp add: frame_ok_def)

text \<open>The trace of a call goes to the console and changes nothing else.\<close>

lemma trace_console: "\<exists>c. syscall_trace eax p k = k\<lparr>console := c\<rparr>"
  by (auto simp: syscall_trace_def print_def print_hex_def Let_def split: option.splits intro: exI[of _ "console k"])

lemma console_irrelevant:
  "ipc_inv (k\<lparr>console := c\<rparr>) f = ipc_inv k f" "inbox (k\<lparr>console := c\<rparr>) f = inbox k f" "kmem (k\<lparr>console := c\<rparr>) = kmem k"
  "user_page (k\<lparr>console := c\<rparr>) f = user_page k f" "user_buffer (k\<lparr>console := c\<rparr>) f b = user_buffer k f b"
  "frame_ok (k\<lparr>console := c\<rparr>) f b = frame_ok k f b"
  "current_of (k\<lparr>console := c\<rparr>) = current_of k" "pcb_of (k\<lparr>console := c\<rparr>) = pcb_of k"
  "current_pid (k\<lparr>console := c\<rparr>) = current_pid k" "sent_message (k\<lparr>console := c\<rparr>) = sent_message k"
  by (simp_all add: ipc_inv_def boxp_def kmem_def inbox_def user_buffer_def user_page_def frame_ok_def current_of_def pcb_of_def
      current_pid_def sent_message_def fun_eq_iff split: option.splits)

lemma dispatch_known:
  assumes "table_ready k" and "map_of syscall_entries (frame_word k frame FRAME_EAX) = Some h"
  obtains c where "syscall_dispatch frame k =
    obind (call_handler h (frame_word k frame FRAME_EBX) (frame_word k frame FRAME_ECX) (frame_word k frame FRAME_EDX) (k\<lparr>console := c\<rparr>))
      (\<lambda>r k'. Return () (finish_call frame r k'))"
  using assms dispatch_lookup[of _ k frame] trace_console[of "frame_word k frame FRAME_EAX" "current_of k" k]
  unfolding table_ready_def Let_def finish_call_def by auto

section \<open>Sending and receiving through the dispatcher\<close>

lemma send_entries:
  assumes "n = 0x20 \<or> n = 0x31"
  obtains h where "map_of syscall_entries n = Some h" "\<And>a b c k. call_handler h a b c k = ipc_send a b k"
  using assms that[of Sys_ipc_send] that[of Sys_driver_request]
  by (auto simp: syscall_entries_def sys_ipc_send_def sys_driver_request_def)

lemma receive_entry: "map_of syscall_entries 0x21 = Some Sys_ipc_receive"
  by (simp add: syscall_entries_def)

text \<open>The message that arrives: the sender's, with the header the kernel has filled in.\<close>

definition stamped :: "kernel \<Rightarrow> u32 \<Rightarrow> abi_msg \<Rightarrow> message" where
  "stamped k pid a = (carried a)\<lparr>m_id := next_msg_id k, m_sender := current_pid k, m_receiver := pid, m_time := 0\<rparr>"

lemma dispatch_send:
  assumes inv: "ipc_inv k f" and table: "table_ready k" and call: "call_in k frame (Message n pid a)" and n: "n = 0x20 \<or> n = 0x31"
    and fr: "frame_ok k f frame" "user_buffer k f (buffer_of k frame)" and a: "unat (a_data_size a) \<le> 256"
    and pid: "unat pid < MAX_PROCESSES" and room: "2 \<le> avail (k_mm k)"
    and rcv: "scheduler_find_process pid (k_sched k) = Some (Some r)" "p_state (pcb_of k r) \<noteq> PROCESS_BLOCKED"
  obtains k1 f1 where "syscall_dispatch frame k = Return () k1" "frame_word k1 frame FRAME_EAX = STATUS_SUCCESS" "ipc_inv k1 f1"
    "inbox k1 f1 (unat pid) = trim (inbox k f (unat pid)) @ [stamped k pid a]"
    "\<And>j. j < MAX_PROCESSES \<Longrightarrow> j \<noteq> unat pid \<Longrightarrow> inbox k1 f1 j = inbox k f j"
    "k_sched k1 = k_sched k" "syscall_table k1 = syscall_table k" "\<And>n. user_page k f n \<Longrightarrow> user_page k1 f1 n"
proof -
  obtain h where h: "map_of syscall_entries (frame_word k frame FRAME_EAX) = Some h" "\<And>a b c k. call_handler h a b c k = ipc_send a b k"
    using send_entries[OF n] call by auto
  obtain c where d: "syscall_dispatch frame k =
      obind (ipc_send pid (buffer_of k frame) (k\<lparr>console := c\<rparr>)) (\<lambda>r k'. Return () (finish_call frame r k'))"
    using dispatch_known[OF table h(1)] call unfolding h(2) buffer_of_def by auto
  have um: "decode_msg (kmem k) (buffer_of k frame) = a" using call by (simp add: buffer_of_def)
  have size: "unat (msg_size (kmem k) (buffer_of k frame)) \<le> 256" using a um by (simp add: decode_size)
  have msg: "sent_message k pid (buffer_of k frame) = stamped k pid a"
    using umsg_decode[OF size] um by (simp add: sent_message_def stamped_def)
  obtain k' p where k': "ipc_send pid (buffer_of k frame) (k\<lparr>console := c\<rparr>) = Return STATUS_SUCCESS k'"
    "ipc_inv k' (f(unat pid := trim (f (unat pid)) @ [p]))"
    "inbox k' (f(unat pid := trim (f (unat pid)) @ [p])) (unat pid) = trim (inbox k f (unat pid)) @ [stamped k pid a]"
    "\<And>j. j < MAX_PROCESSES \<Longrightarrow> j \<noteq> unat pid \<Longrightarrow> inbox k' (f(unat pid := trim (f (unat pid)) @ [p])) j = inbox k f j"
    "k_sched k' = k_sched k" "syscall_table k' = syscall_table k"
    "\<And>n. user_page k f n \<Longrightarrow> user_page k' (f(unat pid := trim (f (unat pid)) @ [p])) n"
    by (rule send_spec[of "k\<lparr>console := c\<rparr>" f pid "buffer_of k frame" r])
      (use inv pid fr(2) size room rcv msg in \<open>simp_all add: console_irrelevant\<close>)
  define f1 where "f1 = f(unat pid := trim (f (unat pid)) @ [p])"
  note k' = k'[folded f1_def]
  note F = finish_inv[OF k'(2) frame_ok_kept[OF k'(7) fr(1)], where r = STATUS_SUCCESS]
  show thesis
    by (rule that[of "finish_call frame STATUS_SUCCESS k'" f1]) (use d k' F pid in auto)
qed

lemma dispatch_receive:
  assumes inv: "ipc_inv k f" and table: "table_ready k" and call: "call_in k frame (Receive 0x21 sender block)"
    and fr: "frame_ok k f frame" "user_buffer k f (buffer_of k frame)"
      "span (frame + FRAME_EAX) 4 \<inter> span (buffer_of k frame) 284 = {}"
    and cur: "current_of k = Some r" "p_pid (pcb_of k r) = pid" "unat pid < MAX_PROCESSES"
    and msg: "find (accepts sender) (inbox k f (unat pid)) = Some msg" "length (m_data msg) \<le> 256"
  obtains k1 f1 where "syscall_dispatch frame k = Return () k1" "frame_word k1 frame FRAME_EAX = STATUS_SUCCESS" "ipc_inv k1 f1"
    "inbox k1 f1 (unat pid) = remove_first (accepts sender) (inbox k f (unat pid))"
    "carried (decode_msg (kmem k1) (buffer_of k frame)) = msg" "valid_msg (decode_msg (kmem k1) (buffer_of k frame))"
proof -
  define um where "um = buffer_of k frame"
  have edx: "frame_word k frame FRAME_EDX \<noteq> 0 \<longleftrightarrow> block" using call by auto
  obtain c where d: "syscall_dispatch frame k =
      obind (ipc_receive sender um block (k\<lparr>console := c\<rparr>)) (\<lambda>r k'. Return () (finish_call frame r k'))"
    using dispatch_known[OF table, of frame Sys_ipc_receive] call receive_entry edx
    by (auto simp: sys_ipc_receive_def um_def buffer_of_def)
  let ?k = "k\<lparr>console := c\<rparr>"
  obtain k' f' where k': "ipc_receive sender um block ?k = Return STATUS_SUCCESS k'" "umsg (kmem k') um = msg" "ipc_inv k' f'"
    "inbox k' f' (unat pid) = remove_first (accepts sender) (inbox k f (unat pid))" "\<And>n. user_page k f n \<Longrightarrow> user_page k' f' n"
    by (rule receive_spec[of ?k f r um sender msg block])
      (use inv cur fr(2) msg in \<open>simp_all add: console_irrelevant um_def\<close>)
  have size: "unat (msg_size (kmem k') um) \<le> 256"
    using msg(2) arg_cong[OF k'(2), of "\<lambda>x. length (m_data x)"] by (simp add: umsg_def)
  have keep: "decode_msg (kmem (finish_call frame STATUS_SUCCESS k')) um = decode_msg (kmem k') um"
    by (rule decode_unchanged) (use fr(3) changed_store32[of "kmem k'" "frame + FRAME_EAX" STATUS_SUCCESS] in \<open>auto simp: um_def\<close>)
  have "carried (decode_msg (kmem k') um) = msg" using umsg_decode[OF size] k'(2) by simp
  moreover have "valid_msg (decode_msg (kmem k') um)" using size by (simp add: valid_msg_def decode_size) (simp add: decode_msg_def)
  moreover note finish_inv[OF k'(3) frame_ok_kept[OF k'(5) fr(1)], where r = STATUS_SUCCESS]
  ultimately show thesis
    by (intro that[of "finish_call frame STATUS_SUCCESS k'" f']) (use d k' keep cur(3) in \<open>auto simp: um_def\<close>)
qed

text \<open>
  What may happen between two calls that concern a mailbox: any change of the rest of the kernel that leaves the message queues, and the
  pages they are in, alone.
\<close>

definition undisturbed :: "kernel \<Rightarrow> (nat \<Rightarrow> u32 list) \<Rightarrow> kernel \<Rightarrow> bool" where
  "undisturbed k f k' \<longleftrightarrow> message_queues k' = message_queues k \<and> syscall_table k' = syscall_table k \<and> mm_inv (k_mm k') \<and>
     (\<forall>j < MAX_PROCESSES. boxp k f j \<subseteq> used (k_mm k') \<and> (\<forall>a \<in> changed (kmem k) (kmem k'). pg a \<notin> boxp k f j))"

lemma undisturbed_inv:
  assumes "ipc_inv k f" "undisturbed k f k'"
  shows "ipc_inv k' f" and "j < MAX_PROCESSES \<Longrightarrow> inbox k' f j = inbox k f j"
  by (rule ipc_inv_outside[OF assms(1)]; use assms(2) in \<open>simp add: undisturbed_def\<close>)+

section \<open>From a buffer to a buffer\<close>

text \<open>The current process makes the sending call \<open>c\<close>: its frame and its message are in place.\<close>

fun sends :: "kernel \<Rightarrow> (nat \<Rightarrow> u32 list) \<Rightarrow> u32 \<Rightarrow> ucall \<Rightarrow> bool" where
  "sends k f frame (Message n pid a) \<longleftrightarrow> call_in k frame (Message n pid a) \<and> (n = 0x20 \<or> n = 0x31) \<and> frame_ok k f frame \<and>
     user_buffer k f (buffer_of k frame) \<and> unat (a_data_size a) \<le> 256 \<and> unat pid < MAX_PROCESSES"
| "sends k f frame _ \<longleftrightarrow> False"

text \<open>
  Whom a send finds: with the process \<open>c\<close> running and \<open>xs\<close> waiting in the ready queue, the processes of \<open>c # xs\<close> and no other. A
  process that is blocked in a receive is in neither place.
\<close>

definition reached_pids :: "kernel \<Rightarrow> nat list \<Rightarrow> u32 set" where
  "reached_pids k ps = (\<lambda>p. p_pid (pcb_of k p)) ` set ps"

lemma lookup_result:
  assumes "rr_state (k_sched k) (c # xs)"
  shows "pid \<in> reached_pids k (c # xs) \<Longrightarrow> \<exists>r. scheduler_find_process pid (k_sched k) = Some (Some r) \<and> p_state (pcb_of k r) \<noteq> PROCESS_BLOCKED"
    and "pid \<notin> reached_pids k (c # xs) \<Longrightarrow> scheduler_find_process pid (k_sched k) = Some None"
proof -
  have inv: "sched_inv (k_sched k) xs" and cur: "current_process (k_sched k) = Some c" "p_state (pcb_of k c) = PROCESS_RUNNING"
    using assms by (auto simp: rr_state_def current_running_def pcb_of_def)
  have st: "p_state (pcb_of k q) \<noteq> PROCESS_BLOCKED" if "q \<in> set (c # xs)" for q
    using that inv cur(2) by (auto simp: sched_inv_def pcb_of_def)
  have f: "scheduler_find_process pid (k_sched k) = Some (find (\<lambda>p. p_pid (pcb_of k p) = pid) (c # xs))"
    using find_process_spec[OF inv, of pid] cur(1) by (simp add: pcb_of_def)
  show "\<exists>r. scheduler_find_process pid (k_sched k) = Some (Some r) \<and> p_state (pcb_of k r) \<noteq> PROCESS_BLOCKED" if "pid \<in> reached_pids k (c # xs)"
  proof (cases "find (\<lambda>p. p_pid (pcb_of k p) = pid) (c # xs)")
    case None
    then show ?thesis using that unfolding find_None_iff reached_pids_def by blast
  next
    case (Some r)
    then have "r \<in> set (c # xs)" unfolding find_Some_iff by (metis nth_mem)
    then show ?thesis using st f Some by auto
  qed
  show "scheduler_find_process pid (k_sched k) = Some None" if "pid \<notin> reached_pids k (c # xs)"
    using that f by (simp add: reached_pids_def find_None_iff image_iff split: if_splits) metis
qed

lemma send_not_found:
  assumes inv: "ipc_inv k f" and table: "table_ready k" and snd: "sends k f frame (Message n pid a)"
    and lost: "scheduler_find_process pid (k_sched k) = Some None"
  obtains k1 where "syscall_dispatch frame k = Return () k1" "frame_word k1 frame FRAME_EAX = STATUS_NOT_FOUND" "ipc_inv k1 f"
    "\<And>j. j < MAX_PROCESSES \<Longrightarrow> inbox k1 f j = inbox k f j" "k_sched k1 = k_sched k"
proof -
  have S: "call_in k frame (Message n pid a)" "n = 0x20 \<or> n = 0x31" "frame_ok k f frame" "user_buffer k f (buffer_of k frame)"
    using snd by auto
  obtain h where h: "map_of syscall_entries (frame_word k frame FRAME_EAX) = Some h" "\<And>a b c k. call_handler h a b c k = ipc_send a b k"
    using send_entries[OF S(2)] S(1) by auto
  obtain c where d: "syscall_dispatch frame k =
      obind (ipc_send pid (buffer_of k frame) (k\<lparr>console := c\<rparr>)) (\<lambda>r k'. Return () (finish_call frame r k'))"
    using dispatch_known[OF table h(1)] S(1) unfolding h(2) buffer_of_def by auto
  have "ipc_send pid (buffer_of k frame) (k\<lparr>console := c\<rparr>) = Return STATUS_NOT_FOUND (k\<lparr>console := c\<rparr>)"
    using lost S(4) by (simp add: ipc_send_def find_process_def user_buffer_def)
  moreover have "ipc_inv (k\<lparr>console := c\<rparr>) f" "frame_ok (k\<lparr>console := c\<rparr>) f frame" using inv S(3) by (simp_all add: console_irrelevant)
  note F = finish_inv[OF this, where r = STATUS_NOT_FOUND]
  ultimately show thesis
    by (intro that[of "finish_call frame STATUS_NOT_FOUND (k\<lparr>console := c\<rparr>)"]) (use d F in \<open>simp_all add: console_irrelevant\<close>)
qed

text \<open>The process \<open>pid\<close> is the current one and makes the receiving call.\<close>

definition receives :: "kernel \<Rightarrow> (nat \<Rightarrow> u32 list) \<Rightarrow> u32 \<Rightarrow> u32 \<Rightarrow> u32 \<Rightarrow> bool \<Rightarrow> bool" where
  "receives k f frame pid sender block \<longleftrightarrow> call_in k frame (Receive 0x21 sender block) \<and> frame_ok k f frame \<and>
     user_buffer k f (buffer_of k frame) \<and> span (frame + FRAME_EAX) 4 \<inter> span (buffer_of k frame) 284 = {} \<and>
     (\<exists>r. current_of k = Some r \<and> p_pid (pcb_of k r) = pid)"

text \<open>What the receiver finds in its buffer when the call has returned.\<close>

definition delivers :: "kernel \<Rightarrow> u32 \<Rightarrow> message \<Rightarrow> kernel \<Rightarrow> bool" where
  "delivers k2 frame msg k3 \<longleftrightarrow> syscall_dispatch frame k2 = Return () k3 \<and> frame_word k3 frame FRAME_EAX = STATUS_SUCCESS \<and>
     valid_msg (decode_msg (kmem k3) (buffer_of k2 frame)) \<and> carried (decode_msg (kmem k3) (buffer_of k2 frame)) = msg"

lemma message_delivered:
  assumes inv: "ipc_inv k f" and table: "table_ready k" and snd: "sends k f frame (Message n pid a)" and len: "length (a_data a) = 256"
    and empty: "inbox k f (unat pid) = []" and room: "2 \<le> avail (k_mm k)"
    and r: "scheduler_find_process pid (k_sched k) = Some (Some r)" "p_state (pcb_of k r) \<noteq> PROCESS_BLOCKED"
  obtains k1 f1 where "syscall_dispatch frame k = Return () k1" "frame_word k1 frame FRAME_EAX = STATUS_SUCCESS" "ipc_inv k1 f1"
    "\<And>n. user_page k f n \<Longrightarrow> user_page k1 f1 n" "syscall_table k1 = syscall_table k"
    "\<And>k2 frame2 sender block. undisturbed k1 f1 k2 \<Longrightarrow> receives k2 f1 frame2 pid sender block \<Longrightarrow>
       sender = 0 \<or> sender = current_pid k \<Longrightarrow> \<exists>k3. delivers k2 frame2 (stamped k pid a) k3"
proof -
  have S: "call_in k frame (Message n pid a)" "n = 0x20 \<or> n = 0x31" "frame_ok k f frame" "user_buffer k f (buffer_of k frame)"
    "unat (a_data_size a) \<le> 256" "unat pid < MAX_PROCESSES" using snd by auto
  obtain k1 f1 where k1: "syscall_dispatch frame k = Return () k1" "frame_word k1 frame FRAME_EAX = STATUS_SUCCESS" "ipc_inv k1 f1"
    "inbox k1 f1 (unat pid) = trim (inbox k f (unat pid)) @ [stamped k pid a]" "syscall_table k1 = syscall_table k"
    "\<And>n. user_page k f n \<Longrightarrow> user_page k1 f1 n" by (rule dispatch_send[OF inv table S room r]) blast
  have rec: "\<exists>k3. delivers k2 frame2 (stamped k pid a) k3"
    if u: "undisturbed k1 f1 k2" and rc: "receives k2 f1 frame2 pid sender block" and who: "sender = 0 \<or> sender = current_pid k"
    for k2 frame2 sender block
  proof -
    obtain c where R: "call_in k2 frame2 (Receive 0x21 sender block)" "frame_ok k2 f1 frame2" "user_buffer k2 f1 (buffer_of k2 frame2)"
      "span (frame2 + FRAME_EAX) 4 \<inter> span (buffer_of k2 frame2) 284 = {}" "current_of k2 = Some c" "p_pid (pcb_of k2 c) = pid"
      using rc unfolding receives_def by blast
    have tb: "table_ready k2" using table u k1(5) by (simp add: table_ready_def undisturbed_def)
    have "inbox k2 f1 (unat pid) = [stamped k pid a]" using undisturbed_inv(2)[OF k1(3) u S(6)] k1(4) empty by (simp add: trim_def)
    then have fd: "find (accepts sender) (inbox k2 f1 (unat pid)) = Some (stamped k pid a)"
      using who by (auto simp: accepts_def stamped_def)
    have ln: "length (m_data (stamped k pid a)) \<le> 256" using len by (simp add: stamped_def carried_def)
    from dispatch_receive[OF undisturbed_inv(1)[OF k1(3) u] tb R S(6) fd ln] show ?thesis unfolding delivers_def by blast
  qed
  show thesis by (rule that[OF k1(1-3,6,5) rec])
qed

section \<open>A concrete exchange\<close>

text \<open>The message of a print.\<close>

definition print_msg :: "string \<Rightarrow> abi_msg" where
  "print_msg str = empty_msg\<lparr>a_msg_type := DRIVER_MSG_WRITE, a_data_size := of_nat (length str) + 1, a_data := text_data str\<rparr>"

lemma print_size:
  assumes "length str < 256"
  shows "unat (a_data_size (print_msg str)) = length str + 1" "length (a_data (print_msg str)) = 256"
  using assms by (simp_all add: print_msg_def text_data_def unat_word_ariths unat_of_nat32)

text \<open>A program that prints two characters: its message at 16 and its frame at 0x400, both in the page in use.\<close>

definition print_kernel :: kernel where
  "print_kernel = demo_kernel\<lparr>k_mm := demo_mm\<lparr>mem := (\<lambda>_. 0)(28 := 2, 40 := 3, 44 := 72, 45 := 105, 0x420 := 3, 0x428 := 16, 0x42C := 0x20)\<rparr>,
     syscall_table := syscall_table (syscall_init demo_kernel)\<rparr>"

lemma print_kernel_used: "used (k_mm print_kernel) = {0}" "mm_inv (k_mm print_kernel)" "avail (k_mm print_kernel) = avail demo_mm"
  using used_demo demo_ipc_inv by (simp_all add: print_kernel_def used_def mm_inv_def avail_def ipc_inv_def)

lemma print_kernel_queues: "message_queues print_kernel = message_queues demo_kernel"
  by (simp add: print_kernel_def)

lemma print_kernel_user: "user_page print_kernel (\<lambda>_. []) 0"
  using demo_queue(1) by (simp add: user_page_def print_kernel_used boxp_def print_kernel_queues box_pages_def)

lemma page_zero:
  assumes "unat i + n \<le> 4096" "a \<in> span i n"
  shows "pg a = 0"
  using span_page[of 0 i n] assms by (auto simp: page_aligned_def pg_def)

lemma print_data: "bytes_at (kmem print_kernel) 44 256 = text_data ''Hi''"
proof (rule nth_equalityI)
  fix i
  assume "i < length (bytes_at (kmem print_kernel) 44 256)"
  then have i: "i < 256" by simp
  then have "unat (of_nat i :: u32) = i" by (simp add: unat_of_nat32)
  then have eq: "(of_nat i :: u32) = x \<longleftrightarrow> i = unat x" for x by (metis word_unat_eq_iff)
  have "unat (4 + of_nat i :: u32) = 4 + i" "unat (16 + of_nat i :: u32) = 16 + i" using i by (simp_all add: unat_word_ariths unat_of_nat32)
  then have "4 + of_nat i \<noteq> (0 :: u32)" "16 + of_nat i \<noteq> (0 :: u32)" by auto
  then have "kmem print_kernel (44 + of_nat i) = (if i = 0 then 72 else if i = 1 then 105 else 0)"
    using i by (simp add: print_kernel_def kmem_def eq)
  then show "bytes_at (kmem print_kernel) 44 256 ! i = text_data ''Hi'' ! i"
    using i by (auto simp: bytes_at_def text_data_def nth_Cons')
qed (simp add: text_data_def)

lemma print_kernel_sends: "sends print_kernel (\<lambda>_. []) 0x400 (Message 0x20 3 (print_msg ''Hi''))"
proof -
  have w: "frame_word print_kernel 0x400 FRAME_EAX = 0x20" "frame_word print_kernel 0x400 FRAME_EBX = 3"
    "frame_word print_kernel 0x400 FRAME_ECX = 16"
    by (simp_all add: frame_word_def print_kernel_def kmem_def load32_def)
  have "decode_msg (kmem print_kernel) 16 = print_msg ''Hi''"
    using print_data by (simp add: decode_msg_def print_msg_def empty_msg_def) (simp add: print_kernel_def kmem_def load32_def)
  moreover have "frame_ok print_kernel (\<lambda>_. []) 0x400" using page_zero[of "0x42C" 4] print_kernel_user by (simp add: frame_ok_def)
  moreover have "user_buffer print_kernel (\<lambda>_. []) 16" using page_zero[of 16 284] print_kernel_user by (simp add: user_buffer_def)
  ultimately show ?thesis
    using w print_size(1)[of "''Hi''"] by (auto simp: buffer_of_def MAX_PROCESSES_def)
qed

lemma print_kernel_ready:
  "2 \<le> avail (k_mm print_kernel)" "rr_state (k_sched print_kernel) [0, 1, 2]" "3 \<in> reached_pids print_kernel [0, 1, 2]"
  using demo_avail demo_rr_state by (simp_all add: print_kernel_used)
    (simp_all add: print_kernel_def reached_pids_def pcb_of_def demo_sched_def)

text \<open>The same program while the console driver, process 3, is blocked in its receive.\<close>

definition print_kernel_blocked :: kernel where
  "print_kernel_blocked = print_kernel\<lparr>k_sched := demo_sched
     \<lparr>pcbs := (pcbs demo_sched)(1 := (pcbs demo_sched 1)\<lparr>p_next := None\<rparr>,
        2 := (pcbs demo_sched 2)\<lparr>p_prev := None, p_state := PROCESS_BLOCKED\<rparr>), ready_queue_tail := Some 1\<rparr>\<rparr>"

lemma print_kernel_blocked_ready:
  "rr_state (k_sched print_kernel_blocked) [0, 1]" "3 \<notin> reached_pids print_kernel_blocked [0, 1]"
  by (auto simp: print_kernel_blocked_def rr_state_def current_running_def sched_inv_def queue_rep_def reached_pids_def pcb_of_def
      demo_sched_def zero_pcb_def split: if_splits)

text \<open>The state in which the console driver asks for a message: it is the current process, with its frame at 0x800 and its buffer at 0x200.\<close>

definition driver_turn :: "kernel \<Rightarrow> kernel" where
  "driver_turn k = (set_mem (store32 (store32 (store32 (store32 (kmem k) 0x820 0) 0x828 0x200) 0x82C 0x21) 0x824 1) k)
     \<lparr>k_sched := demo_sched\<lparr>current_process := Some 2\<rparr>\<rparr>"

lemma driver_turn_simps:
  "message_queues (driver_turn k) = message_queues k" "syscall_table (driver_turn k) = syscall_table k"
  "used (k_mm (driver_turn k)) = used (k_mm k)" "boxp (driver_turn k) f = boxp k f" "user_page (driver_turn k) f = user_page k f"
  "mm_inv (k_mm (driver_turn k)) = mm_inv (k_mm k)"
  "kmem (driver_turn k) = store32 (store32 (store32 (store32 (kmem k) 0x820 0) 0x828 0x200) 0x82C 0x21) 0x824 1"
  by (simp_all add: driver_turn_def set_mem_def used_def boxp_def user_page_def mm_inv_def kmem_def fun_eq_iff)

lemma driver_turn_changed: "a \<in> changed (kmem k) (kmem (driver_turn k)) \<Longrightarrow> pg a = 0"
proof -
  have "changed (kmem k) (kmem (driver_turn k)) \<subseteq> span 0x820 16" unfolding driver_turn_simps
    using span_sub[of 0 4 16 "0x820"] span_sub[of 4 4 16 "0x820"] span_sub[of 8 4 16 "0x820"] span_sub[of 12 4 16 "0x820"]
    by (intro changed_store32D) simp_all
  then show "a \<in> changed (kmem k) (kmem (driver_turn k)) \<Longrightarrow> pg a = 0" using page_zero[of "0x820" 16] by auto
qed

lemma driver_turn_undisturbed:
  assumes "ipc_inv k f" "user_page k f 0"
  shows "undisturbed k f (driver_turn k)"
  using assms ipc_invD(4)[OF assms(1)] driver_turn_changed[of _ k]
  by (auto simp: undisturbed_def driver_turn_simps user_page_def ipc_inv_def)

lemma driver_turn_receives:
  assumes "user_page k f 0"
  shows "receives (driver_turn k) f 0x800 3 0 True"
proof -
  have al: "aligned4 0x820" "aligned4 0x824" "aligned4 0x828" "aligned4 0x82C" by (simp_all add: aligned4_def)
  have w: "frame_word (driver_turn k) 0x800 FRAME_EAX = 0x21" "frame_word (driver_turn k) 0x800 FRAME_EBX = 0"
    "frame_word (driver_turn k) 0x800 FRAME_ECX = 0x200" "frame_word (driver_turn k) 0x800 FRAME_EDX = 1"
    by (simp_all add: frame_word_def driver_turn_simps load32_store32_aligned al)
  have "frame_ok (driver_turn k) f 0x800" using page_zero[of "0x82C" 4] assms by (simp add: frame_ok_def driver_turn_simps)
  moreover have "user_buffer (driver_turn k) f 0x200" using page_zero[of "0x200" 284] assms by (simp add: user_buffer_def driver_turn_simps)
  moreover have "span 0x82C 4 \<inter> span 0x200 284 = {}" using span_disjoint[of 0 284 "0x62C" 4 "0x200"] by auto
  moreover have "\<exists>r. current_of (driver_turn k) = Some r \<and> p_pid (pcb_of (driver_turn k) r) = 3"
    by (simp add: current_of_def driver_turn_def scheduler_get_current_def pcb_of_def demo_sched_def)
  ultimately show ?thesis using w by (simp add: receives_def buffer_of_def)
qed

lemma print_kernel_inv: "ipc_inv print_kernel (\<lambda>_. [])" "table_ready print_kernel" "inbox print_kernel (\<lambda>_. []) i = []"
proof -
  show "ipc_inv print_kernel (\<lambda>_. [])" unfolding ipc_inv_def boxp_def print_kernel_queues
    using demo_queue print_kernel_used by (auto simp: box_ok_def box_pages_def)
  show "table_ready print_kernel" unfolding table_ready_def
    by (rule exI[of _ demo_kernel]) (simp add: print_kernel_def, simp add: demo_kernel_def)
qed (simp add: inbox_def)

lemma sched_irrelevant:
  "ipc_inv (k\<lparr>k_sched := s\<rparr>) f = ipc_inv k f" "inbox (k\<lparr>k_sched := s\<rparr>) f j = inbox k f j"
  "table_ready (k\<lparr>k_sched := s\<rparr>) = table_ready k" "sends (k\<lparr>k_sched := s\<rparr>) f frame (Message n pid a) = sends k f frame (Message n pid a)"
  by (simp_all add: ipc_inv_def boxp_def kmem_def inbox_def user_buffer_def user_page_def frame_ok_def table_ready_def frame_word_def buffer_of_def)

lemma print_kernel_blocked_inv:
  "ipc_inv print_kernel_blocked (\<lambda>_. [])" "table_ready print_kernel_blocked" "inbox print_kernel_blocked (\<lambda>_. []) i = []"
  "sends print_kernel_blocked (\<lambda>_. []) 0x400 (Message 0x20 3 (print_msg ''Hi''))" "2 \<le> avail (k_mm print_kernel_blocked)"
  unfolding print_kernel_blocked_def sched_irrelevant
  using print_kernel_inv print_kernel_sends print_kernel_ready(1) by simp_all

section \<open>Properties\<close>



end
