(* ===== verification/Keyboard.thy ===== *)
theory Keyboard
  imports Userspace
begin

text \<open>
  The keyboard driver, \<^verbatim>\<open>drivers/keyboard.c\<close>: scan codes arrive as messages, characters of the serial line by polling, both go
  through a ring of 256 bytes, and a read request takes one out. The ring is shown to be a queue of at most 255 characters that drops
  the oldest when it is full, and the driver a machine over that queue.
\<close>

section \<open>The driver\<close>

record keyboard =
  keyboard_initialized :: bool
  shift_pressed :: bool
  ctrl_pressed :: bool
  alt_pressed :: bool
  keyboard_buffer :: "u8 list"
  keyboard_head :: u32
  keyboard_tail :: u32
  k_manager :: manager
  k_env :: env

definition keypad_rows :: "u8 list" where
  "keypad_rows = 0 # 42 # 0 # 32 # replicate 16 0 @ [45, 0, 0, 0, 43] @ replicate 11 0"

text \<open>Both tables give fewer than 128 values; the rest of each array is 0.\<close>

definition scancode_to_ascii :: "u8 list" where
  "scancode_to_ascii =
     map of_char (CHR 0x00 # CHR 0x1B # ''1234567890-='' @ [CHR 0x08, CHR 0x09] @ ''qwertyuiop[]'' @ [CHR 0x0A, CHR 0x00] @
       ''asdfghjkl;'' @ [CHR 0x27, CHR 0x60, CHR 0x00, CHR 0x5C] @ ''zxcvbnm,./'') @ keypad_rows @ replicate 38 0"

definition scancode_to_ascii_shift :: "u8 list" where
  "scancode_to_ascii_shift =
     map of_char (CHR 0x00 # CHR 0x1B # ''!@#$%^&*()_+'' @ [CHR 0x08, CHR 0x09] @ ''QWERTYUIOP{}'' @ [CHR 0x0A, CHR 0x00] @
       ''ASDFGHJKL:'' @ [CHR 0x22, CHR 0x7E, CHR 0x00, CHR 0x7C] @ ''ZXCVBNM<>?'') @ keypad_rows @ replicate 38 0"

definition scancode_to_ascii_convert :: "u8 \<Rightarrow> keyboard \<Rightarrow> u8" where
  "scancode_to_ascii_convert scancode s =
     (if scancode \<ge> 128 then 0
      else if shift_pressed s then scancode_to_ascii_shift ! unat scancode else scancode_to_ascii ! unat scancode)"

text \<open>The three statements that store a character, the same in both places.\<close>

definition keyboard_put :: "u8 \<Rightarrow> keyboard \<Rightarrow> keyboard" where
  "keyboard_put c s =
     (let s = s\<lparr>keyboard_buffer := (keyboard_buffer s)[unat (keyboard_head s) := c], keyboard_head := (keyboard_head s + 1) mod 256\<rparr>
      in if keyboard_head s = keyboard_tail s then s\<lparr>keyboard_tail := (keyboard_tail s + 1) mod 256\<rparr> else s)"

definition keyboard_handle_scancode :: "u8 \<Rightarrow> keyboard \<Rightarrow> keyboard" where
  "keyboard_handle_scancode scancode s =
     (if scancode AND 0x80 \<noteq> 0 then
        (let scancode = scancode AND 0x7F;
             s = (if scancode = 0x2A \<or> scancode = 0x36 then s\<lparr>shift_pressed := False\<rparr> else s);
             s = (if scancode = 0x1D then s\<lparr>ctrl_pressed := False\<rparr> else s)
         in if scancode = 0x38 then s\<lparr>alt_pressed := False\<rparr> else s)
      else if scancode = 0x2A \<or> scancode = 0x36 then s\<lparr>shift_pressed := True\<rparr>
      else if scancode = 0x1D then s\<lparr>ctrl_pressed := True\<rparr>
      else if scancode = 0x38 then s\<lparr>alt_pressed := True\<rparr>
      else (let ascii = scancode_to_ascii_convert scancode s in if ascii \<noteq> 0 then keyboard_put ascii s else s))"

definition keyboard_driver :: driver_interface where
  "keyboard_driver = \<lparr>d_name = ''keyboard'', d_driver_id = 2, d_capabilities = 0x01, d_has_shutdown = False\<rparr>"

definition keyboard_driver_init :: "keyboard \<Rightarrow> status_t \<times> keyboard" where
  "keyboard_driver_init s =
     (if keyboard_initialized s then (STATUS_SUCCESS, s)
      else (STATUS_SUCCESS, s\<lparr>keyboard_head := 0, keyboard_tail := 0, shift_pressed := False, ctrl_pressed := False,
        alt_pressed := False, k_manager := snd (driver_register (Some keyboard_driver) (k_manager s)),
        k_env := snd (driver_register_wrapper (d_name keyboard_driver) (d_capabilities keyboard_driver) (k_env s)),
        keyboard_initialized := True\<rparr>))"

definition keyboard_driver_shutdown :: "keyboard \<Rightarrow> status_t \<times> keyboard" where
  "keyboard_driver_shutdown s =
     (if \<not> keyboard_initialized s then (STATUS_SUCCESS, s)
      else (STATUS_SUCCESS, s\<lparr>k_manager := snd (driver_unregister (d_driver_id keyboard_driver) (k_manager s)),
        keyboard_initialized := False\<rparr>))"

definition byte_response :: "u8 \<Rightarrow> abi_msg" where
  "byte_response c = empty_msg\<lparr>a_msg_type := DRIVER_MSG_READ, a_data_size := 1, a_data := (a_data empty_msg)[0 := c]\<rparr>"

definition keyboard_driver_handle_message :: "abi_msg option \<Rightarrow> keyboard \<Rightarrow> status_t \<times> keyboard" where
  "keyboard_driver_handle_message msg s = (case msg of
     None \<Rightarrow> (STATUS_INVALID_PARAM, s)
   | Some m \<Rightarrow>
       if \<not> keyboard_initialized s then (STATUS_INVALID_PARAM, s)
       else if a_msg_type m = MSG_DRIVER then
         (STATUS_SUCCESS, if a_data_size m \<ge> 1 then keyboard_handle_scancode (a_data m ! 0) s else s)
       else if a_msg_type m = DRIVER_MSG_READ then
         (STATUS_SUCCESS,
          if keyboard_head s \<noteq> keyboard_tail s then
            (let ascii = keyboard_buffer s ! unat (keyboard_tail s);
                 s = s\<lparr>keyboard_tail := (keyboard_tail s + 1) mod 256\<rparr>
             in s\<lparr>k_env := snd (ipc_send_call (a_sender_pid m) (byte_response ascii) (k_env s))\<rparr>)
          else s)
       else (STATUS_INVALID_PARAM, s))"

text \<open>The two halves of the loop's body in \<^verbatim>\<open>main\<close>; the buffer of the receive outlives an iteration.\<close>

definition keyboard_poll :: "keyboard \<Rightarrow> keyboard" where
  "keyboard_poll s =
     (let (lsr, io) = hal_inb 0x3FD (e_io (k_env s)); s = s\<lparr>k_env := k_env s\<lparr>e_io := io\<rparr>\<rparr>
      in if lsr AND 0x01 \<noteq> 0 then
           (let (c, io) = hal_inb 0x3F8 (e_io (k_env s));
                c = (if c = 13 then 10 else c)
            in keyboard_put c (s\<lparr>k_env := k_env s\<lparr>e_io := io\<rparr>\<rparr>))
         else s)"

definition keyboard_serve :: "abi_msg \<times> keyboard \<Rightarrow> abi_msg \<times> keyboard" where
  "keyboard_serve = (\<lambda>(buf, s).
     let ((r, buf), e) = ipc_receive_call 0 buf False (k_env s); s = s\<lparr>k_env := e\<rparr>
     in (buf, if r = STATUS_SUCCESS then snd (keyboard_driver_handle_message (Some buf) s)
              else s\<lparr>k_env := process_yield_call (k_env s)\<rparr>))"

definition keyboard_main_step :: "abi_msg \<times> keyboard \<Rightarrow> abi_msg \<times> keyboard" where
  "keyboard_main_step = (\<lambda>(buf, s). keyboard_serve (buf, keyboard_poll s))"

definition keyboard_main :: "nat \<Rightarrow> abi_msg \<Rightarrow> keyboard \<Rightarrow> (abi_msg \<times> keyboard) main_run" where
  "keyboard_main n buf s =
     (let (r, s) = keyboard_driver_init s
      in if r \<noteq> STATUS_SUCCESS then Exits 1 (buf, s) else Loops ((keyboard_main_step ^^ n) (buf, s)))"

definition keyboard_start :: "nat \<Rightarrow> nat \<Rightarrow> abi_msg \<Rightarrow> keyboard \<Rightarrow> abi_msg \<times> keyboard" where
  "keyboard_start n j buf s =
     start_program (\<lambda>(buf, s). (buf, s\<lparr>k_env := process_yield_call (k_env s)\<rparr>)) j (keyboard_main n buf s)"

section \<open>The ring\<close>

text \<open>The characters waiting, the oldest first.\<close>

definition kb_contents :: "keyboard \<Rightarrow> u8 list" where
  "kb_contents s = map (\<lambda>i. keyboard_buffer s ! ((unat (keyboard_tail s) + i) mod 256))
     [0..<(unat (keyboard_head s) + 256 - unat (keyboard_tail s)) mod 256]"

definition kb_inv :: "keyboard \<Rightarrow> bool" where
  "kb_inv s \<longleftrightarrow> length (keyboard_buffer s) = 256 \<and> unat (keyboard_head s) < 256 \<and> unat (keyboard_tail s) < 256"

definition push_bounded :: "u8 \<Rightarrow> u8 list \<Rightarrow> u8 list" where
  "push_bounded c q = (if length q = 255 then tl q @ [c] else q @ [c])"

lemma scancode_tables: "length scancode_to_ascii = 128" "length scancode_to_ascii_shift = 128"
  by (simp_all add: scancode_to_ascii_def scancode_to_ascii_shift_def keypad_rows_def)

lemma unat_succ_mod256: "unat ((w + 1 :: u32) mod 256) = (unat w + 1) mod 256"
proof -
  have "unat (w + 1) mod 256 = (unat w + 1) mod 4294967296 mod 256" by (simp add: unat_word_ariths)
  also have "\<dots> = (unat w + 1) mod 256" by (rule mod_mod_cancel) simp
  finally show ?thesis by (simp add: unat_mod)
qed

lemma mod256: "a < 512 \<Longrightarrow> a mod 256 = (if a < 256 then a else a - 256)" for a :: nat
  by (simp add: mod_if)

text \<open>The ring over natural numbers: \<open>n\<close> characters from position \<open>t\<close> on.\<close>

definition ring :: "u8 list \<Rightarrow> nat \<Rightarrow> nat \<Rightarrow> u8 list" where
  "ring b t n = map (\<lambda>i. b ! ((t + i) mod 256)) [0..<n]"

lemma ring_length [simp]: "length (ring b t n) = n"
  by (simp add: ring_def)

lemma ring_pop: "ring b t (Suc n) = b ! (t mod 256) # ring b ((t + 1) mod 256) n"
proof -
  have "(Suc t mod 256 + i) mod 256 = (t + Suc i) mod 256" for i by (simp add: mod_simps)
  then show ?thesis by (simp add: ring_def map_upt_Suc del: upt_Suc)
qed

lemma ring_push:
  assumes "length b = 256" "n < 256"
  shows "ring (b[(t + n) mod 256 := c]) t (Suc n) = ring b t n @ [c]"
proof -
  have "(t + i) mod 256 \<noteq> (t + n) mod 256" if "i < n" for i
  proof
    assume "(t + i) mod 256 = (t + n) mod 256"
    then have "256 dvd (t + n) - (t + i)" using that by (metis add_le_cancel_left less_or_eq_imp_le mod_eq_dvd_iff_nat)
    then show False using that assms(2) by (auto dest: dvd_imp_le)
  qed
  then have "b[(t + n) mod 256 := c] ! ((t + i) mod 256) = b ! ((t + i) mod 256)" if "i < n" for i
    using that by (metis nth_list_update_neq)
  then show ?thesis using assms by (simp add: ring_def)
qed

definition kb_waiting :: "keyboard \<Rightarrow> nat" where
  "kb_waiting s = (unat (keyboard_head s) + 256 - unat (keyboard_tail s)) mod 256"

lemma kb_contents_ring: "kb_contents s = ring (keyboard_buffer s) (unat (keyboard_tail s)) (kb_waiting s)"
  by (simp add: kb_contents_def ring_def kb_waiting_def)

lemma kb_head_tail:
  assumes "kb_inv s"
  shows "unat (keyboard_head s) = (unat (keyboard_tail s) + kb_waiting s) mod 256" "kb_waiting s < 256"
    "keyboard_head s = keyboard_tail s \<longleftrightarrow> kb_waiting s = 0"
proof -
  let ?h = "unat (keyboard_head s)" and ?t = "unat (keyboard_tail s)"
  have b: "?h < 256" "?t < 256" using assms by (simp_all add: kb_inv_def)
  show "?h = (?t + kb_waiting s) mod 256"
  proof -
    have "(?t + (?h + 256 - ?t) mod 256) mod 256 = (?h + 256) mod 256" using b by (simp add: mod_add_right_eq)
    then show ?thesis using b by (simp add: kb_waiting_def)
  qed
  show "kb_waiting s < 256" by (simp add: kb_waiting_def)
  have "?h = ?t \<longleftrightarrow> kb_waiting s = 0" unfolding kb_waiting_def using b by (simp add: mod256) linarith
  then show "keyboard_head s = keyboard_tail s \<longleftrightarrow> kb_waiting s = 0" by (simp add: word32_eq_iff_unat)
qed

lemma waiting_of:
  fixes t n :: nat
  assumes "t < 256" "n < 256"
  shows "((t + n) mod 256 + 256 - t) mod 256 = n"
  using assms by (cases "t + n < 256") (simp_all add: mod256)

lemma keyboard_put_spec:
  assumes inv: "kb_inv s"
  shows "kb_inv (keyboard_put c s)" "kb_contents (keyboard_put c s) = push_bounded c (kb_contents s)"
    "shift_pressed (keyboard_put c s) = shift_pressed s" "k_env (keyboard_put c s) = k_env s"
    "keyboard_initialized (keyboard_put c s) = keyboard_initialized s"
proof -
  let ?t = "unat (keyboard_tail s)" and ?n = "kb_waiting s"
  define b where "b = (keyboard_buffer s)[(?t + ?n) mod 256 := c]"
  note H = kb_head_tail[OF inv]
  have inv': "length (keyboard_buffer s) = 256" "?t < 256" using inv by (simp_all add: kb_inv_def)
  have push: "ring b ?t (Suc ?n) = kb_contents s @ [c]" unfolding b_def kb_contents_ring by (rule ring_push) (simp_all add: inv' H)
  have head: "unat ((keyboard_head s + 1) mod 256) = (?t + Suc ?n) mod 256" by (simp add: unat_succ_mod256 H(1) mod_simps)
  have full: "(keyboard_head s + 1) mod 256 = keyboard_tail s \<longleftrightarrow> ?n = 255"
    unfolding word32_eq_iff_unat head using inv' H(2) by (simp add: mod256) linarith
  show "shift_pressed (keyboard_put c s) = shift_pressed s" "k_env (keyboard_put c s) = k_env s"
    "keyboard_initialized (keyboard_put c s) = keyboard_initialized s"
    by (simp_all add: keyboard_put_def Let_def)
  show "kb_inv (keyboard_put c s)" using inv by (simp add: kb_inv_def keyboard_put_def Let_def unat_succ_mod256)
  show "kb_contents (keyboard_put c s) = push_bounded c (kb_contents s)"
  proof (cases "?n = 255")
    case True
    have "kb_contents (keyboard_put c s) = ring b ((?t + 1) mod 256) 255"
    proof -
      have h: "(keyboard_head s + 1) mod 256 = keyboard_tail s" using full True by blast
      have "((?t + 1) mod 256 + 255) mod 256 = ?t" using inv'(2) by (cases "?t = 255") simp_all
      then have w: "(?t + 256 - (?t + 1) mod 256) mod 256 = 255" using waiting_of[of "(?t + 1) mod 256" 255] by simp
      define s' where "s' = keyboard_put c s"
      have s': "s' = s\<lparr>keyboard_buffer := b, keyboard_head := keyboard_tail s, keyboard_tail := (keyboard_tail s + 1) mod 256\<rparr>"
        unfolding s'_def keyboard_put_def Let_def b_def by (simp add: h H(1))
      have "kb_waiting s' = 255" "unat (keyboard_tail s') = (?t + 1) mod 256" "keyboard_buffer s' = b"
        unfolding kb_waiting_def s' using w by (simp_all add: unat_succ_mod256)
      then show ?thesis unfolding s'_def[symmetric] kb_contents_ring by simp
    qed
    also have "\<dots> = tl (ring b ?t (Suc 255))" unfolding ring_pop by simp
    also have "\<dots> = tl (kb_contents s) @ [c]" using push True by (metis kb_contents_ring length_greater_0_conv ring_length tl_append2 zero_less_numeral)
    finally show ?thesis using True by (simp add: push_bounded_def kb_contents_ring)
  next
    case False
    have "(unat ((keyboard_head s + 1) mod 256) + 256 - ?t) mod 256 = Suc ?n"
      unfolding head by (rule waiting_of) (use inv' H(2) False in auto)
    moreover have eq: "keyboard_put c s = s\<lparr>keyboard_buffer := b, keyboard_head := (keyboard_head s + 1) mod 256\<rparr>"
      unfolding keyboard_put_def Let_def b_def using full False by (simp add: H(1))
    ultimately have "kb_waiting (keyboard_put c s) = Suc ?n" by (simp add: kb_waiting_def)
    then have "kb_contents (keyboard_put c s) = ring b ?t (Suc ?n)" unfolding kb_contents_ring by (simp add: eq)
    then show ?thesis using push False by (simp add: push_bounded_def kb_contents_ring)
  qed
qed

section \<open>The driver as a machine over the queue\<close>

text \<open>
  What the driver is meant to do, over the shift key, the queue of characters and the list of the characters handed out with their
  receivers: a code of 128 or more is the release of the key whose code is 128 less.
\<close>

type_synonym kb_state = "bool \<times> u8 list \<times> (u32 \<times> u8) list"

datatype key_input = Typed u8 | Request abi_msg

fun spec_scan :: "nat \<Rightarrow> kb_state \<Rightarrow> kb_state" where
  "spec_scan code (shift, q, out) =
     (if code \<ge> 128 then (shift \<and> code - 128 \<notin> {0x2A, 0x36}, q, out)
      else if code \<in> {0x2A, 0x36} then (True, q, out)
      else if code \<in> {0x1D, 0x38} then (shift, q, out)
      else (let c = (if shift then scancode_to_ascii_shift else scancode_to_ascii) ! code
            in (shift, if c = 0 then q else push_bounded c q, out)))"

fun spec_input :: "key_input \<Rightarrow> kb_state \<Rightarrow> kb_state" where
  "spec_input (Typed c) (shift, q, out) = (shift, push_bounded (if c = 13 then 10 else c) q, out)"
| "spec_input (Request m) (shift, q, out) =
     (if a_msg_type m = MSG_DRIVER then (if a_data_size m = 0 then (shift, q, out) else spec_scan (unat (a_data m ! 0)) (shift, q, out))
      else if a_msg_type m = DRIVER_MSG_READ then (case q of [] \<Rightarrow> (shift, q, out) | c # q \<Rightarrow> (shift, q, out @ [(a_sender_pid m, c)]))
      else (shift, q, out))"

fun replies :: "ucall list \<Rightarrow> (u32 \<times> u8) list" where
  "replies [] = []"
| "replies (c # cs) = replies cs @ (case c of Message n pid m \<Rightarrow> if n = 0x20 then [(pid, a_data m ! 0)] else [] | _ \<Rightarrow> [])"

definition kb_abs :: "keyboard \<Rightarrow> kb_state" where
  "kb_abs s = (shift_pressed s, kb_contents s, replies (e_calls (k_env s)))"

definition kb_ready :: "keyboard \<Rightarrow> bool" where
  "kb_ready s \<longleftrightarrow> kb_inv s \<and> keyboard_initialized s"

lemma release_code: "scancode AND 0x80 \<noteq> 0 \<longleftrightarrow> unat (scancode :: u8) \<ge> 128" "unat (scancode AND 0x7F) = unat scancode mod 128"
proof -
  have "unat scancode < 256" using unsigned_less[of scancode] by simp
  then have "odd (unat scancode div 128) \<longleftrightarrow> unat scancode \<ge> 128" by (cases "unat scancode < 128") (auto simp: div_if)
  moreover have "bit scancode 7 \<longleftrightarrow> bit (unat scancode) 7" by (simp add: bit_unsigned_iff)
  moreover have "bit (unat scancode) 7 \<longleftrightarrow> odd (unat scancode div 128)" by (simp add: bit_iff_odd)
  moreover have "scancode AND 0x80 \<noteq> 0 \<longleftrightarrow> bit scancode 7"
  proof -
    have "(0x80 :: u8) = push_bit 7 1" by simp
    then show ?thesis by (metis and_exp_eq_0_iff_not_bit push_bit_of_1)
  qed
  ultimately show "scancode AND 0x80 \<noteq> 0 \<longleftrightarrow> unat scancode \<ge> 128" by blast
  have "(0x7F :: u8) = mask 7" by (simp add: mask_eq_exp_minus_1)
  then have "scancode AND 0x7F = take_bit 7 scancode" by (simp only: take_bit_eq_mask)
  then show "unat (scancode AND 0x7F) = unat scancode mod 128" by (simp add: unat_mod take_bit_eq_mod)
qed

lemma word8_eq: "(c :: u8) = w \<longleftrightarrow> unat c = unat w"
  by (rule word_eq_iff_unsigned)

lemma kb_fields:
  "kb_inv (s\<lparr>shift_pressed := b\<rparr>) = kb_inv s" "kb_inv (s\<lparr>ctrl_pressed := b\<rparr>) = kb_inv s" "kb_inv (s\<lparr>alt_pressed := b\<rparr>) = kb_inv s"
  "kb_inv (s\<lparr>k_env := e\<rparr>) = kb_inv s"
  "kb_contents (s\<lparr>shift_pressed := b\<rparr>) = kb_contents s" "kb_contents (s\<lparr>ctrl_pressed := b\<rparr>) = kb_contents s"
  "kb_contents (s\<lparr>alt_pressed := b\<rparr>) = kb_contents s" "kb_contents (s\<lparr>k_env := e\<rparr>) = kb_contents s"
  by (simp_all add: kb_inv_def kb_contents_def)

lemmas kb_simps = kb_fields kb_ready_def kb_abs_def keyboard_put_spec

lemma scancode_refines:
  assumes "kb_ready s"
  shows "kb_ready (keyboard_handle_scancode c s) \<and> kb_abs (keyboard_handle_scancode c s) = spec_scan (unat c) (kb_abs s)"
proof (cases "unat c \<ge> 128")
  case True
  have "unat c < 256" using unsigned_less[of c] by simp
  then have code: "c AND 0x7F = w \<longleftrightarrow> unat c - 128 = unat w" for w using True by (simp add: word8_eq release_code mod_if)
  show ?thesis using assms True
    unfolding keyboard_handle_scancode_def Let_def release_code(1) code by (simp add: kb_simps)
next
  case False
  then have "\<not> c \<ge> 128" by (simp add: word_le_nat_alt)
  then show ?thesis using assms False
    unfolding keyboard_handle_scancode_def scancode_to_ascii_convert_def Let_def release_code(1) word8_eq[of c]
    by (simp add: kb_simps)
qed

lemma replies_send: "replies (e_calls (snd (ipc_send_call pid (byte_response c) e))) = replies (e_calls e) @ [(pid, c)]"
  by (simp add: ipc_send_call_def call_value_def syscall_def byte_response_def empty_msg_def split: prod.splits)

lemma read_refines:
  assumes "kb_ready s" "keyboard_head s \<noteq> keyboard_tail s"
  defines "t \<equiv> s\<lparr>keyboard_tail := (keyboard_tail s + 1) mod 256\<rparr>"
  shows "kb_ready t" "kb_contents s = keyboard_buffer s ! unat (keyboard_tail s) # kb_contents t"
proof -
  have inv: "kb_inv s" using assms(1) by (simp add: kb_ready_def)
  note H = kb_head_tail[OF inv]
  have t: "unat (keyboard_tail s) < 256" using inv by (simp add: kb_inv_def)
  show ready: "kb_ready t" using assms(1) by (simp add: kb_ready_def kb_inv_def t_def unat_succ_mod256)
  obtain n where n: "kb_waiting s = Suc n" using assms(2) H(3) by (cases "kb_waiting s") auto
  have "unat (keyboard_head t) = ((unat (keyboard_tail s) + 1) mod 256 + n) mod 256"
    using H(1) unfolding n by (simp add: t_def mod_simps)
  then have "kb_waiting t = n" unfolding kb_waiting_def
    using waiting_of[of "(unat (keyboard_tail s) + 1) mod 256" n] H(2) n by (simp add: t_def unat_succ_mod256)
  then show "kb_contents s = keyboard_buffer s ! unat (keyboard_tail s) # kb_contents t"
    unfolding kb_contents_ring n ring_pop using t by (simp add: t_def unat_succ_mod256)
qed

lemma contents_empty: "kb_ready s \<Longrightarrow> keyboard_head s = keyboard_tail s \<Longrightarrow> kb_contents s = []"
  using kb_head_tail(3)[of s] by (simp add: kb_ready_def kb_contents_ring ring_def)

lemma message_refines:
  assumes ready: "kb_ready s"
  shows "kb_ready (snd (keyboard_driver_handle_message (Some m) s)) \<and>
    kb_abs (snd (keyboard_driver_handle_message (Some m) s)) = spec_input (Request m) (kb_abs s)"
proof -
  have init: "keyboard_initialized s" using ready by (simp add: kb_ready_def)
  consider (scan) "a_msg_type m = MSG_DRIVER" | (read) "a_msg_type m = DRIVER_MSG_READ" | (other) "a_msg_type m \<noteq> MSG_DRIVER" "a_msg_type m \<noteq> DRIVER_MSG_READ"
    by blast
  then show ?thesis
  proof cases
    case scan
    have "a_data_size m \<ge> 1 \<longleftrightarrow> a_data_size m \<noteq> 0" by (simp add: word_le_nat_alt unat_eq_0 Suc_le_eq unat_gt_0)
    then show ?thesis using scan init ready scancode_refines[OF ready, of "a_data m ! 0"]
      by (simp add: keyboard_driver_handle_message_def kb_abs_def)
  next
    case read
    show ?thesis
    proof (cases "keyboard_head s = keyboard_tail s")
      case True
      then show ?thesis using read init ready contents_empty[OF ready]
        by (simp add: keyboard_driver_handle_message_def kb_abs_def)
    next
      case False
      then show ?thesis using read init read_refines[OF ready False]
        by (simp add: keyboard_driver_handle_message_def kb_simps Let_def replies_send)
    qed
  next
    case other
    then show ?thesis using init ready by (simp add: keyboard_driver_handle_message_def kb_abs_def)
  qed
qed

text \<open>What one iteration of the loop in \<^verbatim>\<open>main\<close> takes in: a character of the serial line if one is there, then a message if one is there.\<close>

definition key_inputs :: "abi_msg \<times> keyboard \<Rightarrow> key_input list" where
  "key_inputs = (\<lambda>(buf, s).
     let io = e_io (k_env s); lsr = dev_inb io (io_log io) 0x3FD; c = dev_inb io (Inb 0x3FD lsr # io_log io) 0x3F8;
         (r, m) = kernel (k_env s) (e_calls (k_env s)) (Receive 0x21 0 False)
     in (if lsr AND 0x01 \<noteq> 0 then [Typed c] else []) @ (if r = STATUS_SUCCESS then [Request (case m of None \<Rightarrow> buf | Some m \<Rightarrow> m)] else []))"

fun all_inputs :: "nat \<Rightarrow> abi_msg \<times> keyboard \<Rightarrow> key_input list" where
  "all_inputs 0 x = []"
| "all_inputs (Suc n) x = key_inputs x @ all_inputs n (keyboard_main_step x)"

definition spec_inputs :: "key_input list \<Rightarrow> kb_state \<Rightarrow> kb_state" where
  "spec_inputs = fold spec_input"

lemma poll_refines:
  assumes "kb_ready s"
  shows "kb_ready (keyboard_poll s)"
    "kb_abs (keyboard_poll s) = spec_inputs (if dev_inb (e_io (k_env s)) (io_log (e_io (k_env s))) 0x3FD AND 0x01 \<noteq> 0 then
       [Typed (dev_inb (e_io (k_env s)) (Inb 0x3FD (dev_inb (e_io (k_env s)) (io_log (e_io (k_env s))) 0x3FD) # io_log (e_io (k_env s))) 0x3F8)]
       else []) (kb_abs s)"
    "kernel (k_env (keyboard_poll s)) = kernel (k_env s)" "e_calls (k_env (keyboard_poll s)) = e_calls (k_env s)"
  using assms by (simp_all add: keyboard_poll_def hal_inb_def Let_def spec_inputs_def kb_simps)

lemma replies_other: "u_number c \<noteq> 0x20 \<Longrightarrow> replies (c # cs) = replies cs"
  by (cases c) auto

lemma serve_refines:
  assumes "kb_ready s"
  defines "k \<equiv> kernel (k_env s) (e_calls (k_env s)) (Receive 0x21 0 False)"
  shows "kb_ready (snd (keyboard_serve (buf, s)))"
    "kb_abs (snd (keyboard_serve (buf, s))) =
       spec_inputs (if fst k = STATUS_SUCCESS then [Request (case snd k of None \<Rightarrow> buf | Some m \<Rightarrow> m)] else []) (kb_abs s)"
proof -
  define t where "t = s\<lparr>k_env := k_env s\<lparr>e_calls := Receive 0x21 0 False # e_calls (k_env s)\<rparr>\<rparr>"
  have t: "kb_ready t" "kb_abs t = kb_abs s" using assms(1) by (simp_all add: t_def kb_simps)
  have run: "keyboard_serve (buf, s) = (case snd k of None \<Rightarrow> buf | Some m \<Rightarrow> m,
      if fst k = STATUS_SUCCESS then snd (keyboard_driver_handle_message (Some (case snd k of None \<Rightarrow> buf | Some m \<Rightarrow> m)) t)
      else t\<lparr>k_env := process_yield_call (k_env t)\<rparr>)"
    by (simp add: keyboard_serve_def ipc_receive_call_def syscall_def k_def t_def Let_def split: prod.splits)
  have yield: "replies (e_calls (process_yield_call e)) = replies (e_calls e)" for e
    by (simp add: process_yield_call_def call_value_def syscall_def split: prod.splits)
  show "kb_ready (snd (keyboard_serve (buf, s)))" unfolding run using t(1) message_refines[OF t(1)] by (simp add: kb_simps)
  show "kb_abs (snd (keyboard_serve (buf, s))) =
       spec_inputs (if fst k = STATUS_SUCCESS then [Request (case snd k of None \<Rightarrow> buf | Some m \<Rightarrow> m)] else []) (kb_abs s)"
  proof (cases "fst k = STATUS_SUCCESS")
    case True
    then show ?thesis unfolding run using message_refines[OF t(1)] t(2) by (simp add: spec_inputs_def)
  next
    case False
    have "kb_abs (t\<lparr>k_env := process_yield_call (k_env t)\<rparr>) = kb_abs t" by (simp add: kb_abs_def kb_fields yield)
    then show ?thesis unfolding run using False t(2) by (simp add: spec_inputs_def)
  qed
qed

lemma step_refines:
  assumes "kb_ready (snd x)"
  shows "kb_ready (snd (keyboard_main_step x)) \<and> kb_abs (snd (keyboard_main_step x)) = spec_inputs (key_inputs x) (kb_abs (snd x))"
proof -
  obtain buf s where x: "x = (buf, s)" by (cases x)
  have s: "kb_ready s" using assms by (simp add: x)
  note P = poll_refines[OF s] and S = serve_refines[OF poll_refines(1)[OF s], of buf]
  show ?thesis using S unfolding x keyboard_main_step_def key_inputs_def P(2,3,4)
    by (simp add: spec_inputs_def Let_def split: prod.splits)
qed

lemma init_ready:
  assumes "\<not> keyboard_initialized s" "length (keyboard_buffer s) = 256" "replies (e_calls (k_env s)) = []"
  shows "kb_ready (snd (keyboard_driver_init s)) \<and> kb_abs (snd (keyboard_driver_init s)) = (False, [], [])"
proof -
  have "replies (e_calls (snd (driver_register_wrapper n c e))) = replies (e_calls e)" for n c e
    by (simp add: driver_register_wrapper_def call_value_def syscall_def split: prod.splits)
  then show ?thesis using assms
    by (simp add: keyboard_driver_init_def kb_ready_def kb_inv_def kb_abs_def kb_contents_def)
qed

text \<open>The initialisation always succeeds, so that the yields behind \<^verbatim>\<open>main\<close> are never reached.\<close>

lemma keyboard_start_loops: "keyboard_start n j buf s = (keyboard_main_step ^^ n) (buf, snd (keyboard_driver_init s))"
  by (simp add: keyboard_start_def keyboard_main_def keyboard_driver_init_def)

lemma run_refines:
  "kb_ready (snd x) \<Longrightarrow> kb_ready (snd ((keyboard_main_step ^^ n) x)) \<and>
     kb_abs (snd ((keyboard_main_step ^^ n) x)) = spec_inputs (all_inputs n x) (kb_abs (snd x))"
proof (induction n arbitrary: x)
  case (Suc n)
  then show ?case using Suc.IH[of "keyboard_main_step x"] step_refines[OF Suc.prems]
    by (simp add: funpow_swap1 spec_inputs_def)
qed (simp add: spec_inputs_def)

text \<open>
  C21: The keyboard driver never ends, and from its initialisation on and for any number of iterations of its loop, whatever the serial line, the
  kernel and its clients do, behaves like the machine over a queue: characters leave in the order they came, each to the process
  that asked for it, none twice; letters follow the shift key; when 255 characters wait the oldest one is dropped to make room for a
  new one; and the indices of the ring stay inside its 256 bytes.
\<close>

theorem keyboard_is_queue:
  fixes buf :: abi_msg
  assumes "\<not> keyboard_initialized s" "length (keyboard_buffer s) = 256" "replies (e_calls (k_env s)) = []"
  shows "\<exists>buf' s'. keyboard_main n buf s = Loops (buf', s') \<and> kb_inv s' \<and>
    kb_abs s' = spec_inputs (all_inputs n (buf, snd (keyboard_driver_init s))) (False, [], [])"
proof -
  define x where "x = (buf, snd (keyboard_driver_init s))"
  have "fst (keyboard_driver_init s) = STATUS_SUCCESS" by (simp add: keyboard_driver_init_def)
  then have "keyboard_main n buf s = Loops ((keyboard_main_step ^^ n) x)" by (simp add: keyboard_main_def x_def split_beta)
  moreover have "kb_ready (snd x)" "kb_abs (snd x) = (False, [], [])" using init_ready[OF assms] by (simp_all add: x_def)
  ultimately show ?thesis using run_refines[of x n] unfolding x_def[symmetric] by (cases "(keyboard_main_step ^^ n) x") (simp add: kb_ready_def)
qed

text \<open>A driver whose serial line sends the letter A and whose kernel delivers a read request of process 5.\<close>

definition demo_env :: env where
  "demo_env = \<lparr>e_io = \<lparr>io_log = [], dev_inb = (\<lambda>log p. if p = 0x3FD then 1 else 65), dev_inw = (\<lambda>_ _. 0), port_permissions = []\<rparr>,
     e_calls = [], kernel = (\<lambda>calls c. (0, Some (empty_msg\<lparr>a_msg_type := 1, a_sender_pid := 5\<rparr>)))\<rparr>"

definition demo_keyboard :: keyboard where
  "demo_keyboard = \<lparr>keyboard_initialized = False, shift_pressed = False, ctrl_pressed = False, alt_pressed = False,
     keyboard_buffer = replicate 256 0, keyboard_head = 0, keyboard_tail = 0, k_manager = boot_manager, k_env = demo_env\<rparr>"

theorem keyboard_is_queue_witness:
  "\<exists>buf s. keyboard_main 1 empty_msg demo_keyboard = Loops (buf, s) \<and> kb_abs s = (False, [], [(5, 65)])"
proof -
  have "\<not> keyboard_initialized demo_keyboard" "length (keyboard_buffer demo_keyboard) = 256" "replies (e_calls (k_env demo_keyboard)) = []"
    by (simp_all add: demo_keyboard_def demo_env_def)
  then obtain buf s where Q: "keyboard_main 1 empty_msg demo_keyboard = Loops (buf, s)"
    "kb_abs s = spec_inputs (all_inputs 1 (empty_msg, snd (keyboard_driver_init demo_keyboard))) (False, [], [])"
    using keyboard_is_queue[of demo_keyboard 1 empty_msg] by blast
  have "all_inputs 1 (empty_msg, snd (keyboard_driver_init demo_keyboard)) = [Typed 65, Request (empty_msg\<lparr>a_msg_type := 1, a_sender_pid := 5\<rparr>)]"
    by (simp add: key_inputs_def demo_keyboard_def demo_env_def keyboard_driver_init_def driver_register_wrapper_def call_value_def
        syscall_def Let_def STATUS_SUCCESS_def)
  then show ?thesis using Q by (simp add: spec_inputs_def push_bounded_def empty_msg_def)
qed

end
