(* ===== verification/Console_Driver.thy ===== *)
theory Console_Driver
  imports Userspace
begin

text \<open>
  The console driver, \<^verbatim>\<open>drivers/console.c\<close>: text arrives in messages and goes to the 2000 cells of the text screen, to the serial
  line and, as a cursor position, to the display controller. The cells are one array as in the code; the driver is shown to
  be a terminal of 25 rows of 80 cells.
\<close>

section \<open>The driver\<close>

record console =
  console_initialized :: bool
  console_pid :: u32
  vga_memory :: "u16 list"
  console_x :: u32
  console_y :: u32
  console_color :: u8
  c_manager :: manager
  c_env :: env

abbreviation (input) VGA_WIDTH :: nat where "VGA_WIDTH \<equiv> 80"
abbreviation (input) VGA_HEIGHT :: nat where "VGA_HEIGHT \<equiv> 25"
abbreviation (input) VGA_SIZE :: nat where "VGA_SIZE \<equiv> 2000"

definition cell :: "u8 \<Rightarrow> u8 \<Rightarrow> u16" where
  "cell color c = push_bit 8 (ucast color) OR ucast c"

definition fill_screen :: "u16 \<Rightarrow> u16 list \<Rightarrow> u16 list" where
  "fill_screen v m = foldl (\<lambda>m i. m[i := v]) m [0..<VGA_SIZE]"

definition console_clear_line :: "u32 \<Rightarrow> console \<Rightarrow> console" where
  "console_clear_line y s =
     s\<lparr>vga_memory := foldl (\<lambda>m x. m[unat (y * 80) + x := cell (console_color s) 32]) (vga_memory s) [0..<VGA_WIDTH]\<rparr>"

definition console_scroll_up :: "console \<Rightarrow> console" where
  "console_scroll_up s =
     (let s = s\<lparr>vga_memory := foldl (\<lambda>m i. m[i := m ! (i + VGA_WIDTH)]) (vga_memory s) [0..<VGA_WIDTH * (VGA_HEIGHT - 1)]\<rparr>;
          s = console_clear_line 24 s
      in s\<lparr>console_y := 24, console_x := 0\<rparr>)"

definition outb :: "u16 \<Rightarrow> u8 \<Rightarrow> console \<Rightarrow> console" where
  "outb port v s = s\<lparr>c_env := c_env s\<lparr>e_io := hal_outb port v (e_io (c_env s))\<rparr>\<rparr>"

definition console_move_cursor :: "u32 \<Rightarrow> u32 \<Rightarrow> console \<Rightarrow> console" where
  "console_move_cursor x y s =
     (let pos = ucast (y * 80 + x) :: u16
      in outb 0x3D5 (ucast (drop_bit 8 pos AND 0xFF)) (outb 0x3D4 0x0E (outb 0x3D5 (ucast (pos AND 0xFF)) (outb 0x3D4 0x0F s))))"

definition put_cell :: "u8 \<Rightarrow> console \<Rightarrow> console" where
  "put_cell c s = s\<lparr>vga_memory := (vga_memory s)[unat (console_y s * 80 + console_x s) := cell (console_color s) c]\<rparr>"

text \<open>\<^verbatim>\<open>console_x = 0; console_y++\<close> and the scroll, in the two places that begin a line.\<close>

definition console_newline :: "console \<Rightarrow> console" where
  "console_newline s =
     (let s = s\<lparr>console_x := 0, console_y := console_y s + 1\<rparr> in if console_y s \<ge> 25 then console_scroll_up s else s)"

text \<open>The recursion is for a tab, which prints four spaces.\<close>

function console_put_char :: "u8 \<Rightarrow> console \<Rightarrow> console" where
  "console_put_char c s =
     (let s = outb 0x3F8 c s;
          s = (if c = 13 then s\<lparr>console_x := 0\<rparr>
               else if c = 10 then console_newline s
               else if c = 9 then foldl (\<lambda>s i. console_put_char 32 s) s [0..<4]
               else if c = 8 then (if console_x s > 0 then put_cell 32 (s\<lparr>console_x := console_x s - 1\<rparr>) else s)
               else if c \<ge> 32 \<and> c \<le> 126 then
                 (let s = put_cell c s; s = s\<lparr>console_x := console_x s + 1\<rparr>
                  in if console_x s \<ge> 80 then console_newline s else s)
               else s)
      in console_move_cursor (console_x s) (console_y s) s)"
  by pat_completeness auto
termination
  by (relation "measure (\<lambda>(c, s). if c = 9 then 1 else 0)") auto

declare console_put_char.simps [simp del]

definition driver_print :: "string option \<Rightarrow> console \<Rightarrow> console" where
  "driver_print str s = (case str of
     None \<Rightarrow> s
   | Some str \<Rightarrow> if \<not> console_initialized s then s else foldl (\<lambda>s c. console_put_char (of_char c) s) s str)"

definition console_driver :: driver_interface where
  "console_driver = \<lparr>d_name = ''console'', d_driver_id = 3, d_capabilities = 0x02, d_has_shutdown = False\<rparr>"

definition console_banner :: string where
  "console_banner = ''Console driver initialized'' @ [CHR 0x0D, CHR 0x0A]"

definition console_driver_init :: "console \<Rightarrow> status_t \<times> console" where
  "console_driver_init s =
     (if console_initialized s then (STATUS_SUCCESS, s)
      else
        (let s = s\<lparr>vga_memory := fill_screen (cell (console_color s) 32) (vga_memory s), console_x := 0, console_y := 0, console_pid := 3\<rparr>;
             (result, r) = driver_register (Some console_driver) (c_manager s);
             s = s\<lparr>c_manager := r\<rparr>
         in if result \<noteq> STATUS_SUCCESS then (result, s)
            else
              (let s = s\<lparr>c_env := snd (driver_register_wrapper (d_name console_driver) (d_capabilities console_driver) (c_env s)),
                     console_initialized := True\<rparr>
               in (STATUS_SUCCESS, driver_print (Some console_banner) s))))"

definition console_driver_shutdown :: "console \<Rightarrow> status_t \<times> console" where
  "console_driver_shutdown s =
     (if \<not> console_initialized s then (STATUS_SUCCESS, s)
      else (STATUS_SUCCESS, s\<lparr>vga_memory := fill_screen 0x0720 (vga_memory s),
        c_manager := snd (driver_unregister (d_driver_id console_driver) (c_manager s)), console_initialized := False\<rparr>))"

definition console_ioctl :: "abi_msg \<Rightarrow> console \<Rightarrow> console" where
  "console_ioctl m s =
     (let command = get32 (a_data m) 0
      in if command = 0x01 then
           s\<lparr>vga_memory := fill_screen (cell (console_color s) 32) (vga_memory s), console_x := 0, console_y := 0\<rparr>
         else if command = 0x02 then
           (if a_data_size m \<ge> 8 then
              (let fg = get32 (a_data m) 1; bg = get32 (a_data m) 2
               in s\<lparr>console_color := ucast (push_bit 4 bg OR (fg AND 0x0F))\<rparr>)
            else s)
         else if command = 0x03 then
           (if a_data_size m \<ge> 12 then
              (let x = get32 (a_data m) 1; y = get32 (a_data m) 2
               in if x < 80 \<and> y < 25 then console_move_cursor x y (s\<lparr>console_x := x, console_y := y\<rparr>) else s)
            else s)
         else s)"

text \<open>A size beyond the 256 bytes of the data would read past the message, which has no result.\<close>

definition console_driver_handle_message :: "abi_msg option \<Rightarrow> console \<Rightarrow> (status_t \<times> console) option" where
  "console_driver_handle_message msg s = (case msg of
     None \<Rightarrow> Some (STATUS_INVALID_PARAM, s)
   | Some m \<Rightarrow>
       if \<not> console_initialized s then Some (STATUS_INVALID_PARAM, s)
       else if a_msg_type m = DRIVER_MSG_WRITE then
         (if a_data_size m > 0 then
            (if unat (a_data_size m - 1) > length (a_data m) then None
             else Some (STATUS_SUCCESS, foldl (\<lambda>s i. console_put_char (a_data m ! i) s) s [0..<unat (a_data_size m - 1)]))
          else Some (STATUS_SUCCESS, s))
       else if a_msg_type m = DRIVER_MSG_IOCTL then
         Some (STATUS_SUCCESS, if a_data_size m \<ge> 4 then console_ioctl m s else s)
       else Some (STATUS_INVALID_PARAM, s))"

text \<open>One iteration of the loop in \<^verbatim>\<open>main\<close>; the message buffer outlives it.\<close>

definition console_main_step :: "abi_msg \<times> console \<Rightarrow> (abi_msg \<times> console) option" where
  "console_main_step = (\<lambda>(buf, s).
     let ((r, buf), e) = ipc_receive_call 0 buf True (c_env s); s = s\<lparr>c_env := e\<rparr>
     in if r = STATUS_SUCCESS then map_option (\<lambda>(_, s). (buf, s)) (console_driver_handle_message (Some buf) s) else Some (buf, s))"

fun console_loop :: "nat \<Rightarrow> abi_msg \<times> console \<Rightarrow> (abi_msg \<times> console) option" where
  "console_loop 0 x = Some x"
| "console_loop (Suc n) x = Option.bind (console_main_step x) (console_loop n)"

definition console_main :: "nat \<Rightarrow> abi_msg \<Rightarrow> console \<Rightarrow> (abi_msg \<times> console) main_run option" where
  "console_main n buf s =
     (let (r, s) = console_driver_init s
      in if r \<noteq> STATUS_SUCCESS then Some (Exits 1 (buf, s)) else map_option Loops (console_loop n (buf, s)))"

definition console_start :: "nat \<Rightarrow> nat \<Rightarrow> abi_msg \<Rightarrow> console \<Rightarrow> (abi_msg \<times> console) option" where
  "console_start n j buf s =
     map_option (start_program (\<lambda>(buf, s). (buf, s\<lparr>c_env := process_yield_call (c_env s)\<rparr>)) j) (console_main n buf s)"

section \<open>The screen as rows\<close>

definition screen_row :: "u16 list \<Rightarrow> nat \<Rightarrow> u16 list" where
  "screen_row v r = take 80 (drop (80 * r) v)"

definition screen_rows :: "u16 list \<Rightarrow> u16 list list" where
  "screen_rows v = map (screen_row v) [0..<25]"

lemma screen_row_nth: "length v = 2000 \<Longrightarrow> r < 25 \<Longrightarrow> i < 80 \<Longrightarrow> screen_row v r ! i = v ! (80 * r + i)"
  by (simp add: screen_row_def)

lemma screen_row_length: "length v = 2000 \<Longrightarrow> r < 25 \<Longrightarrow> length (screen_row v r) = 80"
  by (simp add: screen_row_def)

lemma screen_rows_length [simp]: "length (screen_rows v) = 25"
  by (simp add: screen_rows_def)

lemma screen_rows_nth: "r < 25 \<Longrightarrow> screen_rows v ! r = screen_row v r"
  by (simp add: screen_rows_def)

lemma screen_index_inj:
  assumes "x < 80" "i < 80"
  shows "80 * r + i = 80 * y + x \<longleftrightarrow> r = y \<and> i = (x :: nat)"
proof -
  have "(80 * r + i) div 80 = r" "(80 * r + i) mod 80 = i" "(80 * y + x) div 80 = y" "(80 * y + x) mod 80 = x" using assms by simp_all
  then show ?thesis by metis
qed

lemma screen_row_update:
  assumes "length v = 2000" "r < 25" "y < 25" "x < 80"
  shows "screen_row (v[80 * y + x := c]) r = (if r = y then (screen_row v y)[x := c] else screen_row v r)"
proof (rule nth_equalityI)
  fix i
  assume "i < length (screen_row (v[80 * y + x := c]) r)"
  then have i: "i < 80" using assms by (simp add: screen_row_length)
  have "screen_row (v[80 * y + x := c]) r ! i = (if r = y \<and> i = x then c else v ! (80 * r + i))"
    using assms i by (simp add: screen_row_nth nth_list_update screen_index_inj[symmetric])
  then show "screen_row (v[80 * y + x := c]) r ! i = (if r = y then (screen_row v y)[x := c] else screen_row v r) ! i"
    using assms i by (auto simp: screen_row_nth screen_row_length nth_list_update)
qed (use assms in \<open>auto simp: screen_row_length\<close>)

lemma screen_rows_update:
  assumes "length v = 2000" "y < 25" "x < 80"
  shows "screen_rows (v[80 * y + x := c]) = (screen_rows v)[y := (screen_rows v ! y)[x := c]]"
  using assms by (intro nth_equalityI) (simp_all add: screen_rows_nth screen_row_update nth_list_update)

lemma screen_rows_eqI:
  assumes "length v = 2000" "length rs = 25" "\<And>r. r < 25 \<Longrightarrow> length (rs ! r) = 80" "\<And>r i. r < 25 \<Longrightarrow> i < 80 \<Longrightarrow> v ! (80 * r + i) = rs ! r ! i"
  shows "screen_rows v = rs"
proof (rule nth_equalityI)
  fix r
  assume "r < length (screen_rows v)"
  then have r: "r < 25" by simp
  then have "screen_row v r = rs ! r" using assms by (intro nth_equalityI) (simp_all add: screen_row_length screen_row_nth)
  then show "screen_rows v ! r = rs ! r" using r by (simp add: screen_rows_nth)
qed (use assms in simp)

section \<open>The loops\<close>

lemma fill_loop:
  "n + k \<le> length m \<Longrightarrow> foldl (\<lambda>m i. m[k + i := v]) m [0..<n] = take k m @ replicate n v @ drop (k + n) m"
proof (induction n)
  case (Suc n)
  then have "foldl (\<lambda>m i. m[k + i := v]) m [0..<Suc n] = (take k m @ replicate n v @ drop (k + n) m)[k + n := v]" by simp
  also have "drop (k + n) m = m ! (k + n) # drop (Suc (k + n)) m" using Suc.prems by (simp add: Cons_nth_drop_Suc)
  finally show ?case using Suc.prems by (simp add: list_update_append replicate_append_same[symmetric])
qed simp

lemma fill_screen_eq: "length m = 2000 \<Longrightarrow> fill_screen v m = replicate 2000 v"
  using fill_loop[of 2000 0 m v] by (simp add: fill_screen_def)

lemma scroll_loop:
  "n + 80 \<le> length m \<Longrightarrow> foldl (\<lambda>m i. m[i := m ! (i + 80)]) m [0..<n] = take n (drop 80 m) @ drop n m"
proof (induction n)
  case (Suc n)
  then have IH: "foldl (\<lambda>m i. m[i := m ! (i + 80)]) m [0..<n] = take n (drop 80 m) @ drop n m" by simp
  have len: "length (take n (drop 80 m)) = n" using Suc.prems by simp
  have "(take n (drop 80 m) @ drop n m) ! (n + 80) = m ! (n + 80)" using Suc.prems by (simp add: nth_append)
  moreover have "drop n m = m ! n # drop (Suc n) m" using Suc.prems by (simp add: Cons_nth_drop_Suc)
  moreover have "take (Suc n) (drop 80 m) = take n (drop 80 m) @ [m ! (n + 80)]" using Suc.prems by (simp add: take_Suc_conv_app_nth add.commute)
  ultimately show ?case using IH len by (simp add: list_update_append)
qed simp

lemma scroll_up_cells:
  assumes "length (vga_memory s) = 2000"
  shows "vga_memory (console_scroll_up s) = drop 80 (vga_memory s) @ replicate 80 (cell (console_color s) 32)"
proof -
  let ?v = "vga_memory s"
  have "foldl (\<lambda>m i. m[i := m ! (i + 80)]) ?v [0..<1920] = drop 80 ?v @ drop 1920 ?v"
    using scroll_loop[of 1920 ?v] assms by simp
  moreover have "foldl (\<lambda>m x. m[1920 + x := b]) (drop 80 ?v @ drop 1920 ?v) [0..<80] = drop 80 ?v @ replicate 80 b" for b
    using fill_loop[of 80 1920 "drop 80 ?v @ drop 1920 ?v" b] assms by simp
  ultimately show ?thesis by (simp add: console_scroll_up_def console_clear_line_def Let_def)
qed

lemma screen_rows_scroll:
  assumes "length v = 2000"
  shows "screen_rows (drop 80 v @ replicate 80 b) = tl (screen_rows v) @ [replicate 80 b]"
proof (rule screen_rows_eqI)
  fix r i :: nat
  assume "r < 25" "i < 80"
  then show "(drop 80 v @ replicate 80 b) ! (80 * r + i) = (tl (screen_rows v) @ [replicate 80 b]) ! r ! i"
    using assms by (cases "r = 24") (simp_all add: nth_append nth_tl screen_rows_nth screen_row_nth add.assoc)
next
  fix r :: nat
  assume "r < 25"
  then show "length ((tl (screen_rows v) @ [replicate 80 b]) ! r) = 80"
    using assms by (cases "r = 24") (simp_all add: nth_append nth_tl screen_rows_nth screen_row_length)
qed (use assms in simp_all)

lemma screen_rows_fill: "screen_rows (replicate 2000 b) = replicate 25 (replicate 80 b)"
  by (rule screen_rows_eqI) simp_all

section \<open>The terminal\<close>

text \<open>
  The terminal: rows of cells, the place of the next character, the colour, what went out on the serial line, and the position the
  display controller was last given. The controller has an index register, port 0x3D4, and a data register, port 0x3D5; registers
  14 and 15 hold the position.
\<close>

record terminal =
  t_rows :: "u16 list list"
  t_x :: nat
  t_y :: nat
  t_color :: u8
  t_serial :: "u8 list"
  t_cursor :: nat

fun crtc :: "io_event list \<Rightarrow> u8 \<times> u8 \<times> u8" where
  "crtc [] = (0, 0, 0)"
| "crtc (e # log) = (let (ix, hi, lo) = crtc log in case e of
     Outb p v \<Rightarrow>
       if p = 0x3D4 then (v, hi, lo)
       else if p = 0x3D5 then (if ix = 0x0E then (ix, v, lo) else if ix = 0x0F then (ix, hi, v) else (ix, hi, lo))
       else (ix, hi, lo)
   | _ \<Rightarrow> (ix, hi, lo))"

definition crtc_cursor :: "io_event list \<Rightarrow> nat" where
  "crtc_cursor log = (let (ix, hi, lo) = crtc log in 256 * unat hi + unat lo)"

definition term_newline :: "terminal \<Rightarrow> terminal" where
  "term_newline t =
     (if t_y t + 1 < 25 then t\<lparr>t_x := 0, t_y := t_y t + 1\<rparr>
      else t\<lparr>t_rows := tl (t_rows t) @ [replicate 80 (cell (t_color t) 32)], t_x := 0, t_y := 24\<rparr>)"

definition term_set :: "u8 \<Rightarrow> terminal \<Rightarrow> terminal" where
  "term_set c t = t\<lparr>t_rows := (t_rows t)[t_y t := (t_rows t ! t_y t)[t_x t := cell (t_color t) c]]\<rparr>"

definition term_cursor :: "terminal \<Rightarrow> terminal" where
  "term_cursor t = t\<lparr>t_cursor := 80 * t_y t + t_x t\<rparr>"

definition term_action :: "u8 \<Rightarrow> terminal \<Rightarrow> terminal" where
  "term_action c t =
     (if c = 13 then t\<lparr>t_x := 0\<rparr>
      else if c = 10 then term_newline t
      else if c = 8 then (if t_x t = 0 then t else term_set 32 (t\<lparr>t_x := t_x t - 1\<rparr>))
      else if 32 \<le> c \<and> c \<le> 126 then
        (let t = term_set c t in if t_x t + 1 < 80 then t\<lparr>t_x := t_x t + 1\<rparr> else term_newline t)
      else t)"

definition term_char :: "u8 \<Rightarrow> terminal \<Rightarrow> terminal" where
  "term_char c t = term_cursor (term_action c (t\<lparr>t_serial := t_serial t @ [c]\<rparr>))"

definition term_put :: "u8 \<Rightarrow> terminal \<Rightarrow> terminal" where
  "term_put c t = (if c = 9 then term_cursor ((term_char 32 ^^ 4) (t\<lparr>t_serial := t_serial t @ [9]\<rparr>)) else term_char c t)"

definition con_log :: "console \<Rightarrow> io_event list" where
  "con_log s = io_log (e_io (c_env s))"

definition con_abs :: "console \<Rightarrow> terminal" where
  "con_abs s = \<lparr>t_rows = screen_rows (vga_memory s), t_x = unat (console_x s), t_y = unat (console_y s), t_color = console_color s,
     t_serial = transmitted (con_log s), t_cursor = crtc_cursor (con_log s)\<rparr>"

definition con_ok :: "console \<Rightarrow> bool" where
  "con_ok s \<longleftrightarrow> length (vga_memory s) = 2000 \<and> unat (console_x s) < 80 \<and> unat (console_y s) < 25"

lemma cell_index:
  assumes "unat x < 80" "unat y < 25"
  shows "unat (y * 80 + x :: u32) = 80 * unat y + unat x"
proof -
  have "unat y * 80 < 4294967296" "unat y * 80 + unat x < 4294967296" using assms by linarith+
  then show ?thesis by (simp add: unat_word_ariths)
qed

lemma newline_refines:
  assumes "length (vga_memory s) = 2000" "unat (console_y s) < 25"
  shows "con_ok (console_newline s)" "con_abs (console_newline s) = term_newline (con_abs s)"
    "console_initialized (console_newline s) = console_initialized s"
proof -
  have y: "unat (console_y s + 1) = unat (console_y s) + 1" using assms(2) by (simp add: unat_word_ariths)
  then have top: "console_y s + 1 \<ge> 25 \<longleftrightarrow> unat (console_y s) + 1 \<ge> 25" by (simp add: word_le_nat_alt)
  define u where "u = s\<lparr>console_x := 0, console_y := console_y s + 1\<rparr>"
  have u: "vga_memory (console_scroll_up u) = drop 80 (vga_memory s) @ replicate 80 (cell (console_color s) 32)"
    using scroll_up_cells[of u] assms(1) by (simp add: u_def)
  have u': "console_x (console_scroll_up u) = 0" "console_y (console_scroll_up u) = 24" "console_color (console_scroll_up u) = console_color s"
    "con_log (console_scroll_up u) = con_log s" "console_initialized (console_scroll_up u) = console_initialized s"
    by (simp_all add: console_scroll_up_def console_clear_line_def Let_def con_log_def u_def)
  have run: "console_newline s = (if unat (console_y s) + 1 \<ge> 25 then console_scroll_up u else u)"
    unfolding console_newline_def Let_def u_def[symmetric] using top by (simp add: u_def)
  show "con_ok (console_newline s)" unfolding run con_ok_def using assms u u' y by (simp add: u_def)
  show "con_abs (console_newline s) = term_newline (con_abs s)"
    unfolding run con_abs_def term_newline_def using assms u u' y by (simp add: screen_rows_scroll) (simp add: u_def con_log_def)
  show "console_initialized (console_newline s) = console_initialized s" unfolding run using u' by (simp add: u_def)
qed

lemma put_cell_refines:
  assumes "con_ok s"
  shows "con_ok (put_cell c s)" "con_abs (put_cell c s) = term_set c (con_abs s)" "console_initialized (put_cell c s) = console_initialized s"
  using assms by (simp_all add: con_ok_def con_abs_def put_cell_def term_set_def con_log_def cell_index screen_rows_update)

lemma outb_fields [simp]:
  "vga_memory (outb p v s) = vga_memory s" "console_x (outb p v s) = console_x s" "console_y (outb p v s) = console_y s"
  "console_color (outb p v s) = console_color s" "console_initialized (outb p v s) = console_initialized s"
  "con_log (outb p v s) = Outb p v # con_log s"
  by (simp_all add: outb_def con_log_def hal_outb_def)

lemma con_ok_outb [simp]: "con_ok (outb p v s) = con_ok s"
  by (simp add: con_ok_def)

lemma mirror_refines: "con_abs (outb 0x3F8 c s) = (con_abs s)\<lparr>t_serial := t_serial (con_abs s) @ [c]\<rparr>"
  by (simp add: con_abs_def crtc_cursor_def Let_def split: prod.splits)

lemma cursor_halves:
  fixes pos :: u32
  assumes "unat pos < 2000"
  shows "256 * unat (ucast (drop_bit 8 (ucast pos :: u16) AND 0xFF) :: u8) + unat (ucast ((ucast pos :: u16) AND 0xFF) :: u8) = unat pos"
proof -
  define w where "w = (ucast pos :: u16)"
  have w: "unat w = unat pos" using assms by (simp add: w_def unsigned_ucast_eq take_bit_nat_eq_self)
  have ff: "(0xFF :: u16) = mask 8" by (simp add: mask_eq_exp_minus_1)
  have lo: "unat (ucast (w AND 0xFF) :: u8) = unat w mod 256"
    by (simp add: ff flip: take_bit_eq_mask) (simp add: unsigned_ucast_eq take_bit_eq_mod unat_mod)
  have hi: "unat (ucast (drop_bit 8 w AND 0xFF) :: u8) = unat w div 256"
  proof -
    have "unat w div 256 < 256" using assms w by auto
    then show ?thesis
      by (simp add: ff flip: take_bit_eq_mask) (simp add: unsigned_ucast_eq take_bit_eq_mod drop_bit_eq_div unat_mod unat_div)
  qed
  show ?thesis unfolding w_def[symmetric] lo hi w by simp
qed

lemma move_cursor_refines:
  assumes "con_ok s"
  shows "con_ok (console_move_cursor (console_x s) (console_y s) s)"
    "con_abs (console_move_cursor (console_x s) (console_y s) s) = term_cursor (con_abs s)"
    "console_initialized (console_move_cursor x y s) = console_initialized s"
proof -
  let ?pos = "console_y s * 80 + console_x s"
  have i: "unat ?pos = 80 * unat (console_y s) + unat (console_x s)" using assms by (intro cell_index) (simp_all add: con_ok_def)
  then have b: "unat ?pos < 2000" using assms by (simp add: con_ok_def)
  show "con_ok (console_move_cursor (console_x s) (console_y s) s)" using assms by (simp add: console_move_cursor_def Let_def)
  show "console_initialized (console_move_cursor x y s) = console_initialized s" by (simp add: console_move_cursor_def Let_def)
  show "con_abs (console_move_cursor (console_x s) (console_y s) s) = term_cursor (con_abs s)"
    using cursor_halves[OF b] i
    by (simp add: console_move_cursor_def Let_def con_abs_def term_cursor_def crtc_cursor_def split: prod.splits)
qed

lemma con_abs_sel: "t_x (con_abs s) = unat (console_x s)" "t_y (con_abs s) = unat (console_y s)"
  by (simp_all add: con_abs_def)

text \<open>A character other than a tab, between the mirroring and the move of the cursor.\<close>

definition char_action :: "u8 \<Rightarrow> console \<Rightarrow> console" where
  "char_action c s =
     (if c = 13 then s\<lparr>console_x := 0\<rparr>
      else if c = 10 then console_newline s
      else if c = 8 then (if console_x s > 0 then put_cell 32 (s\<lparr>console_x := console_x s - 1\<rparr>) else s)
      else if c \<ge> 32 \<and> c \<le> 126 then
        (let s = put_cell c s; s = s\<lparr>console_x := console_x s + 1\<rparr> in if console_x s \<ge> 80 then console_newline s else s)
      else s)"

lemma backspace_refines:
  assumes ok: "con_ok s"
  shows "con_ok (char_action 8 s) \<and> con_abs (char_action 8 s) = term_action 8 (con_abs s) \<and>
    console_initialized (char_action 8 s) = console_initialized s"
proof (cases "console_x s = 0")
  case True
  then show ?thesis using ok by (simp add: char_action_def term_action_def con_abs_def)
next
  case False
  then have x: "unat (console_x s - 1) = unat (console_x s) - 1" "unat (console_x s) \<noteq> 0"
    by (simp_all add: unat_minus_one unat_eq_0)
  have x': "unat (console_x s) - 1 < 80" using ok unfolding con_ok_def by linarith
  define u where "u = s\<lparr>console_x := console_x s - 1\<rparr>"
  have u: "con_ok u" "con_abs u = (con_abs s)\<lparr>t_x := unat (console_x s) - 1\<rparr>" "console_initialized u = console_initialized s"
    using ok x x' by (simp_all add: u_def con_ok_def con_abs_def con_log_def)
  have pos: "console_x s > 0" using False by (simp add: word_neq_0_conv)
  show ?thesis using pos x put_cell_refines[OF u(1), of 32] u(2,3) unfolding char_action_def term_action_def
    by (simp add: u_def[symmetric] con_abs_sel)
qed

lemma glyph_refines:
  assumes ok: "con_ok s" and c: "c \<noteq> 13" "c \<noteq> 10" "c \<noteq> 8" "32 \<le> c \<and> c \<le> 126"
  shows "con_ok (char_action c s) \<and> con_abs (char_action c s) = term_action c (con_abs s) \<and>
    console_initialized (char_action c s) = console_initialized s"
proof -
  define u where "u = put_cell c s"
  have u: "con_ok u" "con_abs u = term_set c (con_abs s)" "console_initialized u = console_initialized s"
    using put_cell_refines[OF ok, of c] by (simp_all add: u_def)
  have ub: "length (vga_memory u) = 2000" "unat (console_x u) < 80" "unat (console_y u) < 25" using u(1) by (simp_all add: con_ok_def)
  define v where "v = u\<lparr>console_x := console_x u + 1\<rparr>"
  have x: "unat (console_x v) = unat (console_x u) + 1" using ub(2) by (simp add: v_def unat_word_ariths)
  then have edge: "console_x v \<ge> 80 \<longleftrightarrow> \<not> unat (console_x u) + 1 < 80" by (simp add: word_le_nat_alt not_less)
  have run: "char_action c s = (if console_x v \<ge> 80 then console_newline v else v)"
    using c by (simp add: char_action_def u_def v_def Let_def)
  have spec: "term_action c (con_abs s) = (if unat (console_x u) + 1 < 80 then (con_abs u)\<lparr>t_x := unat (console_x u) + 1\<rparr> else term_newline (con_abs u))"
    using c by (simp add: term_action_def u(2)[symmetric] con_abs_sel Let_def)
  have "con_abs v = (con_abs u)\<lparr>t_x := unat (console_x u) + 1\<rparr>" using x by (simp add: v_def con_abs_def con_log_def)
  moreover have "term_newline (t\<lparr>t_x := k\<rparr>) = term_newline t" for t k by (simp add: term_newline_def)
  moreover have "con_ok (console_newline v)" "con_abs (console_newline v) = term_newline (con_abs v)" "console_initialized (console_newline v) = console_initialized v"
    using newline_refines[of v] ub by (simp_all add: v_def)
  moreover have "con_ok v" if "unat (console_x u) + 1 < 80" using that ub x by (simp add: con_ok_def v_def)
  moreover have "console_initialized v = console_initialized s" using u(3) by (simp add: v_def)
  ultimately show ?thesis unfolding run spec edge by simp
qed

lemma action_refines:
  assumes ok: "con_ok s"
  shows "con_ok (char_action c s) \<and> con_abs (char_action c s) = term_action c (con_abs s) \<and>
    console_initialized (char_action c s) = console_initialized s"
proof -
  consider (cr) "c = 13" | (lf) "c = 10" | (bs) "c = 8" | (other) "c \<noteq> 13" "c \<noteq> 10" "c \<noteq> 8" "\<not> (32 \<le> c \<and> c \<le> 126)"
    | (glyph) "c \<noteq> 13" "c \<noteq> 10" "c \<noteq> 8" "32 \<le> c \<and> c \<le> 126" by blast
  then show ?thesis
  proof cases
    case cr
    then show ?thesis using ok by (simp add: char_action_def term_action_def con_ok_def con_abs_def con_log_def)
  next
    case lf
    then show ?thesis using newline_refines[of s] ok by (simp add: char_action_def term_action_def con_ok_def)
  next
    case bs
    then show ?thesis using backspace_refines[OF ok] by simp
  next
    case other
    then show ?thesis using ok by (auto simp: char_action_def term_action_def)
  next
    case glyph
    then show ?thesis by (rule glyph_refines[OF ok])
  qed
qed

lemma char_refines:
  assumes "con_ok s" "c \<noteq> 9"
  shows "con_ok (console_put_char c s) \<and> con_abs (console_put_char c s) = term_char c (con_abs s) \<and>
    console_initialized (console_put_char c s) = console_initialized s"
proof -
  define u where "u = char_action c (outb 0x3F8 c s)"
  have u: "con_ok u" "con_abs u = term_action c ((con_abs s)\<lparr>t_serial := t_serial (con_abs s) @ [c]\<rparr>)" "console_initialized u = console_initialized s"
    using action_refines[of "outb 0x3F8 c s" c] assms(1) by (simp_all add: u_def mirror_refines)
  have "console_put_char c s = console_move_cursor (console_x u) (console_y u) u"
    using assms(2) unfolding console_put_char.simps[of c s] char_action_def u_def Let_def by simp
  then show ?thesis using move_cursor_refines[OF u(1)] u(2,3) by (simp add: term_char_def)
qed

lemma put_char_refines:
  assumes ok: "con_ok s"
  shows "con_ok (console_put_char c s) \<and> con_abs (console_put_char c s) = term_put c (con_abs s) \<and>
    console_initialized (console_put_char c s) = console_initialized s"
proof (cases "c = 9")
  case False
  then show ?thesis using char_refines[OF ok] by (simp add: term_put_def)
next
  case True
  define u where "u = foldl (\<lambda>s i. console_put_char 32 s) (outb 0x3F8 9 s) [0..<4]"
  have step: "con_ok (foldl (\<lambda>s i. console_put_char 32 s) s [0..<n]) \<and>
      con_abs (foldl (\<lambda>s i. console_put_char 32 s) s [0..<n]) = (term_char 32 ^^ n) (con_abs s) \<and>
      console_initialized (foldl (\<lambda>s i. console_put_char 32 s) s [0..<n]) = console_initialized s" if "con_ok s" for n s
    using that char_refines[of _ 32] by (induction n) simp_all
  have "con_ok u" "con_abs u = (term_char 32 ^^ 4) ((con_abs s)\<lparr>t_serial := t_serial (con_abs s) @ [9]\<rparr>)" "console_initialized u = console_initialized s"
    using step[of "outb 0x3F8 9 s" 4] ok by (simp_all add: u_def mirror_refines)
  moreover have "console_put_char c s = console_move_cursor (console_x u) (console_y u) u"
    using True unfolding console_put_char.simps[of c s] u_def Let_def by simp
  ultimately show ?thesis using True move_cursor_refines[of u] by (simp add: term_put_def)
qed

section \<open>Messages\<close>

definition term_clear :: "terminal \<Rightarrow> terminal" where
  "term_clear t = t\<lparr>t_rows := replicate 25 (replicate 80 (cell (t_color t) 32)), t_x := 0, t_y := 0\<rparr>"

definition term_ioctl :: "nat \<Rightarrow> u32 \<Rightarrow> u32 \<Rightarrow> u32 \<Rightarrow> terminal \<Rightarrow> terminal" where
  "term_ioctl bytes command a b t =
     (if command = 1 then term_clear t
      else if command = 2 \<and> bytes \<ge> 8 then t\<lparr>t_color := ucast (push_bit 4 b OR (a AND 0x0F))\<rparr>
      else if command = 3 \<and> bytes \<ge> 12 \<and> unat a < 80 \<and> unat b < 25 then term_cursor (t\<lparr>t_x := unat a, t_y := unat b\<rparr>)
      else t)"

text \<open>The last byte of a text is its terminator and is not shown.\<close>

definition term_message :: "abi_msg \<Rightarrow> terminal \<Rightarrow> status_t \<times> terminal" where
  "term_message m t =
     (if a_msg_type m = DRIVER_MSG_WRITE then (STATUS_SUCCESS, fold term_put (take (unat (a_data_size m) - 1) (a_data m)) t)
      else if a_msg_type m = DRIVER_MSG_IOCTL then
        (STATUS_SUCCESS, if unat (a_data_size m) \<ge> 4
           then term_ioctl (unat (a_data_size m)) (get32 (a_data m) 0) (get32 (a_data m) 1) (get32 (a_data m) 2) t else t)
      else (STATUS_INVALID_PARAM, t))"

lemma write_refines:
  assumes "con_ok s" "n \<le> length d"
  shows "con_ok (foldl (\<lambda>s i. console_put_char (d ! i) s) s [0..<n]) \<and>
    con_abs (foldl (\<lambda>s i. console_put_char (d ! i) s) s [0..<n]) = fold term_put (take n d) (con_abs s) \<and>
    console_initialized (foldl (\<lambda>s i. console_put_char (d ! i) s) s [0..<n]) = console_initialized s"
  using assms(2) by (induction n) (auto simp: assms(1) put_char_refines take_Suc_conv_app_nth)

lemma ioctl_refines:
  assumes ok: "con_ok s"
  shows "con_ok (console_ioctl m s) \<and> console_initialized (console_ioctl m s) = console_initialized s \<and>
    con_abs (console_ioctl m s) =
      term_ioctl (unat (a_data_size m)) (get32 (a_data m) 0) (get32 (a_data m) 1) (get32 (a_data m) 2) (con_abs s)"
proof -
  let ?a = "get32 (a_data m) 1" and ?b = "get32 (a_data m) 2"
  have len: "length (vga_memory s) = 2000" using ok by (simp add: con_ok_def)
  consider (clear) "get32 (a_data m) 0 = 1" | (color) "get32 (a_data m) 0 = 2" | (move) "get32 (a_data m) 0 = 3"
    | (other) "get32 (a_data m) 0 \<notin> {1, 2, 3}" by blast
  then show ?thesis
  proof cases
    case clear
    then show ?thesis using len
      by (simp add: console_ioctl_def term_ioctl_def term_clear_def con_ok_def con_abs_def con_log_def fill_screen_eq screen_rows_fill)
  next
    case color
    then show ?thesis using ok
      by (simp add: console_ioctl_def term_ioctl_def con_ok_def con_abs_def con_log_def word_le_nat_alt Let_def)
  next
    case move
    show ?thesis
    proof (cases "a_data_size m \<ge> 12 \<and> ?a < 80 \<and> ?b < 25")
      case True
      define u where "u = s\<lparr>console_x := ?a, console_y := ?b\<rparr>"
      have u: "con_ok u" "con_abs u = (con_abs s)\<lparr>t_x := unat ?a, t_y := unat ?b\<rparr>" "console_initialized u = console_initialized s"
        using True len by (simp_all add: u_def con_ok_def con_abs_def con_log_def word_less_nat_alt)
      have "console_ioctl m s = console_move_cursor (console_x u) (console_y u) u"
        using move True by (simp add: console_ioctl_def u_def Let_def)
      then show ?thesis using move_cursor_refines[OF u(1)] u(2,3) True move
        by (simp add: term_ioctl_def word_less_nat_alt word_le_nat_alt)
    next
      case False
      then show ?thesis using move ok by (auto simp: console_ioctl_def term_ioctl_def Let_def word_less_nat_alt word_le_nat_alt)
    qed
  next
    case other
    then show ?thesis using ok by (simp add: console_ioctl_def term_ioctl_def Let_def)
  qed
qed

lemma console_message_refines:
  assumes ok: "con_ok s" and init: "console_initialized s" and m: "valid_msg m"
  shows "\<exists>s'. console_driver_handle_message (Some m) s = Some (fst (term_message m (con_abs s)), s') \<and>
    con_ok s' \<and> console_initialized s' \<and> con_abs s' = snd (term_message m (con_abs s))"
proof -
  have size: "length (a_data m) = 256" "unat (a_data_size m) \<le> 256" using m by (simp_all add: valid_msg_def)
  consider (shown) "a_msg_type m = DRIVER_MSG_WRITE" | (ioctl) "a_msg_type m = DRIVER_MSG_IOCTL"
    | (other) "a_msg_type m \<noteq> DRIVER_MSG_WRITE" "a_msg_type m \<noteq> DRIVER_MSG_IOCTL" by blast
  then show ?thesis
  proof cases
    case shown
    show ?thesis
    proof (cases "a_data_size m = 0")
      case True
      then show ?thesis using shown ok init by (simp add: console_driver_handle_message_def term_message_def)
    next
      case False
      then have n: "unat (a_data_size m - 1) = unat (a_data_size m) - 1" "a_data_size m > 0"
        by (simp_all add: unat_minus_one word_neq_0_conv)
      then have le: "unat (a_data_size m) - 1 \<le> length (a_data m)" using size by simp
      show ?thesis using shown n init write_refines[OF ok le] le
        by (simp add: console_driver_handle_message_def term_message_def)
    qed
  next
    case ioctl
    then show ?thesis using init ok ioctl_refines[OF ok, of m]
      by (simp add: console_driver_handle_message_def term_message_def word_le_nat_alt)
  next
    case other
    then show ?thesis using init ok by (simp add: console_driver_handle_message_def term_message_def)
  qed
qed

text \<open>The driver talks to the same kernel all the time.\<close>

lemma outb_kernel [simp]: "kernel (c_env (outb p v s)) = kernel (c_env s)"
  by (simp add: outb_def)

lemma move_cursor_kernel [simp]: "kernel (c_env (console_move_cursor x y s)) = kernel (c_env s)"
  by (simp add: console_move_cursor_def Let_def)

lemma newline_kernel [simp]: "kernel (c_env (console_newline s)) = kernel (c_env s)"
  by (simp add: console_newline_def console_scroll_up_def console_clear_line_def Let_def)

lemma put_char_kernel [simp]: "kernel (c_env (console_put_char c s)) = kernel (c_env s)"
proof -
  have char: "kernel (c_env (console_put_char c s)) = kernel (c_env s)" if "c \<noteq> 9" for c s
    using that by (subst console_put_char.simps) (simp add: put_cell_def Let_def)
  have "kernel (c_env (foldl (\<lambda>s i. console_put_char 32 s) s [0..<n])) = kernel (c_env s)" for n s by (induction n) (simp_all add: char)
  then have "kernel (c_env (console_put_char 9 s)) = kernel (c_env s)" by (subst console_put_char.simps) (simp add: Let_def del: upt_rec_numeral)
  then show ?thesis using char by (cases "c = 9") auto
qed

lemma message_kernel:
  assumes "console_driver_handle_message (Some m) s = Some (r, s')"
  shows "kernel (c_env s') = kernel (c_env s)"
proof -
  have "kernel (c_env (foldl (\<lambda>s i. console_put_char (d ! i) s) s [0..<n])) = kernel (c_env s)" for d n by (induction n) simp_all
  moreover have "kernel (c_env (console_ioctl m s)) = kernel (c_env s)" by (simp add: console_ioctl_def Let_def)
  ultimately show ?thesis using assms by (auto simp: console_driver_handle_message_def split: if_splits)
qed

text \<open>One iteration of the driver's loop, when the kernel hands it a message.\<close>

lemma main_step_refines:
  assumes "con_ok s" "console_initialized s" "valid_msg m"
    and "kernel (c_env s) (e_calls (c_env s)) (Receive 0x21 0 True) = (STATUS_SUCCESS, Some m)"
  shows "\<exists>s'. console_main_step (buf, s) = Some (m, s') \<and> con_ok s' \<and> con_abs s' = snd (term_message m (con_abs s)) \<and>
    console_initialized s' \<and> kernel (c_env s') = kernel (c_env s)"
proof -
  define s1 where "s1 = s\<lparr>c_env := (c_env s)\<lparr>e_calls := Receive 0x21 0 True # e_calls (c_env s)\<rparr>\<rparr>"
  have s1: "con_ok s1" "console_initialized s1" "con_abs s1 = con_abs s" "kernel (c_env s1) = kernel (c_env s)"
    using assms(1,2) by (simp_all add: s1_def con_ok_def con_abs_def con_log_def)
  have "console_main_step (buf, s) = map_option (\<lambda>(_, s). (m, s)) (console_driver_handle_message (Some m) s1)"
    using assms(4) by (simp add: console_main_step_def ipc_receive_call_def syscall_def s1_def)
  then show ?thesis using console_message_refines[OF s1(1,2) assms(3)] s1(3,4) message_kernel by fastforce
qed

text \<open>The kernel fills the buffer of a successful receive with a message of a legal size.\<close>

definition honest_kernel :: "(ucall list \<Rightarrow> ucall \<Rightarrow> u32 \<times> abi_msg option) \<Rightarrow> bool" where
  "honest_kernel k \<longleftrightarrow> (\<forall>calls m. k calls (Receive 0x21 0 True) = (STATUS_SUCCESS, m) \<longrightarrow> (\<exists>m'. m = Some m' \<and> valid_msg m'))"

text \<open>The messages that the driver gets in its first iterations.\<close>

definition received :: "console \<Rightarrow> abi_msg option" where
  "received s = (let (r, m) = kernel (c_env s) (e_calls (c_env s)) (Receive 0x21 0 True) in if r = STATUS_SUCCESS then m else None)"

fun con_inputs :: "nat \<Rightarrow> abi_msg \<times> console \<Rightarrow> abi_msg list" where
  "con_inputs 0 x = []"
| "con_inputs (Suc n) x = (case received (snd x) of None \<Rightarrow> [] | Some m \<Rightarrow> [m]) @ (case console_main_step x of None \<Rightarrow> [] | Some x \<Rightarrow> con_inputs n x)"

lemma main_step_nothing:
  assumes "honest_kernel (kernel (c_env s))" "received s = None"
  shows "\<exists>buf'. console_main_step (buf, s) = Some (buf', s\<lparr>c_env := (c_env s)\<lparr>e_calls := Receive 0x21 0 True # e_calls (c_env s)\<rparr>\<rparr>)"
proof -
  obtain r m where k: "kernel (c_env s) (e_calls (c_env s)) (Receive 0x21 0 True) = (r, m)" by fastforce
  have "r \<noteq> STATUS_SUCCESS" using assms k by (fastforce simp: honest_kernel_def received_def)
  then show ?thesis using k by (simp add: console_main_step_def ipc_receive_call_def syscall_def)
qed

lemma loop_refines:
  "con_ok s \<Longrightarrow> console_initialized s \<Longrightarrow> honest_kernel (kernel (c_env s)) \<Longrightarrow>
   \<exists>buf' s'. console_loop n (buf, s) = Some (buf', s') \<and> con_ok s' \<and>
     con_abs s' = fold (\<lambda>m t. snd (term_message m t)) (con_inputs n (buf, s)) (con_abs s)"
proof (induction n arbitrary: buf s)
  case (Suc n)
  show ?case
  proof (cases "received s")
    case None
    define s1 where "s1 = s\<lparr>c_env := (c_env s)\<lparr>e_calls := Receive 0x21 0 True # e_calls (c_env s)\<rparr>\<rparr>"
    have s1: "con_ok s1" "console_initialized s1" "con_abs s1 = con_abs s" "kernel (c_env s1) = kernel (c_env s)"
      using Suc.prems by (simp_all add: s1_def con_ok_def con_abs_def con_log_def)
    obtain buf' where "console_main_step (buf, s) = Some (buf', s1)" using main_step_nothing[OF Suc.prems(3) None] unfolding s1_def by blast
    then show ?thesis using Suc.IH[of s1 buf'] Suc.prems(3) s1 None by simp
  next
    case (Some m)
    then have k: "kernel (c_env s) (e_calls (c_env s)) (Receive 0x21 0 True) = (STATUS_SUCCESS, Some m)"
      by (auto simp: received_def split: prod.splits if_splits)
    then have "valid_msg m" using Suc.prems(3) by (fastforce simp: honest_kernel_def)
    then obtain s1 where "console_main_step (buf, s) = Some (m, s1)" "con_ok s1" "con_abs s1 = snd (term_message m (con_abs s))"
      "console_initialized s1" "kernel (c_env s1) = kernel (c_env s)"
      using main_step_refines[OF Suc.prems(1,2) _ k] by blast
    then show ?thesis using Suc.IH[of s1 m] Suc.prems(3) Some by simp
  qed
qed simp

text \<open>The screen after the initialisation: blank but for its message on the first row, the next character on the second.\<close>

lemma console_init_refines:
  assumes "\<not> console_initialized s" "length (vga_memory s) = 2000" "c_manager s = boot_manager"
  defines "s' \<equiv> snd (console_driver_init s)"
  shows "fst (console_driver_init s) = STATUS_SUCCESS \<and> con_ok s' \<and> console_initialized s' \<and> kernel (c_env s') = kernel (c_env s) \<and>
    con_abs s' = fold (term_put \<circ> of_char) console_banner (term_clear (con_abs s))"
proof -
  have slot: "None \<in> set (registered_drivers boot_manager)" by (simp add: boot_manager_def MAX_DRIVERS_def)
  have reg: "fst (driver_register (Some d) boot_manager) = STATUS_SUCCESS" for d
    by (rule register_cases[OF boot_manager_inv(1), of d]) (use slot boot_manager_inv(2) in auto)
  obtain r where r: "driver_register (Some console_driver) boot_manager = (STATUS_SUCCESS, r)" using reg[of console_driver] by (metis prod.collapse)
  define u where "u = s\<lparr>vga_memory := replicate 2000 (cell (console_color s) 32), console_x := 0, console_y := 0, console_pid := 3,
    c_manager := r,
    c_env := snd (driver_register_wrapper (d_name console_driver) (d_capabilities console_driver) (c_env s)), console_initialized := True\<rparr>"
  have u: "con_ok u" "console_initialized u" "con_abs u = term_clear (con_abs s)" "kernel (c_env u) = kernel (c_env s)"
    by (simp_all add: u_def con_ok_def con_abs_def term_clear_def screen_rows_fill con_log_def driver_register_wrapper_def call_value_def
        syscall_def split: prod.splits)
  have shown: "con_ok (foldl (\<lambda>s c. console_put_char (of_char c) s) u str) \<and> console_initialized (foldl (\<lambda>s c. console_put_char (of_char c) s) u str) \<and>
      con_abs (foldl (\<lambda>s c. console_put_char (of_char c) s) u str) = fold (term_put \<circ> of_char) str (con_abs u) \<and>
      kernel (c_env (foldl (\<lambda>s c. console_put_char (of_char c) s) u str)) = kernel (c_env s)" for str
    by (induction str rule: rev_induct) (auto simp: u put_char_refines)
  have "console_driver_init s = (STATUS_SUCCESS, driver_print (Some console_banner) u)"
    using assms(1-3) by (simp add: console_driver_init_def Let_def u_def fill_screen_eq r)
  then show ?thesis unfolding s'_def using shown u(2-4) by (simp add: driver_print_def)
qed

text \<open>The initialisation of a driver whose registry is as at the start succeeds, so that the yields behind \<^verbatim>\<open>main\<close> are never reached.\<close>

lemma console_start_loops:
  assumes "\<not> console_initialized s" "length (vga_memory s) = 2000" "c_manager s = boot_manager"
  shows "console_start n j buf s = console_loop n (buf, snd (console_driver_init s))"
  using console_init_refines[OF assms] by (simp add: console_start_def console_main_def split_beta option.map_comp o_def option.map_ident)

text \<open>
  C19: The console driver is a terminal of 25 rows of 80 cells. Its \<^verbatim>\<open>main\<close> initialises it and never ends; after any number of iterations of its
  loop, with whatever messages of a legal size the kernel delivers, there was no access outside the 2000 cells, and the screen, the place of the next
  character, the colour, the bytes sent on the serial line and the position given to the display controller are those of the
  terminal after these messages: text is shown from the current place on, wraps at the end of a row, scrolls the screen by one row at its end, and the
  control characters and control requests have their meaning.
\<close>

theorem console_is_terminal:
  assumes "\<not> console_initialized s" "length (vga_memory s) = 2000" "c_manager s = boot_manager" "honest_kernel (kernel (c_env s))"
  shows "\<exists>buf' s'. console_main n buf s = Some (Loops (buf', s')) \<and> con_ok s' \<and>
    con_abs s' = fold (\<lambda>m t. snd (term_message m t)) (con_inputs n (buf, snd (console_driver_init s)))
      (fold (term_put \<circ> of_char) console_banner (term_clear (con_abs s)))"
proof -
  note I = console_init_refines[OF assms(1-3)]
  then have "console_main n buf s = map_option Loops (console_loop n (buf, snd (console_driver_init s)))"
    by (simp add: console_main_def split_beta)
  then show ?thesis using loop_refines[of "snd (console_driver_init s)" n buf] I assms(4) by auto
qed

definition demo_console :: console where
  "demo_console = \<lparr>console_initialized = False, console_pid = 0, vga_memory = replicate 2000 0, console_x = 0, console_y = 0,
     console_color = 7, c_manager = boot_manager, c_env = \<lparr>e_io = \<lparr>io_log = [], dev_inb = (\<lambda>_ _. 0), dev_inw = (\<lambda>_ _. 0),
       port_permissions = []\<rparr>, e_calls = [], kernel = (\<lambda>_ _. (0, None))\<rparr>\<rparr>"

lemma term_put_color: "t_color (fold (term_put \<circ> of_char) str t) = t_color t"
proof (induction str arbitrary: t)
  case (Cons c str)
  have "t_color (term_char d u) = t_color u" for d u
    by (simp add: term_char_def term_cursor_def term_action_def term_set_def term_newline_def Let_def)
  moreover from this have "t_color ((term_char 32 ^^ n) u) = t_color u" for n u by (induction n) simp_all
  ultimately show ?case using Cons by (simp add: term_put_def term_cursor_def)
qed simp

text \<open>A kernel that always delivers the request to clear the screen.\<close>

definition clear_request :: abi_msg where
  "clear_request = empty_msg\<lparr>a_msg_type := DRIVER_MSG_IOCTL, a_data_size := 4, a_data := put32 0 1 (replicate 256 0)\<rparr>"

theorem console_is_terminal_witness:
  "let s = demo_console\<lparr>c_env := (c_env demo_console)\<lparr>kernel := (\<lambda>_ _. (STATUS_SUCCESS, Some clear_request))\<rparr>\<rparr>
   in \<exists>buf' s'. console_main 1 empty_msg s = Some (Loops (buf', s')) \<and>
     t_rows (con_abs s') = replicate 25 (replicate 80 0x0720) \<and> t_x (con_abs s') = 0 \<and> t_y (con_abs s') = 0"
proof -
  define s where "s = demo_console\<lparr>c_env := (c_env demo_console)\<lparr>kernel := (\<lambda>_ _. (STATUS_SUCCESS, Some clear_request))\<rparr>\<rparr>"
  have ok: "\<not> console_initialized s" "length (vga_memory s) = 2000" "c_manager s = boot_manager"
    by (simp_all add: s_def demo_console_def)
  moreover have "honest_kernel (kernel (c_env s))" by (simp add: honest_kernel_def s_def clear_request_def empty_msg_def valid_msg_def)
  ultimately obtain buf' s' where s': "console_main 1 empty_msg s = Some (Loops (buf', s'))"
    "con_abs s' = fold (\<lambda>m t. snd (term_message m t)) (con_inputs 1 (empty_msg, snd (console_driver_init s)))
      (fold (term_put \<circ> of_char) console_banner (term_clear (con_abs s)))"
    using console_is_terminal[of s 1 empty_msg] by blast
  have "received (snd (console_driver_init s)) = Some clear_request"
    using console_init_refines[OF ok] by (simp add: received_def) (simp add: s_def)
  then have i: "con_inputs 1 (empty_msg, snd (console_driver_init s)) = [clear_request]"
    by (simp split: option.splits)
  define t where "t = fold (term_put \<circ> of_char) console_banner (term_clear (con_abs s))"
  have "t_color t = 7" unfolding t_def term_put_color by (simp add: term_clear_def con_abs_def s_def demo_console_def)
  moreover have "con_abs s' = term_clear t" using s'(2) unfolding t_def[symmetric] i
    by (simp add: term_message_def term_ioctl_def clear_request_def empty_msg_def)
  moreover have "cell 7 32 = 0x0720" by (simp add: cell_def)
  ultimately have "t_rows (con_abs s') = replicate 25 (replicate 80 0x0720) \<and> t_x (con_abs s') = 0 \<and> t_y (con_abs s') = 0"
    by (simp add: term_clear_def)
  then show ?thesis using s'(1) unfolding s_def[symmetric] Let_def by blast
qed

section \<open>Reaching the driver\<close>

text \<open>
  The registry's send looks at the slot with the number of the identifier, not at the slot the driver is in: the console driver,
  identifier 3, alone in its registry sits in slot 0 and is not found there.
\<close>

lemma driver_send_wrong_slot:
  "let s = snd (driver_register (Some console_driver) boot_manager) in
     driver_find (Some ''console'') True s = (STATUS_SUCCESS, Some 3) \<and>
     driver_send_message send 3 (Some m) s e = (STATUS_NOT_FOUND, e)"
proof -
  have slots: "[0..<16] = [0 :: nat, 1, 2, 3, 4, 5, 6, 7, 8, 9, 10, 11, 12, 13, 14, 15]" by (simp add: upt_rec)
  show ?thesis
    by (simp add: driver_register_def driver_find_def driver_send_message_def slot_with_def boot_manager_def MAX_DRIVERS_def
        console_driver_def slots Let_def)
qed

end
