(* ===== verification/Timer_Driver.thy ===== *)
theory Timer_Driver
  imports Userspace
begin

text \<open>
  The timer driver, \<^verbatim>\<open>drivers/timer.c\<close>: it counts the ticks the kernel reports, answers requests for the count, and keeps up to 32
  delay requests, each of which it answers once with an identifier and a second time when its ticks have passed.
\<close>

section \<open>The driver\<close>

record timer_request =
  request_id :: u32
  target_pid :: u32
  target_ticks :: u32
  active :: bool

record timer_state =
  timer_initialized :: bool
  timer_ticks :: u32
  timer_frequency :: u32
  timer_requests :: "timer_request list"
  next_request_id :: u32
  t_manager :: manager
  t_env :: env

definition timer_driver :: driver_interface where
  "timer_driver = \<lparr>d_name = ''timer'', d_driver_id = 4, d_capabilities = 0x05, d_has_shutdown = False\<rparr>"

definition timer_driver_init :: "timer_state \<Rightarrow> status_t \<times> timer_state" where
  "timer_driver_init s =
     (if timer_initialized s then (STATUS_SUCCESS, s)
      else (STATUS_SUCCESS, s\<lparr>timer_requests := foldl (\<lambda>rs i. rs[i := (rs ! i)\<lparr>active := False\<rparr>]) (timer_requests s) [0..<32],
        t_manager := snd (driver_register (Some timer_driver) (t_manager s)),
        t_env := snd (driver_register_wrapper (d_name timer_driver) (d_capabilities timer_driver) (t_env s)), timer_initialized := True\<rparr>))"

definition timer_driver_shutdown :: "timer_state \<Rightarrow> status_t \<times> timer_state" where
  "timer_driver_shutdown s =
     (if \<not> timer_initialized s then (STATUS_SUCCESS, s)
      else (STATUS_SUCCESS, s\<lparr>t_manager := snd (driver_unregister (d_driver_id timer_driver) (t_manager s)), timer_initialized := False\<rparr>))"

definition word_response :: "u32 \<Rightarrow> u32 \<Rightarrow> abi_msg" where
  "word_response type v = empty_msg\<lparr>a_msg_type := type, a_data_size := 4, a_data := put32 0 v (a_data empty_msg)\<rparr>"

definition timer_send :: "u32 \<Rightarrow> abi_msg \<Rightarrow> timer_state \<Rightarrow> timer_state" where
  "timer_send pid m s = s\<lparr>t_env := snd (ipc_send_call pid m (t_env s))\<rparr>"

definition timer_check_requests :: "timer_state \<Rightarrow> timer_state" where
  "timer_check_requests s =
     foldl (\<lambda>s i.
       if active (timer_requests s ! i) \<and> target_ticks (timer_requests s ! i) \<le> timer_ticks s then
         (let s = s\<lparr>timer_requests := (timer_requests s)[i := (timer_requests s ! i)\<lparr>active := False\<rparr>]\<rparr>
          in timer_send (target_pid (timer_requests s ! i)) (word_response DRIVER_MSG_IOCTL (request_id (timer_requests s ! i))) s)
       else s) s [0..<32]"

text \<open>The identifier of the request, 0 when all 32 are taken.\<close>

definition timer_add_request :: "u32 \<Rightarrow> u32 \<Rightarrow> timer_state \<Rightarrow> u32 \<times> timer_state" where
  "timer_add_request pid delay_ticks s =
     (case find (\<lambda>i. \<not> active (timer_requests s ! i)) [0..<32] of
        None \<Rightarrow> (0, s)
      | Some i \<Rightarrow> (next_request_id s, s\<lparr>next_request_id := next_request_id s + 1,
          timer_requests := (timer_requests s)[i := \<lparr>request_id = next_request_id s, target_pid = pid,
            target_ticks = timer_ticks s + delay_ticks, active = True\<rparr>]\<rparr>))"

definition timer_driver_handle_message :: "abi_msg option \<Rightarrow> timer_state \<Rightarrow> status_t \<times> timer_state" where
  "timer_driver_handle_message msg s = (case msg of
     None \<Rightarrow> (STATUS_INVALID_PARAM, s)
   | Some m \<Rightarrow>
       if \<not> timer_initialized s then (STATUS_INVALID_PARAM, s)
       else if a_msg_type m = MSG_DRIVER then
         (STATUS_SUCCESS, timer_check_requests (s\<lparr>timer_ticks := timer_ticks s + 1\<rparr>))
       else if a_msg_type m = DRIVER_MSG_IOCTL then
         (STATUS_SUCCESS,
          if a_data_size m \<ge> 8 \<and> get32 (a_data m) 0 = 0x03 then
            (let delay_ms = get32 (a_data m) 1; delay_ticks = (delay_ms * timer_frequency s) div 1000;
                 (id, s) = timer_add_request (a_sender_pid m) delay_ticks s
             in timer_send (a_sender_pid m) (word_response DRIVER_MSG_IOCTL id) s)
          else s)
       else if a_msg_type m = DRIVER_MSG_READ then
         (STATUS_SUCCESS, timer_send (a_sender_pid m) (word_response DRIVER_MSG_READ (timer_ticks s)) s)
       else (STATUS_INVALID_PARAM, s))"

definition timer_main_step :: "abi_msg \<times> timer_state \<Rightarrow> abi_msg \<times> timer_state" where
  "timer_main_step = (\<lambda>(buf, s).
     let ((r, buf), e) = ipc_receive_call 0 buf True (t_env s); s = s\<lparr>t_env := e\<rparr>
     in (buf, if r = STATUS_SUCCESS then snd (timer_driver_handle_message (Some buf) s) else s))"

definition timer_main :: "nat \<Rightarrow> abi_msg \<Rightarrow> timer_state \<Rightarrow> (abi_msg \<times> timer_state) main_run" where
  "timer_main n buf s =
     (let (r, s) = timer_driver_init s
      in if r \<noteq> STATUS_SUCCESS then Exits 1 (buf, s) else Loops ((timer_main_step ^^ n) (buf, s)))"

definition timer_start :: "nat \<Rightarrow> nat \<Rightarrow> abi_msg \<Rightarrow> timer_state \<Rightarrow> abi_msg \<times> timer_state" where
  "timer_start n j buf s =
     start_program (\<lambda>(buf, s). (buf, s\<lparr>t_env := process_yield_call (t_env s)\<rparr>)) j (timer_main n buf s)"

section \<open>The pending requests\<close>

definition due :: "timer_state \<Rightarrow> timer_request \<Rightarrow> bool" where
  "due s r \<longleftrightarrow> active r \<and> target_ticks r \<le> timer_ticks s"

definition tm_calls :: "timer_state \<Rightarrow> ucall list" where
  "tm_calls s = e_calls (t_env s)"

definition notice :: "timer_request \<Rightarrow> ucall" where
  "notice r = Message 0x20 (target_pid r) (word_response DRIVER_MSG_IOCTL (request_id r))"

definition tm_ok :: "timer_state \<Rightarrow> bool" where
  "tm_ok s \<longleftrightarrow> timer_initialized s \<and> timer_frequency s = 100 \<and> length (timer_requests s) = 32 \<and> 0 < unat (next_request_id s) \<and>
     distinct (map request_id (filter active (timer_requests s))) \<and>
     (\<forall>r \<in> set (timer_requests s). active r \<longrightarrow> 0 < unat (request_id r) \<and> unat (request_id r) < unat (next_request_id s))"

lemma timer_send_fields [simp]:
  "timer_requests (timer_send p m s) = timer_requests s" "timer_ticks (timer_send p m s) = timer_ticks s"
  "timer_initialized (timer_send p m s) = timer_initialized s" "timer_frequency (timer_send p m s) = timer_frequency s"
  "next_request_id (timer_send p m s) = next_request_id s" "tm_calls (timer_send p m s) = Message 0x20 p m # tm_calls s"
  by (simp_all add: timer_send_def tm_calls_def ipc_send_call_def call_value_def syscall_def split: prod.splits)

text \<open>The loop clears every request that is due and sends its notification, in the order of the slots.\<close>

lemma check_loop:
  fixes s t :: timer_state and f :: "timer_state \<Rightarrow> nat \<Rightarrow> timer_state" and g :: "timer_request \<Rightarrow> timer_request" and n :: nat
  assumes "length (timer_requests s) = 32" "n \<le> 32"
  defines "f \<equiv> \<lambda>s i.
       if active (timer_requests s ! i) \<and> target_ticks (timer_requests s ! i) \<le> timer_ticks s then
         (let s = s\<lparr>timer_requests := (timer_requests s)[i := (timer_requests s ! i)\<lparr>active := False\<rparr>]\<rparr>
          in timer_send (target_pid (timer_requests s ! i)) (word_response DRIVER_MSG_IOCTL (request_id (timer_requests s ! i))) s)
       else s"
    and "g \<equiv> \<lambda>r. if due s r then r\<lparr>active := False\<rparr> else r" and "t \<equiv> foldl f s [0..<n]"
  shows "timer_requests t = map g (take n (timer_requests s)) @ drop n (timer_requests s) \<and>
      tm_calls t = rev (map notice (filter (due s) (take n (timer_requests s)))) @ tm_calls s \<and>
      timer_ticks t = timer_ticks s \<and> timer_initialized t = timer_initialized s \<and> timer_frequency t = timer_frequency s \<and>
      next_request_id t = next_request_id s"
  using assms(2) unfolding t_def
proof (induction n)
  case (Suc n)
  let ?rs = "timer_requests s"
  define t where "t = foldl f s [0..<n]"
  have t: "timer_requests t = map g (take n ?rs) @ drop n ?rs" "tm_calls t = rev (map notice (filter (due s) (take n ?rs))) @ tm_calls s"
    "timer_ticks t = timer_ticks s" "timer_initialized t = timer_initialized s" "timer_frequency t = timer_frequency s"
    "next_request_id t = next_request_id s"
    using Suc by (simp_all add: t_def)
  have n: "n < length ?rs" using Suc.prems assms(1) by simp
  have d: "drop n ?rs = ?rs ! n # drop (Suc n) ?rs" using n by (simp add: Cons_nth_drop_Suc)
  have nth: "timer_requests t ! n = ?rs ! n" using n t(1) by (simp add: nth_append)
  have upd: "(timer_requests t)[n := x] = map g (take n ?rs) @ x # drop (Suc n) ?rs" for x
    using n unfolding t(1) d by (simp add: list_update_append)
  have take: "take (Suc n) ?rs = take n ?rs @ [?rs ! n]" using n by (simp add: take_Suc_conv_app_nth)
  have step: "foldl f s [0..<Suc n] = f t n" by (simp add: t_def)
  show ?case
  proof (cases "due s (?rs ! n)")
    case True
    then have "f t n = timer_send (target_pid (?rs ! n)) (word_response DRIVER_MSG_IOCTL (request_id (?rs ! n)))
        (t\<lparr>timer_requests := map g (take n ?rs) @ (?rs ! n)\<lparr>active := False\<rparr> # drop (Suc n) ?rs\<rparr>)"
      using n by (simp add: f_def nth t(3) upd Let_def nth_append due_def)
    moreover have "tm_calls (t\<lparr>timer_requests := x\<rparr>) = tm_calls t" for x by (simp add: tm_calls_def)
    ultimately show ?thesis unfolding step using True t take by (simp add: notice_def g_def)
  next
    case False
    then have "f t n = t" by (auto simp: f_def nth t(3) due_def)
    then show ?thesis unfolding step using False t take d by (simp add: g_def)
  qed
qed simp

lemma check_requests_spec:
  assumes "length (timer_requests s) = 32"
  defines "s' \<equiv> timer_check_requests s"
  shows "timer_requests s' = map (\<lambda>r. if due s r then r\<lparr>active := False\<rparr> else r) (timer_requests s)"
    "tm_calls s' = rev (map notice (filter (due s) (timer_requests s))) @ tm_calls s"
    "timer_ticks s' = timer_ticks s" "timer_initialized s' = timer_initialized s" "timer_frequency s' = timer_frequency s"
    "next_request_id s' = next_request_id s"
  using check_loop[OF assms(1), of 32] assms(1) by (simp_all add: s'_def timer_check_requests_def)

definition pending :: "timer_state \<Rightarrow> u32 \<rightharpoonup> timer_request" where
  "pending s = map_of (map (\<lambda>r. (request_id r, r)) (filter active (timer_requests s)))"

text \<open>The processes that have been sent the identifier, the earliest first.\<close>

fun receivers :: "u32 \<Rightarrow> ucall list \<Rightarrow> u32 list" where
  "receivers k [] = []"
| "receivers k (c # cs) = receivers k cs @ (case c of
     Message n p m \<Rightarrow> if n = 0x20 \<and> a_msg_type m = DRIVER_MSG_IOCTL \<and> get32 (a_data m) 0 = k then [p] else []
   | _ \<Rightarrow> [])"

lemma receivers_append: "receivers k (xs @ ys) = receivers k ys @ receivers k xs"
  by (induction xs) simp_all

lemma word_response_fields [simp]:
  "a_msg_type (word_response t v) = t" "get32 (a_data (word_response t v)) 0 = v"
  by (simp_all add: word_response_def empty_msg_def)

lemma receivers_notices: "receivers k (rev (map notice rs)) = map target_pid (filter (\<lambda>r. request_id r = k) rs)"
  by (induction rs) (simp_all add: receivers_append notice_def)

lemma filter_key:
  "distinct (map f xs) \<Longrightarrow> filter (\<lambda>x. f x = k) xs = (case map_of (map (\<lambda>x. (f x, x)) xs) k of None \<Rightarrow> [] | Some x \<Rightarrow> [x])"
proof (induction xs)
  case (Cons x xs)
  have "f y \<noteq> f x" if "y \<in> set xs" for y using Cons.prems imageI[OF that, of f] by auto
  then have "filter (\<lambda>y. f y = f x) xs = []" by (simp add: filter_empty_conv)
  then show ?case using Cons by auto
qed simp

lemma map_of_filter_key:
  "distinct (map f xs) \<Longrightarrow> map_of (map (\<lambda>x. (f x, x)) (filter P xs)) k =
     (case map_of (map (\<lambda>x. (f x, x)) xs) k of None \<Rightarrow> None | Some x \<Rightarrow> if P x then Some x else None)"
proof (induction xs)
  case (Cons x xs)
  have "map_of (map (\<lambda>x. (f x, x)) ys) (f x) = None" if "set ys \<subseteq> set xs" for ys
    using Cons.prems that by (auto simp: map_of_eq_None_iff)
  from this[of xs] this[of "filter P xs"] show ?case using Cons by auto
qed simp

text \<open>What one message does to the requests: a tick takes out those that are due and notifies them, and nothing else does.\<close>

definition is_tick :: "abi_msg \<Rightarrow> bool" where
  "is_tick m \<longleftrightarrow> a_msg_type m = MSG_DRIVER"

definition fires :: "timer_state \<Rightarrow> u32 \<Rightarrow> u32 option" where
  "fires s k = (case pending s k of None \<Rightarrow> None | Some r \<Rightarrow> if target_ticks r \<le> timer_ticks s + 1 then Some (target_pid r) else None)"

lemma tick_spec:
  assumes ok: "tm_ok s"
  defines "s' \<equiv> timer_check_requests (s\<lparr>timer_ticks := timer_ticks s + 1\<rparr>)"
  shows "tm_ok s'" "timer_ticks s' = timer_ticks s + 1" "next_request_id s' = next_request_id s"
    "receivers k (tm_calls s') = receivers k (tm_calls s) @ (case fires s k of None \<Rightarrow> [] | Some p \<Rightarrow> [p])"
    "pending s' k = (if fires s k = None then pending s k else None)"
proof -
  define u where "u = s\<lparr>timer_ticks := timer_ticks s + 1\<rparr>"
  let ?rs = "timer_requests s" and ?late = "\<lambda>r. target_ticks r \<le> timer_ticks s + 1"
  have len: "length (timer_requests u) = 32" using ok by (simp add: u_def tm_ok_def)
  have d: "distinct (map request_id (filter active ?rs))" using ok by (simp add: tm_ok_def)
  have u: "due u = (\<lambda>r. active r \<and> ?late r)" "timer_requests u = ?rs" "tm_calls u = tm_calls s"
    by (simp_all add: due_def u_def tm_calls_def fun_eq_iff)
  note S = check_requests_spec[OF len, folded u_def, unfolded u]
  have s': "s' = timer_check_requests u" by (simp add: s'_def u_def)
  have act: "filter active (timer_requests s') = filter (\<lambda>r. \<not> ?late r) (filter active ?rs)"
  proof -
    have "filter active (map (\<lambda>r. if active r \<and> ?late r then r\<lparr>active := False\<rparr> else r) rs) = filter (\<lambda>r. \<not> ?late r) (filter active rs)" for rs
      by (induction rs) auto
    then show ?thesis unfolding s' S(1) by simp
  qed
  show ticks: "timer_ticks s' = timer_ticks s + 1" and nxt: "next_request_id s' = next_request_id s" using S(3,6) by (simp_all add: s' u_def)
  have "distinct (map request_id (filter active (timer_requests s')))" unfolding act by (rule distinct_map_filter) (rule d)
  moreover have "0 < unat (request_id r) \<and> unat (request_id r) < unat (next_request_id s)" if "r \<in> set (timer_requests s')" "active r" for r
  proof -
    have "r \<in> set (filter active (timer_requests s'))" using that by simp
    then have "r \<in> set ?rs" "active r" unfolding act by simp_all
    then show ?thesis using ok by (simp add: tm_ok_def)
  qed
  moreover have "length (timer_requests s') = 32" using S(1) len by (simp add: s' u(2))
  ultimately show "tm_ok s'" using ok nxt S(4,5) by (simp add: tm_ok_def s' u_def)
  have "filter (\<lambda>r. request_id r = k) (filter (\<lambda>r. active r \<and> ?late r) ?rs) = filter ?late (filter (\<lambda>r. request_id r = k) (filter active ?rs))"
    by (simp add: conj_ac)
  also have "\<dots> = (case pending s k of None \<Rightarrow> [] | Some r \<Rightarrow> if ?late r then [r] else [])"
    unfolding filter_key[OF d] pending_def by (simp split: option.splits)
  finally show "receivers k (tm_calls s') = receivers k (tm_calls s) @ (case fires s k of None \<Rightarrow> [] | Some p \<Rightarrow> [p])"
    unfolding s' S(2) receivers_append receivers_notices by (simp add: fires_def split: option.splits)
  show "pending s' k = (if fires s k = None then pending s k else None)"
    unfolding pending_def[of s'] act map_of_filter_key[OF d] by (simp add: fires_def pending_def split: option.splits)
qed

text \<open>A request with a new identifier that is put in a free slot is one more pending request.\<close>

lemma place_request:
  assumes i: "i < length rs" "\<not> active (rs ! i)" and r: "active r" "request_id r \<notin> request_id ` set (filter active rs)"
  shows "map_of (map (\<lambda>r. (request_id r, r)) (filter active (rs[i := r]))) =
      (map_of (map (\<lambda>r. (request_id r, r)) (filter active rs)))(request_id r \<mapsto> r)" (is ?map)
    and "distinct (map request_id (filter active rs)) \<Longrightarrow> distinct (map request_id (filter active (rs[i := r])))"
    and "set (filter active (rs[i := r])) = insert r (set (filter active rs))"
proof -
  define A B where "A = filter active (take i rs)" and "B = filter active (drop (Suc i) rs)"
  have old: "filter active rs = A @ B" using i by (subst id_take_nth_drop[OF i(1)]) (simp add: A_def B_def)
  have new: "filter active (rs[i := r]) = A @ r # B" using i r(1) by (simp add: upd_conv_take_nth_drop A_def B_def)
  have fresh: "request_id r \<notin> request_id ` set A" "request_id r \<notin> request_id ` set B" using r(2) unfolding old by auto
  then have "map_of (map (\<lambda>r. (request_id r, r)) A) (request_id r) = None" by (auto simp: map_of_eq_None_iff)
  then show ?map unfolding old new by (auto simp: map_add_def fun_eq_iff split: option.splits)
  show "distinct (map request_id (filter active (rs[i := r])))" if "distinct (map request_id (filter active rs))"
    using that fresh unfolding old new by auto
  show "set (filter active (rs[i := r])) = insert r (set (filter active rs))" unfolding old new by auto
qed

lemma add_request_spec:
  fixes pid d :: u32
  assumes ok: "tm_ok s" and room: "unat (next_request_id s) + 1 < 2 ^ 32"
  defines "x \<equiv> timer_add_request pid d s"
  shows "(tm_ok (snd x) \<and> timer_ticks (snd x) = timer_ticks s \<and> tm_calls (snd x) = tm_calls s \<and>
    (0 < unat k \<and> unat k < unat (next_request_id s) \<longrightarrow> pending (snd x) k = pending s k \<and> fst x \<noteq> k) \<and> unat (next_request_id s) \<le> unat (next_request_id (snd x)) \<and> unat (next_request_id (snd x)) \<le> unat (next_request_id s) + 1) \<and>
    ((\<exists>r \<in> set (timer_requests s). \<not> active r) \<longrightarrow> fst x = next_request_id s \<and>
       unat (next_request_id (snd x)) = unat (next_request_id s) + 1 \<and>
       pending (snd x) (next_request_id s) = Some \<lparr>request_id = next_request_id s, target_pid = pid, target_ticks = timer_ticks s + d, active = True\<rparr>)"
proof -
  have len: "length (timer_requests s) = 32" using ok by (simp add: tm_ok_def)
  have nxt: "unat (next_request_id s + 1) = unat (next_request_id s) + 1" using room by (simp add: unat_word_ariths)
  show ?thesis
  proof (cases "find (\<lambda>i. \<not> active (timer_requests s ! i)) [0..<32]")
    case None
    then have "\<forall>r \<in> set (timer_requests s). active r" unfolding find_upt_None_iff len[symmetric] by (metis in_set_conv_nth)
    moreover have "x = (0, s)" by (simp add: x_def timer_add_request_def None)
    ultimately show ?thesis using ok by auto
  next
    case (Some i)
    then have i: "i < length (timer_requests s)" "\<not> active (timer_requests s ! i)" unfolding find_upt_Some_iff len by simp_all
    define r where "r = \<lparr>request_id = next_request_id s, target_pid = pid, target_ticks = timer_ticks s + d, active = True\<rparr>"
    have x: "x = (next_request_id s, s\<lparr>next_request_id := next_request_id s + 1, timer_requests := (timer_requests s)[i := r]\<rparr>)"
      by (simp add: x_def timer_add_request_def Some r_def)
    have r: "active r" "request_id r = next_request_id s" by (simp_all add: r_def)
    have ids: "0 < unat (request_id q) \<and> unat (request_id q) < unat (next_request_id s)" if "q \<in> set (filter active (timer_requests s))" for q
      using ok that by (simp add: tm_ok_def)
    have "request_id r \<notin> request_id ` set (filter active (timer_requests s))" unfolding r(2) using ids by (metis image_iff less_irrefl)
    note P = place_request[OF i r(1) this]
    have "0 < unat (request_id q) \<and> unat (request_id q) < unat (next_request_id s) + 1" if "q \<in> set (filter active ((timer_requests s)[i := r]))" for q
      using that ids[of q] ok unfolding P(3) by (auto simp: r tm_ok_def)
    then have "tm_ok (snd x)" using ok P(2) nxt unfolding tm_ok_def x by (simp add: nxt)
    moreover have "pending (snd x) = (pending s)(next_request_id s \<mapsto> r)" using P(1) by (simp add: pending_def x r(2))
    ultimately show ?thesis using nxt by (auto simp: x r_def tm_calls_def)
  qed
qed

lemma tm_ok_send [simp]: "tm_ok (timer_send p m s) = tm_ok s" "pending (timer_send p m s) = pending s"
  by (simp_all add: tm_ok_def pending_def)

lemma message_step:
  fixes m :: abi_msg
  assumes ok: "tm_ok s" and room: "unat (next_request_id s) + 1 < 2 ^ 32"
  defines "s' \<equiv> snd (timer_driver_handle_message (Some m) s)"
  shows "tm_ok s' \<and> unat (next_request_id s) \<le> unat (next_request_id s') \<and> unat (next_request_id s') \<le> unat (next_request_id s) + 1 \<and>
    timer_ticks s' = timer_ticks s + (if is_tick m then 1 else 0) \<and>
    (0 < unat k \<and> unat k < unat (next_request_id s) \<longrightarrow> receivers k (tm_calls s') = receivers k (tm_calls s) @ (if is_tick m then (case fires s k of None \<Rightarrow> [] | Some p \<Rightarrow> [p]) else []) \<and>
    pending s' k = (if is_tick m \<and> fires s k \<noteq> None then None else pending s k))"
proof -
  have init: "timer_initialized s" using ok by (simp add: tm_ok_def)
  consider (tick) "is_tick m" | (delay) "\<not> is_tick m" "a_msg_type m = DRIVER_MSG_IOCTL" "a_data_size m \<ge> 8" "get32 (a_data m) 0 = 3"
    | (ioctl) "\<not> is_tick m" "a_msg_type m = DRIVER_MSG_IOCTL" "\<not> (a_data_size m \<ge> 8 \<and> get32 (a_data m) 0 = 3)"
    | (count) "\<not> is_tick m" "a_msg_type m = DRIVER_MSG_READ"
    | (other) "\<not> is_tick m" "a_msg_type m \<noteq> DRIVER_MSG_IOCTL" "a_msg_type m \<noteq> DRIVER_MSG_READ" by blast
  then show ?thesis
  proof cases
    case tick
    then show ?thesis using tick_spec[OF ok] init by (simp add: s'_def is_tick_def timer_driver_handle_message_def)
  next
    case delay
    define x where "x = timer_add_request (a_sender_pid m) (get32 (a_data m) 1 * timer_frequency s div 1000) s"
    have "s' = timer_send (a_sender_pid m) (word_response DRIVER_MSG_IOCTL (fst x)) (snd x)"
      using delay init by (simp add: s'_def x_def is_tick_def timer_driver_handle_message_def Let_def split: prod.splits)
    then show ?thesis
      using add_request_spec[OF ok room, of "a_sender_pid m" "get32 (a_data m) 1 * timer_frequency s div 1000" k, folded x_def] delay(1)
      by simp
  next
    case ioctl
    then show ?thesis using ok init by (auto simp: s'_def is_tick_def timer_driver_handle_message_def)
  next
    case count
    then show ?thesis using ok init by (simp add: s'_def is_tick_def timer_driver_handle_message_def)
  next
    case other
    then show ?thesis using ok init by (simp add: s'_def is_tick_def timer_driver_handle_message_def)
  qed
qed

section \<open>The loop\<close>

text \<open>The message that an iteration of \<^verbatim>\<open>main\<close> takes in, if any, and those of the next \<open>n\<close> iterations.\<close>

definition timer_input :: "abi_msg \<times> timer_state \<Rightarrow> abi_msg option" where
  "timer_input = (\<lambda>(buf, s). let ((r, buf), _) = ipc_receive_call 0 buf True (t_env s) in if r = STATUS_SUCCESS then Some buf else None)"

fun timer_inputs :: "nat \<Rightarrow> abi_msg \<times> timer_state \<Rightarrow> abi_msg list" where
  "timer_inputs 0 x = []"
| "timer_inputs (Suc n) x = (case timer_input x of None \<Rightarrow> [] | Some m \<Rightarrow> [m]) @ timer_inputs n (timer_main_step x)"

text \<open>The state in which the message is handled: the one before, after the system call that received it.\<close>

definition after_receive :: "abi_msg \<times> timer_state \<Rightarrow> timer_state" where
  "after_receive = (\<lambda>(buf, s). s\<lparr>t_env := snd (ipc_receive_call 0 buf True (t_env s))\<rparr>)"

lemma after_receive_fields:
  "tm_ok (after_receive x) = tm_ok (snd x)" "next_request_id (after_receive x) = next_request_id (snd x)" "pending (after_receive x) = pending (snd x)"
  "timer_ticks (after_receive x) = timer_ticks (snd x)" "timer_requests (after_receive x) = timer_requests (snd x)" "fires (after_receive x) k = fires (snd x) k"
  "receivers k (tm_calls (after_receive x)) = receivers k (tm_calls (snd x))"
  by (simp_all add: after_receive_def split_beta tm_ok_def pending_def fires_def tm_calls_def ipc_receive_call_def syscall_def cong: option.case_cong)

lemma timer_main_step_eq:
  "snd (timer_main_step x) = (case timer_input x of None \<Rightarrow> after_receive x | Some m \<Rightarrow> snd (timer_driver_handle_message (Some m) (after_receive x)))"
  by (cases x) (simp add: timer_main_step_def timer_input_def after_receive_def Let_def split: prod.splits)

definition tick_input :: "abi_msg \<times> timer_state \<Rightarrow> bool" where
  "tick_input x \<longleftrightarrow> (case timer_input x of None \<Rightarrow> False | Some m \<Rightarrow> is_tick m)"

lemma timer_loop_step:
  fixes x :: "abi_msg \<times> timer_state"
  assumes "tm_ok (snd x)" "unat (next_request_id (snd x)) + 1 < 2 ^ 32"
  defines "s \<equiv> snd x" and "s' \<equiv> snd (timer_main_step x)"
  shows "tm_ok s' \<and> unat (next_request_id s) \<le> unat (next_request_id s') \<and> unat (next_request_id s') \<le> unat (next_request_id s) + 1 \<and>
    timer_ticks s' = timer_ticks s + (if tick_input x then 1 else 0) \<and>
    (0 < unat k \<and> unat k < unat (next_request_id s) \<longrightarrow>
      receivers k (tm_calls s') = receivers k (tm_calls s) @ (if tick_input x then (case fires s k of None \<Rightarrow> [] | Some p \<Rightarrow> [p]) else []) \<and>
      pending s' k = (if tick_input x \<and> fires s k \<noteq> None then None else pending s k))"
proof (cases "timer_input x")
  case None
  then show ?thesis using assms(1) by (simp add: s_def s'_def timer_main_step_eq after_receive_fields tick_input_def)
next
  case (Some m)
  then show ?thesis using message_step[of "after_receive x" m k, unfolded after_receive_fields] assms(1,2)
    by (auto simp: s_def s'_def timer_main_step_eq tick_input_def)
qed

lemma timer_loop_ok:
  assumes "tm_ok (snd x)" "unat (next_request_id (snd x)) + n < 2 ^ 32"
  defines "s' \<equiv> snd ((timer_main_step ^^ n) x)"
  shows "tm_ok s' \<and> unat (next_request_id (snd x)) \<le> unat (next_request_id s') \<and> unat (next_request_id s') \<le> unat (next_request_id (snd x)) + n \<and>
    unat (timer_ticks s') \<le> unat (timer_ticks (snd x)) + n"
  unfolding s'_def using assms(1,2)
proof (induction n arbitrary: x)
  case (Suc n)
  have room: "unat (next_request_id (snd x)) + 1 < 2 ^ 32" using Suc.prems(2) by simp
  let ?y = "timer_main_step x"
  have S: "tm_ok (snd ?y)" "unat (next_request_id (snd x)) \<le> unat (next_request_id (snd ?y))"
    "unat (next_request_id (snd ?y)) \<le> unat (next_request_id (snd x)) + 1" "timer_ticks (snd ?y) = timer_ticks (snd x) + (if tick_input x then 1 else 0)"
    using timer_loop_step[OF Suc.prems(1) room] by blast+
  have "unat (timer_ticks (snd ?y)) \<le> unat (timer_ticks (snd x)) + 1" using S(4) by (simp add: unat_word_ariths)
  moreover have "unat (next_request_id (snd ?y)) + n < 2 ^ 32" using S(3) Suc.prems(2) by simp
  note Suc.IH[OF S(1) this]
  ultimately show ?case using S(2,3) unfolding funpow_Suc_right o_apply by linarith
qed simp

lemma loop_not_pending:
  "tm_ok (snd x) \<Longrightarrow> unat (next_request_id (snd x)) + n < 2 ^ 32 \<Longrightarrow> 0 < unat k \<Longrightarrow> unat k < unat (next_request_id (snd x)) \<Longrightarrow>
   pending (snd x) k = None \<Longrightarrow> receivers k (tm_calls (snd ((timer_main_step ^^ n) x))) = receivers k (tm_calls (snd x))"
proof (induction n arbitrary: x)
  case (Suc n)
  have "fires (snd x) k = None" using Suc.prems(5) by (simp add: fires_def)
  moreover have room: "unat (next_request_id (snd x)) + 1 < 2 ^ 32" using Suc.prems(2) by simp
  note timer_loop_step[OF Suc.prems(1) room, of k]
  ultimately show ?case using Suc.IH[of "timer_main_step x"] Suc.prems(2-5) by (auto simp: funpow_swap1)
qed simp

text \<open>A request that is pending is notified by the first tick that finds it due, and never again.\<close>

lemma loop_pending:
  assumes "tm_ok (snd x)" "unat (next_request_id (snd x)) + n < 2 ^ 32" "0 < unat k" "unat k < unat (next_request_id (snd x))"
    "pending (snd x) k = Some r" "unat (timer_ticks (snd x)) + n < 2 ^ 32"
  defines "t \<equiv> length (filter is_tick (timer_inputs n x))"
  shows "receivers k (tm_calls (snd ((timer_main_step ^^ n) x))) =
    receivers k (tm_calls (snd x)) @ (if 0 < t \<and> unat (target_ticks r) \<le> unat (timer_ticks (snd x)) + t then [target_pid r] else [])"
  unfolding t_def using assms(1-6)
proof (induction n arbitrary: x)
  case (Suc n)
  let ?s = "snd x" and ?y = "timer_main_step x"
  have room: "unat (next_request_id ?s) + 1 < 2 ^ 32" using Suc.prems(2) by simp
  note S = timer_loop_step[OF Suc.prems(1) room, of k]
  have run: "(timer_main_step ^^ Suc n) x = (timer_main_step ^^ n) ?y" by (simp add: funpow_swap1)
  have tick: "length (filter is_tick (timer_inputs (Suc n) x)) = (if tick_input x then 1 else 0) + length (filter is_tick (timer_inputs n ?y))"
    by (simp add: tick_input_def split: option.splits)
  have ticks: "unat (timer_ticks ?s + 1) = unat (timer_ticks ?s) + 1" using Suc.prems(6) by (simp add: unat_word_ariths)
  have bounds: "unat (next_request_id (snd ?y)) + n < 2 ^ 32" "unat k < unat (next_request_id (snd ?y))" using S Suc.prems(2,4) by auto
  show ?case
  proof (cases "tick_input x \<and> fires ?s k \<noteq> None")
    case True
    then have f: "fires ?s k = Some (target_pid r)" "unat (target_ticks r) \<le> unat (timer_ticks ?s) + 1"
      using Suc.prems(5) ticks by (auto simp: fires_def word_le_nat_alt split: if_splits)
    have "receivers k (tm_calls (snd ((timer_main_step ^^ n) ?y))) = receivers k (tm_calls (snd ?y))"
      using S True bounds Suc.prems(3,4) by (intro loop_not_pending) simp_all
    then show ?thesis unfolding run tick using S True f Suc.prems(3,4) by simp
  next
    case False
    then have y: "tm_ok (snd ?y)" "pending (snd ?y) k = Some r" "receivers k (tm_calls (snd ?y)) = receivers k (tm_calls ?s)"
      using S Suc.prems(3,4,5) by auto
    have t: "unat (timer_ticks (snd ?y)) = unat (timer_ticks ?s) + (if tick_input x then 1 else 0)" using S ticks by simp
    then have "unat (timer_ticks (snd ?y)) + n < 2 ^ 32" using Suc.prems(6) by simp
    note IH = Suc.IH[OF y(1) bounds(1) Suc.prems(3) bounds(2) y(2) this]
    have late: "\<not> unat (target_ticks r) \<le> unat (timer_ticks ?s) + 1" if "tick_input x"
      using False that Suc.prems(5) ticks by (auto simp: fires_def word_le_nat_alt split: if_splits)
    show ?thesis unfolding run tick IH y(3) t using late by (cases "tick_input x") auto
  qed
qed simp

lemma init_requests:
  assumes "length rs = 32"
  shows "foldl (\<lambda>rs i. rs[i := (rs ! i)\<lparr>active := False\<rparr>]) rs [0..<32] = map (\<lambda>r. r\<lparr>active := False\<rparr>) rs"
proof -
  have "n \<le> 32 \<Longrightarrow> foldl (\<lambda>rs i. rs[i := (rs ! i)\<lparr>active := False\<rparr>]) rs [0..<n] = map (\<lambda>r. r\<lparr>active := False\<rparr>) (take n rs) @ drop n rs" for n
  proof (induction n)
    case (Suc n)
    then have "drop n rs = rs ! n # drop (Suc n) rs" "take (Suc n) rs = take n rs @ [rs ! n]" "n < length rs"
      using assms by (simp_all add: Cons_nth_drop_Suc take_Suc_conv_app_nth)
    then show ?case using Suc by (simp add: nth_append list_update_append)
  qed simp
  from this[of 32] show ?thesis using assms by simp
qed

lemma timer_main_start:
  assumes "\<not> timer_initialized s" "length (timer_requests s) = 32" "timer_frequency s = 100" "next_request_id s = 1"
  defines "s1 \<equiv> snd (timer_driver_init s)"
  shows "timer_main n buf s = Loops ((timer_main_step ^^ n) (buf, s1))" "tm_ok s1" "next_request_id s1 = 1" "timer_ticks s1 = timer_ticks s"
proof -
  have "fst (timer_driver_init s) = STATUS_SUCCESS" by (simp add: timer_driver_init_def)
  then show "timer_main n buf s = Loops ((timer_main_step ^^ n) (buf, s1))" by (simp add: timer_main_def s1_def split_beta)
  have "timer_requests s1 = map (\<lambda>r. r\<lparr>active := False\<rparr>) (timer_requests s)" "timer_initialized s1" "timer_frequency s1 = 100" "next_request_id s1 = 1"
    using assms by (simp_all add: s1_def timer_driver_init_def init_requests)
  then show "tm_ok s1" "next_request_id s1 = 1" using assms(2) by (auto simp: tm_ok_def)
  show "timer_ticks s1 = timer_ticks s" by (simp add: s1_def timer_driver_init_def)
qed

text \<open>The initialisation always succeeds, so that the yields behind \<^verbatim>\<open>main\<close> are never reached.\<close>

lemma timer_start_loops: "timer_start n j buf s = (timer_main_step ^^ n) (buf, snd (timer_driver_init s))"
  by (simp add: timer_start_def timer_main_def timer_driver_init_def)

text \<open>One request: the identifier is sent back, and the request is pending with its deadline.\<close>

lemma delay_request:
  fixes m :: abi_msg
  assumes ok: "tm_ok s" and m: "a_msg_type m = DRIVER_MSG_IOCTL" "a_data_size m \<ge> 8" "get32 (a_data m) 0 = 0x03"
    and free: "\<exists>r \<in> set (timer_requests s). \<not> active r"
    and bound: "unat (get32 (a_data m) 1) * 100 < 2 ^ 32" "unat (next_request_id s) + 1 < 2 ^ 32"
      "unat (timer_ticks s) + unat (get32 (a_data m) 1) div 10 < 2 ^ 32"
  defines "k \<equiv> next_request_id s" and "u \<equiv> snd (timer_driver_handle_message (Some m) s)"
  shows "\<exists>r. pending u k = Some r \<and> target_pid r = a_sender_pid m \<and>
      unat (target_ticks r) = unat (timer_ticks s) + unat (get32 (a_data m) 1) div 10 \<and> 0 < unat k \<and> unat k < unat (next_request_id u) \<and>
      unat (next_request_id u) = unat k + 1 \<and> tm_ok u \<and> timer_ticks u = timer_ticks s \<and>
      receivers k (tm_calls u) = receivers k (tm_calls s) @ [a_sender_pid m]"
proof -
  let ?d = "get32 (a_data m) 1 * timer_frequency s div 1000"
  define x where "x = timer_add_request (a_sender_pid m) ?d s"
  have init: "timer_initialized s" "timer_frequency s = 100" using ok by (simp_all add: tm_ok_def)
  have u: "u = timer_send (a_sender_pid m) (word_response DRIVER_MSG_IOCTL (fst x)) (snd x)"
    using m init(1) by (simp add: u_def x_def timer_driver_handle_message_def Let_def split: prod.splits)
  have d: "unat ?d = unat (get32 (a_data m) 1) div 10"
  proof -
    have "unat (get32 (a_data m) 1 * 100) = unat (get32 (a_data m) 1) * 100" using bound(1) by (simp add: unat_word_ariths)
    then show ?thesis by (simp add: init(2) unat_div)
  qed
  note A = add_request_spec[OF ok bound(2), of "a_sender_pid m" ?d k, folded x_def]
  obtain r where r: "pending u k = Some r" "target_pid r = a_sender_pid m" "target_ticks r = timer_ticks s + ?d"
    using A free unfolding u k_def by (simp add: x_def)
  have "unat (target_ticks r) = unat (timer_ticks s) + unat (get32 (a_data m) 1) div 10"
    using bound(3) d by (simp add: r(3) unat_word_ariths)
  then show ?thesis using r A free ok by (auto simp: u k_def tm_ok_def)
qed

text \<open>
  C22: A delay request is answered and then notified exactly when its time has come. The driver never ends; when after any number of
  iterations of its loop it takes in a request for a delay of \<open>ms\<close> milliseconds and one of its 32 slots is free, the
  request gets the next identifier, which is sent to the requester at once; whatever messages the following iterations take in, the identifier is
  sent to the same process exactly once more if at least \<open>ms / 10\<close> ticks (and at least one) are among them, and not at all before. The
  counters of ticks and identifiers are assumed not to wrap around meanwhile.
\<close>

theorem timer_delay_exact:
  fixes buf m :: abi_msg and s :: timer_state and j n :: nat
  assumes start: "\<not> timer_initialized s" "length (timer_requests s) = 32" "timer_frequency s = 100" "next_request_id s = 1" "timer_ticks s = 0"
  defines "x \<equiv> (timer_main_step ^^ j) (buf, snd (timer_driver_init s))"
  assumes m: "timer_input x = Some m" "a_msg_type m = DRIVER_MSG_IOCTL" "a_data_size m \<ge> 8" "get32 (a_data m) 0 = 0x03"
    and free: "\<exists>r \<in> set (timer_requests (snd x)). \<not> active r"
    and bound: "unat (get32 (a_data m) 1) * 100 < 2 ^ 32" "j + n + unat (get32 (a_data m) 1) div 10 + 2 < 2 ^ 32"
  shows "\<exists>buf' s'. timer_main (j + 1 + n) buf s = Loops (buf', s') \<and>
    receivers (next_request_id (snd x)) (tm_calls s') = receivers (next_request_id (snd x)) (tm_calls (snd x)) @ [a_sender_pid m] @
      (if length (filter is_tick (timer_inputs n (timer_main_step x))) \<ge> max 1 (unat (get32 (a_data m) 1) div 10) then [a_sender_pid m] else [])"
proof -
  note T = timer_main_start[OF start(1-4)]
  let ?k = "next_request_id (snd x)" and ?y = "timer_main_step x"
  have "j + 1 + n = n + (1 + j)" by simp
  then have run: "timer_main (j + 1 + n) buf s = Loops ((timer_main_step ^^ n) ?y)" unfolding T(1) x_def by (simp only: funpow_add o_apply One_nat_def funpow.simps id_apply)
  have X: "tm_ok (snd x) \<and> unat ?k \<le> 1 + j \<and> unat (timer_ticks (snd x)) \<le> j"
    using timer_loop_ok[of "(buf, snd (timer_driver_init s))" j] T(2-4) start(5) bound(2) by (simp add: x_def)
  have y: "snd ?y = snd (timer_driver_handle_message (Some m) (after_receive x))" using m(1) by (simp add: timer_main_step_eq)
  obtain r where r: "pending (snd ?y) ?k = Some r" "target_pid r = a_sender_pid m"
      "unat (target_ticks r) = unat (timer_ticks (snd x)) + unat (get32 (a_data m) 1) div 10"
    and k: "0 < unat ?k" "unat ?k < unat (next_request_id (snd ?y))" "unat (next_request_id (snd ?y)) = unat ?k + 1"
    and ok: "tm_ok (snd ?y)" "timer_ticks (snd ?y) = timer_ticks (snd x)"
      "receivers ?k (tm_calls (snd ?y)) = receivers ?k (tm_calls (snd x)) @ [a_sender_pid m]"
    using delay_request[of "after_receive x" m] m(2-4) free bound X unfolding y after_receive_fields by auto
  have "receivers ?k (tm_calls (snd ((timer_main_step ^^ n) ?y))) = receivers ?k (tm_calls (snd ?y)) @
      (if 0 < length (filter is_tick (timer_inputs n ?y)) \<and> unat (target_ticks r) \<le> unat (timer_ticks (snd ?y)) + length (filter is_tick (timer_inputs n ?y))
       then [target_pid r] else [])"
    by (rule loop_pending[OF ok(1) _ k(1,2) r(1)]) (use k(3) ok(2) X bound(2) in simp_all)
  moreover have "max 1 d \<le> t \<longleftrightarrow> 0 < t \<and> d \<le> t" for d t :: nat by (simp add: Suc_le_eq)
  ultimately have "receivers ?k (tm_calls (snd ((timer_main_step ^^ n) ?y))) = receivers ?k (tm_calls (snd x)) @ [a_sender_pid m] @
      (if length (filter is_tick (timer_inputs n ?y)) \<ge> max 1 (unat (get32 (a_data m) 1) div 10) then [a_sender_pid m] else [])"
    using r(2,3) ok(2,3) by (simp del: length_greater_0_conv)
  then show ?thesis using run by (cases "(timer_main_step ^^ n) ?y") simp
qed

text \<open>A delay of 20 ms, two ticks: the requester hears of it twice, and no more after a third tick.\<close>

definition demo_timer :: timer_state where
  "demo_timer = \<lparr>timer_initialized = False, timer_ticks = 0, timer_frequency = 100,
     timer_requests = replicate 32 \<lparr>request_id = 0, target_pid = 0, target_ticks = 0, active = False\<rparr>, next_request_id = 1,
     t_manager = boot_manager, t_env = \<lparr>e_io = \<lparr>io_log = [], dev_inb = (\<lambda>_ _. 0), dev_inw = (\<lambda>_ _. 0), port_permissions = []\<rparr>,
       e_calls = [], kernel = (\<lambda>calls _. (0, Some (if length calls \<le> 1 then (delay_msg 20)\<lparr>a_sender_pid := 5\<rparr>
         else empty_msg\<lparr>a_msg_type := MSG_DRIVER\<rparr>)))\<rparr>\<rparr>"

theorem timer_delay_exact_witness:
  "\<exists>buf' s'. timer_main 4 empty_msg demo_timer = Loops (buf', s') \<and> receivers 1 (tm_calls s') = [5, 5]"
proof -
  define x where "x = (timer_main_step ^^ 0) (empty_msg, snd (timer_driver_init demo_timer))"
  define m where "m = (delay_msg 20)\<lparr>a_sender_pid := 5\<rparr>"
  have m: "a_msg_type m = DRIVER_MSG_IOCTL" "a_data_size m \<ge> 8" "get32 (a_data m) 0 = 0x03" "get32 (a_data m) 1 = 20" "a_sender_pid m = 5"
    by (simp_all add: m_def delay_msg_def empty_msg_def)
  have inp: "timer_input x = Some m"
    by (simp add: x_def m_def timer_input_def ipc_receive_call_def syscall_def timer_driver_init_def demo_timer_def
        driver_register_wrapper_def call_value_def STATUS_SUCCESS_def)
  have x: "next_request_id (snd x) = 1" "receivers 1 (tm_calls (snd x)) = []" unfolding x_def by code_simp+
  have "length (filter is_tick (timer_inputs 3 (timer_main_step x))) = 3" unfolding x_def by code_simp
  moreover have "\<exists>r \<in> set (timer_requests (snd x)). \<not> active r" unfolding x_def by code_simp
  moreover have "\<not> timer_initialized demo_timer" "length (timer_requests demo_timer) = 32" "timer_frequency demo_timer = 100"
    "next_request_id demo_timer = 1" "timer_ticks demo_timer = 0" by (simp_all add: demo_timer_def)
  ultimately show ?thesis
    using timer_delay_exact[of demo_timer 0 empty_msg m 3, folded x_def] inp m x by simp
qed

end
