(* ===== verification/Shell.thy ===== *)
theory Shell
  imports Userspace
begin

text \<open>
  The shell, \<^verbatim>\<open>userspace/shell.c\<close>: its line buffer, the splitting of a line into arguments in place, the commands and the loop. A
  read outside the line buffer has no result, nor has a loop that does not end. The splitting is shown to give the words
  of the line; the loop is shown to clear the line after every character, so that no command is ever run.
\<close>

section \<open>State\<close>

abbreviation (input) NUL :: char where "NUL \<equiv> CHR 0x00"
abbreviation (input) TAB :: char where "TAB \<equiv> CHR 0x09"

record shell =
  shell_running :: bool
  command_buffer :: string
  command_pos :: u32
  sh_env :: env

definition eol :: "string \<Rightarrow> string" where
  "eol s = s @ [CHR 0x0D, CHR 0x0A]"

definition help_hint :: string where
  "help_hint = eol (''Type '' @ [CHR 0x27] @ ''help'' @ [CHR 0x27] @ '' for available commands'')"

definition sh_print :: "string \<Rightarrow> shell \<Rightarrow> shell option" where
  "sh_print str s = map_option (\<lambda>e. s\<lparr>sh_env := e\<rparr>) (user_print str (sh_env s))"

definition sh_print_hex :: "u32 \<Rightarrow> shell \<Rightarrow> shell option" where
  "sh_print_hex v s = map_option (\<lambda>e. s\<lparr>sh_env := e\<rparr>) (user_print_hex v (sh_env s))"

definition sh_call :: "(env \<Rightarrow> 'a \<times> env) \<Rightarrow> shell \<Rightarrow> 'a \<times> shell" where
  "sh_call f s = (let (a, e) = f (sh_env s) in (a, s\<lparr>sh_env := e\<rparr>))"

text \<open>The string that begins at an index of the buffer.\<close>

definition cstring :: "string \<Rightarrow> nat \<Rightarrow> string" where
  "cstring buf p = takeWhile (\<lambda>c. c \<noteq> NUL) (drop p buf)"

section \<open>Splitting a line\<close>

definition blank :: "char \<Rightarrow> bool" where
  "blank c \<longleftrightarrow> c = CHR '' '' \<or> c = TAB"

function skip_blanks :: "string \<Rightarrow> nat \<Rightarrow> nat option" where
  "skip_blanks buf p =
     (if p \<ge> length buf then None else if buf ! p \<noteq> NUL \<and> blank (buf ! p) then skip_blanks buf (p + 1) else Some p)"
  by pat_completeness auto
termination by (relation "measure (\<lambda>(buf, p). length buf - p)") auto

function skip_word :: "string \<Rightarrow> nat \<Rightarrow> nat option" where
  "skip_word buf p =
     (if p \<ge> length buf then None else if buf ! p \<noteq> NUL \<and> \<not> blank (buf ! p) then skip_word buf (p + 1) else Some p)"
  by pat_completeness auto
termination by (relation "measure (\<lambda>(buf, p). length buf - p)") auto

declare skip_blanks.simps [simp del] skip_word.simps [simp del]

text \<open>The indices of the arguments, and the buffer with a terminator after each.\<close>

function parse_loop :: "nat \<Rightarrow> string \<Rightarrow> nat \<Rightarrow> nat list \<Rightarrow> (nat list \<times> string) option" where
  "parse_loop max_args buf p argv =
     (if p \<ge> length buf then None
      else if buf ! p = NUL \<or> length argv \<ge> max_args then Some (argv, buf)
      else (case skip_blanks buf p of
              None \<Rightarrow> None
            | Some p \<Rightarrow>
                if buf ! p = NUL then Some (argv, buf)
                else (case skip_word buf p of
                        None \<Rightarrow> None
                      | Some q \<Rightarrow>
                          if buf ! q \<noteq> NUL then parse_loop max_args (buf[q := NUL]) (q + 1) (argv @ [p])
                          else parse_loop max_args buf q (argv @ [p]))))"
  by pat_completeness auto
termination by (relation "measure (\<lambda>(m, buf, p, argv). m - length argv)") auto

declare parse_loop.simps [simp del]

definition parse_command :: "string \<Rightarrow> nat \<Rightarrow> (nat list \<times> string) option" where
  "parse_command cmd max_args = parse_loop max_args cmd 0 []"

definition clear_command_buffer :: "shell \<Rightarrow> shell" where
  "clear_command_buffer s = s\<lparr>command_pos := 0, command_buffer := replicate 256 NUL\<rparr>"

section \<open>Commands\<close>

text \<open>A handler takes the arguments, the name first, and gives its result and the state; \<^verbatim>\<open>cmd_help\<close> reads the table's texts.\<close>

type_synonym command_handler = "string list \<Rightarrow> shell \<Rightarrow> (int \<times> shell) option"

definition command_texts :: "(string \<times> string) list" where
  "command_texts = [(''help'', ''Show available commands''), (''clear'', ''Clear screen''), (''exit'', ''Exit shell''),
     (''ps'', ''List processes''), (''kill'', ''Kill a process''), (''mem'', ''Show memory usage''),
     (''uptime'', ''Show system uptime''), (''drivers'', ''List active drivers''), (''test'', ''Run system tests'')]"

definition cmd_help :: command_handler where
  "cmd_help argv s =
     Option.bind (sh_print (eol ''Available commands:'') s) (\<lambda>s.
     Option.bind (for_each (\<lambda>(name, description). for_each sh_print [''  '', name, '' - '', description, eol []]) command_texts s) (\<lambda>s.
     Some (0, s)))"

definition cmd_clear :: command_handler where
  "cmd_clear argv s =
     (let msg = empty_msg\<lparr>a_msg_type := DRIVER_MSG_IOCTL, a_data_size := 4, a_data := put32 0 0x01 (a_data empty_msg)\<rparr>
      in Some (0, snd (sh_call (driver_request 3 msg) s)))"

definition cmd_exit :: command_handler where
  "cmd_exit argv s = Some (0, s\<lparr>shell_running := False\<rparr>)"

definition cmd_ps :: command_handler where
  "cmd_ps argv s = map_option (Pair 0) (for_each (\<lambda>l. sh_print (eol l))
     [''PID'' @ [TAB] @ ''STATE'' @ [TAB] @ ''CPU_TIME'', ''---'' @ [TAB] @ ''-----'' @ [TAB] @ ''--------'',
      ''1'' @ [TAB] @ ''RUNNING'' @ [TAB] @ ''1000'', ''2'' @ [TAB] @ ''RUNNING'' @ [TAB] @ ''500'',
      ''3'' @ [TAB] @ ''RUNNING'' @ [TAB] @ ''300'', ''4'' @ [TAB] @ ''RUNNING'' @ [TAB] @ ''200'',
      ''5'' @ [TAB] @ ''RUNNING'' @ [TAB] @ ''100''] s)"

text \<open>\<^verbatim>\<open>None\<close> for an argument that is not a number; the value wraps around.\<close>

fun pid_of :: "u32 \<Rightarrow> string \<Rightarrow> u32 option" where
  "pid_of pid [] = Some pid"
| "pid_of pid (c # cs) =
     (let d = of_char c :: u32 in if 48 \<le> d \<and> d \<le> 57 then pid_of (pid * 10 + (d - 48)) cs else None)"

definition cmd_kill :: command_handler where
  "cmd_kill argv s =
     (if length argv < 2 then map_option (Pair 1) (sh_print (eol ''Usage: kill <pid>'') s)
      else (case pid_of 0 (argv ! 1) of
              None \<Rightarrow> map_option (Pair 1) (sh_print (eol ''Invalid PID'') s)
            | Some pid \<Rightarrow>
                (let (result, s) = sh_call (process_kill_call pid) s
                 in if result = 0 then
                      Option.bind (sh_print ''Process '' s) (\<lambda>s.
                      Option.bind (sh_print_hex pid s) (\<lambda>s. map_option (Pair 0) (sh_print (eol '' killed'') s)))
                    else
                      Option.bind (sh_print ''Failed to kill process '' s) (\<lambda>s.
                      Option.bind (sh_print_hex pid s) (\<lambda>s. map_option (Pair 0) (sh_print (eol []) s))))))"

definition cmd_mem :: command_handler where
  "cmd_mem argv s = map_option (Pair 0) (for_each (\<lambda>l. sh_print (eol l))
     [''Memory Usage:'', ''Total: 16MB'', ''Used:  4MB'', ''Free:  12MB''] s)"

definition cmd_uptime :: command_handler where
  "cmd_uptime argv s =
     (let msg = empty_msg\<lparr>a_msg_type := DRIVER_MSG_READ, a_data_size := 0\<rparr>;
          (result, s) = sh_call (driver_request 4 msg) s
      in if result = 0 then
           (let ((st, response), s) = sh_call (ipc_receive_call 4 empty_msg True) s
            in if st = 0 \<and> a_data_size response \<ge> 4 then
                 (let seconds = get32 (a_data response) 0 div 100
                  in Option.bind (sh_print ''System uptime: '' s) (\<lambda>s.
                     Option.bind (sh_print_hex seconds s) (\<lambda>s. map_option (Pair 0) (sh_print (eol '' seconds'') s))))
               else Some (0, s))
         else Some (0, s))"

definition cmd_drivers :: command_handler where
  "cmd_drivers argv s = map_option (Pair 0) (for_each (\<lambda>l. sh_print (eol l))
     [''Active Drivers:'', ''PID'' @ [TAB] @ ''NAME'' @ [TAB, TAB] @ ''CAPABILITIES'',
      ''---'' @ [TAB] @ ''----'' @ [TAB, TAB] @ ''-----------'', ''2'' @ [TAB] @ ''keyboard'' @ [TAB, TAB] @ ''READ, IRQ'',
      ''3'' @ [TAB] @ ''console'' @ [TAB, TAB] @ ''WRITE'', ''4'' @ [TAB] @ ''timer'' @ [TAB, TAB] @ ''READ, IOCTL''] s)"

definition test_memory :: "shell \<Rightarrow> shell option" where
  "test_memory s =
     Option.bind (sh_print (eol ''Testing memory allocation...'') s) (\<lambda>s.
     let (ptr, s) = sh_call (memory_alloc 1024) s
     in if ptr \<noteq> 0 then
          Option.bind (sh_print (eol ''Memory allocation: SUCCESS'') s) (\<lambda>s. Some (s\<lparr>sh_env := memory_free ptr (sh_env s)\<rparr>))
        else sh_print (eol ''Memory allocation: FAILED'') s)"

definition test_ipc :: "shell \<Rightarrow> shell option" where
  "test_ipc s =
     Option.bind (sh_print (eol ''Testing IPC...'') s) (\<lambda>s.
     let (result, s) = sh_call (ipc_send_call 1 (empty_msg\<lparr>a_msg_type := MSG_DATA, a_data_size := 4,
           a_data := put32 0 0x12345678 (a_data empty_msg)\<rparr>)) s
     in sh_print (eol (if result = 0 then ''IPC send: SUCCESS'' else ''IPC send: FAILED'')) s)"

definition test_timer :: "shell \<Rightarrow> shell option" where
  "test_timer s =
     Option.bind (sh_print (eol ''Testing timer...'') s) (\<lambda>s.
     let (start_ticks, s) = sh_call driver_get_ticks s
     in Option.bind (sleep 100 (sh_env s)) (\<lambda>e.
        let (end_ticks, s) = sh_call driver_get_ticks (s\<lparr>sh_env := e\<rparr>)
        in sh_print (eol (if end_ticks > start_ticks then ''Timer test: SUCCESS'' else ''Timer test: FAILED'')) s))"

definition cmd_test :: command_handler where
  "cmd_test argv s =
     Option.bind (sh_print (eol ''Running system tests...'') s) (\<lambda>s.
     Option.bind (test_memory s) (\<lambda>s.
     Option.bind (test_ipc s) (\<lambda>s.
     Option.bind (test_timer s) (\<lambda>s. map_option (Pair 0) (sh_print (eol ''System tests completed'') s)))))"

definition commands :: "(string \<times> command_handler) list" where
  "commands = zip (map fst command_texts)
     [cmd_help, cmd_clear, cmd_exit, cmd_ps, cmd_kill, cmd_mem, cmd_uptime, cmd_drivers, cmd_test]"

section \<open>The loop\<close>

definition execute_command :: "shell \<Rightarrow> shell option" where
  "execute_command s = (case parse_command (command_buffer s) 16 of
     None \<Rightarrow> None
   | Some (argv, buf) \<Rightarrow>
       let s = s\<lparr>command_buffer := buf\<rparr>; args = map (cstring buf) argv
       in if args = [] then Some s
          else (case find (\<lambda>(name, handler). hd args = name) commands of
                  Some (name, handler) \<Rightarrow> map_option snd (handler args s)
                | None \<Rightarrow> for_each sh_print [''Unknown command: '', hd args, eol [], help_hint] s))"

definition display_prompt :: "shell \<Rightarrow> shell option" where
  "display_prompt s = sh_print ''MiniSecureOS> '' s"

definition read_char :: "u8 \<Rightarrow> shell \<Rightarrow> shell option" where
  "read_char ch s =
     (if ch = 13 then
        Option.bind (sh_print (eol []) s) (\<lambda>s.
        Option.bind (execute_command (s\<lparr>command_buffer := (command_buffer s)[unat (command_pos s) := NUL]\<rparr>)) (\<lambda>s.
        display_prompt (clear_command_buffer s)))
      else if ch = 8 \<or> ch = 127 then
        (if command_pos s > 0 then sh_print [CHR 0x08, CHR '' '', CHR 0x08] (s\<lparr>command_pos := command_pos s - 1\<rparr>) else Some s)
      else if ch \<ge> 32 \<and> ch \<le> 126 \<and> command_pos s < 255 then
        sh_print [char_of (unat ch)] (s\<lparr>command_buffer := (command_buffer s)[unat (command_pos s) := char_of (unat ch)], command_pos := command_pos s + 1\<rparr>)
      else Some s)"

definition read_command :: "shell \<Rightarrow> shell option" where
  "read_command s =
     (let msg = empty_msg\<lparr>a_msg_type := DRIVER_MSG_READ, a_data_size := 0\<rparr>;
          (result, s) = sh_call (driver_request 2 msg) s
      in if result = 0 then
           (let ((st, response), s) = sh_call (ipc_receive_call 2 empty_msg True) s
            in if st = 0 \<and> a_data_size response \<ge> 1 then read_char (a_data response ! 0) s else Some s)
         else Some s)"

definition shell_iteration :: "shell \<Rightarrow> shell option" where
  "shell_iteration s =
     Option.bind (read_command s) (\<lambda>s.
     Option.bind (if command_pos s > 0 then execute_command s else Some s) (\<lambda>s. Some (clear_command_buffer s)))"

partial_function (option) shell_loop :: "shell \<Rightarrow> shell option" where
  "shell_loop s = (if shell_running s then Option.bind (shell_iteration s) shell_loop else Some s)"

definition shell_main :: "shell \<Rightarrow> shell option" where
  "shell_main s =
     Option.bind (for_each sh_print [eol ''MiniSecureOS Shell v1.0'',
       help_hint] s) (\<lambda>s.
     Option.bind (display_prompt s) (\<lambda>s.
     Option.bind (shell_loop s) (\<lambda>s. sh_print (eol ''Shell terminated'') s)))"

text \<open>The entry point; \<^verbatim>\<open>main\<close> has no result when its loop does not end.\<close>

definition shell_start :: "nat \<Rightarrow> shell \<Rightarrow> shell option" where
  "shell_start j s =
     map_option (\<lambda>s. start_program (\<lambda>s. s\<lparr>sh_env := process_yield_call (sh_env s)\<rparr>) j (Exits 0 s)) (shell_main s)"

section \<open>The words of a line\<close>

text \<open>The reference: maximal runs of characters that are not blank.\<close>

function words :: "string \<Rightarrow> string list" where
  "words s = (let s = dropWhile blank s in
     if s = [] then [] else takeWhile (\<lambda>c. \<not> blank c) s # words (dropWhile (\<lambda>c. \<not> blank c) s))"
  by pat_completeness auto
termination
proof (relation "measure length", goal_cases)
  case (2 s x)
  then have "x \<noteq> []" by blast
  then obtain c u where x: "x = c # u" using neq_Nil_conv by metis
  then have "\<not> blank c" using 2 hd_dropWhile[of blank s] by auto
  then have "length (dropWhile (\<lambda>c. \<not> blank c) x) < length x" using length_dropWhile_le[of _ u] by (simp add: x less_Suc_eq_le)
  moreover have "length x \<le> length s" using 2 length_dropWhile_le[of blank s] by simp
  ultimately show ?case by simp
qed simp

declare words.simps [simp del]

lemma blank_NUL [simp]: "\<not> blank NUL"
  by (simp add: blank_def)

lemma skip_blanks_spec:
  "NUL \<notin> set s \<Longrightarrow> skip_blanks (pre @ s @ NUL # post) (length pre) = Some (length pre + length (takeWhile blank s))"
proof (induction s arbitrary: pre)
  case Nil
  then show ?case by (simp add: skip_blanks.simps[of _ "length pre"])
next
  case (Cons c s)
  show ?case
  proof (cases "blank c")
    case True
    have "c \<noteq> NUL" using Cons.prems by auto
    with True show ?thesis using Cons.IH[of "pre @ [c]"] Cons.prems by (simp add: skip_blanks.simps[of _ "length pre"])
  next
    case False
    then show ?thesis by (simp add: skip_blanks.simps[of _ "length pre"])
  qed
qed

lemma skip_word_spec:
  "NUL \<notin> set s \<Longrightarrow> skip_word (pre @ s @ NUL # post) (length pre) = Some (length pre + length (takeWhile (\<lambda>c. \<not> blank c) s))"
proof (induction s arbitrary: pre)
  case Nil
  then show ?case by (simp add: skip_word.simps[of _ "length pre"])
next
  case (Cons c s)
  show ?case
  proof (cases "blank c")
    case False
    have "c \<noteq> NUL" using Cons.prems by auto
    with False show ?thesis using Cons.IH[of "pre @ [c]"] Cons.prems by (simp add: skip_word.simps[of _ "length pre"])
  next
    case True
    then show ?thesis by (simp add: skip_word.simps[of _ "length pre"])
  qed
qed

lemma cstring_at: "NUL \<notin> set w \<Longrightarrow> cstring (pre @ w @ NUL # post) (length pre) = w"
  by (simp add: cstring_def takeWhile_append)

lemma words_step:
  assumes "s = b @ w @ t" "\<forall>c \<in> set b. blank c" "\<forall>c \<in> set w. \<not> blank c" "w \<noteq> []" "t = [] \<or> blank (hd t)"
  shows "words s = w # words t"
proof -
  have "dropWhile blank s = w @ t" using assms(1-4) by (cases w) (auto simp: dropWhile_append)
  moreover have "takeWhile (\<lambda>c. \<not> blank c) (w @ t) = w" "dropWhile (\<lambda>c. \<not> blank c) (w @ t) = t"
    using assms(3,5) by (cases t; auto simp: takeWhile_append dropWhile_append)+
  ultimately show ?thesis using assms(4) by (simp add: words.simps[of s] Let_def)
qed

lemma words_blank: "blank c \<Longrightarrow> words (c # s) = words s"
  by (simp add: words.simps[of "c # s"] words.simps[of s])

text \<open>A line as a run of blanks, a word, and the rest.\<close>

lemma line_cases:
  obtains (empty) b where "s = b" "\<forall>c \<in> set b. blank c" "words s = []"
  | (word) b w t where "s = b @ w @ t" "\<forall>c \<in> set b. blank c" "\<forall>c \<in> set w. \<not> blank c" "w \<noteq> []" "t = [] \<or> blank (hd t)" "words s = w # words t"
proof (cases "dropWhile blank s")
  case Nil
  then show thesis using empty[of s] by (auto simp: words.simps[of s] dropWhile_eq_Nil_conv)
next
  case (Cons c u)
  define w where "w = takeWhile (\<lambda>c. \<not> blank c) (c # u)"
  define t where "t = dropWhile (\<lambda>c. \<not> blank c) (c # u)"
  have "\<not> blank c" using Cons hd_dropWhile[of blank s] by simp
  then have w: "w \<noteq> []" "\<forall>c \<in> set w. \<not> blank c" by (auto simp: w_def dest: set_takeWhileD)
  have t: "t = [] \<or> blank (hd t)" using hd_dropWhile[of "\<lambda>c. \<not> blank c" "c # u"] unfolding t_def by blast
  have "takeWhile blank s @ w @ t = takeWhile blank s @ (c # u)" unfolding w_def t_def by (simp only: takeWhile_dropWhile_id)
  also have "\<dots> = s" using Cons takeWhile_dropWhile_id[of blank s] by simp
  finally have s: "s = takeWhile blank s @ w @ t" ..
  have b: "\<forall>c \<in> set (takeWhile blank s). blank c" by (auto dest: set_takeWhileD)
  show thesis by (rule word[OF s b w(2) w(1) t words_step[OF s b w(2) w(1) t]])
qed

lemma parse_stop:
  "p < length buf \<Longrightarrow> buf ! p = NUL \<or> length argv \<ge> m \<Longrightarrow> parse_loop m buf p argv = Some (argv, buf)"
  by (simp add: parse_loop.simps[of m buf p argv])

text \<open>One step over a word \<open>w\<close> after blanks \<open>b\<close>: its end is marked, unless it is the end of the line.\<close>

lemma parse_word:
  fixes pre post :: string
  assumes nul: "NUL \<notin> set (b @ w @ t)" and b: "\<forall>c \<in> set b. blank c" and w: "\<forall>c \<in> set w. \<not> blank c" "w \<noteq> []" and t: "t = [] \<or> blank (hd t)"
    and room: "length argv < m"
  defines "buf \<equiv> pre @ (b @ w @ t) @ NUL # post" and "p \<equiv> length pre + length b" and "q \<equiv> length pre + length b + length w"
  shows "parse_loop m buf (length pre) argv =
    (if buf ! q \<noteq> NUL then parse_loop m (buf[q := NUL]) (q + 1) (argv @ [p]) else parse_loop m buf q (argv @ [p]))"
proof -
  obtain a w' where aw: "w = a # w'" using w(2) by (cases w) auto
  have "takeWhile blank (b @ w @ t) = b" using b w(1) aw by (simp add: takeWhile_append)
  then have p: "skip_blanks buf (length pre) = Some p" using skip_blanks_spec[OF nul] by (simp add: buf_def p_def)
  have "takeWhile (\<lambda>c. \<not> blank c) (w @ t) = w" using w(1) t by (cases t) (simp_all add: takeWhile_append)
  then have q: "skip_word buf p = Some q"
    using skip_word_spec[of "w @ t" "pre @ b" post] nul by (simp add: buf_def p_def q_def)
  have hd: "buf ! length pre \<noteq> NUL" "buf ! p \<noteq> NUL" "length pre < length buf"
    using nul aw unfolding buf_def p_def by (cases b; auto simp: nth_append)+
  show ?thesis using room hd p q by (simp add: parse_loop.simps[of m buf "length pre" argv])
qed

lemma parse_last:
  assumes "NUL \<notin> set (b @ w)" "\<forall>c \<in> set b. blank c" "\<forall>c \<in> set w. \<not> blank c" "w \<noteq> []" "length argv < m"
  shows "parse_loop m (pre @ (b @ w) @ NUL # post) (length pre) argv = Some (argv @ [length pre + length b], pre @ (b @ w) @ NUL # post)"
    and "cstring (pre @ (b @ w) @ NUL # post) (length pre + length b) = w"
proof -
  let ?q = "length pre + length b + length w"
  have "(pre @ (b @ w) @ NUL # post) ! ?q = NUL" "?q < length (pre @ (b @ w) @ NUL # post)" by (simp_all add: nth_append)
  then show "parse_loop m (pre @ (b @ w) @ NUL # post) (length pre) argv = Some (argv @ [length pre + length b], pre @ (b @ w) @ NUL # post)"
    using parse_word[of b w "[]" argv m pre post] assms by (simp add: parse_stop)
  show "cstring (pre @ (b @ w) @ NUL # post) (length pre + length b) = w" using cstring_at[of w "pre @ b" post] assms(1) by simp
qed

lemma parse_next:
  assumes "NUL \<notin> set (b @ w @ c # t)" "\<forall>c \<in> set b. blank c" "\<forall>c \<in> set w. \<not> blank c" "w \<noteq> []" "blank c" "length argv < m"
  shows "parse_loop m (pre @ (b @ w @ c # t) @ NUL # post) (length pre) argv =
    parse_loop m ((pre @ b @ w @ [NUL]) @ t @ NUL # post) (length (pre @ b @ w @ [NUL])) (argv @ [length pre + length b])"
proof -
  let ?q = "length pre + length b + length w" and ?buf = "pre @ (b @ w @ c # t) @ NUL # post"
  have "?buf ! ?q = c" "?buf[?q := NUL] = (pre @ b @ w @ [NUL]) @ t @ NUL # post" "?q + 1 = length (pre @ b @ w @ [NUL])" "c \<noteq> NUL"
    using assms(1) by (auto simp: nth_append list_update_append)
  then show ?thesis using parse_word[of b w "c # t" argv m pre post] assms by (simp add: add.assoc)
qed

text \<open>What the loop gives when it finds a word that is followed by a blank, from what it gives for the rest of the line.\<close>

lemma parse_more:
  assumes nul: "NUL \<notin> set (b @ w @ c # t)" and word: "\<forall>c \<in> set b. blank c" "\<forall>c \<in> set w. \<not> blank c" "w \<noteq> []" "blank c" and room: "length argv < m"
    and rest: "parse_loop m ((pre @ b @ w @ [NUL]) @ t @ NUL # post) (length (pre @ b @ w @ [NUL])) (argv @ [length pre + length b]) =
        Some ((argv @ [length pre + length b]) @ new, buf')" "take (length (pre @ b @ w @ [NUL])) buf' = pre @ b @ w @ [NUL]"
  shows "parse_loop m (pre @ (b @ w @ c # t) @ NUL # post) (length pre) argv = Some (argv @ (length pre + length b) # new, buf')"
    "take (length pre) buf' = pre" "cstring buf' (length pre + length b) = w"
proof -
  show "parse_loop m (pre @ (b @ w @ c # t) @ NUL # post) (length pre) argv = Some (argv @ (length pre + length b) # new, buf')"
    using parse_next[OF nul word room, of pre post] rest(1) by simp
  have pre: "buf' = pre @ b @ w @ NUL # drop (length (pre @ b @ w @ [NUL])) buf'"
    using append_take_drop_id[of "length (pre @ b @ w @ [NUL])" buf'] unfolding rest(2) by simp
  have "NUL \<notin> set w" using nul by simp
  then show "cstring buf' (length pre + length b) = w" by (subst pre) (use cstring_at[of w "pre @ b"] in simp)
  show "take (length pre) buf' = pre" by (subst pre) simp
qed

lemma parse_loop_spec:
  assumes "NUL \<notin> set s"
  shows "\<exists>new buf'. parse_loop m (pre @ s @ NUL # post) (length pre) argv = Some (argv @ new, buf') \<and>
    take (length pre) buf' = pre \<and> length buf' = length pre + length s + 1 + length post \<and>
    map (cstring buf') new = take (m - length argv) (words s)"
  using assms
proof (induction "length s" arbitrary: s pre argv rule: less_induct)
  case less
  define buf where "buf = pre @ s @ NUL # post"
  have stop: ?case if "words s = [] \<or> length argv \<ge> m" "parse_loop m buf (length pre) argv = Some (argv, buf)"
    using that by (intro exI[of _ "[]"] exI[of _ buf]) (auto simp: buf_def)
  consider (full) "length argv \<ge> m" | (room) n where "m - length argv = Suc n" "length argv < m" "m - Suc (length argv) = n"
    by (cases "m - length argv") auto
  then show ?case
  proof cases
    case full
    then show ?thesis by (intro stop) (simp_all add: parse_stop buf_def)
  next
    case room
    show ?thesis
    proof (cases s rule: line_cases)
      case (empty b)
      have "skip_blanks buf (length pre) = Some (length pre + length s)"
        using skip_blanks_spec[OF less.prems] empty by (simp add: buf_def takeWhile_eq_all_conv[THEN iffD2])
      moreover have "buf ! (length pre + length s) = NUL" "length pre < length buf" by (simp_all add: buf_def nth_append)
      ultimately have "parse_loop m buf (length pre) argv = Some (argv, buf)" by (simp add: parse_loop.simps[of m buf "length pre" argv])
      then show ?thesis using empty(3) by (intro stop) simp_all
    next
      case (word b w t)
      let ?p = "length pre + length b"
      have nul: "NUL \<notin> set (b @ w @ t)" "NUL \<notin> set w" using less.prems word(1) by auto
      show ?thesis
      proof (cases t)
        case Nil
        then have "NUL \<notin> set (b @ w)" "s = b @ w" "words s = [w]" using nul word(1,6) by (simp_all add: words.simps[of "[]"])
        then show ?thesis using parse_last[OF _ word(2-4) room(2), of pre post] room(1)
          by (intro exI[of _ "[?p]"] exI[of _ buf]) (simp add: buf_def)
      next
        case (Cons c t')
        define pre' where "pre' = pre @ b @ w @ [NUL]"
        have c: "blank c" "words t = words t'" using word(5) Cons by (auto simp: words_blank)
        have "length t' < length s" "NUL \<notin> set t'" using word(1) Cons nul(1) by simp_all
        from less.hyps[OF this, of pre' "argv @ [?p]"] obtain new buf' where
          rec: "parse_loop m (pre' @ t' @ NUL # post) (length pre') (argv @ [?p]) = Some ((argv @ [?p]) @ new, buf')"
            "take (length pre') buf' = pre'" "length buf' = length pre' + length t' + 1 + length post"
            "map (cstring buf') new = take (m - length (argv @ [?p])) (words t')" by blast
        note W = parse_more[OF nul(1)[unfolded Cons] word(2-4) c(1) room(2) rec(1,2)[unfolded pre'_def]]
        then show ?thesis using rec(3,4) room(1,3) word(6) c(2) unfolding word(1) Cons
          by (intro exI[of _ "?p # new"] exI[of _ buf']) (simp add: pre'_def)
      qed
    qed
  qed
qed

lemma parse_command_spec:
  assumes "cmd = line @ NUL # rest" "NUL \<notin> set line"
  shows "\<exists>argv buf. parse_command cmd max_args = Some (argv, buf) \<and> length buf = length cmd \<and>
    map (cstring buf) argv = take max_args (words line)"
  using parse_loop_spec[OF assms(2), of max_args "[]" rest "[]"] assms(1) by (auto simp: parse_command_def)

text \<open>
  C24: Splitting a command line gives its words. For any line that ends inside its buffer, the splitting ends without an access
  outside the buffer, and the arguments it returns, read back as strings from the changed buffer, are the first \<open>max_args\<close> maximal
  runs of characters other than space and tab, in order.
\<close>

theorem parse_command_words:
  assumes "cmd = line @ NUL # rest" "NUL \<notin> set line"
  shows "\<exists>argv buf. parse_command cmd max_args = Some (argv, buf) \<and> length buf = length cmd \<and>
    map (cstring buf) argv = take max_args (words line)"
  by (rule parse_command_spec[OF assms])

theorem parse_command_words_witness:
  "\<exists>argv buf. parse_command (''kill  7'' @ NUL # replicate 200 NUL) 16 = Some (argv, buf) \<and> map (cstring buf) argv = [''kill'', ''7'']"
proof -
  have "words ''kill  7'' = [''kill'', ''7'']"
    by (simp add: words.simps[of "''kill  7''"] words.simps[of "''  7''"] words.simps[of "[]"] blank_def)
  then show ?thesis using parse_command_words[of "''kill  7'' @ NUL # replicate 200 NUL" "''kill  7''" "replicate 200 NUL" 16] by auto
qed

section \<open>The shell at work\<close>

text \<open>The line is empty and the shell runs: the state in which every iteration begins.\<close>

definition fresh_line :: "shell \<Rightarrow> bool" where
  "fresh_line s \<longleftrightarrow> shell_running s \<and> command_pos s = 0 \<and> command_buffer s = replicate 256 NUL"

text \<open>The calls a shell makes that only reads characters and prints.\<close>

fun io_call :: "ucall \<Rightarrow> bool" where
  "io_call (Message n p m) \<longleftrightarrow> n = 0x31 \<and> p = 2 \<or> n = 0x20 \<and> p = 3"
| "io_call (Receive n p b) \<longleftrightarrow> n = 0x21 \<and> p = 2"
| "io_call _ \<longleftrightarrow> False"

definition only_io :: "shell \<Rightarrow> shell \<Rightarrow> bool" where
  "only_io s s' \<longleftrightarrow> (\<exists>cs. e_calls (sh_env s') = cs @ e_calls (sh_env s) \<and> (\<forall>c \<in> set cs. io_call c))"

lemma only_io_refl: "only_io s s"
  by (simp add: only_io_def)

lemma only_io_trans: "only_io s t \<Longrightarrow> only_io t u \<Longrightarrow> only_io s u"
  unfolding only_io_def by (metis append.assoc Un_iff set_append)

lemma sh_print_some:
  assumes "length str < 256"
  obtains e where "sh_print str s = Some (s\<lparr>sh_env := e\<rparr>)" "only_io s (s\<lparr>sh_env := e\<rparr>)"
  using assms by (auto simp: sh_print_def user_print_def only_io_def ipc_send_call_def call_value_def syscall_def split: prod.splits)

lemma prints_some:
  assumes "\<forall>str \<in> set strs. length str < 256"
  shows "\<exists>e. for_each sh_print strs s = Some (s\<lparr>sh_env := e\<rparr>) \<and> only_io s (s\<lparr>sh_env := e\<rparr>)"
  using assms
proof (induction strs arbitrary: s)
  case Nil
  then show ?case by (intro exI[of _ "sh_env s"]) (simp add: only_io_refl)
next
  case (Cons str strs)
  then have "length str < 256" by simp
  then obtain e where e: "sh_print str s = Some (s\<lparr>sh_env := e\<rparr>)" "only_io s (s\<lparr>sh_env := e\<rparr>)" by (rule sh_print_some)
  obtain e' where "for_each sh_print strs (s\<lparr>sh_env := e\<rparr>) = Some (s\<lparr>sh_env := e'\<rparr>)" "only_io (s\<lparr>sh_env := e\<rparr>) (s\<lparr>sh_env := e'\<rparr>)"
    using Cons.IH[of "s\<lparr>sh_env := e\<rparr>"] Cons.prems by auto
  then show ?case using e by (auto intro: only_io_trans)
qed

text \<open>No command has a name of one letter.\<close>

lemma no_short_command: "find (\<lambda>(name, handler). [c] = name) commands = None"
  by (simp add: commands_def command_texts_def)

lemma execute_short:
  assumes "command_buffer s = line @ NUL # rest" "NUL \<notin> set line" "length line \<le> 1"
  shows "\<exists>e buf. execute_command s = Some (s\<lparr>command_buffer := buf, sh_env := e\<rparr>) \<and> only_io s (s\<lparr>command_buffer := buf, sh_env := e\<rparr>)"
proof -
  obtain argv buf where parse: "parse_command (command_buffer s) 16 = Some (argv, buf)" "map (cstring buf) argv = take 16 (words line)"
    using parse_command_spec[OF assms(1,2), of 16] by blast
  have words: "words line = [] \<or> words line = [line]"
  proof (cases line)
    case (Cons c l)
    then show ?thesis using assms(3) by (cases "blank c") (simp_all add: words.simps[of "[c]"] words.simps[of "[]"])
  qed (simp add: words.simps[of "[]"])
  show ?thesis
  proof (cases "map (cstring buf) argv = []")
    case True
    then show ?thesis using parse by (intro exI[of _ "sh_env s"] exI[of _ buf]) (simp add: execute_command_def only_io_def)
  next
    case False
    then have args: "map (cstring buf) argv = [line]" "line \<noteq> []" using parse(2) words by (auto simp: words.simps[of "[]"])
    then obtain c where line: "line = [c]" using assms(3) by (cases line) auto
    define t where "t = s\<lparr>command_buffer := buf\<rparr>"
    have "execute_command s = for_each sh_print [''Unknown command: '', line, eol [], help_hint] t"
      using parse(1) args(1) no_short_command[of c] by (cases argv) (simp_all add: execute_command_def Let_def line t_def)
    moreover obtain e where "for_each sh_print [''Unknown command: '', line, eol [], help_hint] t = Some (t\<lparr>sh_env := e\<rparr>)" "only_io t (t\<lparr>sh_env := e\<rparr>)"
      using prints_some[of "[''Unknown command: '', line, eol [], help_hint]" t] by (auto simp: eol_def help_hint_def line)
    ultimately show ?thesis by (intro exI[of _ e] exI[of _ buf]) (simp add: t_def only_io_def)
  qed
qed

lemma fresh_env [simp]: "fresh_line (s\<lparr>sh_env := e\<rparr>) = fresh_line s"
  by (simp add: fresh_line_def)

lemma fresh_clear: "shell_running s \<Longrightarrow> fresh_line (clear_command_buffer s)"
  by (simp add: fresh_line_def clear_command_buffer_def)

lemma only_io_clear [simp]: "only_io s (clear_command_buffer t) = only_io s t"
  by (simp add: only_io_def clear_command_buffer_def)

lemma fresh_buffer: "fresh_line s \<Longrightarrow> command_buffer s = [] @ NUL # replicate 255 NUL"
proof -
  have "replicate 256 NUL = NUL # replicate 255 NUL" by (simp flip: replicate_Suc)
  then show "fresh_line s \<Longrightarrow> command_buffer s = [] @ NUL # replicate 255 NUL" by (simp add: fresh_line_def)
qed

text \<open>One character read in a fresh line leaves at most one character in it.\<close>

definition short_line :: "shell \<Rightarrow> bool" where
  "short_line s \<longleftrightarrow> (\<exists>line rest. command_buffer s = line @ NUL # rest \<and> NUL \<notin> set line \<and> length line \<le> 1)"

lemma fresh_short: "fresh_line s \<Longrightarrow> short_line s"
  unfolding short_line_def using fresh_buffer by (intro exI[of _ "[]"] exI[of _ "replicate 255 NUL"]) simp

lemma read_enter_fresh:
  assumes fresh: "fresh_line s"
  shows "\<exists>s'. read_char 13 s = Some s' \<and> only_io s s' \<and> fresh_line s'"
proof -
  have run: "shell_running s" "command_pos s = 0" using fresh by (simp_all add: fresh_line_def)
  obtain e where e: "sh_print (eol []) s = Some (s\<lparr>sh_env := e\<rparr>)" "only_io s (s\<lparr>sh_env := e\<rparr>)"
    by (rule sh_print_some[of "eol []"]) (simp add: eol_def)
  define t where "t = s\<lparr>sh_env := e\<rparr>"
  have "command_buffer (t\<lparr>command_buffer := (command_buffer t)[unat (command_pos t) := NUL]\<rparr>) = [] @ NUL # replicate 255 NUL"
    using fresh_buffer[OF fresh] run(2) by (simp add: t_def)
  from execute_short[OF this] obtain e' b where
    x: "execute_command (t\<lparr>command_buffer := (command_buffer t)[unat (command_pos t) := NUL]\<rparr>) = Some (t\<lparr>command_buffer := b, sh_env := e'\<rparr>)"
      "only_io t (t\<lparr>command_buffer := b, sh_env := e'\<rparr>)"
    by (auto simp: only_io_def)
  define u where "u = clear_command_buffer (t\<lparr>command_buffer := b, sh_env := e'\<rparr>)"
  obtain e'' where p: "sh_print ''MiniSecureOS> '' u = Some (u\<lparr>sh_env := e''\<rparr>)" "only_io u (u\<lparr>sh_env := e''\<rparr>)"
    by (rule sh_print_some[of "''MiniSecureOS> ''"]) simp
  have fu: "fresh_line u" unfolding u_def using run(1) by (intro fresh_clear) (simp add: t_def)
  have "read_char 13 s = Some (u\<lparr>sh_env := e''\<rparr>)"
    using e(1) x(1) p(1) by (simp add: read_char_def t_def[symmetric] u_def[symmetric] display_prompt_def)
  moreover have "only_io s u" using only_io_trans[OF e(2)] x(2) by (simp add: u_def t_def)
  then have "only_io s (u\<lparr>sh_env := e''\<rparr>)" using only_io_trans p(2) by blast
  ultimately show ?thesis using fu by (simp add: fresh_line_def)
qed

lemma char_not_nul:
  fixes ch :: u8
  assumes "ch \<noteq> 0"
  shows "char_of (unat ch) \<noteq> NUL"
proof
  assume "char_of (unat ch) = NUL"
  then have "of_char NUL = unat ch mod 256" by (metis of_char_of)
  moreover have "unat ch < 256" using unsigned_less[of ch] by simp
  ultimately show False using assms by (simp add: unat_eq_0)
qed

lemma read_glyph_fresh:
  assumes fresh: "fresh_line s" and ch: "ch \<noteq> 13" "\<not> (ch = 8 \<or> ch = 127)" "ch \<ge> 32 \<and> ch \<le> 126"
  shows "\<exists>s'. read_char ch s = Some s' \<and> only_io s s' \<and> shell_running s' \<and> short_line s'"
proof -
  have run: "shell_running s" "command_pos s = 0" using fresh by (simp_all add: fresh_line_def)
  define t where "t = s\<lparr>command_buffer := (command_buffer s)[unat (command_pos s) := char_of (unat ch)], command_pos := command_pos s + 1\<rparr>"
  obtain e where e: "sh_print [char_of (unat ch)] t = Some (t\<lparr>sh_env := e\<rparr>)" "only_io t (t\<lparr>sh_env := e\<rparr>)"
    by (rule sh_print_some[of "[char_of (unat ch)]"]) simp
  have pos: "command_pos s < 255" using run(2) by simp
  have "read_char ch s = Some (t\<lparr>sh_env := e\<rparr>)" using ch pos e(1) by (simp add: read_char_def t_def)
  moreover have "only_io s (t\<lparr>sh_env := e\<rparr>)" using e(2) by (simp add: t_def only_io_def)
  moreover have "command_buffer t = [char_of (unat ch)] @ NUL # replicate 254 NUL"
  proof -
    have "replicate 255 NUL = NUL # replicate 254 NUL" by (simp flip: replicate_Suc)
    then show ?thesis using fresh_buffer[OF fresh] run(2) by (simp add: t_def)
  qed
  moreover have "char_of (unat ch) \<noteq> NUL" using ch(3) by (intro char_not_nul) auto
  ultimately show ?thesis using run(1) unfolding short_line_def
    by (intro exI[of _ "t\<lparr>sh_env := e\<rparr>"] conjI exI[of _ "[char_of (unat ch)]"] exI[of _ "replicate 254 NUL"]) (auto simp: t_def)
qed

lemma read_char_fresh:
  assumes fresh: "fresh_line s"
  shows "\<exists>s'. read_char ch s = Some s' \<and> only_io s s' \<and> shell_running s' \<and> short_line s'"
proof -
  consider (enter) "ch = 13" | (glyph) "ch \<noteq> 13" "\<not> (ch = 8 \<or> ch = 127)" "ch \<ge> 32 \<and> ch \<le> 126"
    | (other) "ch \<noteq> 13" "(ch = 8 \<or> ch = 127) \<or> \<not> (ch \<ge> 32 \<and> ch \<le> 126)" by blast
  then show ?thesis
  proof cases
    case enter
    then show ?thesis using read_enter_fresh[OF fresh] fresh_short by (auto simp: fresh_line_def)
  next
    case glyph
    then show ?thesis by (rule read_glyph_fresh[OF fresh])
  next
    case other
    then have "read_char ch s = Some s" using fresh by (auto simp: read_char_def fresh_line_def)
    then show ?thesis using fresh fresh_short[OF fresh] by (simp add: only_io_refl fresh_line_def)
  qed
qed

lemma read_command_fresh:
  assumes fresh: "fresh_line s"
  shows "\<exists>s'. read_command s = Some s' \<and> only_io s s' \<and> shell_running s' \<and> short_line s'"
proof -
  have call: "sh_call f s = (fst (f (sh_env s)), s\<lparr>sh_env := snd (f (sh_env s))\<rparr>)" for f :: "env \<Rightarrow> 'a \<times> env" and s
    by (simp add: sh_call_def split: prod.splits)
  have req: "only_io s (s\<lparr>sh_env := snd (driver_request 2 m (sh_env s))\<rparr>)" for m s
    by (simp add: only_io_def driver_request_def call_value_def syscall_def split: prod.splits)
  have rcv: "only_io s (s\<lparr>sh_env := snd (ipc_receive_call 2 m True (sh_env s))\<rparr>)" for m s
    by (simp add: only_io_def ipc_receive_call_def syscall_def split: prod.splits)
  define m where "m = empty_msg\<lparr>a_msg_type := DRIVER_MSG_READ, a_data_size := 0\<rparr>"
  define t where "t = s\<lparr>sh_env := snd (driver_request 2 m (sh_env s))\<rparr>"
  define u where "u = t\<lparr>sh_env := snd (ipc_receive_call 2 empty_msg True (sh_env t))\<rparr>"
  have f: "fresh_line t" "fresh_line u" using fresh by (simp_all add: t_def u_def)
  have io: "only_io s t" "only_io s u" using req[of s m] rcv[of t empty_msg] by (auto simp: t_def u_def intro: only_io_trans)
  have "read_command s = Some t \<or> read_command s = Some u \<or> (\<exists>ch. read_command s = read_char ch u)"
    unfolding read_command_def Let_def call m_def[symmetric] t_def[symmetric] prod.case u_def[symmetric]
    by (auto simp: case_prod_unfold)
  then show ?thesis
  proof (elim disjE exE)
    fix ch
    assume "read_command s = read_char ch u"
    then show ?thesis using read_char_fresh[OF f(2), of ch] io(2) only_io_trans by metis
  qed (use fresh_short f io in \<open>simp_all add: fresh_line_def\<close>)
qed

lemma iteration_fresh:
  assumes fresh: "fresh_line s"
  shows "\<exists>s'. shell_iteration s = Some s' \<and> fresh_line s' \<and> only_io s s'"
proof -
  obtain s1 line rest where s1: "read_command s = Some s1" "only_io s s1" "shell_running s1"
      "command_buffer s1 = line @ NUL # rest" "NUL \<notin> set line" "length line \<le> 1"
    using read_command_fresh[OF fresh] unfolding short_line_def by blast
  obtain e buf where x: "execute_command s1 = Some (s1\<lparr>command_buffer := buf, sh_env := e\<rparr>)" "only_io s1 (s1\<lparr>command_buffer := buf, sh_env := e\<rparr>)"
    using execute_short[OF s1(4-6)] by blast
  show ?thesis
  proof (cases "command_pos s1 > 0")
    case True
    then have "shell_iteration s = Some (clear_command_buffer (s1\<lparr>command_buffer := buf, sh_env := e\<rparr>))"
      by (simp add: shell_iteration_def s1(1) x(1))
    then show ?thesis using only_io_trans[OF s1(2) x(2)] s1(3) by (auto intro: fresh_clear)
  next
    case False
    then have "shell_iteration s = Some (clear_command_buffer s1)" by (simp add: shell_iteration_def s1(1))
    then show ?thesis using s1(2,3) by (auto intro: fresh_clear)
  qed
qed

lemma loop_result_not_fresh: "shell_loop s = Some r \<Longrightarrow> \<not> fresh_line s"
proof (induction rule: shell_loop.raw_induct[rotated 1, consumes 1, case_names step])
  case (step loop s r)
  show ?case
  proof
    assume fresh: "fresh_line s"
    then obtain s' where s': "shell_iteration s = Some s'" "fresh_line s'" using iteration_fresh by blast
    have "loop s' = Some r" using step(2) s'(1) fresh by (simp add: fresh_line_def)
    then show False using step(1) s'(2) by blast
  qed
qed

lemma loop_never_ends: "fresh_line s \<Longrightarrow> shell_loop s = None"
  using loop_result_not_fresh by (cases "shell_loop s") auto

lemma shell_main_never_ends:
  assumes "fresh_line s"
  shows "shell_main s = None" "shell_start j s = None"
proof -
  obtain e1 where p: "for_each sh_print [eol ''MiniSecureOS Shell v1.0'', help_hint, ''MiniSecureOS> ''] s = Some (s\<lparr>sh_env := e1\<rparr>)"
    using prints_some[of "[eol ''MiniSecureOS Shell v1.0'', help_hint, ''MiniSecureOS> '']" s] by (auto simp: eol_def help_hint_def)
  have "fresh_line (s\<lparr>sh_env := e1\<rparr>)" using assms by (simp add: fresh_line_def)
  then show "shell_main s = None" using p loop_never_ends unfolding shell_main_def
    by (simp add: display_prompt_def split: option.splits)
  then show "shell_start j s = None" by (simp add: shell_start_def)
qed

text \<open>
  C23: The shell never runs a command. Whatever the keyboard driver and the kernel answer, it prints its greeting and then, for any
  number of iterations of its loop, reads one character, tries the line of at most that character as a command, and empties the
  line again; since every command has a longer name, each iteration only reads and prints, no handler is ever called, and the shell
  does not end: \<^verbatim>\<open>exit\<close> cannot be typed either.
\<close>

theorem shell_runs_no_command:
  "shell_main \<lparr>shell_running = True, command_buffer = replicate 256 NUL, command_pos = 0, sh_env = e\<rparr> = None \<and>
   (\<exists>s. for_each sh_print [eol ''MiniSecureOS Shell v1.0'', help_hint, ''MiniSecureOS> '']
       \<lparr>shell_running = True, command_buffer = replicate 256 NUL, command_pos = 0, sh_env = e\<rparr> = Some s \<and>
     (\<exists>s'. for_each (\<lambda>_. shell_iteration) [0..<n] s = Some s' \<and> fresh_line s' \<and> only_io s s'))"
proof -
  define s0 where "s0 = \<lparr>shell_running = True, command_buffer = replicate 256 NUL, command_pos = 0, sh_env = e\<rparr>"
  have f0: "fresh_line s0" by (simp add: s0_def fresh_line_def)
  obtain e1 where p: "for_each sh_print [eol ''MiniSecureOS Shell v1.0'', help_hint, ''MiniSecureOS> ''] s0 = Some (s0\<lparr>sh_env := e1\<rparr>)"
    using prints_some[of "[eol ''MiniSecureOS Shell v1.0'', help_hint, ''MiniSecureOS> '']" s0] by (auto simp: eol_def help_hint_def)
  define s where "s = s0\<lparr>sh_env := e1\<rparr>"
  have f: "fresh_line s" using f0 by (simp add: s_def)
  have "shell_main s0 = None" by (rule shell_main_never_ends[OF f0])
  moreover have "\<exists>s'. for_each (\<lambda>_. shell_iteration) [0..<n] s = Some s' \<and> fresh_line s' \<and> only_io s s'"
  proof (induction n)
    case 0
    then show ?case using f by (simp add: only_io_refl)
  next
    case (Suc n)
    then obtain s' where s': "for_each (\<lambda>_. shell_iteration) [0..<n] s = Some s'" "fresh_line s'" "only_io s s'" by blast
    obtain s'' where "shell_iteration s' = Some s''" "fresh_line s''" "only_io s' s''" using iteration_fresh[OF s'(2)] by blast
    then show ?case using s' only_io_trans by (auto simp: for_each_append)
  qed
  ultimately show ?thesis using p unfolding s0_def[symmetric] s_def[symmetric] by blast
qed

end
