(* ===== verification/Monitor.thy ===== *)
theory Monitor
  imports Userspace
begin

text \<open>
  The system monitor, \<^verbatim>\<open>userspace/monitor.c\<close>, and the first process, \<^verbatim>\<open>userspace/init.c\<close>. Both are loops over system calls; the
  monitor's ends when the keyboard driver delivers the code of Ctrl+C.
\<close>

section \<open>Init\<close>

definition init_greeting :: string where
  "init_greeting = ''PID 1 (Init) is alive and running in user mode!'' @ [CHR 0x0D, CHR 0x0A]"

definition debug_print :: "string \<Rightarrow> env \<Rightarrow> env" where
  "debug_print str e = snd (syscall (Text 0x41 str 0) e)"

text \<open>The state after \<open>n\<close> iterations of the loop, which has no end.\<close>

definition init_start :: "nat \<Rightarrow> env \<Rightarrow> env" where
  "init_start n e = (process_yield_call ^^ n) (debug_print init_greeting e)"

section \<open>The displays\<close>

abbreviation (input) TAB :: char where "TAB \<equiv> CHR 0x09"

text \<open>What is printed in one call: a text, a text with its line end, or the ticks divided by a number, asked for at that moment.\<close>

datatype item = Lit string | Line string | Ticks nat

fun print_item :: "item \<Rightarrow> env \<Rightarrow> env option" where
  "print_item (Lit str) e = user_print str e"
| "print_item (Line str) e = user_print (str @ [CHR 0x0D, CHR 0x0A]) e"
| "print_item (Ticks n) e = (let (t, e) = driver_get_ticks e in user_print_hex (t div of_nat n) e)"

definition display_system_info :: "env \<Rightarrow> env option" where
  "display_system_info e =
     Option.bind (print_item (Line ''=== SYSTEM INFORMATION ==='') e) (\<lambda>e.
     let (uptime, e) = driver_get_ticks e; seconds = uptime div 100
     in Option.bind (print_item (Lit ''Uptime: '') e) (\<lambda>e.
        Option.bind (user_print_hex seconds e) (\<lambda>e.
        for_each print_item [Line '' seconds'', Line ''Kernel Version: MiniSecureOS v1.0'', Line ''Architecture: 32-bit x86'',
          Line ''CPU: Single-core i386'', Line []] e)))"

definition process_items :: "item list" where
  "process_items =
     [Line ''=== PROCESS INFORMATION ==='', Line (''PID'' @ [TAB] @ ''STATE'' @ [TAB] @ ''CPU_TIME'' @ [TAB] @ ''PRIORITY''),
      Line (''---'' @ [TAB] @ ''-----'' @ [TAB] @ ''--------'' @ [TAB] @ ''--------''),
      Line (''1'' @ [TAB] @ ''RUNNING'' @ [TAB] @ ''1000'' @ [TAB, TAB] @ ''HIGH''), Line (''2'' @ [TAB] @ ''RUNNING'' @ [TAB] @ ''500'' @ [TAB, TAB] @ ''HIGH''),
      Line (''3'' @ [TAB] @ ''RUNNING'' @ [TAB] @ ''300'' @ [TAB, TAB] @ ''HIGH''), Line (''4'' @ [TAB] @ ''RUNNING'' @ [TAB] @ ''200'' @ [TAB, TAB] @ ''HIGH''),
      Line (''5'' @ [TAB] @ ''RUNNING'' @ [TAB] @ ''100'' @ [TAB, TAB] @ ''NORMAL''), Line (''6'' @ [TAB] @ ''RUNNING'' @ [TAB] @ ''50'' @ [TAB, TAB] @ ''NORMAL''),
      Line []]"

definition memory_items :: "item list" where
  "memory_items =
     [Line ''=== MEMORY INFORMATION ==='', Line ''Physical Memory:'', Line ''  Total: 16 MB (16384 KB)'', Line ''  Used:  4 MB (4096 KB)'',
      Line ''  Free:  12 MB (12288 KB)'', Line ''  Usage: 25%'', Line (CHR 0x0A # ''Virtual Memory:''), Line ''  Page Size: 4 KB'',
      Line ''  Total Pages: 4096'', Line ''  Used Pages: 1024'', Line ''  Free Pages: 3072'', Line (CHR 0x0A # ''Memory Allocation:''),
      Line ''  Kernel: 2 MB'', Line ''  Drivers: 1 MB'', Line ''  User Space: 1 MB'', Line []]"

definition driver_items :: "item list" where
  "driver_items =
     [Line ''=== DRIVER INFORMATION ==='', Line (''PID'' @ [TAB] @ ''NAME'' @ [TAB, TAB] @ ''STATUS'' @ [TAB, TAB] @ ''CAPABILITIES''),
      Line (''---'' @ [TAB] @ ''----'' @ [TAB, TAB] @ ''------'' @ [TAB, TAB] @ ''-----------''),
      Line (''2'' @ [TAB] @ ''keyboard'' @ [TAB] @ ''ACTIVE'' @ [TAB, TAB] @ ''READ, IRQ''), Line (''3'' @ [TAB] @ ''console'' @ [TAB, TAB] @ ''ACTIVE'' @ [TAB, TAB] @ ''WRITE''),
      Line (''4'' @ [TAB] @ ''timer'' @ [TAB, TAB] @ ''ACTIVE'' @ [TAB, TAB] @ ''READ, IOCTL''), Line (CHR 0x0A # ''Driver Statistics:''),
      Line ''  Total Drivers: 3'', Line ''  Active Drivers: 3'', Line ''  Failed Drivers: 0'', Line (CHR 0x0A # ''Interrupt Handling:''),
      Lit ''  Timer IRQ (0): '', Ticks 1, Line '' interrupts'', Line ''  Keyboard IRQ (1): 0 interrupts'', Lit ''  Total Interrupts: '', Ticks 1,
      Line [], Line []]"

definition performance_items :: "item list" where
  "performance_items =
     [Line ''=== PERFORMANCE STATISTICS ==='', Line ''CPU Usage:'', Lit ''  Total CPU Time: '', Ticks 1, Line '' ticks'', Line ''  Idle Time: 0%'',
      Line ''  System Time: 60%'', Line ''  User Time: 40%'', Line (CHR 0x0A # ''Scheduler:''), Lit ''  Schedule Count: '', Ticks 1, Line [],
      Lit ''  Context Switches: '', Ticks 10, Line [], Line ''  Time Quantum: 10 ms'', Line (CHR 0x0A # ''IPC Statistics:''),
      Lit ''  Messages Sent: '', Ticks 5, Line [], Lit ''  Messages Received: '', Ticks 5, Line [], Line ''  Queue Overflows: 0'',
      Line (CHR 0x0A # ''System Calls:''), Lit ''  Total Syscalls: '', Ticks 2, Line [], Lit ''  Process Management: '', Ticks 20, Line [],
      Lit ''  Memory Management: '', Ticks 30, Line [], Lit ''  IPC Operations: '', Ticks 10, Line [], Line []]"

definition display_process_info :: "env \<Rightarrow> env option" where
  "display_process_info = for_each print_item process_items"

definition display_memory_info :: "env \<Rightarrow> env option" where
  "display_memory_info = for_each print_item memory_items"

definition display_driver_info :: "env \<Rightarrow> env option" where
  "display_driver_info = for_each print_item driver_items"

definition display_performance_stats :: "env \<Rightarrow> env option" where
  "display_performance_stats = for_each print_item performance_items"

section \<open>The loop\<close>

text \<open>Whether the key read is Ctrl+C.\<close>

definition monitor_key :: "env \<Rightarrow> bool \<times> env" where
  "monitor_key e =
     (let (result, e) = driver_request 2 (empty_msg\<lparr>a_msg_type := DRIVER_MSG_READ, a_data_size := 0\<rparr>) e
      in if result = 0 then
           (let ((st, response), e) = ipc_receive_call 2 empty_msg True e
            in (st = 0 \<and> a_data_size response \<ge> 1 \<and> a_data response ! 0 = 3, e))
         else (False, e))"

definition monitor_page :: "env \<Rightarrow> env option" where
  "monitor_page e =
     for_each (\<lambda>display. display) [display_system_info, display_process_info, display_memory_info, display_driver_info,
       display_performance_stats, print_item (Line []), print_item (Line ''Updating in 5 seconds...'')] e"

definition clear_msg :: abi_msg where
  "clear_msg = empty_msg\<lparr>a_msg_type := DRIVER_MSG_IOCTL, a_data_size := 4, a_data := put32 0 0x01 (a_data empty_msg)\<rparr>"

partial_function (option) monitor_loop :: "env \<Rightarrow> env option" where
  "monitor_loop e =
     Option.bind (monitor_page e) (\<lambda>e.
     let (stop, e) = monitor_key e
     in if stop then Some e else monitor_loop (snd (driver_request 3 clear_msg e)))"

definition monitor_main :: "env \<Rightarrow> env option" where
  "monitor_main e =
     Option.bind (for_each print_item [Line ''MiniSecureOS System Monitor v1.0'', Lit (''Press Ctrl+C to exit'' @ [CHR 0x0D, CHR 0x0A, CHR 0x0D, CHR 0x0A])] e) (\<lambda>e.
     Option.bind (monitor_loop e) (\<lambda>e. print_item (Line ''Monitor terminated'') e))"

definition monitor_start :: "nat \<Rightarrow> env \<Rightarrow> env option" where
  "monitor_start j e = map_option (\<lambda>e. start_program process_yield_call j (Exits 0 e)) (monitor_main e)"

section \<open>When the monitor ends\<close>

fun item_fits :: "item \<Rightarrow> bool" where
  "item_fits (Lit s) \<longleftrightarrow> length s < 256"
| "item_fits (Line s) \<longleftrightarrow> length s < 254"
| "item_fits (Ticks n) \<longleftrightarrow> True"

lemma user_print_hex_total: "\<exists>e'. user_print_hex v e = Some e'"
  by (simp add: user_print_hex_some)

lemma print_item_total: "item_fits i \<Longrightarrow> \<exists>e'. print_item i e = Some e'"
  by (cases i) (simp_all add: user_print_def user_print_hex_total split: prod.splits)

lemma print_items_total: "list_all item_fits is \<Longrightarrow> \<exists>e'. for_each print_item is e = Some e'"
proof (induction "is" arbitrary: e)
  case (Cons i "is")
  then show ?case using print_item_total[of i e] by fastforce
qed simp

lemma items_fit: "list_all item_fits process_items" "list_all item_fits memory_items" "list_all item_fits driver_items" "list_all item_fits performance_items"
  by (simp_all add: process_items_def memory_items_def driver_items_def performance_items_def)

lemma system_info_total: "\<exists>e'. display_system_info e = Some e'"
proof -
  obtain e1 where e1: "print_item (Line ''=== SYSTEM INFORMATION ==='') e = Some e1" using print_item_total[of "Line ''=== SYSTEM INFORMATION ===''" e] by auto
  obtain u e2 where e2: "driver_get_ticks e1 = (u, e2)" by (cases "driver_get_ticks e1")
  obtain e3 where e3: "print_item (Lit ''Uptime: '') e2 = Some e3" using print_item_total[of "Lit ''Uptime: ''" e2] by auto
  obtain e4 where e4: "user_print_hex (u div 100) e3 = Some e4" using user_print_hex_total by blast
  define tail where "tail = [Line '' seconds'', Line ''Kernel Version: MiniSecureOS v1.0'', Line ''Architecture: 32-bit x86'',
    Line ''CPU: Single-core i386'', Line []]"
  have "list_all item_fits tail" by (simp add: tail_def)
  then obtain e5 where e5: "for_each print_item tail e4 = Some e5" using print_items_total by blast
  show ?thesis unfolding display_system_info_def tail_def[symmetric] e1 bind.simps e2 Let_def prod.case e3 e4 e5 by blast
qed

lemma displays_total:
  "\<forall>d \<in> set ds. \<forall>e. \<exists>e'. d e = Some e' \<Longrightarrow> \<exists>e'. for_each (\<lambda>d. d) ds e = Some e'" for ds :: "(env \<Rightarrow> env option) list"
proof (induction ds arbitrary: e)
  case (Cons d ds)
  then obtain e1 where "d e = Some e1" using list.set_intros(1) by metis
  then show ?case using Cons.IH[of e1] Cons.prems by simp
qed simp

lemma page_total: "\<exists>e'. monitor_page e = Some e'"
  unfolding monitor_page_def
proof (rule displays_total, intro ballI allI)
  fix d e
  assume "d \<in> set [display_system_info, display_process_info, display_memory_info, display_driver_info,
       display_performance_stats, print_item (Line []), print_item (Line ''Updating in 5 seconds...'')]"
  then consider "d = display_system_info" | "d = for_each print_item process_items" | "d = for_each print_item memory_items"
    | "d = for_each print_item driver_items" | "d = for_each print_item performance_items" | "d = print_item (Line [])"
    | "d = print_item (Line ''Updating in 5 seconds...'')"
    by (auto simp: display_process_info_def display_memory_info_def display_driver_info_def display_performance_stats_def)
  then show "\<exists>e'. d e = Some e'"
  proof cases
    case 6
    then show ?thesis by (simp only: print_item_total[of "Line []"] item_fits.simps list.size)
  next
    case 7
    then show ?thesis using print_item_total[of "Line ''Updating in 5 seconds...''" e] by simp
  qed (simp_all only: system_info_total print_items_total items_fit)
qed

text \<open>One round: the page, the key, and whether it was Ctrl+C; the next round begins on a cleared screen.\<close>

definition monitor_round :: "env \<Rightarrow> bool \<times> env" where
  "monitor_round e = monitor_key (the (monitor_page e))"

definition next_round :: "env \<Rightarrow> env" where
  "next_round e = snd (driver_request 3 clear_msg (snd (monitor_round e)))"

lemma monitor_loop_step: "monitor_loop e = (if fst (monitor_round e) then Some (snd (monitor_round e)) else monitor_loop (next_round e))"
proof -
  obtain e' where "monitor_page e = Some e'" using page_total by blast
  then show ?thesis by (subst monitor_loop.simps) (simp add: monitor_round_def next_round_def split: prod.splits)
qed

lemma monitor_loop_none: "monitor_loop e = Some r \<Longrightarrow> \<exists>n. fst (monitor_round ((next_round ^^ n) e))"
proof (induction rule: monitor_loop.raw_induct[rotated 1, consumes 1, case_names step])
  case (step loop e r)
  obtain e' where e': "monitor_page e = Some e'" using page_total by blast
  show ?case
  proof (cases "fst (monitor_round e)")
    case True
    then show ?thesis by (intro exI[of _ 0]) simp
  next
    case False
    then have "loop (next_round e) = Some r" using step(2) e' by (simp add: monitor_round_def next_round_def split: prod.splits if_splits)
    then obtain n where "fst (monitor_round ((next_round ^^ n) (next_round e)))" using step(1) by blast
    then show ?thesis by (intro exI[of _ "Suc n"]) (simp add: funpow_swap1)
  qed
qed

text \<open>The monitor ends exactly when some round reads Ctrl+C, after the first such round.\<close>

lemma monitor_ends_iff: "(\<exists>r. monitor_loop e = Some r) \<longleftrightarrow> (\<exists>n. fst (monitor_round ((next_round ^^ n) e)))"
proof
  assume "\<exists>n. fst (monitor_round ((next_round ^^ n) e))"
  then obtain n where "fst (monitor_round ((next_round ^^ n) e))" by blast
  then show "\<exists>r. monitor_loop e = Some r"
  proof (induction n arbitrary: e)
    case 0
    then show ?case by (simp add: monitor_loop_step[of e])
  next
    case (Suc n)
    then have "\<exists>r. monitor_loop (next_round e) = Some r" by (simp add: funpow_swap1)
    then show ?case by (subst monitor_loop_step) simp
  qed
qed (use monitor_loop_none in blast)

text \<open>Once it has ended, its process only yields.\<close>

lemma monitor_start_yields:
  assumes "monitor_main e = Some r"
  shows "map_option e_calls (monitor_start j e) = Some (replicate j (Plain 0x03 0 0 0) @ e_calls r)"
  using assms by (simp add: monitor_start_def yields_calls)

end
