(* ===== verification/Spec2Isabelle.thy ===== *)
theory Spec2Isabelle
  imports Boot_Stages System_Start Kernel_Typing Transport Keyboard Console_Driver Timer_Driver Shell Monitor
begin

text \<open>
  Cat-OS (MiniSecureOS): a 32-bit x86 microkernel, its drivers and its user programs.

  \<^bold>\<open>The program.\<close> The boot loader puts the kernel in memory and jumps to \<^verbatim>\<open>kernel_main\<close> (\<^verbatim>\<open>kernel/main.c\<close>), which initialises the
  hardware layer (\<^verbatim>\<open>hal/\<close>), the page allocator and paging (\<^verbatim>\<open>kernel/memory.c\<close>), the scheduler, capabilities, message passing, the
  system call table and the interrupt table, starts the drivers and user programs as processes, and idles until the timer
  switches to the first of them. From then on the kernel runs only when it is entered by an interrupt, an exception or a system call. Drivers
  (\<^verbatim>\<open>drivers/\<close>) and programs (\<^verbatim>\<open>userspace/\<close>) are processes that talk to each other by messages through system calls.

  \<^bold>\<open>The theories\<close>, in the order of their imports, and what each proves.

  \<^item> \<open>CatOS_Prelude\<close>: C integer types as words, status codes, the collections of simplification rules, and \<open>for_each\<close>, the loop over a
    counter whose body may fail. \<open>Machine_Memory\<close>: the byte-addressed physical memory with 32-bit accesses and the two byte
    loops of the C runtime.
  \<^item> \<open>Bit_Array\<close>: the contract of a set of numbers packed in 32-bit words, as a locale; it is instantiated by the page bitmap and by the
    port permissions.
  \<^item> \<open>Phys_Alloc\<close>: the page bitmap of \<^verbatim>\<open>kernel/memory.c\<close>, first-fit allocation and freeing, and the contract of an
    allocator. \<open>Paging\<close>: page directories and tables in memory, mapping and the walk of the processor. \<open>Address_Space\<close>: the tables as a
    finite map, with the contract that process creation and system calls rely on.
  \<^item> \<open>Linked_Queue\<close>: the contract of a linked queue, instantiated by the scheduler's doubly linked ready queue and by the singly linked
    message queues. \<open>Scheduler\<close>: \<^verbatim>\<open>kernel/scheduler.c\<close> as a round-robin scheduler. \<open>Capability\<close>: \<^verbatim>\<open>kernel/capability.c\<close>.
  \<^item> \<open>Port_IO\<close>, \<open>Serial\<close>, \<open>Pic\<close>, \<open>Gdt\<close>, \<open>Idt\<close>, \<open>Hal_Cpu\<close>, \<open>Hal_Timer\<close>: the hardware layer and the tables of the processor.
  \<^item> \<open>Kernel_State\<close>: all variables of the kernel in one record and the type of results, \<open>outcome\<close>. \<open>Process\<close>: \<^verbatim>\<open>kernel/process.c\<close>.
    \<open>Context\<close>: the assembly of the context switch over a register file. \<open>Ipc\<close> and \<open>Mailbox\<close>: \<^verbatim>\<open>kernel/ipc.c\<close> over queues in memory, and
    their refinement to mailboxes.
  \<^item> \<open>Syscall\<close>: \<^verbatim>\<open>kernel/syscall.c\<close>, the table and all handlers. \<open>Interrupt\<close>: \<^verbatim>\<open>kernel/interrupt.c\<close>, from the words the processor
    pushes to the return. \<open>Boot_Memory\<close>: how the pages fill up while the kernel starts; \<open>Kernel_Main\<close>: the start. \<open>Boot_Loader\<close>:
    \<^verbatim>\<open>boot/stage2_c.c\<close>, which puts the images where the kernel expects them. \<open>System_Start\<close>: both together, from the image on the disk to
    the programs that the services run. \<open>Boot_Stages\<close>: the second stages that came before it, which enter protected mode from C, and the test kernel
    \<^verbatim>\<open>kernel/simple_kernel.c\<close>.
  \<^item> \<open>Kernel_Typing\<close>: the system as a step relation of programs, interrupts and switches. The contract \<open>kernel_invariant\<close> says which
    predicates every entry into the kernel keeps; it is instantiated by the types of the whole kernel state, by the directory in use and by the identifiers of the processes. The
    variables of the kernel are fields of its record, so that a program, and the copy of a message to an address that the kernel does not
    check, can change memory but not them: programs are taken not to write there.
  \<^item> \<open>Driver_Manager\<close>: the messages of the user programs and the registry linked into each driver, shown to be a finite map through
    the contract \<open>registry\<close>. \<open>Userspace\<close>: system call wrappers, string functions, printing, sleeping. \<open>Keyboard\<close>,
    \<open>Console_Driver\<close>, \<open>Timer_Driver\<close>: the three drivers, each shown to implement an abstract machine (a bounded queue, a terminal, a set of
    deadlines). \<open>Shell\<close>, \<open>Monitor\<close>: the programs and the first process.
  \<^item> \<open>Transport\<close>: a message from the buffer of the sender through two system calls to the buffer of the receiver.
  \<^item> This theory: a text from the program that prints it through the kernel and the console driver to the screen.

  \<^bold>\<open>State.\<close> A static variable of a C file is a field of a record with its name (\<open>mm\<close>, \<open>sched\<close>, \<open>caps\<close>, \<open>kernel\<close>, \<open>keyboard\<close>,
  \<open>console\<close>, \<open>timer_state\<close>, \<open>shell\<close>). What the kernel reaches through pointers obtained from its page allocator (page
  tables, capabilities, message queues, stacks, the trap frame) lies in one byte memory at the offsets of the C structures, so that aliasing is
  part of the model; process control blocks are a table indexed by slot, since the code only passes around pointers to slots.

  \<^bold>\<open>Results.\<close> An operation with an access outside an array, a division by zero or a shift by too much has the result \<open>None\<close>; so has a loop
  that does not end, written with \<open>partial_function\<close>. The theorems show that the result is there. In the kernel, \<open>outcome\<close>
  has three cases: \<open>Return\<close> with a value, \<open>Switch\<close> with the two processes when control goes to another process, so that
  the statements after the call run when the first is scheduled again, and \<open>Halt\<close> for the panic.

  \<^bold>\<open>Parameters\<close> stand for what is not code of the repository. Devices answer by a function of the history of port
  accesses (\<open>dev_inb\<close>); the serial port is assumed to become ready at some time (\<open>uart_ready\<close>). The processor's answers (flags, CPUID, time
  stamp counter, control register 2) are a record. The linker's symbols and the addresses of the entry points are
  arguments (\<open>layout\<close>). For a user program the kernel is a function of the calls made so far (\<open>kernel\<close>), so that a theorem holds whatever the
  kernel answers. The number of interrupts during a halt is an argument of the waits. Each theorem with such a hypothesis has a
  witness with a concrete function. The kernel's console output is kept as a list of characters in the kernel state; \<open>Serial\<close>
  proves that the routine that prints puts exactly these characters on the line.

  \<^bold>\<open>Bounds.\<close> The model has no fuel and no bound of its own: all loops are structural, have a termination proof, or are partial. The endless loops of the
  drivers are run for any number of iterations, an argument of their \<^verbatim>\<open>main\<close> over which the theorems quantify. Hypotheses
  bound inputs only where a 32-bit counter or size would wrap around, and the lemmas named in the findings show
  what happens beyond.

  \<^bold>\<open>What the code does not do.\<close> Some theorems and lemmas state that the code behaves other than its comments say: a blocked receiver is
  not found by a sender, so that what is printed while the console driver waits is lost; a process that is killed while it is ready
  stays queued and runs again; a fault of a process when no other is ready resumes the code that faulted; the page directory of a
  process is never loaded; the pages of the loaded programs are not reserved; an exiting process is not cleaned up; a capability
  granted for a resource does not verify; the shell runs no command. They are proved of the same definitions as the rest. The theorems
  on drivers and programs say what their code does where it runs; that the processor does not get to it, because it stays in the
  kernel's address space, is a theorem on the start.

  \<^bold>\<open>Not modelled.\<close> The real-mode assembly of the boot loader. Of the earlier second stages, \<^verbatim>\<open>read_disk\<close>, \<^verbatim>\<open>load_kernel\<close> and
  \<^verbatim>\<open>stage2_main\<close> of \<^verbatim>\<open>boot/stage2_original.c\<close> and \<^verbatim>\<open>stage2_main\<close> of \<^verbatim>\<open>boot/stage2_minimal.c\<close>, whose inline assembly refers to
  labels that do not exist and so means nothing. The test program \<^verbatim>\<open>tests/test_framework.c\<close>, which the build does not compile. The caches of the
  processor for translations, of which the code only reloads control register 3. Interrupts that arrive between two statements of the kernel:
  the gates of all interrupts are interrupt gates, so that the kernel runs with interrupts disabled from its entry on.
\<close>

section \<open>From a program to the screen\<close>

lemma user_print_call:
  assumes "user_print str e = Some e'" "e_calls e' = c # e_calls e"
  shows "length str < 256" and "c = Message 0x20 3 (print_msg str)"
  using assms by (auto simp: user_print_def print_msg_def ipc_send_call_def call_value_def syscall_def split: if_splits prod.splits)

text \<open>A message that carries what a print sends makes the terminal print the text.\<close>

lemma carried_print:
  assumes len: "length str < 256" and m: "valid_msg m" "carried m = stamped k 3 (print_msg str)"
  shows "term_message m t = (STATUS_SUCCESS, fold term_put (map of_char str) t)"
proof -
  have "take (unat (a_data_size m)) (a_data m) = take (length str + 1) (a_data (print_msg str))"
    using arg_cong[OF m(2), of m_data] print_size[OF len] by (simp add: carried_def stamped_def)
  then have d: "take (unat (a_data_size m)) (a_data m) = map of_char str @ [0]"
    using len by (simp add: print_msg_def text_data_def take_map)
  have "a_msg_type m = DRIVER_MSG_WRITE" using arg_cong[OF m(2), of m_type] by (simp add: carried_def stamped_def print_msg_def)
  moreover have sz: "unat (a_data_size m) = length str + 1" using arg_cong[OF d, of length] m(1) by (simp add: valid_msg_def)
  moreover have "take (length str) (a_data m) = map of_char str"
    using arg_cong[OF d, of "take (length str)"] sz by (simp add: take_map)
  ultimately show ?thesis by (simp add: term_message_def)
qed

text \<open>A print that finds the driver.\<close>

lemma print_received:
  assumes len: "length str < 256" and start: "ipc_inv k f" "table_ready k"
    and snd: "sends k f frame (Message 0x20 3 (print_msg str))" and empty: "inbox k f 3 = []" and room: "2 \<le> avail (k_mm k)"
    and r: "scheduler_find_process 3 (k_sched k) = Some (Some r)" "p_state (pcb_of k r) \<noteq> PROCESS_BLOCKED"
  shows "\<exists>k1 f1. syscall_dispatch frame k = Return () k1 \<and> frame_word k1 frame FRAME_EAX = STATUS_SUCCESS \<and> ipc_inv k1 f1 \<and>
      (\<forall>n. user_page k f n \<longrightarrow> user_page k1 f1 n) \<and>
      (\<forall>k2 frame2. undisturbed k1 f1 k2 \<and> receives k2 f1 frame2 3 0 True \<longrightarrow>
        (\<exists>k3. syscall_dispatch frame2 k2 = Return () k3 \<and>
          (\<forall>s buf. con_ok s \<and> console_initialized s \<and> kernel (c_env s) (e_calls (c_env s)) (Receive 0x21 0 True) =
              (frame_word k3 frame2 FRAME_EAX, Some (decode_msg (kmem k3) (buffer_of k2 frame2))) \<longrightarrow>
            (\<exists>m s'. console_main_step (buf, s) = Some (m, s') \<and> con_ok s' \<and>
              con_abs s' = fold term_put (map of_char str) (con_abs s)))))"
proof -
  have empty': "inbox k f (unat (3 :: u32)) = []" using empty by simp
  obtain k1 f1 where k1: "syscall_dispatch frame k = Return () k1" "frame_word k1 frame FRAME_EAX = STATUS_SUCCESS" "ipc_inv k1 f1"
    "\<forall>n. user_page k f n \<longrightarrow> user_page k1 f1 n"
    and rec: "\<And>k2 frame2 sender block. undisturbed k1 f1 k2 \<Longrightarrow> receives k2 f1 frame2 3 sender block \<Longrightarrow>
       sender = 0 \<or> sender = current_pid k \<Longrightarrow> \<exists>k3. delivers k2 frame2 (stamped k 3 (print_msg str)) k3"
    by (rule message_delivered[OF start snd print_size(2)[OF len] empty' room r]) blast
  have "\<exists>k3. syscall_dispatch frame2 k2 = Return () k3 \<and>
      (\<forall>s buf. con_ok s \<and> console_initialized s \<and> kernel (c_env s) (e_calls (c_env s)) (Receive 0x21 0 True) =
          (frame_word k3 frame2 FRAME_EAX, Some (decode_msg (kmem k3) (buffer_of k2 frame2))) \<longrightarrow>
        (\<exists>m s'. console_main_step (buf, s) = Some (m, s') \<and> con_ok s' \<and> con_abs s' = fold term_put (map of_char str) (con_abs s)))"
    if r: "undisturbed k1 f1 k2" "receives k2 f1 frame2 3 0 True" for k2 frame2
  proof -
    from rec[OF r] obtain k3 where k3: "syscall_dispatch frame2 k2 = Return () k3" "frame_word k3 frame2 FRAME_EAX = STATUS_SUCCESS"
      and m: "valid_msg (decode_msg (kmem k3) (buffer_of k2 frame2))"
        "carried (decode_msg (kmem k3) (buffer_of k2 frame2)) = stamped k 3 (print_msg str)" unfolding delivers_def by blast
    have "\<exists>m s'. console_main_step (buf, s) = Some (m, s') \<and> con_ok s' \<and> con_abs s' = fold term_put (map of_char str) (con_abs s)"
      if "con_ok s" "console_initialized s" "kernel (c_env s) (e_calls (c_env s)) (Receive 0x21 0 True) =
        (frame_word k3 frame2 FRAME_EAX, Some (decode_msg (kmem k3) (buffer_of k2 frame2)))" for s buf
      using main_step_refines[OF that(1,2) m(1), of buf] that(3) k3(2) carried_print[OF len m] by auto
    then show ?thesis using k3(1) by blast
  qed
  then show ?thesis using k1 by blast
qed

text \<open>
  C20: What a program prints appears on the screen, through all the parts between, if the console driver is not waiting for it. The
  running process \<open>p\<close> calls \<^verbatim>\<open>print\<close>, with the processes \<open>xs\<close> in the ready queue, the mailbox of the console driver (process 3) empty
  and two pages free; the call it makes, in the trap frame and in memory, enters the kernel's dispatcher. When the driver is
  in the ready queue (or is the caller), the dispatcher returns success; later, when the driver is the current process and
  asks for a message, the dispatcher returns and the driver's buffer holds a message such that one iteration of the
  driver's loop puts exactly the characters of the text, in order, on the terminal, whatever happened in between that does not
  touch the message queues. When the driver is blocked in its receive, where its loop waits, it is not in the ready queue:
  the dispatcher returns \<^verbatim>\<open>STATUS_NOT_FOUND\<close>, its mailbox stays empty and the text is lost.
\<close>

theorem print_reaches_screen:
  assumes print: "user_print str e = Some e'" "e_calls e' = c # e_calls e"
    and start: "ipc_inv k f" "table_ready k" "inbox k f 3 = []" "sends k f frame c" "2 \<le> avail (k_mm k)"
    and procs: "rr_state (k_sched k) (p # xs)"
  shows "if 3 \<in> reached_pids k (p # xs)
    then \<exists>k1 f1. syscall_dispatch frame k = Return () k1 \<and> frame_word k1 frame FRAME_EAX = STATUS_SUCCESS \<and> ipc_inv k1 f1 \<and>
      (\<forall>n. user_page k f n \<longrightarrow> user_page k1 f1 n) \<and>
      (\<forall>k2 frame2. undisturbed k1 f1 k2 \<and> receives k2 f1 frame2 3 0 True \<longrightarrow>
        (\<exists>k3. syscall_dispatch frame2 k2 = Return () k3 \<and>
          (\<forall>s buf. con_ok s \<and> console_initialized s \<and> kernel (c_env s) (e_calls (c_env s)) (Receive 0x21 0 True) =
              (frame_word k3 frame2 FRAME_EAX, Some (decode_msg (kmem k3) (buffer_of k2 frame2))) \<longrightarrow>
            (\<exists>m s'. console_main_step (buf, s) = Some (m, s') \<and> con_ok s' \<and>
              con_abs s' = fold term_put (map of_char str) (con_abs s)))))
    else \<exists>k1. syscall_dispatch frame k = Return () k1 \<and> frame_word k1 frame FRAME_EAX = STATUS_NOT_FOUND \<and> ipc_inv k1 f \<and>
      inbox k1 f 3 = [] \<and> k_sched k1 = k_sched k"
proof (cases "3 \<in> reached_pids k (p # xs)")
  case True
  note C = user_print_call[OF print]
  have snd: "sends k f frame (Message 0x20 3 (print_msg str))" using start(4) C(2) by simp
  obtain r where r: "scheduler_find_process 3 (k_sched k) = Some (Some r)" "p_state (pcb_of k r) \<noteq> PROCESS_BLOCKED"
    using lookup_result(1)[OF procs True] by blast
  show ?thesis unfolding if_P[OF True] by (rule print_received[OF C(1) start(1,2) snd start(3,5) r])
next
  case False
  note C = user_print_call[OF print]
  have snd: "sends k f frame (Message 0x20 3 (print_msg str))" using start(4) C(2) by simp
  obtain k1 where "syscall_dispatch frame k = Return () k1" "frame_word k1 frame FRAME_EAX = STATUS_NOT_FOUND" "ipc_inv k1 f"
    "\<And>j. j < MAX_PROCESSES \<Longrightarrow> inbox k1 f j = inbox k f j" "k_sched k1 = k_sched k"
    by (rule send_not_found[OF start(1,2) snd lookup_result(2)[OF procs False]]) blast
  moreover from this(4)[of 3] have "inbox k1 f 3 = []" using start(3) by (simp add: MAX_PROCESSES_def)
  ultimately show ?thesis unfolding if_not_P[OF False] by blast
qed

theorem print_reaches_screen_witness:
  "(\<exists>k1. syscall_dispatch 0x400 print_kernel_blocked = Return () k1 \<and> frame_word k1 0x400 FRAME_EAX = STATUS_NOT_FOUND) \<and>
   (\<exists>k1 k3. syscall_dispatch 0x400 print_kernel = Return () k1 \<and> syscall_dispatch 0x800 (driver_turn k1) = Return () k3 \<and>
    (let s = demo_console\<lparr>console_initialized := True, c_env := demo_env\<lparr>kernel :=
         (\<lambda>_ _. (frame_word k3 0x800 FRAME_EAX, Some (decode_msg (kmem k3) (buffer_of (driver_turn k1) 0x800))))\<rparr>\<rparr>
     in \<exists>m s'. console_main_step (empty_msg, s) = Some (m, s') \<and> con_abs s' = fold term_put [72, 105] (con_abs s)))"
proof -
  have print: "user_print ''Hi'' demo_env = Some (demo_env\<lparr>e_calls := [Message 0x20 3 (print_msg ''Hi'')]\<rparr>)"
    by (simp add: user_print_def print_msg_def ipc_send_call_def call_value_def syscall_def demo_env_def)
  obtain k1 f1 where k1: "syscall_dispatch 0x400 print_kernel = Return () k1" "ipc_inv k1 f1" "user_page k1 f1 0"
    and rec: "\<And>k2 frame2. undisturbed k1 f1 k2 \<Longrightarrow> receives k2 f1 frame2 3 0 True \<Longrightarrow> \<exists>k3. syscall_dispatch frame2 k2 = Return () k3 \<and>
        (\<forall>s buf. con_ok s \<and> console_initialized s \<and> kernel (c_env s) (e_calls (c_env s)) (Receive 0x21 0 True) =
            (frame_word k3 frame2 FRAME_EAX, Some (decode_msg (kmem k3) (buffer_of k2 frame2))) \<longrightarrow>
          (\<exists>m s'. console_main_step (buf, s) = Some (m, s') \<and> con_ok s' \<and> con_abs s' = fold term_put (map of_char ''Hi'') (con_abs s)))"
    using print_reaches_screen[OF print _ print_kernel_inv(1,2,3) print_kernel_sends print_kernel_ready(1,2)] print_kernel_user
    unfolding if_P[OF print_kernel_ready(3)] by (auto simp: demo_env_def)
  from rec[OF driver_turn_undisturbed[OF k1(2,3)] driver_turn_receives[OF k1(3)]] obtain k3
    where k3: "syscall_dispatch 0x800 (driver_turn k1) = Return () k3"
      and run: "\<And>s buf. con_ok s \<Longrightarrow> console_initialized s \<Longrightarrow> kernel (c_env s) (e_calls (c_env s)) (Receive 0x21 0 True) =
          (frame_word k3 0x800 FRAME_EAX, Some (decode_msg (kmem k3) (buffer_of (driver_turn k1) 0x800))) \<Longrightarrow>
        \<exists>m s'. console_main_step (buf, s) = Some (m, s') \<and> con_ok s' \<and> con_abs s' = fold term_put (map of_char ''Hi'') (con_abs s)"
    by blast
  have "\<exists>m s'. console_main_step (empty_msg, s) = Some (m, s') \<and> con_abs s' = fold term_put [72, 105] (con_abs s)"
    if "s = demo_console\<lparr>console_initialized := True, c_env := demo_env\<lparr>kernel :=
      (\<lambda>_ _. (frame_word k3 0x800 FRAME_EAX, Some (decode_msg (kmem k3) (buffer_of (driver_turn k1) 0x800))))\<rparr>\<rparr>" for s
    using run[of s empty_msg] that by (auto simp: con_ok_def demo_console_def)
  moreover have "\<exists>k1. syscall_dispatch 0x400 print_kernel_blocked = Return () k1 \<and> frame_word k1 0x400 FRAME_EAX = STATUS_NOT_FOUND"
    using print_reaches_screen[OF print _ print_kernel_blocked_inv(1,2,3,4,5) print_kernel_blocked_ready(1)]
    unfolding if_not_P[OF print_kernel_blocked_ready(2)] by (auto simp: demo_env_def)
  ultimately show ?thesis using k1(1) k3 by (simp add: Let_def)
qed

end
